(* ===== verification/Prelude.thy ===== *)
theory Prelude imports Main "HOL-Library.Word" begin

text \<open>
  What the component theories share: the names of the machine types, unsigned 64-bit
  arithmetic on natural numbers with the wrap-around written out, little-endian byte
  images of words, the collections of simplification rules, and the generic
  development of a transition system whose invariant is kept by every step.
\<close>

unbundle bit_operations_syntax

section \<open>Machine types\<close>

type_synonym u8 = "8 word"
type_synonym u16 = "16 word"
type_synonym u32 = "32 word"
type_synonym u64 = "64 word"
type_synonym bytes = "u8 list"

text \<open>
  \<open>std::string\<close> contents are bytes. \<open>ascii\<close> gives the bytes of a literal of the
  source, and \<open>contains\<close> is \<open>std::string::find(...) != npos\<close>.
\<close>

definition ascii :: "string \<Rightarrow> bytes" where
  "ascii s = map (\<lambda>c. of_nat (of_char c)) s"

fun starts_with :: "'a list \<Rightarrow> 'a list \<Rightarrow> bool" where
  "starts_with [] ys = True"
| "starts_with (x # xs) [] = False"
| "starts_with (x # xs) (y # ys) = (x = y \<and> starts_with xs ys)"

fun contains :: "'a list \<Rightarrow> 'a list \<Rightarrow> bool" where
  "contains pat [] = (pat = [])"
| "contains pat (y # ys) = (starts_with pat (y # ys) \<or> contains pat ys)"

section \<open>Unsigned 64-bit arithmetic on natural numbers\<close>

named_theorems u64_simps "exactness of 64-bit arithmetic where no wrap-around happens"

definition u64_max :: nat where
  "u64_max = 2 ^ 64 - 1"

definition add64 :: "nat \<Rightarrow> nat \<Rightarrow> nat" where
  "add64 a b = (a + b) mod 2 ^ 64"

definition sub64 :: "nat \<Rightarrow> nat \<Rightarrow> nat" where
  "sub64 a b = (a + (2 ^ 64 - b mod 2 ^ 64)) mod 2 ^ 64"

definition mul64 :: "nat \<Rightarrow> nat \<Rightarrow> nat" where
  "mul64 a b = (a * b) mod 2 ^ 64"

lemma add64_exact [u64_simps]: "a + b \<le> u64_max \<Longrightarrow> add64 a b = a + b"
  by (simp add: add64_def u64_max_def)

lemma mul64_exact [u64_simps]: "a * b \<le> u64_max \<Longrightarrow> mul64 a b = a * b"
  by (simp add: mul64_def u64_max_def)

lemma sub64_exact [u64_simps]:
  assumes "b \<le> a" "a \<le> u64_max"
  shows "sub64 a b = a - b"
proof -
  have eq: "(a + (m - b mod m)) mod m = a - b" if "b \<le> a" "a < m" for m :: nat
  proof -
    from that have "b mod m = b" by simp
    moreover from that have "a + (m - b) = (a - b) + m" by simp
    ultimately have "(a + (m - b mod m)) mod m = (a - b) mod m" by (simp only: mod_add_self2)
    then show ?thesis using that by simp
  qed
  have "a < 2 ^ 64" using assms by (simp add: u64_max_def)
  with assms(1) show ?thesis unfolding sub64_def by (rule eq)
qed

lemma mod64_le: "(x::nat) mod 2 ^ 64 \<le> u64_max"
proof -
  have "x mod 2 ^ 64 < (2::nat) ^ 64" by simp
  then show ?thesis unfolding u64_max_def by linarith
qed

lemma add64_le [simp]: "add64 a b \<le> u64_max"
  unfolding add64_def by (rule mod64_le)

lemma sub64_le [simp]: "sub64 a b \<le> u64_max"
  unfolding sub64_def by (rule mod64_le)

lemma mul64_le [simp]: "mul64 a b \<le> u64_max"
  unfolding mul64_def by (rule mod64_le)

lemma add64_0 [simp]: "a \<le> u64_max \<Longrightarrow> add64 a 0 = a"
  by (simp add: add64_exact)

lemma sub64_0 [simp]: "a \<le> u64_max \<Longrightarrow> sub64 a 0 = a"
  by (simp add: sub64_exact)

section \<open>Results\<close>

text \<open>A call whose error is passed on, as \<open>throw\<close> does.\<close>

lemma case_sum_eq_Inr: "(case X of Inl e \<Rightarrow> Inl e | Inr n \<Rightarrow> k n) = Inr x \<longleftrightarrow> (\<exists>n. X = Inr n \<and> k n = Inr x)"
  by (cases X) simp_all

section \<open>Little-endian byte images\<close>

named_theorems codec_simps "rewriting a reader applied to what a writer produced"

definition le_bytes :: "nat \<Rightarrow> 'a::len word \<Rightarrow> bytes" where
  "le_bytes n w = map (\<lambda>i. ucast (drop_bit (i * 8) w AND 0xff)) [0..<n]"

definition le_word :: "bytes \<Rightarrow> 'a::len word" where
  "le_word bs = foldl (\<lambda>acc i. acc OR push_bit (i * 8) (ucast (bs ! i))) 0 [0..<length bs]"

lemma unat_take_bit: "unat (take_bit k (b :: 'a::len word)) = unat b mod 2 ^ k"
  by (simp add: unsigned_take_bit_eq take_bit_eq_mod [where 'a = nat] del: take_bit_eq_mod)

lemma unat_eq_iff: "unat a = unat b \<longleftrightarrow> a = b"
  by (metis unsigned_word_eqI)

lemma length_le_bytes [simp]: "length (le_bytes n w) = n"
  by (simp add: le_bytes_def)

lemma bit_foldl_or:
  "bit (foldl (\<lambda>acc i. acc OR f i) a xs) k \<longleftrightarrow> bit (a :: 'a::len word) k \<or> (\<exists>i \<in> set xs. bit (f i) k)"
  by (induction xs arbitrary: a) (auto simp: bit_or_iff)

lemma bit_le_word:
  "bit (le_word bs :: 'a::len word) k \<longleftrightarrow>
     k < LENGTH('a) \<and> k div 8 < length bs \<and> bit (bs ! (k div 8)) (k mod 8)"
proof -
  have "bit (push_bit (i * 8) (ucast (bs ! i)) :: 'a word) k \<longleftrightarrow>
          k < LENGTH('a) \<and> i = k div 8 \<and> bit (bs ! i) (k mod 8)" for i
  proof (cases "i = k div 8")
    case True
    then have "k - i * 8 = k mod 8" and "i * 8 \<le> k"
      by (simp_all add: minus_div_mult_eq_mod)
    then show ?thesis
      using True by (auto simp: bit_push_bit_iff bit_ucast_iff)
  next
    case False
    then have "k < i * 8 \<or> 8 \<le> k - i * 8" by auto
    then show ?thesis
      using False by (auto simp: bit_push_bit_iff bit_ucast_iff dest: bit_imp_le_length)
  qed
  then show ?thesis
    by (auto simp: le_word_def bit_foldl_or)
qed

lemma bit_255: "bit (255 :: 'a::len word) j \<longleftrightarrow> j < 8 \<and> j < LENGTH('a)"
proof -
  have eq: "mask 8 = (255 :: 'a word)" by (simp add: mask_eq_exp_minus_1)
  have "bit (mask 8 :: 'a word) j \<longleftrightarrow> j < 8 \<and> j < LENGTH('a)"
    by (simp only: bit_mask_iff possible_bit_word) auto
  then show ?thesis by (simp only: eq)
qed

lemma bit_le_bytes_nth:
  fixes w :: "'a::len word"
  assumes "i < n"
  shows "bit (le_bytes n w ! i) j \<longleftrightarrow> j < 8 \<and> bit w (i * 8 + j)"
proof -
  have "bit (le_bytes n w ! i) j \<longleftrightarrow> j < 8 \<and> bit w (i * 8 + j) \<and> bit (255 :: 'a word) j"
    using assms by (auto simp: le_bytes_def bit_ucast_iff bit_and_iff bit_drop_bit_eq)
  moreover have "bit w (i * 8 + j) \<Longrightarrow> j < LENGTH('a)"
    by (drule bit_imp_le_length) simp
  moreover note bit_255 [where 'a = 'a and j = j]
  ultimately show ?thesis by blast
qed

lemma le_word_le_bytes [codec_simps]:
  fixes w :: "'a::len word"
  assumes "LENGTH('a) \<le> 8 * n"
  shows "le_word (le_bytes n w) = w"
proof (rule bit_word_eqI)
  fix k assume "k < LENGTH('a)"
  with assms have "k div 8 < n" by auto
  then show "bit (le_word (le_bytes n w) :: 'a word) k = bit w k"
    using \<open>k < LENGTH('a)\<close> by (simp add: bit_le_word bit_le_bytes_nth)
qed

lemma le_bytes_le_word:
  assumes "8 * length bs \<le> LENGTH('a)" and "n = length bs"
  shows "le_bytes n (le_word bs :: 'a::len word) = bs"
proof (rule nth_equalityI)
  fix i assume "i < length (le_bytes n (le_word bs :: 'a word))"
  then have i: "i < n" by simp
  show "le_bytes n (le_word bs :: 'a word) ! i = bs ! i"
  proof (rule bit_word_eqI)
    fix j assume "j < LENGTH(8)"
    then have "j < 8" by simp
    then have "(i * 8 + j) div 8 = i" "(i * 8 + j) mod 8 = j" by simp_all
    moreover have "i * 8 + j < LENGTH('a)"
      using i assms \<open>j < 8\<close> by linarith
    ultimately show "bit (le_bytes n (le_word bs :: 'a word) ! i) j = bit (bs ! i) j"
      using i assms \<open>j < 8\<close> by (simp add: bit_le_bytes_nth bit_le_word)
  qed
qed (simp add: assms)

section \<open>Transition systems\<close>

text \<open>
  Every stateful component is a set of initial states and a step relation. The locale
  states what an inductive invariant is; that it holds in every reachable state, and
  that facts kept by single steps are kept by runs, is proved here once.
\<close>

inductive reachable_from :: "('s \<Rightarrow> 's \<Rightarrow> bool) \<Rightarrow> 's \<Rightarrow> 's \<Rightarrow> bool"
  for step :: "'s \<Rightarrow> 's \<Rightarrow> bool" where
  reach_refl: "reachable_from step s s"
| reach_step: "reachable_from step s t \<Longrightarrow> step t u \<Longrightarrow> reachable_from step s u"

lemma reachable_from_trans:
  "reachable_from step t u \<Longrightarrow> reachable_from step s t \<Longrightarrow> reachable_from step s u"
  by (induction rule: reachable_from.induct) (auto intro: reachable_from.intros)

locale invariant_system =
  fixes initial :: "'s \<Rightarrow> bool"
    and step :: "'s \<Rightarrow> 's \<Rightarrow> bool"
    and inv :: "'s \<Rightarrow> bool"
  assumes inv_initial: "initial s \<Longrightarrow> inv s"
    and inv_step: "inv s \<Longrightarrow> step s t \<Longrightarrow> inv t"
begin

lemma inv_reachable_from:
  assumes "reachable_from step s t" and "inv s"
  shows "inv t"
  using assms by (induction rule: reachable_from.induct) (auto intro: inv_step)

lemma inv_reachable:
  assumes "initial s" and "reachable_from step s t"
  shows "inv t"
  using assms inv_reachable_from inv_initial by blast

lemma stable_reachable_from:
  assumes "reachable_from step s t" and "inv s" and "P s"
    and "\<And>u v. inv u \<Longrightarrow> P u \<Longrightarrow> step u v \<Longrightarrow> P v"
  shows "P t"
  using assms(1-3)
  by (induction rule: reachable_from.induct) (auto intro: assms(4) inv_reachable_from)

end

end
