(* ===== verification/ObjectRegistry.thy ===== *)
theory ObjectRegistry imports Prelude begin

text \<open>
  Object identity: \<open>ObjectId\<close> and the \<open>ObjectRegistry\<close> of
  src/runtime/ObjectId.cpp. A slot is handed out with the generation it has at that
  moment; invalidating an identity raises the generation of its slot and puts the slot
  on the free list, except at the last generation, where the slot is retired. The mutex
  makes each operation atomic, so an operation is one step.
\<close>

section \<open>Identities\<close>

datatype ObjectId = ObjectId (Slot: u32) (Generation: u32)

definition ObjectId_IsValid :: "ObjectId \<Rightarrow> bool" where
  "ObjectId_IsValid i \<longleftrightarrow> Slot i \<noteq> 0 \<and> Generation i \<noteq> 0"

text \<open>The defaulted \<open>operator<=>\<close> compares the members in order of declaration.\<close>

instantiation ObjectId :: linorder
begin

definition less_eq_ObjectId :: "ObjectId \<Rightarrow> ObjectId \<Rightarrow> bool" where
  "less_eq_ObjectId a b \<longleftrightarrow> Slot a < Slot b \<or> (Slot a = Slot b \<and> Generation a \<le> Generation b)"

definition less_ObjectId :: "ObjectId \<Rightarrow> ObjectId \<Rightarrow> bool" where
  "less_ObjectId a b \<longleftrightarrow> Slot a < Slot b \<or> (Slot a = Slot b \<and> Generation a < Generation b)"

instance
  by intro_classes (auto simp: less_eq_ObjectId_def less_ObjectId_def ObjectId.expand)

end

section \<open>The registry\<close>

text \<open>
  \<open>Object\<close> is a \<open>std::weak_ptr\<close>: a possibly empty reference that only yields the
  instance while it is alive. Which instances are alive is decided by their owners, so
  it is an argument of \<open>Lookup\<close>.
\<close>

record 'a Entry =
  Object :: "'a option"
  EntryGeneration :: u32

record 'a Registry =
  Entries :: "'a Entry list"
  FreeSlots :: "u32 list"

datatype registry_error = SlotSpaceExhausted

definition InitialRegistry :: "'a Registry" where
  "InitialRegistry = \<lparr>Entries = [\<lparr>Object = None, EntryGeneration = 0\<rparr>], FreeSlots = []\<rparr>"

definition Register :: "'a \<Rightarrow> 'a Registry \<Rightarrow> registry_error + (ObjectId \<times> 'a Registry)" where
  "Register inst r =
     (if FreeSlots r = [] then
        (if length (Entries r) > 2 ^ 32 - 1 then Inl SlotSpaceExhausted
         else
           (let slot = word_of_nat (length (Entries r));
                r' = r\<lparr>Entries := Entries r @ [\<lparr>Object = Some inst, EntryGeneration = 1\<rparr>]\<rparr>
            in Inr (ObjectId slot (EntryGeneration (Entries r' ! unat slot)), r')))
      else
        (let slot = last (FreeSlots r);
             e = Entries r ! unat slot;
             r' = r\<lparr>FreeSlots := butlast (FreeSlots r),
                    Entries := (Entries r)[unat slot := e\<lparr>Object := Some inst\<rparr>]\<rparr>
         in Inr (ObjectId slot (EntryGeneration (Entries r' ! unat slot)), r')))"

definition Invalidate :: "ObjectId \<Rightarrow> 'a Registry \<Rightarrow> 'a Registry" where
  "Invalidate i r =
     (if \<not> ObjectId_IsValid i \<or> unat (Slot i) \<ge> length (Entries r) then r
      else
        (let entry = Entries r ! unat (Slot i)
         in if EntryGeneration entry \<noteq> Generation i then r
            else if EntryGeneration entry = 0xffffffff then
              r\<lparr>Entries := (Entries r)[unat (Slot i) := entry\<lparr>Object := None\<rparr>]\<rparr>
            else
              r\<lparr>Entries := (Entries r)[unat (Slot i) :=
                  entry\<lparr>Object := None, EntryGeneration := EntryGeneration entry + 1\<rparr>],
                FreeSlots := FreeSlots r @ [Slot i]\<rparr>))"

definition lock :: "('a \<Rightarrow> bool) \<Rightarrow> 'a option \<Rightarrow> 'a option" where
  "lock alive p = (case p of None \<Rightarrow> None | Some a \<Rightarrow> if alive a then Some a else None)"

definition Lookup :: "('a \<Rightarrow> bool) \<Rightarrow> ObjectId \<Rightarrow> 'a Registry \<Rightarrow> 'a option" where
  "Lookup alive i r =
     (if \<not> ObjectId_IsValid i \<or> unat (Slot i) \<ge> length (Entries r) then None
      else
        (let entry = Entries r ! unat (Slot i)
         in if EntryGeneration entry \<noteq> Generation i then None else lock alive (Object entry)))"

section \<open>Runs of the registry\<close>

text \<open>
  \<open>Instance\<close> is the only caller: it registers itself once and invalidates the identity
  it was given, or the default, invalid one when it never asked for an identity. The
  second component of the state records every identity handed out so far.
\<close>

inductive registry_step :: "'a Registry \<times> ObjectId set \<Rightarrow> 'a Registry \<times> ObjectId set \<Rightarrow> bool" where
  step_register: "Register inst r = Inr (i, r') \<Longrightarrow> registry_step (r, issued) (r', insert i issued)"
| step_invalidate: "i \<in> issued \<or> \<not> ObjectId_IsValid i \<Longrightarrow>
     registry_step (r, issued) (Invalidate i r, issued)"

inductive_cases registry_stepE: "registry_step (r, issued) t"

definition registry_initial :: "'a Registry \<times> ObjectId set \<Rightarrow> bool" where
  "registry_initial s \<longleftrightarrow> s = (InitialRegistry, {})"

definition registry_inv :: "'a Registry \<times> ObjectId set \<Rightarrow> bool" where
  "registry_inv s \<longleftrightarrow> (case s of (r, issued) \<Rightarrow>
     Entries r \<noteq> [] \<and> length (Entries r) \<le> 2 ^ 32 \<and> distinct (FreeSlots r) \<and>
     (\<forall>k. 0 < k \<longrightarrow> k < length (Entries r) \<longrightarrow> EntryGeneration (Entries r ! k) \<noteq> 0) \<and>
     (\<forall>s \<in> set (FreeSlots r). s \<noteq> 0 \<and> unat s < length (Entries r)) \<and>
     (\<forall>i \<in> issued. ObjectId_IsValid i \<and> unat (Slot i) < length (Entries r) \<and>
        Generation i \<le> EntryGeneration (Entries r ! unat (Slot i)) \<and>
        (Slot i \<in> set (FreeSlots r) \<longrightarrow>
           Generation i < EntryGeneration (Entries r ! unat (Slot i)))))"

lemma registry_invI:
  assumes "Entries r \<noteq> []" "length (Entries r) \<le> 2 ^ 32" "distinct (FreeSlots r)"
    and "\<And>k. 0 < k \<Longrightarrow> k < length (Entries r) \<Longrightarrow> EntryGeneration (Entries r ! k) \<noteq> 0"
    and "\<And>s. s \<in> set (FreeSlots r) \<Longrightarrow> s \<noteq> 0 \<and> unat s < length (Entries r)"
    and "\<And>i. i \<in> issued \<Longrightarrow> ObjectId_IsValid i \<and> unat (Slot i) < length (Entries r) \<and>
        Generation i \<le> EntryGeneration (Entries r ! unat (Slot i)) \<and>
        (Slot i \<in> set (FreeSlots r) \<longrightarrow>
           Generation i < EntryGeneration (Entries r ! unat (Slot i)))"
  shows "registry_inv (r, issued)"
  using assms by (simp add: registry_inv_def)

lemma registry_invD:
  assumes "registry_inv (r, issued)"
  shows "Entries r \<noteq> []" "length (Entries r) \<le> 2 ^ 32" "distinct (FreeSlots r)"
    and "0 < k \<Longrightarrow> k < length (Entries r) \<Longrightarrow> EntryGeneration (Entries r ! k) \<noteq> 0"
    and "s \<in> set (FreeSlots r) \<Longrightarrow> s \<noteq> 0 \<and> unat s < length (Entries r)"
    and "i \<in> issued \<Longrightarrow> ObjectId_IsValid i \<and> unat (Slot i) < length (Entries r) \<and>
        Generation i \<le> EntryGeneration (Entries r ! unat (Slot i)) \<and>
        (Slot i \<in> set (FreeSlots r) \<longrightarrow>
           Generation i < EntryGeneration (Entries r ! unat (Slot i)))"
  using assms by (auto simp: registry_inv_def)

lemma word_inc_bounds:
  fixes g :: u32
  assumes "g \<noteq> 0xffffffff"
  shows "h \<le> g \<Longrightarrow> h < g + 1" and "g + 1 \<noteq> 0"
proof -
  have "(0xffffffff :: u32) = - 1" by simp
  then show nz: "g + 1 \<noteq> 0" using assms max_word_wrap by metis
  then have "unat (g + 1) = Suc (unat g)" by (metis add.commute unatSuc)
  then show "h \<le> g \<Longrightarrow> h < g + 1" by (simp add: word_le_nat_alt word_less_nat_alt)
qed

lemma unat_slot_of_length: "n \<le> 2 ^ 32 - 1 \<Longrightarrow> unat (word_of_nat n :: u32) = n"
  by (simp add: unat_of_nat)

lemma Register_new_slot:
  assumes inv: "registry_inv (r, issued)" and reg: "Register inst r = Inr (i, r')"
    and free: "FreeSlots r = []"
  shows "registry_inv (r', insert i issued)" and "i \<notin> issued" and "ObjectId_IsValid i"
    and "Lookup alive i r' = lock alive (Some inst)"
proof -
  let ?n = "length (Entries r)"
  let ?e = "\<lparr>Object = Some inst, EntryGeneration = 1\<rparr>"
  note D = registry_invD [OF inv]
  from reg free have n: "?n \<le> 2 ^ 32 - 1"
    by (simp add: Register_def split: if_splits)
  note slot = unat_slot_of_length [OF n]
  from reg free n have i: "i = ObjectId (word_of_nat ?n) 1"
    and r': "Entries r' = Entries r @ [?e]" "FreeSlots r' = []"
    by (auto simp: Register_def Let_def slot)
  have pos: "0 < ?n" using D(1) by simp
  have nz: "(word_of_nat ?n :: u32) \<noteq> 0"
    using pos slot by (metis less_numeral_extra(3) unat_0)
  show valid: "ObjectId_IsValid i" by (simp add: i ObjectId_IsValid_def nz)
  show "i \<notin> issued" using D(6) [of i] by (auto simp: i slot)
  show "Lookup alive i r' = lock alive (Some inst)"
    using valid by (simp add: Lookup_def i r' slot)
  show "registry_inv (r', insert i issued)"
  proof (rule registry_invI, goal_cases)
    case 2 then show ?case using n by (simp add: r')
  next
    case (4 k) then show ?case using D(4) [of k] by (auto simp: r' nth_append)
  next
    case (6 j) then show ?case
      using D(6) [of j] valid by (auto simp: r' i nth_append slot free)
  qed (simp_all add: r')
qed

lemma Register_free_slot:
  assumes inv: "registry_inv (r, issued)" and reg: "Register inst r = Inr (i, r')"
    and free: "FreeSlots r \<noteq> []"
  shows "registry_inv (r', insert i issued)" and "i \<notin> issued" and "ObjectId_IsValid i"
    and "Lookup alive i r' = lock alive (Some inst)"
proof -
  note D = registry_invD [OF inv]
  define s where "s = last (FreeSlots r)"
  have sin: "s \<in> set (FreeSlots r)" using free by (simp add: s_def)
  then have s: "s \<noteq> 0" "unat s < length (Entries r)" using D(5) by auto
  have spos: "0 < unat s" using s(1) by (simp add: unat_gt_0)
  let ?g = "EntryGeneration (Entries r ! unat s)"
  from reg free s have i: "i = ObjectId s ?g"
    and r': "Entries r' = (Entries r)[unat s := (Entries r ! unat s)\<lparr>Object := Some inst\<rparr>]"
      "FreeSlots r' = butlast (FreeSlots r)"
    by (auto simp: Register_def Let_def s_def)
  have gen: "EntryGeneration (Entries r' ! k) = EntryGeneration (Entries r ! k)"
    if "k < length (Entries r)" for k
    using that s(2) by (simp add: r' nth_list_update)
  have split: "FreeSlots r = butlast (FreeSlots r) @ [s]"
    using free by (simp add: s_def)
  have notin: "s \<notin> set (butlast (FreeSlots r))"
    using D(3) split by (metis distinct_append disjoint_iff list.set_intros(1))
  have gnz: "?g \<noteq> 0" using D(4) spos s(2) by blast
  show valid: "ObjectId_IsValid i" by (simp add: i ObjectId_IsValid_def s gnz)
  show "i \<notin> issued" using D(6) [of i] sin by (auto simp: i)
  show "Lookup alive i r' = lock alive (Some inst)"
    using valid s by (simp add: Lookup_def i r')
  show "registry_inv (r', insert i issued)"
  proof (rule registry_invI, goal_cases)
    case 1 then show ?case using D(1) by (simp add: r')
  next
    case 2 then show ?case using D(2) by (simp add: r')
  next
    case 3 then show ?case using D(3) by (simp add: r' distinct_butlast)
  next
    case (4 k) then show ?case using D(4) [of k] gen by (simp add: r')
  next
    case (5 t) then show ?case using D(5) [of t] by (auto simp: r' dest: in_set_butlastD)
  next
    case (6 j) then show ?case
      using D(6) [of j] valid s notin
      by (auto simp: i gen r'(2) dest: in_set_butlastD) (simp_all add: r')
  qed
qed

lemmas Register_correct = Register_new_slot Register_free_slot

lemma registry_inv_Invalidate:
  assumes inv: "registry_inv (r, issued)" and i: "i \<in> issued \<or> \<not> ObjectId_IsValid i"
  shows "registry_inv (Invalidate i r, issued)"
proof (cases "Invalidate i r = r")
  case True
  then show ?thesis using inv by simp
next
  case False
  note D = registry_invD [OF inv]
  let ?k = "unat (Slot i)"
  let ?e = "Entries r ! ?k"
  from False have v: "ObjectId_IsValid i" "?k < length (Entries r)" "EntryGeneration ?e = Generation i"
    by (auto simp: Invalidate_def Let_def split: if_splits)
  with i have iss: "i \<in> issued" by simp
  have nf: "Slot i \<notin> set (FreeSlots r)" using D(6) [OF iss] v by auto
  have snz: "Slot i \<noteq> 0" using v by (simp add: ObjectId_IsValid_def)
  show ?thesis
  proof (cases "Generation i = 0xffffffff")
    case True
    then have r': "Invalidate i r = r\<lparr>Entries := (Entries r)[?k := ?e\<lparr>Object := None\<rparr>]\<rparr>"
      using v by (simp add: Invalidate_def Let_def)
    have gen: "EntryGeneration ((Entries r)[?k := ?e\<lparr>Object := None\<rparr>] ! k)
        = EntryGeneration (Entries r ! k)" if "k < length (Entries r)" for k
      using that v(2) by (simp add: nth_list_update)
    show ?thesis unfolding r'
      by (rule registry_invI) (use D gen in auto)
  next
    case False
    note ne = False
    let ?E = "(Entries r)[?k := ?e\<lparr>Object := None, EntryGeneration := Generation i + 1\<rparr>]"
    have r': "Invalidate i r = r\<lparr>Entries := ?E, FreeSlots := FreeSlots r @ [Slot i]\<rparr>"
      using v False by (simp add: Invalidate_def Let_def)
    have gen: "EntryGeneration (?E ! k)
        = (if k = ?k then Generation i + 1 else EntryGeneration (Entries r ! k))"
      if "k < length (Entries r)" for k
      using that v(2) by (simp add: nth_list_update)
    show ?thesis unfolding r'
    proof (rule registry_invI, goal_cases)
      case (4 k) then show ?case using D(4) [of k] word_inc_bounds(2) [OF ne] by (simp add: gen)
    next
      case (6 j)
      have "Slot j = Slot i" if "unat (Slot j) = ?k" using that by (simp add: unat_eq_iff)
      then show ?case
        using D(6) [OF 6] v(3) word_inc_bounds(1) [OF ne, of "Generation j"]
        by (auto simp: gen)
    qed (use D nf v snz in auto)
  qed
qed

interpretation registry: invariant_system registry_initial registry_step registry_inv
proof unfold_locales
  fix s :: "'a Registry \<times> ObjectId set"
  assume "registry_initial s"
  then show "registry_inv s"
    by (auto simp: registry_initial_def registry_inv_def InitialRegistry_def)
next
  fix s t :: "'a Registry \<times> ObjectId set"
  assume inv: "registry_inv s" and step: "registry_step s t"
  from step inv show "registry_inv t"
  proof cases
    case (step_register inst r i r' issued)
    with inv show ?thesis using Register_correct(1,5) by (cases "FreeSlots r = []") auto
  next
    case (step_invalidate i issued r)
    with inv show ?thesis using registry_inv_Invalidate by auto
  qed
qed

section \<open>Generation safety\<close>

text \<open>
  An identity is retired once its slot has moved to a later generation, or is at the last
  generation and holds no object. Retirement is permanent.
\<close>

definition retired :: "ObjectId \<Rightarrow> 'a Registry \<times> ObjectId set \<Rightarrow> bool" where
  "retired i s \<longleftrightarrow> i \<in> snd s \<and>
     (let e = Entries (fst s) ! unat (Slot i)
      in Generation i < EntryGeneration e \<or> (EntryGeneration e = 0xffffffff \<and> Object e = None))"

lemma retired_Lookup:
  assumes "retired i s" and "registry_inv s"
  shows "Lookup alive i (fst s) = None"
proof -
  obtain r issued where s: "s = (r, issued)" by (cases s)
  with assms have "i \<in> issued" and inv: "registry_inv (r, issued)" by (auto simp: retired_def)
  from assms(1) registry_invD(6) [OF inv this(1)] show ?thesis
    by (auto simp: s retired_def Lookup_def Let_def lock_def)
qed

lemma Invalidate_retires:
  assumes inv: "registry_inv (r, issued)" and i: "i \<in> issued"
  shows "retired i (Invalidate i r, issued)"
proof -
  note D = registry_invD(6) [OF inv i]
  let ?k = "unat (Slot i)"
  show ?thesis
  proof (cases "EntryGeneration (Entries r ! ?k) = Generation i")
    case True
    show ?thesis
    proof (cases "Generation i = 0xffffffff")
      case True
      with D show ?thesis using i
        by (auto simp: retired_def Invalidate_def Let_def \<open>_ = Generation i\<close>)
    next
      case False
      with D False show ?thesis using i word_inc_bounds(1) [of "Generation i" "Generation i"]
        by (auto simp: retired_def Invalidate_def Let_def \<open>_ = Generation i\<close>)
    qed
  next
    case False
    with D have "Generation i < EntryGeneration (Entries r ! ?k)"
      by (metis order_le_imp_less_or_eq)
    with False i show ?thesis
      by (auto simp: retired_def Invalidate_def Let_def)
  qed
qed

lemma retired_Register:
  assumes inv: "registry_inv (r, issued)" and ret: "retired i (r, issued)"
    and reg: "Register inst r = Inr (j, r')"
  shows "retired i (r', insert j issued)"
proof -
  from ret have iss: "i \<in> issued" by (simp add: retired_def)
  note D = registry_invD [OF inv] and Di = registry_invD(6) [OF inv iss]
  show ?thesis
  proof (cases "FreeSlots r = []")
    case True
    with reg ret Di show ?thesis
      by (auto simp: Register_def Let_def retired_def nth_append split: if_splits)
  next
    case False
    define s where "s = last (FreeSlots r)"
    have s: "s \<in> set (FreeSlots r)" "unat s < length (Entries r)"
      using False D(5) by (simp_all add: s_def)
    from reg False have r': "Entries r' = (Entries r)[unat s := (Entries r ! unat s)\<lparr>Object := Some inst\<rparr>]"
      by (auto simp: Register_def Let_def s_def)
    show ?thesis
    proof (cases "s = Slot i")
      case True
      with Di s ret iss show ?thesis by (simp add: retired_def r')
    next
      case False
      then have "unat s \<noteq> unat (Slot i)" by (simp add: unat_eq_iff)
      with ret show ?thesis by (simp add: retired_def r')
    qed
  qed
qed

lemma retired_Invalidate_same:
  assumes inv: "registry_inv (r, issued)" and ret: "retired i (r, issued)"
    and ne: "Invalidate j r \<noteq> r" and same: "unat (Slot j) = unat (Slot i)"
  shows "retired i (Invalidate j r, issued)"
proof -
  from ret have iss: "i \<in> issued" by (simp add: retired_def)
  note Di = registry_invD(6) [OF inv iss]
  from ne same have v: "unat (Slot j) = unat (Slot i)"
    "EntryGeneration (Entries r ! unat (Slot i)) = Generation j" "ObjectId_IsValid j"
    by (auto simp: Invalidate_def Let_def split: if_splits)
  show ?thesis
  proof (cases "Generation j = 0xffffffff")
    case True
    with v Di iss show ?thesis by (auto simp: retired_def Invalidate_def Let_def)
  next
    case False
    with v Di iss False word_inc_bounds(1) [of "Generation j" "Generation i"] show ?thesis
      by (auto simp: retired_def Invalidate_def Let_def)
  qed
qed

lemma retired_Invalidate:
  assumes inv: "registry_inv (r, issued)" and ret: "retired i (r, issued)"
  shows "retired i (Invalidate j r, issued)"
proof -
  consider "Invalidate j r = r" | "unat (Slot j) \<noteq> unat (Slot i)"
    | "Invalidate j r \<noteq> r" "unat (Slot j) = unat (Slot i)" by blast
  then show ?thesis
  proof cases
    case 1
    with ret show ?thesis by simp
  next
    case 2
    with ret show ?thesis by (auto simp: retired_def Invalidate_def Let_def)
  next
    case 3
    then show ?thesis by (rule retired_Invalidate_same [OF inv ret])
  qed
qed

lemma retired_step:
  assumes "registry_inv s" and "retired i s" and "registry_step s t"
  shows "retired i t"
  using assms(3,1,2)
  by cases (auto intro: retired_Register retired_Invalidate)

lemma retired_forever:
  assumes "reachable_from registry_step s t" and "registry_inv s" and "retired i s"
  shows "retired i t" and "registry_inv t"
proof -
  show "retired i t"
    using assms by (rule registry.stable_reachable_from) (auto intro: retired_step)
  show "registry_inv t"
    using assms(1,2) by (rule registry.inv_reachable_from)
qed

text \<open>
  C1. Identity is generation safe: whatever the registry has been through, a successful
  \<open>Register\<close> returns a valid identity that was never handed out before, and looking it
  up yields the registered instance for as long as that instance is alive.
\<close>

theorem register_returns_fresh_identity:
  assumes "registry_initial s0"
    and "reachable_from registry_step s0 (r, issued)"
    and "Register inst r = Inr (i, r')"
  shows "i \<notin> issued \<and> ObjectId_IsValid i \<and> Lookup alive i r' = (if alive inst then Some inst else None)"
proof -
  have inv: "registry_inv (r, issued)" using assms(1,2) by (rule registry.inv_reachable)
  show ?thesis
  proof (cases "FreeSlots r = []")
    case True
    from Register_new_slot [OF inv assms(3) True] show ?thesis by (simp add: lock_def)
  next
    case False
    from Register_free_slot [OF inv assms(3) False] show ?thesis by (simp add: lock_def)
  qed
qed

text \<open>
  A run that hands out slot 1, invalidates that identity and hands the slot out again: the
  states of the run, and the theorem at its last call.
\<close>

definition registry_example :: "nat Registry" where
  "registry_example = \<lparr>Entries = [\<lparr>Object = None, EntryGeneration = 0\<rparr>,
     \<lparr>Object = None, EntryGeneration = 2\<rparr>], FreeSlots = [1]\<rparr>"

lemma registry_example_reachable:
  "reachable_from registry_step (InitialRegistry, {}) (registry_example, {ObjectId 1 1})"
proof -
  let ?r1 = "\<lparr>Entries = [\<lparr>Object = None, EntryGeneration = 0\<rparr>,
     \<lparr>Object = Some (7::nat), EntryGeneration = 1\<rparr>], FreeSlots = []\<rparr>"
  have "Register 7 InitialRegistry = Inr (ObjectId 1 1, ?r1)"
    by (simp add: Register_def InitialRegistry_def Let_def)
  from step_register [OF this, of "{}"]
  have "reachable_from registry_step (InitialRegistry, {}) (?r1, {ObjectId 1 1})"
    by (rule reach_step [OF reach_refl])
  moreover have "Invalidate (ObjectId 1 1) ?r1 = registry_example"
    by (simp add: Invalidate_def ObjectId_IsValid_def registry_example_def Let_def)
  then have "registry_step (?r1, {ObjectId 1 1}) (registry_example, {ObjectId 1 1})"
    using step_invalidate [of "ObjectId 1 1" "{ObjectId 1 1}" ?r1] by simp
  ultimately show ?thesis by (rule reach_step)
qed

theorem register_returns_fresh_identity_witness:
  "\<exists>r'. Register 8 registry_example = Inr (ObjectId 1 2, r') \<and>
     ObjectId 1 2 \<notin> {ObjectId 1 1} \<and> Lookup (\<lambda>_. True) (ObjectId 1 2) r' = Some 8"
proof -
  have init: "registry_initial (InitialRegistry :: nat Registry, {})"
    by (simp add: registry_initial_def)
  obtain r' where reg: "Register 8 registry_example = Inr (ObjectId 1 2, r')"
    by (simp add: Register_def registry_example_def Let_def)
  from register_returns_fresh_identity [OF init registry_example_reachable reg, of "\<lambda>_. True"] reg
  show ?thesis by auto
qed

text \<open>
  C2. A stale identity never resolves again: once an identity that was handed out has been
  invalidated, \<open>Lookup\<close> of it fails in every later state of the registry, although its
  slot may have been handed out again.
\<close>

theorem invalidated_identity_never_resolves:
  assumes "registry_initial s0"
    and "reachable_from registry_step s0 (r, issued)" and "i \<in> issued"
    and "reachable_from registry_step (Invalidate i r, issued) (r', issued')"
  shows "Lookup alive i r' = None"
proof -
  have inv: "registry_inv (r, issued)" using assms(1,2) by (rule registry.inv_reachable)
  then have "registry_inv (Invalidate i r, issued)"
    using assms(3) by (simp add: registry_inv_Invalidate)
  from retired_forever [OF assms(4) this Invalidate_retires [OF inv assms(3)]]
  show ?thesis using retired_Lookup [of i "(r', issued')"] by simp
qed

theorem invalidated_identity_never_resolves_witness:
  "Lookup (\<lambda>_. True) (ObjectId 1 1) registry_example = None \<and> ObjectId 1 1 \<in> {ObjectId 1 1}"
proof -
  have init: "registry_initial (InitialRegistry :: nat Registry, {})"
    by (simp add: registry_initial_def)
  have same: "Invalidate (ObjectId 1 1) registry_example = registry_example"
    by (simp add: Invalidate_def registry_example_def)
  then have "reachable_from registry_step
      (Invalidate (ObjectId 1 1) registry_example, {ObjectId 1 1}) (registry_example, {ObjectId 1 1})"
    by (simp add: reach_refl)
  from invalidated_identity_never_resolves [OF init registry_example_reachable _ this] show ?thesis
    by simp
qed

end
