(* ===== verification/WireValue.thy ===== *)
theory WireValue imports ObjectRegistry begin

text \<open>
  The value types that cross the wire: \<open>SchemaId\<close> of
  include/gargantuan/reflection/SchemaId.hpp and the \<open>WireValue\<close> variant of
  include/gargantuan/runtime/WireValue.hpp. Floating-point members are kept as their
  IEEE 754 bit patterns, which is what \<open>std::bit_cast\<close> puts on the wire; a string is
  the list of its bytes; a 32-bit \<open>int\<close> is a 32-bit word read with \<open>sint\<close>.
\<close>

type_synonym f32 = u32
type_synonym f64 = u64
type_synonym i32 = u32

datatype SchemaId = SchemaId (High: u64) (Low: u64)

definition SchemaId_IsValid :: "SchemaId \<Rightarrow> bool" where
  "SchemaId_IsValid i \<longleftrightarrow> High i \<noteq> 0 \<or> Low i \<noteq> 0"

instantiation SchemaId :: linorder
begin

definition less_eq_SchemaId :: "SchemaId \<Rightarrow> SchemaId \<Rightarrow> bool" where
  "less_eq_SchemaId a b \<longleftrightarrow> High a < High b \<or> (High a = High b \<and> Low a \<le> Low b)"

definition less_SchemaId :: "SchemaId \<Rightarrow> SchemaId \<Rightarrow> bool" where
  "less_SchemaId a b \<longleftrightarrow> High a < High b \<or> (High a = High b \<and> Low a < Low b)"

instance
  by intro_classes (auto simp: less_eq_SchemaId_def less_SchemaId_def SchemaId.expand)

end

text \<open>
  \<open>std::isfinite\<close> on the bit patterns: the exponent field is not all ones.
\<close>

definition isfinite32 :: "f32 \<Rightarrow> bool" where
  "isfinite32 b \<longleftrightarrow> b AND 0x7f800000 \<noteq> 0x7f800000"

definition isfinite64 :: "f64 \<Rightarrow> bool" where
  "isfinite64 b \<longleftrightarrow> b AND 0x7ff0000000000000 \<noteq> 0x7ff0000000000000"

datatype WireUDim = WireUDim (Scale: f32) (Offset: i32)

text \<open>
  The alternatives in the order of the variant, so that the position of a constructor is
  \<open>WireValue::index()\<close>. \<open>WireCFrame\<close> holds a \<open>std::array<float, 12>\<close>, a list whose
  length \<open>wf_WireValue\<close> fixes.
\<close>

datatype WireValue =
    WireMonostate
  | WireBool bool
  | WireInt i32
  | WireDouble f64
  | WireFloat f32
  | WireString bytes
  | WireVector2 f32 f32
  | WireVector3 f32 f32 f32
  | WireColor3 f32 f32 f32
  | WireUDimValue WireUDim
  | WireUDim2 WireUDim WireUDim
  | WireCFrame "f32 list"
  | WireEnumItem bytes bytes
  | WireSchemaEnumValue SchemaId u32 i32
  | WireObjectReference ObjectId

fun WireValue_index :: "WireValue \<Rightarrow> u8" where
  "WireValue_index WireMonostate = 0"
| "WireValue_index (WireBool _) = 1"
| "WireValue_index (WireInt _) = 2"
| "WireValue_index (WireDouble _) = 3"
| "WireValue_index (WireFloat _) = 4"
| "WireValue_index (WireString _) = 5"
| "WireValue_index (WireVector2 _ _) = 6"
| "WireValue_index (WireVector3 _ _ _) = 7"
| "WireValue_index (WireColor3 _ _ _) = 8"
| "WireValue_index (WireUDimValue _) = 9"
| "WireValue_index (WireUDim2 _ _) = 10"
| "WireValue_index (WireCFrame _) = 11"
| "WireValue_index (WireEnumItem _ _) = 12"
| "WireValue_index (WireSchemaEnumValue _ _ _) = 13"
| "WireValue_index (WireObjectReference _) = 14"

fun wf_WireValue :: "WireValue \<Rightarrow> bool" where
  "wf_WireValue (WireCFrame cs) = (length cs = 12)"
| "wf_WireValue _ = True"

end
