(* ===== verification/ProtocolInput.thy ===== *)
theory ProtocolInput imports WireValue begin

text \<open>
  Validation of untrusted protocol input, src/runtime/ProtocolInput.cpp: UTF-8, bounded
  strings, the nesting depth of JSON documents, JSON trees and wire values. A thrown
  \<open>std::invalid_argument\<close> is the value \<open>Inl message\<close>.
\<close>

definition MaximumProtocolDocumentBytes :: nat where
  "MaximumProtocolDocumentBytes = 8 * 1024 * 1024"

definition MaximumProtocolJsonDepth :: nat where
  "MaximumProtocolJsonDepth = 64"

definition MaximumProtocolJsonNodes :: nat where
  "MaximumProtocolJsonNodes = 1024 * 1024"

definition MaximumProtocolStringBytes :: nat where
  "MaximumProtocolStringBytes = 64 * 1024"

definition MaximumProtocolIdentifierBytes :: nat where
  "MaximumProtocolIdentifierBytes = 256"

section \<open>UTF-8\<close>

subsection \<open>The validator\<close>

text \<open>
  The inner loop that skips eight ASCII bytes at a time, the decoder of one code point,
  and the outer loop. \<open>utf8_scalar v i\<close> is the number of bytes of the code point at
  \<open>i\<close>, or \<open>None\<close> where the code returns false.
\<close>

function utf8_skip_ascii :: "bytes \<Rightarrow> nat \<Rightarrow> nat" where
  "utf8_skip_ascii v i =
     (if length v - i \<ge> 8 \<and> (le_word (take 8 (drop i v)) :: u64) AND 0x8080808080808080 = 0
      then utf8_skip_ascii v (i + 8) else i)"
  by pat_completeness auto
termination
  by (relation "measure (\<lambda>(v, i). length v - i)") auto

declare utf8_skip_ascii.simps [simp del]

function utf8_continuation :: "bytes \<Rightarrow> nat \<Rightarrow> nat \<Rightarrow> nat \<Rightarrow> u32 \<Rightarrow> u32 option" where
  "utf8_continuation v i offset count cp =
     (if offset < count then
        (let c = v ! (i + offset)
         in if c AND 0xc0 \<noteq> 0x80 then None
            else utf8_continuation v i (offset + 1) count (push_bit 6 cp OR ucast (c AND 0x3f)))
      else Some cp)"
  by pat_completeness auto
termination
  by (relation "measure (\<lambda>(v, i, offset, count, cp). count - offset)") auto

declare utf8_continuation.simps [simp del]

definition utf8_lead :: "u8 \<Rightarrow> (nat \<times> u32) option" where
  "utf8_lead first =
     (if first \<le> 0x7f then Some (1, ucast first)
      else if first AND 0xe0 = 0xc0 then Some (2, ucast (first AND 0x1f))
      else if first AND 0xf0 = 0xe0 then Some (3, ucast (first AND 0x0f))
      else if first AND 0xf8 = 0xf0 then Some (4, ucast (first AND 0x07))
      else None)"

definition utf8_scalar :: "bytes \<Rightarrow> nat \<Rightarrow> nat option" where
  "utf8_scalar v i =
     (case utf8_lead (v ! i) of
        None \<Rightarrow> None
      | Some (count, cp0) \<Rightarrow>
          if i + count > length v then None
          else (case utf8_continuation v i 1 count cp0 of
              None \<Rightarrow> None
            | Some cp \<Rightarrow>
                if (count = 2 \<and> cp < 0x80) \<or> (count = 3 \<and> cp < 0x800) \<or>
                   (count = 4 \<and> cp < 0x10000) \<or> cp > 0x10ffff \<or> (cp \<ge> 0xd800 \<and> cp \<le> 0xdfff)
                then None else Some count))"

lemma utf8_lead_count: "utf8_lead b = Some (n, cp) \<Longrightarrow> n \<in> {1, 2, 3, 4}"
  by (auto simp: utf8_lead_def split: if_splits)

lemma utf8_scalar_pos: "utf8_scalar v i = Some n \<Longrightarrow> 0 < n \<and> i + n \<le> length v"
  by (auto simp: utf8_scalar_def split: option.splits prod.splits if_splits dest: utf8_lead_count)

lemma utf8_skip_ascii_ge: "i \<le> utf8_skip_ascii v i"
proof (induction v i rule: utf8_skip_ascii.induct)
  case (1 v i)
  then show ?case by (subst utf8_skip_ascii.simps) auto
qed

function utf8_loop :: "bytes \<Rightarrow> nat \<Rightarrow> bool" where
  "utf8_loop v index =
     (if index < length v then
        (let i = utf8_skip_ascii v index
         in if i = length v then True
            else (case utf8_scalar v i of
                None \<Rightarrow> False
              | Some n \<Rightarrow> utf8_loop v (i + n)))
      else True)"
  by pat_completeness auto
termination
proof (relation "measure (\<lambda>(v, i). length v - i)", goal_cases)
  case (2 v index i n)
  then show ?case
    using utf8_skip_ascii_ge [of index v] utf8_scalar_pos [of v i n] by auto
qed simp

declare utf8_loop.simps [simp del]

definition IsValidProtocolUtf8 :: "bytes \<Rightarrow> bool" where
  "IsValidProtocolUtf8 v = utf8_loop v 0"

subsection \<open>What a well-formed string is\<close>

text \<open>
  The specification: the concatenation of the encodings of Unicode scalar values, that is
  of the code points up to 10FFFF that are not surrogates.
\<close>

definition is_scalar_value :: "nat \<Rightarrow> bool" where
  "is_scalar_value c \<longleftrightarrow> c < 0x110000 \<and> \<not> (0xd800 \<le> c \<and> c \<le> 0xdfff)"

definition utf8_encode :: "nat \<Rightarrow> bytes" where
  "utf8_encode c = map word_of_nat
     (if c < 0x80 then [c]
      else if c < 0x800 then [0xc0 + c div 64, 0x80 + c mod 64]
      else if c < 0x10000 then [0xe0 + c div 4096, 0x80 + c div 64 mod 64, 0x80 + c mod 64]
      else [0xf0 + c div 262144, 0x80 + c div 4096 mod 64, 0x80 + c div 64 mod 64, 0x80 + c mod 64])"

definition utf8_spec :: "bytes \<Rightarrow> bool" where
  "utf8_spec v \<longleftrightarrow> (\<exists>cs. (\<forall>c \<in> set cs. is_scalar_value c) \<and> v = concat (map utf8_encode cs))"

subsection \<open>Bytes as numbers\<close>

lemma byte_lt: "unat (b :: u8) < 256"
  using unsigned_less [of b] by simp

lemma byte_fields:
  fixes b :: u8
  shows "unat (b AND 0x1f) = unat b mod 32" "unat (b AND 0x0f) = unat b mod 16"
    "unat (b AND 0x07) = unat b mod 8" "unat (b AND 0x3f) = unat b mod 64"
proof -
  have "b AND 0x1f = take_bit 5 b" "b AND 0x0f = take_bit 4 b"
    "b AND 0x07 = take_bit 3 b" "b AND 0x3f = take_bit 6 b"
    by (simp_all add: take_bit_eq_mask mask_eq_exp_minus_1)
  then show "unat (b AND 0x1f) = unat b mod 32" "unat (b AND 0x0f) = unat b mod 16"
    "unat (b AND 0x07) = unat b mod 8" "unat (b AND 0x3f) = unat b mod 64"
    by (simp_all only: unat_take_bit) simp_all
qed


lemma unat_split_mask:
  fixes b m n :: "'a::len word"
  assumes "m OR n = - 1" and "m AND n = 0"
  shows "unat (b AND m) + unat (b AND n) = unat b"
proof -
  have "(b AND m) AND (b AND n) = b AND (m AND n)" by (simp add: ac_simps)
  then have "(b AND m) + (b AND n) = (b AND m) OR (b AND n)"
    by (simp add: assms(2) disjunctive_add_eq_or)
  also have "\<dots> = b" by (simp add: assms(1) flip: bit.conj_disj_distrib)
  finally have sum: "(b AND m) + (b AND n) = b" .
  have "b AND m \<le> (b AND m) + (b AND n)" by (simp only: sum word_and_le2)
  then have "unat ((b AND m) + (b AND n)) = unat (b AND m) + unat (b AND n)"
    by (simp only: unat_plus_simple)
  with sum show ?thesis by (simp only:)
qed

lemma byte_patterns:
  fixes b :: u8
  shows "b \<le> 0x7f \<longleftrightarrow> unat b < 128"
    "b AND 0xe0 = 0xc0 \<longleftrightarrow> unat b div 32 = 6"
    "b AND 0xf0 = 0xe0 \<longleftrightarrow> unat b div 16 = 14"
    "b AND 0xf8 = 0xf0 \<longleftrightarrow> unat b div 8 = 30"
    "b AND 0xc0 = 0x80 \<longleftrightarrow> unat b div 64 = 2"
proof -
  have "unat (b AND 0xe0) + unat (b AND 0x1f) = unat b" "unat (b AND 0xf0) + unat (b AND 0x0f) = unat b"
    "unat (b AND 0xf8) + unat (b AND 0x07) = unat b" "unat (b AND 0xc0) + unat (b AND 0x3f) = unat b"
    by (rule unat_split_mask; simp)+
  note * = this [unfolded byte_fields]
  show "b \<le> 0x7f \<longleftrightarrow> unat b < 128" by (simp add: word_le_nat_alt less_Suc_eq_le [symmetric])
  have "b AND 0xe0 = 0xc0 \<longleftrightarrow> unat (b AND 0xe0) = 192" "b AND 0xf0 = 0xe0 \<longleftrightarrow> unat (b AND 0xf0) = 224"
    "b AND 0xf8 = 0xf0 \<longleftrightarrow> unat (b AND 0xf8) = 240" "b AND 0xc0 = 0x80 \<longleftrightarrow> unat (b AND 0xc0) = 128"
    by (simp_all only: unat_eq_iff [symmetric]) simp_all
  moreover have div: "x = k * d \<longleftrightarrow> n div d = k" if "x + n mod d = n" "0 < d" for x k n d :: nat
  proof -
    from that have "x = n div d * d" by (metis add_right_cancel div_mult_mod_eq)
    with that show ?thesis by simp
  qed
  ultimately show "b AND 0xe0 = 0xc0 \<longleftrightarrow> unat b div 32 = 6" "b AND 0xf0 = 0xe0 \<longleftrightarrow> unat b div 16 = 14"
    "b AND 0xf8 = 0xf0 \<longleftrightarrow> unat b div 8 = 30" "b AND 0xc0 = 0x80 \<longleftrightarrow> unat b div 64 = 2"
    using div [OF *(1), of 6] div [OF *(2), of 14] div [OF *(3), of 30] div [OF *(4), of 2]
    by (simp_all only:) simp_all
qed

lemma unat_ucast_byte: "unat (ucast (b :: u8) :: u32) = unat b"
  using byte_lt [of b] by (simp add: unsigned_ucast_eq take_bit_eq_mod)

lemma unat_continuation:
  fixes cp :: u32 and c :: u8
  assumes "unat cp < 2 ^ 26"
  shows "unat (push_bit 6 cp OR ucast (c AND 0x3f)) = unat cp * 64 + unat c mod 64"
proof -
  let ?x = "ucast (c AND 0x3f) :: u32"
  have x: "unat ?x = unat c mod 64"
    by (simp only: unat_ucast_byte byte_fields)
  have "unat ?x = unat (take_bit 6 ?x)"
    by (simp only: x unat_take_bit) simp
  then have "?x = take_bit 6 ?x" by (simp only: unat_eq_iff)
  then have "push_bit 6 cp AND ?x = 0"
    by (metis (no_types, opaque_lifting) bit_eq_iff bit_and_iff bit_push_bit_iff bit_take_bit_iff bit_0_eq bot_apply bot_bool_def linorder_not_le)
  then have "push_bit 6 cp OR ?x = push_bit 6 cp + ?x"
    by (simp add: disjunctive_add_eq_or)
  moreover have "unat (push_bit 6 cp) = unat cp * 64"
    using assms by (simp add: push_bit_eq_mult unat_word_ariths)
  ultimately show ?thesis
    using assms by (simp add: unat_word_ariths x)
qed

subsection \<open>One code point\<close>

definition utf8_push :: "u32 \<Rightarrow> u8 \<Rightarrow> u32" where
  "utf8_push cp c = push_bit 6 cp OR ucast (c AND 0x3f)"

lemma unat_utf8_push: "unat cp < 2 ^ 26 \<Longrightarrow> unat (utf8_push cp c) = unat cp * 64 + unat c mod 64"
  by (simp only: utf8_push_def unat_continuation)

lemma utf8_continuation_step:
  "offset < count \<Longrightarrow> utf8_continuation v i offset count cp =
     (if unat (v ! (i + offset)) div 64 = 2
      then utf8_continuation v i (offset + 1) count (utf8_push cp (v ! (i + offset))) else None)"
  by (subst utf8_continuation.simps) (simp add: utf8_push_def Let_def byte_patterns)

lemma utf8_continuation_done:
  "\<not> offset < count \<Longrightarrow> utf8_continuation v i offset count cp = Some cp"
  by (subst utf8_continuation.simps) simp

lemmas utf8_eval = utf8_scalar_def utf8_lead_def byte_patterns byte_fields unat_ucast_byte
  utf8_continuation_step utf8_continuation_done word_less_nat_alt word_le_nat_alt

lemma utf8_scalar_1: "unat (v ! i) < 128 \<Longrightarrow> i < length v \<Longrightarrow> utf8_scalar v i = Some 1"
  by (simp add: utf8_eval)

lemma utf8_scalar_2:
  assumes "unat (v ! i) div 32 = 6"
  shows "utf8_scalar v i =
    (if i + 2 \<le> length v \<and> unat (v ! (i + 1)) div 64 = 2 \<and>
        128 \<le> unat (v ! i) mod 32 * 64 + unat (v ! (i + 1)) mod 64
     then Some 2 else None)"
proof -
  let ?c0 = "ucast (v ! i AND 0x1f) :: u32"
  have lead: "\<not> unat (v ! i) < 128" using assms by auto
  have c: "unat (v ! i) mod 32 < 32" "unat (v ! (i + 1)) mod 64 < 64" by simp_all
  have "unat ?c0 = unat (v ! i) mod 32" by (simp only: unat_ucast_byte byte_fields)
  then have "unat (utf8_push ?c0 (v ! (i + 1))) = unat (v ! i) mod 32 * 64 + unat (v ! (i + 1)) mod 64"
    using c by (simp add: unat_utf8_push)
  then show ?thesis using assms lead c
    by (simp add: utf8_eval; linarith)
qed

lemma utf8_scalar_3:
  assumes "unat (v ! i) div 16 = 14"
    and c: "c = unat (v ! i) mod 16 * 4096 + unat (v ! (i + 1)) mod 64 * 64 + unat (v ! (i + 2)) mod 64"
  shows "utf8_scalar v i =
    (if i + 3 \<le> length v \<and> unat (v ! (i + 1)) div 64 = 2 \<and> unat (v ! (i + 2)) div 64 = 2 \<and>
        0x800 \<le> c \<and> \<not> (0xd800 \<le> c \<and> c \<le> 0xdfff)
     then Some 3 else None)"
proof -
  let ?c0 = "ucast (v ! i AND 0x0f) :: u32"
  have lead: "\<not> unat (v ! i) < 128" "unat (v ! i) div 32 \<noteq> 6" using assms by auto
  have b: "unat (v ! i) mod 16 < 16" "unat (v ! (i + 1)) mod 64 < 64" "unat (v ! (i + 2)) mod 64 < 64"
    by simp_all
  have "unat ?c0 = unat (v ! i) mod 16" by (simp only: unat_ucast_byte byte_fields)
  then have "unat (utf8_push ?c0 (v ! (i + 1))) = unat (v ! i) mod 16 * 64 + unat (v ! (i + 1)) mod 64"
    using b by (simp add: unat_utf8_push)
  then have "unat (utf8_push (utf8_push ?c0 (v ! (i + 1))) (v ! (i + 2))) = c"
    using b by (simp add: unat_utf8_push c)
  moreover have "c \<le> 0x10ffff" using b by (simp add: c)
  ultimately show ?thesis using assms(1) lead
    by (simp add: utf8_eval; linarith)
qed

lemma utf8_scalar_4:
  assumes "unat (v ! i) div 8 = 30"
    and c: "c = unat (v ! i) mod 8 * 262144 + unat (v ! (i + 1)) mod 64 * 4096 +
             unat (v ! (i + 2)) mod 64 * 64 + unat (v ! (i + 3)) mod 64"
  shows "utf8_scalar v i =
    (if i + 4 \<le> length v \<and> unat (v ! (i + 1)) div 64 = 2 \<and> unat (v ! (i + 2)) div 64 = 2 \<and>
        unat (v ! (i + 3)) div 64 = 2 \<and> 0x10000 \<le> c \<and> c \<le> 0x10ffff
     then Some 4 else None)"
proof -
  let ?c0 = "ucast (v ! i AND 0x07) :: u32"
  have lead: "\<not> unat (v ! i) < 128" "unat (v ! i) div 32 \<noteq> 6" "unat (v ! i) div 16 \<noteq> 14" using assms by auto
  have b: "unat (v ! i) mod 8 < 8" "unat (v ! (i + 1)) mod 64 < 64" "unat (v ! (i + 2)) mod 64 < 64"
    "unat (v ! (i + 3)) mod 64 < 64"
    by simp_all
  have "unat ?c0 = unat (v ! i) mod 8" by (simp only: unat_ucast_byte byte_fields)
  then have "unat (utf8_push ?c0 (v ! (i + 1))) = unat (v ! i) mod 8 * 64 + unat (v ! (i + 1)) mod 64"
    using b by (simp add: unat_utf8_push)
  then have "unat (utf8_push (utf8_push ?c0 (v ! (i + 1))) (v ! (i + 2))) =
      unat (v ! i) mod 8 * 4096 + unat (v ! (i + 1)) mod 64 * 64 + unat (v ! (i + 2)) mod 64"
    using b by (simp add: unat_utf8_push)
  then have "unat (utf8_push (utf8_push (utf8_push ?c0 (v ! (i + 1))) (v ! (i + 2))) (v ! (i + 3))) = c"
    using b by (simp add: unat_utf8_push c)
  moreover have "utf8_lead (v ! i) = Some (4, ?c0)"
    using assms(1) lead by (simp add: utf8_lead_def byte_patterns)
  moreover have "utf8_continuation v i 1 4 ?c0 =
      (if unat (v ! (i + 1)) div 64 = 2 \<and> unat (v ! (i + 2)) div 64 = 2 \<and> unat (v ! (i + 3)) div 64 = 2
       then Some (utf8_push (utf8_push (utf8_push ?c0 (v ! (i + 1))) (v ! (i + 2))) (v ! (i + 3))) else None)"
    by (simp add: utf8_continuation_step utf8_continuation_done numeral_3_eq_3)
  ultimately show ?thesis
    unfolding utf8_scalar_def by (simp add: word_less_nat_alt word_le_nat_alt)
qed

lemma utf8_scalar_other:
  assumes "\<not> unat (v ! i) < 128" "unat (v ! i) div 32 \<noteq> 6" "unat (v ! i) div 16 \<noteq> 14" "unat (v ! i) div 8 \<noteq> 30"
  shows "utf8_scalar v i = None"
  using assms by (simp add: utf8_eval)

lemma take_drop_nth: "i + n \<le> length v \<Longrightarrow> take n (drop i v) = map (\<lambda>k. v ! (i + k)) [0..<n]"
  by (rule nth_equalityI) auto

lemma map_unat_bytes: "\<forall>x \<in> set xs. x < 256 \<Longrightarrow> map unat (map word_of_nat xs :: bytes) = xs"
  by (induction xs) (simp_all add: unat_of_nat)

lemma utf8_encode_unat:
  assumes "is_scalar_value c"
  shows "map unat (utf8_encode c) =
     (if c < 0x80 then [c]
      else if c < 0x800 then [0xc0 + c div 64, 0x80 + c mod 64]
      else if c < 0x10000 then [0xe0 + c div 4096, 0x80 + c div 64 mod 64, 0x80 + c mod 64]
      else [0xf0 + c div 262144, 0x80 + c div 4096 mod 64, 0x80 + c div 64 mod 64, 0x80 + c mod 64])"
proof -
  have "c < 0x110000" using assms by (simp add: is_scalar_value_def)
  then have "c div 262144 < 5" by simp
  moreover have "c < 0x10000 \<Longrightarrow> c div 4096 < 16" "c < 0x800 \<Longrightarrow> c div 64 < 32" by simp_all
  moreover have "x mod 64 < 64" for x :: nat by simp
  ultimately show ?thesis
    unfolding utf8_encode_def by (intro map_unat_bytes) (auto simp: trans_less_add1)
qed

lemma upt_small: "[0..<1] = [0]" "[0..<2] = [0, 1]" "[0..<3] = [0, 1, 2]" "[0..<4] = [0, 1, 2, 3]"
  by (simp_all add: upt_rec)

lemma map_unat_inject: "map unat xs = map unat ys \<longleftrightarrow> xs = (ys :: 'a::len word list)"
  by (rule inj_map_eq_map) (simp add: inj_def unat_eq_iff)

lemma radix:
  fixes y d k :: nat
  assumes "y < d"
  shows "(k * d + y) div d = k" "(k * d + y) mod d = y"
  using assms by simp_all

lemma radix_byte:
  fixes x :: nat
  shows "x < 32 \<Longrightarrow> (192 + x) div 32 = 6 \<and> (192 + x) mod 32 = x"
    "x < 16 \<Longrightarrow> (224 + x) div 16 = 14 \<and> (224 + x) mod 16 = x"
    "x < 8 \<Longrightarrow> (240 + x) div 8 = 30 \<and> (240 + x) mod 8 = x"
    "x < 64 \<Longrightarrow> (128 + x) div 64 = 2 \<and> (128 + x) mod 64 = x"
  using radix [of x 32 6] radix [of x 16 14] radix [of x 8 30] radix [of x 64 2] by simp_all

lemma div_4096: "n div 4096 = n div 64 div 64" "n div 262144 = n div 64 div 64 div 64" for n :: nat
  using div_mult2_eq [of n 64 64] div_mult2_eq [of n 4096 64] by simp_all

lemma radix3:
  fixes a b e :: nat
  assumes "b < 64" "e < 64" and c: "c = a * 4096 + b * 64 + e"
  shows "c div 4096 = a" "c div 64 mod 64 = b" "c mod 64 = e"
proof -
  have e: "c = (a * 64 + b) * 64 + e" by (simp add: c)
  have 1: "c div 64 = a * 64 + b" "c mod 64 = e" unfolding e by (rule radix [OF assms(2)])+
  show "c div 4096 = a" "c div 64 mod 64 = b" "c mod 64 = e"
    by (simp_all only: div_4096 1 radix [OF assms(1)])
qed

lemma radix4:
  fixes a b e f :: nat
  assumes "b < 64" "e < 64" "f < 64" and c: "c = a * 262144 + b * 4096 + e * 64 + f"
  shows "c div 262144 = a" "c div 4096 mod 64 = b" "c div 64 mod 64 = e" "c mod 64 = f"
proof -
  have f: "c = (a * 4096 + b * 64 + e) * 64 + f" by (simp add: c)
  have 1: "c div 64 = a * 4096 + b * 64 + e" "c mod 64 = f" unfolding f by (rule radix [OF assms(3)])+
  note r3 = radix3 [OF assms(1,2) 1(1)]
  show "c div 262144 = a" "c div 4096 mod 64 = b" "c div 64 mod 64 = e" "c mod 64 = f"
    by (simp_all only: div_4096(2) 1(2) r3 [unfolded div_4096(1)] div_4096(1))
qed

lemma radix_sum:
  fixes c :: nat
  shows "c div 4096 * 4096 + c div 64 mod 64 * 64 + c mod 64 = c"
    "c div 262144 * 262144 + c div 4096 mod 64 * 4096 + c div 64 mod 64 * 64 + c mod 64 = c"
proof -
  have 1: "c div 64 * 64 + c mod 64 = c" by simp
  have 2: "c div 64 div 64 * 64 + c div 64 mod 64 = c div 64" by simp
  have 3: "c div 64 div 64 div 64 * 64 + c div 64 div 64 mod 64 = c div 64 div 64" by simp
  show "c div 4096 * 4096 + c div 64 mod 64 * 64 + c mod 64 = c"
    unfolding div_4096 using 1 2 by linarith
  show "c div 262144 * 262144 + c div 4096 mod 64 * 4096 + c div 64 mod 64 * 64 + c mod 64 = c"
    unfolding div_4096 using 1 2 3 by linarith
qed

lemma if_Some_eq: "(if P then Some a else None) = Some b \<longleftrightarrow> P \<and> a = b"
  by simp

lemma byte_split: "n div d = k \<Longrightarrow> d * k + n mod d = n" for n d k :: nat
  by auto

lemma utf8_scalar_sound:
  assumes s: "utf8_scalar v i = Some n" and i: "i < length v"
  shows "\<exists>c. is_scalar_value c \<and> take n (drop i v) = utf8_encode c"
proof -
  let ?b = "\<lambda>k. unat (v ! (i + k))"
  have n: "i + n \<le> length v" using utf8_scalar_pos [OF s] by simp
  have ex: ?thesis if "is_scalar_value c" "map unat (utf8_encode c) = map ?b [0..<n]" for c
    using that by (intro exI [of _ c]) (simp add: take_drop_nth [OF n] map_unat_inject [symmetric] comp_def)
  consider "?b 0 < 128" | "?b 0 div 32 = 6" | "?b 0 div 16 = 14" | "?b 0 div 8 = 30"
    using s utf8_scalar_other [of v i] by fastforce
  then show ?thesis
  proof cases
    case 1
    then have "n = 1" using s i utf8_scalar_1 [of v i] by simp
    with 1 show ?thesis by (intro ex [of "?b 0"]) (auto simp: is_scalar_value_def utf8_encode_unat)
  next
    case 2
    let ?c = "?b 0 mod 32 * 64 + ?b 1 mod 64"
    from 2 s have f: "n = 2" "?b 1 div 64 = 2" "128 \<le> ?c"
      using utf8_scalar_2 [of v i] by (auto split: if_splits)
    have lt: "?b 0 mod 32 < 32" "?b 1 mod 64 < 64" by simp_all
    have d: "?c div 64 = ?b 0 mod 32" "?c mod 64 = ?b 1 mod 64" using radix [OF lt(2)] by blast+
    have cs: "?c < 0x800" using lt by linarith
    have e: "192 + ?b 0 mod 32 = ?b 0" "128 + ?b 1 mod 64 = ?b 1"
      using byte_split [OF 2] byte_split [OF f(2)] by simp_all
    show ?thesis
    proof (rule ex [of ?c])
      show sc: "is_scalar_value ?c" using cs by (simp add: is_scalar_value_def)
      show "map unat (utf8_encode ?c) = map ?b [0..<n]"
        unfolding utf8_encode_unat [OF sc] f(1) upt_small using f(3) cs d e by simp
    qed
  next
    case 3
    let ?c = "?b 0 mod 16 * 4096 + ?b 1 mod 64 * 64 + ?b 2 mod 64"
    from 3 s have f: "n = 3" "?b 1 div 64 = 2" "?b 2 div 64 = 2" "0x800 \<le> ?c" "\<not> (0xd800 \<le> ?c \<and> ?c \<le> 0xdfff)"
      using utf8_scalar_3 [of v i ?c] by (auto split: if_splits)
    have lt: "?b 0 mod 16 < 16" "?b 1 mod 64 < 64" "?b 2 mod 64 < 64" by simp_all
    have d: "?c div 4096 = ?b 0 mod 16" "?c div 64 mod 64 = ?b 1 mod 64" "?c mod 64 = ?b 2 mod 64"
      using radix3 [OF lt(2,3) refl] by blast+
    have cs: "?c < 0x10000" using lt by linarith
    have e: "224 + ?b 0 mod 16 = ?b 0" "128 + ?b 1 mod 64 = ?b 1" "128 + ?b 2 mod 64 = ?b 2"
      using byte_split [OF 3] byte_split [OF f(2)] byte_split [OF f(3)] by simp_all
    show ?thesis
    proof (rule ex [of ?c])
      show sc: "is_scalar_value ?c" using cs f(5) by (simp add: is_scalar_value_def)
      show "map unat (utf8_encode ?c) = map ?b [0..<n]"
        unfolding utf8_encode_unat [OF sc] f(1) upt_small using f(4,5) cs d e by simp
    qed
  next
    case 4
    obtain c where c: "c = ?b 0 mod 8 * 262144 + ?b 1 mod 64 * 4096 + ?b 2 mod 64 * 64 + ?b 3 mod 64"
      by blast
    note u = utf8_scalar_4 [of v i c, OF 4 [unfolded add_0_right] c [unfolded add_0_right]]
    note f' = s [unfolded u if_Some_eq]
    have f: "n = 4" "?b 1 div 64 = 2" "?b 2 div 64 = 2" "?b 3 div 64 = 2" "0x10000 \<le> c" "c \<le> 0x10ffff"
      using f' by blast+
    have d: "c div 262144 = ?b 0 mod 8" "c div 4096 mod 64 = ?b 1 mod 64" "c div 64 mod 64 = ?b 2 mod 64"
      "c mod 64 = ?b 3 mod 64"
      by (rule radix4 [OF _ _ _ c]; simp)+
    have e: "240 + ?b 0 mod 8 = ?b 0" "128 + ?b 1 mod 64 = ?b 1" "128 + ?b 2 mod 64 = ?b 2" "128 + ?b 3 mod 64 = ?b 3"
      using byte_split [OF 4] byte_split [OF f(2)] byte_split [OF f(3)] byte_split [OF f(4)] by simp_all
    have big: "\<not> c < 0x80" "\<not> c < 0x800" "\<not> c < 0x10000" using f(5) by simp_all
    show ?thesis
    proof (rule ex [of c])
      show sc: "is_scalar_value c" using f(5,6) by (simp add: is_scalar_value_def)
      show "map unat (utf8_encode c) = map ?b [0..<n]"
        by (simp only: utf8_encode_unat [OF sc] f(1) upt_small big if_False d e list.map)
    qed
  qed
qed

lemma utf8_scalar_complete:
  assumes c: "is_scalar_value c" and i: "i + length (utf8_encode c) \<le> length v"
    and eq: "take (length (utf8_encode c)) (drop i v) = utf8_encode c"
  shows "utf8_scalar v i = Some (length (utf8_encode c))"
proof -
  let ?n = "length (utf8_encode c)" and ?b = "\<lambda>k. unat (v ! (i + k))"
  have "map unat (utf8_encode c) = map ?b [0..<?n]"
    using eq take_drop_nth [OF i] by (metis (no_types, lifting) comp_apply map_eq_conv map_map)
  note b = this [unfolded utf8_encode_unat [OF c]]
  have cb: "c < 0x110000" "\<not> (0xd800 \<le> c \<and> c \<le> 0xdfff)" using c by (simp_all add: is_scalar_value_def)
  consider "c < 0x80" | "0x80 \<le> c" "c < 0x800" | "0x800 \<le> c" "c < 0x10000" | "0x10000 \<le> c" by linarith
  then show ?thesis
  proof cases
    case 1
    then have n: "?n = 1" by (simp add: utf8_encode_def)
    from b [unfolded n upt_small] 1 have "?b 0 = c" by simp
    then show ?thesis using utf8_scalar_1 [of v i] 1 i n by simp
  next
    case 2
    then have n: "?n = 2" by (simp add: utf8_encode_def)
    from b [unfolded n upt_small] 2 have b': "?b 0 = 192 + c div 64" "?b 1 = 128 + c mod 64" by simp_all
    have "c div 64 < 32" using 2 by simp
    then have "?b 0 div 32 = 6" "?b 0 mod 32 = c div 64" "?b 1 div 64 = 2" "?b 1 mod 64 = c mod 64"
      unfolding b' using radix_byte by simp_all
    then show ?thesis using utf8_scalar_2 [of v i] 2 i n by simp
  next
    case 3
    have big: "\<not> c < 0x80" "\<not> c < 0x800" "c < 0x10000" using 3 by simp_all
    then have n: "?n = 3" by (simp add: utf8_encode_def)
    have b': "?b 0 = 224 + c div 4096" "?b 1 = 128 + c div 64 mod 64" "?b 2 = 128 + c mod 64"
      using b [unfolded n upt_small] big by simp_all
    have lt: "c div 4096 < 16" "c div 64 mod 64 < 64" "c mod 64 < 64" using 3 by simp_all
    note d = radix_byte(2) [OF lt(1), folded b'(1)] radix_byte(4) [OF lt(2), folded b'(2)]
      radix_byte(4) [OF lt(3), folded b'(3)]
    have "c = ?b 0 mod 16 * 4096 + ?b 1 mod 64 * 64 + ?b 2 mod 64"
      by (simp only: d radix_sum)
    note u = utf8_scalar_3 [of v i c, OF d(1) [THEN conjunct1, unfolded add_0_right] this [unfolded add_0_right]]
    have "i + 3 \<le> length v" using i n by simp
    with d 3 cb(2) show ?thesis unfolding u n by (simp only: simp_thms if_True)
  next
    case 4
    have big: "\<not> c < 0x80" "\<not> c < 0x800" "\<not> c < 0x10000" using 4 by simp_all
    then have n: "?n = 4" by (simp add: utf8_encode_def)
    have b': "?b 0 = 240 + c div 262144" "?b 1 = 128 + c div 4096 mod 64"
      "?b 2 = 128 + c div 64 mod 64" "?b 3 = 128 + c mod 64"
      using b [unfolded n upt_small] big by simp_all
    have lt: "c div 262144 < 8" "c div 4096 mod 64 < 64" "c div 64 mod 64 < 64" "c mod 64 < 64"
      using cb(1) by simp_all
    note d = radix_byte(3) [OF lt(1), folded b'(1)] radix_byte(4) [OF lt(2), folded b'(2)]
      radix_byte(4) [OF lt(3), folded b'(3)] radix_byte(4) [OF lt(4), folded b'(4)]
    have "c = ?b 0 mod 8 * 262144 + ?b 1 mod 64 * 4096 + ?b 2 mod 64 * 64 + ?b 3 mod 64"
      by (simp only: d radix_sum)
    note u = utf8_scalar_4 [of v i c, OF d(1) [THEN conjunct1, unfolded add_0_right] this [unfolded add_0_right]]
    have "i + 4 \<le> length v" "c \<le> 0x10ffff" using i n cb(1) by simp_all
    with d 4 show ?thesis unfolding u n by (simp only: simp_thms if_True)
  qed
qed

subsection \<open>The validator decides well-formedness\<close>

lemma utf8_encode_length: "utf8_encode c \<noteq> []"
  by (simp add: utf8_encode_def)

lemma utf8_spec_Nil: "utf8_spec []"
  unfolding utf8_spec_def by (rule exI [of _ "[]"]) simp

lemma utf8_spec_Cons: "is_scalar_value c \<Longrightarrow> utf8_spec r \<Longrightarrow> utf8_spec (utf8_encode c @ r)"
  unfolding utf8_spec_def by (metis concat.simps(2) list.simps(9) set_ConsD)

lemma utf8_spec_cases:
  assumes "utf8_spec v" "v \<noteq> []"
  obtains c r where "is_scalar_value c" "v = utf8_encode c @ r" "utf8_spec r"
proof -
  from assms(1) obtain cs where cs: "\<forall>c \<in> set cs. is_scalar_value c" "v = concat (map utf8_encode cs)"
    by (auto simp: utf8_spec_def)
  with assms(2) obtain c ds where "cs = c # ds" by (cases cs) auto
  with cs show thesis by (intro that [of c "concat (map utf8_encode ds)"]) (auto simp: utf8_spec_def)
qed

lemma utf8_spec_step:
  assumes i: "i < length v"
  shows "utf8_spec (drop i v) \<longleftrightarrow> (\<exists>n. utf8_scalar v i = Some n \<and> utf8_spec (drop (i + n) v))"
proof
  assume "utf8_spec (drop i v)"
  then obtain c r where c: "is_scalar_value c" "drop i v = utf8_encode c @ r" "utf8_spec r"
    using i by (auto elim: utf8_spec_cases)
  let ?n = "length (utf8_encode c)"
  have "length (drop i v) = ?n + length r" using c(2) by simp
  then have "i + ?n \<le> length v" using i by simp
  moreover have "take ?n (drop i v) = utf8_encode c" using c(2) by simp
  moreover have "drop (i + ?n) v = r" using c(2) by (metis add.commute append_eq_conv_conj drop_drop)
  ultimately show "\<exists>n. utf8_scalar v i = Some n \<and> utf8_spec (drop (i + n) v)"
    using utf8_scalar_complete [OF c(1)] c(3) by blast
next
  assume "\<exists>n. utf8_scalar v i = Some n \<and> utf8_spec (drop (i + n) v)"
  then obtain n where n: "utf8_scalar v i = Some n" "utf8_spec (drop (i + n) v)" by blast
  obtain c where "is_scalar_value c" "take n (drop i v) = utf8_encode c"
    using utf8_scalar_sound [OF n(1) i] by blast
  then have "utf8_spec (take n (drop i v) @ drop (i + n) v)" using utf8_spec_Cons n(2) by simp
  then show "utf8_spec (drop i v)" by (metis append_take_drop_id drop_drop add.commute)
qed

lemma utf8_spec_ascii:
  assumes "i + n \<le> length v" and "\<forall>k < n. unat (v ! (i + k)) < 128"
  shows "utf8_spec (drop i v) \<longleftrightarrow> utf8_spec (drop (i + n) v)"
  using assms
proof (induction n arbitrary: i)
  case (Suc n)
  have "utf8_spec (drop i v) \<longleftrightarrow> utf8_spec (drop (i + 1) v)"
    using utf8_spec_step [of i v] utf8_scalar_1 [of v i] Suc.prems by auto
  also have "\<dots> \<longleftrightarrow> utf8_spec (drop (i + 1 + n) v)"
    using Suc.prems by (intro Suc.IH) (auto simp: add.assoc)
  finally show ?case by simp
qed simp

lemma ascii_word:
  assumes "length bs = 8" and "(le_word bs :: u64) AND 0x8080808080808080 = 0" and "k < 8"
  shows "unat (bs ! k) < 128"
proof -
  have m: "bit (0x8080808080808080 :: u64) (k * 8 + 7)"
  proof -
    from assms(3) have "k \<in> {0, 1, 2, 3, 4, 5, 6, 7}" by auto
    then show ?thesis by auto
  qed
  have "\<not> bit ((le_word bs :: u64) AND 0x8080808080808080) (k * 8 + 7)" by (simp only: assms(2) bit_0_eq) simp
  then have "\<not> bit (le_word bs :: u64) (k * 8 + 7)" using m by (simp only: bit_and_iff) simp
  moreover have "(k * 8 + 7) div 8 = k" "(k * 8 + 7) mod 8 = 7" "k * 8 + 7 < 64" using assms(3) by simp_all
  ultimately have "\<not> bit (bs ! k) 7" using assms by (simp add: bit_le_word)
  then have "bs ! k = take_bit 7 (bs ! k)"
    by (intro bit_word_eqI) (auto simp: bit_take_bit_iff less_Suc_eq numeral_eq_Suc)
  then have "unat (bs ! k) = unat (bs ! k) mod 2 ^ 7" by (metis unat_take_bit)
  moreover have "x mod 2 ^ 7 < (128::nat)" for x by simp
  ultimately show ?thesis by metis
qed

lemma utf8_skip_ascii_ok:
  assumes "i \<le> length v"
  shows "utf8_skip_ascii v i \<le> length v \<and> (utf8_spec (drop (utf8_skip_ascii v i) v) \<longleftrightarrow> utf8_spec (drop i v))"
  using assms
proof (induction v i rule: utf8_skip_ascii.induct)
  case (1 v i)
  show ?case
  proof (cases "length v - i \<ge> 8 \<and> (le_word (take 8 (drop i v)) :: u64) AND 0x8080808080808080 = 0")
    case True
    have "unat (v ! (i + k)) < 128" if "k < 8" for k
      using ascii_word [of "take 8 (drop i v)" k] True that "1.prems" by simp
    then have "utf8_spec (drop i v) \<longleftrightarrow> utf8_spec (drop (i + 8) v)"
      using True by (intro utf8_spec_ascii) auto
    moreover have "i + 8 \<le> length v" using True "1.prems" by linarith
    ultimately show ?thesis using "1.IH" True by (subst (1 2) utf8_skip_ascii.simps) simp
  next
    case False
    with 1 show ?thesis by (subst (1 2) utf8_skip_ascii.simps) auto
  qed
qed

lemma utf8_loop_spec: "i \<le> length v \<Longrightarrow> utf8_loop v i \<longleftrightarrow> utf8_spec (drop i v)"
proof (induction v i rule: utf8_loop.induct)
  case (1 v i)
  let ?j = "utf8_skip_ascii v i"
  show ?case
  proof (cases "i < length v \<and> ?j \<noteq> length v")
    case True
    then have j: "?j < length v" using utf8_skip_ascii_ok [OF "1.prems"] by simp
    have "utf8_loop v i \<longleftrightarrow> (\<exists>n. utf8_scalar v ?j = Some n \<and> utf8_loop v (?j + n))"
      using True by (subst utf8_loop.simps) (simp add: Let_def split: option.split)
    also have "\<dots> \<longleftrightarrow> (\<exists>n. utf8_scalar v ?j = Some n \<and> utf8_spec (drop (?j + n) v))"
      using "1.IH" True utf8_scalar_pos by blast
    also have "\<dots> \<longleftrightarrow> utf8_spec (drop i v)"
      using utf8_spec_step [OF j] utf8_skip_ascii_ok [OF "1.prems"] by blast
    finally show ?thesis .
  next
    case False
    then show ?thesis using utf8_skip_ascii_ok [OF "1.prems"] "1.prems"
      by (subst utf8_loop.simps) (auto simp: Let_def utf8_spec_Nil)
  qed
qed

text \<open>
  C3. The UTF-8 validator accepts a byte string exactly when it is the concatenation of the
  shortest encodings of Unicode scalar values: every overlong form, surrogate, code point
  above 10FFFF, stray or missing continuation byte is refused and nothing else is, and
  skipping ASCII eight bytes at a time never changes the verdict.
\<close>

theorem IsValidProtocolUtf8_correct: "IsValidProtocolUtf8 v \<longleftrightarrow> utf8_spec v"
  by (simp add: IsValidProtocolUtf8_def utf8_loop_spec)


section \<open>Strings\<close>

definition ValidateProtocolString :: "bytes \<Rightarrow> nat \<Rightarrow> string \<Rightarrow> string + unit" where
  "ValidateProtocolString v MaximumBytes Description =
     (if length v > MaximumBytes then Inl (Description @ '' exceeds its byte limit'')
      else if 0 \<in> set v then Inl (Description @ '' contains an embedded null'')
      else if \<not> IsValidProtocolUtf8 v then Inl (Description @ '' is not valid UTF-8'')
      else Inr ())"

definition protocol_string :: "nat \<Rightarrow> bytes \<Rightarrow> bool" where
  "protocol_string n v \<longleftrightarrow> length v \<le> n \<and> 0 \<notin> set v \<and> utf8_spec v"

lemma ValidateProtocolString_ok:
  "ValidateProtocolString v n d = Inr () \<longleftrightarrow> protocol_string n v"
  by (auto simp: ValidateProtocolString_def protocol_string_def IsValidProtocolUtf8_def utf8_loop_spec)

lemma ValidateProtocolString_then:
  "(case ValidateProtocolString v n d of Inl e \<Rightarrow> Inl e | Inr u \<Rightarrow> k) = Inr x \<longleftrightarrow> protocol_string n v \<and> k = Inr x"
  by (simp add: case_sum_eq_Inr ValidateProtocolString_ok)

section \<open>JSON documents\<close>

text \<open>
  The scan that bounds the nesting of a document before it is parsed: \<open>Depth\<close>,
  \<open>InString\<close> and \<open>Escaped\<close> are the locals of the loop.
\<close>

datatype json_scan = json_scan (Depth: nat) (InString: bool) (Escaped: bool)

definition json_scan_step :: "json_scan \<Rightarrow> u8 \<Rightarrow> json_scan option" where
  "json_scan_step s c =
     (if InString s then
        (if Escaped s then Some (json_scan (Depth s) True False)
         else if c = 0x5c then Some (json_scan (Depth s) True True)
         else if c = 0x22 then Some (json_scan (Depth s) False False)
         else Some s)
      else if c = 0x22 then Some (json_scan (Depth s) True (Escaped s))
      else if c = 0x7b \<or> c = 0x5b then
        (if Depth s + 1 > MaximumProtocolJsonDepth then None
         else Some (json_scan (Depth s + 1) False (Escaped s)))
      else if (c = 0x7d \<or> c = 0x5d) \<and> Depth s \<noteq> 0 then Some (json_scan (Depth s - 1) False (Escaped s))
      else Some s)"

fun json_scan_all :: "json_scan \<Rightarrow> bytes \<Rightarrow> json_scan option" where
  "json_scan_all s [] = Some s"
| "json_scan_all s (c # cs) =
     (case json_scan_step s c of None \<Rightarrow> None | Some t \<Rightarrow> json_scan_all t cs)"

definition ValidateProtocolJsonDocument :: "bytes \<Rightarrow> nat \<Rightarrow> string + unit" where
  "ValidateProtocolJsonDocument v MaximumBytes =
     (if v = [] \<or> length v > MaximumBytes then Inl ''Protocol document byte length is invalid''
      else (case json_scan_all (json_scan 0 False False) v of
          None \<Rightarrow> Inl ''Protocol JSON exceeds its nesting-depth limit''
        | Some _ \<Rightarrow> Inr ()))"

lemma json_scan_all_append:
  "json_scan_all s (xs @ ys) = (case json_scan_all s xs of None \<Rightarrow> None | Some t \<Rightarrow> json_scan_all t ys)"
  by (induction s xs rule: json_scan_all.induct) (auto split: option.splits)

lemma json_scan_step_depth:
  "json_scan_step s c = Some t \<Longrightarrow> Depth s \<le> MaximumProtocolJsonDepth \<Longrightarrow> Depth t \<le> MaximumProtocolJsonDepth"
  by (auto simp: json_scan_step_def split: if_splits)

lemma json_scan_all_depth:
  "json_scan_all s v = Some t \<Longrightarrow> Depth s \<le> MaximumProtocolJsonDepth \<Longrightarrow> Depth t \<le> MaximumProtocolJsonDepth"
  by (induction s v rule: json_scan_all.induct) (auto split: option.splits dest: json_scan_step_depth)

section \<open>JSON trees\<close>

text \<open>
  What \<open>ValidateJsonNode\<close> observes of a parsed node: a string, an object with its
  fields in iteration order, an array, or any other scalar. The running node count, a
  reference parameter of the code, is threaded through.
\<close>

datatype Json =
    JsonScalar
  | JsonString bytes
  | JsonObject "(bytes \<times> Json) list"
  | JsonArray "Json list"

fun ValidateJsonNode :: "Json \<Rightarrow> nat \<Rightarrow> nat \<Rightarrow> nat \<Rightarrow> string + nat"
and ValidateJsonFields :: "(bytes \<times> Json) list \<Rightarrow> nat \<Rightarrow> nat \<Rightarrow> nat \<Rightarrow> string + nat"
and ValidateJsonItems :: "Json list \<Rightarrow> nat \<Rightarrow> nat \<Rightarrow> nat \<Rightarrow> string + nat" where
  "ValidateJsonNode v depth nodes MaximumNodes =
     (if depth > MaximumProtocolJsonDepth then Inl ''Protocol JSON exceeds its nesting-depth limit''
      else if nodes = MaximumNodes then Inl ''Protocol JSON exceeds its node-count limit''
      else (case v of
          JsonString s \<Rightarrow>
            (case ValidateProtocolString s MaximumProtocolStringBytes ''Protocol string'' of
               Inl e \<Rightarrow> Inl e | Inr _ \<Rightarrow> Inr (nodes + 1))
        | JsonObject fs \<Rightarrow> ValidateJsonFields fs (depth + 1) (nodes + 1) MaximumNodes
        | JsonArray xs \<Rightarrow> ValidateJsonItems xs (depth + 1) (nodes + 1) MaximumNodes
        | JsonScalar \<Rightarrow> Inr (nodes + 1)))"
| "ValidateJsonFields [] depth nodes MaximumNodes = Inr nodes"
| "ValidateJsonFields ((name, child) # rest) depth nodes MaximumNodes =
     (case ValidateProtocolString name MaximumProtocolIdentifierBytes ''Protocol field name'' of
        Inl e \<Rightarrow> Inl e
      | Inr _ \<Rightarrow> (case ValidateJsonNode child depth nodes MaximumNodes of
            Inl e \<Rightarrow> Inl e
          | Inr n \<Rightarrow> ValidateJsonFields rest depth n MaximumNodes))"
| "ValidateJsonItems [] depth nodes MaximumNodes = Inr nodes"
| "ValidateJsonItems (child # rest) depth nodes MaximumNodes =
     (case ValidateJsonNode child depth nodes MaximumNodes of
        Inl e \<Rightarrow> Inl e
      | Inr n \<Rightarrow> ValidateJsonItems rest depth n MaximumNodes)"

definition ValidateTree :: "Json \<Rightarrow> nat \<Rightarrow> string + unit" where
  "ValidateTree v MaximumNodes =
     (if MaximumNodes = 0 then Inl ''Protocol JSON node-count limit is zero''
      else (case ValidateJsonNode v 1 0 MaximumNodes of Inl e \<Rightarrow> Inl e | Inr _ \<Rightarrow> Inr ()))"

text \<open>What a tree must satisfy, by structural recursion and without a running count.\<close>

fun json_nodes :: "Json \<Rightarrow> nat" where
  "json_nodes (JsonObject fs) = 1 + (\<Sum>f \<leftarrow> fs. json_nodes (snd f))"
| "json_nodes (JsonArray xs) = 1 + (\<Sum>x \<leftarrow> xs. json_nodes x)"
| "json_nodes _ = 1"

fun json_strings_ok :: "Json \<Rightarrow> bool" where
  "json_strings_ok (JsonString s) = protocol_string MaximumProtocolStringBytes s"
| "json_strings_ok (JsonObject fs) =
     (\<forall>f \<in> set fs. protocol_string MaximumProtocolIdentifierBytes (fst f) \<and> json_strings_ok (snd f))"
| "json_strings_ok (JsonArray xs) = (\<forall>x \<in> set xs. json_strings_ok x)"
| "json_strings_ok JsonScalar = True"

fun json_depth_le :: "nat \<Rightarrow> Json \<Rightarrow> bool" where
  "json_depth_le 0 v = False"
| "json_depth_le (Suc d) (JsonObject fs) = (\<forall>f \<in> set fs. json_depth_le d (snd f))"
| "json_depth_le (Suc d) (JsonArray xs) = (\<forall>x \<in> set xs. json_depth_le d x)"
| "json_depth_le (Suc d) _ = True"

declare ValidateJsonNode.simps [simp del]

lemma ValidateJson_spec:
  "nodes \<le> m \<Longrightarrow> d \<le> MaximumProtocolJsonDepth \<Longrightarrow> ValidateJsonNode v (MaximumProtocolJsonDepth + 1 - d) nodes m = Inr n \<longleftrightarrow>
     n = nodes + json_nodes v \<and> n \<le> m \<and> json_depth_le d v \<and> json_strings_ok v"
  "nodes \<le> m \<Longrightarrow> d \<le> MaximumProtocolJsonDepth \<Longrightarrow> ValidateJsonFields fs (MaximumProtocolJsonDepth + 1 - d) nodes m = Inr n \<longleftrightarrow>
     n = nodes + (\<Sum>f \<leftarrow> fs. json_nodes (snd f)) \<and> n \<le> m \<and> (\<forall>f \<in> set fs. json_depth_le d (snd f)) \<and>
     json_strings_ok (JsonObject fs)"
  "nodes \<le> m \<Longrightarrow> d \<le> MaximumProtocolJsonDepth \<Longrightarrow> ValidateJsonItems xs (MaximumProtocolJsonDepth + 1 - d) nodes m = Inr n \<longleftrightarrow>
     n = nodes + (\<Sum>x \<leftarrow> xs. json_nodes x) \<and> n \<le> m \<and> (\<forall>x \<in> set xs. json_depth_le d x) \<and>
     json_strings_ok (JsonArray xs)"
proof (induction v "MaximumProtocolJsonDepth + 1 - d" nodes m and fs "MaximumProtocolJsonDepth + 1 - d" nodes m
    and xs "MaximumProtocolJsonDepth + 1 - d" nodes m arbitrary: d n and d n and d n
    rule: ValidateJsonNode_ValidateJsonFields_ValidateJsonItems.induct)
  case (1 v nodes m d n)
  show ?case
  proof (cases d)
    case 0
    then show ?thesis by (simp add: ValidateJsonNode.simps)
  next
    case (Suc d')
    then have d: "MaximumProtocolJsonDepth + 1 - d + 1 = MaximumProtocolJsonDepth + 1 - d'" "d' \<le> MaximumProtocolJsonDepth"
      "\<not> MaximumProtocolJsonDepth + 1 - d > MaximumProtocolJsonDepth"
      using "1.prems" by simp_all
    show ?thesis
    proof (cases "nodes = m")
      case True
      have "0 < json_nodes v" by (cases v) simp_all
      with True d(3) show ?thesis by (auto simp: ValidateJsonNode.simps)
    next
      case False
      with "1.prems" have m: "nodes + 1 \<le> m" by simp
      show ?thesis
      proof (cases v)
        case (JsonObject fs)
        with "1.hyps"(1) [OF d(3) False _ d(1) m d(2), of fs n] False d m Suc show ?thesis
          by (simp add: ValidateJsonNode.simps)
      next
        case (JsonArray xs)
        with "1.hyps"(2) [OF d(3) False _ d(1) m d(2), of xs n] False d m Suc show ?thesis
          by (simp add: ValidateJsonNode.simps)
      qed (use False d m Suc in \<open>auto simp: ValidateJsonNode.simps ValidateProtocolString_then\<close>)
    qed
  qed
next
  case (3 name child rest nodes m d n)
  have "ValidateJsonFields ((name, child) # rest) (MaximumProtocolJsonDepth + 1 - d) nodes m = Inr n \<longleftrightarrow>
      protocol_string MaximumProtocolIdentifierBytes name \<and>
      (\<exists>k. ValidateJsonNode child (MaximumProtocolJsonDepth + 1 - d) nodes m = Inr k \<and>
        ValidateJsonFields rest (MaximumProtocolJsonDepth + 1 - d) k m = Inr n)"
    by (simp add: case_sum_eq_Inr ValidateProtocolString_ok)
  also have "\<dots> \<longleftrightarrow> protocol_string MaximumProtocolIdentifierBytes name \<and>
      (\<exists>k. (k = nodes + json_nodes child \<and> k \<le> m \<and> json_depth_le d child \<and> json_strings_ok child) \<and>
        n = k + (\<Sum>f \<leftarrow> rest. json_nodes (snd f)) \<and> n \<le> m \<and> (\<forall>f \<in> set rest. json_depth_le d (snd f)) \<and>
        json_strings_ok (JsonObject rest))"
  proof (intro conj_cong refl ex_cong1)
    fix k
    assume "protocol_string MaximumProtocolIdentifierBytes name"
    then have s: "ValidateProtocolString name MaximumProtocolIdentifierBytes ''Protocol field name'' = Inr ()"
      by (simp only: ValidateProtocolString_ok)
    show "ValidateJsonNode child (MaximumProtocolJsonDepth + 1 - d) nodes m = Inr k \<longleftrightarrow>
        k = nodes + json_nodes child \<and> k \<le> m \<and> json_depth_le d child \<and> json_strings_ok child"
      by (rule "3.hyps"(1) [OF s refl "3.prems"])
    assume "k = nodes + json_nodes child \<and> k \<le> m \<and> json_depth_le d child \<and> json_strings_ok child"
    then have "ValidateJsonNode child (MaximumProtocolJsonDepth + 1 - d) nodes m = Inr k" "k \<le> m"
      using "3.hyps"(1) [OF s refl "3.prems"] by blast+
    then show "ValidateJsonFields rest (MaximumProtocolJsonDepth + 1 - d) k m = Inr n \<longleftrightarrow>
        n = k + (\<Sum>f \<leftarrow> rest. json_nodes (snd f)) \<and> n \<le> m \<and> (\<forall>f \<in> set rest. json_depth_le d (snd f)) \<and>
        json_strings_ok (JsonObject rest)"
      by (rule "3.hyps"(2) [OF s _ refl _ "3.prems"(2)])
  qed
  also have "\<dots> \<longleftrightarrow> n = nodes + (\<Sum>f \<leftarrow> ((name, child) # rest). json_nodes (snd f)) \<and> n \<le> m \<and>
      (\<forall>f \<in> set ((name, child) # rest). json_depth_le d (snd f)) \<and> json_strings_ok (JsonObject ((name, child) # rest))"
    by (auto simp: add.assoc)
  finally show ?case .
next
  case (5 child rest nodes m d n)
  have "ValidateJsonItems (child # rest) (MaximumProtocolJsonDepth + 1 - d) nodes m = Inr n \<longleftrightarrow>
      (\<exists>k. ValidateJsonNode child (MaximumProtocolJsonDepth + 1 - d) nodes m = Inr k \<and>
        ValidateJsonItems rest (MaximumProtocolJsonDepth + 1 - d) k m = Inr n)"
    by (simp only: ValidateJsonItems.simps case_sum_eq_Inr)
  also have "\<dots> \<longleftrightarrow>
      (\<exists>k. (k = nodes + json_nodes child \<and> k \<le> m \<and> json_depth_le d child \<and> json_strings_ok child) \<and>
        n = k + (\<Sum>x \<leftarrow> rest. json_nodes x) \<and> n \<le> m \<and> (\<forall>x \<in> set rest. json_depth_le d x) \<and>
        json_strings_ok (JsonArray rest))"
  proof (intro conj_cong refl ex_cong1)
    fix k
    show "ValidateJsonNode child (MaximumProtocolJsonDepth + 1 - d) nodes m = Inr k \<longleftrightarrow>
        k = nodes + json_nodes child \<and> k \<le> m \<and> json_depth_le d child \<and> json_strings_ok child"
      by (rule "5.hyps"(1) [OF refl "5.prems"])
    assume "k = nodes + json_nodes child \<and> k \<le> m \<and> json_depth_le d child \<and> json_strings_ok child"
    then have "ValidateJsonNode child (MaximumProtocolJsonDepth + 1 - d) nodes m = Inr k" "k \<le> m"
      using "5.hyps"(1) [OF refl "5.prems"] by blast+
    then show "ValidateJsonItems rest (MaximumProtocolJsonDepth + 1 - d) k m = Inr n \<longleftrightarrow>
        n = k + (\<Sum>x \<leftarrow> rest. json_nodes x) \<and> n \<le> m \<and> (\<forall>x \<in> set rest. json_depth_le d x) \<and>
        json_strings_ok (JsonArray rest)"
      by (rule "5.hyps"(2) [OF _ refl _ "5.prems"(2)])
  qed
  also have "\<dots> \<longleftrightarrow> n = nodes + (\<Sum>x \<leftarrow> (child # rest). json_nodes x) \<and> n \<le> m \<and>
      (\<forall>x \<in> set (child # rest). json_depth_le d x) \<and> json_strings_ok (JsonArray (child # rest))"
    by (auto simp: add.assoc)
  finally show ?case .
qed auto


text \<open>
  C4. The tree validator accepts a JSON tree exactly when the node limit is positive, the
  tree has no more nodes than the limit, is nested at most 64 deep, and every string and
  every field name is valid UTF-8 without NUL within its byte limit.
\<close>

theorem ValidateTree_correct:
  "ValidateTree v m = Inr () \<longleftrightarrow>
     0 < m \<and> json_nodes v \<le> m \<and> json_depth_le MaximumProtocolJsonDepth v \<and> json_strings_ok v"
proof -
  have "ValidateJsonNode v 1 0 m = Inr n \<longleftrightarrow>
      n = json_nodes v \<and> n \<le> m \<and> json_depth_le MaximumProtocolJsonDepth v \<and> json_strings_ok v" for n
    using ValidateJson_spec(1) [of 0 m MaximumProtocolJsonDepth v n] by simp
  then have "(\<exists>n. ValidateJsonNode v 1 0 m = Inr n) \<longleftrightarrow>
      json_nodes v \<le> m \<and> json_depth_le MaximumProtocolJsonDepth v \<and> json_strings_ok v"
    by (simp only: ex_simps simp_thms)
  then show ?thesis
    by (cases "ValidateJsonNode v 1 0 m") (simp_all add: ValidateTree_def)
qed


section \<open>Wire values\<close>

definition require :: "bool \<Rightarrow> string \<Rightarrow> string + unit" where
  "require ok e = (if ok then Inr () else Inl e)"

primrec ValidateProtocolWireValue :: "WireValue \<Rightarrow> string + unit" where
  "ValidateProtocolWireValue (WireDouble x) = require (isfinite64 x) ''Wire double must be finite''"
| "ValidateProtocolWireValue (WireFloat x) = require (isfinite32 x) ''Wire float must be finite''"
| "ValidateProtocolWireValue (WireString s) = ValidateProtocolString s MaximumProtocolStringBytes ''Wire string''"
| "ValidateProtocolWireValue (WireVector2 x y) =
     require (isfinite32 x \<and> isfinite32 y) ''Wire Vector2 must be finite''"
| "ValidateProtocolWireValue (WireVector3 x y z) =
     require (isfinite32 x \<and> isfinite32 y \<and> isfinite32 z) ''Wire Vector3 must be finite''"
| "ValidateProtocolWireValue (WireColor3 r g b) =
     require (isfinite32 r \<and> isfinite32 g \<and> isfinite32 b) ''Wire Color3 must be finite''"
| "ValidateProtocolWireValue (WireUDimValue u) = require (isfinite32 (Scale u)) ''Wire UDim must be finite''"
| "ValidateProtocolWireValue (WireUDim2 x y) =
     require (isfinite32 (Scale x) \<and> isfinite32 (Scale y)) ''Wire UDim2 must be finite''"
| "ValidateProtocolWireValue (WireCFrame cs) = require (\<forall>c \<in> set cs. isfinite32 c) ''Wire CFrame must be finite''"
| "ValidateProtocolWireValue (WireEnumItem t i) =
     (case ValidateProtocolString t MaximumProtocolIdentifierBytes ''Wire enum type'' of
        Inl e \<Rightarrow> Inl e
      | Inr _ \<Rightarrow> ValidateProtocolString i MaximumProtocolIdentifierBytes ''Wire enum item'')"
| "ValidateProtocolWireValue (WireSchemaEnumValue i v _) =
     require (SchemaId_IsValid i \<and> v \<noteq> 0) ''Wire schema enum identity or version is invalid''"
| "ValidateProtocolWireValue (WireObjectReference obj) =
     require (ObjectId_IsValid obj) ''Wire object reference identity is invalid''"
| "ValidateProtocolWireValue WireMonostate = Inr ()"
| "ValidateProtocolWireValue (WireBool _) = Inr ()"
| "ValidateProtocolWireValue (WireInt _) = Inr ()"


end
