(* ===== verification/BinaryCodec.thy ===== *)
theory BinaryCodec imports ProtocolInput begin

text \<open>
  The bounded little-endian writer and reader of include/gargantuan/network/BinaryCodec.hpp
  and src/network/BinaryCodec.cpp, with the images of object ids, schema ids and wire
  values. Sizes are natural numbers: the only sum the code forms, four plus a string
  length below \<open>2 ^ 32\<close>, does not wrap a 64-bit \<open>std::size_t\<close>.
\<close>

section \<open>The writer\<close>

record writer =
  Bytes :: bytes
  MaximumBytes :: nat
  Failed :: bool

definition GameBinaryWriter :: "nat \<Rightarrow> writer" where
  "GameBinaryWriter n = \<lparr>Bytes = [], MaximumBytes = n, Failed = False\<rparr>"

definition CanAppend :: "nat \<Rightarrow> writer \<Rightarrow> bool \<times> writer" where
  "CanAppend count w =
     (if Failed w \<or> length (Bytes w) > MaximumBytes w \<or> count > MaximumBytes w - length (Bytes w)
      then (False, w\<lparr>Failed := True\<rparr>) else (True, w))"

definition Writer_Integer :: "'a::len word \<Rightarrow> writer \<Rightarrow> writer" where
  "Writer_Integer number w =
     (case CanAppend (LENGTH('a) div 8) w of
        (False, w') \<Rightarrow> w'
      | (True, w') \<Rightarrow> w'\<lparr>Bytes := Bytes w' @ le_bytes (LENGTH('a) div 8) number\<rparr>)"

definition Writer_Float :: "f32 \<Rightarrow> writer \<Rightarrow> writer" where
  "Writer_Float v = Writer_Integer v"

definition Writer_Double :: "f64 \<Rightarrow> writer \<Rightarrow> writer" where
  "Writer_Double v = Writer_Integer v"

definition Writer_String :: "bytes \<Rightarrow> writer \<Rightarrow> writer" where
  "Writer_String v w =
     (if length v > 0xffffffff then w
      else (case CanAppend (4 + length v) w of
          (False, w1) \<Rightarrow> w1
        | (True, w1) \<Rightarrow>
            (let w2 = Writer_Integer (word_of_nat (length v) :: u32) w1
             in w2\<lparr>Bytes := Bytes w2 @ v\<rparr>)))"

definition Writer_Append :: "bytes \<Rightarrow> writer \<Rightarrow> writer" where
  "Writer_Append v w =
     (case CanAppend (length v) w of
        (False, w') \<Rightarrow> w'
      | (True, w') \<Rightarrow> w'\<lparr>Bytes := Bytes w' @ v\<rparr>)"

definition Writer_Succeeded :: "writer \<Rightarrow> bool" where
  "Writer_Succeeded w \<longleftrightarrow> \<not> Failed w"

section \<open>The reader\<close>

text \<open>
  A read takes the reader and returns the value, or \<open>None\<close> where the code returns false,
  with the reader after it.
\<close>

record reader =
  Input :: bytes
  Position :: nat
  Error :: string
  Context :: string

type_synonym 'a rd = "reader \<Rightarrow> 'a option \<times> reader"

definition GameBinaryReader :: "bytes \<Rightarrow> string \<Rightarrow> reader" where
  "GameBinaryReader bs ctx = \<lparr>Input = bs, Position = 0, Error = [], Context = ctx\<rparr>"

definition Fail :: "string \<Rightarrow> 'a rd" where
  "Fail message r = (None, if Error r = [] then r\<lparr>Error := message\<rparr> else r)"

definition rd_return :: "'a \<Rightarrow> 'a rd" where
  "rd_return x r = (Some x, r)"

definition rd_bind :: "'a rd \<Rightarrow> ('a \<Rightarrow> 'b rd) \<Rightarrow> 'b rd" where
  "rd_bind m f r = (case m r of (None, r') \<Rightarrow> (None, r') | (Some x, r') \<Rightarrow> f x r')"

text \<open>\<open>if (!m || !P) return Fail(message)\<close>, and \<open>P || Fail(message)\<close>.\<close>

definition rd_or_fail :: "'a rd \<Rightarrow> ('a \<Rightarrow> bool) \<Rightarrow> string \<Rightarrow> 'a rd" where
  "rd_or_fail m P message r =
     (case m r of
        (None, r') \<Rightarrow> Fail message r'
      | (Some x, r') \<Rightarrow> if P x then (Some x, r') else Fail message r')"

definition rd_check :: "bool \<Rightarrow> string \<Rightarrow> unit rd" where
  "rd_check ok message r = (if ok then (Some (), r) else Fail message r)"

definition Reader_Integer :: "'a::len word rd" where
  "Reader_Integer r =
     (let n = LENGTH('a) div 8
      in if length (Input r) - Position r < n then Fail (Context r @ '' is truncated'') r
         else (Some (le_word (take n (drop (Position r) (Input r)))), r\<lparr>Position := Position r + n\<rparr>))"

definition Reader_Float :: "f32 rd" where
  "Reader_Float = Reader_Integer"

definition Reader_Double :: "f64 rd" where
  "Reader_Double = Reader_Integer"

definition Reader_String :: "nat \<Rightarrow> bytes rd" where
  "Reader_String limit = rd_bind (Reader_Integer :: u32 rd) (\<lambda>len r.
     (if unat len > limit then Fail (Context r @ '' string exceeds its limit'') r
      else if length (Input r) - Position r < unat len then Fail (Context r @ '' string is truncated'') r
      else
        (let v = take (unat len) (drop (Position r) (Input r)); r' = r\<lparr>Position := Position r + unat len\<rparr>
         in if \<not> IsValidProtocolUtf8 v then Fail (Context r @ '' string is not valid UTF-8'') r'
            else (Some v, r'))))"

definition Complete :: "reader \<Rightarrow> bool" where
  "Complete r \<longleftrightarrow> Position r = length (Input r)"

definition Remaining :: "reader \<Rightarrow> nat" where
  "Remaining r = length (Input r) - Position r"

section \<open>Identities and wire values\<close>

definition WriteBinaryObjectId :: "ObjectId \<Rightarrow> writer \<Rightarrow> writer" where
  "WriteBinaryObjectId i = Writer_Integer (Generation i) \<circ> Writer_Integer (Slot i)"

definition ReadBinaryObjectId :: "ObjectId rd" where
  "ReadBinaryObjectId =
     rd_bind Reader_Integer (\<lambda>slot. rd_bind Reader_Integer (\<lambda>generation.
       let i = ObjectId slot generation
       in rd_bind (rd_check (ObjectId_IsValid i) ''Binary ObjectId is invalid'') (\<lambda>_. rd_return i)))"

definition WriteBinarySchemaId :: "SchemaId \<Rightarrow> writer \<Rightarrow> writer" where
  "WriteBinarySchemaId i = Writer_Integer (Low i) \<circ> Writer_Integer (High i)"

definition ReadBinarySchemaId :: "SchemaId rd" where
  "ReadBinarySchemaId =
     rd_bind Reader_Integer (\<lambda>high. rd_bind Reader_Integer (\<lambda>low.
       let i = SchemaId high low
       in rd_bind (rd_check (SchemaId_IsValid i) ''Binary SchemaId is invalid'') (\<lambda>_. rd_return i)))"

definition WriteWireUDim :: "WireUDim \<Rightarrow> writer \<Rightarrow> writer" where
  "WriteWireUDim u = Writer_Integer (Offset u) \<circ> Writer_Float (Scale u)"

primrec WriteWirePayload :: "WireValue \<Rightarrow> writer \<Rightarrow> writer" where
  "WriteWirePayload WireMonostate = id"
| "WriteWirePayload (WireBool b) = Writer_Integer (if b then 1 else 0 :: u8)"
| "WriteWirePayload (WireInt n) = Writer_Integer n"
| "WriteWirePayload (WireDouble x) = Writer_Double x"
| "WriteWirePayload (WireFloat x) = Writer_Float x"
| "WriteWirePayload (WireString s) = Writer_String s"
| "WriteWirePayload (WireVector2 x y) = Writer_Float y \<circ> Writer_Float x"
| "WriteWirePayload (WireVector3 x y z) = Writer_Float z \<circ> Writer_Float y \<circ> Writer_Float x"
| "WriteWirePayload (WireColor3 r g b) = Writer_Float b \<circ> Writer_Float g \<circ> Writer_Float r"
| "WriteWirePayload (WireUDimValue u) = WriteWireUDim u"
| "WriteWirePayload (WireUDim2 x y) = WriteWireUDim y \<circ> WriteWireUDim x"
| "WriteWirePayload (WireCFrame cs) = fold Writer_Float cs"
| "WriteWirePayload (WireEnumItem t i) = Writer_String i \<circ> Writer_String t"
| "WriteWirePayload (WireSchemaEnumValue i v n) =
     Writer_Integer n \<circ> Writer_Integer v \<circ> WriteBinarySchemaId i"
| "WriteWirePayload (WireObjectReference obj) = WriteBinaryObjectId obj"

definition WriteBinaryWireValue :: "WireValue \<Rightarrow> writer \<Rightarrow> writer" where
  "WriteBinaryWireValue v = WriteWirePayload v \<circ> Writer_Integer (WireValue_index v)"

definition ReadWireUDim :: "WireUDim rd" where
  "ReadWireUDim = rd_bind Reader_Float (\<lambda>s. rd_bind Reader_Integer (\<lambda>n. rd_return (WireUDim s n)))"

fun ReadFloats :: "nat \<Rightarrow> f32 list rd" where
  "ReadFloats 0 = rd_return []"
| "ReadFloats (Suc n) = rd_bind Reader_Float (\<lambda>x. rd_bind (ReadFloats n) (\<lambda>xs. rd_return (x # xs)))"

definition ReadWirePayload :: "u8 \<Rightarrow> nat \<Rightarrow> WireValue rd" where
  "ReadWirePayload tag MaximumStringBytes =
     (if tag = 0 then rd_return WireMonostate
      else if tag = 1 then
        rd_bind (rd_or_fail (Reader_Integer :: u8 rd) (\<lambda>v. v \<le> 1) ''Binary Boolean is invalid'')
          (\<lambda>v. rd_return (WireBool (v \<noteq> 0)))
      else if tag = 2 then rd_bind Reader_Integer (\<lambda>v. rd_return (WireInt v))
      else if tag = 3 then rd_bind Reader_Double (\<lambda>v. rd_return (WireDouble v))
      else if tag = 4 then rd_bind Reader_Float (\<lambda>v. rd_return (WireFloat v))
      else if tag = 5 then rd_bind (Reader_String MaximumStringBytes) (\<lambda>v. rd_return (WireString v))
      else if tag = 6 then rd_bind Reader_Float (\<lambda>x. rd_bind Reader_Float (\<lambda>y. rd_return (WireVector2 x y)))
      else if tag = 7 then
        rd_bind Reader_Float (\<lambda>x. rd_bind Reader_Float (\<lambda>y. rd_bind Reader_Float (\<lambda>z.
          rd_return (WireVector3 x y z))))
      else if tag = 8 then
        rd_bind Reader_Float (\<lambda>r. rd_bind Reader_Float (\<lambda>g. rd_bind Reader_Float (\<lambda>b.
          rd_return (WireColor3 r g b))))
      else if tag = 9 then rd_bind ReadWireUDim (\<lambda>u. rd_return (WireUDimValue u))
      else if tag = 10 then rd_bind ReadWireUDim (\<lambda>x. rd_bind ReadWireUDim (\<lambda>y. rd_return (WireUDim2 x y)))
      else if tag = 11 then rd_bind (ReadFloats 12) (\<lambda>cs. rd_return (WireCFrame cs))
      else if tag = 12 then
        rd_bind (Reader_String MaximumProtocolIdentifierBytes) (\<lambda>t.
          rd_bind (Reader_String MaximumProtocolIdentifierBytes) (\<lambda>i. rd_return (WireEnumItem t i)))
      else if tag = 13 then
        rd_bind (rd_or_fail
            (rd_bind ReadBinarySchemaId (\<lambda>i. rd_bind Reader_Integer (\<lambda>v. rd_bind Reader_Integer (\<lambda>n.
               rd_return (i, v, n)))))
            (\<lambda>(i, v, n). v \<noteq> 0) ''Binary schema enum is invalid'')
          (\<lambda>(i, v, n). rd_return (WireSchemaEnumValue i v n))
      else if tag = 14 then rd_bind ReadBinaryObjectId (\<lambda>obj. rd_return (WireObjectReference obj))
      else Fail ''Binary WireValue tag is unsupported'')"

definition ReadBinaryWireValue :: "nat \<Rightarrow> WireValue rd" where
  "ReadBinaryWireValue MaximumStringBytes =
     rd_bind (rd_or_fail (Reader_Integer :: u8 rd) (\<lambda>tag. tag < 15) ''Binary WireValue tag is invalid'')
       (\<lambda>tag. rd_bind (ReadWirePayload tag MaximumStringBytes) (\<lambda>v r.
          (case ValidateProtocolWireValue v of
             Inl e \<Rightarrow> Fail e r
           | Inr _ \<Rightarrow> (Some v, r))))"

section \<open>What a writer emits\<close>

text \<open>
  \<open>emits f bs\<close>: the action \<open>f\<close> appends exactly \<open>bs\<close> when that fits within
  \<open>MaximumBytes\<close> and otherwise leaves the writer failed and within its limit; a writer
  that has failed is not touched again. Actions compose.
\<close>

definition wf_writer :: "writer \<Rightarrow> bool" where
  "wf_writer w \<longleftrightarrow> length (Bytes w) \<le> MaximumBytes w"

definition emits :: "(writer \<Rightarrow> writer) \<Rightarrow> bytes \<Rightarrow> bool" where
  "emits f bs \<longleftrightarrow> (\<forall>w. wf_writer w \<longrightarrow>
     (if Failed w then f w = w
      else if length (Bytes w) + length bs \<le> MaximumBytes w then f w = w\<lparr>Bytes := Bytes w @ bs\<rparr>
      else Failed (f w) \<and> wf_writer (f w) \<and> MaximumBytes (f w) = MaximumBytes w))"

lemma emits_id [codec_simps]: "emits id []"
  by (simp add: emits_def wf_writer_def)

lemma emits_comp [codec_simps]:
  assumes "emits f as" and "emits g bs"
  shows "emits (g \<circ> f) (as @ bs)"
  unfolding emits_def
proof (intro allI impI)
  fix w assume w: "wf_writer w"
  show "if Failed w then (g \<circ> f) w = w
    else if length (Bytes w) + length (as @ bs) \<le> MaximumBytes w then (g \<circ> f) w = w\<lparr>Bytes := Bytes w @ (as @ bs)\<rparr>
    else Failed ((g \<circ> f) w) \<and> wf_writer ((g \<circ> f) w) \<and> MaximumBytes ((g \<circ> f) w) = MaximumBytes w"
  proof (cases "Failed w \<or> length (Bytes w) + length as \<le> MaximumBytes w")
    case True
    define w' where "w' = w\<lparr>Bytes := Bytes w @ as\<rparr>"
    have "f w = (if Failed w then w else w')"
      using True w assms(1) by (auto simp: emits_def w'_def)
    moreover have "\<not> Failed w \<Longrightarrow> wf_writer w'" using True by (auto simp: wf_writer_def w'_def)
    moreover have "Failed w' = Failed w" "MaximumBytes w' = MaximumBytes w" by (simp_all add: w'_def)
    ultimately show ?thesis
      using w assms(2) [unfolded emits_def, rule_format, of w'] assms(2) [unfolded emits_def, rule_format, of w]
      by (auto simp: w'_def)
  next
    case False
    then have "Failed (f w) \<and> wf_writer (f w) \<and> MaximumBytes (f w) = MaximumBytes w"
      using w assms(1) by (simp add: emits_def)
    moreover from this have "g (f w) = f w" using assms(2) by (simp add: emits_def)
    ultimately show ?thesis using False by simp
  qed
qed

definition int_image :: "'a::len word \<Rightarrow> bytes" where
  "int_image v = le_bytes (LENGTH('a) div 8) v"

lemma length_int_image: "length (int_image (v :: 'a::len word)) = LENGTH('a) div 8"
  by (simp add: int_image_def)

definition string_image :: "bytes \<Rightarrow> bytes" where
  "string_image v = int_image (word_of_nat (length v) :: u32) @ v"

lemma emits_Integer [codec_simps]: "emits (Writer_Integer v) (int_image v)"
  by (auto simp: emits_def Writer_Integer_def CanAppend_def int_image_def wf_writer_def)

lemma emits_Float [codec_simps]: "emits (Writer_Float v) (int_image v)"
  by (simp add: Writer_Float_def emits_Integer)

lemma emits_Double [codec_simps]: "emits (Writer_Double v) (int_image v)"
  by (simp add: Writer_Double_def emits_Integer)

lemma emits_String [codec_simps]: "length v \<le> 0xffffffff \<Longrightarrow> emits (Writer_String v) (string_image v)"
  by (auto simp: emits_def Writer_String_def Writer_Integer_def CanAppend_def int_image_def string_image_def
      wf_writer_def Let_def)

lemma emits_Append [codec_simps]: "emits (Writer_Append v) v"
  by (auto simp: emits_def Writer_Append_def CanAppend_def wf_writer_def)

lemma emits_fold [codec_simps]:
  "(\<And>x. x \<in> set xs \<Longrightarrow> emits (f x) (img x)) \<Longrightarrow> emits (fold f xs) (concat (map img xs))"
proof (induction xs)
  case (Cons x xs)
  then have "emits (fold f xs \<circ> f x) (img x @ concat (map img xs))"
    by (intro emits_comp) auto
  then show ?case by (simp add: comp_def)
qed (simp add: emits_id [unfolded id_def] id_def)

lemma emits_succeeds:
  assumes "emits f bs" and "length bs \<le> n"
  shows "f (GameBinaryWriter n) = \<lparr>Bytes = bs, MaximumBytes = n, Failed = False\<rparr>"
  using assms by (auto simp: emits_def GameBinaryWriter_def wf_writer_def)

lemma emits_fails:
  assumes "emits f bs" and "n < length bs"
  shows "\<not> Writer_Succeeded (f (GameBinaryWriter n))"
  using assms by (auto simp: emits_def GameBinaryWriter_def wf_writer_def Writer_Succeeded_def)

section \<open>What a reader takes\<close>

definition takes :: "bytes \<Rightarrow> reader \<Rightarrow> reader \<Rightarrow> bool" where
  "takes bs r r' \<longleftrightarrow> Position r + length bs \<le> length (Input r) \<and>
     take (length bs) (drop (Position r) (Input r)) = bs \<and> r' = r\<lparr>Position := Position r + length bs\<rparr>"

lemma takes_position: "takes bs r r' \<Longrightarrow> Position r' \<le> length (Input r')"
  by (auto simp: takes_def)

lemma takes_append: "takes (as @ bs) r r'' \<longleftrightarrow> (\<exists>r'. takes as r r' \<and> takes bs r' r'')"
proof
  assume t: "takes (as @ bs) r r''"
  let ?r = "r\<lparr>Position := Position r + length as\<rparr>"
  have "take (length as + length bs) (drop (Position r) (Input r)) = as @ bs"
    using t by (simp add: takes_def)
  then have "take (length as) (drop (Position r) (Input r)) = as"
    "take (length bs) (drop (length as) (drop (Position r) (Input r))) = bs"
    using t by (auto simp: take_add takes_def append_eq_append_conv)
  then have "takes as r ?r \<and> takes bs ?r r''"
    using t by (simp add: takes_def add.commute)
  then show "\<exists>r'. takes as r r' \<and> takes bs r' r''" by blast
next
  assume "\<exists>r'. takes as r r' \<and> takes bs r' r''"
  then show "takes (as @ bs) r r''"
    by (auto simp: takes_def take_add add.commute add.left_commute)
qed

lemma takes_Nil [codec_simps]: "takes [] r r' \<longleftrightarrow> r' = r \<and> Position r \<le> length (Input r)"
  by (auto simp: takes_def)

lemma rd_return_ok [codec_simps]: "rd_return x r = (Some y, r') \<longleftrightarrow> y = x \<and> r' = r"
  by (auto simp: rd_return_def)

lemma rd_bind_ok [codec_simps]:
  "rd_bind m f r = (Some y, r'') \<longleftrightarrow> (\<exists>x r'. m r = (Some x, r') \<and> f x r' = (Some y, r''))"
  by (auto simp: rd_bind_def split: prod.splits option.splits)

lemma Fail_ok [codec_simps]: "Fail e r \<noteq> (Some y, r')"
  by (simp add: Fail_def)

lemma rd_or_fail_ok [codec_simps]:
  "rd_or_fail m P e r = (Some y, r') \<longleftrightarrow> m r = (Some y, r') \<and> P y"
  by (auto simp: rd_or_fail_def Fail_def split: prod.splits option.splits)

lemma rd_check_ok [codec_simps]: "rd_check ok e r = (Some u, r') \<longleftrightarrow> ok \<and> r' = r"
  by (auto simp: rd_check_def Fail_def)

lemma Reader_Integer_ok [codec_simps]:
  assumes "LENGTH('a) mod 8 = 0"
  shows "Reader_Integer r = (Some (v :: 'a::len word), r') \<longleftrightarrow> takes (int_image v) r r'"
proof -
  let ?n = "LENGTH('a) div 8" and ?bs = "take (LENGTH('a) div 8) (drop (Position r) (Input r))"
  have n: "LENGTH('a) = 8 * ?n" using assms by (simp add: mod_0_imp_dvd)
  moreover have "0 < LENGTH('a)" by simp
  ultimately have pos: "0 < ?n" by linarith
  show ?thesis
  proof (cases "Position r + ?n \<le> length (Input r)")
    case True
    then have "length ?bs = ?n" by simp
    then have "le_word ?bs = v \<longleftrightarrow> ?bs = int_image v"
      using le_bytes_le_word [of ?bs, where 'a = 'a] le_word_le_bytes [of ?n v] n
      unfolding int_image_def by (metis order_refl)
    then show ?thesis
      using True by (auto simp: Reader_Integer_def Let_def takes_def Fail_def int_image_def)
  next
    case False
    then show ?thesis
      using pos by (auto simp: Reader_Integer_def Let_def takes_def Fail_def int_image_def)
  qed
qed

lemma Reader_Float_ok [codec_simps]: "Reader_Float r = (Some v, r') \<longleftrightarrow> takes (int_image v) r r'"
  unfolding Reader_Float_def by (rule Reader_Integer_ok) simp

lemma Reader_Double_ok [codec_simps]: "Reader_Double r = (Some v, r') \<longleftrightarrow> takes (int_image v) r r'"
  unfolding Reader_Double_def by (rule Reader_Integer_ok) simp

definition string_ok :: "nat \<Rightarrow> bytes \<Rightarrow> bool" where
  "string_ok limit v \<longleftrightarrow> length v \<le> limit \<and> length v \<le> 0xffffffff \<and> IsValidProtocolUtf8 v"

lemma unat_length32: "length v \<le> 0xffffffff \<Longrightarrow> unat (word_of_nat (length v) :: u32) = length v"
  by (simp add: unat_of_nat)

lemma unat_u32_le: "unat (len :: u32) \<le> 0xffffffff"
  using unsigned_less [of len, where 'a = nat] by simp

lemma Reader_String_ok [codec_simps]:
  "Reader_String limit r = (Some v, r') \<longleftrightarrow> string_ok limit v \<and> takes (string_image v) r r'"
proof -
  have *: "(Reader_Integer :: u32 rd) r = (Some len, r') \<longleftrightarrow> takes (int_image len) r r'" for len r r'
    by (rule Reader_Integer_ok) simp
  have tail: "(if unat len > limit then Fail a r1
      else if length (Input r1) - Position r1 < unat len then Fail b r1
      else (let v = take (unat len) (drop (Position r1) (Input r1)); r' = r1\<lparr>Position := Position r1 + unat len\<rparr>
        in if \<not> IsValidProtocolUtf8 v then Fail c r' else (Some v, r'))) = (Some v, r') \<longleftrightarrow>
      unat len = length v \<and> string_ok limit v \<and> takes v r1 r'" if "Position r1 \<le> length (Input r1)"
    for len :: u32 and a b c r1
    using that unat_u32_le [of len] by (auto simp: Fail_def Let_def takes_def string_ok_def)
  have "Reader_String limit r = (Some v, r') \<longleftrightarrow>
      (\<exists>len r1. takes (int_image len) r r1 \<and> unat (len :: u32) = length v \<and> string_ok limit v \<and> takes v r1 r')"
    unfolding Reader_String_def rd_bind_ok *
    by (intro ex_cong1 conj_cong refl tail) (auto simp: takes_def)
  also have "\<dots> \<longleftrightarrow> string_ok limit v \<and> takes (string_image v) r r'"
    unfolding string_image_def takes_append string_ok_def
    by (metis unat_length32 unat_eq_iff)
  finally show ?thesis .
qed

section \<open>The codec contract\<close>

text \<open>
  What a protocol relies on of the codec of a value type: the writer emits an image, and
  the reader returns a value exactly when it is admissible and its image is what stands at
  the position, which it moves past. Round trip, canonicity and prefix behaviour follow.
\<close>

locale codec =
  fixes wr :: "'v \<Rightarrow> writer \<Rightarrow> writer"
    and rd :: "'v rd"
    and img :: "'v \<Rightarrow> bytes"
    and ok :: "'v \<Rightarrow> bool"
  assumes write_emits: "ok v \<Longrightarrow> emits (wr v) (img v)"
    and read_takes: "rd r = (Some v, r') \<longleftrightarrow> ok v \<and> takes (img v) r r'"
begin

lemma read_write:
  assumes "ok v" "length (img v) \<le> n"
  shows "rd (GameBinaryReader (Bytes (wr v (GameBinaryWriter n)) @ rest) ctx) =
    (Some v, (GameBinaryReader (img v @ rest) ctx)\<lparr>Position := length (img v)\<rparr>)"
  using emits_succeeds [OF write_emits assms(2)] assms
  by (simp add: read_takes takes_def GameBinaryReader_def)

lemma read_canonical:
  assumes "rd (GameBinaryReader bs ctx) = (Some v, r)"
  shows "ok v \<and> bs = img v @ drop (Position r) bs \<and> Position r = length (img v) \<and> Input r = bs \<and> Error r = []"
proof -
  have "ok v" "takes (img v) (GameBinaryReader bs ctx) r" using assms by (simp_all add: read_takes)
  then show ?thesis by (auto simp: takes_def GameBinaryReader_def) (metis append_take_drop_id)
qed

lemma read_back:
  assumes "ok v" and "Writer_Succeeded (wr v (GameBinaryWriter n))"
  shows "\<exists>r. rd (GameBinaryReader (Bytes (wr v (GameBinaryWriter n)) @ rest) ctx) = (Some v, r) \<and>
     Position r = length (Bytes (wr v (GameBinaryWriter n))) \<and> Error r = []"
proof -
  have n: "length (img v) \<le> n"
    using assms emits_fails [OF write_emits [OF assms(1)], of n] by (cases "length (img v) \<le> n") simp_all
  show ?thesis
    using read_write [OF assms(1) n, of rest ctx] emits_succeeds [OF write_emits [OF assms(1)] n]
    by (simp add: GameBinaryReader_def)
qed

lemma read_reencodes:
  assumes "rd (GameBinaryReader bs ctx) = (Some v, r)"
  shows "wr v (GameBinaryWriter (length bs)) = \<lparr>Bytes = take (Position r) bs, MaximumBytes = length bs, Failed = False\<rparr>"
proof -
  have v: "ok v" "bs = img v @ drop (Position r) bs" "Position r = length (img v)"
    using read_canonical [OF assms] by blast+
  then have "length (img v) \<le> length bs" by (metis length_append le_add1)
  then have "wr v (GameBinaryWriter (length bs)) = \<lparr>Bytes = img v, MaximumBytes = length bs, Failed = False\<rparr>"
    by (rule emits_succeeds [OF write_emits [OF v(1)]])
  then show ?thesis using v by (metis append_eq_conv_conj)
qed

lemma img_inject_prefix:
  assumes "ok v" "ok u" "img v @ xs = img u @ ys"
  shows "v = u \<and> xs = ys"
proof -
  let ?r = "\<lambda>bs. GameBinaryReader bs []"
  have "rd (?r (img v @ xs)) = (Some v, (?r (img v @ xs))\<lparr>Position := length (img v)\<rparr>)"
    "rd (?r (img u @ ys)) = (Some u, (?r (img u @ ys))\<lparr>Position := length (img u)\<rparr>)"
    using assms(1,2) by (simp_all add: read_takes takes_def GameBinaryReader_def)
  then show ?thesis using assms(3) by auto
qed

end

interpretation u8c: codec "Writer_Integer :: u8 \<Rightarrow> _" Reader_Integer int_image "\<lambda>_. True"
  by unfold_locales (simp_all add: codec_simps)

interpretation u16c: codec "Writer_Integer :: u16 \<Rightarrow> _" Reader_Integer int_image "\<lambda>_. True"
  by unfold_locales (simp_all add: codec_simps)

interpretation u32c: codec "Writer_Integer :: u32 \<Rightarrow> _" Reader_Integer int_image "\<lambda>_. True"
  by unfold_locales (simp_all add: codec_simps)

interpretation u64c: codec "Writer_Integer :: u64 \<Rightarrow> _" Reader_Integer int_image "\<lambda>_. True"
  by unfold_locales (simp_all add: codec_simps)

interpretation stringc: codec Writer_String "Reader_String limit" string_image "string_ok limit" for limit
  by unfold_locales (auto simp: codec_simps string_ok_def)

section \<open>Codecs of identities and wire values\<close>

definition object_id_image :: "ObjectId \<Rightarrow> bytes" where
  "object_id_image i = int_image (Slot i) @ int_image (Generation i)"

definition schema_id_image :: "SchemaId \<Rightarrow> bytes" where
  "schema_id_image i = int_image (High i) @ int_image (Low i)"

lemma emits_ObjectId [codec_simps]: "emits (WriteBinaryObjectId i) (object_id_image i)"
  unfolding WriteBinaryObjectId_def object_id_image_def by (intro codec_simps)

lemma emits_SchemaId [codec_simps]: "emits (WriteBinarySchemaId i) (schema_id_image i)"
  unfolding WriteBinarySchemaId_def schema_id_image_def by (intro codec_simps)

lemma ReadBinaryObjectId_ok [codec_simps]:
  "ReadBinaryObjectId r = (Some i, r') \<longleftrightarrow> ObjectId_IsValid i \<and> takes (object_id_image i) r r'"
  unfolding ReadBinaryObjectId_def object_id_image_def Let_def
  by (cases i) (auto simp: codec_simps takes_append)

lemma ReadBinarySchemaId_ok [codec_simps]:
  "ReadBinarySchemaId r = (Some i, r') \<longleftrightarrow> SchemaId_IsValid i \<and> takes (schema_id_image i) r r'"
  unfolding ReadBinarySchemaId_def schema_id_image_def Let_def
  by (cases i) (auto simp: codec_simps takes_append)

interpretation objectidc: codec WriteBinaryObjectId ReadBinaryObjectId object_id_image ObjectId_IsValid
  by unfold_locales (simp_all add: codec_simps)

interpretation schemaidc: codec WriteBinarySchemaId ReadBinarySchemaId schema_id_image SchemaId_IsValid
  by unfold_locales (simp_all add: codec_simps)

definition udim_image :: "WireUDim \<Rightarrow> bytes" where
  "udim_image u = int_image (Scale u) @ int_image (Offset u)"

primrec payload_image :: "WireValue \<Rightarrow> bytes" where
  "payload_image WireMonostate = []"
| "payload_image (WireBool b) = int_image (if b then 1 else 0 :: u8)"
| "payload_image (WireInt n) = int_image n"
| "payload_image (WireDouble x) = int_image x"
| "payload_image (WireFloat x) = int_image x"
| "payload_image (WireString s) = string_image s"
| "payload_image (WireVector2 x y) = int_image x @ int_image y"
| "payload_image (WireVector3 x y z) = int_image x @ int_image y @ int_image z"
| "payload_image (WireColor3 r g b) = int_image r @ int_image g @ int_image b"
| "payload_image (WireUDimValue u) = udim_image u"
| "payload_image (WireUDim2 x y) = udim_image x @ udim_image y"
| "payload_image (WireCFrame cs) = concat (map int_image cs)"
| "payload_image (WireEnumItem t i) = string_image t @ string_image i"
| "payload_image (WireSchemaEnumValue i v n) = schema_id_image i @ int_image v @ int_image n"
| "payload_image (WireObjectReference obj) = object_id_image obj"

definition wire_value_image :: "WireValue \<Rightarrow> bytes" where
  "wire_value_image v = int_image (WireValue_index v) @ payload_image v"

fun wire_string_fits :: "nat \<Rightarrow> WireValue \<Rightarrow> bool" where
  "wire_string_fits limit (WireString s) = (length s \<le> limit)"
| "wire_string_fits limit _ = True"

definition wire_value_ok :: "nat \<Rightarrow> WireValue \<Rightarrow> bool" where
  "wire_value_ok limit v \<longleftrightarrow> wf_WireValue v \<and> wire_string_fits limit v \<and> ValidateProtocolWireValue v = Inr ()"

lemma emits_UDim [codec_simps]: "emits (WriteWireUDim u) (udim_image u)"
  unfolding WriteWireUDim_def udim_image_def by (intro codec_simps)

lemma protocol_string_ok: "protocol_string n v \<Longrightarrow> n \<le> 0xffffffff \<Longrightarrow> string_ok n v"
  by (simp add: protocol_string_def string_ok_def IsValidProtocolUtf8_def utf8_loop_spec)

lemmas protocol_limits = MaximumProtocolStringBytes_def MaximumProtocolIdentifierBytes_def

lemma emits_payload:
  "ValidateProtocolWireValue v = Inr () \<Longrightarrow> emits (WriteWirePayload v) (payload_image v)"
  by (cases v) (auto simp: case_sum_eq_Inr ValidateProtocolString_ok protocol_string_def protocol_limits
      intro!: codec_simps)

lemma emits_WireValue:
  "ValidateProtocolWireValue v = Inr () \<Longrightarrow> emits (WriteBinaryWireValue v) (wire_value_image v)"
  unfolding WriteBinaryWireValue_def wire_value_image_def by (intro emits_comp emits_Integer emits_payload)

lemma ReadWireUDim_ok [codec_simps]: "ReadWireUDim r = (Some u, r') \<longleftrightarrow> takes (udim_image u) r r'"
  unfolding ReadWireUDim_def udim_image_def
  by (cases u) (auto simp: codec_simps takes_append)

lemma ReadFloats_ok [codec_simps]:
  "Position r \<le> length (Input r) \<Longrightarrow> ReadFloats n r = (Some xs, r') \<longleftrightarrow> length xs = n \<and> takes (concat (map int_image xs)) r r'"
proof (induction n arbitrary: r xs)
  case (Suc n)
  have "ReadFloats (Suc n) r = (Some xs, r') \<longleftrightarrow>
      (\<exists>x r1 ys. takes (int_image x) r r1 \<and> length ys = n \<and> takes (concat (map int_image ys)) r1 r' \<and> xs = x # ys)"
    using Suc.IH takes_position by (auto simp: codec_simps) blast+
  then show ?case by (cases xs) (auto simp: takes_append)
qed (auto simp: codec_simps)

lemma index_lt: "WireValue_index v < 15"
  by (cases v) simp_all

lemma ReadWirePayload_tag: "ReadWirePayload tag limit r = (Some v, r') \<Longrightarrow> tag = WireValue_index v"
  by (auto simp: ReadWirePayload_def codec_simps split: if_splits)

lemma require_ok: "require ok e = Inr () \<longleftrightarrow> ok"
  by (simp add: require_def)

lemma ReadWirePayload_index:
  assumes "Position r \<le> length (Input r)" and v: "ValidateProtocolWireValue v = Inr ()"
  shows "ReadWirePayload (WireValue_index v) limit r = (Some v, r') \<longleftrightarrow>
     wf_WireValue v \<and> wire_string_fits limit v \<and> takes (payload_image v) r r'"
proof (cases v)
  case (WireBool b)
  have "(x \<le> 1 \<and> b = (x \<noteq> 0)) \<longleftrightarrow> x = (if b then 1 else 0)" for x :: u8
  proof -
    have "x \<le> 1 \<longleftrightarrow> x = 0 \<or> x = 1" by (auto simp: word_le_nat_alt le_Suc_eq simp flip: unat_eq_iff)
    then show ?thesis by auto
  qed
  then show ?thesis using WireBool by (auto simp: ReadWirePayload_def codec_simps)
next
  case (WireString s)
  then have "string_ok MaximumProtocolStringBytes s" using v
    by (simp add: ValidateProtocolString_ok protocol_string_ok protocol_limits)
  then have "string_ok limit s \<longleftrightarrow> length s \<le> limit" by (auto simp: string_ok_def)
  then show ?thesis using WireString by (simp add: ReadWirePayload_def codec_simps)
next
  case (WireEnumItem t i)
  then have "string_ok MaximumProtocolIdentifierBytes t" "string_ok MaximumProtocolIdentifierBytes i" using v
    by (simp_all add: case_sum_eq_Inr ValidateProtocolString_ok protocol_string_ok protocol_limits)
  then show ?thesis using WireEnumItem by (auto simp: ReadWirePayload_def codec_simps takes_append)
qed (use assms in \<open>auto simp: ReadWirePayload_def codec_simps takes_append require_ok\<close>)

lemma ReadWirePayload_ok:
  assumes "Position r \<le> length (Input r)"
  shows "ReadWirePayload tag limit r = (Some v, r') \<and> ValidateProtocolWireValue v = Inr () \<longleftrightarrow>
     tag = WireValue_index v \<and> wire_value_ok limit v \<and> takes (payload_image v) r r'"
  using ReadWirePayload_tag [of tag limit r v r'] ReadWirePayload_index [OF assms, of v limit r']
  by (auto simp: wire_value_ok_def)

lemma ReadBinaryWireValue_ok [codec_simps]:
  "ReadBinaryWireValue limit r = (Some v, r') \<longleftrightarrow> wire_value_ok limit v \<and> takes (wire_value_image v) r r'"
proof -
  have valid: "(case ValidateProtocolWireValue x of Inl e \<Rightarrow> Fail e r1 | Inr _ \<Rightarrow> (Some x, r1)) = (Some v, r') \<longleftrightarrow>
      x = v \<and> r1 = r' \<and> ValidateProtocolWireValue v = Inr ()" for x r1
    by (auto simp: Fail_def split: sum.splits)
  have "ReadBinaryWireValue limit r = (Some v, r') \<longleftrightarrow>
      (\<exists>tag r1. takes (int_image tag) r r1 \<and> tag < 15 \<and>
         ReadWirePayload tag limit r1 = (Some v, r') \<and> ValidateProtocolWireValue v = Inr ())"
    unfolding ReadBinaryWireValue_def by (auto simp: codec_simps valid)
  also have "\<dots> \<longleftrightarrow> (\<exists>tag r1. takes (int_image tag) r r1 \<and> tag < 15 \<and>
         tag = WireValue_index v \<and> wire_value_ok limit v \<and> takes (payload_image v) r1 r')"
    by (intro ex_cong1 conj_cong refl ReadWirePayload_ok) (rule takes_position)
  also have "\<dots> \<longleftrightarrow> (\<exists>r1. takes (int_image (WireValue_index v)) r r1 \<and> wire_value_ok limit v \<and> takes (payload_image v) r1 r')"
    using index_lt [of v] by auto
  also have "\<dots> \<longleftrightarrow> wire_value_ok limit v \<and> takes (wire_value_image v) r r'"
    by (auto simp: wire_value_image_def takes_append)
  finally show ?thesis .
qed

interpretation wirec: codec WriteBinaryWireValue "ReadBinaryWireValue limit" wire_value_image "wire_value_ok limit" for limit
  by unfold_locales (auto simp: codec_simps wire_value_ok_def intro: emits_WireValue)

section \<open>Properties\<close>

text \<open>
  C5. Every wire value that passes validation and whose write succeeds is read back
  unchanged, from any buffer that starts with what was written, and the reader stops
  exactly at the end of it without an error.
\<close>

theorem wire_value_roundtrip:
  assumes "wire_value_ok limit v"
    and "w = WriteBinaryWireValue v (GameBinaryWriter n)" and "Writer_Succeeded w"
  shows "\<exists>r. ReadBinaryWireValue limit (GameBinaryReader (Bytes w @ rest) ctx) = (Some v, r) \<and>
     Position r = length (Bytes w) \<and> Error r = []"
  using wirec.read_back [OF assms(1)] assms(2,3) by blast

theorem wire_value_roundtrip_witness:
  "\<exists>r. ReadBinaryWireValue 8 (GameBinaryReader
       (Bytes (WriteBinaryWireValue (WireUDimValue (WireUDim 0x3f800000 7)) (GameBinaryWriter 64)) @ [1, 2]) ''Test'') =
       (Some (WireUDimValue (WireUDim 0x3f800000 7)), r) \<and>
     Position r = length (Bytes (WriteBinaryWireValue (WireUDimValue (WireUDim 0x3f800000 7)) (GameBinaryWriter 64))) \<and>
     Error r = []"
proof (rule wire_value_roundtrip [OF _ refl])
  show "wire_value_ok 8 (WireUDimValue (WireUDim 0x3f800000 7))" by code_simp
  show "Writer_Succeeded (WriteBinaryWireValue (WireUDimValue (WireUDim 0x3f800000 7)) (GameBinaryWriter 64))"
    by code_simp
qed

text \<open>
  C6. Whatever bytes arrive, a wire value the reader accepts passes validation and respects
  the string limit, and writing it again gives back exactly the bytes that were consumed:
  there is one encoding per value, and no invalid value is ever produced.
\<close>

theorem wire_value_decode_canonical:
  assumes "ReadBinaryWireValue limit (GameBinaryReader bs ctx) = (Some v, r)"
  shows "ValidateProtocolWireValue v = Inr () \<and> wire_string_fits limit v \<and> Position r \<le> length bs \<and>
     WriteBinaryWireValue v (GameBinaryWriter (length bs)) =
       \<lparr>Bytes = take (Position r) bs, MaximumBytes = length bs, Failed = False\<rparr>"
proof -
  have "takes (wire_value_image v) (GameBinaryReader bs ctx) r" "wire_value_ok limit v"
    using assms by (simp_all add: ReadBinaryWireValue_ok)
  then show ?thesis
    using wirec.read_reencodes [OF assms] takes_position [of "wire_value_image v"]
    by (auto simp: wire_value_ok_def takes_def GameBinaryReader_def)
qed

theorem wire_value_decode_canonical_witness:
  "\<exists>r. ReadBinaryWireValue 8 (GameBinaryReader [1, 1, 9] ''Test'') = (Some (WireBool True), r) \<and>
     WriteBinaryWireValue (WireBool True) (GameBinaryWriter 3) =
       \<lparr>Bytes = take (Position r) [1, 1, 9], MaximumBytes = 3, Failed = False\<rparr>"
proof -
  let ?r = "(GameBinaryReader [1, 1, 9] ''Test'')\<lparr>Position := 2\<rparr>"
  have "ReadBinaryWireValue 8 (GameBinaryReader [1, 1, 9] ''Test'') = (Some (WireBool True), ?r)"
    by code_simp
  from wire_value_decode_canonical [OF this] this show ?thesis by (intro exI [of _ ?r]) (simp add: eval_nat_numeral)
qed

text \<open>
  Every public operation of the writer, in any order.
\<close>

inductive writer_step :: "writer \<Rightarrow> writer \<Rightarrow> bool" where
  step_u8: "writer_step w (Writer_Integer (v :: u8) w)"
| step_u16: "writer_step w (Writer_Integer (v :: u16) w)"
| step_u32: "writer_step w (Writer_Integer (v :: u32) w)"
| step_u64: "writer_step w (Writer_Integer (v :: u64) w)"
| step_String: "writer_step w (Writer_String s w)"
| step_Append: "writer_step w (Writer_Append s w)"

definition writer_bounded :: "nat \<Rightarrow> writer \<Rightarrow> bool" where
  "writer_bounded n w \<longleftrightarrow> wf_writer w \<and> MaximumBytes w = n"

lemma emits_bounded: "emits f bs \<Longrightarrow> writer_bounded n w \<Longrightarrow> writer_bounded n (f w) \<and> (Failed w \<longrightarrow> f w = w)"
proof -
  assume e: "emits f bs" and w: "writer_bounded n w"
  then have "if Failed w then f w = w
      else if length (Bytes w) + length bs \<le> MaximumBytes w then f w = w\<lparr>Bytes := Bytes w @ bs\<rparr>
      else Failed (f w) \<and> wf_writer (f w) \<and> MaximumBytes (f w) = MaximumBytes w"
    unfolding emits_def writer_bounded_def by blast
  then show ?thesis using w by (simp add: writer_bounded_def wf_writer_def split: if_splits)
qed

lemma writer_step_bounded:
  assumes "writer_step w w'" "writer_bounded n w"
  shows "writer_bounded n w' \<and> (Failed w \<longrightarrow> w' = w)"
  using assms
proof cases
  case (step_String s)
  then show ?thesis
    using assms(2) emits_bounded [OF emits_String, of s n w] by (cases "length s \<le> 0xffffffff") (auto simp: Writer_String_def)
qed (use assms(2) emits_bounded codec_simps in blast)+

interpretation bounded_writer: invariant_system "\<lambda>w. w = GameBinaryWriter n" writer_step "writer_bounded n" for n
proof unfold_locales
  show "w = GameBinaryWriter n \<Longrightarrow> writer_bounded n w" for w
    by (simp add: GameBinaryWriter_def writer_bounded_def wf_writer_def)
  show "writer_bounded n w \<Longrightarrow> writer_step w w' \<Longrightarrow> writer_bounded n w'" for w w'
    using writer_step_bounded by blast
qed

text \<open>
  C7. Whatever sequence of writes a protocol performs, the buffer never grows past the
  limit the writer was made with, and once a write has failed the bytes are never changed
  again.
\<close>

theorem writer_never_exceeds_limit:
  assumes "reachable_from writer_step (GameBinaryWriter n) w"
  shows "length (Bytes w) \<le> n \<and> (\<forall>w'. Failed w \<and> reachable_from writer_step w w' \<longrightarrow> w' = w)"
proof -
  have w: "writer_bounded n w" by (rule bounded_writer.inv_reachable [OF refl assms])
  have "w' = w" if "Failed w" "reachable_from writer_step w w'" for w'
    using bounded_writer.stable_reachable_from [of w w' n "\<lambda>x. x = w"] that w writer_step_bounded
    by blast
  with w show ?thesis by (auto simp: writer_bounded_def wf_writer_def)
qed

theorem writer_never_exceeds_limit_witness:
  "length (Bytes (Writer_Integer (7 :: u32) (Writer_Integer (1 :: u8) (GameBinaryWriter 4)))) \<le> 4 \<and>
   Failed (Writer_Integer (7 :: u32) (Writer_Integer (1 :: u8) (GameBinaryWriter 4)))"
proof -
  have "reachable_from writer_step (GameBinaryWriter 4)
      (Writer_Integer (7 :: u32) (Writer_Integer (1 :: u8) (GameBinaryWriter 4)))"
    by (rule reach_step, rule reach_step, rule reach_refl, rule step_u8, rule step_u32)
  moreover have "Failed (Writer_Integer (7 :: u32) (Writer_Integer (1 :: u8) (GameBinaryWriter 4)))" by code_simp
  ultimately show ?thesis using writer_never_exceeds_limit by blast
qed

end
