(* ===== verification/NetworkCore.thy ===== *)
theory NetworkCore imports BinaryCodec begin

text \<open>
  The vocabulary of the network layer: connections, negotiated limits, delivery modes,
  sequence numbers, message intents and operation outcomes
  (include/gargantuan/network and src/network: Connection, Limits, Delivery, Sequence,
  MessageIntent, Outcome). A \<open>std::size_t\<close> limit is a natural number, the others keep
  their width.
\<close>

section \<open>Connections\<close>

datatype ConnectionId = ConnectionId (ConnectionSlot: u32) (ConnectionGeneration: u32)

definition ConnectionId_IsValid :: "ConnectionId \<Rightarrow> bool" where
  "ConnectionId_IsValid c \<longleftrightarrow> ConnectionSlot c \<noteq> 0 \<and> ConnectionGeneration c \<noteq> 0"

instantiation ConnectionId :: linorder
begin

definition less_eq_ConnectionId :: "ConnectionId \<Rightarrow> ConnectionId \<Rightarrow> bool" where
  "less_eq_ConnectionId a b \<longleftrightarrow> ConnectionSlot a < ConnectionSlot b \<or>
     (ConnectionSlot a = ConnectionSlot b \<and> ConnectionGeneration a \<le> ConnectionGeneration b)"

definition less_ConnectionId :: "ConnectionId \<Rightarrow> ConnectionId \<Rightarrow> bool" where
  "less_ConnectionId a b \<longleftrightarrow> ConnectionSlot a < ConnectionSlot b \<or>
     (ConnectionSlot a = ConnectionSlot b \<and> ConnectionGeneration a < ConnectionGeneration b)"

instance
  by intro_classes (auto simp: less_eq_ConnectionId_def less_ConnectionId_def ConnectionId.expand)

end

datatype ConnectionState = Connecting | Authenticating | Connected | Closing | Closed

definition IsLegalConnectionTransition :: "ConnectionState \<Rightarrow> ConnectionState \<Rightarrow> bool" where
  "IsLegalConnectionTransition from to =
     (if from = to \<or> from = Closed then False
      else (case from of
          Connecting \<Rightarrow> to = Authenticating \<or> to = Closing \<or> to = Closed
        | Authenticating \<Rightarrow> to = Connected \<or> to = Closing \<or> to = Closed
        | Connected \<Rightarrow> to = Closing \<or> to = Closed
        | Closing \<Rightarrow> to = Closed
        | Closed \<Rightarrow> False))"

definition IsTerminalConnectionState :: "ConnectionState \<Rightarrow> bool" where
  "IsTerminalConnectionState s \<longleftrightarrow> s = Closed"

fun legal_history :: "ConnectionState list \<Rightarrow> bool" where
  "legal_history [] = True"
| "legal_history [s] = True"
| "legal_history (s # t # rest) = (IsLegalConnectionTransition s t \<and> legal_history (t # rest))"

primrec state_rank :: "ConnectionState \<Rightarrow> nat" where
  "state_rank Connecting = 0"
| "state_rank Authenticating = 1"
| "state_rank Connected = 2"
| "state_rank Closing = 3"
| "state_rank Closed = 4"

lemma legal_rank: "IsLegalConnectionTransition s t \<Longrightarrow> state_rank s < state_rank t"
  by (cases s; cases t) (simp_all add: IsLegalConnectionTransition_def)

lemma rank_le: "state_rank s \<le> 4"
  by (cases s) simp_all

lemma rank_inject: "state_rank s = state_rank t \<longleftrightarrow> s = t"
  by (cases s; cases t) simp_all

lemma history_rank: "legal_history (s # rest) \<Longrightarrow> t \<in> set rest \<Longrightarrow> state_rank s < state_rank t"
proof (induction rest arbitrary: s)
  case (Cons u rest)
  then have "state_rank s < state_rank u" by (auto dest: legal_rank)
  with Cons show ?case by (auto dest: less_trans)
qed simp

lemma history_distinct: "legal_history ss \<Longrightarrow> distinct ss"
  by (induction ss rule: legal_history.induct) (auto dest: history_rank legal_rank less_trans)

lemma terminal_no_successor: "IsTerminalConnectionState s \<longleftrightarrow> \<not> (\<exists>t. IsLegalConnectionTransition s t)"
  by (cases s) (auto simp: IsTerminalConnectionState_def IsLegalConnectionTransition_def)

section \<open>Limits\<close>

definition NativeMaximumNetworkMessageBytes :: nat where
  "NativeMaximumNetworkMessageBytes = 8 * 1024 * 1024"

definition NativeMaximumUnreliableMessageBytes :: nat where
  "NativeMaximumUnreliableMessageBytes = 64 * 1024"

definition NativeMaximumQueuedReliableBytes :: nat where
  "NativeMaximumQueuedReliableBytes = 64 * 1024 * 1024"

definition NativeMaximumInFlightRemoteRequests :: u32 where
  "NativeMaximumInFlightRemoteRequests = 4096"

definition NativeMaximumNetworkBytesPerTick :: nat where
  "NativeMaximumNetworkBytesPerTick = 16 * 1024 * 1024"

definition NativeMaximumNetworkMessagesPerTick :: u32 where
  "NativeMaximumNetworkMessagesPerTick = 4096"

lemmas native_limits = NativeMaximumNetworkMessageBytes_def NativeMaximumUnreliableMessageBytes_def
  NativeMaximumQueuedReliableBytes_def NativeMaximumInFlightRemoteRequests_def
  NativeMaximumNetworkBytesPerTick_def NativeMaximumNetworkMessagesPerTick_def

record NetworkLimits =
  MaximumReliableMessageBytes :: nat
  MaximumUnreliableMessageBytes :: nat
  MaximumQueuedReliableBytes :: nat
  MaximumInFlightRemoteRequests :: u32
  MaximumDecodedMessageBytes :: nat
  MaximumSendBytesPerTick :: nat
  MaximumReceiveBytesPerTick :: nat
  MaximumMessagesPerTick :: u32

definition NetworkLimits_IsValid :: "NetworkLimits \<Rightarrow> bool" where
  "NetworkLimits_IsValid l \<longleftrightarrow>
     MaximumReliableMessageBytes l > 0 \<and>
     MaximumReliableMessageBytes l \<le> NativeMaximumNetworkMessageBytes \<and>
     MaximumUnreliableMessageBytes l > 0 \<and>
     MaximumUnreliableMessageBytes l \<le> NativeMaximumUnreliableMessageBytes \<and>
     MaximumQueuedReliableBytes l \<ge> MaximumReliableMessageBytes l \<and>
     MaximumQueuedReliableBytes l \<le> NativeMaximumQueuedReliableBytes \<and>
     MaximumInFlightRemoteRequests l > 0 \<and>
     MaximumInFlightRemoteRequests l \<le> NativeMaximumInFlightRemoteRequests \<and>
     MaximumDecodedMessageBytes l \<ge> MaximumReliableMessageBytes l \<and>
     MaximumDecodedMessageBytes l \<ge> MaximumUnreliableMessageBytes l \<and>
     MaximumDecodedMessageBytes l \<le> NativeMaximumNetworkMessageBytes \<and>
     MaximumSendBytesPerTick l \<ge> MaximumReliableMessageBytes l \<and>
     MaximumSendBytesPerTick l \<ge> MaximumUnreliableMessageBytes l \<and>
     MaximumSendBytesPerTick l \<le> NativeMaximumNetworkBytesPerTick \<and>
     MaximumReceiveBytesPerTick l \<ge> MaximumDecodedMessageBytes l \<and>
     MaximumReceiveBytesPerTick l \<le> NativeMaximumNetworkBytesPerTick \<and>
     MaximumMessagesPerTick l > 0 \<and> MaximumMessagesPerTick l \<le> NativeMaximumNetworkMessagesPerTick"

definition NativeCeilings :: NetworkLimits where
  "NativeCeilings =
     \<lparr>MaximumReliableMessageBytes = NativeMaximumNetworkMessageBytes,
      MaximumUnreliableMessageBytes = NativeMaximumUnreliableMessageBytes,
      MaximumQueuedReliableBytes = NativeMaximumQueuedReliableBytes,
      MaximumInFlightRemoteRequests = NativeMaximumInFlightRemoteRequests,
      MaximumDecodedMessageBytes = NativeMaximumNetworkMessageBytes,
      MaximumSendBytesPerTick = NativeMaximumNetworkBytesPerTick,
      MaximumReceiveBytesPerTick = NativeMaximumNetworkBytesPerTick,
      MaximumMessagesPerTick = NativeMaximumNetworkMessagesPerTick\<rparr>"

definition limits_min :: "NetworkLimits \<Rightarrow> NetworkLimits \<Rightarrow> NetworkLimits" where
  "limits_min a b =
     \<lparr>MaximumReliableMessageBytes = min (MaximumReliableMessageBytes a) (MaximumReliableMessageBytes b),
      MaximumUnreliableMessageBytes = min (MaximumUnreliableMessageBytes a) (MaximumUnreliableMessageBytes b),
      MaximumQueuedReliableBytes = min (MaximumQueuedReliableBytes a) (MaximumQueuedReliableBytes b),
      MaximumInFlightRemoteRequests = min (MaximumInFlightRemoteRequests a) (MaximumInFlightRemoteRequests b),
      MaximumDecodedMessageBytes = min (MaximumDecodedMessageBytes a) (MaximumDecodedMessageBytes b),
      MaximumSendBytesPerTick = min (MaximumSendBytesPerTick a) (MaximumSendBytesPerTick b),
      MaximumReceiveBytesPerTick = min (MaximumReceiveBytesPerTick a) (MaximumReceiveBytesPerTick b),
      MaximumMessagesPerTick = min (MaximumMessagesPerTick a) (MaximumMessagesPerTick b)\<rparr>"

definition NegotiateNetworkLimits :: "NetworkLimits \<Rightarrow> NetworkLimits \<Rightarrow> NetworkLimits option" where
  "NegotiateNetworkLimits first second =
     (if \<not> NetworkLimits_IsValid first \<or> \<not> NetworkLimits_IsValid second then None
      else let result = limits_min first second
           in if NetworkLimits_IsValid result then Some result else None)"

definition limits_le :: "NetworkLimits \<Rightarrow> NetworkLimits \<Rightarrow> bool" where
  "limits_le a b \<longleftrightarrow>
     MaximumReliableMessageBytes a \<le> MaximumReliableMessageBytes b \<and>
     MaximumUnreliableMessageBytes a \<le> MaximumUnreliableMessageBytes b \<and>
     MaximumQueuedReliableBytes a \<le> MaximumQueuedReliableBytes b \<and>
     MaximumInFlightRemoteRequests a \<le> MaximumInFlightRemoteRequests b \<and>
     MaximumDecodedMessageBytes a \<le> MaximumDecodedMessageBytes b \<and>
     MaximumSendBytesPerTick a \<le> MaximumSendBytesPerTick b \<and>
     MaximumReceiveBytesPerTick a \<le> MaximumReceiveBytesPerTick b \<and>
     MaximumMessagesPerTick a \<le> MaximumMessagesPerTick b"

lemma limits_min_valid:
  "NetworkLimits_IsValid a \<Longrightarrow> NetworkLimits_IsValid b \<Longrightarrow> NetworkLimits_IsValid (limits_min a b)"
  by (simp add: NetworkLimits_IsValid_def limits_min_def min_le_iff_disj)

lemma limits_min_greatest: "limits_le l (limits_min a b) \<longleftrightarrow> limits_le l a \<and> limits_le l b"
  by (auto simp: limits_le_def limits_min_def)

lemma limits_le_refl: "limits_le a a"
  by (simp add: limits_le_def)

section \<open>Delivery, sequences and message intents\<close>

datatype DeliveryMode = ReliableOrdered | UnreliableUnordered | UnreliableSequenced

datatype TrafficClass =
  Control | StructuralReplication | ReliableApplication | RealtimeState | EphemeralApplication | Background

definition IsValidDeliveryMode :: "DeliveryMode \<Rightarrow> bool" where
  "IsValidDeliveryMode m \<longleftrightarrow> m \<in> {ReliableOrdered, UnreliableUnordered, UnreliableSequenced}"

definition IsValidTrafficClass :: "TrafficClass \<Rightarrow> bool" where
  "IsValidTrafficClass t \<longleftrightarrow>
     t \<in> {Control, StructuralReplication, ReliableApplication, RealtimeState, EphemeralApplication, Background}"

definition RequiresSequenceMetadata :: "DeliveryMode \<Rightarrow> bool" where
  "RequiresSequenceMetadata m \<longleftrightarrow> m = UnreliableSequenced"

definition MayDropUnderCongestion :: "DeliveryMode \<Rightarrow> bool" where
  "MayDropUnderCongestion m \<longleftrightarrow> m \<noteq> ReliableOrdered"

text \<open>\<open>MonotonicSequence\<close>: every sequence domain is a 64-bit counter whose zero is invalid.\<close>

type_synonym Sequence = u64

definition Sequence_IsValid :: "Sequence \<Rightarrow> bool" where
  "Sequence_IsValid s \<longleftrightarrow> s \<noteq> 0"

definition IsNewerThan :: "Sequence \<Rightarrow> Sequence \<Rightarrow> bool" where
  "IsNewerThan s other \<longleftrightarrow> Sequence_IsValid s \<and> Sequence_IsValid other \<and> s > other"

definition TryNext :: "Sequence \<Rightarrow> Sequence option" where
  "TryNext s = (if \<not> Sequence_IsValid s \<or> s = 0xffffffffffffffff then None else Some (s + 1))"

datatype MessageOrder =
    NoOrder
  | RealtimeStateOrder (RealtimeChannel: Sequence) (RealtimeSequence: Sequence)
  | RemoteEventOrder (RemoteChannel: Sequence) (RemotePublication: Sequence) (RemoteSequence: Sequence)
  | ReliableReplicationOrder (ReplicationSequence: Sequence)

primrec IsValidMessageOrder :: "MessageOrder \<Rightarrow> bool" where
  "IsValidMessageOrder NoOrder = True"
| "IsValidMessageOrder (RealtimeStateOrder c s) = (Sequence_IsValid c \<and> Sequence_IsValid s)"
| "IsValidMessageOrder (RemoteEventOrder c p s) =
     (Sequence_IsValid c \<and> Sequence_IsValid p \<and> Sequence_IsValid s)"
| "IsValidMessageOrder (ReliableReplicationOrder s) = Sequence_IsValid s"

fun is_replication_order :: "MessageOrder \<Rightarrow> bool" where
  "is_replication_order (ReliableReplicationOrder _) = True"
| "is_replication_order _ = False"

record NetworkMessageIntent =
  Destination :: ConnectionId
  Delivery :: DeliveryMode
  Traffic :: TrafficClass
  Order :: MessageOrder
  Payload :: bytes
  ReliableRetirementToken :: u64
  ReliableGrantActivatedAtMicroseconds :: u64

definition ValidateIntent ::
  "ConnectionId \<Rightarrow> DeliveryMode \<Rightarrow> TrafficClass \<Rightarrow> MessageOrder \<Rightarrow> bytes \<Rightarrow> NetworkLimits \<Rightarrow> bool" where
  "ValidateIntent destination delivery traffic order payload l =
     (if \<not> ConnectionId_IsValid destination \<or> \<not> NetworkLimits_IsValid l \<or> \<not> IsValidDeliveryMode delivery \<or>
         \<not> IsValidTrafficClass traffic \<or> payload = [] \<or> \<not> IsValidMessageOrder order then False
      else if delivery = UnreliableSequenced \<and> (order = NoOrder \<or> is_replication_order order) then False
      else if delivery = UnreliableUnordered \<and> order \<noteq> NoOrder then False
      else
        length payload \<le> (if delivery = ReliableOrdered then MaximumReliableMessageBytes l
                          else MaximumUnreliableMessageBytes l) \<and>
        length payload \<le> MaximumDecodedMessageBytes l \<and> length payload \<le> MaximumSendBytesPerTick l)"

definition MakeNetworkMessageIntent ::
  "ConnectionId \<Rightarrow> DeliveryMode \<Rightarrow> TrafficClass \<Rightarrow> MessageOrder \<Rightarrow> bytes \<Rightarrow> NetworkLimits \<Rightarrow>
   NetworkMessageIntent option" where
  "MakeNetworkMessageIntent destination delivery traffic order payload l =
     (if \<not> ValidateIntent destination delivery traffic order payload l then None
      else Some \<lparr>Destination = destination, Delivery = delivery, Traffic = traffic, Order = order,
                 Payload = payload, ReliableRetirementToken = 0, ReliableGrantActivatedAtMicroseconds = 0\<rparr>)"

definition IsNetworkMessageIntentValid :: "NetworkMessageIntent \<Rightarrow> NetworkLimits \<Rightarrow> bool" where
  "IsNetworkMessageIntentValid i l =
     ValidateIntent (Destination i) (Delivery i) (Traffic i) (Order i) (Payload i) l"

lemma TryNext_newer: "TryNext s = Some t \<Longrightarrow> IsNewerThan t s"
proof -
  assume "TryNext s = Some t"
  then have "s \<noteq> 0" "s \<noteq> - 1" "t = s + 1" by (auto simp: TryNext_def Sequence_IsValid_def split: if_splits)
  moreover from this have "1 + s \<noteq> 0" by (metis add.commute add_eq_0_iff minus_minus)
  then have "s < s + 1" by (simp add: word_less_nat_alt unatSuc add.commute)
  ultimately show ?thesis by (auto simp: IsNewerThan_def Sequence_IsValid_def)
qed

section \<open>Outcomes\<close>

datatype DisconnectReason =
    LocalShutdown | RemoteShutdown | Timeout | AuthenticationFailure | ProtocolViolation
  | ResourceExhaustion | DisconnectTransportFailure | IncompatibleVersion

datatype DisconnectInfo = DisconnectInfo (Reason: DisconnectReason) (Diagnostic: bytes)

definition DisconnectInfo_IsValid :: "DisconnectInfo \<Rightarrow> bool" where
  "DisconnectInfo_IsValid d \<longleftrightarrow>
     (case ValidateProtocolString (Diagnostic d) 4096 ''Disconnect diagnostic'' of Inl _ \<Rightarrow> False | Inr _ \<Rightarrow> True)"

datatype TransportOperationStatus =
    Succeeded | WouldBlock | InvalidState | InvalidConnection | MessageRejected | ResourceExhausted
  | TransportFailure

datatype TransportOperationResult =
  TransportOperationResult (Status: TransportOperationStatus) (TerminalDisconnect: "DisconnectInfo option")

definition TransportOperationResult_IsValid :: "TransportOperationResult \<Rightarrow> bool" where
  "TransportOperationResult_IsValid r \<longleftrightarrow>
     (case TerminalDisconnect r of
        Some d \<Rightarrow> DisconnectInfo_IsValid d \<and> Status r \<notin> {Succeeded, WouldBlock}
      | None \<Rightarrow> True)"

section \<open>Properties\<close>



text \<open>
  C9. Negotiation of two valid sets of limits always succeeds, and the result is valid and
  is the largest set of limits within both; it refuses exactly when a side is invalid.
\<close>

theorem negotiation_is_meet:
  "case NegotiateNetworkLimits a b of
     None \<Rightarrow> \<not> (NetworkLimits_IsValid a \<and> NetworkLimits_IsValid b)
   | Some r \<Rightarrow> NetworkLimits_IsValid a \<and> NetworkLimits_IsValid b \<and> NetworkLimits_IsValid r \<and>
       (\<forall>l. limits_le l r \<longleftrightarrow> limits_le l a \<and> limits_le l b)"
  by (simp add: NegotiateNetworkLimits_def Let_def limits_min_valid limits_min_greatest)

end
