(* ===== verification/Serialization.thy ===== *)
theory Serialization imports NetworkCore begin

text \<open>
  The error values of include/gargantuan/serialization/SerializationError.hpp. A
  \<open>SerializationResult\<close> is a sum with the error on the left; \<open>SerializationFailure\<close> with
  its default arguments leaves path and diagnostic empty.
\<close>

datatype SerializationErrorCode =
    InvalidSyntax | UnsupportedVersion | InvalidType | MissingField | UnknownField | LimitExceeded
  | InvalidValue | TruncatedInput | InternalFailure

datatype SerializationError =
  SerializationError (Code: SerializationErrorCode) (Path: string) (Message: string)
  (ImplementationDiagnostic: string)

definition SerializationFailure :: "SerializationErrorCode \<Rightarrow> string \<Rightarrow> SerializationError + 'a" where
  "SerializationFailure c m = Inl (SerializationError c [] m [])"

text \<open>When a decoder that reads, checks and returns has returned a value.\<close>

lemma case_rd_Inr:
  "(case X of (None, r') \<Rightarrow> SerializationFailure (c r') (e r') | (Some x, r') \<Rightarrow> k x r') = Inr y \<longleftrightarrow>
     (\<exists>x r'. X = (Some x, r') \<and> k x r' = Inr y)"
  by (auto simp: SerializationFailure_def split: prod.splits option.splits)

lemma SerializationFailure_neq [simp]: "SerializationFailure c e \<noteq> Inr y"
  by (simp add: SerializationFailure_def)

lemma if_Failure: "(if P then SerializationFailure c e else z) = Inr y \<longleftrightarrow> \<not> P \<and> z = Inr y"
  by simp

lemma takes_complete:
  "takes bs (GameBinaryReader input ctx) r \<and> Complete r \<longleftrightarrow>
     input = bs \<and> r = (GameBinaryReader input ctx)\<lparr>Position := length bs\<rparr>"
  by (auto simp: takes_def Complete_def GameBinaryReader_def)

end
