(* ===== verification/GameSessionProtocol.thy ===== *)
theory GameSessionProtocol imports Serialization begin

text \<open>
  The session handshake frames of src/network/GameSessionProtocol.cpp: client hello,
  server acceptance and client readiness. An enumeration that is cast from a received
  byte is kept as that byte.
\<close>

section \<open>Messages\<close>

definition GameSessionProtocolVersion :: u16 where
  "GameSessionProtocolVersion = 1"

definition MaximumGameSessionFrameBytes :: nat where
  "MaximumGameSessionFrameBytes = 256"

definition GameSessionMagic :: u32 where
  "GameSessionMagic = 0x53455347"

definition DevelopmentLocal :: u8 where
  "DevelopmentLocal = 1"

datatype GameSessionMessage =
    ClientHello (Nonce: u64) (SessionLimits: NetworkLimits)
  | ServerAccepted (Nonce: u64) (SessionEpoch: u64) (Replication: Sequence) (Player: ObjectId)
      (PlayerId: u32) (Identity: u8) (SessionLimits: NetworkLimits)
  | ClientReady (SessionEpoch: u64) (Replication: Sequence) (Player: ObjectId)

primrec GameSessionMessageKind :: "GameSessionMessage \<Rightarrow> u8" where
  "GameSessionMessageKind (ClientHello _ _) = 1"
| "GameSessionMessageKind (ServerAccepted _ _ _ _ _ _ _) = 2"
| "GameSessionMessageKind (ClientReady _ _ _) = 3"

section \<open>Encoding\<close>

definition WriteLimits :: "NetworkLimits \<Rightarrow> writer \<Rightarrow> bool \<times> writer" where
  "WriteLimits l w =
     (if \<not> NetworkLimits_IsValid l \<or> MaximumReliableMessageBytes l > 0xffffffff \<or>
         MaximumUnreliableMessageBytes l > 0xffffffff \<or> MaximumQueuedReliableBytes l > 0xffffffff \<or>
         MaximumDecodedMessageBytes l > 0xffffffff \<or> MaximumSendBytesPerTick l > 0xffffffff \<or>
         MaximumReceiveBytesPerTick l > 0xffffffff
      then (False, w)
      else (True,
        (Writer_Integer (MaximumMessagesPerTick l) \<circ>
         Writer_Integer (word_of_nat (MaximumReceiveBytesPerTick l) :: u32) \<circ>
         Writer_Integer (word_of_nat (MaximumSendBytesPerTick l) :: u32) \<circ>
         Writer_Integer (word_of_nat (MaximumDecodedMessageBytes l) :: u32) \<circ>
         Writer_Integer (MaximumInFlightRemoteRequests l) \<circ>
         Writer_Integer (word_of_nat (MaximumQueuedReliableBytes l) :: u32) \<circ>
         Writer_Integer (word_of_nat (MaximumUnreliableMessageBytes l) :: u32) \<circ>
         Writer_Integer (word_of_nat (MaximumReliableMessageBytes l) :: u32)) w))"

primrec WriteSessionBody :: "GameSessionMessage \<Rightarrow> writer \<Rightarrow> bool \<times> writer" where
  "WriteSessionBody (ClientHello nonce l) w =
     (let w1 = Writer_Integer nonce w
      in if nonce \<noteq> 0 then WriteLimits l w1 else (False, w1))"
| "WriteSessionBody (ServerAccepted nonce epoch repl player playerId identity l) w =
     (let w1 = (Writer_Integer (0 :: u16) \<circ> Writer_Integer (0 :: u8) \<circ> Writer_Integer identity \<circ>
                Writer_Integer playerId \<circ> WriteBinaryObjectId player \<circ> Writer_Integer repl \<circ>
                Writer_Integer epoch \<circ> Writer_Integer nonce) w
      in if nonce \<noteq> 0 \<and> epoch \<noteq> 0 \<and> Sequence_IsValid repl \<and> ObjectId_IsValid player \<and> playerId \<noteq> 0 \<and>
            identity = DevelopmentLocal
         then WriteLimits l w1 else (False, w1))"
| "WriteSessionBody (ClientReady epoch repl player) w =
     (epoch \<noteq> 0 \<and> Sequence_IsValid repl \<and> ObjectId_IsValid player,
      (WriteBinaryObjectId player \<circ> Writer_Integer repl \<circ> Writer_Integer epoch) w)"

definition EncodeGameSessionMessage :: "GameSessionMessage \<Rightarrow> SerializationError + bytes" where
  "EncodeGameSessionMessage m =
     (let w = (Writer_Integer (0 :: u8) \<circ> Writer_Integer (GameSessionMessageKind m) \<circ>
               Writer_Integer GameSessionProtocolVersion \<circ> Writer_Integer GameSessionMagic)
              (GameBinaryWriter MaximumGameSessionFrameBytes)
      in case WriteSessionBody m w of (valid, w') \<Rightarrow>
           if \<not> valid \<or> \<not> Writer_Succeeded w'
           then SerializationFailure InvalidValue ''Game session message is invalid''
           else Inr (Bytes w'))"

section \<open>Decoding\<close>

definition ReadLimits :: "NetworkLimits rd" where
  "ReadLimits =
     rd_bind (Reader_Integer :: u32 rd) (\<lambda>reliable. rd_bind (Reader_Integer :: u32 rd) (\<lambda>unreliable.
     rd_bind (Reader_Integer :: u32 rd) (\<lambda>queued. rd_bind (Reader_Integer :: u32 rd) (\<lambda>inFlight.
     rd_bind (Reader_Integer :: u32 rd) (\<lambda>decoded. rd_bind (Reader_Integer :: u32 rd) (\<lambda>send.
     rd_bind (Reader_Integer :: u32 rd) (\<lambda>receive. rd_bind (Reader_Integer :: u32 rd) (\<lambda>messages.
       let l = \<lparr>MaximumReliableMessageBytes = unat reliable, MaximumUnreliableMessageBytes = unat unreliable,
                MaximumQueuedReliableBytes = unat queued, MaximumInFlightRemoteRequests = inFlight,
                MaximumDecodedMessageBytes = unat decoded, MaximumSendBytesPerTick = unat send,
                MaximumReceiveBytesPerTick = unat receive, MaximumMessagesPerTick = messages\<rparr>
       in rd_bind (rd_check (NetworkLimits_IsValid l) ''Game session network limits are invalid'')
            (\<lambda>_. rd_return l)))))))))"

definition ErrorCode :: "reader \<Rightarrow> SerializationErrorCode" where
  "ErrorCode r = (if contains ''truncated'' (Error r) then TruncatedInput else InvalidValue)"

definition IsGameSessionFrame :: "bytes \<Rightarrow> bool" where
  "IsGameSessionFrame bs =
     (if length bs < 4 then False
      else (case Reader_Integer (GameBinaryReader bs ''Game session frame'') of
          (Some magic, _) \<Rightarrow> magic = GameSessionMagic
        | (None, _) \<Rightarrow> False))"

definition ReadSessionHeader :: "(u32 \<times> u16 \<times> u8 \<times> u8) rd" where
  "ReadSessionHeader =
     rd_bind Reader_Integer (\<lambda>magic. rd_bind Reader_Integer (\<lambda>version. rd_bind Reader_Integer (\<lambda>kind.
     rd_bind Reader_Integer (\<lambda>reserved. rd_return (magic, version, kind, reserved)))))"

definition ReadHello :: "(u64 \<times> NetworkLimits) rd" where
  "ReadHello = rd_bind Reader_Integer (\<lambda>nonce. rd_bind ReadLimits (\<lambda>l. rd_return (nonce, l)))"

definition ReadAcceptance :: "(u64 \<times> u64 \<times> u64 \<times> ObjectId \<times> u32 \<times> u8 \<times> u8 \<times> u16 \<times> NetworkLimits) rd" where
  "ReadAcceptance =
     rd_bind Reader_Integer (\<lambda>nonce. rd_bind Reader_Integer (\<lambda>epoch. rd_bind Reader_Integer (\<lambda>repl.
     rd_bind ReadBinaryObjectId (\<lambda>player. rd_bind Reader_Integer (\<lambda>playerId. rd_bind Reader_Integer (\<lambda>identity.
     rd_bind Reader_Integer (\<lambda>reserved8. rd_bind Reader_Integer (\<lambda>reserved16. rd_bind ReadLimits (\<lambda>l.
       rd_return (nonce, epoch, repl, player, playerId, identity, reserved8, reserved16, l))))))))))"

definition ReadReadiness :: "(u64 \<times> u64 \<times> ObjectId) rd" where
  "ReadReadiness =
     rd_bind Reader_Integer (\<lambda>epoch. rd_bind Reader_Integer (\<lambda>repl. rd_bind ReadBinaryObjectId (\<lambda>player.
       rd_return (epoch, repl, player))))"

definition DecodeSessionBody :: "u8 \<Rightarrow> reader \<Rightarrow> SerializationError + GameSessionMessage \<times> reader" where
  "DecodeSessionBody kind r =
     (if kind = 1 then
        (case ReadHello r of
           (None, r') \<Rightarrow> SerializationFailure (ErrorCode r')
             (if Error r' = [] then ''Game session client hello is invalid'' else Error r')
         | (Some (nonce, l), r') \<Rightarrow>
             if nonce = 0 then SerializationFailure (ErrorCode r')
               (if Error r' = [] then ''Game session client hello is invalid'' else Error r')
             else Inr (ClientHello nonce l, r'))
      else if kind = 2 then
        (case ReadAcceptance r of
           (None, r') \<Rightarrow> SerializationFailure (ErrorCode r') (Error r')
         | (Some (nonce, epoch, repl, player, playerId, identity, reserved8, reserved16, l), r') \<Rightarrow>
             if nonce = 0 \<or> epoch = 0 \<or> \<not> Sequence_IsValid repl \<or> \<not> ObjectId_IsValid player \<or> playerId = 0 \<or>
                identity \<noteq> DevelopmentLocal \<or> reserved8 \<noteq> 0 \<or> reserved16 \<noteq> 0
             then SerializationFailure InvalidValue ''Game session acceptance is invalid''
             else Inr (ServerAccepted nonce epoch repl player playerId identity l, r'))
      else if kind = 3 then
        (case ReadReadiness r of
           (None, r') \<Rightarrow> SerializationFailure (ErrorCode r') (Error r')
         | (Some (epoch, repl, player), r') \<Rightarrow>
             if epoch = 0 \<or> \<not> Sequence_IsValid repl \<or> \<not> ObjectId_IsValid player
             then SerializationFailure InvalidValue ''Game session readiness is invalid''
             else Inr (ClientReady epoch repl player, r'))
      else SerializationFailure InvalidType ''Game session message kind is unknown'')"

definition DecodeGameSessionMessage :: "bytes \<Rightarrow> SerializationError + GameSessionMessage" where
  "DecodeGameSessionMessage bs =
     (if length bs > MaximumGameSessionFrameBytes
      then SerializationFailure LimitExceeded ''Game session frame exceeds its bound''
      else (case ReadSessionHeader (GameBinaryReader bs ''Game session frame'') of
          (None, r) \<Rightarrow> SerializationFailure (ErrorCode r) (Error r)
        | (Some (magic, version, kind, reserved), r) \<Rightarrow>
            if magic \<noteq> GameSessionMagic
            then SerializationFailure InvalidSyntax ''Game session magic is invalid''
            else if version \<noteq> GameSessionProtocolVersion
            then SerializationFailure UnsupportedVersion ''Game session version is unsupported''
            else if reserved \<noteq> 0
            then SerializationFailure InvalidValue ''Game session reserved header byte is non-zero''
            else (case DecodeSessionBody kind r of
                Inl e \<Rightarrow> Inl e
              | Inr (m, r') \<Rightarrow>
                  if \<not> Complete r'
                  then SerializationFailure InvalidValue ''Game session frame contains trailing bytes''
                  else Inr m)))"

section \<open>Encoding and decoding describe the same frames\<close>

definition limits_image :: "NetworkLimits \<Rightarrow> bytes" where
  "limits_image l =
     int_image (word_of_nat (MaximumReliableMessageBytes l) :: u32) @
     int_image (word_of_nat (MaximumUnreliableMessageBytes l) :: u32) @
     int_image (word_of_nat (MaximumQueuedReliableBytes l) :: u32) @
     int_image (MaximumInFlightRemoteRequests l) @
     int_image (word_of_nat (MaximumDecodedMessageBytes l) :: u32) @
     int_image (word_of_nat (MaximumSendBytesPerTick l) :: u32) @
     int_image (word_of_nat (MaximumReceiveBytesPerTick l) :: u32) @
     int_image (MaximumMessagesPerTick l)"

primrec session_ok :: "GameSessionMessage \<Rightarrow> bool" where
  "session_ok (ClientHello nonce l) = (nonce \<noteq> 0 \<and> NetworkLimits_IsValid l)"
| "session_ok (ServerAccepted nonce epoch repl player playerId identity l) =
     (nonce \<noteq> 0 \<and> epoch \<noteq> 0 \<and> Sequence_IsValid repl \<and> ObjectId_IsValid player \<and> playerId \<noteq> 0 \<and>
      identity = DevelopmentLocal \<and> NetworkLimits_IsValid l)"
| "session_ok (ClientReady epoch repl player) =
     (epoch \<noteq> 0 \<and> Sequence_IsValid repl \<and> ObjectId_IsValid player)"

primrec session_body_image :: "GameSessionMessage \<Rightarrow> bytes" where
  "session_body_image (ClientHello nonce l) = int_image nonce @ limits_image l"
| "session_body_image (ServerAccepted nonce epoch repl player playerId identity l) =
     (int_image nonce @ int_image epoch @ int_image repl @ object_id_image player @ int_image playerId @
      int_image identity @ int_image (0 :: u8) @ int_image (0 :: u16)) @ limits_image l"
| "session_body_image (ClientReady epoch repl player) =
     int_image epoch @ int_image repl @ object_id_image player"

definition session_image :: "GameSessionMessage \<Rightarrow> bytes" where
  "session_image m =
     (int_image GameSessionMagic @ int_image GameSessionProtocolVersion @
      int_image (GameSessionMessageKind m) @ int_image (0 :: u8)) @ session_body_image m"

lemma valid_limits_u32:
  assumes "NetworkLimits_IsValid l"
  shows "MaximumReliableMessageBytes l \<le> 0xffffffff" "MaximumUnreliableMessageBytes l \<le> 0xffffffff"
    "MaximumQueuedReliableBytes l \<le> 0xffffffff" "MaximumDecodedMessageBytes l \<le> 0xffffffff"
    "MaximumSendBytesPerTick l \<le> 0xffffffff" "MaximumReceiveBytesPerTick l \<le> 0xffffffff"
  using assms by (simp_all add: NetworkLimits_IsValid_def native_limits)

lemma WriteLimits_emits:
  "NetworkLimits_IsValid l \<Longrightarrow> fst (WriteLimits l w) \<and> emits (\<lambda>w. snd (WriteLimits l w)) (limits_image l)"
  "\<not> NetworkLimits_IsValid l \<Longrightarrow> \<not> fst (WriteLimits l w)"
proof -
  assume l: "NetworkLimits_IsValid l"
  note b = valid_limits_u32 [OF l, THEN leD]
  have "(\<lambda>w. snd (WriteLimits l w)) =
     (Writer_Integer (MaximumMessagesPerTick l) \<circ>
         Writer_Integer (word_of_nat (MaximumReceiveBytesPerTick l) :: u32) \<circ>
         Writer_Integer (word_of_nat (MaximumSendBytesPerTick l) :: u32) \<circ>
         Writer_Integer (word_of_nat (MaximumDecodedMessageBytes l) :: u32) \<circ>
         Writer_Integer (MaximumInFlightRemoteRequests l) \<circ>
         Writer_Integer (word_of_nat (MaximumQueuedReliableBytes l) :: u32) \<circ>
         Writer_Integer (word_of_nat (MaximumUnreliableMessageBytes l) :: u32) \<circ>
         Writer_Integer (word_of_nat (MaximumReliableMessageBytes l) :: u32))"
    using l b by (simp add: WriteLimits_def fun_eq_iff)
  then have "emits (\<lambda>w. snd (WriteLimits l w)) (limits_image l)"
    unfolding limits_image_def by (simp only:) (intro emits_comp emits_Integer)
  then show "fst (WriteLimits l w) \<and> emits (\<lambda>w. snd (WriteLimits l w)) (limits_image l)"
    using l b by (simp add: WriteLimits_def)
qed (simp add: WriteLimits_def)

lemma unat_eq_word: "unat (x :: u32) = n \<longleftrightarrow> n \<le> 0xffffffff \<and> x = word_of_nat n"
  using unat_u32_le [of x] by (auto simp: unat_of_nat)

definition limits_of_words :: "u32 \<Rightarrow> u32 \<Rightarrow> u32 \<Rightarrow> u32 \<Rightarrow> u32 \<Rightarrow> u32 \<Rightarrow> u32 \<Rightarrow> u32 \<Rightarrow> NetworkLimits" where
  "limits_of_words a b c d e f g h =
     \<lparr>MaximumReliableMessageBytes = unat a, MaximumUnreliableMessageBytes = unat b,
      MaximumQueuedReliableBytes = unat c, MaximumInFlightRemoteRequests = d,
      MaximumDecodedMessageBytes = unat e, MaximumSendBytesPerTick = unat f,
      MaximumReceiveBytesPerTick = unat g, MaximumMessagesPerTick = h\<rparr>"

lemma limits_of_words_eq:
  assumes "NetworkLimits_IsValid l"
  shows "l = limits_of_words a b c d e f g h \<longleftrightarrow>
     a = word_of_nat (MaximumReliableMessageBytes l) \<and> b = word_of_nat (MaximumUnreliableMessageBytes l) \<and>
     c = word_of_nat (MaximumQueuedReliableBytes l) \<and> d = MaximumInFlightRemoteRequests l \<and>
     e = word_of_nat (MaximumDecodedMessageBytes l) \<and> f = word_of_nat (MaximumSendBytesPerTick l) \<and>
     g = word_of_nat (MaximumReceiveBytesPerTick l) \<and> h = MaximumMessagesPerTick l"
  using valid_limits_u32 [OF assms]
  by (cases l) (auto simp: limits_of_words_def unat_of_nat)

lemma ReadLimits_ok [codec_simps]:
  "ReadLimits r = (Some l, r') \<longleftrightarrow> NetworkLimits_IsValid l \<and> takes (limits_image l) r r'"
proof -
  have "ReadLimits r = (Some l, r') \<longleftrightarrow> NetworkLimits_IsValid l \<and>
      (\<exists>a b c d e f g h. l = limits_of_words a b c d e f g h \<and>
        takes (int_image a @ int_image b @ int_image c @ int_image d @ int_image e @ int_image f @ int_image g @
          int_image h) r r')"
    unfolding ReadLimits_def Let_def limits_of_words_def [symmetric]
    by (auto simp: codec_simps takes_append) ((intro exI conjI, (assumption | rule refl)+)+)
  also have "\<dots> \<longleftrightarrow> NetworkLimits_IsValid l \<and> takes (limits_image l) r r'"
    by (cases "NetworkLimits_IsValid l") (simp_all add: limits_of_words_eq limits_image_def)
  finally show ?thesis .
qed

lemma ReadSessionHeader_ok [codec_simps]:
  "ReadSessionHeader r = (Some (magic, version, kind, reserved), r') \<longleftrightarrow>
     takes (int_image magic @ int_image version @ int_image kind @ int_image reserved) r r'"
  by (auto simp: ReadSessionHeader_def codec_simps takes_append) ((intro exI conjI, (assumption | rule refl)+)+)

lemma ReadHello_ok [codec_simps]:
  "ReadHello r = (Some (nonce, l), r') \<longleftrightarrow> NetworkLimits_IsValid l \<and> takes (int_image nonce @ limits_image l) r r'"
  by (auto simp: ReadHello_def codec_simps takes_append)

lemma ReadAcceptance_ok [codec_simps]:
  "ReadAcceptance r = (Some (nonce, epoch, repl, player, playerId, identity, reserved8, reserved16, l), r') \<longleftrightarrow>
     ObjectId_IsValid player \<and> NetworkLimits_IsValid l \<and>
     takes ((int_image nonce @ int_image epoch @ int_image repl @ object_id_image player @ int_image playerId @
       int_image identity @ int_image reserved8 @ int_image reserved16) @ limits_image l) r r'"
  by (auto simp: ReadAcceptance_def codec_simps takes_append) ((intro exI conjI, (assumption | rule refl)+)+)

lemma ReadReadiness_ok [codec_simps]:
  "ReadReadiness r = (Some (epoch, repl, player), r') \<longleftrightarrow>
     ObjectId_IsValid player \<and> takes (int_image epoch @ int_image repl @ object_id_image player) r r'"
  by (auto simp: ReadReadiness_def codec_simps takes_append)

lemmas session_decode_simps = DecodeSessionBody_def case_rd_Inr if_Failure codec_simps

lemma DecodeSessionBody_kind: "DecodeSessionBody kind r = Inr (m, r') \<Longrightarrow> kind = GameSessionMessageKind m"
  by (auto simp: session_decode_simps split: if_splits)

lemma DecodeSessionBody_ok:
  "DecodeSessionBody (GameSessionMessageKind m) r = Inr (m, r') \<longleftrightarrow>
     session_ok m \<and> takes (session_body_image m) r r'"
  by (cases m) (auto simp: session_decode_simps)

lemma Decode_session_iff:
  "DecodeGameSessionMessage bs = Inr m \<longleftrightarrow>
     session_ok m \<and> bs = session_image m \<and> length bs \<le> MaximumGameSessionFrameBytes"
proof -
  let ?r = "GameBinaryReader bs ''Game session frame''"
  let ?h = "\<lambda>kind. int_image GameSessionMagic @ int_image GameSessionProtocolVersion @ int_image (kind :: u8) @
    int_image (0 :: u8)"
  have "DecodeGameSessionMessage bs = Inr m \<longleftrightarrow> length bs \<le> MaximumGameSessionFrameBytes \<and>
      (\<exists>kind r r'. takes (?h kind) ?r r \<and> DecodeSessionBody kind r = Inr (m, r') \<and> Complete r')"
    unfolding DecodeGameSessionMessage_def if_Failure case_rd_Inr
    by (auto simp: codec_simps if_Failure case_sum_eq_Inr)
  also have "\<dots> \<longleftrightarrow> length bs \<le> MaximumGameSessionFrameBytes \<and> session_ok m \<and>
      (\<exists>r'. takes (session_image m) ?r r' \<and> Complete r')"
    unfolding session_image_def takes_append [of "?h _"]
    using DecodeSessionBody_ok DecodeSessionBody_kind by blast
  also have "\<dots> \<longleftrightarrow> session_ok m \<and> bs = session_image m \<and> length bs \<le> MaximumGameSessionFrameBytes"
    unfolding takes_complete by blast
  finally show ?thesis .
qed

lemma WriteSessionBody_fst: "fst (WriteSessionBody m w) \<longleftrightarrow> session_ok m"
proof -
  have "fst (WriteLimits l w) \<longleftrightarrow> NetworkLimits_IsValid l" for l w
    using WriteLimits_emits by blast
  then show ?thesis by (cases m) (auto simp: Let_def)
qed

lemma WriteSessionBody_emits:
  "session_ok m \<Longrightarrow> emits (\<lambda>w. snd (WriteSessionBody m w)) (session_body_image m)"
proof (cases m)
  case (ClientHello nonce l)
  assume "session_ok m"
  with ClientHello have l: "nonce \<noteq> 0" "NetworkLimits_IsValid l" by simp_all
  from emits_comp [OF emits_Integer conjunct2 [OF WriteLimits_emits(1) [OF l(2)]], of nonce]
  show ?thesis using ClientHello l by (simp add: comp_def Let_def)
next
  case (ServerAccepted nonce epoch repl player playerId identity l)
  assume "session_ok m"
  with ServerAccepted have l: "nonce \<noteq> 0" "epoch \<noteq> 0" "Sequence_IsValid repl" "ObjectId_IsValid player" "playerId \<noteq> 0"
    "identity = DevelopmentLocal" "NetworkLimits_IsValid l" by simp_all
  have "emits (Writer_Integer (0 :: u16) \<circ> Writer_Integer (0 :: u8) \<circ> Writer_Integer identity \<circ>
      Writer_Integer playerId \<circ> WriteBinaryObjectId player \<circ> Writer_Integer repl \<circ>
      Writer_Integer epoch \<circ> Writer_Integer nonce)
     (int_image nonce @ int_image epoch @ int_image repl @ object_id_image player @ int_image playerId @
      int_image identity @ int_image (0 :: u8) @ int_image (0 :: u16))"
    by (intro emits_comp emits_Integer emits_ObjectId)
  from emits_comp [OF this conjunct2 [OF WriteLimits_emits(1) [OF l(7)]]]
  show ?thesis using ServerAccepted l by (simp add: comp_def Let_def)
next
  case (ClientReady epoch repl player)
  have "emits (WriteBinaryObjectId player \<circ> Writer_Integer repl \<circ> Writer_Integer epoch)
      (int_image epoch @ int_image repl @ object_id_image player)"
    by (intro emits_comp emits_Integer emits_ObjectId)
  then show ?thesis using ClientReady by (simp add: comp_def)
qed

lemma Encode_session_iff:
  "EncodeGameSessionMessage m = Inr bs \<longleftrightarrow>
     session_ok m \<and> bs = session_image m \<and> length bs \<le> MaximumGameSessionFrameBytes"
proof (cases "session_ok m")
  case True
  let ?h = "Writer_Integer (0 :: u8) \<circ> Writer_Integer (GameSessionMessageKind m) \<circ>
    Writer_Integer GameSessionProtocolVersion \<circ> Writer_Integer GameSessionMagic"
  let ?f = "(\<lambda>w. snd (WriteSessionBody m w)) \<circ> ?h" and ?w = "GameBinaryWriter MaximumGameSessionFrameBytes"
  have f: "emits ?f (session_image m)"
    unfolding session_image_def by (intro emits_comp emits_Integer WriteSessionBody_emits True)
  have "EncodeGameSessionMessage m = Inr bs \<longleftrightarrow> Writer_Succeeded (?f ?w) \<and> bs = Bytes (?f ?w)"
    using True WriteSessionBody_fst [of m "?h ?w"]
    by (auto simp: EncodeGameSessionMessage_def Let_def split: prod.splits)
  also have "\<dots> \<longleftrightarrow> bs = session_image m \<and> length bs \<le> MaximumGameSessionFrameBytes"
    using emits_succeeds [OF f] emits_fails [OF f]
    by (cases "length (session_image m) \<le> MaximumGameSessionFrameBytes") (auto simp: Writer_Succeeded_def)
  finally show ?thesis using True by simp
next
  case False
  then show ?thesis
    using WriteSessionBody_fst [of m]
    by (auto simp: EncodeGameSessionMessage_def Let_def split: prod.splits) (metis fst_conv)
qed

section \<open>Properties\<close>

text \<open>
  C10. A byte string decodes to a session message exactly when encoding that message
  succeeds and gives that byte string: encoding and decoding are inverse in both
  directions, every accepted frame is the canonical one, and a message that may not be
  sent is never produced by decoding.
\<close>

theorem session_decode_iff_encode:
  "DecodeGameSessionMessage bs = Inr m \<longleftrightarrow> EncodeGameSessionMessage m = Inr bs"
  by (simp only: Decode_session_iff Encode_session_iff)

end
