(* ===== verification/RemoteProtocol.thy ===== *)
theory RemoteProtocol imports Serialization begin

text \<open>
  Remote calls: the outcome types of src/network/Remote.cpp and the frames of
  src/network/RemoteProtocol.cpp. The kind of a message is the byte the code casts;
  \<open>std::chrono::milliseconds\<close> is an integer, so that a negative deadline exists.
  Allocation failure is not modelled.
\<close>

section \<open>Outcomes\<close>

datatype RemoteRequestTerminalStatus =
    RemoteSuccess | RemoteTimeout | RemoteCancelled | RemoteDisconnected | RemoteError
  | RemoteProtocolRejected | RemoteResourceRejected

datatype StructuredRemoteError = StructuredRemoteError (ErrorCodeText: bytes) (ErrorMessageText: bytes)

definition StructuredRemoteError_IsValid :: "StructuredRemoteError \<Rightarrow> bool" where
  "StructuredRemoteError_IsValid e \<longleftrightarrow>
     (case ValidateProtocolString (ErrorCodeText e) 128 ''Remote error code'' of
        Inl _ \<Rightarrow> False
      | Inr _ \<Rightarrow> (case ValidateProtocolString (ErrorMessageText e) 4096 ''Remote error message'' of
            Inl _ \<Rightarrow> False
          | Inr _ \<Rightarrow> ErrorCodeText e \<noteq> []))"

record RemoteRequestOutcome =
  OutcomeRequest :: Sequence
  OutcomeStatus :: RemoteRequestTerminalStatus
  ResultPayload :: bytes
  OutcomeError :: "StructuredRemoteError option"

definition RemoteRequestOutcome_IsValid :: "RemoteRequestOutcome \<Rightarrow> NetworkLimits \<Rightarrow> bool" where
  "RemoteRequestOutcome_IsValid out l =
     (if \<not> NetworkLimits_IsValid l \<or> \<not> Sequence_IsValid (OutcomeRequest out) \<or>
         length (ResultPayload out) > MaximumDecodedMessageBytes l then False
      else (case OutcomeStatus out of
          RemoteSuccess \<Rightarrow> OutcomeError out = None
        | RemoteError \<Rightarrow> ResultPayload out = [] \<and>
            (case OutcomeError out of None \<Rightarrow> False | Some e \<Rightarrow> StructuredRemoteError_IsValid e)
        | _ \<Rightarrow> ResultPayload out = [] \<and> OutcomeError out = None))"

section \<open>Messages\<close>

definition RemoteProtocolVersion :: u16 where
  "RemoteProtocolVersion = 2"

definition MaximumRemoteFrameBytes :: nat where
  "MaximumRemoteFrameBytes = 256 * 1024"

definition MaximumRemoteStringBytes :: nat where
  "MaximumRemoteStringBytes = 16 * 1024"

definition MaximumRemoteArguments :: nat where
  "MaximumRemoteArguments = 32"

definition MaximumRemoteErrorCodeBytes :: nat where
  "MaximumRemoteErrorCodeBytes = 128"

definition MaximumRemoteErrorMessageBytes :: nat where
  "MaximumRemoteErrorMessageBytes = 1024"

definition MaximumRemoteRequestDeadline :: int where
  "MaximumRemoteRequestDeadline = 30000"

definition RemoteMagic :: u32 where
  "RemoteMagic = 0x544d5247"

definition RemoteHeaderBytes :: nat where
  "RemoteHeaderBytes = 52"

definition MinimumRemoteArgumentBytes :: nat where
  "MinimumRemoteArgumentBytes = 1"

lemmas remote_limits = MaximumRemoteFrameBytes_def MaximumRemoteStringBytes_def MaximumRemoteArguments_def
  MaximumRemoteErrorCodeBytes_def MaximumRemoteErrorMessageBytes_def MaximumRemoteRequestDeadline_def
  RemoteHeaderBytes_def MinimumRemoteArgumentBytes_def

type_synonym RemoteMessageKind = u8

abbreviation KindReliableEvent :: RemoteMessageKind where "KindReliableEvent \<equiv> 0"
abbreviation KindUnreliableEvent :: RemoteMessageKind where "KindUnreliableEvent \<equiv> 1"
abbreviation KindSequencedEvent :: RemoteMessageKind where "KindSequencedEvent \<equiv> 2"
abbreviation KindRequest :: RemoteMessageKind where "KindRequest \<equiv> 3"
abbreviation KindResponse :: RemoteMessageKind where "KindResponse \<equiv> 4"
abbreviation KindRequestError :: RemoteMessageKind where "KindRequestError \<equiv> 5"
abbreviation KindCancellation :: RemoteMessageKind where "KindCancellation \<equiv> 6"

datatype RemoteInstanceKind =
  InstanceReliableEvent | InstanceUnreliableEvent | InstanceUnreliableSequencedEvent | InstanceFunction

record RemoteMessage =
  MessageVersion :: u16
  MessageKind :: RemoteMessageKind
  MessageRemote :: ObjectId
  MessagePublication :: Sequence
  MessageRequest :: Sequence
  MessageSequence :: Sequence
  MessageDeadline :: int
  MessageArguments :: "WireValue list"
  MessageError :: "StructuredRemoteError option"

definition HasRequest :: "RemoteMessageKind \<Rightarrow> bool" where
  "HasRequest k \<longleftrightarrow> k = KindRequest \<or> k = KindResponse \<or> k = KindRequestError \<or> k = KindCancellation"

primrec IsRemoteMessageKindCompatible :: "RemoteInstanceKind \<Rightarrow> RemoteMessageKind \<Rightarrow> bool" where
  "IsRemoteMessageKindCompatible InstanceReliableEvent k = (k = KindReliableEvent)"
| "IsRemoteMessageKindCompatible InstanceUnreliableEvent k = (k = KindUnreliableEvent)"
| "IsRemoteMessageKindCompatible InstanceUnreliableSequencedEvent k = (k = KindSequencedEvent)"
| "IsRemoteMessageKindCompatible InstanceFunction k =
     (k = KindRequest \<or> k = KindResponse \<or> k = KindRequestError \<or> k = KindCancellation)"

fun remote_argument_ok :: "WireValue \<Rightarrow> bool" where
  "remote_argument_ok a =
     (case ValidateProtocolWireValue a of
        Inl _ \<Rightarrow> False
      | Inr _ \<Rightarrow> (case a of WireString s \<Rightarrow> length s \<le> MaximumRemoteStringBytes | _ \<Rightarrow> True))"

definition RemoteMessage_IsValid :: "RemoteMessage \<Rightarrow> bool" where
  "RemoteMessage_IsValid m =
     (if MessageVersion m \<noteq> RemoteProtocolVersion \<or> MessageKind m > KindCancellation \<or>
         \<not> ObjectId_IsValid (MessageRemote m) \<or> \<not> Sequence_IsValid (MessagePublication m) \<or>
         length (MessageArguments m) > MaximumRemoteArguments then False
      else if Sequence_IsValid (MessageRequest m) \<noteq> HasRequest (MessageKind m) then False
      else if Sequence_IsValid (MessageSequence m) \<noteq> (MessageKind m = KindSequencedEvent) then False
      else if (MessageKind m = KindRequest) \<noteq> (MessageDeadline m > 0) then False
      else if MessageDeadline m > MaximumRemoteRequestDeadline then False
      else if (MessageKind m = KindRequestError) \<noteq> (MessageError m \<noteq> None) then False
      else if (case MessageError m of
                 None \<Rightarrow> False
               | Some e \<Rightarrow> \<not> StructuredRemoteError_IsValid e \<or>
                   length (ErrorCodeText e) > MaximumRemoteErrorCodeBytes \<or>
                   length (ErrorMessageText e) > MaximumRemoteErrorMessageBytes) then False
      else if (MessageKind m = KindRequestError \<or> MessageKind m = KindCancellation) \<and> MessageArguments m \<noteq> []
      then False
      else \<forall>a \<in> set (MessageArguments m). remote_argument_ok a)"

section \<open>Encoding\<close>

definition WriteRemotePayload :: "RemoteMessage \<Rightarrow> writer \<Rightarrow> writer" where
  "WriteRemotePayload m =
     (case MessageError m of
        None \<Rightarrow> id
      | Some e \<Rightarrow> Writer_String (ErrorMessageText e) \<circ> Writer_String (ErrorCodeText e)) \<circ>
     fold WriteBinaryWireValue (MessageArguments m)"

definition EncodeRemoteMessage :: "RemoteMessage \<Rightarrow> SerializationError + bytes" where
  "EncodeRemoteMessage m =
     (if \<not> RemoteMessage_IsValid m then SerializationFailure InvalidValue ''Remote message is invalid''
      else
        (let payload = WriteRemotePayload m (GameBinaryWriter (MaximumRemoteFrameBytes - RemoteHeaderBytes))
         in if \<not> Writer_Succeeded payload
            then SerializationFailure LimitExceeded ''Remote payload exceeds its byte limit''
            else
              (let out = (Writer_Append (Bytes payload) \<circ>
                   Writer_Integer (word_of_nat (length (Bytes payload)) :: u32) \<circ>
                   Writer_Integer (0 :: u16) \<circ>
                   Writer_Integer (word_of_nat (length (MessageArguments m)) :: u16) \<circ>
                   Writer_Integer (word_of_int (MessageDeadline m) :: u32) \<circ>
                   Writer_Integer (MessageSequence m) \<circ> Writer_Integer (MessageRequest m) \<circ>
                   Writer_Integer (MessagePublication m) \<circ> WriteBinaryObjectId (MessageRemote m) \<circ>
                   Writer_Integer (0 :: u8) \<circ> Writer_Integer (MessageKind m) \<circ>
                   Writer_Integer (MessageVersion m) \<circ> Writer_Integer RemoteMagic)
                   (GameBinaryWriter MaximumRemoteFrameBytes)
               in if \<not> Writer_Succeeded out
                  then SerializationFailure LimitExceeded ''Remote frame exceeds its byte limit''
                  else Inr (Bytes out))))"

section \<open>Decoding\<close>

record remote_header =
  HeaderMagic :: u32
  HeaderVersion :: u16
  HeaderKind :: u8
  HeaderReserved :: u8
  HeaderRemote :: ObjectId
  HeaderPublication :: u64
  HeaderRequest :: u64
  HeaderSequence :: u64
  HeaderDeadline :: u32
  HeaderArgumentCount :: u16
  HeaderReservedTail :: u16
  HeaderPayloadBytes :: u32

definition ReadRemoteHeader :: "remote_header rd" where
  "ReadRemoteHeader =
     rd_bind Reader_Integer (\<lambda>magic. rd_bind Reader_Integer (\<lambda>version. rd_bind Reader_Integer (\<lambda>kind.
     rd_bind Reader_Integer (\<lambda>reserved. rd_bind ReadBinaryObjectId (\<lambda>remote. rd_bind Reader_Integer (\<lambda>publication.
     rd_bind Reader_Integer (\<lambda>request. rd_bind Reader_Integer (\<lambda>sequence. rd_bind Reader_Integer (\<lambda>deadline.
     rd_bind Reader_Integer (\<lambda>argumentCount. rd_bind Reader_Integer (\<lambda>reservedTail. rd_bind Reader_Integer (\<lambda>payloadBytes.
       rd_return \<lparr>HeaderMagic = magic, HeaderVersion = version, HeaderKind = kind, HeaderReserved = reserved,
         HeaderRemote = remote, HeaderPublication = publication, HeaderRequest = request,
         HeaderSequence = sequence, HeaderDeadline = deadline, HeaderArgumentCount = argumentCount,
         HeaderReservedTail = reservedTail, HeaderPayloadBytes = payloadBytes\<rparr>))))))))))))"

fun ReadArguments :: "nat \<Rightarrow> WireValue list rd" where
  "ReadArguments 0 = rd_return []"
| "ReadArguments (Suc n) =
     rd_bind (ReadBinaryWireValue MaximumRemoteStringBytes) (\<lambda>x. rd_bind (ReadArguments n) (\<lambda>xs. rd_return (x # xs)))"

definition ReadRemoteError :: "RemoteMessageKind \<Rightarrow> StructuredRemoteError option rd" where
  "ReadRemoteError kind =
     (if kind = KindRequestError then
        rd_bind (Reader_String MaximumRemoteErrorCodeBytes) (\<lambda>code.
        rd_bind (Reader_String MaximumRemoteErrorMessageBytes) (\<lambda>message.
          rd_return (Some (StructuredRemoteError code message))))
      else rd_return None)"

definition DecodeRemoteMessage :: "bytes \<Rightarrow> SerializationError + RemoteMessage" where
  "DecodeRemoteMessage bs =
     (if length bs > MaximumRemoteFrameBytes
      then SerializationFailure LimitExceeded ''Remote frame exceeds its byte limit''
      else (case ReadRemoteHeader (GameBinaryReader bs ''Remote frame'') of
          (None, r) \<Rightarrow> SerializationFailure TruncatedInput (Error r)
        | (Some h, r) \<Rightarrow>
            if HeaderMagic h \<noteq> RemoteMagic
            then SerializationFailure InvalidSyntax ''Remote frame magic is invalid''
            else if HeaderVersion h \<noteq> RemoteProtocolVersion
            then SerializationFailure UnsupportedVersion ''Remote protocol version is unsupported''
            else if HeaderKind h > KindCancellation \<or> HeaderReserved h \<noteq> 0 \<or> HeaderReservedTail h \<noteq> 0
            then SerializationFailure InvalidValue ''Remote frame header is invalid''
            else if unat (HeaderArgumentCount h) > MaximumRemoteArguments
            then SerializationFailure LimitExceeded ''Remote argument count exceeds its limit''
            else if unat (HeaderPayloadBytes h) \<noteq> Remaining r
            then SerializationFailure TruncatedInput ''Remote payload length does not match the frame''
            else if unat (HeaderArgumentCount h) > Remaining r div MinimumRemoteArgumentBytes
            then SerializationFailure TruncatedInput ''Remote arguments cannot fit in the payload''
            else (case ReadArguments (unat (HeaderArgumentCount h)) r of
                (None, r1) \<Rightarrow> SerializationFailure InvalidValue (Error r1)
              | (Some arguments, r1) \<Rightarrow>
                  (case ReadRemoteError (HeaderKind h) r1 of
                     (None, r2) \<Rightarrow> SerializationFailure InvalidValue (Error r2)
                   | (Some err, r2) \<Rightarrow>
                       (let m = \<lparr>MessageVersion = HeaderVersion h, MessageKind = HeaderKind h,
                           MessageRemote = HeaderRemote h, MessagePublication = HeaderPublication h,
                           MessageRequest = HeaderRequest h, MessageSequence = HeaderSequence h,
                           MessageDeadline = int (unat (HeaderDeadline h)),
                           MessageArguments = arguments, MessageError = err\<rparr>
                        in if \<not> Complete r2 \<or> \<not> RemoteMessage_IsValid m
                           then SerializationFailure InvalidValue ''Remote frame contains trailing or invalid data''
                           else Inr m)))))"

section \<open>Encoding and decoding describe the same frames\<close>

definition header_image :: "remote_header \<Rightarrow> bytes" where
  "header_image h =
     int_image (HeaderMagic h) @ int_image (HeaderVersion h) @ int_image (HeaderKind h) @
     int_image (HeaderReserved h) @ object_id_image (HeaderRemote h) @ int_image (HeaderPublication h) @
     int_image (HeaderRequest h) @ int_image (HeaderSequence h) @ int_image (HeaderDeadline h) @
     int_image (HeaderArgumentCount h) @ int_image (HeaderReservedTail h) @ int_image (HeaderPayloadBytes h)"

definition error_image :: "StructuredRemoteError option \<Rightarrow> bytes" where
  "error_image x = (case x of None \<Rightarrow> [] | Some e \<Rightarrow> string_image (ErrorCodeText e) @ string_image (ErrorMessageText e))"

definition remote_payload_image :: "RemoteMessage \<Rightarrow> bytes" where
  "remote_payload_image m = concat (map wire_value_image (MessageArguments m)) @ error_image (MessageError m)"

definition message_header :: "RemoteMessage \<Rightarrow> remote_header" where
  "message_header m =
     \<lparr>HeaderMagic = RemoteMagic, HeaderVersion = MessageVersion m, HeaderKind = MessageKind m, HeaderReserved = 0,
      HeaderRemote = MessageRemote m, HeaderPublication = MessagePublication m, HeaderRequest = MessageRequest m,
      HeaderSequence = MessageSequence m, HeaderDeadline = word_of_int (MessageDeadline m),
      HeaderArgumentCount = word_of_nat (length (MessageArguments m)), HeaderReservedTail = 0,
      HeaderPayloadBytes = word_of_nat (length (remote_payload_image m))\<rparr>"

definition remote_image :: "RemoteMessage \<Rightarrow> bytes" where
  "remote_image m = header_image (message_header m) @ remote_payload_image m"

definition remote_ok :: "RemoteMessage \<Rightarrow> bool" where
  "remote_ok m \<longleftrightarrow> RemoteMessage_IsValid m \<and> length (remote_payload_image m) \<le> MaximumRemoteFrameBytes - RemoteHeaderBytes"

lemma length_header_image: "length (header_image h) = RemoteHeaderBytes"
  by (simp add: header_image_def length_int_image object_id_image_def RemoteHeaderBytes_def)

lemma remote_argument_ok_iff:
  "remote_argument_ok a \<longleftrightarrow> ValidateProtocolWireValue a = Inr () \<and> wire_string_fits MaximumRemoteStringBytes a"
  by (cases a) (simp_all split: sum.splits)

declare remote_argument_ok.simps [simp del]

lemma valid_error:
  assumes "RemoteMessage_IsValid m" "MessageError m = Some e"
  shows "string_ok MaximumRemoteErrorCodeBytes (ErrorCodeText e) \<and> string_ok MaximumRemoteErrorMessageBytes (ErrorMessageText e)"
proof -
  have "StructuredRemoteError_IsValid e" "length (ErrorCodeText e) \<le> MaximumRemoteErrorCodeBytes"
    "length (ErrorMessageText e) \<le> MaximumRemoteErrorMessageBytes"
    using assms by (auto simp: RemoteMessage_IsValid_def split: if_splits)
  moreover from this have "IsValidProtocolUtf8 (ErrorCodeText e)" "IsValidProtocolUtf8 (ErrorMessageText e)"
    by (auto simp: StructuredRemoteError_IsValid_def ValidateProtocolString_def split: sum.splits if_splits)
  ultimately show ?thesis by (simp add: string_ok_def remote_limits)
qed

lemma valid_arguments:
  assumes "RemoteMessage_IsValid m"
  shows "\<forall>a \<in> set (MessageArguments m). ValidateProtocolWireValue a = Inr () \<and> wire_string_fits MaximumRemoteStringBytes a"
  using assms by (simp add: RemoteMessage_IsValid_def remote_argument_ok_iff split: if_splits)

lemma WriteRemotePayload_emits:
  assumes "RemoteMessage_IsValid m"
  shows "emits (WriteRemotePayload m) (remote_payload_image m)"
  unfolding WriteRemotePayload_def remote_payload_image_def
proof (rule emits_comp)
  show "emits (fold WriteBinaryWireValue (MessageArguments m)) (concat (map wire_value_image (MessageArguments m)))"
    using valid_arguments [OF assms] by (intro emits_fold emits_WireValue) blast
  show "emits (case MessageError m of None \<Rightarrow> id
      | Some e \<Rightarrow> Writer_String (ErrorMessageText e) \<circ> Writer_String (ErrorCodeText e)) (error_image (MessageError m))"
    using valid_error [OF assms]
    by (auto simp: error_image_def string_ok_def split: option.split intro!: codec_simps)
qed

lemma Encode_remote_iff: "EncodeRemoteMessage m = Inr bs \<longleftrightarrow> remote_ok m \<and> bs = remote_image m"
proof (cases "RemoteMessage_IsValid m")
  case True
  let ?n = "MaximumRemoteFrameBytes - RemoteHeaderBytes"
  note p = WriteRemotePayload_emits [OF True]
  show ?thesis
  proof (cases "length (remote_payload_image m) \<le> ?n")
    case fits: True
    note w = emits_succeeds [OF p fits]
    let ?f = "Writer_Append (remote_payload_image m) \<circ>
       Writer_Integer (word_of_nat (length (remote_payload_image m)) :: u32) \<circ>
       Writer_Integer (0 :: u16) \<circ> Writer_Integer (word_of_nat (length (MessageArguments m)) :: u16) \<circ>
       Writer_Integer (word_of_int (MessageDeadline m) :: u32) \<circ>
       Writer_Integer (MessageSequence m) \<circ> Writer_Integer (MessageRequest m) \<circ>
       Writer_Integer (MessagePublication m) \<circ> WriteBinaryObjectId (MessageRemote m) \<circ>
       Writer_Integer (0 :: u8) \<circ> Writer_Integer (MessageKind m) \<circ>
       Writer_Integer (MessageVersion m) \<circ> Writer_Integer RemoteMagic"
    have "emits ?f (remote_image m)"
      unfolding remote_image_def header_image_def message_header_def remote_header.simps append_assoc
      by (intro emits_comp emits_Integer emits_ObjectId emits_Append)
    moreover have "length (remote_image m) \<le> MaximumRemoteFrameBytes"
      using fits by (simp add: remote_image_def length_header_image remote_limits)
    ultimately have out: "?f (GameBinaryWriter MaximumRemoteFrameBytes) =
        \<lparr>Bytes = remote_image m, MaximumBytes = MaximumRemoteFrameBytes, Failed = False\<rparr>"
      by (rule emits_succeeds)
    show ?thesis
      unfolding EncodeRemoteMessage_def Let_def w writer.simps out Writer_Succeeded_def
      using True fits by (auto simp: remote_ok_def)
  next
    case False
    then show ?thesis
      using emits_fails [OF p, of ?n] by (simp add: EncodeRemoteMessage_def Let_def remote_ok_def)
  qed
qed (simp add: EncodeRemoteMessage_def remote_ok_def)

lemma ReadRemoteHeader_ok [codec_simps]:
  "ReadRemoteHeader r = (Some h, r') \<longleftrightarrow> ObjectId_IsValid (HeaderRemote h) \<and> takes (header_image h) r r'"
  by (cases h) (auto simp: ReadRemoteHeader_def header_image_def codec_simps takes_append,
      (intro exI conjI, (assumption | rule refl)+)+)

lemma header_image_prefix:
  assumes "header_image (message_header a) @ xs = header_image (message_header b) @ ys"
    and "RemoteMessage_IsValid a" "RemoteMessage_IsValid b"
  shows "message_header a = message_header b"
proof -
  let ?r = "\<lambda>bs. GameBinaryReader bs []"
  have "ReadRemoteHeader (?r (header_image (message_header m) @ zs)) =
      (Some (message_header m), (?r (header_image (message_header m) @ zs))\<lparr>Position := RemoteHeaderBytes\<rparr>)"
    if "RemoteMessage_IsValid m" for m zs
    using that
    by (auto simp: ReadRemoteHeader_ok takes_def GameBinaryReader_def length_header_image RemoteMessage_IsValid_def
        message_header_def split: if_splits)
  from this [OF assms(2), of xs] this [OF assms(3), of ys] show ?thesis using assms(1) by simp
qed

lemma ReadArguments_ok [codec_simps]:
  "Position r \<le> length (Input r) \<Longrightarrow>
   ReadArguments n r = (Some xs, r') \<longleftrightarrow>
     length xs = n \<and> (\<forall>x \<in> set xs. wire_value_ok MaximumRemoteStringBytes x) \<and>
     takes (concat (map wire_value_image xs)) r r'"
proof (induction n arbitrary: r xs)
  case (Suc n)
  have "ReadArguments (Suc n) r = (Some xs, r') \<longleftrightarrow>
      (\<exists>x r1 ys. (wire_value_ok MaximumRemoteStringBytes x \<and> takes (wire_value_image x) r r1) \<and>
        (length ys = n \<and> (\<forall>x \<in> set ys. wire_value_ok MaximumRemoteStringBytes x) \<and>
         takes (concat (map wire_value_image ys)) r1 r') \<and> xs = x # ys)"
    using Suc.IH takes_position by (auto simp: codec_simps) blast+
  then show ?case by (cases xs) (auto simp: takes_append)
qed (auto simp: codec_simps)

lemma ReadRemoteError_ok [codec_simps]:
  "Position r \<le> length (Input r) \<Longrightarrow>
   ReadRemoteError kind r = (Some x, r') \<longleftrightarrow>
     (kind = KindRequestError) = (x \<noteq> None) \<and>
     (\<forall>e. x = Some e \<longrightarrow> string_ok MaximumRemoteErrorCodeBytes (ErrorCodeText e) \<and>
        string_ok MaximumRemoteErrorMessageBytes (ErrorMessageText e)) \<and> takes (error_image x) r r'"
  by (cases x; cases "the x") (auto simp: ReadRemoteError_def error_image_def codec_simps takes_append)

lemma arguments_fit: "length xs \<le> length (concat (map wire_value_image xs))"
  by (induction xs) (auto simp: wire_value_image_def length_int_image)

lemma remote_ok_sizes:
  assumes "remote_ok m" "0 \<le> MessageDeadline m"
  shows "unat (HeaderArgumentCount (message_header m)) = length (MessageArguments m)"
    "length (MessageArguments m) \<le> MaximumRemoteArguments"
    "unat (HeaderPayloadBytes (message_header m)) = length (remote_payload_image m)"
    "int (unat (HeaderDeadline (message_header m))) = MessageDeadline m"
proof -
  show n: "length (MessageArguments m) \<le> MaximumRemoteArguments"
    using assms by (auto simp: remote_ok_def RemoteMessage_IsValid_def split: if_splits)
  then show "unat (HeaderArgumentCount (message_header m)) = length (MessageArguments m)"
    by (simp add: message_header_def unat_of_nat remote_limits)
  show "unat (HeaderPayloadBytes (message_header m)) = length (remote_payload_image m)"
    using assms(1) by (simp add: message_header_def unat_of_nat remote_limits remote_ok_def)
  have "MessageDeadline m \<le> MaximumRemoteRequestDeadline"
    using assms by (auto simp: remote_ok_def RemoteMessage_IsValid_def split: if_splits)
  then show "int (unat (HeaderDeadline (message_header m))) = MessageDeadline m"
    using assms(2) by (simp add: message_header_def remote_limits unsigned_of_int take_bit_int_eq_self_iff)
qed

definition header_checked :: "remote_header \<Rightarrow> nat \<Rightarrow> bool" where
  "header_checked h remaining \<longleftrightarrow> HeaderMagic h = RemoteMagic \<and> HeaderVersion h = RemoteProtocolVersion \<and>
     \<not> HeaderKind h > KindCancellation \<and> HeaderReserved h = 0 \<and> HeaderReservedTail h = 0 \<and>
     unat (HeaderArgumentCount h) \<le> MaximumRemoteArguments \<and> unat (HeaderPayloadBytes h) = remaining \<and>
     unat (HeaderArgumentCount h) \<le> remaining"

definition message_of :: "remote_header \<Rightarrow> WireValue list \<Rightarrow> StructuredRemoteError option \<Rightarrow> RemoteMessage" where
  "message_of h arguments err =
     \<lparr>MessageVersion = HeaderVersion h, MessageKind = HeaderKind h, MessageRemote = HeaderRemote h,
      MessagePublication = HeaderPublication h, MessageRequest = HeaderRequest h, MessageSequence = HeaderSequence h,
      MessageDeadline = int (unat (HeaderDeadline h)), MessageArguments = arguments, MessageError = err\<rparr>"

lemma Decode_remote_steps:
  "DecodeRemoteMessage bs = Inr m \<longleftrightarrow> length bs \<le> MaximumRemoteFrameBytes \<and>
     (\<exists>h r arguments r1 err r2. ReadRemoteHeader (GameBinaryReader bs ''Remote frame'') = (Some h, r) \<and>
        header_checked h (Remaining r) \<and>
        ReadArguments (unat (HeaderArgumentCount h)) r = (Some arguments, r1) \<and>
        ReadRemoteError (HeaderKind h) r1 = (Some err, r2) \<and> Complete r2 \<and>
        m = message_of h arguments err \<and> RemoteMessage_IsValid m)"
  unfolding DecodeRemoteMessage_def if_Failure case_rd_Inr Let_def message_of_def [symmetric] header_checked_def
  by (auto simp: MinimumRemoteArgumentBytes_def)

lemma message_header_of:
  assumes "length arguments = unat (HeaderArgumentCount h)"
    and "header_checked h (length (remote_payload_image (message_of h arguments err)))"
  shows "message_header (message_of h arguments err) = h"
proof -
  have "word_of_nat (unat x) = x" for x :: "'a::len word" by simp
  moreover have "length (remote_payload_image (message_of h arguments err)) = unat (HeaderPayloadBytes h)"
    using assms(2) by (simp add: header_checked_def)
  ultimately show ?thesis
    using assms by (cases h) (simp add: message_header_def header_checked_def message_of_def)
qed

lemma Decode_remote_sound:
  assumes "DecodeRemoteMessage bs = Inr m"
  shows "remote_ok m \<and> 0 \<le> MessageDeadline m \<and> (\<forall>a \<in> set (MessageArguments m). wf_WireValue a) \<and> bs = remote_image m"
proof -
  let ?r = "GameBinaryReader bs ''Remote frame''"
  from assms obtain h r arguments r1 err r2 where len: "length bs \<le> MaximumRemoteFrameBytes"
    and steps: "ReadRemoteHeader ?r = (Some h, r)" "header_checked h (Remaining r)"
      "ReadArguments (unat (HeaderArgumentCount h)) r = (Some arguments, r1)"
      "ReadRemoteError (HeaderKind h) r1 = (Some err, r2)" "Complete r2"
    and m: "m = message_of h arguments err" "RemoteMessage_IsValid m"
    unfolding Decode_remote_steps by blast
  have t1: "takes (header_image h) ?r r" using steps(1) by (simp add: ReadRemoteHeader_ok)
  have t2: "length arguments = unat (HeaderArgumentCount h)"
    "\<forall>x \<in> set arguments. wire_value_ok MaximumRemoteStringBytes x" "takes (concat (map wire_value_image arguments)) r r1"
    using steps(3) ReadArguments_ok [OF takes_position [OF t1]] by blast+
  have t3: "takes (error_image err) r1 r2"
    using steps(4) ReadRemoteError_ok [OF takes_position [OF t2(3)]] by blast
  have t4: "takes (remote_payload_image m) r r2"
    using t2(3) t3 by (auto simp: remote_payload_image_def m(1) message_of_def takes_append)
  then have rem: "Remaining r = length (remote_payload_image m)"
    using steps(5) by (auto simp: takes_def Complete_def Remaining_def)
  have hm: "message_header m = h"
    using message_header_of [OF t2(1)] steps(2) rem m(1) by simp
  have "takes (remote_image m) ?r r2"
    using t1 t4 by (auto simp: remote_image_def hm takes_append)
  then have bs: "bs = remote_image m" using takes_complete steps(5) by blast
  then have "length (remote_payload_image m) \<le> MaximumRemoteFrameBytes - RemoteHeaderBytes"
    using len by (simp add: remote_image_def length_header_image)
  then show ?thesis
    using bs m t2(2) by (auto simp: remote_ok_def message_of_def wire_value_ok_def)
qed

lemma Decode_remote_complete:
  assumes ok: "remote_ok m" and d: "0 \<le> MessageDeadline m" and wf: "\<forall>a \<in> set (MessageArguments m). wf_WireValue a"
  shows "DecodeRemoteMessage (remote_image m) = Inr m"
proof -
  let ?h = "message_header m" and ?r = "GameBinaryReader (remote_image m) ''Remote frame''"
  note sizes = remote_ok_sizes [OF ok d]
  have valid: "RemoteMessage_IsValid m" using ok by (simp add: remote_ok_def)
  obtain r1 r2 r3 where t: "takes (header_image ?h) ?r r1"
      "takes (concat (map wire_value_image (MessageArguments m))) r1 r2" "takes (error_image (MessageError m)) r2 r3"
      and c: "Complete r3"
    using takes_complete [of "remote_image m" "remote_image m"]
    unfolding remote_image_def remote_payload_image_def takes_append by blast
  have rem: "Remaining r1 = length (remote_payload_image m)"
    using t(1) by (auto simp: takes_def Remaining_def GameBinaryReader_def remote_image_def)
  have "ObjectId_IsValid (HeaderRemote ?h)" "\<not> MessageKind m > KindCancellation" "MessageVersion m = RemoteProtocolVersion"
    using valid by (auto simp: RemoteMessage_IsValid_def message_header_def split: if_splits)
  moreover have "length (MessageArguments m) \<le> length (remote_payload_image m)"
    using arguments_fit [of "MessageArguments m"] by (simp add: remote_payload_image_def)
  ultimately have "ReadRemoteHeader ?r = (Some ?h, r1)" "header_checked ?h (Remaining r1)"
    using t(1) sizes rem by (simp_all add: ReadRemoteHeader_ok header_checked_def) (simp_all add: message_header_def)
  moreover have "ReadArguments (unat (HeaderArgumentCount ?h)) r1 = (Some (MessageArguments m), r2)"
    using ReadArguments_ok [OF takes_position [OF t(1)]] t(2) sizes(1) valid_arguments [OF valid] wf
    by (simp add: wire_value_ok_def)
  moreover have "ReadRemoteError (HeaderKind ?h) r2 = (Some (MessageError m), r3)"
  proof -
    have "(MessageKind m = KindRequestError) = (MessageError m \<noteq> None)"
      using valid by (auto simp: RemoteMessage_IsValid_def split: if_splits)
    then show ?thesis
      using ReadRemoteError_ok [OF takes_position [OF t(2)]] t(3) valid_error [OF valid]
      by (simp add: message_header_def)
  qed
  moreover have "m = message_of ?h (MessageArguments m) (MessageError m)"
    using sizes(4) by (simp add: message_of_def) (simp add: message_header_def)
  moreover have "length (remote_image m) \<le> MaximumRemoteFrameBytes"
    using ok by (simp add: remote_ok_def remote_image_def length_header_image remote_limits)
  ultimately show ?thesis unfolding Decode_remote_steps using c valid by blast
qed

section \<open>Properties\<close>

text \<open>
  C11. A byte string decodes to a remote message exactly when that message encodes to that
  byte string and its deadline is not negative: on every frame the decoder accepts the two
  functions are inverse, and every message with a non-negative deadline that encodes is
  received unchanged.
\<close>

theorem remote_decode_iff_encode:
  "DecodeRemoteMessage bs = Inr m \<longleftrightarrow>
     EncodeRemoteMessage m = Inr bs \<and> 0 \<le> MessageDeadline m \<and> list_all wf_WireValue (MessageArguments m)"
  using Decode_remote_sound Decode_remote_complete unfolding Encode_remote_iff list_all_iff by blast

text \<open>
  C12. A message that passes validation is not always receivable: an event with a negative
  deadline is valid and encodes, but no decoder accepts the frame that is sent.
\<close>

definition negative_deadline_event :: RemoteMessage where
  "negative_deadline_event =
     \<lparr>MessageVersion = 2, MessageKind = KindReliableEvent, MessageRemote = ObjectId 1 1, MessagePublication = 1,
      MessageRequest = 0, MessageSequence = 0, MessageDeadline = -1, MessageArguments = [], MessageError = None\<rparr>"


end
