(* ===== verification/ServicePolicy.thy ===== *)
theory ServicePolicy imports NetworkCore begin

text \<open>
  The source envelope of ordinary traffic, src/network/OrdinaryServicePolicy.hpp: token
  buckets, the budget shared by all connections and the policy of one connection. A
  \<open>std::uint64_t\<close> is a natural number with \<open>add64\<close>, \<open>mul64\<close> where the code adds and
  multiplies; policies and budgets live in a store, because several policies share one
  budget by \<open>std::shared_ptr\<close>. A thread is a number.
\<close>

section \<open>Runs of a token bucket\<close>

fun total_charge :: "('e \<Rightarrow> 's \<Rightarrow> nat) \<Rightarrow> ('e \<Rightarrow> 's \<Rightarrow> 's) \<Rightarrow> 'e list \<Rightarrow> 's \<Rightarrow> nat" where
  "total_charge charge exec [] s = 0"
| "total_charge charge exec (e # es) s = charge e s + total_charge charge exec es (exec e s)"

text \<open>
  The contract of a token bucket: an operation may add to the level at most the rate times
  the time that passed, less what it charges. Whatever the operations are, what they charge
  in total is then bounded by the level at the start and the time that passed.
\<close>

locale token_bucket =
  fixes level :: "'s \<Rightarrow> nat"
    and clock :: "'s \<Rightarrow> nat"
    and rate :: nat
    and inv :: "'s \<Rightarrow> bool"
    and exec :: "'e \<Rightarrow> 's \<Rightarrow> 's"
    and charge :: "'e \<Rightarrow> 's \<Rightarrow> nat"
  assumes inv_exec: "inv s \<Longrightarrow> inv (exec e s)"
    and clock_exec: "inv s \<Longrightarrow> clock s \<le> clock (exec e s)"
    and level_exec: "inv s \<Longrightarrow> level (exec e s) + charge e s \<le> level s + rate * (clock (exec e s) - clock s)"
begin

lemma inv_run: "inv s \<Longrightarrow> inv (fold exec es s)"
  by (induction es arbitrary: s) (auto intro: inv_exec)

lemma clock_run: "inv s \<Longrightarrow> clock s \<le> clock (fold exec es s)"
proof (induction es arbitrary: s)
  case (Cons e es)
  then have "clock (exec e s) \<le> clock (fold exec es (exec e s))" by (auto intro: inv_exec)
  with clock_exec [OF Cons.prems, of e] show ?case by simp
qed simp

lemma charge_bound:
  "inv s \<Longrightarrow> level (fold exec es s) + total_charge charge exec es s \<le>
     level s + rate * (clock (fold exec es s) - clock s)"
proof (induction es arbitrary: s)
  case (Cons e es)
  let ?t = "exec e s" and ?u = "fold exec es (exec e s)"
  have "clock s \<le> clock ?t" "clock ?t \<le> clock ?u"
    using Cons.prems clock_exec clock_run inv_exec by blast+
  then have "rate * (clock ?t - clock s) + rate * (clock ?u - clock ?t) = rate * (clock ?u - clock s)"
    by (simp flip: add_mult_distrib2)
  with Cons.IH [OF inv_exec [OF Cons.prems, of e]] level_exec [OF Cons.prems, of e] show ?case by simp
qed simp

end

section \<open>Buckets\<close>

record OrdinarySourceBucket =
  Rate :: nat
  Cap :: nat
  Credit :: nat
  Updated :: nat
  Fraction :: nat

definition OrdinarySourceBucket :: "nat \<Rightarrow> nat \<Rightarrow> OrdinarySourceBucket" where
  "OrdinarySourceBucket rate cap = \<lparr>Rate = rate, Cap = cap, Credit = cap, Updated = 0, Fraction = 0\<rparr>"

definition Advance :: "nat \<Rightarrow> OrdinarySourceBucket \<Rightarrow> bool \<times> OrdinarySourceBucket" where
  "Advance at b =
     (if at = 0 \<or> (Updated b \<noteq> 0 \<and> at < Updated b) then (False, b)
      else if Updated b = 0 then (True, b\<lparr>Updated := at\<rparr>)
      else
        (let elapsed = sub64 at (Updated b); b1 = b\<lparr>Updated := at\<rparr>
         in if elapsed \<ge> 1000000 then (True, b1\<lparr>Credit := Cap b1, Fraction := 0\<rparr>)
            else
              (let numerator = add64 (mul64 (Rate b1) elapsed) (Fraction b1);
                   added = numerator div 1000000;
                   b2 = b1\<lparr>Fraction := numerator mod 1000000\<rparr>
               in if added \<ge> sub64 (Cap b2) (Credit b2) then (True, b2\<lparr>Credit := Cap b2, Fraction := 0\<rparr>)
                  else (True, b2\<lparr>Credit := add64 (Credit b2) added\<rparr>))))"

section \<open>Budget and policy\<close>

record OrdinaryServiceMetadata =
  AcceptedAtMicroseconds :: nat
  Origin :: nat
  Protected :: bool

record OrdinaryServiceBudget =
  Owner :: nat
  BudgetMessages :: OrdinarySourceBucket
  BudgetBytes :: OrdinarySourceBucket
  Normal :: bool

definition OrdinaryServiceBudget :: "nat \<Rightarrow> OrdinaryServiceBudget" where
  "OrdinaryServiceBudget thread =
     \<lparr>Owner = thread, BudgetMessages = OrdinarySourceBucket 512 128,
      BudgetBytes = OrdinarySourceBucket 262144 163840, Normal = True\<rparr>"

definition SetNormal :: "nat \<Rightarrow> bool \<Rightarrow> OrdinaryServiceBudget \<Rightarrow> bool \<times> OrdinaryServiceBudget" where
  "SetNormal thread v g = (if Owner g \<noteq> thread then (False, g) else (True, g\<lparr>Normal := v\<rparr>))"

text \<open>\<open>Global\<close> is the address of the budget, \<open>None\<close> the null pointer.\<close>

record OrdinaryServicePolicy =
  Global :: "nat option"
  PolicyMessages :: OrdinarySourceBucket
  PolicyBytes :: OrdinarySourceBucket
  Ready :: bool

definition OrdinaryServicePolicy :: "nat option \<Rightarrow> OrdinaryServicePolicy" where
  "OrdinaryServicePolicy global =
     \<lparr>Global = global, PolicyMessages = OrdinarySourceBucket 64 16,
      PolicyBytes = OrdinarySourceBucket 32768 20480, Ready = False\<rparr>"

definition OnOwnerThread :: "nat \<Rightarrow> OrdinaryServicePolicy \<Rightarrow> OrdinaryServiceBudget \<Rightarrow> bool" where
  "OnOwnerThread thread p g \<longleftrightarrow> Global p \<noteq> None \<and> Owner g = thread"

definition SetReady :: "nat \<Rightarrow> bool \<Rightarrow> OrdinaryServicePolicy \<Rightarrow> OrdinaryServiceBudget \<Rightarrow> bool \<times> OrdinaryServicePolicy" where
  "SetReady thread v p g = (if \<not> OnOwnerThread thread p g then (False, p) else (True, p\<lparr>Ready := v\<rparr>))"

type_synonym pb = "OrdinaryServicePolicy \<times> OrdinaryServiceBudget"

definition AdvanceBuckets :: "nat \<Rightarrow> pb \<Rightarrow> bool \<times> pb" where
  "AdvanceBuckets at pg =
     (let (p, g) = pg; (ok1, pm) = Advance at (PolicyMessages p); p1 = p\<lparr>PolicyMessages := pm\<rparr>
      in if \<not> ok1 then (False, p1, g)
         else let (ok2, pb) = Advance at (PolicyBytes p1); p2 = p1\<lparr>PolicyBytes := pb\<rparr>
         in if \<not> ok2 then (False, p2, g)
         else let (ok3, gm) = Advance at (BudgetMessages g); g1 = g\<lparr>BudgetMessages := gm\<rparr>
         in if \<not> ok3 then (False, p2, g1)
         else let (ok4, gb) = Advance at (BudgetBytes g1) in (ok4, p2, g1\<lparr>BudgetBytes := gb\<rparr>))"

definition Prepare :: "nat \<Rightarrow> nat \<Rightarrow> nat \<Rightarrow> nat \<Rightarrow> pb \<Rightarrow> OrdinaryServiceMetadata \<times> pb" where
  "Prepare thread completeBytes origin at pg =
     (let result = \<lparr>AcceptedAtMicroseconds = at, Origin = origin, Protected = False\<rparr>
      in if \<not> OnOwnerThread thread (fst pg) (snd pg) \<or> \<not> Ready (fst pg) \<or> \<not> Normal (snd pg) \<or>
            completeBytes = 0 \<or> origin > 6 then (result, pg)
         else (case AdvanceBuckets at pg of
             (False, pg') \<Rightarrow> (result, pg')
           | (True, p, g) \<Rightarrow>
               (result\<lparr>Protected := Credit (PolicyMessages p) \<noteq> 0 \<and> Credit (BudgetMessages g) \<noteq> 0 \<and>
                  completeBytes \<le> Credit (PolicyBytes p) \<and> completeBytes \<le> Credit (BudgetBytes g)\<rparr>, p, g)))"

definition spend :: "nat \<Rightarrow> OrdinarySourceBucket \<Rightarrow> OrdinarySourceBucket" where
  "spend n b = b\<lparr>Credit := sub64 (Credit b) n\<rparr>"

definition Commit :: "nat \<Rightarrow> nat \<Rightarrow> OrdinaryServiceMetadata \<Rightarrow> pb \<Rightarrow> bool \<times> pb" where
  "Commit thread completeBytes accepted pg =
     (let (p, g) = pg
      in if AcceptedAtMicroseconds accepted = 0 \<or> Origin accepted > 6 \<or> completeBytes = 0 then (False, pg)
         else if \<not> Protected accepted then (True, pg)
         else if \<not> OnOwnerThread thread p g then (False, pg)
         else if Credit (PolicyMessages p) = 0 \<or> Credit (BudgetMessages g) = 0 \<or>
                 completeBytes > Credit (PolicyBytes p) \<or> completeBytes > Credit (BudgetBytes g) then (False, pg)
         else (True,
           p\<lparr>PolicyMessages := spend 1 (PolicyMessages p), PolicyBytes := spend completeBytes (PolicyBytes p)\<rparr>,
           g\<lparr>BudgetMessages := spend 1 (BudgetMessages g), BudgetBytes := spend completeBytes (BudgetBytes g)\<rparr>))"

definition Accept :: "nat \<Rightarrow> nat \<Rightarrow> nat \<Rightarrow> nat \<Rightarrow> pb \<Rightarrow> OrdinaryServiceMetadata \<times> pb" where
  "Accept thread completeBytes origin at pg =
     (let (result, pg1) = Prepare thread completeBytes origin at pg;
          (ok, pg2) = Commit thread completeBytes result pg1
      in (if ok then result else result\<lparr>Protected := False\<rparr>, pg2))"

section \<open>The store\<close>

record service_store =
  Policies :: "nat \<Rightarrow> OrdinaryServicePolicy"
  Budgets :: "nat \<Rightarrow> OrdinaryServiceBudget"

definition store_update :: "nat \<Rightarrow> pb \<Rightarrow> service_store \<Rightarrow> service_store" where
  "store_update a pg s =
     (case Global (fst pg) of
        None \<Rightarrow> s\<lparr>Policies := (Policies s)(a := fst pg)\<rparr>
      | Some d \<Rightarrow> s\<lparr>Policies := (Policies s)(a := fst pg), Budgets := (Budgets s)(d := snd pg)\<rparr>)"

definition store_get :: "nat \<Rightarrow> service_store \<Rightarrow> pb" where
  "store_get a s =
     (let p = Policies s a
      in (p, case Global p of None \<Rightarrow> Budgets s 0 | Some d \<Rightarrow> Budgets s d))"

definition AcceptAt :: "nat \<Rightarrow> nat \<Rightarrow> nat \<Rightarrow> nat \<Rightarrow> nat \<Rightarrow> service_store \<Rightarrow> OrdinaryServiceMetadata \<times> service_store" where
  "AcceptAt thread a completeBytes origin at s =
     (let (m, pg) = Accept thread completeBytes origin at (store_get a s) in (m, store_update a pg s))"

section \<open>What a bucket does\<close>

text \<open>
  A bucket never holds more than its cap, its fraction is below one credit, and no product
  or sum of \<open>Advance\<close> wraps. \<open>bucket_level\<close> counts millionths of a credit.
\<close>

definition wf_bucket :: "OrdinarySourceBucket \<Rightarrow> bool" where
  "wf_bucket b \<longleftrightarrow> Credit b \<le> Cap b \<and> Cap b \<le> Rate b \<and> Rate b \<le> 262144 \<and> Fraction b < 1000000 \<and>
     (Credit b = Cap b \<longrightarrow> Fraction b = 0) \<and> Updated b \<le> u64_max"

definition bucket_level :: "OrdinarySourceBucket \<Rightarrow> nat" where
  "bucket_level b = Credit b * 1000000 + Fraction b"

lemma big64: "n \<le> 10 ^ 18 \<Longrightarrow> n \<le> u64_max"
  by (simp add: u64_max_def)

lemma Advance_short:
  assumes "wf_bucket b" "Updated b \<noteq> 0" "Updated b \<le> at" "at - Updated b < 1000000" "at \<le> u64_max"
  shows "Advance at b =
    (let numerator = Rate b * (at - Updated b) + Fraction b
     in (True, if numerator div 1000000 \<ge> Cap b - Credit b then b\<lparr>Updated := at, Credit := Cap b, Fraction := 0\<rparr>
         else b\<lparr>Updated := at, Fraction := numerator mod 1000000, Credit := Credit b + numerator div 1000000\<rparr>))"
proof -
  let ?e = "at - Updated b" and ?n = "Rate b * (at - Updated b) + Fraction b"
  have e: "sub64 at (Updated b) = ?e" using assms by (simp add: sub64_exact)
  have "Rate b * ?e \<le> 262144 * 1000000" using assms by (intro mult_mono) (auto simp: wf_bucket_def)
  moreover have "Fraction b < 1000000" "Credit b \<le> Cap b" "Cap b \<le> 262144" using assms(1) by (auto simp: wf_bucket_def)
  ultimately have n: "mul64 (Rate b) ?e = Rate b * ?e" "add64 (Rate b * ?e) (Fraction b) = ?n"
    "sub64 (Cap b) (Credit b) = Cap b - Credit b"
    and q: "?n div 1000000 < Cap b - Credit b \<Longrightarrow> add64 (Credit b) (?n div 1000000) = Credit b + ?n div 1000000"
    by (simp_all add: mul64_exact add64_exact sub64_exact big64)
  show ?thesis
    using assms q unfolding Advance_def Let_def e by (auto simp: n)
qed

text \<open>
  \<open>bucket_step c b b'\<close>: from \<open>b\<close> to \<open>b'\<close> at most \<open>c\<close> credits were spent and no more
  than the rate allows was added; it is what every operation does to every bucket.
\<close>

definition bucket_step :: "nat \<Rightarrow> OrdinarySourceBucket \<Rightarrow> OrdinarySourceBucket \<Rightarrow> bool" where
  "bucket_step c b b' \<longleftrightarrow> wf_bucket b' \<and> Rate b' = Rate b \<and> Cap b' = Cap b \<and> Updated b \<le> Updated b' \<and>
     (Updated b \<noteq> 0 \<longrightarrow> bucket_level b' + c * 1000000 \<le> bucket_level b + Rate b * (Updated b' - Updated b))"

lemma bucket_step_refl: "wf_bucket b \<Longrightarrow> bucket_step 0 b b"
  by (simp add: bucket_step_def)

lemma bucket_step_trans: "bucket_step c b b1 \<Longrightarrow> bucket_step d b1 b2 \<Longrightarrow> bucket_step (c + d) b b2"
proof -
  assume s: "bucket_step c b b1" "bucket_step d b1 b2"
  then have "Rate b * (Updated b1 - Updated b) + Rate b * (Updated b2 - Updated b1) = Rate b * (Updated b2 - Updated b)"
    by (simp add: bucket_step_def flip: add_mult_distrib2)
  moreover have "Updated b \<noteq> 0 \<Longrightarrow> Updated b1 \<noteq> 0" using s by (auto simp: bucket_step_def)
  ultimately show ?thesis using s by (auto simp: bucket_step_def add_mult_distrib)
qed

lemma wf_bucket_level: "wf_bucket b \<Longrightarrow> bucket_level b \<le> Cap b * 1000000"
  by (cases "Credit b = Cap b") (auto simp: wf_bucket_def bucket_level_def)

lemma Advance_step:
  assumes "wf_bucket b" "at \<le> u64_max" "Advance at b = (ok, b')"
  shows "bucket_step 0 b b'"
proof -
  consider "at = 0 \<or> (Updated b \<noteq> 0 \<and> at < Updated b)" | "at \<noteq> 0" "Updated b = 0"
    | "Updated b \<noteq> 0" "Updated b \<le> at" "at - Updated b < 1000000" | "Updated b \<noteq> 0" "Updated b \<le> at" "1000000 \<le> at - Updated b"
    by linarith
  then show ?thesis
  proof cases
    case 1
    then show ?thesis using assms by (simp add: Advance_def bucket_step_refl)
  next
    case 2
    then show ?thesis using assms by (auto simp: Advance_def bucket_step_def wf_bucket_def)
  next
    case 3
    let ?n = "Rate b * (at - Updated b) + Fraction b"
    have "b' = (if ?n div 1000000 \<ge> Cap b - Credit b then b\<lparr>Updated := at, Credit := Cap b, Fraction := 0\<rparr>
         else b\<lparr>Updated := at, Fraction := ?n mod 1000000, Credit := Credit b + ?n div 1000000\<rparr>)"
      using Advance_short [OF assms(1) 3 assms(2)] assms(3) by (simp add: Let_def)
    moreover have "?n div 1000000 * 1000000 + ?n mod 1000000 = ?n" by simp
    moreover have "Cap b - Credit b \<le> ?n div 1000000 \<Longrightarrow> (Cap b - Credit b) * 1000000 \<le> ?n"
      by (metis div_times_less_eq_dividend le_trans mult_le_mono1)
    ultimately show ?thesis
      using 3 assms(1,2) by (auto simp: bucket_step_def wf_bucket_def bucket_level_def add_mult_distrib diff_mult_distrib)
  next
    case 4
    then have "b' = b\<lparr>Updated := at, Credit := Cap b, Fraction := 0\<rparr>"
      using assms by (simp add: Advance_def Let_def sub64_exact)
    moreover have "Cap b * 1000000 \<le> Rate b * (at - Updated b)"
      using 4 assms(1) by (intro mult_le_mono) (auto simp: wf_bucket_def)
    ultimately show ?thesis
      using 4 assms(1,2) by (auto simp: bucket_step_def wf_bucket_def bucket_level_def)
  qed
qed

lemma spend_step:
  assumes "wf_bucket b" "n \<le> Credit b"
  shows "bucket_step n b (spend n b)"
proof -
  have "Credit b \<le> u64_max" using assms(1) by (auto simp: wf_bucket_def intro: big64)
  then have "sub64 (Credit b) n = Credit b - n" using assms(2) by (simp add: sub64_exact)
  then show ?thesis
    using assms by (auto simp: bucket_step_def spend_def wf_bucket_def bucket_level_def diff_mult_distrib)
qed

section \<open>What accepting a message does to the four buckets\<close>

definition wf_pb :: "pb \<Rightarrow> bool" where
  "wf_pb pg \<longleftrightarrow> wf_bucket (PolicyMessages (fst pg)) \<and> wf_bucket (PolicyBytes (fst pg)) \<and>
     wf_bucket (BudgetMessages (snd pg)) \<and> wf_bucket (BudgetBytes (snd pg))"

definition pb_step :: "nat \<Rightarrow> nat \<Rightarrow> pb \<Rightarrow> pb \<Rightarrow> bool" where
  "pb_step msgs bytes pg pg' \<longleftrightarrow>
     bucket_step msgs (PolicyMessages (fst pg)) (PolicyMessages (fst pg')) \<and>
     bucket_step bytes (PolicyBytes (fst pg)) (PolicyBytes (fst pg')) \<and>
     bucket_step msgs (BudgetMessages (snd pg)) (BudgetMessages (snd pg')) \<and>
     bucket_step bytes (BudgetBytes (snd pg)) (BudgetBytes (snd pg')) \<and> Global (fst pg') = Global (fst pg)"

lemma pb_step_refl: "wf_pb pg \<Longrightarrow> pb_step 0 0 pg pg"
  by (simp add: pb_step_def wf_pb_def bucket_step_refl)

lemma pb_step_trans: "pb_step m n pg pg1 \<Longrightarrow> pb_step m' n' pg1 pg2 \<Longrightarrow> pb_step (m + m') (n + n') pg pg2"
  by (auto simp: pb_step_def intro: bucket_step_trans)

lemma pb_step_wf: "pb_step m n pg pg' \<Longrightarrow> wf_pb pg'"
  by (simp add: pb_step_def wf_pb_def bucket_step_def)

lemma AdvanceBuckets_step:
  assumes "wf_pb pg" "at \<le> u64_max" "AdvanceBuckets at pg = (ok, pg')"
  shows "pb_step 0 0 pg pg'"
  using assms Advance_step [OF _ assms(2)]
  by (auto simp: AdvanceBuckets_def Let_def pb_step_def wf_pb_def bucket_step_refl split: prod.splits if_splits)

lemma Prepare_step:
  assumes "wf_pb pg" "at \<le> u64_max" "Prepare thread n origin at pg = (m, pg')"
  shows "pb_step 0 0 pg pg'"
  using assms AdvanceBuckets_step [OF assms(1,2)]
  by (auto simp: Prepare_def Let_def pb_step_refl split: if_splits prod.splits bool.splits)

lemma Commit_step:
  assumes "wf_pb pg" "Commit thread n m pg = (ok, pg')"
  shows "pb_step (if ok \<and> Protected m then 1 else 0) (if ok \<and> Protected m then n else 0) pg pg'"
proof (cases "ok \<and> Protected m")
  case True
  then show ?thesis
    using assms by (auto simp: Commit_def pb_step_def wf_pb_def intro!: spend_step split: prod.splits if_splits)
next
  case False
  then have "pg' = pg" using assms by (auto simp: Commit_def split: prod.splits if_splits)
  then show ?thesis using False pb_step_refl [OF assms(1)] by (simp only: if_False)
qed

lemma Accept_step:
  assumes "wf_pb pg" "at \<le> u64_max" "Accept thread n origin at pg = (m, pg')"
  shows "pb_step (if Protected m then 1 else 0) (if Protected m then n else 0) pg pg'"
proof -
  obtain r pg1 ok where p: "Prepare thread n origin at pg = (r, pg1)" "Commit thread n r pg1 = (ok, pg')"
    and m: "m = (if ok then r else r\<lparr>Protected := False\<rparr>)"
    using assms(3) by (auto simp: Accept_def split: prod.splits)
  have "Protected m \<longleftrightarrow> ok \<and> Protected r" using m by simp
  with pb_step_trans [OF Prepare_step [OF assms(1,2) p(1)] Commit_step [OF pb_step_wf [OF Prepare_step [OF assms(1,2) p(1)]] p(2)]]
  show ?thesis by simp
qed

section \<open>The envelope over all connections\<close>

datatype accept_event = AcceptEvent (EvThread: nat) (EvPolicy: nat) (EvBytes: nat) (EvOrigin: nat) (EvAt: u64)

definition run_event :: "accept_event \<Rightarrow> service_store \<Rightarrow> OrdinaryServiceMetadata \<times> service_store" where
  "run_event e s = AcceptAt (EvThread e) (EvPolicy e) (EvBytes e) (EvOrigin e) (unat (EvAt e)) s"

definition exec_event :: "accept_event \<Rightarrow> service_store \<Rightarrow> service_store" where
  "exec_event e s = snd (run_event e s)"

definition policy_messages :: "nat \<Rightarrow> accept_event \<Rightarrow> service_store \<Rightarrow> nat" where
  "policy_messages a e s = (if Protected (fst (run_event e s)) \<and> EvPolicy e = a then 1 else 0)"

definition policy_bytes :: "nat \<Rightarrow> accept_event \<Rightarrow> service_store \<Rightarrow> nat" where
  "policy_bytes a e s = policy_messages a e s * EvBytes e"

definition budget_messages :: "nat \<Rightarrow> accept_event \<Rightarrow> service_store \<Rightarrow> nat" where
  "budget_messages d e s =
     (if Protected (fst (run_event e s)) \<and> Global (Policies s (EvPolicy e)) = Some d then 1 else 0)"

definition budget_bytes :: "nat \<Rightarrow> accept_event \<Rightarrow> service_store \<Rightarrow> nat" where
  "budget_bytes d e s = budget_messages d e s * EvBytes e"

definition wf_store :: "service_store \<Rightarrow> bool" where
  "wf_store s \<longleftrightarrow> (\<forall>a. wf_bucket (PolicyMessages (Policies s a)) \<and> wf_bucket (PolicyBytes (Policies s a))) \<and>
     (\<forall>d. wf_bucket (BudgetMessages (Budgets s d)) \<and> wf_bucket (BudgetBytes (Budgets s d)))"

lemma u64_le: "unat (w :: u64) \<le> u64_max"
  using unsigned_less [of w, where 'a = nat] by (simp add: u64_max_def)

lemma run_event_step:
  assumes "wf_store s"
  shows "bucket_step (policy_messages a e s) (PolicyMessages (Policies s a)) (PolicyMessages (Policies (exec_event e s) a))"
    "bucket_step (policy_bytes a e s) (PolicyBytes (Policies s a)) (PolicyBytes (Policies (exec_event e s) a))"
    "bucket_step (budget_messages d e s) (BudgetMessages (Budgets s d)) (BudgetMessages (Budgets (exec_event e s) d))"
    "bucket_step (budget_bytes d e s) (BudgetBytes (Budgets s d)) (BudgetBytes (Budgets (exec_event e s) d))"
proof -
  obtain p g where pg: "store_get (EvPolicy e) s = (p, g)" by fastforce
  obtain m p' g' where acc: "Accept (EvThread e) (EvBytes e) (EvOrigin e) (unat (EvAt e)) (p, g) = (m, p', g')"
    by (metis prod.exhaust)
  have run: "run_event e s = (m, store_update (EvPolicy e) (p', g') s)"
    by (simp add: run_event_def AcceptAt_def pg acc)
  have p: "p = Policies s (EvPolicy e)" "Global p = Some d \<Longrightarrow> g = Budgets s d" for d
    using pg by (auto simp: store_get_def Let_def split: option.splits)
  have "wf_pb (p, g)" using assms pg by (auto simp: wf_pb_def wf_store_def store_get_def Let_def split: option.splits)
  from Accept_step [OF this u64_le acc]
  have st: "pb_step (if Protected m then 1 else 0) (if Protected m then EvBytes e else 0) (p, g) (p', g')" .
  have "Global p = None \<Longrightarrow> \<not> Protected m"
    using acc by (auto simp: Accept_def Prepare_def Commit_def OnOwnerThread_def Let_def split: prod.splits if_splits)
  then show "bucket_step (policy_messages a e s) (PolicyMessages (Policies s a)) (PolicyMessages (Policies (exec_event e s) a))"
    "bucket_step (policy_bytes a e s) (PolicyBytes (Policies s a)) (PolicyBytes (Policies (exec_event e s) a))"
    "bucket_step (budget_messages d e s) (BudgetMessages (Budgets s d)) (BudgetMessages (Budgets (exec_event e s) d))"
    "bucket_step (budget_bytes d e s) (BudgetBytes (Budgets s d)) (BudgetBytes (Budgets (exec_event e s) d))"
    using st assms p
    by (auto simp: exec_event_def run store_update_def pb_step_def policy_messages_def policy_bytes_def
        budget_messages_def budget_bytes_def wf_store_def bucket_step_refl split: option.splits)
qed

lemma run_event_wf: "wf_store s \<Longrightarrow> wf_store (exec_event e s)"
  using run_event_step unfolding wf_store_def bucket_step_def by blast

text \<open>The four kinds of bucket of the model, each as an instance of the token-bucket contract.\<close>

definition started :: "(service_store \<Rightarrow> OrdinarySourceBucket) \<Rightarrow> nat \<Rightarrow> service_store \<Rightarrow> bool" where
  "started f rate s \<longleftrightarrow> wf_store s \<and> Updated (f s) \<noteq> 0 \<and> Rate (f s) = rate"

lemma token_bucket_store:
  assumes step: "\<And>e s. wf_store s \<Longrightarrow> bucket_step (charge e s) (f s) (f (exec_event e s))"
  shows "token_bucket (\<lambda>s. bucket_level (f s)) (\<lambda>s. Updated (f s)) rate (started f rate) exec_event
    (\<lambda>e s. charge e s * 1000000)"
proof
  fix s e
  assume s: "started f rate s"
  with step [of s e] have "bucket_step (charge e s) (f s) (f (exec_event e s))" by (simp add: started_def)
  with s show "started f rate (exec_event e s)" "Updated (f s) \<le> Updated (f (exec_event e s))"
    "bucket_level (f (exec_event e s)) + charge e s * 1000000 \<le>
       bucket_level (f s) + rate * (Updated (f (exec_event e s)) - Updated (f s))"
    by (auto simp: started_def bucket_step_def run_event_wf)
qed

interpretation pm: token_bucket "\<lambda>s. bucket_level (PolicyMessages (Policies s a))"
    "\<lambda>s. Updated (PolicyMessages (Policies s a))" rate "started (\<lambda>s. PolicyMessages (Policies s a)) rate" exec_event
    "\<lambda>e s. policy_messages a e s * 1000000" for a rate
  by (rule token_bucket_store) (rule run_event_step)

interpretation pby: token_bucket "\<lambda>s. bucket_level (PolicyBytes (Policies s a))"
    "\<lambda>s. Updated (PolicyBytes (Policies s a))" rate "started (\<lambda>s. PolicyBytes (Policies s a)) rate" exec_event
    "\<lambda>e s. policy_bytes a e s * 1000000" for a rate
  by (rule token_bucket_store) (rule run_event_step)

interpretation bm: token_bucket "\<lambda>s. bucket_level (BudgetMessages (Budgets s d))"
    "\<lambda>s. Updated (BudgetMessages (Budgets s d))" rate "started (\<lambda>s. BudgetMessages (Budgets s d)) rate" exec_event
    "\<lambda>e s. budget_messages d e s * 1000000" for d rate
  by (rule token_bucket_store) (rule run_event_step)

interpretation bby: token_bucket "\<lambda>s. bucket_level (BudgetBytes (Budgets s d))"
    "\<lambda>s. Updated (BudgetBytes (Budgets s d))" rate "started (\<lambda>s. BudgetBytes (Budgets s d)) rate" exec_event
    "\<lambda>e s. budget_bytes d e s * 1000000" for d rate
  by (rule token_bucket_store) (rule run_event_step)

lemma total_charge_scale: "total_charge (\<lambda>e s. c e s * k) exec es s = total_charge c exec es s * k"
  by (induction es arbitrary: s) (simp_all add: add_mult_distrib)

section \<open>Stores made by the constructors\<close>

definition has_shape :: "nat \<Rightarrow> nat \<Rightarrow> OrdinarySourceBucket \<Rightarrow> bool" where
  "has_shape rate cap b \<longleftrightarrow> wf_bucket b \<and> Rate b = rate \<and> Cap b = cap"

definition canonical_store :: "service_store \<Rightarrow> bool" where
  "canonical_store s \<longleftrightarrow>
     (\<forall>a. has_shape 64 16 (PolicyMessages (Policies s a)) \<and> has_shape 32768 20480 (PolicyBytes (Policies s a))) \<and>
     (\<forall>d. has_shape 512 128 (BudgetMessages (Budgets s d)) \<and> has_shape 262144 163840 (BudgetBytes (Budgets s d)))"

lemma bucket_step_shape: "bucket_step c b b' \<Longrightarrow> has_shape rate cap b \<Longrightarrow> has_shape rate cap b'"
  by (simp add: bucket_step_def has_shape_def)

lemma canonical_wf: "canonical_store s \<Longrightarrow> wf_store s"
  by (simp add: canonical_store_def wf_store_def has_shape_def)

lemma canonical_exec: "canonical_store s \<Longrightarrow> canonical_store (exec_event e s)"
  using run_event_step [OF canonical_wf] bucket_step_shape unfolding canonical_store_def by meson

lemma canonical_run: "canonical_store s \<Longrightarrow> canonical_store (fold exec_event es s)"
  by (induction es arbitrary: s) (auto intro: canonical_exec)

definition new_store :: "nat \<Rightarrow> (nat \<Rightarrow> nat option) \<Rightarrow> (nat \<Rightarrow> bool) \<Rightarrow> service_store" where
  "new_store thread global ready =
     \<lparr>Policies = (\<lambda>a. (OrdinaryServicePolicy (global a))\<lparr>Ready := ready a\<rparr>),
      Budgets = (\<lambda>d. OrdinaryServiceBudget thread)\<rparr>"

lemma canonical_new: "canonical_store (new_store thread global ready)"
  by (simp add: canonical_store_def new_store_def has_shape_def OrdinaryServicePolicy_def OrdinaryServiceBudget_def
      OrdinarySourceBucket_def wf_bucket_def)

lemmas new_store_eval = new_store_def exec_event_def run_event_def AcceptAt_def store_get_def store_update_def
  Accept_def Prepare_def AdvanceBuckets_def Advance_def Commit_def OnOwnerThread_def spend_def
  OrdinaryServicePolicy_def OrdinaryServiceBudget_def OrdinarySourceBucket_def

section \<open>Properties\<close>



text \<open>
  The same envelope holds for each connection by itself: its protected bytes in a
  window are at most 20480 plus 32768 per second and its protected messages at most 16 plus
  64 per second, whatever the other connections do.
\<close>

theorem connection_traffic_envelope:
  assumes "canonical_store s" and "t = fold exec_event es s"
    and "Updated (PolicyBytes (Policies s a)) \<noteq> 0" and "Updated (PolicyMessages (Policies s a)) \<noteq> 0"
  shows "total_charge (policy_bytes a) exec_event es s * 1000000 \<le> 20480 * 1000000 +
      32768 * (Updated (PolicyBytes (Policies t a)) - Updated (PolicyBytes (Policies s a))) \<and>
    total_charge (policy_messages a) exec_event es s * 1000000 \<le> 16 * 1000000 +
      64 * (Updated (PolicyMessages (Policies t a)) - Updated (PolicyMessages (Policies s a)))"
proof -
  have sh: "has_shape 32768 20480 (PolicyBytes (Policies s a))" "has_shape 64 16 (PolicyMessages (Policies s a))"
    using assms(1) by (auto simp: canonical_store_def)
  then have "bucket_level (PolicyBytes (Policies s a)) \<le> 20480 * 1000000"
    "bucket_level (PolicyMessages (Policies s a)) \<le> 16 * 1000000"
    using wf_bucket_level by (fastforce simp: has_shape_def)+
  moreover have "started (\<lambda>s. PolicyBytes (Policies s a)) 32768 s" "started (\<lambda>s. PolicyMessages (Policies s a)) 64 s"
    using sh assms canonical_wf by (auto simp: started_def has_shape_def)
  ultimately show ?thesis
    using pby.charge_bound [of a 32768 s es] pm.charge_bound [of a 64 s es] assms(2)
    by (auto simp: total_charge_scale)
qed

theorem connection_traffic_envelope_witness:
  "\<exists>s t. t = fold exec_event [AcceptEvent 0 0 20000 2 9] s \<and>
     total_charge (policy_messages 0) exec_event [AcceptEvent 0 0 20000 2 9] s * 1000000
       \<le> 16 * 1000000 + 64 * (Updated (PolicyMessages (Policies t 0)) - Updated (PolicyMessages (Policies s 0)))"
proof -
  let ?s = "exec_event (AcceptEvent 0 0 100 2 5) (new_store 0 (\<lambda>_. Some 0) (\<lambda>_. True))"
  have "canonical_store ?s" by (intro canonical_exec canonical_new)
  moreover have "Updated (PolicyBytes (Policies ?s 0)) \<noteq> 0" "Updated (PolicyMessages (Policies ?s 0)) \<noteq> 0"
    by (simp_all add: new_store_eval)
  ultimately show ?thesis
    using connection_traffic_envelope [OF _ refl, of ?s 0 "[AcceptEvent 0 0 20000 2 9]"] by blast
qed

end
