(* ===== verification/Scheduler.thy ===== *)
theory Scheduler imports ServicePolicy "HOL-Library.AList" "HOL-Library.Multiset" begin

text \<open>
  The outbound scheduler of src/network/Scheduler.cpp: six FIFO queues per connection, one
  per traffic class, byte and message limits, supersession of sequenced state, and the
  flush loop. The transport is a parameter: a function of the transport's state and the
  message. The clock reading and the thread of a call are arguments. Statistics that count
  events are natural numbers; byte and message totals, which the code subtracts, use the
  64-bit operations. The sampling of producer diagnostics has no effect on scheduling and
  is left out.
\<close>

section \<open>Results, budgets and statistics\<close>

definition NativeMaximumSchedulerQueuedReliableBytes :: nat where
  "NativeMaximumSchedulerQueuedReliableBytes = 256 * 1024 * 1024"

definition MaximumConsecutiveStructuralReplicationMessages :: nat where
  "MaximumConsecutiveStructuralReplicationMessages = 8"

definition MinimumQueuedMessageBytes :: nat where
  "MinimumQueuedMessageBytes = 1"

definition ReliableServiceEnvelopeBytes :: nat where
  "ReliableServiceEnvelopeBytes = 32"

datatype SchedulerSubmitStatus =
    SubmitAccepted | AcceptedWithSupersession | DroppedUnreliable | SubmitInvalidConnection | IntentRejected
  | ReliableBacklogExhausted

datatype SchedulerSubmitResult =
  SchedulerSubmitResult (SubmitStatus: SchedulerSubmitStatus) (SubmitDisconnect: "DisconnectInfo option")

definition SubmitResult_Accepted :: "SchedulerSubmitResult \<Rightarrow> bool" where
  "SubmitResult_Accepted r \<longleftrightarrow> SubmitStatus r = SubmitAccepted \<or> SubmitStatus r = AcceptedWithSupersession"

definition SubmitResult_IsValid :: "SchedulerSubmitResult \<Rightarrow> bool" where
  "SubmitResult_IsValid r =
     (if SubmitStatus r = ReliableBacklogExhausted
      then (case SubmitDisconnect r of
          None \<Rightarrow> False
        | Some d \<Rightarrow> DisconnectInfo_IsValid d \<and> Reason d = ResourceExhaustion)
      else SubmitDisconnect r = None)"

record SchedulerTickBudget =
  BudgetMaximumBytes :: nat
  BudgetMaximumMessages :: u32

definition TickBudget_IsValidFor :: "SchedulerTickBudget \<Rightarrow> NetworkLimits \<Rightarrow> bool" where
  "TickBudget_IsValidFor b l =
     (if \<not> NetworkLimits_IsValid l then False
      else
        (let largest = max (MaximumReliableMessageBytes l) (MaximumUnreliableMessageBytes l)
         in BudgetMaximumBytes b \<ge> largest \<and> BudgetMaximumBytes b \<le> MaximumSendBytesPerTick l \<and>
            BudgetMaximumMessages b > 0 \<and> BudgetMaximumMessages b \<le> MaximumMessagesPerTick l))"

definition FromNetworkLimits :: "NetworkLimits \<Rightarrow> SchedulerTickBudget" where
  "FromNetworkLimits l =
     (if \<not> NetworkLimits_IsValid l then \<lparr>BudgetMaximumBytes = 0, BudgetMaximumMessages = 0\<rparr>
      else \<lparr>BudgetMaximumBytes = MaximumSendBytesPerTick l, BudgetMaximumMessages = MaximumMessagesPerTick l\<rparr>)"

datatype SchedulerFlushStatus =
    Drained | BudgetLimited | TransportBackpressured | FlushInvalidConnection | InvalidBudget | TerminalFailure

record SchedulerFlushResult =
  FlushStatus :: SchedulerFlushStatus
  MessagesSubmitted :: nat
  BytesSubmitted :: nat
  FlushDisconnect :: "DisconnectInfo option"

definition FlushResult_IsValidFor :: "SchedulerFlushResult \<Rightarrow> SchedulerTickBudget \<Rightarrow> bool" where
  "FlushResult_IsValidFor r b =
     (if MessagesSubmitted r > unat (BudgetMaximumMessages b) \<or> BytesSubmitted r > BudgetMaximumBytes b then False
      else (case FlushStatus r of
          Drained \<Rightarrow> FlushDisconnect r = None
        | BudgetLimited \<Rightarrow> FlushDisconnect r = None
        | TransportBackpressured \<Rightarrow> FlushDisconnect r = None
        | FlushInvalidConnection \<Rightarrow> MessagesSubmitted r = 0 \<and> BytesSubmitted r = 0 \<and> FlushDisconnect r = None
        | InvalidBudget \<Rightarrow> MessagesSubmitted r = 0 \<and> BytesSubmitted r = 0 \<and> FlushDisconnect r = None
        | TerminalFailure \<Rightarrow> (case FlushDisconnect r of None \<Rightarrow> False | Some d \<Rightarrow> DisconnectInfo_IsValid d)))"

record SchedulerStatistics =
  IntentsAccepted :: nat
  IntentsRejected :: nat
  ReliableBacklogExhaustions :: nat
  UnreliableMessagesDroppedBeforeTransport :: nat
  SequencedStatesSuperseded :: nat
  MessagesSubmittedToTransport :: nat
  BatchesProduced :: nat
  BudgetLimitedFlushes :: nat
  TransportBackpressureEvents :: nat
  QueuedReliableBytes :: nat
  QueuedReliableMessages :: nat
  QueuedUnreliableBytes :: nat
  QueuedUnreliableMessages :: nat
  QueuedMessages :: nat

definition empty_statistics :: SchedulerStatistics where
  "empty_statistics =
     \<lparr>IntentsAccepted = 0, IntentsRejected = 0, ReliableBacklogExhaustions = 0,
      UnreliableMessagesDroppedBeforeTransport = 0, SequencedStatesSuperseded = 0,
      MessagesSubmittedToTransport = 0, BatchesProduced = 0, BudgetLimitedFlushes = 0, TransportBackpressureEvents = 0,
      QueuedReliableBytes = 0, QueuedReliableMessages = 0, QueuedUnreliableBytes = 0,
      QueuedUnreliableMessages = 0, QueuedMessages = 0\<rparr>"

definition MessageCountFitsQueuedBytes :: "nat \<Rightarrow> nat \<Rightarrow> bool" where
  "MessageCountFitsQueuedBytes messages bytes \<longleftrightarrow> messages \<le> bytes div MinimumQueuedMessageBytes"

definition Statistics_IsValidFor :: "SchedulerStatistics \<Rightarrow> NetworkLimits \<Rightarrow> bool" where
  "Statistics_IsValidFor t l =
     (if \<not> NetworkLimits_IsValid l then False
      else if QueuedReliableBytes t > MaximumQueuedReliableBytes l \<or>
         QueuedUnreliableBytes t > MaximumSendBytesPerTick l \<or>
         QueuedUnreliableMessages t > unat (MaximumMessagesPerTick l) \<or>
         \<not> MessageCountFitsQueuedBytes (QueuedReliableMessages t) (QueuedReliableBytes t) \<or>
         \<not> MessageCountFitsQueuedBytes (QueuedUnreliableMessages t) (QueuedUnreliableBytes t) \<or>
         QueuedReliableMessages t > u64_max - QueuedUnreliableMessages t \<or>
         QueuedMessages t \<noteq> add64 (QueuedReliableMessages t) (QueuedUnreliableMessages t) then False
      else IntentsAccepted t \<ge> MessagesSubmittedToTransport t \<and>
           IntentsRejected t \<ge> ReliableBacklogExhaustions t)"

primrec SchedulerTrafficPrecedence :: "TrafficClass \<Rightarrow> nat" where
  "SchedulerTrafficPrecedence Control = 0"
| "SchedulerTrafficPrecedence StructuralReplication = 1"
| "SchedulerTrafficPrecedence ReliableApplication = 2"
| "SchedulerTrafficPrecedence RealtimeState = 3"
| "SchedulerTrafficPrecedence EphemeralApplication = 4"
| "SchedulerTrafficPrecedence Background = 5"

section \<open>State\<close>

datatype SequencedQueueKey = SequencedQueueKey (KeyDomain: u8) (KeyChannel: u64) (KeyPublication: u64)

primrec GetSequencedQueueKey :: "MessageOrder \<Rightarrow> (SequencedQueueKey \<times> u64) option" where
  "GetSequencedQueueKey (RealtimeStateOrder c s) = Some (SequencedQueueKey 1 c 0, s)"
| "GetSequencedQueueKey (RemoteEventOrder c p s) = Some (SequencedQueueKey 2 c p, s)"
| "GetSequencedQueueKey NoOrder = None"
| "GetSequencedQueueKey (ReliableReplicationOrder _) = None"

record QueuedMessage = NetworkMessageIntent +
  OrdinaryService :: OrdinaryServiceMetadata

record ReliableServiceAcceptedBytes =
  AcceptedAll :: nat
  AcceptedStructural :: nat
  AcceptedGameplay :: nat

record ConnectionQueue =
  Limits :: NetworkLimits
  Queues :: "nat \<Rightarrow> QueuedMessage list"
  Statistics :: SchedulerStatistics
  ServiceAccepted :: ReliableServiceAcceptedBytes
  OrdinaryPolicy :: "nat option"
  ConsecutiveStructuralReplicationMessages :: nat
  Active :: bool

definition new_ConnectionQueue :: "NetworkLimits \<Rightarrow> ConnectionQueue" where
  "new_ConnectionQueue l =
     \<lparr>Limits = l, Queues = (\<lambda>_. []), Statistics = empty_statistics,
      ServiceAccepted = \<lparr>AcceptedAll = 0, AcceptedStructural = 0, AcceptedGameplay = 0\<rparr>,
      OrdinaryPolicy = None, ConsecutiveStructuralReplicationMessages = 0, Active = True\<rparr>"

text \<open>\<open>Connections\<close> is the map of the code as a list of pairs with distinct keys.\<close>

record NetworkScheduler =
  MaximumTotalQueuedReliableBytes :: nat
  TotalQueuedReliableBytes :: nat
  Connections :: "(ConnectionId \<times> ConnectionQueue) list"
  Service :: service_store

definition new_NetworkScheduler :: "nat \<Rightarrow> service_store \<Rightarrow> NetworkScheduler option" where
  "new_NetworkScheduler n s =
     (if n = 0 then None
      else Some \<lparr>MaximumTotalQueuedReliableBytes = n, TotalQueuedReliableBytes = 0, Connections = [], Service = s\<rparr>)"

text \<open>The six positions of the array \<open>Queues\<close>, in the order in which loops visit them.\<close>

definition queue_indices :: "nat list" where
  "queue_indices = [0..<6]"

lemma queue_indices [simp]: "i \<in> set queue_indices \<longleftrightarrow> i < 6" "distinct queue_indices"
  by (auto simp: queue_indices_def)

lemma find_index: "List.find P queue_indices = Some i \<Longrightarrow> i < 6 \<and> P i"
  by (metis find_Some_iff nth_mem queue_indices(1))

lemma find_no_index: "List.find P queue_indices = None \<longleftrightarrow> (\<forall>i < 6. \<not> P i)"
  by (auto simp: find_None_iff)

section \<open>Operations\<close>

definition stat :: "(SchedulerStatistics \<Rightarrow> SchedulerStatistics) \<Rightarrow> ConnectionQueue \<Rightarrow> ConnectionQueue" where
  "stat f c = c\<lparr>Statistics := f (Statistics c)\<rparr>"

definition RegisterConnection :: "ConnectionId \<Rightarrow> NetworkLimits \<Rightarrow> NetworkScheduler \<Rightarrow> bool \<times> NetworkScheduler" where
  "RegisterConnection i l st =
     (if \<not> ConnectionId_IsValid i \<or> \<not> NetworkLimits_IsValid l then (False, st)
      else if \<exists>(existing, queue) \<in> set (Connections st). ConnectionSlot existing = ConnectionSlot i \<and> Active queue
      then (False, st)
      else if map_of (Connections st) i \<noteq> None then (False, st)
      else (True, st\<lparr>Connections := Connections st @ [(i, new_ConnectionQueue l)]\<rparr>))"

text \<open>
  \<open>Queue\<close> appends to the deque of the traffic class and, for ordinary reliable traffic,
  asks the policy of the connection for protection. \<open>at\<close> is the acceptance clock.
\<close>

definition Queue :: "nat \<Rightarrow> nat \<Rightarrow> NetworkMessageIntent \<Rightarrow> ConnectionQueue \<times> service_store \<Rightarrow> ConnectionQueue \<times> service_store" where
  "Queue thread at m cs =
     (let (c, s) = cs; precedence = SchedulerTrafficPrecedence (Traffic m);
          c1 = (if Delivery m = ReliableOrdered
                then stat (\<lambda>t. t\<lparr>QueuedReliableMessages := add64 (QueuedReliableMessages t) 1\<rparr>) c
                else stat (\<lambda>t. t\<lparr>QueuedUnreliableMessages := add64 (QueuedUnreliableMessages t) 1\<rparr>) c);
          ordinary = Delivery m = ReliableOrdered \<and> Traffic m \<noteq> StructuralReplication;
          (metadata, s1) =
            (if ordinary then
               (case OrdinaryPolicy c1 of
                  Some a \<Rightarrow> AcceptAt thread a (length (Payload m) + ReliableServiceEnvelopeBytes) precedence at s
                | None \<Rightarrow> (\<lparr>AcceptedAtMicroseconds = at, Origin = precedence, Protected = False\<rparr>, s))
             else (\<lparr>AcceptedAtMicroseconds = 0, Origin = 6, Protected = False\<rparr>, s));
          q = NetworkMessageIntent.extend m \<lparr>OrdinaryService = metadata\<rparr>;
          c2 = c1\<lparr>Queues := (Queues c1)(precedence := Queues c1 precedence @ [q])\<rparr>
      in (stat (\<lambda>t. t\<lparr>QueuedMessages := add64 (QueuedMessages t) 1\<rparr>) c2, s1))"

definition Clear :: "ConnectionQueue \<times> nat \<Rightarrow> ConnectionQueue \<times> nat" where
  "Clear ct =
     (let (c, tot) = ct
      in (c\<lparr>Queues := (\<lambda>_. []),
            Statistics := (Statistics c)\<lparr>QueuedReliableBytes := 0, QueuedReliableMessages := 0,
              QueuedUnreliableBytes := 0, QueuedUnreliableMessages := 0, QueuedMessages := 0\<rparr>,
            ConsecutiveStructuralReplicationMessages := 0\<rparr>,
          sub64 tot (QueuedReliableBytes (Statistics c))))"

definition RejectUnreliable :: "ConnectionQueue \<Rightarrow> SchedulerSubmitResult \<times> ConnectionQueue" where
  "RejectUnreliable c =
     (SchedulerSubmitResult DroppedUnreliable None,
      stat (\<lambda>t. t\<lparr>IntentsRejected := IntentsRejected t + 1,
        UnreliableMessagesDroppedBeforeTransport := UnreliableMessagesDroppedBeforeTransport t + 1\<rparr>) c)"

text \<open>The first queued message, in the order of the queues, that carries a sequenced key.\<close>

definition has_key :: "SequencedQueueKey \<Rightarrow> QueuedMessage \<Rightarrow> bool" where
  "has_key k m \<longleftrightarrow> (case GetSequencedQueueKey (Order m) of None \<Rightarrow> False | Some (k', _) \<Rightarrow> k' = k)"

definition find_key :: "SequencedQueueKey \<Rightarrow> ConnectionQueue \<Rightarrow> (nat \<times> QueuedMessage list \<times> QueuedMessage \<times> QueuedMessage list) option" where
  "find_key k c =
     (case List.find (\<lambda>i. \<exists>m \<in> set (Queues c i). has_key k m) queue_indices of
        None \<Rightarrow> None
      | Some i \<Rightarrow> map_option (\<lambda>(before, m, after). (i, before, m, after)) (List.extract (has_key k) (Queues c i)))"

definition queued_sequence :: "QueuedMessage \<Rightarrow> u64" where
  "queued_sequence m = (case GetSequencedQueueKey (Order m) of None \<Rightarrow> 0 | Some (_, s) \<Rightarrow> s)"

type_synonym submit_state = "ConnectionQueue \<times> nat \<times> service_store"

definition SubmitReliable :: "nat \<Rightarrow> nat \<Rightarrow> NetworkMessageIntent \<Rightarrow> nat \<Rightarrow> submit_state \<Rightarrow> SchedulerSubmitResult \<times> submit_state" where
  "SubmitReliable thread at m maximumTotal cts =
     (let (c, tot, s) = cts; bytes = length (Payload m);
          completeBytes = bytes + ReliableServiceEnvelopeBytes
      in if bytes > sub64 (MaximumQueuedReliableBytes (Limits c)) (QueuedReliableBytes (Statistics c)) \<or>
            bytes > sub64 maximumTotal tot \<or>
            completeBytes > u64_max - AcceptedAll (ServiceAccepted c)
         then
           (let c1 = stat (\<lambda>t. t\<lparr>IntentsRejected := IntentsRejected t + 1,
                  ReliableBacklogExhaustions := ReliableBacklogExhaustions t + 1\<rparr>) c;
                (c2, total2) = Clear (c1, tot)
            in (SchedulerSubmitResult ReliableBacklogExhausted
                  (Some (DisconnectInfo ResourceExhaustion (ascii ''Reliable scheduler backlog exhausted''))),
                c2\<lparr>Active := False\<rparr>, total2, s))
         else
           (let (c1, s1) = Queue thread at m (c, s);
                a = ServiceAccepted c1;
                a1 = a\<lparr>AcceptedAll := AcceptedAll a + completeBytes\<rparr>;
                a2 = (if Traffic m = StructuralReplication
                      then a1\<lparr>AcceptedStructural := add64 (AcceptedStructural a1) completeBytes\<rparr>
                      else if Traffic m = ReliableApplication
                      then a1\<lparr>AcceptedGameplay := add64 (AcceptedGameplay a1) completeBytes\<rparr> else a1);
                c2 = stat (\<lambda>t. t\<lparr>QueuedReliableBytes := add64 (QueuedReliableBytes t) bytes,
                  IntentsAccepted := IntentsAccepted t + 1\<rparr>) (c1\<lparr>ServiceAccepted := a2\<rparr>)
            in (SchedulerSubmitResult SubmitAccepted None, c2, add64 tot bytes, s1)))"

definition AppendUnreliable :: "nat \<Rightarrow> nat \<Rightarrow> NetworkMessageIntent \<Rightarrow> ConnectionQueue \<times> service_store \<Rightarrow> ConnectionQueue \<times> service_store" where
  "AppendUnreliable thread at m cs =
     (let (c1, s1) = Queue thread at m cs
      in (stat (\<lambda>t. t\<lparr>QueuedUnreliableBytes := add64 (QueuedUnreliableBytes t) (length (Payload m)),
            IntentsAccepted := IntentsAccepted t + 1\<rparr>) c1, s1))"

definition SubmitFresh :: "nat \<Rightarrow> nat \<Rightarrow> NetworkMessageIntent \<Rightarrow> ConnectionQueue \<times> service_store \<Rightarrow>
    SchedulerSubmitResult \<times> ConnectionQueue \<times> service_store" where
  "SubmitFresh thread at m cs =
     (let (c, s) = cs
      in if QueuedUnreliableMessages (Statistics c) \<ge> unat (MaximumMessagesPerTick (Limits c)) \<or>
            length (Payload m) > sub64 (MaximumSendBytesPerTick (Limits c)) (QueuedUnreliableBytes (Statistics c))
         then (let (r, c1) = RejectUnreliable c in (r, c1, s))
         else (SchedulerSubmitResult SubmitAccepted None, AppendUnreliable thread at m (c, s)))"

definition SubmitUnreliable :: "nat \<Rightarrow> nat \<Rightarrow> NetworkMessageIntent \<Rightarrow> ConnectionQueue \<times> service_store \<Rightarrow>
    SchedulerSubmitResult \<times> ConnectionQueue \<times> service_store" where
  "SubmitUnreliable thread at m cs =
     (let (c, s) = cs; bytes = length (Payload m)
      in if Delivery m = UnreliableSequenced then
           (case GetSequencedQueueKey (Order m) of
              None \<Rightarrow> (let (r, c1) = RejectUnreliable c in (r, c1, s))
            | Some (k, sequence) \<Rightarrow>
                (case find_key k c of
                   None \<Rightarrow> SubmitFresh thread at m cs
                 | Some (i, before, existing, after) \<Rightarrow>
                     (let existingBytes = length (Payload existing)
                      in if sequence \<le> queued_sequence existing \<or>
                            bytes > sub64 (MaximumSendBytesPerTick (Limits c))
                              (sub64 (QueuedUnreliableBytes (Statistics c)) existingBytes)
                         then (let (r, c1) = RejectUnreliable c in (r, c1, s))
                         else
                           (let c1 = c\<lparr>Queues := (Queues c)(i := before @ after)\<rparr>;
                                c2 = stat (\<lambda>t. t\<lparr>QueuedUnreliableBytes := sub64 (QueuedUnreliableBytes t) existingBytes,
                                  QueuedUnreliableMessages := sub64 (QueuedUnreliableMessages t) 1,
                                  QueuedMessages := sub64 (QueuedMessages t) 1\<rparr>) c1;
                                (c3, s3) = AppendUnreliable thread at m (c2, s)
                            in (SchedulerSubmitResult AcceptedWithSupersession None,
                                stat (\<lambda>t. t\<lparr>SequencedStatesSuperseded := SequencedStatesSuperseded t + 1\<rparr>) c3, s3)))))
         else SubmitFresh thread at m cs)"

definition put_connection :: "ConnectionId \<Rightarrow> ConnectionQueue \<Rightarrow> NetworkScheduler \<Rightarrow> NetworkScheduler" where
  "put_connection i c st = st\<lparr>Connections := AList.update i c (Connections st)\<rparr>"

definition Submit :: "nat \<Rightarrow> nat \<Rightarrow> NetworkMessageIntent \<Rightarrow> NetworkScheduler \<Rightarrow> SchedulerSubmitResult \<times> NetworkScheduler" where
  "Submit thread at m st =
     (case map_of (Connections st) (Destination m) of
        None \<Rightarrow> (SchedulerSubmitResult SubmitInvalidConnection None, st)
      | Some c \<Rightarrow>
          if \<not> Active c then (SchedulerSubmitResult SubmitInvalidConnection None, st)
          else if \<not> IsNetworkMessageIntentValid m (Limits c)
          then (SchedulerSubmitResult IntentRejected None,
                put_connection (Destination m) (stat (\<lambda>t. t\<lparr>IntentsRejected := IntentsRejected t + 1\<rparr>) c) st)
          else if Delivery m = ReliableOrdered then
            (let (r, c1, tot, s1) =
               SubmitReliable thread at m (MaximumTotalQueuedReliableBytes st) (c, TotalQueuedReliableBytes st, Service st)
             in (r, (put_connection (Destination m) c1 st)\<lparr>TotalQueuedReliableBytes := tot, Service := s1\<rparr>))
          else
            (let (r, c1, s1) = SubmitUnreliable thread at m (c, Service st)
             in (r, (put_connection (Destination m) c1 st)\<lparr>Service := s1\<rparr>)))"

section \<open>Flushing\<close>

text \<open>
  \<open>SelectQueue\<close> is the choice at the head of the loop. Where the code would index past the
  last queue it is \<open>None\<close>; the accounting invariant shows that this does not happen while
  messages are queued.
\<close>

definition SelectQueue :: "ConnectionQueue \<Rightarrow> nat option" where
  "SelectQueue c =
     (if Queues c 0 \<noteq> [] then Some 0
      else if Queues c 1 \<noteq> [] \<and> Queues c 2 \<noteq> []
      then Some (if ConsecutiveStructuralReplicationMessages c \<ge> MaximumConsecutiveStructuralReplicationMessages
                 then 2 else 1)
      else List.find (\<lambda>i. Queues c i \<noteq> []) queue_indices)"

definition intent_of :: "QueuedMessage \<Rightarrow> NetworkMessageIntent" where
  "intent_of m = NetworkMessageIntent.truncate m"

definition next_streak :: "nat \<Rightarrow> nat \<Rightarrow> nat" where
  "next_streak i streak = (if i = 1 then if streak \<noteq> 0xffffffff then streak + 1 else streak
     else if i = 2 then 0 else streak)"

definition PopFront :: "nat \<Rightarrow> QueuedMessage \<Rightarrow> ConnectionQueue \<times> nat \<Rightarrow> ConnectionQueue \<times> nat" where
  "PopFront i m ct =
     (let (c, tot) = ct; bytes = length (Payload m);
          c1 = (if Delivery m = ReliableOrdered
                then stat (\<lambda>t. t\<lparr>QueuedReliableBytes := sub64 (QueuedReliableBytes t) bytes,
                       QueuedReliableMessages := sub64 (QueuedReliableMessages t) 1\<rparr>) c
                else stat (\<lambda>t. t\<lparr>QueuedUnreliableBytes := sub64 (QueuedUnreliableBytes t) bytes,
                       QueuedUnreliableMessages := sub64 (QueuedUnreliableMessages t) 1\<rparr>) c);
          total1 = (if Delivery m = ReliableOrdered then sub64 tot bytes else tot);
          c2 = stat (\<lambda>t. t\<lparr>QueuedMessages := sub64 (QueuedMessages t) 1,
                 MessagesSubmittedToTransport := MessagesSubmittedToTransport t + 1\<rparr>)
                 (c1\<lparr>Queues := (Queues c1)(i := tl (Queues c1 i))\<rparr>)
      in (c2\<lparr>ConsecutiveStructuralReplicationMessages :=
            next_streak i (ConsecutiveStructuralReplicationMessages c2)\<rparr>, total1))"

type_synonym 'w transport = "NetworkMessageIntent \<Rightarrow> 'w \<Rightarrow> TransportOperationResult \<times> 'w"

definition total_queued :: "ConnectionQueue \<Rightarrow> nat" where
  "total_queued c = (\<Sum>i \<leftarrow> queue_indices. length (Queues c i))"

lemma SelectQueue_lt: "SelectQueue c = Some i \<Longrightarrow> i < 6 \<and> Queues c i \<noteq> []"
  using find_index [of "\<lambda>i. Queues c i \<noteq> []" i] by (auto simp: SelectQueue_def split: if_splits)

lemma Queues_PopFront: "Queues (fst (PopFront i m (c, tot))) = (Queues c)(i := tl (Queues c i))"
  by (simp add: PopFront_def stat_def Let_def)

lemma sum_list_fun_upd:
  "distinct xs \<Longrightarrow> i \<in> set xs \<Longrightarrow> (\<Sum>j \<leftarrow> xs. g ((f(i := v)) j)) + g (f i) = (\<Sum>j \<leftarrow> xs. g (f j)) + (g v :: nat)"
proof (induction xs)
  case (Cons x xs)
  have "i \<notin> set xs \<Longrightarrow> (\<Sum>j \<leftarrow> xs. g ((f(i := v)) j)) = (\<Sum>j \<leftarrow> xs. g (f j))"
    by (rule arg_cong [where f = sum_list]) auto
  with Cons show ?case by auto
qed simp

lemma total_queued_PopFront:
  assumes "i < 6" "Queues c i = q # rest"
  shows "total_queued (fst (PopFront i m (c, tot))) + 1 = total_queued c"
  using sum_list_fun_upd [of "queue_indices" i length "Queues c" rest] assms
  by (simp add: total_queued_def Queues_PopFront)

function FlushLoop :: "'w transport \<Rightarrow> SchedulerTickBudget \<Rightarrow> SchedulerFlushResult \<Rightarrow> ConnectionQueue \<Rightarrow> nat \<Rightarrow> 'w \<Rightarrow>
    SchedulerFlushResult \<times> ConnectionQueue \<times> nat \<times> 'w" where
  "FlushLoop send budget result c tot w =
     (if QueuedMessages (Statistics c) = 0 then (result, c, tot, w)
      else (case SelectQueue c of
          None \<Rightarrow> (result, c, tot, w)
        | Some i \<Rightarrow>
            (let m = hd (Queues c i); bytes = length (Payload m)
             in if MessagesSubmitted result = unat (BudgetMaximumMessages budget) \<or>
                   bytes > BudgetMaximumBytes budget - BytesSubmitted result
                then (result\<lparr>FlushStatus := BudgetLimited\<rparr>,
                      stat (\<lambda>t. t\<lparr>BudgetLimitedFlushes := BudgetLimitedFlushes t + 1\<rparr>) c, tot, w)
                else (case send (intent_of m) w of (submission, w') \<Rightarrow>
                  if Status submission = WouldBlock
                  then (result\<lparr>FlushStatus := TransportBackpressured\<rparr>,
                        stat (\<lambda>t. t\<lparr>TransportBackpressureEvents := TransportBackpressureEvents t + 1\<rparr>) c, tot, w')
                  else if Status submission \<noteq> Succeeded
                  then (let (c1, total1) = Clear (c, tot)
                        in (result\<lparr>FlushStatus := TerminalFailure,
                              FlushDisconnect := Some (case TerminalDisconnect submission of
                                 Some d \<Rightarrow> d
                               | None \<Rightarrow> DisconnectInfo DisconnectTransportFailure
                                   (ascii ''Transport rejected scheduler submission''))\<rparr>,
                            c1\<lparr>Active := False\<rparr>, total1, w'))
                  else FlushLoop send budget
                         (result\<lparr>MessagesSubmitted := MessagesSubmitted result + 1,
                            BytesSubmitted := BytesSubmitted result + bytes\<rparr>)
                         (fst (PopFront i m (c, tot))) (snd (PopFront i m (c, tot))) w'))))"
  by pat_completeness auto
termination
proof (relation "measure (\<lambda>(send, budget, result, c, tot, w). total_queued c)", goal_cases)
  case (2 send budget result c tot w i m bytes sub w')
  then have "i < 6" "Queues c i \<noteq> []" using SelectQueue_lt by blast+
  then have "total_queued (fst (PopFront i m (c, tot))) + 1 = total_queued c"
    by (metis list.exhaust total_queued_PopFront)
  then show ?case by simp
qed simp

declare FlushLoop.simps [simp del]

definition Flush :: "'w transport \<Rightarrow> ConnectionId \<Rightarrow> SchedulerTickBudget \<Rightarrow> NetworkScheduler \<Rightarrow> 'w \<Rightarrow>
    SchedulerFlushResult \<times> NetworkScheduler \<times> 'w" where
  "Flush send i budget st w =
     (let result = \<lparr>FlushStatus = FlushInvalidConnection, MessagesSubmitted = 0, BytesSubmitted = 0, FlushDisconnect = None\<rparr>
      in case map_of (Connections st) i of
           None \<Rightarrow> (result, st, w)
         | Some c \<Rightarrow>
             if \<not> Active c then (result, st, w)
             else if \<not> TickBudget_IsValidFor budget (Limits c) then (result\<lparr>FlushStatus := InvalidBudget\<rparr>, st, w)
             else
               (let (r, c1, tot, w') =
                  FlushLoop send budget (result\<lparr>FlushStatus := Drained\<rparr>) c (TotalQueuedReliableBytes st) w
                in (r, (put_connection i c1 st)\<lparr>TotalQueuedReliableBytes := tot\<rparr>, w')))"

definition CancelConnection :: "ConnectionId \<Rightarrow> NetworkScheduler \<Rightarrow> bool \<times> NetworkScheduler" where
  "CancelConnection i st =
     (case map_of (Connections st) i of
        None \<Rightarrow> (False, st)
      | Some c \<Rightarrow>
          (True, st\<lparr>Connections := AList.delete i (Connections st),
             TotalQueuedReliableBytes := snd (Clear (c, TotalQueuedReliableBytes st))\<rparr>))"

definition GetStatistics :: "ConnectionId \<Rightarrow> NetworkScheduler \<Rightarrow> SchedulerStatistics option" where
  "GetStatistics i st = map_option Statistics (map_of (Connections st) i)"

text \<open>
  Stamping an accepted structural message, and the declaration of a policy. The thread
  test of the policy is made on the budget it points to.
\<close>

definition Activate :: "u64 \<Rightarrow> u64 \<Rightarrow> QueuedMessage \<Rightarrow> bool \<times> QueuedMessage" where
  "Activate token time m =
     (if token = 0 \<or> time = 0 \<or> ReliableRetirementToken m \<noteq> token \<or> ReliableGrantActivatedAtMicroseconds m \<noteq> 0
      then (False, m) else (True, m\<lparr>ReliableGrantActivatedAtMicroseconds := time\<rparr>))"

definition ActivateReliableGrant :: "ConnectionId \<Rightarrow> u64 \<Rightarrow> u64 \<Rightarrow> NetworkScheduler \<Rightarrow> bool \<times> NetworkScheduler" where
  "ActivateReliableGrant i token time st =
     (if \<not> ConnectionId_IsValid i \<or> token = 0 \<or> time = 0 then (False, st)
      else (case map_of (Connections st) i of
          None \<Rightarrow> (False, st)
        | Some c \<Rightarrow>
            if \<not> Active c then (False, st)
            else (case List.find (\<lambda>j. \<exists>m \<in> set (Queues c j). ReliableRetirementToken m = token) queue_indices of
                None \<Rightarrow> (False, st)
              | Some j \<Rightarrow>
                  (case List.extract (\<lambda>m. ReliableRetirementToken m = token) (Queues c j) of
                     None \<Rightarrow> (False, st)
                   | Some (before, m, after) \<Rightarrow>
                       (let (ok, m') = Activate token time m
                        in (ok, put_connection i (c\<lparr>Queues := (Queues c)(j := before @ m' # after)\<rparr>) st))))))"

definition DeclareOrdinaryPolicy :: "nat \<Rightarrow> ConnectionId \<Rightarrow> nat option \<Rightarrow> NetworkScheduler \<Rightarrow> bool \<times> NetworkScheduler" where
  "DeclareOrdinaryPolicy thread i policy st =
     (case (policy, map_of (Connections st) i) of
        (Some a, Some c) \<Rightarrow>
          if \<not> OnOwnerThread thread (fst (store_get a (Service st))) (snd (store_get a (Service st))) \<or> \<not> Active c \<or>
             (OrdinaryPolicy c \<noteq> None \<and> OrdinaryPolicy c \<noteq> Some a)
          then (False, st) else (True, put_connection i (c\<lparr>OrdinaryPolicy := Some a\<rparr>) st)
      | _ \<Rightarrow> (False, st))"

definition OldestProtectedOrdinary :: "ConnectionId \<Rightarrow> NetworkScheduler \<Rightarrow> nat option" where
  "OldestProtectedOrdinary i st =
     (case map_of (Connections st) i of
        None \<Rightarrow> None
      | Some c \<Rightarrow>
          fold (\<lambda>q oldest.
              (case oldest of
                 None \<Rightarrow> None
               | Some old \<Rightarrow>
                   (case List.find (\<lambda>m. Protected (OrdinaryService m)) q of
                      None \<Rightarrow> Some old
                    | Some m \<Rightarrow>
                        (let at = AcceptedAtMicroseconds (OrdinaryService m)
                         in if at = 0 then None else if old = 0 \<or> at < old then Some at else Some old))))
            (map (Queues c) queue_indices) (Some 0))"

definition Accepted :: "ConnectionId \<Rightarrow> NetworkScheduler \<Rightarrow> ReliableServiceAcceptedBytes option" where
  "Accepted i st = map_option ServiceAccepted (map_of (Connections st) i)"

section \<open>The accounting invariant of a connection\<close>

text \<open>
  The statistics are exact counts of what is queued. The queued messages are taken as a
  multiset, so that appending, erasing and popping are addition and removal of one element.
\<close>

definition qmset :: "(nat \<Rightarrow> QueuedMessage list) \<Rightarrow> QueuedMessage multiset" where
  "qmset Q = (\<Sum>i < 6. mset (Q i))"

definition reliable :: "'a NetworkMessageIntent_scheme \<Rightarrow> bool" where
  "reliable m \<longleftrightarrow> Delivery m = ReliableOrdered"

definition message_bytes :: "'a NetworkMessageIntent_scheme \<Rightarrow> nat" where
  "message_bytes m = length (Payload m)"

definition bytes_of :: "QueuedMessage multiset \<Rightarrow> nat" where
  "bytes_of A = (\<Sum>m \<in># A. message_bytes m)"

definition relset :: "QueuedMessage multiset \<Rightarrow> QueuedMessage multiset" where
  "relset A = filter_mset reliable A"

definition unrelset :: "QueuedMessage multiset \<Rightarrow> QueuedMessage multiset" where
  "unrelset A = filter_mset (\<lambda>m. \<not> reliable m) A"

definition accounts :: "SchedulerStatistics \<Rightarrow> QueuedMessage multiset \<Rightarrow> bool" where
  "accounts t A \<longleftrightarrow> QueuedReliableBytes t = bytes_of (relset A) \<and> QueuedReliableMessages t = size (relset A) \<and>
     QueuedUnreliableBytes t = bytes_of (unrelset A) \<and> QueuedUnreliableMessages t = size (unrelset A) \<and>
     QueuedMessages t = size A"

definition within :: "SchedulerStatistics \<Rightarrow> NetworkLimits \<Rightarrow> bool" where
  "within t l \<longleftrightarrow> QueuedReliableBytes t \<le> MaximumQueuedReliableBytes l \<and>
     QueuedUnreliableBytes t \<le> MaximumSendBytesPerTick l \<and>
     QueuedUnreliableMessages t \<le> unat (MaximumMessagesPerTick l)"

definition counted :: "SchedulerStatistics \<Rightarrow> bool" where
  "counted t \<longleftrightarrow> MessagesSubmittedToTransport t + QueuedMessages t \<le> IntentsAccepted t \<and>
     ReliableBacklogExhaustions t \<le> IntentsRejected t"

text \<open>
  A message in queue \<open>i\<close> belongs there, was valid for the limits, and carries no sequenced
  key if it is reliable; a key occurs at most once.
\<close>

definition disciplined :: "'a NetworkMessageIntent_scheme \<Rightarrow> bool" where
  "disciplined m \<longleftrightarrow> (reliable m \<longrightarrow> GetSequencedQueueKey (Order m) = None)"

definition message_ok :: "NetworkLimits \<Rightarrow> nat \<Rightarrow> QueuedMessage \<Rightarrow> bool" where
  "message_ok l i m \<longleftrightarrow> SchedulerTrafficPrecedence (Traffic m) = i \<and> IsNetworkMessageIntentValid (intent_of m) l \<and>
     disciplined m"

definition keys_unique :: "QueuedMessage multiset \<Rightarrow> bool" where
  "keys_unique A \<longleftrightarrow> (\<forall>k. size (filter_mset (has_key k) A) \<le> 1)"

definition conn_inv :: "ConnectionQueue \<Rightarrow> bool" where
  "conn_inv c \<longleftrightarrow> NetworkLimits_IsValid (Limits c) \<and> accounts (Statistics c) (qmset (Queues c)) \<and>
     within (Statistics c) (Limits c) \<and> counted (Statistics c) \<and>
     (\<forall>i < 6. \<forall>m \<in> set (Queues c i). message_ok (Limits c) i m) \<and> keys_unique (qmset (Queues c)) \<and>
     (\<not> Active c \<longrightarrow> qmset (Queues c) = {#})"

subsection \<open>Queues as a multiset\<close>

lemma qmset_update:
  assumes "i < 6"
  shows "qmset (Q(i := q)) + mset (Q i) = qmset Q + mset q"
proof -
  have "qmset (Q(i := q)) = mset q + (\<Sum>j \<in> {..<6} - {i}. mset (Q j))" for q
    unfolding qmset_def using assms by (subst sum.remove [of _ i]) auto
  from this [of q] this [of "Q i"] show ?thesis by (simp add: ac_simps)
qed

lemma qmset_snoc: "i < 6 \<Longrightarrow> qmset (Q(i := Q i @ [m])) = add_mset m (qmset Q)"
  using qmset_update [of i Q "Q i @ [m]"] by simp

lemma qmset_cut: "i < 6 \<Longrightarrow> Q i = before @ m # after \<Longrightarrow> qmset Q = add_mset m (qmset (Q(i := before @ after)))"
proof -
  assume i: "i < 6" "Q i = before @ m # after"
  have "add_mset m (qmset (Q(i := before @ after))) + mset (before @ after) = qmset Q + mset (before @ after)"
    using qmset_update [OF i(1), of Q "before @ after"] i(2) by simp
  then show ?thesis by (metis add_right_cancel)
qed

lemma qmset_pop: "i < 6 \<Longrightarrow> Q i \<noteq> [] \<Longrightarrow> qmset Q = add_mset (hd (Q i)) (qmset (Q(i := tl (Q i))))"
  using qmset_cut [of i Q "[]" "hd (Q i)" "tl (Q i)"] by simp

lemma qmset_Nil: "qmset (\<lambda>_. []) = {#}"
  by (simp add: qmset_def)

lemma qmset_member: "m \<in># qmset Q \<longleftrightarrow> (\<exists>i < 6. m \<in> set (Q i))"
proof -
  have "m \<in># (\<Sum>i < n. mset (Q i)) \<longleftrightarrow> (\<exists>i < n. m \<in> set (Q i))" for n
    by (induction n) (auto simp: less_Suc_eq)
  then show ?thesis by (simp only: qmset_def)
qed

lemma size_qmset: "size (qmset (Queues c)) = total_queued c"
  by (simp add: qmset_def total_queued_def size_multiset_sum queue_indices_def interv_sum_list_conv_sum_set_nat
      atLeast0LessThan)

lemma precedence_lt: "SchedulerTrafficPrecedence t < 6"
  by (cases t) simp_all

subsection \<open>One message more or less\<close>

lemma relset_add: "relset (add_mset m A) = (if reliable m then add_mset m (relset A) else relset A)"
  "unrelset (add_mset m A) = (if reliable m then unrelset A else add_mset m (unrelset A))"
  "bytes_of (add_mset m A) = message_bytes m + bytes_of A"
  by (simp_all add: relset_def unrelset_def bytes_of_def)

lemmas accounts_simps = accounts_def relset_add

lemma accounts_empty: "accounts t {#} \<longleftrightarrow> QueuedReliableBytes t = 0 \<and> QueuedReliableMessages t = 0 \<and>
    QueuedUnreliableBytes t = 0 \<and> QueuedUnreliableMessages t = 0 \<and> QueuedMessages t = 0"
  by (simp add: accounts_def relset_def unrelset_def bytes_of_def)

lemma message_ok_bytes: "message_ok l i m \<Longrightarrow> 0 < message_bytes m"
  by (auto simp: message_ok_def message_bytes_def IsNetworkMessageIntentValid_def ValidateIntent_def intent_of_def
      NetworkMessageIntent.truncate_def split: if_splits)

lemma size_le_bytes: "(\<forall>m \<in># A. 0 < message_bytes m) \<Longrightarrow> size A \<le> bytes_of A"
  by (induction A) (auto simp: bytes_of_def)

lemma size_split: "size A = size (relset A) + size (unrelset A)"
  unfolding relset_def unrelset_def by (metis multiset_partition size_union)

lemma valid_limits_small:
  assumes "NetworkLimits_IsValid l"
  shows "MaximumQueuedReliableBytes l \<le> 64 * 1024 * 1024" "MaximumSendBytesPerTick l \<le> 16 * 1024 * 1024"
    "unat (MaximumMessagesPerTick l) \<le> 4096"
  using assms by (simp_all add: NetworkLimits_IsValid_def native_limits word_le_nat_alt)

lemma conn_small:
  assumes "conn_inv c"
  shows "QueuedReliableBytes (Statistics c) \<le> 64 * 1024 * 1024"
    "QueuedReliableMessages (Statistics c) \<le> QueuedReliableBytes (Statistics c)"
    "QueuedUnreliableBytes (Statistics c) \<le> 16 * 1024 * 1024"
    "QueuedUnreliableMessages (Statistics c) \<le> QueuedUnreliableBytes (Statistics c)"
    "QueuedMessages (Statistics c) = QueuedReliableMessages (Statistics c) + QueuedUnreliableMessages (Statistics c)"
proof -
  have "\<forall>m \<in># qmset (Queues c). 0 < message_bytes m"
  proof
    fix m assume "m \<in># qmset (Queues c)"
    then obtain i where "i < 6" "m \<in> set (Queues c i)" by (auto simp: qmset_member)
    then have "message_ok (Limits c) i m" using assms by (simp add: conn_inv_def)
    then show "0 < message_bytes m" by (rule message_ok_bytes)
  qed
  then have "size (relset (qmset (Queues c))) \<le> bytes_of (relset (qmset (Queues c)))"
    "size (unrelset (qmset (Queues c))) \<le> bytes_of (unrelset (qmset (Queues c)))"
    by (auto simp: relset_def unrelset_def intro!: size_le_bytes)
  then show "QueuedReliableMessages (Statistics c) \<le> QueuedReliableBytes (Statistics c)"
    "QueuedUnreliableMessages (Statistics c) \<le> QueuedUnreliableBytes (Statistics c)"
    "QueuedMessages (Statistics c) = QueuedReliableMessages (Statistics c) + QueuedUnreliableMessages (Statistics c)"
    using assms size_split [of "qmset (Queues c)"] by (auto simp: conn_inv_def accounts_def)
  show "QueuedReliableBytes (Statistics c) \<le> 64 * 1024 * 1024" "QueuedUnreliableBytes (Statistics c) \<le> 16 * 1024 * 1024"
    using assms valid_limits_small [of "Limits c"] by (auto simp: conn_inv_def within_def)
qed

lemma conn_inv_statistics_valid: "conn_inv c \<Longrightarrow> Statistics_IsValidFor (Statistics c) (Limits c)"
  using conn_small [of c]
  by (auto simp: Statistics_IsValidFor_def conn_inv_def within_def counted_def MessageCountFitsQueuedBytes_def
      MinimumQueuedMessageBytes_def add64_exact u64_max_def)

lemma conn_inv_new: "NetworkLimits_IsValid l \<Longrightarrow> conn_inv (new_ConnectionQueue l)"
  by (simp add: conn_inv_def new_ConnectionQueue_def qmset_Nil accounts_empty empty_statistics_def within_def counted_def
      keys_unique_def)

subsection \<open>Operations on one connection\<close>

lemma Queue_result:
  assumes "Queue thread at m (c, s) = (c', s')"
  obtains md where "c' = c\<lparr>Queues := (Queues c)(SchedulerTrafficPrecedence (Traffic m) :=
        Queues c (SchedulerTrafficPrecedence (Traffic m)) @ [NetworkMessageIntent.extend m \<lparr>OrdinaryService = md\<rparr>]),
      Statistics := (Statistics c)
        \<lparr>QueuedReliableMessages := if reliable m then add64 (QueuedReliableMessages (Statistics c)) 1
            else QueuedReliableMessages (Statistics c),
         QueuedUnreliableMessages := if reliable m then QueuedUnreliableMessages (Statistics c)
            else add64 (QueuedUnreliableMessages (Statistics c)) 1,
         QueuedMessages := add64 (QueuedMessages (Statistics c)) 1\<rparr>\<rparr>"
  using assms
  by (auto simp: Queue_def Let_def stat_def reliable_def split: prod.splits if_splits option.splits)

lemma intent_of_extend [simp]: "intent_of (NetworkMessageIntent.extend m x) = m"
  by (simp add: intent_of_def NetworkMessageIntent.truncate_def NetworkMessageIntent.extend_def)

lemma extend_fields [simp]:
  "Traffic (NetworkMessageIntent.extend m x) = Traffic m" "Delivery (NetworkMessageIntent.extend m x) = Delivery m"
  "Payload (NetworkMessageIntent.extend m x) = Payload m" "Order (NetworkMessageIntent.extend m x) = Order m"
  by (simp_all add: NetworkMessageIntent.extend_def)

lemma extend_preds [simp]:
  "reliable (NetworkMessageIntent.extend m x) = reliable m"
  "message_bytes (NetworkMessageIntent.extend m x) = message_bytes m"
  "disciplined (NetworkMessageIntent.extend m x) = disciplined m"
  by (simp_all add: reliable_def message_bytes_def disciplined_def)

lemma conn_inv_stat:
  assumes "conn_inv c"
    and "QueuedReliableBytes t = QueuedReliableBytes (Statistics c)" "QueuedReliableMessages t = QueuedReliableMessages (Statistics c)"
      "QueuedUnreliableBytes t = QueuedUnreliableBytes (Statistics c)"
      "QueuedUnreliableMessages t = QueuedUnreliableMessages (Statistics c)" "QueuedMessages t = QueuedMessages (Statistics c)"
      "counted t"
  shows "conn_inv (c\<lparr>Statistics := t\<rparr>)"
  using assms by (simp add: conn_inv_def accounts_def within_def)

lemma RejectUnreliable_inv: "conn_inv c \<Longrightarrow> RejectUnreliable c = (r, c') \<Longrightarrow> conn_inv c'"
  by (auto simp: RejectUnreliable_def stat_def intro!: conn_inv_stat) (auto simp: conn_inv_def counted_def)

lemma Clear_inv:
  assumes "conn_inv c" "Clear (c, tot) = (c', tot')"
  shows "conn_inv c'" "qmset (Queues c') = {#}" "Active c' = Active c"
    "tot' = sub64 tot (QueuedReliableBytes (Statistics c))" "QueuedReliableBytes (Statistics c') = 0"
  using assms by (auto simp: Clear_def conn_inv_def qmset_Nil accounts_empty within_def counted_def keys_unique_def)

lemma Clear_deactivate_inv: "conn_inv c \<Longrightarrow> Clear (c, tot) = (c', tot') \<Longrightarrow> conn_inv (c'\<lparr>Active := False\<rparr>)"
  using Clear_inv [of c tot c' tot'] by (simp add: conn_inv_def)

text \<open>
  Appending a valid message keeps the invariant when its bytes are added to the total of
  its kind, the total fits, and no queued message has its key.
\<close>

definition append_ok :: "NetworkMessageIntent \<Rightarrow> ConnectionQueue \<Rightarrow> bool" where
  "append_ok m c \<longleftrightarrow> Active c \<and> IsNetworkMessageIntentValid m (Limits c) \<and> disciplined m \<and>
     (case GetSequencedQueueKey (Order m) of None \<Rightarrow> True | Some (k, _) \<Rightarrow> filter_mset (has_key k) (qmset (Queues c)) = {#}) \<and>
     (if reliable m then QueuedReliableBytes (Statistics c) + message_bytes m \<le> MaximumQueuedReliableBytes (Limits c)
      else QueuedUnreliableBytes (Statistics c) + message_bytes m \<le> MaximumSendBytesPerTick (Limits c) \<and>
        QueuedUnreliableMessages (Statistics c) < unat (MaximumMessagesPerTick (Limits c)))"

lemma append_inv:
  assumes inv: "conn_inv c" and ok: "append_ok m c" and q: "Queue thread at m (c, s) = (c1, s1)"
    and t: "t = (if reliable m
      then (Statistics c1)\<lparr>QueuedReliableBytes := add64 (QueuedReliableBytes (Statistics c1)) (message_bytes m)\<rparr>
      else (Statistics c1)\<lparr>QueuedUnreliableBytes := add64 (QueuedUnreliableBytes (Statistics c1)) (message_bytes m)\<rparr>)"
  shows "conn_inv (c1\<lparr>Statistics := t\<lparr>IntentsAccepted := IntentsAccepted t + 1\<rparr>\<rparr>)"
proof -
  let ?i = "SchedulerTrafficPrecedence (Traffic m)"
  from q obtain md where c1: "c1 = c\<lparr>Queues := (Queues c)(?i := Queues c ?i @ [NetworkMessageIntent.extend m \<lparr>OrdinaryService = md\<rparr>]),
      Statistics := (Statistics c)
        \<lparr>QueuedReliableMessages := if reliable m then add64 (QueuedReliableMessages (Statistics c)) 1
            else QueuedReliableMessages (Statistics c),
         QueuedUnreliableMessages := if reliable m then QueuedUnreliableMessages (Statistics c)
            else add64 (QueuedUnreliableMessages (Statistics c)) 1,
         QueuedMessages := add64 (QueuedMessages (Statistics c)) 1\<rparr>\<rparr>"
    by (rule Queue_result)
  let ?q = "NetworkMessageIntent.extend m \<lparr>OrdinaryService = md\<rparr>"
  have mset: "qmset (Queues c1) = add_mset ?q (qmset (Queues c))"
    using qmset_snoc [OF precedence_lt] by (simp add: c1)
  note small = conn_small [OF inv]
  have e: "add64 (QueuedReliableMessages (Statistics c)) 1 = QueuedReliableMessages (Statistics c) + 1"
    "add64 (QueuedUnreliableMessages (Statistics c)) 1 = QueuedUnreliableMessages (Statistics c) + 1"
    "add64 (QueuedMessages (Statistics c)) 1 = QueuedMessages (Statistics c) + 1"
    using small by (simp_all add: add64_exact u64_max_def)
  have b: "reliable m \<Longrightarrow> add64 (QueuedReliableBytes (Statistics c)) (message_bytes m) = QueuedReliableBytes (Statistics c) + message_bytes m"
    "\<not> reliable m \<Longrightarrow> add64 (QueuedUnreliableBytes (Statistics c)) (message_bytes m) = QueuedUnreliableBytes (Statistics c) + message_bytes m"
    using ok valid_limits_small [of "Limits c"] inv by (auto simp: append_ok_def conn_inv_def add64_exact u64_max_def)
  have keys: "keys_unique (add_mset ?q (qmset (Queues c)))"
    using inv ok by (auto simp: keys_unique_def conn_inv_def append_ok_def has_key_def split: option.splits)
  have "message_ok (Limits c) ?i ?q" using ok by (simp add: message_ok_def append_ok_def)
  then have msgs: "\<forall>i < 6. \<forall>x \<in> set (Queues c1 i). message_ok (Limits c) i x"
    using inv by (auto simp: c1 conn_inv_def)
  let ?c2 = "c1\<lparr>Statistics := t\<lparr>IntentsAccepted := IntentsAccepted t + 1\<rparr>\<rparr>"
  have st: "QueuedReliableBytes (Statistics ?c2) = QueuedReliableBytes (Statistics c) + (if reliable m then message_bytes m else 0)"
    "QueuedReliableMessages (Statistics ?c2) = QueuedReliableMessages (Statistics c) + (if reliable m then 1 else 0)"
    "QueuedUnreliableBytes (Statistics ?c2) = QueuedUnreliableBytes (Statistics c) + (if reliable m then 0 else message_bytes m)"
    "QueuedUnreliableMessages (Statistics ?c2) = QueuedUnreliableMessages (Statistics c) + (if reliable m then 0 else 1)"
    "QueuedMessages (Statistics ?c2) = QueuedMessages (Statistics c) + 1"
    using e b by (simp_all add: c1 t)
  have "accounts (Statistics ?c2) (qmset (Queues ?c2))"
    using inv unfolding conn_inv_def accounts_def st by (simp add: mset relset_add)
  moreover have "within (Statistics ?c2) (Limits ?c2)"
    using inv ok unfolding conn_inv_def within_def st append_ok_def by (auto simp: c1)
  moreover have "counted (Statistics ?c2)"
    using inv unfolding conn_inv_def counted_def st by (auto simp: c1 t)
  ultimately show ?thesis
    using inv ok keys msgs mset unfolding conn_inv_def by (simp add: c1 append_ok_def)
qed

text \<open>Taking one message out of a queue, with the totals of its kind reduced.\<close>

definition less_message :: "QueuedMessage \<Rightarrow> SchedulerStatistics \<Rightarrow> SchedulerStatistics \<Rightarrow> bool" where
  "less_message m t t' \<longleftrightarrow>
     QueuedReliableBytes t' = (if reliable m then sub64 (QueuedReliableBytes t) (message_bytes m) else QueuedReliableBytes t) \<and>
     QueuedReliableMessages t' = (if reliable m then sub64 (QueuedReliableMessages t) 1 else QueuedReliableMessages t) \<and>
     QueuedUnreliableBytes t' = (if reliable m then QueuedUnreliableBytes t else sub64 (QueuedUnreliableBytes t) (message_bytes m)) \<and>
     QueuedUnreliableMessages t' = (if reliable m then QueuedUnreliableMessages t else sub64 (QueuedUnreliableMessages t) 1) \<and>
     QueuedMessages t' = sub64 (QueuedMessages t) 1"

lemma cut_mset:
  assumes inv: "conn_inv c" and i: "i < 6" and q: "Queues c i = before @ m # after"
    and lm: "less_message m (Statistics c) t"
  shows "accounts t (qmset ((Queues c)(i := before @ after)))"
    "QueuedReliableBytes (Statistics c) = QueuedReliableBytes t + (if reliable m then message_bytes m else 0)"
    "QueuedUnreliableBytes (Statistics c) = QueuedUnreliableBytes t + (if reliable m then 0 else message_bytes m)"
    "QueuedUnreliableMessages (Statistics c) = QueuedUnreliableMessages t + (if reliable m then 0 else 1)"
    "QueuedMessages (Statistics c) = QueuedMessages t + 1"
proof -
  let ?A = "qmset ((Queues c)(i := before @ after))"
  have A: "qmset (Queues c) = add_mset m ?A" by (rule qmset_cut [where Q = "Queues c", OF i q])
  have acc: "accounts (Statistics c) (add_mset m ?A)" using inv by (simp add: conn_inv_def A)
  note small = conn_small [OF inv]
  have le: "QueuedReliableBytes (Statistics c) \<le> u64_max" "QueuedReliableMessages (Statistics c) \<le> u64_max"
    "QueuedUnreliableBytes (Statistics c) \<le> u64_max" "QueuedUnreliableMessages (Statistics c) \<le> u64_max"
    "QueuedMessages (Statistics c) \<le> u64_max"
    using small by (simp_all add: u64_max_def)
  have ge: "reliable m \<Longrightarrow> message_bytes m \<le> QueuedReliableBytes (Statistics c) \<and> 1 \<le> QueuedReliableMessages (Statistics c)"
    "\<not> reliable m \<Longrightarrow> message_bytes m \<le> QueuedUnreliableBytes (Statistics c) \<and> 1 \<le> QueuedUnreliableMessages (Statistics c)"
    "1 \<le> QueuedMessages (Statistics c)"
    using acc by (simp_all add: accounts_simps)
  have t: "QueuedReliableBytes t = QueuedReliableBytes (Statistics c) - (if reliable m then message_bytes m else 0)"
    "QueuedReliableMessages t = QueuedReliableMessages (Statistics c) - (if reliable m then 1 else 0)"
    "QueuedUnreliableBytes t = QueuedUnreliableBytes (Statistics c) - (if reliable m then 0 else message_bytes m)"
    "QueuedUnreliableMessages t = QueuedUnreliableMessages (Statistics c) - (if reliable m then 0 else 1)"
    "QueuedMessages t = QueuedMessages (Statistics c) - 1"
    using lm ge le by (simp_all add: less_message_def sub64_exact)
  show "accounts t ?A" using acc by (simp add: accounts_simps t)
  show "QueuedReliableBytes (Statistics c) = QueuedReliableBytes t + (if reliable m then message_bytes m else 0)"
    "QueuedUnreliableBytes (Statistics c) = QueuedUnreliableBytes t + (if reliable m then 0 else message_bytes m)"
    "QueuedUnreliableMessages (Statistics c) = QueuedUnreliableMessages t + (if reliable m then 0 else 1)"
    "QueuedMessages (Statistics c) = QueuedMessages t + 1"
    using ge by (simp_all add: t)
qed

lemma cut_inv:
  assumes inv: "conn_inv c" and i: "i < 6" and q: "Queues c i = before @ m # after"
    and lm: "less_message m (Statistics c) t" and cnt: "counted t"
  shows "conn_inv (c\<lparr>Queues := (Queues c)(i := before @ after), Statistics := t\<rparr>)"
proof -
  let ?A = "qmset ((Queues c)(i := before @ after))"
  have A: "qmset (Queues c) = add_mset m ?A" by (rule qmset_cut [where Q = "Queues c", OF i q])
  note cut = cut_mset [OF inv i q lm]
  have "within t (Limits c)" using inv cut(2-4) by (auto simp: conn_inv_def within_def)
  moreover have "size (filter_mset (has_key k) ?A) \<le> size (filter_mset (has_key k) (qmset (Queues c)))" for k
    by (simp add: A)
  then have "keys_unique ?A" using inv unfolding conn_inv_def keys_unique_def by (meson le_trans)
  moreover have "Active c" using inv A by (auto simp: conn_inv_def)
  moreover have "\<forall>j < 6. \<forall>x \<in> set (((Queues c)(i := before @ after)) j). message_ok (Limits c) j x"
    using inv q by (auto simp: conn_inv_def)
  ultimately show ?thesis
    using inv cut(1) cnt by (simp add: conn_inv_def)
qed

lemma find_key_cut:
  assumes "find_key k c = Some (i, before, m, after)"
  shows "i < 6" "Queues c i = before @ m # after" "has_key k m"
proof -
  let ?f = "List.find (\<lambda>i. \<exists>m \<in> set (Queues c i). has_key k m) queue_indices"
  obtain j where j: "?f = Some j"
    using assms unfolding find_key_def by (cases ?f) (simp_all only: option.case option.distinct)
  have "map_option (\<lambda>(before, m, after). (j, before, m, after)) (List.extract (has_key k) (Queues c j)) =
      Some (i, before, m, after)"
    using assms by (simp only: find_key_def j option.case)
  then have x: "List.extract (has_key k) (Queues c j) = Some (before, m, after)" "i = j"
    by (cases "List.extract (has_key k) (Queues c j)"; simp split: prod.splits)+
  show "i < 6" using find_index [OF j] x(2) by simp
  show "Queues c i = before @ m # after" "has_key k m" using extract_SomeE [OF x(1)] x(2) by blast+
qed

lemma find_key_None:
  assumes "find_key k c = None"
  shows "filter_mset (has_key k) (qmset (Queues c)) = {#}"
proof -
  have "\<forall>i < 6. \<not> (\<exists>m \<in> set (Queues c i). has_key k m)"
  proof (cases "List.find (\<lambda>i. \<exists>m \<in> set (Queues c i). has_key k m) queue_indices")
    case None
    then show ?thesis by (simp add: find_no_index)
  next
    case (Some j)
    then have "List.extract (has_key k) (Queues c j) = None" using assms by (simp add: find_key_def)
    then show ?thesis using find_index [OF Some] by (auto simp: extract_None_iff)
  qed
  then have "\<not> has_key k m" if "m \<in># qmset (Queues c)" for m using that by (auto simp: qmset_member)
  then show ?thesis by (metis filter_mset_False filter_mset_cong)
qed

lemma valid_unsequenced_key:
  assumes "IsNetworkMessageIntentValid m l" "Delivery m = UnreliableUnordered"
  shows "GetSequencedQueueKey (Order m) = None"
  using assms by (auto simp: IsNetworkMessageIntentValid_def ValidateIntent_def split: if_splits)

lemma AppendUnreliable_inv:
  assumes "conn_inv c" "append_ok m c" "\<not> reliable m" "AppendUnreliable thread at m (c, s) = (c', s')"
  shows "conn_inv c' \<and> Limits c' = Limits c \<and> QueuedReliableBytes (Statistics c') = QueuedReliableBytes (Statistics c)"
proof -
  obtain c1 s1 where q: "Queue thread at m (c, s) = (c1, s1)" by fastforce
  let ?t = "(Statistics c1)\<lparr>QueuedUnreliableBytes := add64 (QueuedUnreliableBytes (Statistics c1)) (message_bytes m)\<rparr>"
  have "c' = c1\<lparr>Statistics := ?t\<lparr>IntentsAccepted := IntentsAccepted ?t + 1\<rparr>\<rparr>"
    using assms(4) by (simp add: AppendUnreliable_def q stat_def message_bytes_def)
  moreover from append_inv [OF assms(1,2) q refl] assms(3)
  have "conn_inv (c1\<lparr>Statistics := ?t\<lparr>IntentsAccepted := IntentsAccepted ?t + 1\<rparr>\<rparr>)" by simp
  moreover from q have "Limits c1 = Limits c" "QueuedReliableBytes (Statistics c1) = QueuedReliableBytes (Statistics c)"
    by (rule Queue_result; simp)+
  ultimately show ?thesis by simp
qed

lemma with_service: "(case X of (r, c1) \<Rightarrow> (r, c1, s)) = (r', c', s') \<longleftrightarrow> X = (r', c') \<and> s = s'"
  by (cases X) simp

lemma SubmitFresh_inv:
  assumes inv: "conn_inv c" and act: "Active c" and v: "IsNetworkMessageIntentValid m (Limits c)" and u: "\<not> reliable m"
    and key: "\<And>k n. GetSequencedQueueKey (Order m) = Some (k, n) \<Longrightarrow> filter_mset (has_key k) (qmset (Queues c)) = {#}"
    and sub: "SubmitFresh thread at m (c, s) = (r, c', s')"
  shows "conn_inv c' \<and> Limits c' = Limits c \<and> QueuedReliableBytes (Statistics c') = QueuedReliableBytes (Statistics c)"
proof (cases "QueuedUnreliableMessages (Statistics c) \<ge> unat (MaximumMessagesPerTick (Limits c)) \<or>
    length (Payload m) > sub64 (MaximumSendBytesPerTick (Limits c)) (QueuedUnreliableBytes (Statistics c))")
  case True
  then have "RejectUnreliable c = (r, c')" using sub by (simp add: SubmitFresh_def with_service)
  then show ?thesis using RejectUnreliable_inv [OF inv] by (auto simp: RejectUnreliable_def stat_def)
next
  case False
  have l: "NetworkLimits_IsValid (Limits c)" "QueuedUnreliableBytes (Statistics c) \<le> MaximumSendBytesPerTick (Limits c)"
    using inv by (auto simp: conn_inv_def within_def)
  then have "sub64 (MaximumSendBytesPerTick (Limits c)) (QueuedUnreliableBytes (Statistics c)) =
      MaximumSendBytesPerTick (Limits c) - QueuedUnreliableBytes (Statistics c)"
    using valid_limits_small(2) [OF l(1)] by (simp add: sub64_exact u64_max_def)
  with False l(2) have "append_ok m c"
    using act v u key by (auto simp: append_ok_def disciplined_def message_bytes_def split: option.split)
  moreover have "AppendUnreliable thread at m (c, s) = (c', s')" using False sub by (simp add: SubmitFresh_def)
  ultimately show ?thesis using AppendUnreliable_inv [OF inv] u by blast
qed

lemma supersede_inv:
  assumes inv: "conn_inv c" and act: "Active c" and v: "IsNetworkMessageIntentValid m (Limits c)" and u: "\<not> reliable m"
    and k: "GetSequencedQueueKey (Order m) = Some (k, n)" and f: "find_key k c = Some (i, before, old, after)"
    and fit: "length (Payload m) \<le> sub64 (MaximumSendBytesPerTick (Limits c))
        (sub64 (QueuedUnreliableBytes (Statistics c)) (length (Payload old)))"
    and c2: "c2 = stat (\<lambda>t. t\<lparr>QueuedUnreliableBytes := sub64 (QueuedUnreliableBytes t) (length (Payload old)),
        QueuedUnreliableMessages := sub64 (QueuedUnreliableMessages t) 1, QueuedMessages := sub64 (QueuedMessages t) 1\<rparr>)
        (c\<lparr>Queues := (Queues c)(i := before @ after)\<rparr>)"
  shows "conn_inv c2" "append_ok m c2"
proof -
  note cut = find_key_cut [OF f]
  let ?A = "qmset ((Queues c)(i := before @ after))"
  have A: "qmset (Queues c) = add_mset old ?A" by (rule qmset_cut [where Q = "Queues c", OF cut(1,2)])
  have "message_ok (Limits c) i old" using inv cut(1,2) by (simp add: conn_inv_def)
  then have old: "\<not> reliable old" using cut(3) by (auto simp: message_ok_def disciplined_def has_key_def)
  have lm: "less_message old (Statistics c) (Statistics c2)"
    using old by (simp add: less_message_def c2 stat_def message_bytes_def)
  note t = cut_mset [OF inv cut(1,2) lm]
  have "counted (Statistics c2)"
  proof -
    have "MessagesSubmittedToTransport (Statistics c2) = MessagesSubmittedToTransport (Statistics c)"
      "IntentsAccepted (Statistics c2) = IntentsAccepted (Statistics c)"
      "ReliableBacklogExhaustions (Statistics c2) = ReliableBacklogExhaustions (Statistics c)"
      "IntentsRejected (Statistics c2) = IntentsRejected (Statistics c)"
      by (simp_all add: c2 stat_def)
    with inv t(5) show ?thesis by (simp add: conn_inv_def counted_def)
  qed
  from cut_inv [OF inv cut(1,2) lm this] show i2: "conn_inv c2"
    by (simp add: c2 stat_def)
  have l: "NetworkLimits_IsValid (Limits c)" using inv by (simp add: conn_inv_def)
  have q: "sub64 (QueuedUnreliableBytes (Statistics c)) (length (Payload old)) = QueuedUnreliableBytes (Statistics c2)"
    by (simp add: c2 stat_def)
  have w: "QueuedUnreliableBytes (Statistics c2) \<le> MaximumSendBytesPerTick (Limits c)"
    "QueuedUnreliableMessages (Statistics c2) < unat (MaximumMessagesPerTick (Limits c))"
    using inv t(3,4) old by (auto simp: conn_inv_def within_def)
  then have "sub64 (MaximumSendBytesPerTick (Limits c)) (QueuedUnreliableBytes (Statistics c2)) =
      MaximumSendBytesPerTick (Limits c) - QueuedUnreliableBytes (Statistics c2)"
    using valid_limits_small(2) [OF l] by (simp add: sub64_exact u64_max_def)
  with fit w(1) have "QueuedUnreliableBytes (Statistics c2) + length (Payload m) \<le> MaximumSendBytesPerTick (Limits c)"
    unfolding q by simp
  moreover have "size (filter_mset (has_key k) (add_mset old ?A)) \<le> 1"
    using inv unfolding conn_inv_def keys_unique_def A [symmetric] by blast
  then have "filter_mset (has_key k) ?A = {#}" using cut(3) by simp
  ultimately show "append_ok m c2"
    using act v u k w(2) by (simp add: append_ok_def disciplined_def message_bytes_def c2 stat_def)
qed

lemma SubmitUnreliable_inv:
  assumes inv: "conn_inv c" and act: "Active c" and v: "IsNetworkMessageIntentValid m (Limits c)" and u: "\<not> reliable m"
    and sub: "SubmitUnreliable thread at m (c, s) = (r, c', s')"
  shows "conn_inv c' \<and> Limits c' = Limits c \<and> QueuedReliableBytes (Statistics c') = QueuedReliableBytes (Statistics c)"
proof (cases "Delivery m = UnreliableSequenced")
  case False
  then have "Delivery m = UnreliableUnordered" using u by (cases "Delivery m") (simp_all add: reliable_def)
  then have "GetSequencedQueueKey (Order m) = None" by (rule valid_unsequenced_key [OF v])
  then show ?thesis using SubmitFresh_inv [OF inv act v u] sub False by (simp add: SubmitUnreliable_def)
next
  case sequenced: True
  have rej: ?thesis if "RejectUnreliable c = (r, c')"
    using RejectUnreliable_inv [OF inv that] that by (auto simp: RejectUnreliable_def stat_def)
  show ?thesis
  proof (cases "GetSequencedQueueKey (Order m)")
    case None
    then have "RejectUnreliable c = (r, c')" using sub sequenced by (simp add: SubmitUnreliable_def with_service)
    then show ?thesis by (rule rej)
  next
    case (Some kn)
    obtain k n where kn: "GetSequencedQueueKey (Order m) = Some (k, n)" using Some by (cases kn) simp
    show ?thesis
    proof (cases "find_key k c")
      case None
      then have "SubmitFresh thread at m (c, s) = (r, c', s')" using sub sequenced kn by (simp add: SubmitUnreliable_def)
      moreover have "filter_mset (has_key k') (qmset (Queues c)) = {#}" if "GetSequencedQueueKey (Order m) = Some (k', n')" for k' n'
        using that kn find_key_None [OF None] by simp
      ultimately show ?thesis using SubmitFresh_inv [OF inv act v u] by blast
    next
      case (Some hit)
      obtain i before old after where f: "find_key k c = Some (i, before, old, after)" using Some by (metis prod.exhaust)
      let ?fit = "length (Payload m) \<le> sub64 (MaximumSendBytesPerTick (Limits c))
        (sub64 (QueuedUnreliableBytes (Statistics c)) (length (Payload old)))"
      show ?thesis
      proof (cases "n \<le> queued_sequence old \<or> \<not> ?fit")
        case True
        then have "RejectUnreliable c = (r, c')"
          using sub sequenced kn f by (auto simp: SubmitUnreliable_def with_service not_le)
        then show ?thesis by (rule rej)
      next
        case False
        define c2 where "c2 = stat (\<lambda>t. t\<lparr>QueuedUnreliableBytes := sub64 (QueuedUnreliableBytes t) (length (Payload old)),
          QueuedUnreliableMessages := sub64 (QueuedUnreliableMessages t) 1, QueuedMessages := sub64 (QueuedMessages t) 1\<rparr>)
          (c\<lparr>Queues := (Queues c)(i := before @ after)\<rparr>)"
        obtain c3 s3 where a: "AppendUnreliable thread at m (c2, s) = (c3, s3)" by fastforce
        have "c' = stat (\<lambda>t. t\<lparr>SequencedStatesSuperseded := SequencedStatesSuperseded t + 1\<rparr>) c3"
          using sub sequenced kn f False by (simp add: SubmitUnreliable_def Let_def a [unfolded c2_def One_nat_def])
        moreover have "conn_inv c3 \<and> Limits c3 = Limits c2 \<and> QueuedReliableBytes (Statistics c3) = QueuedReliableBytes (Statistics c2)"
          using supersede_inv [OF inv act v u kn f _ c2_def] False AppendUnreliable_inv [OF _ _ u a] by blast
        ultimately show ?thesis
          by (auto simp: stat_def c2_def conn_inv_def accounts_def within_def counted_def)
      qed
    qed
  qed
qed

lemma SubmitReliable_inv:
  assumes inv: "conn_inv c" and act: "Active c" and v: "IsNetworkMessageIntentValid m (Limits c)"
    and r: "reliable m" "disciplined m"
    and tot: "QueuedReliableBytes (Statistics c) \<le> tot" "tot \<le> cap" "cap \<le> u64_max"
    and sub: "SubmitReliable thread at m cap (c, tot, s) = (res, c', tot', s')"
  shows "conn_inv c' \<and> Limits c' = Limits c \<and> tot' \<le> cap \<and>
     tot' + QueuedReliableBytes (Statistics c) = tot + QueuedReliableBytes (Statistics c')"
proof -
  let ?bytes = "length (Payload m)"
  have l: "NetworkLimits_IsValid (Limits c)" "QueuedReliableBytes (Statistics c) \<le> MaximumQueuedReliableBytes (Limits c)"
    using inv by (auto simp: conn_inv_def within_def)
  have e: "sub64 (MaximumQueuedReliableBytes (Limits c)) (QueuedReliableBytes (Statistics c)) =
      MaximumQueuedReliableBytes (Limits c) - QueuedReliableBytes (Statistics c)" "sub64 cap tot = cap - tot"
    using l(2) valid_limits_small(1) [OF l(1)] tot by (simp_all add: sub64_exact u64_max_def)
  show ?thesis
  proof (cases "?bytes > MaximumQueuedReliableBytes (Limits c) - QueuedReliableBytes (Statistics c) \<or> ?bytes > cap - tot \<or>
      ?bytes + ReliableServiceEnvelopeBytes > u64_max - AcceptedAll (ServiceAccepted c)")
    case True
    let ?c1 = "stat (\<lambda>t. t\<lparr>IntentsRejected := IntentsRejected t + 1, ReliableBacklogExhaustions := ReliableBacklogExhaustions t + 1\<rparr>) c"
    obtain c2 tot2 where cl: "Clear (?c1, tot) = (c2, tot2)" by fastforce
    have i1: "conn_inv ?c1"
      unfolding stat_def by (rule conn_inv_stat [OF inv]) (use inv in \<open>auto simp: conn_inv_def counted_def\<close>)
    have "c' = c2\<lparr>Active := False\<rparr>" "tot' = tot2"
      using sub True cl by (auto simp: SubmitReliable_def e)
    moreover have "tot2 = tot - QueuedReliableBytes (Statistics c)"
      using Clear_inv(4) [OF i1 cl] tot by (simp add: stat_def sub64_exact)
    moreover have "Limits c2 = Limits c" using cl by (auto simp: Clear_def stat_def)
    ultimately show ?thesis
      using Clear_deactivate_inv [OF i1 cl] Clear_inv(5) [OF i1 cl] tot by simp
  next
    case False
    obtain c1 s1 where q: "Queue thread at m (c, s) = (c1, s1)" by fastforce
    let ?t = "(Statistics c1)\<lparr>QueuedReliableBytes := add64 (QueuedReliableBytes (Statistics c1)) (message_bytes m)\<rparr>"
    let ?c2 = "c1\<lparr>Statistics := ?t\<lparr>IntentsAccepted := IntentsAccepted ?t + 1\<rparr>\<rparr>"
    have ok: "append_ok m c"
      using False l(2) act v r by (auto simp: append_ok_def disciplined_def message_bytes_def reliable_def)
    have i2: "conn_inv ?c2" using append_inv [OF inv ok q refl] r(1) by simp
    have c': "conn_inv c' = conn_inv ?c2" "Limits c' = Limits c1" "tot' = add64 tot ?bytes"
      "QueuedReliableBytes (Statistics c') = add64 (QueuedReliableBytes (Statistics c1)) ?bytes"
      using sub False q by (auto simp: SubmitReliable_def e Let_def stat_def message_bytes_def conn_inv_def)
    moreover have "Limits c1 = Limits c" "QueuedReliableBytes (Statistics c1) = QueuedReliableBytes (Statistics c)"
      using q by (rule Queue_result; simp)+
    moreover have "add64 tot ?bytes = tot + ?bytes"
      "add64 (QueuedReliableBytes (Statistics c)) ?bytes = QueuedReliableBytes (Statistics c) + ?bytes"
    proof -
      have "tot + ?bytes \<le> cap"
        "QueuedReliableBytes (Statistics c) + ?bytes \<le> MaximumQueuedReliableBytes (Limits c)"
        using False tot l(2) by linarith+
      then have "tot + ?bytes \<le> u64_max" "QueuedReliableBytes (Statistics c) + ?bytes \<le> u64_max"
        using tot(3) valid_limits_small(1) [OF l(1)] by (simp_all add: u64_max_def)
      then show "add64 tot ?bytes = tot + ?bytes"
        "add64 (QueuedReliableBytes (Statistics c)) ?bytes = QueuedReliableBytes (Statistics c) + ?bytes"
        by (simp_all only: add64_exact)
    qed
    moreover have "tot + ?bytes \<le> cap" using False tot by linarith
    ultimately show ?thesis using i2 by simp
  qed
qed

section \<open>The invariant of the scheduler\<close>

definition total_reliable :: "(ConnectionId \<times> ConnectionQueue) list \<Rightarrow> nat" where
  "total_reliable cs = (\<Sum>p \<leftarrow> cs. QueuedReliableBytes (Statistics (snd p)))"

definition sched_inv :: "NetworkScheduler \<Rightarrow> bool" where
  "sched_inv st \<longleftrightarrow> distinct (map fst (Connections st)) \<and> (\<forall>p \<in> set (Connections st). conn_inv (snd p)) \<and>
     TotalQueuedReliableBytes st = total_reliable (Connections st) \<and>
     TotalQueuedReliableBytes st \<le> MaximumTotalQueuedReliableBytes st \<and> MaximumTotalQueuedReliableBytes st \<le> u64_max"

lemma total_update:
  assumes "distinct (map fst cs)" "map_of cs i = Some c"
  shows "total_reliable (AList.update i c' cs) + QueuedReliableBytes (Statistics c) =
    total_reliable cs + QueuedReliableBytes (Statistics c')"
  using assms
proof (induction cs)
  case (Cons p cs)
  have "i \<notin> fst ` set cs \<Longrightarrow> map_of cs i = None" by (simp add: map_of_eq_None_iff)
  with Cons show ?case by (cases p) (auto simp: total_reliable_def)
qed simp

lemma total_delete:
  assumes "distinct (map fst cs)" "map_of cs i = Some c"
  shows "total_reliable (AList.delete i cs) + QueuedReliableBytes (Statistics c) = total_reliable cs"
  using assms
proof (induction cs)
  case (Cons p cs)
  have "i \<notin> fst ` set cs \<Longrightarrow> AList.delete i cs = cs"
    by (rule AList.delete_id)
  with Cons show ?case by (cases p) (auto simp: total_reliable_def)
qed simp

lemma total_member: "map_of cs i = Some c \<Longrightarrow> QueuedReliableBytes (Statistics c) \<le> total_reliable cs"
  by (induction cs) (auto simp: total_reliable_def split: if_splits)

lemma update_members: "p \<in> set (AList.update i c cs) \<Longrightarrow> p = (i, c) \<or> p \<in> set cs"
  by (induction cs) (auto split: if_splits)

lemma put_inv:
  assumes st: "sched_inv st" and m: "map_of (Connections st) i = Some c" and c': "conn_inv c'"
    and t: "tot' + QueuedReliableBytes (Statistics c) = TotalQueuedReliableBytes st + QueuedReliableBytes (Statistics c')"
    and cap: "tot' \<le> MaximumTotalQueuedReliableBytes st"
  shows "sched_inv ((put_connection i c' st)\<lparr>TotalQueuedReliableBytes := tot', Service := s'\<rparr>)"
proof -
  have d: "distinct (map fst (Connections st))" using st by (simp add: sched_inv_def)
  have "tot' = total_reliable (AList.update i c' (Connections st))"
    using total_update [OF d m, of c'] t st by (simp add: sched_inv_def)
  moreover have "\<forall>p \<in> set (AList.update i c' (Connections st)). conn_inv (snd p)"
    using st c' update_members by (fastforce simp: sched_inv_def)
  ultimately show ?thesis
    using st cap d by (simp add: sched_inv_def put_connection_def distinct_update)
qed

subsection \<open>Every operation keeps it\<close>

lemma lookup_inv: "sched_inv st \<Longrightarrow> map_of (Connections st) i = Some c \<Longrightarrow> conn_inv c"
  unfolding sched_inv_def using map_of_SomeD by fastforce

lemma new_queued [simp]: "QueuedReliableBytes (Statistics (new_ConnectionQueue l)) = 0"
  by (simp add: new_ConnectionQueue_def empty_statistics_def)

lemma RegisterConnection_inv:
  assumes st: "sched_inv st" and reg: "RegisterConnection i l st = (ok, st')"
  shows "sched_inv st'"
proof (cases "st' = st")
  case False
  then have new: "NetworkLimits_IsValid l" "map_of (Connections st) i = None"
    "st' = st\<lparr>Connections := Connections st @ [(i, new_ConnectionQueue l)]\<rparr>"
    using reg by (auto simp: RegisterConnection_def split: if_splits)
  have "conn_inv (snd p)" if "p \<in> set (Connections st')" for p
    using that st new conn_inv_new [OF new(1)] by (auto simp: sched_inv_def)
  then show ?thesis
    using st new by (simp add: sched_inv_def total_reliable_def map_of_eq_None_iff)
qed (use st in simp)

lemma put_service: "(put_connection i c st)\<lparr>TotalQueuedReliableBytes := TotalQueuedReliableBytes st, Service := s\<rparr> =
    (put_connection i c st)\<lparr>Service := s\<rparr>"
  by (simp add: put_connection_def)

lemma put_same: "(put_connection i c st)\<lparr>TotalQueuedReliableBytes := TotalQueuedReliableBytes st, Service := Service st\<rparr> =
    put_connection i c st"
  by (simp add: put_connection_def)

lemma Submit_inv:
  assumes st: "sched_inv st" and d: "disciplined m" and sub: "Submit thread at m st = (r, st')"
  shows "sched_inv st'"
proof (cases "map_of (Connections st) (Destination m)")
  case None
  then show ?thesis using st sub by (simp add: Submit_def)
next
  case (Some c)
  note inv = lookup_inv [OF st Some]
  have bounds: "QueuedReliableBytes (Statistics c) \<le> TotalQueuedReliableBytes st"
    "TotalQueuedReliableBytes st \<le> MaximumTotalQueuedReliableBytes st" "MaximumTotalQueuedReliableBytes st \<le> u64_max"
    using st total_member [OF Some] by (simp_all add: sched_inv_def)
  note put = put_inv [OF st Some]
  consider "\<not> Active c" | "Active c" "\<not> IsNetworkMessageIntentValid m (Limits c)"
    | "Active c" "IsNetworkMessageIntentValid m (Limits c)" "reliable m"
    | "Active c" "IsNetworkMessageIntentValid m (Limits c)" "\<not> reliable m" by blast
  then show ?thesis
  proof cases
    case 1
    then show ?thesis using st sub Some by (simp add: Submit_def)
  next
    case 2
    let ?c = "stat (\<lambda>t. t\<lparr>IntentsRejected := IntentsRejected t + 1\<rparr>) c"
    have "conn_inv ?c"
      unfolding stat_def by (rule conn_inv_stat [OF inv]) (use inv in \<open>auto simp: conn_inv_def counted_def\<close>)
    moreover have "st' = put_connection (Destination m) ?c st" using sub Some 2 by (simp add: Submit_def)
    ultimately show ?thesis
      using put [of ?c "TotalQueuedReliableBytes st" "Service st"] bounds(2) by (simp add: put_same stat_def)
  next
    case 3
    obtain c1 tot s1 where s: "SubmitReliable thread at m (MaximumTotalQueuedReliableBytes st)
        (c, TotalQueuedReliableBytes st, Service st) = (r, c1, tot, s1)"
      and st': "st' = (put_connection (Destination m) c1 st)\<lparr>TotalQueuedReliableBytes := tot, Service := s1\<rparr>"
      using sub Some 3 by (auto simp: Submit_def reliable_def split: prod.splits)
    show ?thesis unfolding st' using SubmitReliable_inv [OF inv 3(1,2,3) d bounds s] by (intro put) auto
  next
    case 4
    obtain c1 s1 where s: "SubmitUnreliable thread at m (c, Service st) = (r, c1, s1)"
      and st': "st' = (put_connection (Destination m) c1 st)\<lparr>Service := s1\<rparr>"
      using sub Some 4 by (auto simp: Submit_def reliable_def split: prod.splits)
    show ?thesis
      using SubmitUnreliable_inv [OF inv 4 s] put [of c1 "TotalQueuedReliableBytes st" s1] bounds(2)
      unfolding st' put_service by simp
  qed
qed

lemma PopFront_inv:
  assumes inv: "conn_inv c" and i: "i < 6" "Queues c i \<noteq> []" and tot: "QueuedReliableBytes (Statistics c) \<le> tot" "tot \<le> u64_max"
    and pop: "PopFront i (hd (Queues c i)) (c, tot) = (c', tot')"
  shows "conn_inv c' \<and> Limits c' = Limits c \<and> Active c' = Active c \<and> tot' \<le> tot \<and>
     tot' + QueuedReliableBytes (Statistics c) = tot + QueuedReliableBytes (Statistics c')"
proof -
  let ?m = "hd (Queues c i)"
  have q: "Queues c i = [] @ ?m # tl (Queues c i)" using i(2) by simp
  have lm: "less_message ?m (Statistics c) (Statistics c')"
    using pop by (auto simp: less_message_def PopFront_def stat_def Let_def reliable_def message_bytes_def)
  note t = cut_mset [OF inv i(1) q lm]
  have other: "MessagesSubmittedToTransport (Statistics c') = MessagesSubmittedToTransport (Statistics c) + 1"
    "IntentsAccepted (Statistics c') = IntentsAccepted (Statistics c)"
    "ReliableBacklogExhaustions (Statistics c') = ReliableBacklogExhaustions (Statistics c)"
    "IntentsRejected (Statistics c') = IntentsRejected (Statistics c)"
    using pop by (auto simp: PopFront_def stat_def Let_def split: if_splits)
  then have "counted (Statistics c')" using inv t(5) by (simp add: conn_inv_def counted_def)
  from cut_inv [OF inv i(1) q lm this]
  have "conn_inv (c\<lparr>Queues := (Queues c)(i := [] @ tl (Queues c i)), Statistics := Statistics c'\<rparr>)" .
  moreover have "Queues c' = (Queues c)(i := [] @ tl (Queues c i))" "Limits c' = Limits c" "Active c' = Active c"
    using pop by (auto simp: PopFront_def stat_def Let_def split: if_splits)
  moreover have "tot' = (if reliable ?m then sub64 tot (message_bytes ?m) else tot)"
    using pop by (auto simp: PopFront_def Let_def reliable_def message_bytes_def)
  moreover have "reliable ?m \<Longrightarrow> sub64 tot (message_bytes ?m) = tot - message_bytes ?m"
    using t(2) tot by (simp add: sub64_exact)
  ultimately show ?thesis using t(2) tot by (auto simp: conn_inv_def)
qed

lemma SelectQueue_None: "SelectQueue c = None \<Longrightarrow> qmset (Queues c) = {#}"
proof -
  assume "SelectQueue c = None"
  then have "\<forall>i < 6. Queues c i = []"
    using find_no_index [of "\<lambda>i. Queues c i \<noteq> []"] by (auto simp: SelectQueue_def split: if_splits)
  then show ?thesis by (simp add: qmset_def)
qed

lemma conn_inv_selects: "conn_inv c \<Longrightarrow> QueuedMessages (Statistics c) \<noteq> 0 \<Longrightarrow> \<exists>i < 6. SelectQueue c = Some i \<and> Queues c i \<noteq> []"
proof -
  assume "conn_inv c" "QueuedMessages (Statistics c) \<noteq> 0"
  then have "SelectQueue c \<noteq> None" using SelectQueue_None by (fastforce simp: conn_inv_def accounts_def)
  then show ?thesis using SelectQueue_lt by blast
qed

lemma Clear_total:
  assumes "QueuedReliableBytes (Statistics c) \<le> tot" "tot \<le> u64_max" "Clear (c, tot) = (c', tot')"
  shows "tot' + QueuedReliableBytes (Statistics c) = tot" "QueuedReliableBytes (Statistics c') = 0" "Limits c' = Limits c"
  using assms by (auto simp: Clear_def stat_def Let_def sub64_exact)

text \<open>
  What every iteration of the loop keeps between the connection, the aggregate and the
  budget: \<open>tied\<close> relates the state at the start of a flush with a later one.
\<close>

definition tied :: "ConnectionQueue \<Rightarrow> nat \<Rightarrow> ConnectionQueue \<Rightarrow> nat \<Rightarrow> bool" where
  "tied c tot c' tot' \<longleftrightarrow> conn_inv c' \<and> Limits c' = Limits c \<and> tot' \<le> tot \<and>
     tot' + QueuedReliableBytes (Statistics c) = tot + QueuedReliableBytes (Statistics c')"

lemma tied_refl: "conn_inv c \<Longrightarrow> tied c tot c tot"
  by (simp add: tied_def)

lemma tied_trans: "tied a t b u \<Longrightarrow> tied b u c v \<Longrightarrow> tied a t c v"
  by (simp add: tied_def)

lemma tied_bound: "tied c tot c' tot' \<Longrightarrow> QueuedReliableBytes (Statistics c) \<le> tot \<Longrightarrow> QueuedReliableBytes (Statistics c') \<le> tot'"
  by (simp add: tied_def)

lemma tied_stat:
  assumes "conn_inv c" and "\<And>t. QueuedReliableBytes (f t) = QueuedReliableBytes t \<and> QueuedReliableMessages (f t) = QueuedReliableMessages t \<and>
      QueuedUnreliableBytes (f t) = QueuedUnreliableBytes t \<and> QueuedUnreliableMessages (f t) = QueuedUnreliableMessages t \<and>
      QueuedMessages (f t) = QueuedMessages t \<and> MessagesSubmittedToTransport (f t) = MessagesSubmittedToTransport t \<and>
      IntentsAccepted (f t) = IntentsAccepted t \<and> ReliableBacklogExhaustions (f t) = ReliableBacklogExhaustions t \<and>
      IntentsRejected (f t) = IntentsRejected t"
  shows "tied c tot (stat f c) tot"
  using assms by (simp add: tied_def stat_def conn_inv_def accounts_def within_def counted_def)

lemma PopFront_tied:
  "conn_inv c \<Longrightarrow> SelectQueue c = Some i \<Longrightarrow> QueuedReliableBytes (Statistics c) \<le> tot \<Longrightarrow> tot \<le> u64_max \<Longrightarrow>
   tied c tot (fst (PopFront i (hd (Queues c i)) (c, tot))) (snd (PopFront i (hd (Queues c i)) (c, tot)))"
  using PopFront_inv [of c i tot "fst (PopFront i (hd (Queues c i)) (c, tot))" "snd (PopFront i (hd (Queues c i)) (c, tot))"]
    SelectQueue_lt [of c i] by (simp add: tied_def)

lemma Clear_tied:
  assumes "conn_inv c" "QueuedReliableBytes (Statistics c) \<le> tot" "tot \<le> u64_max" "Clear (c, tot) = (c', tot')"
  shows "tied c tot (c'\<lparr>Active := False\<rparr>) tot'"
  using Clear_deactivate_inv [OF assms(1,4)] Clear_total [OF assms(2,3,4)] by (simp add: tied_def)

lemma FlushLoop_tied:
  assumes "conn_inv c" "QueuedReliableBytes (Statistics c) \<le> tot" "tot \<le> u64_max"
    "FlushLoop send budget result c tot w = (r, c', tot', w')"
  shows "tied c tot c' tot'"
  using assms
proof (induction send budget result c tot w rule: FlushLoop.induct)
  case (1 send budget result c tot w)
  show ?case
  proof (cases "QueuedMessages (Statistics c) = 0")
    case True
    then show ?thesis using 1(5) tied_refl [OF 1(2)] by (simp add: FlushLoop.simps)
  next
    case False
    obtain i where i: "i < 6" "SelectQueue c = Some i" "Queues c i \<noteq> []" using conn_inv_selects [OF 1(2) False] by blast
    let ?m = "hd (Queues c i)"
    obtain sub w1 where send: "send (intent_of ?m) w = (sub, w1)" by fastforce
    consider (budget) "MessagesSubmitted result = unat (BudgetMaximumMessages budget) \<or>
          length (Payload ?m) > BudgetMaximumBytes budget - BytesSubmitted result"
      | (blocked) "\<not> (MessagesSubmitted result = unat (BudgetMaximumMessages budget) \<or>
          length (Payload ?m) > BudgetMaximumBytes budget - BytesSubmitted result)" "Status sub = WouldBlock"
      | (failed) "\<not> (MessagesSubmitted result = unat (BudgetMaximumMessages budget) \<or>
          length (Payload ?m) > BudgetMaximumBytes budget - BytesSubmitted result)" "Status sub \<noteq> WouldBlock" "Status sub \<noteq> Succeeded"
      | (sent) "\<not> (MessagesSubmitted result = unat (BudgetMaximumMessages budget) \<or>
          length (Payload ?m) > BudgetMaximumBytes budget - BytesSubmitted result)" "Status sub = Succeeded"
      by blast
    then show ?thesis
    proof cases
      case budget
      then show ?thesis using 1(5) False i tied_stat [OF 1(2)] by (auto simp: FlushLoop.simps [of send] Let_def)
    next
      case blocked
      then show ?thesis using 1(5) False i send tied_stat [OF 1(2)] by (auto simp: FlushLoop.simps [of send] Let_def)
    next
      case failed
      then show ?thesis using 1(5) False i send Clear_tied [OF 1(2,3,4)]
        by (auto simp: FlushLoop.simps [of send] Let_def split: prod.splits)
    next
      case sent
      note pop = PopFront_tied [OF 1(2) i(2) 1(3,4)]
      have eq: "FlushLoop send budget (result\<lparr>MessagesSubmitted := MessagesSubmitted result + 1,
          BytesSubmitted := BytesSubmitted result + length (Payload ?m)\<rparr>)
          (fst (PopFront i ?m (c, tot))) (snd (PopFront i ?m (c, tot))) w1 = (r, c', tot', w')"
        using 1(5) False i send sent by (simp add: FlushLoop.simps [of send] Let_def)
      have "tied (fst (PopFront i ?m (c, tot))) (snd (PopFront i ?m (c, tot))) c' tot'"
        using sent pop tied_bound [OF pop 1(3)] 1(4)
        by (intro 1(1) [OF False i(2) refl refl sent(1) send [symmetric] _ _ _ _ _ eq]) (auto simp: tied_def)
      with pop show ?thesis by (rule tied_trans)
    qed
  qed
qed

lemma Flush_inv:
  assumes st: "sched_inv st" and fl: "Flush send i budget st w = (r, st', w')"
  shows "sched_inv st'"
proof (cases "st' = st")
  case False
  then obtain c where c: "map_of (Connections st) i = Some c"
    using fl by (cases "map_of (Connections st) i") (auto simp: Flush_def Let_def)
  have bounds: "QueuedReliableBytes (Statistics c) \<le> TotalQueuedReliableBytes st"
    "TotalQueuedReliableBytes st \<le> MaximumTotalQueuedReliableBytes st" "MaximumTotalQueuedReliableBytes st \<le> u64_max"
    using st total_member [OF c] by (simp_all add: sched_inv_def)
  obtain c1 tot r0 where loop: "FlushLoop send budget r0 c (TotalQueuedReliableBytes st) w = (r, c1, tot, w')"
    and st': "st' = (put_connection i c1 st)\<lparr>TotalQueuedReliableBytes := tot\<rparr>"
    using fl False c by (auto simp: Flush_def Let_def split: if_splits prod.splits)
  have "tied c (TotalQueuedReliableBytes st) c1 tot"
    by (rule FlushLoop_tied [OF lookup_inv [OF st c] bounds(1) _ loop]) (use bounds in simp)
  then have "sched_inv ((put_connection i c1 st)\<lparr>TotalQueuedReliableBytes := tot, Service := Service st\<rparr>)"
    using bounds by (intro put_inv [OF st c]) (auto simp: tied_def)
  moreover have "(put_connection i c1 st)\<lparr>TotalQueuedReliableBytes := tot, Service := Service st\<rparr> = st'"
    by (simp add: st' put_connection_def)
  ultimately show ?thesis by simp
qed (use st in simp)

lemma CancelConnection_inv:
  assumes st: "sched_inv st" and cancel: "CancelConnection i st = (ok, st')"
  shows "sched_inv st'"
proof (cases "map_of (Connections st) i")
  case (Some c)
  have d: "distinct (map fst (Connections st))" using st by (simp add: sched_inv_def)
  have b: "QueuedReliableBytes (Statistics c) \<le> TotalQueuedReliableBytes st" "TotalQueuedReliableBytes st \<le> u64_max"
    using st total_member [OF Some] by (simp_all add: sched_inv_def)
  have "snd (Clear (c, TotalQueuedReliableBytes st)) + QueuedReliableBytes (Statistics c) = TotalQueuedReliableBytes st"
    using Clear_total(1) [OF b] by (metis prod.collapse)
  moreover have "\<forall>p \<in> set (AList.delete i (Connections st)). conn_inv (snd p)"
    using st by (auto simp: sched_inv_def AList.delete_eq)
  ultimately show ?thesis
    using st cancel Some total_delete [OF d Some] d
    by (auto simp: CancelConnection_def sched_inv_def distinct_delete)
qed (use assms in \<open>simp add: CancelConnection_def\<close>)

lemma put_unchanged:
  assumes "sched_inv st" "map_of (Connections st) i = Some c" "conn_inv c'"
    "QueuedReliableBytes (Statistics c') = QueuedReliableBytes (Statistics c)"
  shows "sched_inv (put_connection i c' st)"
  using put_inv [OF assms(1-3), of "TotalQueuedReliableBytes st" "Service st"] assms(1,4)
  by (simp add: put_same sched_inv_def)

lemma DeclareOrdinaryPolicy_inv:
  assumes st: "sched_inv st" and decl: "DeclareOrdinaryPolicy thread i policy st = (ok, st')"
  shows "sched_inv st'"
proof (cases "st' = st")
  case False
  then obtain a c where c: "map_of (Connections st) i = Some c" "st' = put_connection i (c\<lparr>OrdinaryPolicy := Some a\<rparr>) st"
    using decl by (auto simp: DeclareOrdinaryPolicy_def split: option.splits if_splits)
  show ?thesis unfolding c(2)
    by (rule put_unchanged [OF st c(1)]) (use lookup_inv [OF st c(1)] in \<open>simp_all add: conn_inv_def\<close>)
qed (use st in simp)

text \<open>Stamping a message changes neither its bytes, its class nor its key.\<close>

lemma qmset_replace: "i < 6 \<Longrightarrow> Q i = before @ m # after \<Longrightarrow>
    qmset (Q(i := before @ m' # after)) + {#m#} = qmset Q + {#m'#}"
  using qmset_cut [of i Q before m after] qmset_cut [of i "Q(i := before @ m' # after)" before m' after] by simp

lemma stamped_inv:
  assumes inv: "conn_inv c" and j: "j < 6" "Queues c j = before @ m # after"
    and m': "m' = m\<lparr>ReliableGrantActivatedAtMicroseconds := t\<rparr>"
  shows "conn_inv (c\<lparr>Queues := (Queues c)(j := before @ m' # after)\<rparr>)"
proof -
  obtain A where A: "qmset (Queues c) = add_mset m A"
    "qmset ((Queues c)(j := before @ m' # after)) = add_mset m' A"
    using qmset_cut [where Q = "Queues c", OF j] qmset_replace [where Q = "Queues c", OF j, of m'] by auto
  have same: "reliable m' = reliable m" "message_bytes m' = message_bytes m" "\<And>k. has_key k m' = has_key k m"
    "Traffic m' = Traffic m" "disciplined m' = disciplined m"
    "IsNetworkMessageIntentValid (intent_of m') (Limits c) = IsNetworkMessageIntentValid (intent_of m) (Limits c)"
    by (simp_all add: m' reliable_def message_bytes_def has_key_def disciplined_def IsNetworkMessageIntentValid_def
        intent_of_def NetworkMessageIntent.defs)
  have "size (filter_mset (has_key k) (add_mset m' A)) = size (filter_mset (has_key k) (add_mset m A))" for k
    by (simp add: same)
  then have "keys_unique (add_mset m' A)" using inv by (simp only: conn_inv_def A keys_unique_def simp_thms)
  moreover have "accounts (Statistics c) (add_mset m' A)"
    using inv by (simp add: conn_inv_def A accounts_def relset_def unrelset_def bytes_of_def same)
  moreover have "\<forall>i < 6. \<forall>x \<in> set (((Queues c)(j := before @ m' # after)) i). message_ok (Limits c) i x"
    using inv j by (auto simp: conn_inv_def message_ok_def same)
  ultimately show ?thesis using inv by (simp add: conn_inv_def A)
qed

lemma ActivateReliableGrant_inv:
  assumes st: "sched_inv st" and act: "ActivateReliableGrant i token time st = (ok, st')"
  shows "sched_inv st'"
proof (cases "st' = st")
  case False
  then obtain c j before m after m' where c: "map_of (Connections st) i = Some c"
    and j: "List.find (\<lambda>j. \<exists>m \<in> set (Queues c j). ReliableRetirementToken m = token) queue_indices = Some j"
    and ex: "List.extract (\<lambda>m. ReliableRetirementToken m = token) (Queues c j) = Some (before, m, after)"
    and m': "Activate token time m = (ok, m')"
    and st': "st' = put_connection i (c\<lparr>Queues := (Queues c)(j := before @ m' # after)\<rparr>) st"
    using act unfolding ActivateReliableGrant_def
    by (auto simp: split: option.splits if_splits prod.splits)
  have jq: "j < 6" "Queues c j = before @ m # after"
    using find_index [OF j] ex by (auto simp: extract_Some_iff)
  have "m' = m\<lparr>ReliableGrantActivatedAtMicroseconds := ReliableGrantActivatedAtMicroseconds m\<rparr> \<or>
      m' = m\<lparr>ReliableGrantActivatedAtMicroseconds := time\<rparr>"
    using m' by (auto simp: Activate_def split: if_splits)
  then have "conn_inv (c\<lparr>Queues := (Queues c)(j := before @ m' # after)\<rparr>)"
    using stamped_inv [OF lookup_inv [OF st c] jq] by blast
  then show ?thesis unfolding st' by (rule put_unchanged [OF st c]) simp
qed (use st in simp)

section \<open>Runs of the scheduler\<close>

text \<open>
  A run interleaves the calls of the scheduler's owner for any connections. Submissions are
  of disciplined intents, as all producers of the code make them; the budgets behind
  \<open>Service\<close> are shared and may change between calls.
\<close>

inductive sched_step :: "NetworkScheduler \<Rightarrow> NetworkScheduler \<Rightarrow> bool" where
  step_register: "RegisterConnection i l st = (ok, st') \<Longrightarrow> sched_step st st'"
| step_submit: "disciplined m \<Longrightarrow> Submit thread at m st = (r, st') \<Longrightarrow> sched_step st st'"
| step_flush: "Flush (send :: nat transport) i budget st w = (fr, st', w') \<Longrightarrow> sched_step st st'"
| step_cancel: "CancelConnection i st = (ok, st') \<Longrightarrow> sched_step st st'"
| step_activate: "ActivateReliableGrant i token time st = (ok, st') \<Longrightarrow> sched_step st st'"
| step_declare: "DeclareOrdinaryPolicy thread i policy st = (ok, st') \<Longrightarrow> sched_step st st'"
| step_service: "sched_step st (st\<lparr>Service := s\<rparr>)"

definition sched_initial :: "NetworkScheduler \<Rightarrow> bool" where
  "sched_initial st \<longleftrightarrow> (\<exists>n s. n \<le> u64_max \<and> new_NetworkScheduler n s = Some st)"

lemma sched_initial_inv: "sched_initial st \<Longrightarrow> sched_inv st"
  by (auto simp: sched_initial_def new_NetworkScheduler_def sched_inv_def total_reliable_def split: if_splits)

lemma sched_step_inv: "sched_step st st' \<Longrightarrow> sched_inv st \<Longrightarrow> sched_inv st'"
proof (induction rule: sched_step.induct)
  case (step_service st s)
  then show ?case by (simp add: sched_inv_def)
qed (blast intro: RegisterConnection_inv Submit_inv Flush_inv CancelConnection_inv ActivateReliableGrant_inv
    DeclareOrdinaryPolicy_inv)+

interpretation scheduler: invariant_system sched_initial sched_step sched_inv
  by unfold_locales (blast intro: sched_initial_inv sched_step_inv)+

end
