(* ===== verification/SchedulerFlush.thy ===== *)
theory SchedulerFlush imports Scheduler begin

text \<open>
  What a flush of the scheduler sends: the order and the fairness of the loop, the account
  it gives of itself, and what an accepted sequenced submission leaves in the queues.
\<close>

section \<open>What a flush sends\<close>

text \<open>
  \<open>pops c tot is c' tot'\<close>: the loop has taken the heads of the queues \<open>is\<close>, in this order,
  and nothing else has changed. \<open>logging\<close> makes the transport keep the messages it took.
\<close>

inductive pops :: "ConnectionQueue \<Rightarrow> nat \<Rightarrow> (nat \<times> NetworkMessageIntent) list \<Rightarrow> ConnectionQueue \<Rightarrow> nat \<Rightarrow> bool" where
  pops_none: "pops c tot [] c tot"
| pops_one: "SelectQueue c = Some i \<Longrightarrow> m = hd (Queues c i) \<Longrightarrow> PopFront i m (c, tot) = (c1, tot1) \<Longrightarrow>
     pops c1 tot1 ps c' tot' \<Longrightarrow> pops c tot ((i, intent_of m) # ps) c' tot'"

definition logging :: "'w transport \<Rightarrow> ('w \<times> NetworkMessageIntent list) transport" where
  "logging send m wl = (case send m (fst wl) of (r, w') \<Rightarrow> (r, w', if Status r = Succeeded then snd wl @ [m] else snd wl))"

definition log_bytes :: "NetworkMessageIntent list \<Rightarrow> nat" where
  "log_bytes ms = (\<Sum>m \<leftarrow> ms. length (Payload m))"

text \<open>How a loop that popped up to \<open>c1\<close> leaves the connection and its result.\<close>

definition flush_end :: "SchedulerTickBudget \<Rightarrow> SchedulerFlushResult \<Rightarrow> ConnectionQueue \<Rightarrow> ConnectionQueue \<Rightarrow> bool" where
  "flush_end budget r c1 c' \<longleftrightarrow>
     (case FlushStatus r of
        Drained \<Rightarrow> c' = c1 \<and> qmset (Queues c1) = {#}
      | BudgetLimited \<Rightarrow> Queues c' = Queues c1 \<and>
          (\<exists>i. SelectQueue c1 = Some i \<and> (MessagesSubmitted r = unat (BudgetMaximumMessages budget) \<or>
             BudgetMaximumBytes budget < BytesSubmitted r + length (Payload (hd (Queues c1 i)))))
      | TransportBackpressured \<Rightarrow> Queues c' = Queues c1 \<and> SelectQueue c1 \<noteq> None
      | TerminalFailure \<Rightarrow> \<not> Active c' \<and> Queues c' = (\<lambda>_. [])
      | _ \<Rightarrow> False)"

lemma intent_of_Payload [simp]: "Payload (intent_of m) = Payload m" "Traffic (intent_of m) = Traffic m"
  "Order (intent_of m) = Order m" "Delivery (intent_of m) = Delivery m"
  by (simp_all add: intent_of_def NetworkMessageIntent.defs)

text \<open>The four ways an iteration ends, with the code's tests.\<close>

lemma FlushLoop_cases [consumes 3, case_names drained budget blocked failed sent]:
  assumes loop: "FlushLoop send budget result c tot w = (r, c', tot', w')"
    and inv: "conn_inv c" and tot: "BytesSubmitted result \<le> BudgetMaximumBytes budget"
  obtains "QueuedMessages (Statistics c) = 0" "r = result" "c' = c" "tot' = tot" "w' = w"
  | i where "SelectQueue c = Some i" "r = result\<lparr>FlushStatus := BudgetLimited\<rparr>"
      "MessagesSubmitted result = unat (BudgetMaximumMessages budget) \<or>
         BudgetMaximumBytes budget < BytesSubmitted result + length (Payload (hd (Queues c i)))"
      "c' = stat (\<lambda>t. t\<lparr>BudgetLimitedFlushes := BudgetLimitedFlushes t + 1\<rparr>) c" "tot' = tot" "w' = w"
  | i sub where "SelectQueue c = Some i" "send (intent_of (hd (Queues c i))) w = (sub, w')" "Status sub = WouldBlock"
      "r = result\<lparr>FlushStatus := TransportBackpressured\<rparr>"
      "c' = stat (\<lambda>t. t\<lparr>TransportBackpressureEvents := TransportBackpressureEvents t + 1\<rparr>) c" "tot' = tot"
  | i sub c1 where "SelectQueue c = Some i" "send (intent_of (hd (Queues c i))) w = (sub, w')"
      "Status sub \<noteq> WouldBlock" "Status sub \<noteq> Succeeded"
      "r = result\<lparr>FlushStatus := TerminalFailure, FlushDisconnect := Some (case TerminalDisconnect sub of
           Some d \<Rightarrow> d
         | None \<Rightarrow> DisconnectInfo DisconnectTransportFailure (ascii ''Transport rejected scheduler submission''))\<rparr>"
      "Clear (c, tot) = (c1, tot')" "c' = c1\<lparr>Active := False\<rparr>"
  | i sub w1 c1 tot1 where "SelectQueue c = Some i" "MessagesSubmitted result \<noteq> unat (BudgetMaximumMessages budget)"
      "BytesSubmitted result + length (Payload (hd (Queues c i))) \<le> BudgetMaximumBytes budget"
      "send (intent_of (hd (Queues c i))) w = (sub, w1)" "Status sub = Succeeded"
      "PopFront i (hd (Queues c i)) (c, tot) = (c1, tot1)"
      "FlushLoop send budget (result\<lparr>MessagesSubmitted := MessagesSubmitted result + 1,
          BytesSubmitted := BytesSubmitted result + length (Payload (hd (Queues c i)))\<rparr>) c1 tot1 w1 = (r, c', tot', w')"
proof (cases "QueuedMessages (Statistics c) = 0")
  case True
  then have "(r, c', tot', w') = (result, c, tot, w)"
    using loop by (simp only: FlushLoop.simps [of send budget result c tot w] simp_thms if_True)
  then show ?thesis using that(1) [OF True] by simp
next
  case False
  obtain i where i: "SelectQueue c = Some i" using conn_inv_selects [OF inv False] by blast
  let ?m = "hd (Queues c i)"
  let ?full = "MessagesSubmitted result = unat (BudgetMaximumMessages budget) \<or>
          length (Payload ?m) > BudgetMaximumBytes budget - BytesSubmitted result"
  obtain sub w1 where send: "send (intent_of ?m) w = (sub, w1)" by fastforce
  obtain c1 tot1 where pop: "PopFront i ?m (c, tot) = (c1, tot1)" by fastforce
  obtain c2 tot2 where clear: "Clear (c, tot) = (c2, tot2)" by fastforce
  have eq: "(r, c', tot', w') =
     (if ?full then (result\<lparr>FlushStatus := BudgetLimited\<rparr>,
          stat (\<lambda>t. t\<lparr>BudgetLimitedFlushes := BudgetLimitedFlushes t + 1\<rparr>) c, tot, w)
      else if Status sub = WouldBlock then (result\<lparr>FlushStatus := TransportBackpressured\<rparr>,
          stat (\<lambda>t. t\<lparr>TransportBackpressureEvents := TransportBackpressureEvents t + 1\<rparr>) c, tot, w1)
      else if Status sub \<noteq> Succeeded then (result\<lparr>FlushStatus := TerminalFailure,
          FlushDisconnect := Some (case TerminalDisconnect sub of
             Some d \<Rightarrow> d
           | None \<Rightarrow> DisconnectInfo DisconnectTransportFailure (ascii ''Transport rejected scheduler submission''))\<rparr>,
          c2\<lparr>Active := False\<rparr>, tot2, w1)
      else FlushLoop send budget (result\<lparr>MessagesSubmitted := MessagesSubmitted result + 1,
          BytesSubmitted := BytesSubmitted result + length (Payload ?m)\<rparr>) c1 tot1 w1)"
    using loop by (simp only: FlushLoop.simps [of send budget result c tot w] False i send pop clear Let_def
      option.case prod.case fst_conv snd_conv if_False simp_thms)
  have full: "?full \<Longrightarrow> MessagesSubmitted result = unat (BudgetMaximumMessages budget) \<or>
         BudgetMaximumBytes budget < BytesSubmitted result + length (Payload ?m)" by linarith
  consider "?full" | "\<not> ?full" "Status sub = WouldBlock" | "\<not> ?full" "Status sub \<noteq> WouldBlock" "Status sub \<noteq> Succeeded"
    | "\<not> ?full" "Status sub = Succeeded" by blast
  then show ?thesis
  proof cases
    case 1
    then show ?thesis using eq by (intro that(2) [OF i _ full [OF 1]]) simp_all
  next
    case 2
    then show ?thesis using eq send by (intro that(3) [OF i _ 2(2)]) simp_all
  next
    case 3
    then show ?thesis using eq send clear by (intro that(4) [OF i _ 3(2,3)]) simp_all
  next
    case 4
    have "BytesSubmitted result + length (Payload ?m) \<le> BudgetMaximumBytes budget"
      using 4(1) tot by linarith
    then show ?thesis using 4 eq by (intro that(5) [OF i _ _ send 4(2) pop]) simp_all
  qed
qed

lemma PopFront_shrinks: "SelectQueue c = Some i \<Longrightarrow> PopFront i m (c, tot) = (c1, tot1) \<Longrightarrow> total_queued c1 < total_queued c"
  using total_queued_PopFront [of i c "hd (Queues c i)" "tl (Queues c i)" m tot] SelectQueue_lt [of c i] by simp

lemma stat_simps [simp]: "Queues (stat f c) = Queues c" "Limits (stat f c) = Limits c" "Active (stat f c) = Active c"
  by (simp_all add: stat_def)

lemma Clear_queues: "Clear (c, tot) = (c', tot') \<Longrightarrow> Queues c' = (\<lambda>_. [])"
  by (auto simp: Clear_def)

lemma drained_empty: "conn_inv c \<Longrightarrow> QueuedMessages (Statistics c) = 0 \<Longrightarrow> qmset (Queues c) = {#}"
  by (simp add: conn_inv_def accounts_def)

lemma logging_cases:
  assumes "logging send m (w, log) = (sub, w', log')"
  shows "log' = (if Status sub = Succeeded then log @ [m] else log)"
  using assms by (auto simp: logging_def split: prod.splits if_splits)

definition submitted :: "SchedulerFlushResult \<Rightarrow> nat \<times> nat" where
  "submitted r = (MessagesSubmitted r, BytesSubmitted r)"

lemma FlushLoop_pops:
  assumes "conn_inv c" "QueuedReliableBytes (Statistics c) \<le> tot" "tot \<le> u64_max"
    "BytesSubmitted result \<le> BudgetMaximumBytes budget" "FlushStatus result = Drained"
    "FlushLoop (logging send) budget result c tot (w, log) = (r, c', tot', w', log')"
  shows "\<exists>ps c1 tot1. pops c tot ps c1 tot1 \<and> log' = log @ map snd ps \<and> flush_end budget r c1 c' \<and>
     MessagesSubmitted r = MessagesSubmitted result + length ps \<and>
     BytesSubmitted r = BytesSubmitted result + log_bytes (map snd ps)"
  using assms
proof (induction "total_queued c" arbitrary: c tot result w log rule: less_induct)
  case less
  from less(7,2,5) show ?case
  proof (cases rule: FlushLoop_cases)
    case drained
    then have "flush_end budget r c c'"
      using less(6) drained_empty [OF less(2)] by (simp add: flush_end_def)
    then show ?thesis using drained by (intro exI [of _ "[]"] exI [of _ c] exI [of _ tot]) (simp add: pops_none log_bytes_def)
  next
    case (budget i)
    then have "flush_end budget r c c'" by (simp add: flush_end_def)
    then show ?thesis using budget by (intro exI [of _ "[]"] exI [of _ c] exI [of _ tot]) (simp add: pops_none log_bytes_def)
  next
    case (blocked i sub)
    then have "flush_end budget r c c'" by (simp add: flush_end_def)
    then show ?thesis using blocked logging_cases [OF blocked(2)]
      by (intro exI [of _ "[]"] exI [of _ c] exI [of _ tot]) (simp add: pops_none log_bytes_def)
  next
    case (failed i sub c1)
    then have "flush_end budget r c c'" using Clear_queues [OF failed(6)] by (simp add: flush_end_def)
    then show ?thesis using failed logging_cases [OF failed(2)]
      by (intro exI [of _ "[]"] exI [of _ c] exI [of _ tot]) (simp add: pops_none log_bytes_def)
  next
    case (sent i sub wl c1 tot1)
    let ?m = "hd (Queues c i)"
    let ?result = "result\<lparr>MessagesSubmitted := MessagesSubmitted result + 1,
          BytesSubmitted := BytesSubmitted result + length (Payload ?m)\<rparr>"
    obtain w1 log1 where wl: "wl = (w1, log1)" by fastforce
    have log1: "log1 = log @ [intent_of ?m]" using logging_cases [OF sent(4) [unfolded wl]] sent(5) by simp
    have "tied c tot c1 tot1" using PopFront_tied [OF less(2) sent(1) less(3,4)] sent(6) by simp
    then have inv: "conn_inv c1" "QueuedReliableBytes (Statistics c1) \<le> tot1" "tot1 \<le> u64_max"
      using tied_bound [OF _ less(3)] less(4) by (auto simp: tied_def)
    have "\<exists>ps c2 tot2. pops c1 tot1 ps c2 tot2 \<and> log' = log1 @ map snd ps \<and> flush_end budget r c2 c' \<and>
       MessagesSubmitted r = MessagesSubmitted ?result + length ps \<and>
       BytesSubmitted r = BytesSubmitted ?result + log_bytes (map snd ps)"
      by (rule less(1) [OF PopFront_shrinks [OF sent(1,6)] inv _ _ sent(7) [unfolded wl]]) (use less(6) sent(3) in simp_all)
    then obtain ps c2 tot2 where ps: "pops c1 tot1 ps c2 tot2" "log' = log1 @ map snd ps" "flush_end budget r c2 c'"
      "MessagesSubmitted r = MessagesSubmitted ?result + length ps"
      "BytesSubmitted r = BytesSubmitted ?result + log_bytes (map snd ps)" by blast
    have "pops c tot ((i, intent_of ?m) # ps) c2 tot2" by (rule pops_one [OF sent(1) refl sent(6) ps(1)])
    then show ?thesis using ps(2-5) log1
      by (intro exI [of _ "(i, intent_of ?m) # ps"] exI [of _ c2] exI [of _ tot2]) (simp add: log_bytes_def)
  qed
qed

text \<open>Popping takes every queue from its front, and a queue only loses messages.\<close>

lemma pops_fifo:
  "pops c tot ps c' tot' \<Longrightarrow>
   map intent_of (Queues c j) = map snd (filter (\<lambda>p. fst p = j) ps) @ map intent_of (Queues c' j)"
proof (induction rule: pops.induct)
  case (pops_one c i m tot c1 tot1 ps c' tot')
  have "Queues c1 = (Queues c)(i := tl (Queues c i))" using Queues_PopFront [of i m c tot] pops_one(3) by simp
  moreover have "Queues c i = m # tl (Queues c i)" using SelectQueue_lt [OF pops_one(1)] pops_one(2) by simp
  then have "map intent_of (Queues c i) = intent_of m # map intent_of (tl (Queues c i))" by (metis list.simps(9))
  ultimately show ?case using pops_one(5) by (cases "i = j") auto
qed simp

lemma pops_class:
  assumes "pops c tot ps c' tot'" "\<forall>i < 6. \<forall>m \<in> set (Queues c i). SchedulerTrafficPrecedence (Traffic m) = i" "p \<in> set ps"
  shows "SchedulerTrafficPrecedence (Traffic (snd p)) = fst p \<and> fst p < 6"
  using assms
proof (induction rule: pops.induct)
  case (pops_one c i m tot c1 tot1 ps c' tot')
  have q: "Queues c1 = (Queues c)(i := tl (Queues c i))" using Queues_PopFront [of i m c tot] pops_one(3) by simp
  have i: "i < 6" "Queues c i \<noteq> []" using SelectQueue_lt [OF pops_one(1)] by auto
  have "\<forall>j < 6. \<forall>m \<in> set (Queues c1 j). SchedulerTrafficPrecedence (Traffic m) = j"
    using pops_one(6) i by (auto simp: q dest: list.set_sel(2))
  then show ?case using pops_one i by auto
qed simp

lemma conn_inv_class: "conn_inv c \<Longrightarrow> \<forall>i < 6. \<forall>m \<in> set (Queues c i). SchedulerTrafficPrecedence (Traffic m) = i"
  by (simp add: conn_inv_def message_ok_def)

lemma pops_log_class:
  assumes "pops c tot ps c' tot'" "conn_inv c"
  shows "filter (\<lambda>m. SchedulerTrafficPrecedence (Traffic m) = j) (map snd ps) = map snd (filter (\<lambda>p. fst p = j) ps)"
  using pops_class [OF assms(1) conn_inv_class [OF assms(2)]]
  by (simp add: filter_map comp_def) (metis (mono_tags, lifting) filter_cong)

text \<open>
  The fairness of the choice between structural replication and reliable application
  traffic, as a count of the structural messages since the last gameplay message.
\<close>

fun fair_from :: "nat \<Rightarrow> nat list \<Rightarrow> bool" where
  "fair_from n [] = True"
| "fair_from n (i # is) =
     (if i = 1 then n < MaximumConsecutiveStructuralReplicationMessages \<and> fair_from (n + 1) is
      else if i = 2 then fair_from 0 is else fair_from n is)"

lemma next_streak_small: "n < 8 \<Longrightarrow> next_streak 1 n = n + 1"
  by (simp add: next_streak_def)

lemma pops_fair:
  "pops c tot ps c' tot' \<Longrightarrow> Queues c' 2 \<noteq> [] \<Longrightarrow>
   fair_from (ConsecutiveStructuralReplicationMessages c) (map fst ps) \<and> Queues c 2 \<noteq> [] \<and> set (map fst ps) \<subseteq> {0, 1, 2}"
proof (induction rule: pops.induct)
  case (pops_one c i m tot c1 tot1 ps c' tot')
  then have fair: "fair_from (ConsecutiveStructuralReplicationMessages c1) (map fst ps)" "Queues c1 2 \<noteq> []" "set (map fst ps) \<subseteq> {0, 1, 2}"
    by auto
  have "Queues c1 = (Queues c)(i := tl (Queues c i))" using Queues_PopFront [of i m c tot] pops_one(3) by simp
  then have q2: "Queues c 2 \<noteq> []" using fair(2) by (cases "i = 2") auto
  have streak: "ConsecutiveStructuralReplicationMessages c1 = next_streak i (ConsecutiveStructuralReplicationMessages c)"
    using pops_one(3) by (auto simp: PopFront_def stat_def Let_def split: if_splits)
  have "List.find (\<lambda>i. Queues c i \<noteq> []) queue_indices = Some 2" if "Queues c 0 = []" "Queues c 1 = []"
    using that q2 by (simp add: queue_indices_def upt_rec numeral_2_eq_2)
  then have "i = 0 \<or> i = 2 \<or> i = 1 \<and> ConsecutiveStructuralReplicationMessages c < 8"
    using pops_one(1) q2
    by (auto simp: SelectQueue_def MaximumConsecutiveStructuralReplicationMessages_def split: if_splits)
  then show ?case using fair streak q2
    by (auto simp: next_streak_def MaximumConsecutiveStructuralReplicationMessages_def)
qed simp

lemma control_precedence: "SchedulerTrafficPrecedence t = 0 \<longleftrightarrow> t = Control"
  by (cases t) simp_all

lemma fair_window:
  "fair_from n (vs @ ws) \<Longrightarrow> set vs \<subseteq> {1} \<Longrightarrow> n + length vs \<le> MaximumConsecutiveStructuralReplicationMessages \<or> vs = []"
proof (induction vs arbitrary: n)
  case (Cons v vs)
  then have "n < MaximumConsecutiveStructuralReplicationMessages" "fair_from (Suc n) (vs @ ws)" by (auto split: if_splits)
  with Cons.IH [of "Suc n"] Cons.prems(2) show ?case by (cases vs) auto
qed simp

lemma fair_from_noncontrol: "fair_from n is \<Longrightarrow> fair_from n (filter (\<lambda>i. i \<noteq> 0) is)"
  by (induction n "is" rule: fair_from.induct) auto

lemma fair_from_append: "fair_from n (us @ vs) \<Longrightarrow> \<exists>k. fair_from k vs"
  by (induction us arbitrary: n) (auto split: if_splits)

lemma fair_from_window:
  assumes "fair_from n is" "filter (\<lambda>i. i \<noteq> 0) is = us @ vs @ ws" "set is \<subseteq> {0, 1, 2}"
    "length vs > MaximumConsecutiveStructuralReplicationMessages"
  shows "2 \<in> set vs"
proof (rule ccontr)
  assume no: "2 \<notin> set vs"
  have "set vs \<subseteq> set (filter (\<lambda>i. i \<noteq> 0) is)" unfolding assms(2) by auto
  then have "set vs \<subseteq> {1}" using no assms(3) by auto
  moreover obtain k where "fair_from k (vs @ ws)"
    using fair_from_append [of n us "vs @ ws"] fair_from_noncontrol [OF assms(1)] assms(2) by auto
  ultimately have "k + length vs \<le> MaximumConsecutiveStructuralReplicationMessages \<or> vs = []" by (rule fair_window [rotated])
  then show False using assms(4) by auto
qed

lemma rejected_diagnostic:
  "DisconnectInfo_IsValid (DisconnectInfo DisconnectTransportFailure (ascii ''Transport rejected scheduler submission''))"
  unfolding DisconnectInfo_IsValid_def by code_simp

lemma FlushLoop_valid:
  assumes "conn_inv c" "QueuedReliableBytes (Statistics c) \<le> tot" "tot \<le> u64_max"
    "BytesSubmitted result \<le> BudgetMaximumBytes budget" "MessagesSubmitted result \<le> unat (BudgetMaximumMessages budget)"
    "FlushStatus result = Drained" "FlushDisconnect result = None"
    "\<And>m w. TransportOperationResult_IsValid (fst (send m w))"
    "FlushLoop send budget result c tot w = (r, c', tot', w')"
  shows "FlushResult_IsValidFor r budget"
  using assms
proof (induction "total_queued c" arbitrary: c tot result w rule: less_induct)
  case less
  from less(10,2,5) show ?case
  proof (cases rule: FlushLoop_cases)
    case (failed i sub c1)
    have "TransportOperationResult_IsValid sub" using less(9) [of "intent_of (hd (Queues c i))" w] failed(2) by simp
    then have "DisconnectInfo_IsValid (case TerminalDisconnect sub of Some d \<Rightarrow> d
         | None \<Rightarrow> DisconnectInfo DisconnectTransportFailure (ascii ''Transport rejected scheduler submission''))"
      by (cases "TerminalDisconnect sub") (simp_all add: TransportOperationResult_IsValid_def rejected_diagnostic)
    then show ?thesis using failed less(5,6) by (simp add: FlushResult_IsValidFor_def)
  next
    case (sent i sub w1 c1 tot1)
    have "tied c tot c1 tot1" using PopFront_tied [OF less(2) sent(1) less(3,4)] sent(6) by simp
    then have inv: "conn_inv c1" "QueuedReliableBytes (Statistics c1) \<le> tot1" "tot1 \<le> u64_max"
      using tied_bound [OF _ less(3)] less(4) by (auto simp: tied_def)
    show ?thesis
      by (rule less(1) [OF PopFront_shrinks [OF sent(1,6)] inv _ _ _ _ less(9) sent(7)])
        (use less(6,7,8) sent(2,3) in simp_all)
  qed (use less(5-8) in \<open>simp_all add: FlushResult_IsValidFor_def\<close>)
qed

text \<open>From the loop to \<open>Flush\<close>: the state in which it starts, and the cases it refuses.\<close>

definition flushable :: "ConnectionQueue \<Rightarrow> SchedulerTickBudget \<Rightarrow> bool" where
  "flushable c budget \<longleftrightarrow> Active c \<and> TickBudget_IsValidFor budget (Limits c)"

definition start_result :: SchedulerFlushResult where
  "start_result = \<lparr>FlushStatus = Drained, MessagesSubmitted = 0, BytesSubmitted = 0, FlushDisconnect = None\<rparr>"

lemma start_result_simps [simp]: "FlushStatus start_result = Drained" "MessagesSubmitted start_result = 0"
  "BytesSubmitted start_result = 0" "FlushDisconnect start_result = None"
  by (simp_all add: start_result_def)

lemma Flush_refused:
  assumes "Flush send i budget st w = (r, st', w')" "map_of (Connections st) i = Some c" "\<not> flushable c budget"
  shows "st' = st \<and> w' = w \<and> MessagesSubmitted r = 0 \<and> BytesSubmitted r = 0 \<and> FlushDisconnect r = None \<and>
    (FlushStatus r = FlushInvalidConnection \<or> FlushStatus r = InvalidBudget)"
  using assms by (auto simp: Flush_def flushable_def Let_def split: if_splits)

lemma Flush_unknown:
  assumes "Flush send i budget st w = (r, st', w')" "map_of (Connections st) i = None"
  shows "st' = st \<and> w' = w \<and> r = start_result\<lparr>FlushStatus := FlushInvalidConnection\<rparr>"
  using assms by (auto simp: Flush_def start_result_def Let_def)

lemma Flush_loop:
  assumes "sched_inv st" "Flush send i budget st w = (r, st', w')" "map_of (Connections st) i = Some c" "flushable c budget"
  obtains c' tot' where "FlushLoop send budget start_result c (TotalQueuedReliableBytes st) w = (r, c', tot', w')"
    "map_of (Connections st') i = Some c'" "conn_inv c" "QueuedReliableBytes (Statistics c) \<le> TotalQueuedReliableBytes st"
    "TotalQueuedReliableBytes st \<le> u64_max"
proof -
  obtain c' tot' where l: "FlushLoop send budget start_result c (TotalQueuedReliableBytes st) w = (r, c', tot', w')"
    "st' = (put_connection i c' st)\<lparr>TotalQueuedReliableBytes := tot'\<rparr>"
    using assms(2-4) by (auto simp: Flush_def flushable_def start_result_def Let_def split: prod.splits)
  moreover have "map_of (Connections st') i = Some c'" by (simp add: l(2) put_connection_def update_conv)
  moreover have "QueuedReliableBytes (Statistics c) \<le> TotalQueuedReliableBytes st" "TotalQueuedReliableBytes st \<le> u64_max"
    using assms(1) total_member [OF assms(3)] by (simp_all add: sched_inv_def)
  ultimately show ?thesis using that lookup_inv [OF assms(1,3)] by blast
qed

lemma Flush_pops:
  assumes "sched_inv st" "Flush (logging send) i budget st (w, []) = (r, st', w', log)"
    "map_of (Connections st) i = Some c" "map_of (Connections st') i = Some c'" "FlushStatus r \<noteq> TerminalFailure"
  shows "\<exists>ps c1 tot1. pops c (TotalQueuedReliableBytes st) ps c1 tot1 \<and> log = map snd ps \<and> Queues c' = Queues c1"
proof (cases "flushable c budget")
  case True
  from assms(1-3) this obtain c2 tot' where
    l: "FlushLoop (logging send) budget start_result c (TotalQueuedReliableBytes st) (w, []) = (r, c2, tot', w', log)"
    "map_of (Connections st') i = Some c2" and inv: "conn_inv c" "QueuedReliableBytes (Statistics c) \<le> TotalQueuedReliableBytes st"
    "TotalQueuedReliableBytes st \<le> u64_max" by (rule Flush_loop)
  obtain ps c1 tot1 where "pops c (TotalQueuedReliableBytes st) ps c1 tot1" "log = [] @ map snd ps" "flush_end budget r c1 c2"
    using FlushLoop_pops [OF inv _ _ l(1)] by auto
  moreover have "Queues c2 = Queues c1"
    using calculation(3) assms(5) by (auto simp: flush_end_def split: SchedulerFlushStatus.splits)
  ultimately show ?thesis using l(2) assms(4) by auto
next
  case False
  then show ?thesis using Flush_refused [OF assms(2,3)] assms(3,4)
    by (intro exI [of _ "[]"] exI [of _ c] exI [of _ "TotalQueuedReliableBytes st"]) (simp add: pops_none)
qed

section \<open>What an accepted sequenced submission leaves\<close>

lemma AppendUnreliable_queued:
  assumes "AppendUnreliable thread at m (c, s) = (c', s')"
  shows "\<exists>q \<in># qmset (Queues c'). intent_of q = m"
proof -
  obtain c1 s1 where q: "Queue thread at m (c, s) = (c1, s1)" by fastforce
  then obtain md where "Queues c1 = (Queues c)(SchedulerTrafficPrecedence (Traffic m) :=
        Queues c (SchedulerTrafficPrecedence (Traffic m)) @ [NetworkMessageIntent.extend m \<lparr>OrdinaryService = md\<rparr>])"
    by (rule Queue_result) simp
  moreover have "Queues c' = Queues c1" using assms q by (auto simp: AppendUnreliable_def)
  ultimately have "NetworkMessageIntent.extend m \<lparr>OrdinaryService = md\<rparr> \<in># qmset (Queues c')"
    using precedence_lt by (simp add: qmset_snoc)
  then show ?thesis by (intro bexI) simp_all
qed

lemma rejected: "RejectUnreliable c = (r, c') \<Longrightarrow> \<not> SubmitResult_Accepted r"
  by (auto simp: RejectUnreliable_def SubmitResult_Accepted_def)

lemma SubmitFresh_queued:
  "SubmitFresh thread at m (c, s) = (r, c', s') \<Longrightarrow> SubmitResult_Accepted r \<Longrightarrow> \<exists>q \<in># qmset (Queues c'). intent_of q = m"
  by (auto simp: SubmitFresh_def with_service dest: rejected split: if_splits intro!: AppendUnreliable_queued)

lemma SubmitUnreliable_queued:
  assumes sub: "SubmitUnreliable thread at m (c, s) = (r, c', s')" and acc: "SubmitResult_Accepted r"
  shows "\<exists>q \<in># qmset (Queues c'). intent_of q = m"
proof -
  consider "SubmitFresh thread at m (c, s) = (r, c', s')" | "RejectUnreliable c = (r, c')"
    | c2 c3 s3 where "AppendUnreliable thread at m (c2, s) = (c3, s3)" "Queues c' = Queues c3"
    using sub by (auto simp: SubmitUnreliable_def Let_def with_service split: if_splits option.splits prod.splits)
  then show ?thesis
    using SubmitFresh_queued acc rejected AppendUnreliable_queued by cases fastforce+
qed

lemma Submit_sequenced:
  assumes "sched_inv st" "Delivery m = UnreliableSequenced" "Submit thread at m st = (r, st')" "SubmitResult_Accepted r"
  shows "\<exists>c'. map_of (Connections st') (Destination m) = Some c' \<and> (\<exists>q \<in># qmset (Queues c'). intent_of q = m)"
proof -
  obtain c where c: "map_of (Connections st) (Destination m) = Some c"
    using assms(3,4) by (cases "map_of (Connections st) (Destination m)") (auto simp: Submit_def SubmitResult_Accepted_def)
  obtain r1 c1 s1 where s1: "SubmitUnreliable thread at m (c, Service st) = (r1, c1, s1)" by (metis prod.exhaust)
  have ok: "Active c" "IsNetworkMessageIntentValid m (Limits c)"
    using assms(3,4) c by (cases "Active c"; cases "IsNetworkMessageIntentValid m (Limits c)";
        force simp: Submit_def SubmitResult_Accepted_def)+
  have s: "SubmitUnreliable thread at m (c, Service st) = (r, c1, s1)"
    "st' = (put_connection (Destination m) c1 st)\<lparr>Service := s1\<rparr>"
    using assms(2,3) c ok s1 by (simp_all add: Submit_def)
  then show ?thesis using SubmitUnreliable_queued [OF s(1) assms(4)] by (simp add: put_connection_def update_conv)
qed

lemma unique_key:
  assumes "keys_unique A" "q \<in># A" "has_key k q"
  shows "filter_mset (has_key k) A = {#q#}"
proof -
  have "q \<in># filter_mset (has_key k) A" using assms by simp
  moreover have "size (filter_mset (has_key k) A) \<le> 1" using assms(1) by (simp add: keys_unique_def)
  ultimately show ?thesis 
    by (cases "filter_mset (has_key k) A") auto
qed

section \<open>Properties\<close>

lemmas scheduler_reachable = scheduler.inv_reachable


text \<open>
  C16. A flush returns a result that is valid for its budget, it counts exactly the messages
  and bytes the transport took, and it reports \<open>Drained\<close> only with every queue empty: an
  unknown connection, an inactive one or an invalid budget sends nothing. The transport is
  assumed to return results that are valid in the sense of its interface.
\<close>

theorem flush_within_budget:
  assumes "sched_initial s0" "reachable_from sched_step s0 st"
    and "\<And>m w. TransportOperationResult_IsValid (fst (send m w))"
    and "Flush (logging send) i budget st (w, []) = (r, st', w', log)"
  shows "FlushResult_IsValidFor r budget \<and> MessagesSubmitted r = length log \<and> BytesSubmitted r = log_bytes log \<and>
    (FlushStatus r = Drained \<longrightarrow> (\<exists>c'. map_of (Connections st') i = Some c' \<and> qmset (Queues c') = {#}))"
proof -
  have inv: "sched_inv st" using scheduler_reachable [OF assms(1,2)] .
  consider "map_of (Connections st) i = None" | c where "map_of (Connections st) i = Some c" "\<not> flushable c budget"
    | c where "map_of (Connections st) i = Some c" "flushable c budget" by (cases "map_of (Connections st) i") auto
  then show ?thesis
  proof cases
    case 1
    then show ?thesis using Flush_unknown [OF assms(4)] by (simp add: FlushResult_IsValidFor_def log_bytes_def)
  next
    case (2 c)
    then show ?thesis using Flush_refused [OF assms(4)] by (auto simp: FlushResult_IsValidFor_def log_bytes_def)
  next
    case (3 c)
    with inv assms(4) obtain c' tot' where l: "FlushLoop (logging send) budget start_result c (TotalQueuedReliableBytes st) (w, []) = (r, c', tot', w', log)"
      "map_of (Connections st') i = Some c'" and c: "conn_inv c" "QueuedReliableBytes (Statistics c) \<le> TotalQueuedReliableBytes st"
      "TotalQueuedReliableBytes st \<le> u64_max" by (rule Flush_loop)
    have "TransportOperationResult_IsValid (fst (logging send m wl))" for m wl
      using assms(3) [of m "fst wl"] by (cases "send m (fst wl)") (simp add: logging_def)
    then have "FlushResult_IsValidFor r budget" by (intro FlushLoop_valid [OF c _ _ _ _ _ l(1)]) auto
    moreover have "\<exists>ps c1 tot1. pops c (TotalQueuedReliableBytes st) ps c1 tot1 \<and> log = [] @ map snd ps \<and>
      flush_end budget r c1 c' \<and> MessagesSubmitted r = MessagesSubmitted start_result + length ps \<and>
      BytesSubmitted r = BytesSubmitted start_result + log_bytes (map snd ps)"
      by (rule FlushLoop_pops [OF c _ _ l(1)]) simp_all
    ultimately show ?thesis using l(2) by (auto simp: flush_end_def)
  qed
qed




section \<open>Witnesses\<close>

definition ex_limits :: NetworkLimits where
  "ex_limits = \<lparr>MaximumReliableMessageBytes = 64, MaximumUnreliableMessageBytes = 64, MaximumQueuedReliableBytes = 256,
     MaximumInFlightRemoteRequests = 4, MaximumDecodedMessageBytes = 64, MaximumSendBytesPerTick = 128,
     MaximumReceiveBytesPerTick = 128, MaximumMessagesPerTick = 8\<rparr>"

definition ex_id :: ConnectionId where
  "ex_id = ConnectionId 1 1"

definition ex_message :: "DeliveryMode \<Rightarrow> TrafficClass \<Rightarrow> MessageOrder \<Rightarrow> bytes \<Rightarrow> NetworkMessageIntent" where
  "ex_message d t ord p = \<lparr>Destination = ex_id, Delivery = d, Traffic = t, Order = ord, Payload = p,
     ReliableRetirementToken = 0, ReliableGrantActivatedAtMicroseconds = 0\<rparr>"

definition ex_start :: NetworkScheduler where
  "ex_start = \<lparr>MaximumTotalQueuedReliableBytes = 1024, TotalQueuedReliableBytes = 0, Connections = [],
     Service = new_store 0 (\<lambda>_. None) (\<lambda>_. False)\<rparr>"

definition ex_registered :: NetworkScheduler where
  "ex_registered = snd (RegisterConnection ex_id ex_limits ex_start)"

definition ex_submit :: "NetworkMessageIntent \<Rightarrow> NetworkScheduler \<Rightarrow> NetworkScheduler" where
  "ex_submit m st = snd (Submit 0 1 m st)"

definition ex_queued :: NetworkScheduler where
  "ex_queued = ex_submit (ex_message ReliableOrdered ReliableApplication NoOrder [2, 2])
     (ex_submit (ex_message ReliableOrdered StructuralReplication NoOrder [1]) ex_registered)"

definition ex_send :: "nat transport" where
  "ex_send m w = (TransportOperationResult Succeeded None, w + 1)"

definition ex_budget :: SchedulerTickBudget where
  "ex_budget = \<lparr>BudgetMaximumBytes = 64, BudgetMaximumMessages = 1\<rparr>"

lemmas scheduler_eval = RegisterConnection_def Submit_def SubmitReliable_def SubmitUnreliable_def SubmitFresh_def
  AppendUnreliable_def Queue_def stat_def put_connection_def new_ConnectionQueue_def empty_statistics_def Let_def
  ex_limits_def ex_id_def ex_message_def ex_start_def ex_submit_def NetworkLimits_IsValid_def native_limits
  ConnectionId_IsValid_def IsNetworkMessageIntentValid_def ValidateIntent_def IsValidDeliveryMode_def IsValidTrafficClass_def
  sub64_def add64_def u64_max_def ReliableServiceEnvelopeBytes_def Sequence_IsValid_def NetworkMessageIntent.extend_def

lemma ex_initial: "sched_initial ex_start"
  unfolding sched_initial_def
  by (rule exI [of _ 1024], rule exI [of _ "new_store 0 (\<lambda>_. None) (\<lambda>_. False)"])
    (simp add: new_NetworkScheduler_def ex_start_def u64_max_def)

lemma ex_registered_eval: "ex_registered = ex_start\<lparr>Connections := [(ex_id, new_ConnectionQueue ex_limits)]\<rparr>"
  by (simp add: ex_registered_def scheduler_eval)

lemma ex_registered_reachable: "reachable_from sched_step ex_start ex_registered"
  by (rule reach_step [OF reach_refl], rule step_register [where ok = "fst (RegisterConnection ex_id ex_limits ex_start)" and i = ex_id and l = ex_limits])
    (simp add: ex_registered_def)

lemma ex_submit_reachable:
  "reachable_from sched_step ex_start st \<Longrightarrow> disciplined m \<Longrightarrow> reachable_from sched_step ex_start (ex_submit m st)"
  by (erule reach_step, rule step_submit [where r = "fst (Submit 0 1 m st)" and thread = 0 and at = 1 and m = m]) (simp_all add: ex_submit_def)

lemma ex_queued_reachable: "reachable_from sched_step ex_start ex_queued"
  unfolding ex_queued_def
  by (intro ex_submit_reachable ex_registered_reachable) (simp_all add: disciplined_def ex_message_def)

lemma ex_queued_eval: "\<exists>c. map_of (Connections ex_queued) ex_id = Some c \<and> Active c \<and> Limits c = ex_limits \<and>
   QueuedMessages (Statistics c) = 2 \<and> length (Queues c 1) = 1 \<and> length (Queues c 2) = 1"
  unfolding ex_queued_def ex_registered_eval
  by (simp add: scheduler_eval)


lemma queue_indices_eval: "queue_indices = [0, 1, 2, 3, 4, 5]"
  by code_simp

lemma ex_send_valid: "TransportOperationResult_IsValid (fst (ex_send m w))"
  by (simp add: ex_send_def TransportOperationResult_IsValid_def)

lemmas flush_eval = Flush_def FlushLoop.simps SelectQueue_def PopFront_def Clear_def logging_def ex_send_def ex_budget_def
  TickBudget_IsValidFor_def intent_of_def NetworkMessageIntent.truncate_def next_streak_def queue_indices_eval
  MaximumConsecutiveStructuralReplicationMessages_def

lemma ex_flush:
  "\<exists>r st' c c'. Flush (logging ex_send) ex_id ex_budget ex_queued (0, []) =
      (r, st', 1, [ex_message ReliableOrdered StructuralReplication NoOrder [1]]) \<and> FlushStatus r = BudgetLimited \<and>
    map_of (Connections ex_queued) ex_id = Some c \<and> map_of (Connections st') ex_id = Some c' \<and> Queues c' 2 \<noteq> []"
  unfolding ex_queued_def ex_registered_eval
  by (simp add: scheduler_eval flush_eval)


theorem flush_within_budget_witness:
  "\<exists>r st'. Flush (logging ex_send) ex_id ex_budget ex_queued (0, []) =
      (r, st', 1, [ex_message ReliableOrdered StructuralReplication NoOrder [1]]) \<and> FlushResult_IsValidFor r ex_budget \<and>
      MessagesSubmitted r = 1"
proof -
  obtain r st' where f: "Flush (logging ex_send) ex_id ex_budget ex_queued (0, []) =
      (r, st', 1, [ex_message ReliableOrdered StructuralReplication NoOrder [1]])" using ex_flush by blast
  show ?thesis using flush_within_budget [OF ex_initial ex_queued_reachable ex_send_valid f] f by auto
qed



definition ex_state :: "u64 \<Rightarrow> NetworkMessageIntent" where
  "ex_state n = ex_message UnreliableSequenced RealtimeState (RealtimeStateOrder 7 n) [5]"

lemma ex_sequenced:
  "fst (Submit 0 1 (ex_state 3) (ex_submit (ex_state 2) ex_registered)) = SchedulerSubmitResult AcceptedWithSupersession None"
  unfolding ex_registered_eval ex_state_def
  by (simp add: scheduler_eval find_key_def has_key_def queued_sequence_def queue_indices_eval extract_Nil_code extract_Cons_code)


definition ex_reliable_state :: NetworkMessageIntent where
  "ex_reliable_state = ex_message ReliableOrdered ReliableApplication (RealtimeStateOrder 7 2) [9, 9]"



end
