(* ===== verification/ChangeJournal.thy ===== *)
theory ChangeJournal imports WireValue begin

text \<open>
  The change journal of src/runtime/ChangeJournal.cpp: one bounded stream of numbered
  records per scope, from which replication reads with cursors. The journal is a singleton
  behind a mutex and every operation holds the mutex for its whole body, so operations are
  atomic steps on one state. The thread-local variables of the file belong to the Main
  thread, the only one that may commit, and are part of the state. The calls to the
  renderer's accumulator are recorded as a list; the time a profiled call takes is an
  argument. Memory exhaustion is not modelled.
\<close>

section \<open>Data\<close>

definition DefaultChangeJournalCapacity :: nat where
  "DefaultChangeJournalCapacity = 16384"

datatype ChangePayload =
    ObjectCreatedChange (CreatedClassName: bytes) (CreatedClassSchemaId: SchemaId) (CreatedDefinitionVersion: u32)
  | PropertyUpdatedChange (UpdatedPropertyName: bytes) (UpdatedValue: WireValue) (UpdatedReplicated: bool)
      (UpdatedDeclaringClassSchemaId: "SchemaId option") (UpdatedDefinitionVersion: u32)
  | AttributeUpdatedChange (AttributeName: bytes) (AttributeValue: "WireValue option")
  | ExtensionPropertyUpdatedChange (ExtensionSchemaId: SchemaId) (ExtensionDefinitionVersion: u32)
      (ExtensionPropertyName: bytes) (ExtensionValue: WireValue)
  | TagAddedChange (AddedTagName: bytes)
  | TagRemovedChange (RemovedTagName: bytes)
  | ObjectReparentedChange (NewParent: "ObjectId option")
  | ObjectDestroyedChange

record ChangeRecord =
  Sequence :: nat
  Scope :: ObjectId
  Object :: ObjectId
  ChangedBy :: ChangePayload

record BufferedChangeRecord =
  BufferedScope :: ObjectId
  BufferedObject :: ObjectId
  BufferedPayload :: ChangePayload

record ChangeCursor =
  CursorScope :: ObjectId
  CursorNext :: nat

datatype ChangeReadStatus = Available | ResnapshotRequired

record ChangeReadResult =
  ReadStatus :: ChangeReadStatus
  ReadCursor :: ChangeCursor
  ReadRecords :: "ChangeRecord list"

record ChangeRetentionWindow =
  OldestSequence :: nat
  WindowNextSequence :: nat
  RetainedRecords :: nat
  WindowCapacity :: nat

record ChangeJournalProfile =
  CommitCount :: u64
  EvictedRecordCount :: u64
  JournalNanoseconds :: u64

record Stream =
  NextSequence :: nat
  Records :: "ChangeRecord list"

definition new_Stream :: Stream where
  "new_Stream = \<lparr>NextSequence = 1, Records = []\<rparr>"

record ChangeJournal =
  Capacity :: nat
  Streams :: "ObjectId \<Rightarrow> Stream option"
  ProfilingEnabled :: bool
  Profile :: ChangeJournalProfile
  OnMain :: bool
  SuppressionDepth :: nat
  SuppressedRenderScope :: ObjectId
  CapturedRecords :: "BufferedChangeRecord list option"
  RenderDirty :: "BufferedChangeRecord list"

definition no_scope :: ObjectId where
  "no_scope = ObjectId 0 0"

definition zero_profile :: ChangeJournalProfile where
  "zero_profile = \<lparr>CommitCount = 0, EvictedRecordCount = 0, JournalNanoseconds = 0\<rparr>"

definition new_ChangeJournal :: ChangeJournal where
  "new_ChangeJournal =
     \<lparr>Capacity = DefaultChangeJournalCapacity, Streams = (\<lambda>_. None), ProfilingEnabled = False, Profile = zero_profile,
      OnMain = True, SuppressionDepth = 0, SuppressedRenderScope = no_scope, CapturedRecords = None, RenderDirty = []\<rparr>"

datatype JournalError =
  NotAuthoritative | SequenceExhausted | BatchExceedsCapacity | PreparedInsideCapture | CaptureAlreadyActive

section \<open>Committing\<close>

definition DiscardsPayload :: "ObjectId \<Rightarrow> ChangeJournal \<Rightarrow> bool" where
  "DiscardsPayload s j \<longleftrightarrow> SuppressionDepth j \<noteq> 0 \<and> (\<not> ObjectId_IsValid s \<or> s \<noteq> SuppressedRenderScope j)"

definition RecordChanges :: "BufferedChangeRecord list \<Rightarrow> ChangeJournal \<Rightarrow> ChangeJournal" where
  "RecordChanges bs j = j\<lparr>RenderDirty := RenderDirty j @ bs\<rparr>"

definition stream_of :: "ObjectId \<Rightarrow> ChangeJournal \<Rightarrow> Stream" where
  "stream_of s j = (case Streams j s of None \<Rightarrow> new_Stream | Some st \<Rightarrow> st)"

text \<open>The loops \<open>while (size > Capacity) pop_front()\<close>, with the number of evicted records.\<close>

fun evict :: "nat \<Rightarrow> 'a list \<Rightarrow> 'a list" where
  "evict cap [] = []"
| "evict cap (x # xs) = (if length (x # xs) > cap then evict cap xs else x # xs)"

definition AddProfile :: "nat \<Rightarrow> nat \<Rightarrow> u64 \<Rightarrow> ChangeJournal \<Rightarrow> ChangeJournal" where
  "AddProfile commits evicted ns j =
     (if ProfilingEnabled j
      then j\<lparr>Profile := \<lparr>CommitCount = CommitCount (Profile j) + of_nat commits,
             EvictedRecordCount = EvictedRecordCount (Profile j) + of_nat evicted,
             JournalNanoseconds = JournalNanoseconds (Profile j) + ns\<rparr>\<rparr>
      else j)"

definition Commit :: "u64 \<Rightarrow> ObjectId \<Rightarrow> ObjectId \<Rightarrow> ChangePayload \<Rightarrow> ChangeJournal \<Rightarrow> (JournalError + nat) \<times> ChangeJournal" where
  "Commit ns s obj p j =
     (let b = \<lparr>BufferedScope = s, BufferedObject = obj, BufferedPayload = p\<rparr>
      in if \<not> OnMain j then (Inl NotAuthoritative, j)
         else if SuppressionDepth j \<noteq> 0
         then (Inr 0, if ObjectId_IsValid s \<and> s = SuppressedRenderScope j then RecordChanges [b] j else j)
         else (case CapturedRecords j of
             Some bs \<Rightarrow> (Inr 0, j\<lparr>CapturedRecords := Some (bs @ [b])\<rparr>)
           | None \<Rightarrow>
               (let j1 = RecordChanges [b] j; st = stream_of s j1
                in if NextSequence st = u64_max
                   then (Inl SequenceExhausted, j1\<lparr>Streams := (Streams j1)(s \<mapsto> st)\<rparr>)
                   else
                     (let rs = Records st @ [\<lparr>Sequence = NextSequence st, Scope = s, Object = obj, ChangedBy = p\<rparr>];
                          kept = evict (Capacity j1) rs;
                          j2 = j1\<lparr>Streams := (Streams j1)(s \<mapsto> \<lparr>NextSequence = NextSequence st + 1, Records = kept\<rparr>)\<rparr>
                      in (Inr (NextSequence st), AddProfile 1 (length rs - length kept) ns j2)))))"

definition CommitUnscoped :: "u64 \<Rightarrow> ObjectId \<Rightarrow> ChangePayload \<Rightarrow> ChangeJournal \<Rightarrow> (JournalError + nat) \<times> ChangeJournal" where
  "CommitUnscoped ns obj p j = Commit ns no_scope obj p j"

fun AppendAll :: "ObjectId \<Rightarrow> nat \<Rightarrow> ChangeRecord list \<Rightarrow> (ObjectId \<times> ChangePayload) list \<Rightarrow> (nat \<times> ChangeRecord list) option" where
  "AppendAll s n rs [] = Some (n, rs)"
| "AppendAll s n rs ((obj, p) # changes) =
     (if n = u64_max then None
      else AppendAll s (n + 1) (rs @ [\<lparr>Sequence = n, Scope = s, Object = obj, ChangedBy = p\<rparr>]) changes)"

definition buffered :: "ObjectId \<Rightarrow> (ObjectId \<times> ChangePayload) list \<Rightarrow> BufferedChangeRecord list" where
  "buffered s changes = map (\<lambda>(obj, p). \<lparr>BufferedScope = s, BufferedObject = obj, BufferedPayload = p\<rparr>) changes"

definition CommitBatch :: "u64 \<Rightarrow> ObjectId \<Rightarrow> (ObjectId \<times> ChangePayload) list \<Rightarrow> ChangeJournal \<Rightarrow> (JournalError + unit) \<times> ChangeJournal" where
  "CommitBatch ns s changes j =
     (if \<not> OnMain j then (Inl NotAuthoritative, j)
      else if changes = [] then (Inr (), j)
      else if SuppressionDepth j \<noteq> 0
      then (Inr (), if ObjectId_IsValid s \<and> s = SuppressedRenderScope j then RecordChanges (buffered s changes) j else j)
      else (case CapturedRecords j of
          Some bs \<Rightarrow> (Inr (), j\<lparr>CapturedRecords := Some (bs @ buffered s changes)\<rparr>)
        | None \<Rightarrow>
            (let j1 = RecordChanges (buffered s changes) j; st = stream_of s j1
             in case AppendAll s (NextSequence st) (Records st) changes of
                  None \<Rightarrow> (Inl SequenceExhausted, j1\<lparr>Streams := (Streams j1)(s \<mapsto> st)\<rparr>)
                | Some (n, rs) \<Rightarrow>
                    (let kept = evict (Capacity j1) rs;
                         j2 = j1\<lparr>Streams := (Streams j1)(s \<mapsto> \<lparr>NextSequence = n, Records = kept\<rparr>)\<rparr>
                     in (Inr (), AddProfile (length changes) (length rs - length kept) ns j2)))))"

definition EnsureCanCommit :: "ObjectId \<Rightarrow> nat \<Rightarrow> ChangeJournal \<Rightarrow> JournalError + unit" where
  "EnsureCanCommit s count j =
     (if \<not> OnMain j then Inl NotAuthoritative
      else if SuppressionDepth j \<noteq> 0 \<or> count = 0 then Inr ()
      else
        (let next' = (case Streams j s of None \<Rightarrow> 1 | Some st \<Rightarrow> NextSequence st)
         in if count > u64_max - next' then Inl SequenceExhausted else Inr ()))"

section \<open>Prepared batches\<close>

record Candidate =
  CandidateScope :: ObjectId
  CandidateRecords :: "ChangeRecord list"
  CandidateNext :: nat
  Created :: bool

definition scope_count :: "ObjectId \<Rightarrow> BufferedChangeRecord list \<Rightarrow> nat" where
  "scope_count s bs = length (filter (\<lambda>b. BufferedScope b = s) bs)"

definition new_Candidate :: "ObjectId \<Rightarrow> ChangeJournal \<Rightarrow> Candidate" where
  "new_Candidate s j =
     \<lparr>CandidateScope = s, CandidateRecords = Records (stream_of s j), CandidateNext = NextSequence (stream_of s j),
      Created = False\<rparr>"

definition AppendCandidate :: "BufferedChangeRecord \<Rightarrow> Candidate \<Rightarrow> Candidate" where
  "AppendCandidate b c =
     c\<lparr>CandidateRecords := CandidateRecords c @
         [\<lparr>Sequence = CandidateNext c, Scope = BufferedScope b, Object = BufferedObject b, ChangedBy = BufferedPayload b\<rparr>],
       CandidateNext := CandidateNext c + 1\<rparr>"

fun UpdateCandidate :: "BufferedChangeRecord \<Rightarrow> Candidate list \<Rightarrow> Candidate list option" where
  "UpdateCandidate b [] = None"
| "UpdateCandidate b (c # cs) =
     (if CandidateScope c = BufferedScope b then Some (AppendCandidate b c # cs)
      else map_option ((#) c) (UpdateCandidate b cs))"

definition PrepareRecord :: "BufferedChangeRecord list \<Rightarrow> ChangeJournal \<Rightarrow> BufferedChangeRecord \<Rightarrow> Candidate list \<Rightarrow>
    JournalError + Candidate list" where
  "PrepareRecord bs j b cs =
     (case UpdateCandidate b cs of
        Some cs' \<Rightarrow> Inr cs'
      | None \<Rightarrow>
          (let c = new_Candidate (BufferedScope b) j; count = scope_count (BufferedScope b) bs
           in if count > Capacity j then Inl BatchExceedsCapacity
              else if count > u64_max - CandidateNext c then Inl SequenceExhausted
              else Inr (cs @ [AppendCandidate b c])))"

fun PrepareAll :: "BufferedChangeRecord list \<Rightarrow> ChangeJournal \<Rightarrow> BufferedChangeRecord list \<Rightarrow> Candidate list \<Rightarrow>
    JournalError + Candidate list" where
  "PrepareAll bs j [] cs = Inr cs"
| "PrepareAll bs j (b # rest) cs =
     (case PrepareRecord bs j b cs of Inl e \<Rightarrow> Inl e | Inr cs' \<Rightarrow> PrepareAll bs j rest cs')"

record PreparedJournalBatch =
  Candidates :: "Candidate list"
  Installed :: bool
  RecordCount :: nat
  Evicted :: nat

fun TryEmplace :: "Candidate list \<Rightarrow> (ObjectId \<Rightarrow> Stream option) \<Rightarrow> Candidate list \<times> (ObjectId \<Rightarrow> Stream option)" where
  "TryEmplace [] m = ([], m)"
| "TryEmplace (c # cs) m =
     (let fresh = m (CandidateScope c) = None;
          (cs', m') = TryEmplace cs (if fresh then m(CandidateScope c \<mapsto> new_Stream) else m)
      in (c\<lparr>Created := fresh\<rparr> # cs', m'))"

definition new_PreparedJournalBatch :: "BufferedChangeRecord list \<Rightarrow> ChangeJournal \<Rightarrow>
    JournalError + PreparedJournalBatch \<times> ChangeJournal" where
  "new_PreparedJournalBatch bs j =
     (if SuppressionDepth j \<noteq> 0 \<or> CapturedRecords j \<noteq> None then Inl PreparedInsideCapture
      else (case PrepareAll bs j bs [] of
          Inl e \<Rightarrow> Inl e
        | Inr cs \<Rightarrow>
            (let kept = map (\<lambda>c. c\<lparr>CandidateRecords := evict (Capacity j) (CandidateRecords c)\<rparr>) cs;
                 evicted = (\<Sum>c \<leftarrow> cs. length (CandidateRecords c) - length (evict (Capacity j) (CandidateRecords c)));
                 (cs', m) = TryEmplace kept (Streams j)
             in Inr (\<lparr>Candidates = cs', Installed = False, RecordCount = length bs, Evicted = evicted\<rparr>, j\<lparr>Streams := m\<rparr>))))"

definition delete_PreparedJournalBatch :: "PreparedJournalBatch \<Rightarrow> ChangeJournal \<Rightarrow> ChangeJournal" where
  "delete_PreparedJournalBatch b j =
     (if Installed b then j
      else j\<lparr>Streams := fold (\<lambda>c m. if Created c then m(CandidateScope c := None) else m) (Candidates b) (Streams j)\<rparr>)"

definition Install :: "PreparedJournalBatch \<Rightarrow> ChangeJournal \<Rightarrow> PreparedJournalBatch \<times> ChangeJournal" where
  "Install b j =
     (let j1 = j\<lparr>Streams := fold (\<lambda>c m. m(CandidateScope c \<mapsto>
                    \<lparr>NextSequence = CandidateNext c, Records = CandidateRecords c\<rparr>)) (Candidates b) (Streams j)\<rparr>
      in (b\<lparr>Installed := True\<rparr>, AddProfile (RecordCount b) (Evicted b) 0 j1))"

section \<open>Reading\<close>

definition ReadSince :: "nat \<Rightarrow> ChangeJournal \<Rightarrow> ChangeRecord list" where
  "ReadSince n j =
     (case Streams j no_scope of None \<Rightarrow> [] | Some st \<Rightarrow> filter (\<lambda>r. Sequence r > n) (Records st))"

definition CreateCursor :: "ObjectId \<Rightarrow> ChangeJournal \<Rightarrow> ChangeCursor" where
  "CreateCursor s j =
     \<lparr>CursorScope = s, CursorNext = (case Streams j s of None \<Rightarrow> 1 | Some st \<Rightarrow> NextSequence st)\<rparr>"

definition oldest_sequence :: "Stream \<Rightarrow> nat" where
  "oldest_sequence st = (case Records st of [] \<Rightarrow> NextSequence st | r # _ \<Rightarrow> Sequence r)"

definition GetRetentionWindow :: "ObjectId \<Rightarrow> ChangeJournal \<Rightarrow> ChangeRetentionWindow" where
  "GetRetentionWindow s j =
     (case Streams j s of
        None \<Rightarrow> \<lparr>OldestSequence = 1, WindowNextSequence = 1, RetainedRecords = 0, WindowCapacity = Capacity j\<rparr>
      | Some st \<Rightarrow> \<lparr>OldestSequence = oldest_sequence st, WindowNextSequence = NextSequence st,
          RetainedRecords = length (Records st), WindowCapacity = Capacity j\<rparr>)"

fun ReadLoop :: "ChangeRecord list \<Rightarrow> nat \<Rightarrow> nat \<Rightarrow> ChangeReadResult \<Rightarrow> ChangeReadResult" where
  "ReadLoop rs index 0 result = result"
| "ReadLoop rs index (Suc count) result =
     (let r = rs ! index
      in ReadLoop rs (index + 1) count
           (result\<lparr>ReadRecords := ReadRecords result @ [r],
              ReadCursor := (ReadCursor result)\<lparr>CursorNext := Sequence r + 1\<rparr>\<rparr>))"

definition Read :: "ChangeCursor \<Rightarrow> nat \<Rightarrow> ChangeJournal \<Rightarrow> ChangeReadResult" where
  "Read cursor maximum j =
     (let result = \<lparr>ReadStatus = Available, ReadCursor = cursor, ReadRecords = []\<rparr>
      in case Streams j (CursorScope cursor) of
           None \<Rightarrow> result
         | Some st \<Rightarrow>
             (let oldest = oldest_sequence st
              in if CursorNext cursor < oldest
                 then result\<lparr>ReadStatus := ResnapshotRequired, ReadCursor := cursor\<lparr>CursorNext := oldest\<rparr>\<rparr>
                 else if maximum = 0 \<or> CursorNext cursor \<ge> NextSequence st then result
                 else
                   (let first = CursorNext cursor - oldest;
                        count = min maximum (sub64 (length (Records st)) first)
                    in ReadLoop (Records st) first count result)))"

section \<open>Administration, suppression and capture\<close>

definition SetCapacity :: "nat \<Rightarrow> ChangeJournal \<Rightarrow> (JournalError + unit) \<times> ChangeJournal" where
  "SetCapacity n j =
     (if \<not> OnMain j then (Inl NotAuthoritative, j)
      else (Inr (), j\<lparr>Capacity := n,
              Streams := (\<lambda>s. map_option (\<lambda>st. st\<lparr>Records := evict n (Records st)\<rparr>) (Streams j s))\<rparr>))"

definition Clear :: "ChangeJournal \<Rightarrow> ChangeJournal" where
  "Clear j = j\<lparr>Streams := (\<lambda>s. map_option (\<lambda>st. st\<lparr>Records := []\<rparr>) (Streams j s))\<rparr>"

definition ReleaseScope :: "ObjectId \<Rightarrow> ChangeJournal \<Rightarrow> ChangeJournal" where
  "ReleaseScope s j = j\<lparr>Streams := (Streams j)(s := None)\<rparr>"

definition SetProfilingEnabled :: "bool \<Rightarrow> ChangeJournal \<Rightarrow> ChangeJournal" where
  "SetProfilingEnabled b j = j\<lparr>ProfilingEnabled := b\<rparr>"

definition ResetProfile :: "ChangeJournal \<Rightarrow> ChangeJournal" where
  "ResetProfile j = j\<lparr>Profile := zero_profile\<rparr>"

text \<open>A suppression scope returns the render scope it has to restore when it ends.\<close>

definition BeginSuppression :: "ObjectId \<Rightarrow> ChangeJournal \<Rightarrow> ObjectId \<times> ChangeJournal" where
  "BeginSuppression s j =
     (SuppressedRenderScope j, j\<lparr>SuppressionDepth := SuppressionDepth j + 1, SuppressedRenderScope := s\<rparr>)"

definition EndSuppression :: "ObjectId \<Rightarrow> ChangeJournal \<Rightarrow> ChangeJournal" where
  "EndSuppression previous j = j\<lparr>SuppressedRenderScope := previous, SuppressionDepth := SuppressionDepth j - 1\<rparr>"

definition BeginCapture :: "ChangeJournal \<Rightarrow> JournalError + ChangeJournal" where
  "BeginCapture j =
     (case CapturedRecords j of Some _ \<Rightarrow> Inl CaptureAlreadyActive | None \<Rightarrow> Inr (j\<lparr>CapturedRecords := Some []\<rparr>))"

definition TakeCapture :: "ChangeJournal \<Rightarrow> BufferedChangeRecord list \<times> ChangeJournal" where
  "TakeCapture j = (case CapturedRecords j of None \<Rightarrow> ([], j) | Some bs \<Rightarrow> (bs, j\<lparr>CapturedRecords := None\<rparr>))"

section \<open>The history behind a stream\<close>

text \<open>
  The abstract journal is the list of all records ever committed to a scope. A stream is a
  window on it: a suffix of the history and the number of the next record.
\<close>

lemma evict_drop: "evict cap xs = drop (length xs - cap) xs"
proof (induction xs)
  case (Cons x xs)
  then show ?case by (cases "length xs < cap") (auto simp: Suc_diff_le not_less)
qed simp

lemma evict_snoc: "evict cap (evict cap xs @ [x]) = evict cap (xs @ [x])"
proof (cases "length xs \<le> cap")
  case False
  then have "drop (length xs - cap) xs @ [x] = drop (length xs - cap) (xs @ [x])" by simp
  then have "evict cap (evict cap xs @ [x]) = drop (length xs - cap + 1 - (length xs - cap)) (drop (length xs - cap) (xs @ [x]))"
    using False by (simp add: evict_drop del: drop_append)
  also have "\<dots> = drop (length xs + 1 - cap) (xs @ [x])" using False by (simp add: Suc_diff_le del: drop_append)
  finally show ?thesis by (simp add: evict_drop)
qed (simp add: evict_drop)

lemma length_evict: "length (evict cap xs) \<le> cap"
  by (simp add: evict_drop)

definition numbered :: "ObjectId \<Rightarrow> ChangeRecord list \<Rightarrow> bool" where
  "numbered s h \<longleftrightarrow> (\<forall>i < length h. Sequence (h ! i) = i + 1 \<and> Scope (h ! i) = s)"

definition window :: "nat \<Rightarrow> ObjectId \<Rightarrow> ChangeRecord list \<Rightarrow> Stream \<Rightarrow> bool" where
  "window cap s h st \<longleftrightarrow> NextSequence st = length h + 1 \<and> NextSequence st \<le> u64_max \<and> numbered s h \<and>
     length (Records st) \<le> cap \<and> (\<exists>k \<le> length h. Records st = drop k h)"

type_synonym history = "ObjectId \<Rightarrow> ChangeRecord list"

definition recorded :: "ChangeJournal \<times> history \<Rightarrow> bool" where
  "recorded jh \<longleftrightarrow> (case jh of (j, h) \<Rightarrow>
     \<forall>s. (Streams j s = None \<longrightarrow> h s = []) \<and> (\<forall>st. Streams j s = Some st \<longrightarrow> window (Capacity j) s (h s) st))"

definition numbering :: "ObjectId \<Rightarrow> nat \<Rightarrow> (ObjectId \<times> ChangePayload) list \<Rightarrow> ChangeRecord list" where
  "numbering s n changes = map (\<lambda>(i, obj, p). \<lparr>Sequence = i, Scope = s, Object = obj, ChangedBy = p\<rparr>)
     (zip [n ..< n + length changes] changes)"

lemma numbering_simps: "numbering s n [] = []"
  "numbering s n ((obj, p) # changes) = \<lparr>Sequence = n, Scope = s, Object = obj, ChangedBy = p\<rparr> # numbering s (n + 1) changes"
  by (simp_all add: numbering_def upt_rec)

lemma AppendAll_result:
  "AppendAll s n rs changes =
     (if n + length changes \<le> u64_max then Some (n + length changes, rs @ numbering s n changes) else None)" if "n \<le> u64_max"
  using that
proof (induction s n rs changes rule: AppendAll.induct)
  case (2 s n rs obj p changes)
  then show ?case by (cases "n = u64_max") (auto simp: numbering_simps)
qed (simp add: numbering_simps)

lemma numbered_append: "numbered s h \<Longrightarrow> numbered s (h @ numbering s (length h + 1) changes)"
proof (induction changes arbitrary: h)
  case (Cons c changes)
  obtain obj p where c: "c = (obj, p)" by (cases c)
  let ?r = "\<lparr>Sequence = length h + 1, Scope = s, Object = obj, ChangedBy = p\<rparr>"
  have "numbered s (h @ [?r])" using Cons.prems by (auto simp: numbered_def nth_append less_Suc_eq)
  from Cons.IH [OF this] show ?case by (simp add: c numbering_simps)
qed (simp add: numbering_simps)

lemma numbering_length [simp]: "length (numbering s n changes) = length changes"
  by (simp add: numbering_def)

lemma window_new: "window cap s [] new_Stream"
  by (simp add: window_def new_Stream_def numbered_def u64_max_def)

lemma window_append:
  assumes w: "window cap s h st" and n: "NextSequence st + length changes \<le> u64_max"
  shows "window cap s (h @ numbering s (NextSequence st) changes)
    \<lparr>NextSequence = NextSequence st + length changes, Records = evict cap (Records st @ numbering s (NextSequence st) changes)\<rparr>"
proof -
  let ?m = "numbering s (length h + 1) changes"
  obtain k where k: "k \<le> length h" "Records st = drop k h" using w by (auto simp: window_def)
  have "evict cap (Records st @ ?m) = drop (length (Records st @ ?m) - cap) (drop k (h @ ?m))"
    using k by (simp only: evict_drop) simp
  also have "\<dots> = drop (length (Records st @ ?m) - cap + k) (h @ ?m)" by (simp only: drop_drop)
  finally have "\<exists>l \<le> length (h @ ?m). evict cap (Records st @ ?m) = drop l (h @ ?m)"
    using k by (intro exI [of _ "length (Records st @ ?m) - cap + k"]) simp
  then show ?thesis
    using w n numbered_append [of s h changes] length_evict [of cap] by (simp add: window_def)
qed

lemma window_evict:
  assumes "window cap s h st"
  shows "window cap' s h (st\<lparr>Records := evict cap' (Records st)\<rparr>)" "window cap s h (st\<lparr>Records := []\<rparr>)"
proof -
  obtain k where k: "k \<le> length h" "Records st = drop k h" using assms by (auto simp: window_def)
  then have "\<exists>l \<le> length h. evict cap' (Records st) = drop l h"
    by (intro exI [of _ "length (Records st) - cap' + k"]) (simp add: evict_drop)
  then show "window cap' s h (st\<lparr>Records := evict cap' (Records st)\<rparr>)"
    using assms length_evict [of cap' "Records st"] by (simp add: window_def)
  show "window cap s h (st\<lparr>Records := []\<rparr>)" using assms by (auto simp: window_def intro!: exI [of _ "length h"])
qed

lemma recorded_stream: "recorded (j, h) \<Longrightarrow> window (Capacity j) s (h s) (stream_of s j)"
  unfolding recorded_def stream_of_def using window_new by (cases "Streams j s") auto

lemma recorded_next: "recorded (j, h) \<Longrightarrow> NextSequence (stream_of s j) \<le> u64_max"
  using recorded_stream [of j h s] by (simp add: window_def)

lemma recorded_put:
  assumes "recorded (j, h)" "window (Capacity j) s hs st" "Streams j' = (Streams j)(s \<mapsto> st)" "Capacity j' = Capacity j"
  shows "recorded (j', h(s := hs))"
  using assms by (auto simp: recorded_def)

lemma recorded_same: "recorded (j, h) \<Longrightarrow> Streams j' = Streams j \<Longrightarrow> Capacity j' = Capacity j \<Longrightarrow> recorded (j', h)"
  by (simp add: recorded_def)

lemma profile_simps [simp]: "Streams (AddProfile a b c j) = Streams j" "Capacity (AddProfile a b c j) = Capacity j"
  "OnMain (AddProfile a b c j) = OnMain j" "SuppressionDepth (AddProfile a b c j) = SuppressionDepth j"
  "CapturedRecords (AddProfile a b c j) = CapturedRecords j" "RenderDirty (AddProfile a b c j) = RenderDirty j"
  "Streams (RecordChanges bs j) = Streams j" "Capacity (RecordChanges bs j) = Capacity j"
  "OnMain (RecordChanges bs j) = OnMain j" "SuppressionDepth (RecordChanges bs j) = SuppressionDepth j"
  "CapturedRecords (RecordChanges bs j) = CapturedRecords j" "stream_of s (RecordChanges bs j) = stream_of s j"
  "RenderDirty (RecordChanges bs j) = RenderDirty j @ bs"
  by (simp_all add: AddProfile_def RecordChanges_def stream_of_def)

text \<open>A journal that neither suppresses nor captures, on the Main thread.\<close>

definition recording :: "ChangeJournal \<Rightarrow> bool" where
  "recording j \<longleftrightarrow> OnMain j \<and> SuppressionDepth j = 0 \<and> CapturedRecords j = None"

lemma CommitBatch_recording:
  assumes "recording j" "changes \<noteq> []" "NextSequence (stream_of s j) \<le> u64_max"
  shows "CommitBatch ns s changes j =
    (let st = stream_of s j; n = NextSequence st; j1 = RecordChanges (buffered s changes) j;
         rs = Records st @ numbering s n changes
     in if n + length changes \<le> u64_max
        then (Inr (), AddProfile (length changes) (length rs - length (evict (Capacity j) rs)) ns
               (j1\<lparr>Streams := (Streams j)(s \<mapsto> \<lparr>NextSequence = n + length changes, Records = evict (Capacity j) rs\<rparr>)\<rparr>))
        else (Inl SequenceExhausted, j1\<lparr>Streams := (Streams j)(s \<mapsto> st)\<rparr>))"
  using assms by (simp add: CommitBatch_def recording_def AppendAll_result Let_def)

lemma CommitBatch_not_recording:
  assumes "\<not> recording j \<or> changes = []" "CommitBatch ns s changes j = (r, j')"
  shows "Streams j' = Streams j \<and> Capacity j' = Capacity j"
  using assms by (auto simp: CommitBatch_def recording_def split: if_splits option.splits)

text \<open>One commit is a batch of one.\<close>

lemma Commit_as_batch:
  assumes "NextSequence (stream_of s j) \<le> u64_max"
  shows "snd (Commit ns s obj p j) = snd (CommitBatch ns s [(obj, p)] j) \<and>
    (recording j \<longrightarrow> fst (Commit ns s obj p j) =
       (case fst (CommitBatch ns s [(obj, p)] j) of Inl e \<Rightarrow> Inl e | Inr _ \<Rightarrow> Inr (NextSequence (stream_of s j))))"
  using assms
  by (auto simp: Commit_def CommitBatch_def recording_def buffered_def Let_def split: option.splits)

lemma CommitBatch_recorded:
  assumes rec: "recorded (j, h)" and c: "CommitBatch ns s changes j = (r, j')"
  shows "recorded (j', if recording j \<and> changes \<noteq> [] \<and> r = Inr () then h(s := h s @ numbering s (length (h s) + 1) changes) else h)"
proof (cases "recording j \<and> changes \<noteq> []")
  case False
  then show ?thesis using CommitBatch_not_recording [OF _ c] recorded_same [OF rec] by auto
next
  case True
  note w = recorded_stream [OF rec, of s]
  then have n: "NextSequence (stream_of s j) \<le> u64_max" "NextSequence (stream_of s j) = length (h s) + 1"
    by (auto simp: window_def)
  show ?thesis
  proof (cases "NextSequence (stream_of s j) + length changes \<le> u64_max")
    case fits: True
    have "Streams j' = (Streams j)(s \<mapsto> \<lparr>NextSequence = NextSequence (stream_of s j) + length changes,
        Records = evict (Capacity j) (Records (stream_of s j) @ numbering s (NextSequence (stream_of s j)) changes)\<rparr>)"
      "Capacity j' = Capacity j" "r = Inr ()"
      using c True n(1) fits by (auto simp: CommitBatch_recording Let_def)
    then show ?thesis using recorded_put [OF rec window_append [OF w fits]] True n(2) by simp
  next
    case False
    then have "Streams j' = (Streams j)(s \<mapsto> stream_of s j)" "Capacity j' = Capacity j" "r = Inl SequenceExhausted"
      using c True n(1) by (auto simp: CommitBatch_recording Let_def)
    then show ?thesis using recorded_put [OF rec w, of j'] by simp
  qed
qed

section \<open>Prepared batches as commits\<close>

definition changes_of :: "ObjectId \<Rightarrow> BufferedChangeRecord list \<Rightarrow> (ObjectId \<times> ChangePayload) list" where
  "changes_of s bs = map (\<lambda>b. (BufferedObject b, BufferedPayload b)) (filter (\<lambda>b. BufferedScope b = s) bs)"

lemma changes_of_snoc: "changes_of s (bs @ [b]) =
    (if BufferedScope b = s then changes_of s bs @ [(BufferedObject b, BufferedPayload b)] else changes_of s bs)"
  by (simp add: changes_of_def)

lemma changes_of_empty: "changes_of s bs = [] \<longleftrightarrow> s \<notin> BufferedScope ` set bs"
  by (auto simp: changes_of_def filter_empty_conv)

lemma numbering_snoc: "numbering s n (changes @ [(obj, p)]) =
    numbering s n changes @ [\<lparr>Sequence = n + length changes, Scope = s, Object = obj, ChangedBy = p\<rparr>]"
  by (induction changes arbitrary: n) (auto simp: numbering_simps)

definition candidate_for :: "ChangeJournal \<Rightarrow> BufferedChangeRecord list \<Rightarrow> ObjectId \<Rightarrow> Candidate" where
  "candidate_for j bs s = \<lparr>CandidateScope = s,
     CandidateRecords = Records (stream_of s j) @ numbering s (NextSequence (stream_of s j)) (changes_of s bs),
     CandidateNext = NextSequence (stream_of s j) + length (changes_of s bs), Created = False\<rparr>"

lemma candidate_scope [simp]: "CandidateScope (candidate_for j bs s) = s"
  by (simp add: candidate_for_def)

lemma candidate_append: "BufferedScope b = s \<Longrightarrow> AppendCandidate b (candidate_for j bs s) = candidate_for j (bs @ [b]) s"
  by (simp add: candidate_for_def AppendCandidate_def changes_of_snoc numbering_snoc)

lemma candidate_other: "BufferedScope b \<noteq> s \<Longrightarrow> candidate_for j (bs @ [b]) s = candidate_for j bs s"
  by (simp add: candidate_for_def changes_of_snoc)

lemma candidate_new: "s \<notin> BufferedScope ` set bs \<Longrightarrow> new_Candidate s j = candidate_for j bs s"
  by (simp add: candidate_for_def new_Candidate_def numbering_simps flip: changes_of_empty)

lemma UpdateCandidate_known:
  "distinct ss \<Longrightarrow> UpdateCandidate b (map (candidate_for j bs) ss) =
     (if BufferedScope b \<in> set ss then Some (map (candidate_for j (bs @ [b])) ss) else None)"
proof (induction ss)
  case (Cons s ss)
  have "BufferedScope b \<notin> set ss \<Longrightarrow> map (candidate_for j bs) ss = map (candidate_for j (bs @ [b])) ss"
    by (rule map_cong) (auto intro!: candidate_other [symmetric])
  with Cons show ?case by (auto simp: candidate_append candidate_other)
qed simp

lemma PrepareAll_result:
  assumes "PrepareAll all j rest (map (candidate_for j bs) ss) = Inr cs" "distinct ss" "set ss = BufferedScope ` set bs"
    "\<And>s. s \<in> set ss \<Longrightarrow> scope_count s all \<le> Capacity j \<and> scope_count s all \<le> u64_max - NextSequence (stream_of s j)"
  shows "\<exists>ss'. cs = map (candidate_for j (bs @ rest)) ss' \<and> distinct ss' \<and> set ss' = BufferedScope ` set (bs @ rest) \<and>
    (\<forall>s \<in> set ss'. scope_count s all \<le> Capacity j \<and> scope_count s all \<le> u64_max - NextSequence (stream_of s j))"
  using assms
proof (induction rest arbitrary: bs ss)
  case Nil
  then show ?case by auto
next
  case (Cons b rest)
  show ?case
  proof (cases "BufferedScope b \<in> set ss")
    case True
    then have "PrepareAll all j rest (map (candidate_for j (bs @ [b])) ss) = Inr cs"
      using Cons.prems(1,2) by (simp add: PrepareRecord_def UpdateCandidate_known)
    moreover have "set ss = BufferedScope ` set (bs @ [b])" using True Cons.prems(3) by auto
    ultimately show ?thesis using Cons.IH [of "bs @ [b]" ss] Cons.prems(2,4) by simp
  next
    case False
    let ?s = "BufferedScope b"
    have new: "AppendCandidate b (new_Candidate ?s j) = candidate_for j (bs @ [b]) ?s"
      using False Cons.prems(3) candidate_new [of ?s bs j] candidate_append by simp
    have next': "CandidateNext (new_Candidate ?s j) = NextSequence (stream_of ?s j)" by (simp add: new_Candidate_def)
    have other: "map (candidate_for j bs) ss = map (candidate_for j (bs @ [b])) ss"
      using False by (intro map_cong) (auto intro!: candidate_other [symmetric])
    from Cons.prems(1,2) False
    have fits: "scope_count ?s all \<le> Capacity j" "scope_count ?s all \<le> u64_max - NextSequence (stream_of ?s j)"
      and rest: "PrepareAll all j rest (map (candidate_for j bs) ss @ [candidate_for j (bs @ [b]) ?s]) = Inr cs"
      by (auto simp: PrepareRecord_def UpdateCandidate_known Let_def new next' split: if_splits)
    have "PrepareAll all j rest (map (candidate_for j (bs @ [b])) (ss @ [?s])) = Inr cs" using rest other by simp
    moreover have "scope_count s all \<le> Capacity j \<and> scope_count s all \<le> u64_max - NextSequence (stream_of s j)"
      if "s \<in> set (ss @ [?s])" for s
      using that fits Cons.prems(4) [of s] by (cases "s = ?s") auto
    ultimately show ?thesis
      using Cons.IH [of "bs @ [b]" "ss @ [?s]"] Cons.prems(2,3) False by auto
  qed
qed

lemma TryEmplace_result:
  "distinct (map CandidateScope cs) \<Longrightarrow> TryEmplace cs m =
     (map (\<lambda>c. c\<lparr>Created := m (CandidateScope c) = None\<rparr>) cs,
      \<lambda>s. if s \<in> CandidateScope ` set cs \<and> m s = None then Some new_Stream else m s)"
proof (induction cs arbitrary: m)
  case (Cons c cs)
  let ?m = "if m (CandidateScope c) = None then m(CandidateScope c \<mapsto> new_Stream) else m"
  have "map (\<lambda>d. d\<lparr>Created := ?m (CandidateScope d) = None\<rparr>) cs = map (\<lambda>d. d\<lparr>Created := m (CandidateScope d) = None\<rparr>) cs"
    using Cons.prems by (auto simp: image_iff)
  with Cons show ?case by (auto simp: Let_def fun_eq_iff)
qed simp

lemma fold_map_put:
  "distinct (map k cs) \<Longrightarrow> fold (\<lambda>c m. m(k c \<mapsto> v c)) cs m s = (case List.find (\<lambda>c. k c = s) cs of None \<Rightarrow> m s | Some c \<Rightarrow> Some (v c))"
proof (induction cs arbitrary: m)
  case (Cons c cs)
  have "List.find (\<lambda>d. k d = k c) cs = None" using Cons.prems by (auto simp: find_None_iff image_iff)
  with Cons show ?case by auto
qed simp

lemma fold_map_erase:
  "fold (\<lambda>c m. if P c then m(k c := None) else m) cs m s = (if \<exists>c \<in> set cs. P c \<and> k c = s then None else m s)"
  by (induction cs arbitrary: m) auto

lemma find_candidate: "List.find (\<lambda>c. CandidateScope c = s) (map g ss) = (if s \<in> set ss then Some (g s) else None)"
  if "\<And>x. CandidateScope (g x) = x"
  using that by (induction ss) auto

lemma prepared_cases:
  assumes "new_PreparedJournalBatch bs j = Inr (b, j1)"
  obtains ss where "SuppressionDepth j = 0" "CapturedRecords j = None" "distinct ss" "set ss = BufferedScope ` set bs"
    "Candidates b = map (\<lambda>s. (candidate_for j bs s)\<lparr>CandidateRecords := evict (Capacity j) (CandidateRecords (candidate_for j bs s)),
        Created := Streams j s = None\<rparr>) ss"
    "j1 = j\<lparr>Streams := \<lambda>s. if s \<in> set ss \<and> Streams j s = None then Some new_Stream else Streams j s\<rparr>"
    "\<not> Installed b"
    "\<And>s. s \<in> set ss \<Longrightarrow> length (changes_of s bs) \<le> Capacity j \<and> length (changes_of s bs) \<le> u64_max - NextSequence (stream_of s j)"
proof -
  obtain cs where cs: "PrepareAll bs j bs [] = Inr cs" "SuppressionDepth j = 0" "CapturedRecords j = None"
    using assms by (auto simp: new_PreparedJournalBatch_def split: if_splits sum.splits)
  obtain ss where ss: "cs = map (candidate_for j bs) ss" "distinct ss" "set ss = BufferedScope ` set bs"
    "\<forall>s \<in> set ss. scope_count s bs \<le> Capacity j \<and> scope_count s bs \<le> u64_max - NextSequence (stream_of s j)"
    using PrepareAll_result [of bs j bs "[]" "[]" cs] cs(1) by auto
  let ?kept = "map (\<lambda>c. c\<lparr>CandidateRecords := evict (Capacity j) (CandidateRecords c)\<rparr>) cs"
  have "distinct (map CandidateScope ?kept)" using ss(2) by (simp add: ss(1) comp_def)
  note e = TryEmplace_result [OF this, of "Streams j"]
  have "CandidateScope ` set ?kept = set ss" by (simp add: ss(1) image_image)
  then have "b = \<lparr>Candidates = map (\<lambda>c. c\<lparr>Created := Streams j (CandidateScope c) = None\<rparr>) ?kept, Installed = False, RecordCount = length bs,
      Evicted = Evicted b\<rparr>" "j1 = j\<lparr>Streams := \<lambda>s. if s \<in> set ss \<and> Streams j s = None then Some new_Stream else Streams j s\<rparr>"
    using assms cs e by (auto simp: new_PreparedJournalBatch_def Let_def)
  note b = this
  have "scope_count s bs = length (changes_of s bs)" for s by (simp add: scope_count_def changes_of_def)
  moreover have "Candidates b = map (\<lambda>s. (candidate_for j bs s)\<lparr>CandidateRecords := evict (Capacity j) (CandidateRecords (candidate_for j bs s)),
      Created := Streams j s = None\<rparr>) ss"
    by (subst b(1)) (simp add: ss(1))
  moreover have "\<not> Installed b" by (subst b(1)) simp
  ultimately show ?thesis using that [OF cs(2,3) ss(2,3)] b(2) ss(4) by simp
qed


text \<open>
  What \<open>Install\<close> puts in a stream is what a batch of the records of its scope would; a batch
  that is dropped leaves the streams as they were.
\<close>

definition after_commits :: "nat \<Rightarrow> ObjectId \<Rightarrow> (ObjectId \<times> ChangePayload) list \<Rightarrow> Stream \<Rightarrow> Stream" where
  "after_commits cap s changes st = \<lparr>NextSequence = NextSequence st + length changes,
     Records = evict cap (Records st @ numbering s (NextSequence st) changes)\<rparr>"

lemma Install_streams:
  assumes p: "new_PreparedJournalBatch bs j = Inr (b, j1)" and i: "Install b j1 = (b', j2)"
  shows "Streams j2 s = (if s \<in> BufferedScope ` set bs then Some (after_commits (Capacity j) s (changes_of s bs) (stream_of s j))
      else Streams j s)" "Capacity j2 = Capacity j"
proof -
  obtain ss where ss: "distinct ss" "set ss = BufferedScope ` set bs"
    "Candidates b = map (\<lambda>s. (candidate_for j bs s)\<lparr>CandidateRecords := evict (Capacity j) (CandidateRecords (candidate_for j bs s)),
        Created := Streams j s = None\<rparr>) ss"
    "j1 = j\<lparr>Streams := \<lambda>s. if s \<in> set ss \<and> Streams j s = None then Some new_Stream else Streams j s\<rparr>"
    using p by (rule prepared_cases)
  have "distinct (map CandidateScope (Candidates b))" using ss(1) by (simp add: ss(3) comp_def)
  note f = fold_map_put [OF this]
  show "Streams j2 s = (if s \<in> BufferedScope ` set bs then Some (after_commits (Capacity j) s (changes_of s bs) (stream_of s j))
      else Streams j s)"
  proof -
    have "Streams j2 s = (case List.find (\<lambda>c. CandidateScope c = s) (Candidates b) of
        None \<Rightarrow> Streams j1 s | Some c \<Rightarrow> Some \<lparr>NextSequence = CandidateNext c, Records = CandidateRecords c\<rparr>)"
      using i by (auto simp: Install_def Let_def f)
    then show ?thesis using ss(2) by (auto simp: ss(3,4) find_candidate after_commits_def candidate_for_def)
  qed
  show "Capacity j2 = Capacity j" using i by (auto simp: Install_def Let_def ss(4))
qed

lemma dropped_batch:
  assumes p: "new_PreparedJournalBatch bs j = Inr (b, j1)"
  shows "delete_PreparedJournalBatch b j1 = j"
proof -
  obtain ss where ss: "set ss = BufferedScope ` set bs"
    "Candidates b = map (\<lambda>s. (candidate_for j bs s)\<lparr>CandidateRecords := evict (Capacity j) (CandidateRecords (candidate_for j bs s)),
        Created := Streams j s = None\<rparr>) ss"
    "j1 = j\<lparr>Streams := \<lambda>s. if s \<in> set ss \<and> Streams j s = None then Some new_Stream else Streams j s\<rparr>" "\<not> Installed b"
    using p by (rule prepared_cases)
  have "fold (\<lambda>c m. if Created c then m(CandidateScope c := None) else m) (Candidates b) (Streams j1) = Streams j"
    by (rule ext) (auto simp: fold_map_erase ss(2,3))
  then show ?thesis using ss(4) by (simp add: delete_PreparedJournalBatch_def ss(3))
qed

lemma window_after_commits:
  assumes "window cap s h st" "NextSequence st + length changes \<le> u64_max"
  shows "window cap s (h @ numbering s (length h + 1) changes) (after_commits cap s changes st)"
proof -
  have "NextSequence st = length h + 1" using assms(1) by (simp add: window_def)
  with window_append [OF assms] show ?thesis by (simp only: after_commits_def)
qed

lemma Install_recorded:
  assumes rec: "recorded (j, h)" and p: "new_PreparedJournalBatch bs j = Inr (b, j1)" and i: "Install b j1 = (b', j2)"
  shows "recorded (j2, \<lambda>s. h s @ numbering s (length (h s) + 1) (changes_of s bs))"
proof -
  have fits: "NextSequence (stream_of s j) + length (changes_of s bs) \<le> u64_max" if "s \<in> BufferedScope ` set bs" for s
  proof -
    have "length (changes_of s bs) \<le> u64_max - NextSequence (stream_of s j)"
      using p by (rule prepared_cases) (use that in simp)
    moreover have "NextSequence (stream_of s j) \<le> u64_max" by (rule recorded_next [OF rec])
    ultimately show ?thesis by simp
  qed
  have none: "numbering s n (changes_of s bs) = []" if "s \<notin> BufferedScope ` set bs" for s n
    using that by (simp add: numbering_simps flip: changes_of_empty)
  show ?thesis
    using rec none fits window_after_commits [OF recorded_stream [OF rec]] Install_streams [OF p i]
    by (simp add: recorded_def)
qed

section \<open>Runs of the journal\<close>

text \<open>
  A run of the journal with its history beside it. Every public operation is a step; a batch
  is prepared and either installed or dropped under one lock, hence in one step.
\<close>

inductive journal_step :: "ChangeJournal \<times> history \<Rightarrow> ChangeJournal \<times> history \<Rightarrow> bool" where
  commit_step: "Commit ns s obj p j = (r, j') \<Longrightarrow>
     journal_step (j, h) (j', if recording j \<and> (\<exists>n. r = Inr n) then h(s := h s @ numbering s (length (h s) + 1) [(obj, p)]) else h)"
| batch_step: "CommitBatch ns s changes j = (r, j') \<Longrightarrow>
     journal_step (j, h) (j', if recording j \<and> changes \<noteq> [] \<and> r = Inr () then h(s := h s @ numbering s (length (h s) + 1) changes) else h)"
| install_step: "new_PreparedJournalBatch bs j = Inr (b, j1) \<Longrightarrow> Install b j1 = (b', j') \<Longrightarrow>
     journal_step (j, h) (j', \<lambda>s. h s @ numbering s (length (h s) + 1) (changes_of s bs))"
| drop_step: "new_PreparedJournalBatch bs j = Inr (b, j1) \<Longrightarrow> journal_step (j, h) (delete_PreparedJournalBatch b j1, h)"
| capacity_step: "SetCapacity n j = (r, j') \<Longrightarrow> journal_step (j, h) (j', h)"
| clear_step: "journal_step (j, h) (Clear j, h)"
| release_step: "journal_step (j, h) (ReleaseScope s j, h(s := []))"
| profiling_step: "journal_step (j, h) (SetProfilingEnabled on j, h)"
| reset_step: "journal_step (j, h) (ResetProfile j, h)"
| suppress_step: "BeginSuppression s j = (old, j') \<Longrightarrow> journal_step (j, h) (j', h)"
| resume_step: "journal_step (j, h) (EndSuppression s j, h)"
| capture_step: "BeginCapture j = Inr j' \<Longrightarrow> journal_step (j, h) (j', h)"
| take_step: "TakeCapture j = (bs, j') \<Longrightarrow> journal_step (j, h) (j', h)"
| thread_step: "journal_step (j, h) (j\<lparr>OnMain := main\<rparr>, h)"

definition journal_start :: "ChangeJournal \<times> history \<Rightarrow> bool" where
  "journal_start jh \<longleftrightarrow> jh = (new_ChangeJournal, \<lambda>_. [])"

lemma Commit_recorded:
  assumes rec: "recorded (j, h)" and c: "Commit ns s obj p j = (r, j')"
  shows "recorded (j', if recording j \<and> (\<exists>n. r = Inr n) then h(s := h s @ numbering s (length (h s) + 1) [(obj, p)]) else h)"
proof -
  note n = recorded_next [OF rec, of s]
  obtain r1 where b: "CommitBatch ns s [(obj, p)] j = (r1, j')"
    using Commit_as_batch [OF n, of ns obj p] c by (metis prod.collapse snd_conv)
  have "recording j \<Longrightarrow> (\<exists>n. r = Inr n) \<longleftrightarrow> r1 = Inr ()"
    using Commit_as_batch [OF n, of ns obj p] c b by (cases r1) auto
  then have "recording j \<and> (\<exists>n. r = Inr n) \<longleftrightarrow> recording j \<and> [(obj, p)] \<noteq> [] \<and> r1 = Inr ()" by auto
  with CommitBatch_recorded [OF rec b] show ?thesis by simp
qed

lemma recorded_map:
  assumes "recorded (j, h)" "\<And>s st. window (Capacity j) s (h s) st \<Longrightarrow> window (Capacity j') s (h s) (f st)"
    "Streams j' = (\<lambda>s. map_option f (Streams j s))"
  shows "recorded (j', h)"
  using assms by (auto simp: recorded_def)

lemma journal_step_recorded: "journal_step jh jh' \<Longrightarrow> recorded jh \<Longrightarrow> recorded jh'"
proof (induction rule: journal_step.induct)
  case (commit_step ns s obj p j r j' h)
  show ?case by (rule Commit_recorded [OF commit_step(2,1)])
next
  case (batch_step ns s changes j r j' h)
  show ?case by (rule CommitBatch_recorded [OF batch_step(2,1)])
next
  case (install_step bs j b j1 b' j' h)
  show ?case by (rule Install_recorded [OF install_step(3,1,2)])
next
  case (drop_step bs j b j1 h)
  then show ?case by (simp add: dropped_batch)
next
  case (capacity_step n j r j' h)
  show ?case
  proof (cases "OnMain j")
    case True
    with capacity_step have j': "Capacity j' = n" "Streams j' = (\<lambda>s. map_option (\<lambda>st. st\<lparr>Records := evict n (Records st)\<rparr>) (Streams j s))"
      by (auto simp: SetCapacity_def)
    show ?thesis by (rule recorded_map [OF capacity_step(2) _ j'(2)]) (simp add: j'(1) window_evict(1))
  qed (use capacity_step in \<open>simp add: SetCapacity_def\<close>)
next
  case (clear_step j h)
  show ?case by (rule recorded_map [OF clear_step]) (auto simp: Clear_def window_evict(2))
next
  case (release_step j h s)
  then show ?case by (auto simp: recorded_def ReleaseScope_def)
qed (auto intro: recorded_same
  simp: SetProfilingEnabled_def ResetProfile_def BeginSuppression_def EndSuppression_def BeginCapture_def TakeCapture_def
  split: option.splits)

interpretation journal: invariant_system journal_start journal_step recorded
  by unfold_locales (auto simp: journal_start_def recorded_def new_ChangeJournal_def dest: journal_step_recorded)

section \<open>Reading with a cursor\<close>

lemma ReadLoop_result:
  "first + count \<le> length rs \<Longrightarrow> ReadLoop rs first count result =
     result\<lparr>ReadRecords := ReadRecords result @ take count (drop first rs),
       ReadCursor := if count = 0 then ReadCursor result
         else (ReadCursor result)\<lparr>CursorNext := Sequence (rs ! (first + count - 1)) + 1\<rparr>\<rparr>"
proof (induction count arbitrary: first result)
  case (Suc count)
  have "drop first rs = rs ! first # drop (Suc first) rs" using Suc.prems by (simp add: Cons_nth_drop_Suc)
  moreover have "ReadLoop rs first (Suc count) result = ReadLoop rs (first + 1) count
      (result\<lparr>ReadRecords := ReadRecords result @ [rs ! first],
         ReadCursor := (ReadCursor result)\<lparr>CursorNext := Sequence (rs ! first) + 1\<rparr>\<rparr>)" by (simp add: Let_def)
  ultimately show ?case
    using Suc.prems Suc.IH [of "first + 1" "result\<lparr>ReadRecords := ReadRecords result @ [rs ! first],
         ReadCursor := (ReadCursor result)\<lparr>CursorNext := Sequence (rs ! first) + 1\<rparr>\<rparr>"]
    by (cases "count = 0") simp_all
qed simp

lemma oldest_window:
  assumes "window cap s h st"
  obtains k where "k \<le> length h" "Records st = drop k h" "oldest_sequence st = k + 1"
proof -
  obtain k where k: "k \<le> length h" "Records st = drop k h" using assms by (auto simp: window_def)
  have "oldest_sequence st = k + 1"
  proof (cases "k = length h")
    case True
    then show ?thesis using k assms by (simp add: oldest_sequence_def window_def)
  next
    case False
    then have "Records st = h ! k # drop (Suc k) h" using k by (simp add: Cons_nth_drop_Suc)
    then show ?thesis using k False assms by (simp add: oldest_sequence_def window_def numbered_def)
  qed
  with k that show ?thesis by blast
qed

lemma Read_window:
  assumes w: "window cap s h st" and c: "oldest_sequence st \<le> CursorNext cursor" and st: "Streams j (CursorScope cursor) = Some st"
  shows "Read cursor n j = \<lparr>ReadStatus = Available,
      ReadCursor = cursor\<lparr>CursorNext := CursorNext cursor + length (take n (drop (CursorNext cursor - 1) h))\<rparr>,
      ReadRecords = take n (drop (CursorNext cursor - 1) h)\<rparr>"
proof (cases "n = 0 \<or> CursorNext cursor \<ge> NextSequence st")
  case True
  then have "take n (drop (CursorNext cursor - 1) h) = []" using w by (auto simp: window_def)
  moreover have "Read cursor n j = \<lparr>ReadStatus = Available, ReadCursor = cursor, ReadRecords = []\<rparr>"
    using True c st by (simp add: Read_def Let_def not_less)
  ultimately show ?thesis by (simp only: list.size add_0_right) simp
next
  case False
  obtain k where k: "k \<le> length h" "Records st = drop k h" "oldest_sequence st = k + 1" using w by (rule oldest_window)
  define first where "first = CursorNext cursor - oldest_sequence st"
  define count where "count = min n (length (Records st) - first)"
  have h: "NextSequence st = length h + 1" "length h \<le> u64_max" "numbered s h" using w by (auto simp: window_def)
  have pos: "CursorNext cursor - 1 = k + first" "k + first < length h" "CursorNext cursor = k + first + 1" using False c k(3) h(1) by (auto simp: first_def)
  have "sub64 (length (Records st)) first = length (Records st) - first"
    using pos k h(2) by (intro sub64_exact) auto
  then have eq: "Read cursor n j = ReadLoop (Records st) first count \<lparr>ReadStatus = Available, ReadCursor = cursor, ReadRecords = []\<rparr>"
    using False c st by (simp add: Read_def Let_def first_def count_def not_less)
  have cnt: "count > 0" "first + count \<le> length (Records st)" "count = min n (length h - (k + first))"
    using pos k False by (auto simp: count_def)
  have seq: "Sequence (Records st ! (first + count - 1)) + 1 = CursorNext cursor + count"
    using h(3) k cnt pos(2,3) by (simp add: numbered_def)
  have "take count (drop first (Records st)) = take n (drop (k + first) h)"
    unfolding k(2) cnt(3) drop_drop by (simp add: add.commute min_def)
  moreover have "length (take n (drop (k + first) h)) = count" by (simp add: cnt(3) min.commute)
  ultimately show ?thesis using cnt(1,2) seq unfolding pos(1) eq by (simp add: ReadLoop_result del: length_take)
qed


section \<open>Following a journal\<close>

text \<open>
  The contract a reader relies on: what a source logs only grows, and a poll that succeeds
  returns the records at the cursor and moves the cursor past them. A follower that is never
  refused then holds exactly what was logged since its first cursor.
\<close>

inductive follows :: "('s \<Rightarrow> 's \<Rightarrow> bool) \<Rightarrow> ('s \<Rightarrow> nat \<Rightarrow> nat \<Rightarrow> (nat \<times> 'r list) option) \<Rightarrow> 's \<Rightarrow> nat \<Rightarrow> 's \<Rightarrow> nat \<Rightarrow> 'r list \<Rightarrow> bool"
  for step poll s0 c0 where
  follow_start: "follows step poll s0 c0 s0 c0 []"
| follow_step: "follows step poll s0 c0 s c acc \<Longrightarrow> step s t \<Longrightarrow> follows step poll s0 c0 t c acc"
| follow_poll: "follows step poll s0 c0 s c acc \<Longrightarrow> poll s c n = Some (c', rs) \<Longrightarrow> follows step poll s0 c0 s c' (acc @ rs)"

locale gapless_source =
  fixes good :: "'s \<Rightarrow> bool"
    and step :: "'s \<Rightarrow> 's \<Rightarrow> bool"
    and logged :: "'s \<Rightarrow> 'r list"
    and poll :: "'s \<Rightarrow> nat \<Rightarrow> nat \<Rightarrow> (nat \<times> 'r list) option"
  assumes good_step: "good s \<Longrightarrow> step s t \<Longrightarrow> good t"
    and log_grows: "good s \<Longrightarrow> step s t \<Longrightarrow> \<exists>new. logged t = logged s @ new"
    and poll_slice: "good s \<Longrightarrow> poll s c n = Some (c', rs) \<Longrightarrow> rs = take n (drop (c - 1) (logged s)) \<and> c' = c + length rs"
begin

lemma follower_exact:
  assumes "follows step poll s0 c0 s c acc" "good s0" "c0 = length (logged s0) + 1"
  shows "good s \<and> c = length (logged s0) + length acc + 1 \<and> (\<exists>unread. logged s = logged s0 @ acc @ unread)"
  using assms
proof (induction rule: follows.induct)
  case (follow_step s c acc t)
  then show ?case using good_step [of s t] log_grows [of s t] by fastforce
next
  case (follow_poll s c acc n c' rs)
  then obtain unread where u: "good s" "c = length (logged s0) + length acc + 1" "logged s = logged s0 @ acc @ unread" by blast
  from poll_slice [OF u(1) follow_poll(2)] have "rs = take n unread" "c' = c + length rs" by (auto simp: u(2,3))
  moreover have "unread = take n unread @ drop n unread" by simp
  ultimately show ?case using u by (metis add.assoc add.commute append.assoc length_append)
qed simp

end

definition journal_poll :: "ObjectId \<Rightarrow> ChangeJournal \<times> history \<Rightarrow> nat \<Rightarrow> nat \<Rightarrow> (nat \<times> ChangeRecord list) option" where
  "journal_poll s jh c n =
     (let r = Read \<lparr>CursorScope = s, CursorNext = c\<rparr> n (fst jh)
      in if ReadStatus r = Available then Some (CursorNext (ReadCursor r), ReadRecords r) else None)"

text \<open>A step that does not release the scope.\<close>

definition keeps_scope :: "ObjectId \<Rightarrow> ChangeJournal \<times> history \<Rightarrow> ChangeJournal \<times> history \<Rightarrow> bool" where
  "keeps_scope s jh jh' \<longleftrightarrow> journal_step jh jh' \<and> (Streams (fst jh) s \<noteq> None \<longrightarrow> Streams (fst jh') s \<noteq> None)"

lemma history_grows:
  "journal_step jh jh' \<Longrightarrow> recorded jh \<Longrightarrow> (Streams (fst jh) s \<noteq> None \<longrightarrow> Streams (fst jh') s \<noteq> None) \<Longrightarrow>
   \<exists>new. snd jh' s = snd jh s @ new"
proof (induction rule: journal_step.induct)
  case (release_step j h t)
  then show ?case by (cases "t = s") (auto simp: ReleaseScope_def recorded_def)
qed auto

lemma Read_recorded:
  assumes rec: "recorded (j, h)" and r: "Read cursor n j = r"
  shows "(ReadStatus r = ResnapshotRequired \<longleftrightarrow>
       (\<exists>st. Streams j (CursorScope cursor) = Some st \<and> CursorNext cursor < oldest_sequence st)) \<and>
     (ReadStatus r = Available \<longrightarrow> ReadRecords r = take n (drop (CursorNext cursor - 1) (h (CursorScope cursor))) \<and>
        ReadCursor r = cursor\<lparr>CursorNext := CursorNext cursor + length (ReadRecords r)\<rparr>)"
proof (cases "Streams j (CursorScope cursor)")
  case None
  then have "h (CursorScope cursor) = []" using rec by (simp add: recorded_def)
  moreover have "r = \<lparr>ReadStatus = Available, ReadCursor = cursor, ReadRecords = []\<rparr>" using r None by (simp add: Read_def)
  ultimately show ?thesis using None by simp
next
  case (Some st)
  then have w: "window (Capacity j) (CursorScope cursor) (h (CursorScope cursor)) st" using rec by (simp add: recorded_def)
  show ?thesis
  proof (cases "CursorNext cursor < oldest_sequence st")
    case True
    then have "ReadStatus r = ResnapshotRequired" using r Some by (auto simp: Read_def Let_def)
    then show ?thesis using True Some by simp
  next
    case False
    then show ?thesis using Read_window [OF w _ Some, of n] r Some by auto
  qed
qed

interpretation follower: gapless_source recorded "keeps_scope s" "\<lambda>jh. snd jh s" "journal_poll s"
proof unfold_locales
  fix jh jh' assume "recorded jh" "keeps_scope s jh jh'"
  then show "recorded jh'" "\<exists>new. snd jh' s = snd jh s @ new"
    unfolding keeps_scope_def using journal_step_recorded history_grows by blast+
next
  fix jh :: "ChangeJournal \<times> history" and c n c' rs
  assume "recorded jh" "journal_poll s jh c n = Some (c', rs)"
  then show "rs = take n (drop (c - 1) (snd jh s)) \<and> c' = c + length rs"
    using Read_recorded [of "fst jh" "snd jh" "\<lparr>CursorScope = s, CursorNext = c\<rparr>" n, OF _ refl]
    by (auto simp: journal_poll_def Let_def simp del: length_take split: if_splits)
qed


section \<open>Batches and single commits\<close>

lemma evict_append: "evict cap (evict cap xs @ ys) = evict cap (xs @ ys)"
proof (induction ys rule: rev_induct)
  case Nil
  show ?case by (simp add: evict_drop)
next
  case (snoc y ys)
  have "evict cap (evict cap xs @ ys @ [y]) = evict cap (evict cap (evict cap xs @ ys) @ [y])"
    by (simp only: append_assoc [symmetric] evict_snoc)
  also have "\<dots> = evict cap ((xs @ ys) @ [y])" by (simp only: snoc evict_snoc)
  finally show ?case by simp
qed

lemma after_commits_snoc: "after_commits cap s [c] (after_commits cap s changes st) = after_commits cap s (changes @ [c]) st"
  by (cases c) (simp add: after_commits_def numbering_simps numbering_snoc evict_append flip: append_assoc)

definition CommitAll :: "u64 \<Rightarrow> BufferedChangeRecord list \<Rightarrow> ChangeJournal \<Rightarrow> ChangeJournal" where
  "CommitAll ns bs j = fold (\<lambda>b j. snd (Commit ns (BufferedScope b) (BufferedObject b) (BufferedPayload b) j)) bs j"

lemma Commit_streams:
  assumes "recording j" "NextSequence (stream_of s j) < u64_max"
  shows "Streams (snd (Commit ns s obj p j)) = (Streams j)(s \<mapsto> after_commits (Capacity j) s [(obj, p)] (stream_of s j)) \<and>
    Capacity (snd (Commit ns s obj p j)) = Capacity j \<and> recording (snd (Commit ns s obj p j)) \<and>
    RenderDirty (snd (Commit ns s obj p j)) = RenderDirty j @ [\<lparr>BufferedScope = s, BufferedObject = obj, BufferedPayload = p\<rparr>]"
  using assms by (simp add: Commit_def recording_def Let_def after_commits_def numbering_simps)

lemma CommitAll_streams:
  assumes "recording j" "\<And>s. NextSequence (stream_of s j) + length (changes_of s bs) \<le> u64_max"
  shows "Streams (CommitAll ns bs j) = (\<lambda>s. if s \<in> BufferedScope ` set bs
      then Some (after_commits (Capacity j) s (changes_of s bs) (stream_of s j)) else Streams j s) \<and>
    Capacity (CommitAll ns bs j) = Capacity j \<and> recording (CommitAll ns bs j) \<and>
    RenderDirty (CommitAll ns bs j) = RenderDirty j @ bs"
  using assms(2)
proof (induction bs rule: rev_induct)
  case Nil
  then show ?case using assms(1) by (simp add: CommitAll_def)
next
  case (snoc b bs)
  let ?j = "CommitAll ns bs j" and ?s = "BufferedScope b"
  have "NextSequence (stream_of s j) + length (changes_of s bs) \<le> u64_max" for s
    using snoc.prems [of s] by (simp add: changes_of_snoc split: if_splits)
  note ih = snoc.IH [OF this]
  have st: "stream_of ?s ?j = after_commits (Capacity j) ?s (changes_of ?s bs) (stream_of ?s j) \<or>
      changes_of ?s bs = [] \<and> stream_of ?s ?j = stream_of ?s j"
    using ih changes_of_empty [of ?s bs] by (auto simp: stream_of_def)
  then have "NextSequence (stream_of ?s ?j) < u64_max"
    using snoc.prems [of ?s] by (auto simp: changes_of_snoc after_commits_def)
  note c = Commit_streams [of ?j ?s ns "BufferedObject b" "BufferedPayload b", OF _ this]
  have step: "CommitAll ns (bs @ [b]) j = snd (Commit ns ?s (BufferedObject b) (BufferedPayload b) ?j)" by (simp add: CommitAll_def)
  have "after_commits (Capacity j) ?s [(BufferedObject b, BufferedPayload b)] (stream_of ?s ?j) =
      after_commits (Capacity j) ?s (changes_of ?s (bs @ [b])) (stream_of ?s j)"
    using st by (auto simp: changes_of_snoc after_commits_snoc)
  then show ?case using c ih by (auto simp: step changes_of_snoc fun_eq_iff)
qed

lemma changes_of_buffered: "changes_of t (buffered s changes) = (if t = s then changes else [])"
  by (induction changes) (auto simp: changes_of_def buffered_def)

lemma buffered_scopes: "changes \<noteq> [] \<Longrightarrow> BufferedScope ` set (buffered s changes) = {s}"
  by (cases changes) (auto simp: buffered_def image_image split_beta)

section \<open>Properties\<close>

text \<open>
  C21. Reading is exact. In every state the journal can reach, a read with any cursor either
  returns the next records of the full history of the scope, without a gap and up to the
  requested number, and moves the cursor past them, or asks for a new snapshot, and this
  happens exactly when the record at the cursor is no longer retained.
\<close>

theorem read_exact:
  assumes "journal_start jh0" "reachable_from journal_step jh0 (j, h)" "Read cursor n j = r"
  shows "(ReadStatus r = ResnapshotRequired \<longleftrightarrow>
       (\<exists>st. Streams j (CursorScope cursor) = Some st \<and> CursorNext cursor < oldest_sequence st)) \<and>
     (ReadStatus r = Available \<longrightarrow> ReadRecords r = take n (drop (CursorNext cursor - 1) (h (CursorScope cursor))) \<and>
        ReadCursor r = cursor\<lparr>CursorNext := CursorNext cursor + length (ReadRecords r)\<rparr>)"
  by (rule Read_recorded [OF journal.inv_reachable [OF assms(1,2)] assms(3)])


text \<open>
  C23. A batch is its changes committed one by one, to the streams and to the renderer, when
  the sequence numbers suffice; when they do not, it fails and no stream changes.
\<close>

theorem batch_is_commits:
  assumes "journal_start jh0" "reachable_from journal_step jh0 (j, h)" "recording j" "changes \<noteq> []"
  shows "if NextSequence (stream_of s j) + length changes \<le> u64_max
    then fst (CommitBatch ns s changes j) = Inr () \<and>
      Streams (snd (CommitBatch ns s changes j)) = Streams (CommitAll ns' (buffered s changes) j) \<and>
      RenderDirty (snd (CommitBatch ns s changes j)) = RenderDirty (CommitAll ns' (buffered s changes) j)
    else fst (CommitBatch ns s changes j) = Inl SequenceExhausted \<and>
      (\<forall>t. stream_of t (snd (CommitBatch ns s changes j)) = stream_of t j)"
proof -
  note next' = recorded_next [OF journal.inv_reachable [OF assms(1,2)]]
  show ?thesis
  proof (cases "NextSequence (stream_of s j) + length changes \<le> u64_max")
  case True
  then have "NextSequence (stream_of t j) + length (changes_of t (buffered s changes)) \<le> u64_max" for t
    using next' [of t] by (simp add: changes_of_buffered)
  note all = CommitAll_streams [OF assms(3) this, of ns']
  show ?thesis
    using True all by (auto simp: CommitBatch_recording [OF assms(3,4) next'] Let_def buffered_scopes [OF assms(4)]
        changes_of_buffered after_commits_def fun_eq_iff)
next
  case False
  then show ?thesis by (auto simp: CommitBatch_recording [OF assms(3,4) next'] Let_def stream_of_def split: option.splits)
  qed
qed


text \<open>
  A batch that \<open>EnsureCanCommit\<close> has admitted does not fail.
\<close>

theorem ensured_batch_succeeds:
  assumes "journal_start jh0" "reachable_from journal_step jh0 (j, h)" "EnsureCanCommit s (length changes) j = Inr ()"
  shows "fst (CommitBatch ns s changes j) = Inr ()"
proof (cases "recording j \<and> changes \<noteq> []")
  case True
  have n: "NextSequence (stream_of s j) \<le> u64_max" by (rule recorded_next [OF journal.inv_reachable [OF assms(1,2)]])
  have "length changes \<le> u64_max - NextSequence (stream_of s j)"
    using assms(3) True by (auto simp: EnsureCanCommit_def recording_def stream_of_def new_Stream_def Let_def split: if_splits option.splits)
  then show ?thesis using True n by (simp add: CommitBatch_recording Let_def)
next
  case False
  then show ?thesis using assms(3) by (auto simp: CommitBatch_def EnsureCanCommit_def recording_def split: if_splits option.splits)
qed

section \<open>Witnesses\<close>

definition ex_scope :: ObjectId where
  "ex_scope = ObjectId 1 1"

definition ex_changes :: "(ObjectId \<times> ChangePayload) list" where
  "ex_changes = [(ObjectId 2 1, TagAddedChange [65]), (ObjectId 3 1, ObjectDestroyedChange)]"

definition ex_journal :: ChangeJournal where
  "ex_journal = snd (CommitBatch 0 ex_scope ex_changes new_ChangeJournal)"

definition ex_history :: history where
  "ex_history = (\<lambda>_. [])(ex_scope := numbering ex_scope 1 ex_changes)"

lemma ex_commit: "CommitBatch 0 ex_scope ex_changes new_ChangeJournal = (Inr (), ex_journal)"
  unfolding ex_journal_def
  by (simp add: CommitBatch_def new_ChangeJournal_def ex_changes_def Let_def stream_of_def new_Stream_def RecordChanges_def u64_max_def)

lemma ex_recording: "recording new_ChangeJournal" "ex_changes \<noteq> []"
  by (simp_all add: recording_def new_ChangeJournal_def ex_changes_def)

lemma ex_step: "journal_step (new_ChangeJournal, \<lambda>_. []) (ex_journal, ex_history)"
  using batch_step [OF ex_commit, of "\<lambda>_. []"] ex_recording by (simp add: ex_history_def)

lemma ex_reachable: "reachable_from journal_step (new_ChangeJournal, \<lambda>_. []) (ex_journal, ex_history)"
  by (rule reach_step, rule reach_refl, rule ex_step)

lemma ex_start: "journal_start (new_ChangeJournal, \<lambda>_. [])"
  by (simp add: journal_start_def)

lemmas ex_journal_eval = ex_journal_def CommitBatch_def new_ChangeJournal_def ex_changes_def Let_def stream_of_def new_Stream_def
  RecordChanges_def u64_max_def AddProfile_def DefaultChangeJournalCapacity_def

lemma ex_stream: "Streams ex_journal ex_scope = Some \<lparr>NextSequence = 3, Records = numbering ex_scope 1 ex_changes\<rparr>"
  by (simp add: ex_journal_eval numbering_simps)

theorem read_exact_witness:
  "ReadRecords (Read \<lparr>CursorScope = ex_scope, CursorNext = 2\<rparr> 5 ex_journal) =
     [\<lparr>Sequence = 2, Scope = ex_scope, Object = ObjectId 3 1, ChangedBy = ObjectDestroyedChange\<rparr>]"
proof -
  have "oldest_sequence \<lparr>NextSequence = 3, Records = numbering ex_scope 1 ex_changes\<rparr> = 1"
    by (simp add: oldest_sequence_def ex_changes_def numbering_simps)
  then have "ReadStatus (Read \<lparr>CursorScope = ex_scope, CursorNext = 2\<rparr> 5 ex_journal) = Available"
    using read_exact [OF ex_start ex_reachable refl, of "\<lparr>CursorScope = ex_scope, CursorNext = 2\<rparr>" 5] ex_stream
    by (cases "ReadStatus (Read \<lparr>CursorScope = ex_scope, CursorNext = 2\<rparr> 5 ex_journal)") auto
  then show ?thesis
    using read_exact [OF ex_start ex_reachable refl, of "\<lparr>CursorScope = ex_scope, CursorNext = 2\<rparr>" 5]
    by (simp add: ex_history_def ex_changes_def numbering_simps)
qed

lemma ex_poll: "journal_poll ex_scope (ex_journal, ex_history) 1 5 = Some (3, numbering ex_scope 1 ex_changes)"
proof -
  let ?st = "\<lparr>NextSequence = 3, Records = numbering ex_scope 1 ex_changes\<rparr>" and ?c = "\<lparr>CursorScope = ex_scope, CursorNext = 1\<rparr>"
  have "recorded (ex_journal, ex_history)" by (rule journal.inv_reachable [OF ex_start ex_reachable])
  then have w: "window (Capacity ex_journal) ex_scope (ex_history ex_scope) ?st" using ex_stream by (simp add: recorded_def)
  have "oldest_sequence ?st \<le> CursorNext ?c" by (simp add: oldest_sequence_def ex_changes_def numbering_simps)
  moreover have "Streams ex_journal (CursorScope ?c) = Some ?st" using ex_stream by simp
  ultimately have "Read ?c 5 ex_journal = \<lparr>ReadStatus = Available, ReadCursor = ?c\<lparr>CursorNext := 3\<rparr>, ReadRecords = numbering ex_scope 1 ex_changes\<rparr>"
    by (subst Read_window [OF w]) (simp_all add: ex_history_def ex_changes_def)
  then show ?thesis by (simp only: journal_poll_def fst_conv Let_def) simp
qed


theorem batch_is_commits_witness:
  "Streams (snd (CommitBatch 0 ex_scope ex_changes new_ChangeJournal)) = Streams (CommitAll 0 (buffered ex_scope ex_changes) new_ChangeJournal)"
  using batch_is_commits [OF ex_start reach_refl ex_recording, of ex_scope 0 0]
  by (simp add: ex_changes_def stream_of_def new_ChangeJournal_def new_Stream_def u64_max_def split: if_splits)

lemma ex_prepare: "\<exists>b j1. new_PreparedJournalBatch (buffered ex_scope ex_changes) new_ChangeJournal = Inr (b, j1)"
  by (simp add: new_PreparedJournalBatch_def new_ChangeJournal_def ex_changes_def buffered_def PrepareRecord_def scope_count_def
      new_Candidate_def AppendCandidate_def stream_of_def new_Stream_def u64_max_def DefaultChangeJournalCapacity_def Let_def split: prod.splits)


theorem ensured_batch_succeeds_witness: "fst (CommitBatch 0 ex_scope ex_changes ex_journal) = Inr ()"
proof -
  have main: "OnMain ex_journal" using ex_commit by (simp add: ex_journal_eval)
  have "EnsureCanCommit ex_scope (length ex_changes) ex_journal = Inr ()"
    using ex_stream main by (simp add: EnsureCanCommit_def ex_changes_def u64_max_def)
  then show ?thesis by (rule ensured_batch_succeeds [OF ex_start ex_reachable])
qed

end
