(* ===== verification/Replication.thy ===== *)
theory Replication imports ProtocolInput NetworkCore "HOL-Library.List_Lexorder" begin

text \<open>
  Replication intents and their validation: src/network/Replication.cpp and
  include/gargantuan/network/Replication.hpp, with the attribute and tag rules they call
  (src/runtime/AttributeValidation.cpp, \<open>ValidateTagName\<close> of src/runtime/TagIndex.cpp).

  A \<open>std::map\<close> with string keys is the list of its entries in the order of the keys, which is
  the order in which the code iterates; strings are ordered bytewise. The size of the JSON text
  of a value is computed by a third-party library and is the parameter \<open>jm\<close>, with \<open>None\<close>
  where the encoding fails. A validator that throws is a sum with the message on the left.
\<close>

section \<open>Ordered maps\<close>

type_synonym 'v smap = "(bytes \<times> 'v) list"

definition smap_wf :: "'v smap \<Rightarrow> bool" where
  "smap_wf m \<longleftrightarrow> sorted (map fst m) \<and> distinct (map fst m)"

definition smap_emplace :: "bytes \<Rightarrow> 'v \<Rightarrow> 'v smap \<Rightarrow> 'v smap option" where
  "smap_emplace k v m = (if k \<in> fst ` set m then None else Some (insort_key fst (k, v) m))"

section \<open>Attributes and tags\<close>

definition MaximumAttributeNameBytes :: nat where
  "MaximumAttributeNameBytes = 100"

definition MaximumAttributesPerInstance :: nat where
  "MaximumAttributesPerInstance = 64"

definition MaximumAttributeValueBytes :: nat where
  "MaximumAttributeValueBytes = 4 * 1024"

definition MaximumAttributeBytesPerInstance :: nat where
  "MaximumAttributeBytesPerInstance = 16 * 1024"

definition MaximumReplicatedAttributeBytesPerInstance :: nat where
  "MaximumReplicatedAttributeBytesPerInstance = MaximumAttributeBytesPerInstance"

definition MaximumTagNameBytes :: nat where
  "MaximumTagNameBytes = 100"

definition MaximumTagsPerInstance :: nat where
  "MaximumTagsPerInstance = 64"

definition ValidateAttributeName :: "bytes \<Rightarrow> string + unit" where
  "ValidateAttributeName name =
     (if name = [] then Inl ''Attribute name cannot be empty''
      else if length name > MaximumAttributeNameBytes then Inl ''Attribute name exceeds its byte limit''
      else if \<not> IsValidProtocolUtf8 name then Inl ''Attribute name is not valid UTF-8''
      else if 0 \<in> set name then Inl ''Attribute name contains an embedded null''
      else Inr ())"

primrec attribute_supported :: "WireValue \<Rightarrow> bool" where
  "attribute_supported WireMonostate = False"
| "attribute_supported (WireBool _) = True"
| "attribute_supported (WireInt _) = True"
| "attribute_supported (WireDouble x) = isfinite64 x"
| "attribute_supported (WireFloat x) = isfinite32 x"
| "attribute_supported (WireString s) = (IsValidProtocolUtf8 s \<and> 0 \<notin> set s)"
| "attribute_supported (WireVector2 x y) = (isfinite32 x \<and> isfinite32 y)"
| "attribute_supported (WireVector3 x y z) = (isfinite32 x \<and> isfinite32 y \<and> isfinite32 z)"
| "attribute_supported (WireColor3 r g b) = (isfinite32 r \<and> isfinite32 g \<and> isfinite32 b)"
| "attribute_supported (WireUDimValue u) = isfinite32 (Scale u)"
| "attribute_supported (WireUDim2 x y) = (isfinite32 (Scale x) \<and> isfinite32 (Scale y))"
| "attribute_supported (WireCFrame cs) = (\<forall>c \<in> set cs. isfinite32 c)"
| "attribute_supported (WireEnumItem _ _) = False"
| "attribute_supported (WireSchemaEnumValue _ _ _) = False"
| "attribute_supported (WireObjectReference _) = False"

fun oversized_string :: "WireValue \<Rightarrow> bool" where
  "oversized_string (WireString s) = (length s > MaximumAttributeValueBytes)"
| "oversized_string _ = False"

type_synonym json_measure = "WireValue \<Rightarrow> nat option"

definition ValidateAttributeValue :: "json_measure \<Rightarrow> WireValue \<Rightarrow> string + nat" where
  "ValidateAttributeValue jm v =
     (if \<not> attribute_supported v then Inl ''Attribute WireValue type is unsupported or non-finite''
      else if oversized_string v then Inl ''Attribute value exceeds its encoded byte limit''
      else (case jm v of
          None \<Rightarrow> Inl ''Wire value encoding failed''
        | Some n \<Rightarrow>
            if n > MaximumAttributeValueBytes then Inl ''Attribute value exceeds its encoded byte limit'' else Inr n))"

fun ValidateAttributes :: "json_measure \<Rightarrow> nat \<Rightarrow> WireValue smap \<Rightarrow> string + nat" where
  "ValidateAttributes jm aggregate [] = Inr aggregate"
| "ValidateAttributes jm aggregate ((name, v) # rest) =
     (case ValidateAttributeName name of
        Inl e \<Rightarrow> Inl e
      | Inr _ \<Rightarrow>
          (case ValidateAttributeValue jm v of
             Inl e \<Rightarrow> Inl e
           | Inr n \<Rightarrow>
               (let total' = aggregate + length name + n
                in if total' > MaximumAttributeBytesPerInstance \<or> total' > MaximumReplicatedAttributeBytesPerInstance
                   then Inl ''Instance exceeds its aggregate attribute byte limit''
                   else ValidateAttributes jm total' rest)))"

definition ValidateAttributeCollection :: "json_measure \<Rightarrow> WireValue smap \<Rightarrow> string + nat" where
  "ValidateAttributeCollection jm attributes =
     (if length attributes > MaximumAttributesPerInstance then Inl ''Instance exceeds its attribute count limit''
      else ValidateAttributes jm 0 attributes)"

definition ValidateTagName :: "bytes \<Rightarrow> string + unit" where
  "ValidateTagName name =
     (if name = [] then Inl ''Tag name cannot be empty''
      else if length name > MaximumTagNameBytes then Inl ''Tag name exceeds its byte limit''
      else if 0 \<in> set name then Inl ''Tag name contains an embedded null''
      else if \<not> IsValidProtocolUtf8 name then Inl ''Tag name is not valid UTF-8''
      else Inr ())"

section \<open>Views\<close>

type_synonym ReplicaStateChannel = "ObjectId \<times> Sequence"

record ReplicationView =
  ViewConnection :: ConnectionId
  ViewEpoch :: Sequence
  KnownObjects :: "ObjectId list"
  RelevantObjects :: "ObjectId list"
  LatestStateSequences :: "(ReplicaStateChannel \<times> Sequence) list"

definition View_IsValid :: "ReplicationView \<Rightarrow> bool" where
  "View_IsValid v \<longleftrightarrow>
     (if \<not> ConnectionId_IsValid (ViewConnection v) \<or> \<not> Sequence_IsValid (ViewEpoch v) then False
      else if \<exists>i \<in> set (KnownObjects v). \<not> ObjectId_IsValid i then False
      else if \<exists>i \<in> set (RelevantObjects v). \<not> ObjectId_IsValid i then False
      else \<not> (\<exists>((obj, channel), n) \<in> set (LatestStateSequences v).
                \<not> ObjectId_IsValid obj \<or> \<not> Sequence_IsValid channel \<or> \<not> Sequence_IsValid n \<or> obj \<notin> set (KnownObjects v)))"

definition Knows :: "ObjectId \<Rightarrow> ReplicationView \<Rightarrow> bool" where
  "Knows i v \<longleftrightarrow> i \<in> set (KnownObjects v)"

definition ForgetReplica :: "ObjectId \<Rightarrow> ReplicationView \<Rightarrow> ReplicationView" where
  "ForgetReplica i v = v\<lparr>KnownObjects := filter (\<lambda>x. x \<noteq> i) (KnownObjects v),
     LatestStateSequences := filter (\<lambda>e. fst (fst e) \<noteq> i) (LatestStateSequences v)\<rparr>"

section \<open>Intents\<close>

record SnapshotExtensionState =
  ExtensionStateId :: SchemaId
  ExtensionStateVersion :: u32
  ExtensionStateProperties :: "WireValue smap"

record SnapshotCustomClassState =
  CustomStateId :: SchemaId
  CustomStateVersion :: u32
  CustomStateProperties :: "WireValue smap"

record PublishReplication =
  PublishObject :: ObjectId
  PublishClassSchemaId :: SchemaId
  PublishDefinitionVersion :: u32
  PublishParent :: "ObjectId option"
  PublishClassName :: bytes
  PublishName :: bytes
  PublishProperties :: "WireValue smap"
  PublishAttributes :: "WireValue smap"
  PublishExtensions :: "SnapshotExtensionState list"
  PublishCustomProperties :: "SnapshotCustomClassState list"
  PublishTags :: "bytes list"

record StructuralMaterializationTemplateKey =
  KeyWorld :: ObjectId
  KeyObject :: ObjectId
  KeyStructuralRevision :: u64

record StructuralMaterializationTemplate =
  TemplateKey :: StructuralMaterializationTemplateKey
  TemplatePublication :: PublishReplication
  TemplateRetainedBytes :: nat

text \<open>The small list of patched property names, two in place and the rest in a vector.\<close>

definition InlineCapacity :: nat where
  "InlineCapacity = 2"

record StructuralPropertyPatchList =
  Inline :: "bytes list"
  Overflow :: "bytes list"
  Count :: nat

definition new_PatchList :: StructuralPropertyPatchList where
  "new_PatchList = \<lparr>Inline = [[], []], Overflow = [], Count = 0\<rparr>"

definition PatchList_Add :: "bytes \<Rightarrow> StructuralPropertyPatchList \<Rightarrow> StructuralPropertyPatchList" where
  "PatchList_Add name p =
     (let p1 = (if Count p < InlineCapacity then p\<lparr>Inline := (Inline p)[Count p := name]\<rparr>
                else p\<lparr>Overflow := Overflow p @ [name]\<rparr>)
      in p1\<lparr>Count := Count p1 + 1\<rparr>)"

definition PatchList_Size :: "StructuralPropertyPatchList \<Rightarrow> nat" where
  "PatchList_Size p = Count p"

definition PatchList_At :: "StructuralPropertyPatchList \<Rightarrow> nat \<Rightarrow> bytes" where
  "PatchList_At p i = (if i < InlineCapacity then Inline p ! i else Overflow p ! (i - InlineCapacity))"

definition PatchList_Contains :: "bytes \<Rightarrow> StructuralPropertyPatchList \<Rightarrow> bool" where
  "PatchList_Contains name p \<longleftrightarrow> (\<exists>i \<in> set [0..<Count p]. PatchList_At p i = name)"

record PreparedPublishReplication =
  PreparedObject :: ObjectId
  PreparedTemplate :: "StructuralMaterializationTemplate option"
  NilProperties :: StructuralPropertyPatchList

datatype ReplicationIntent =
    Publish PublishReplication
  | PreparedPublish PreparedPublishReplication
  | PropertyReplicationUpdate (PropertyObject: ObjectId) (PropertyName: bytes) (PropertyValue: WireValue)
      (PropertySchema: "SchemaId option") (PropertyVersion: "u32 option")
  | ExtensionPropertyReplicationUpdate (ExtensionObject: ObjectId) (ExtensionId: SchemaId) (ExtensionVersion: u32)
      (ExtensionName: bytes) (ExtensionPropertyValue: WireValue)
  | ReparentReplication (ReparentObject: ObjectId) (ReparentTo: "ObjectId option")
  | AttributeReplicationUpdate (AttributeObject: ObjectId) (AttributeUpdateName: bytes) (AttributeUpdateValue: "WireValue option")
  | TagAddedReplication (TagAddedObject: ObjectId) (TagAddedName: bytes)
  | TagRemovedReplication (TagRemovedObject: ObjectId) (TagRemovedName: bytes)
  | UnpublishReplication (UnpublishObject: ObjectId)
  | DestroyReplication (DestroyObject: ObjectId)

record ReplicationOperation =
  OperationEpoch :: Sequence
  Intent :: ReplicationIntent

primrec IsPublishReplication :: "ReplicationIntent \<Rightarrow> bool" where
  "IsPublishReplication (Publish _) = True"
| "IsPublishReplication (PreparedPublish _) = True"
| "IsPublishReplication (PropertyReplicationUpdate _ _ _ _ _) = False"
| "IsPublishReplication (ExtensionPropertyReplicationUpdate _ _ _ _ _) = False"
| "IsPublishReplication (ReparentReplication _ _) = False"
| "IsPublishReplication (AttributeReplicationUpdate _ _ _) = False"
| "IsPublishReplication (TagAddedReplication _ _) = False"
| "IsPublishReplication (TagRemovedReplication _ _) = False"
| "IsPublishReplication (UnpublishReplication _) = False"
| "IsPublishReplication (DestroyReplication _) = False"

primrec GetReplicationObject :: "ReplicationIntent \<Rightarrow> ObjectId" where
  "GetReplicationObject (Publish p) = PublishObject p"
| "GetReplicationObject (PreparedPublish p) = PreparedObject p"
| "GetReplicationObject (PropertyReplicationUpdate i _ _ _ _) = i"
| "GetReplicationObject (ExtensionPropertyReplicationUpdate i _ _ _ _) = i"
| "GetReplicationObject (ReparentReplication i _) = i"
| "GetReplicationObject (AttributeReplicationUpdate i _ _) = i"
| "GetReplicationObject (TagAddedReplication i _) = i"
| "GetReplicationObject (TagRemovedReplication i _) = i"
| "GetReplicationObject (UnpublishReplication i) = i"
| "GetReplicationObject (DestroyReplication i) = i"

section \<open>Validation\<close>

definition MaximumSnapshotPropertiesPerObject :: nat where
  "MaximumSnapshotPropertiesPerObject = 1024"

definition MaximumCustomExtensionDefinitions :: nat where
  "MaximumCustomExtensionDefinitions = 64"

definition MaximumCustomClassDefinitions :: nat where
  "MaximumCustomClassDefinitions = 64"

definition MaximumExtensionOverridesPerInstance :: nat where
  "MaximumExtensionOverridesPerInstance = 128"

definition MaximumCustomPropertyOverridesPerInstance :: nat where
  "MaximumCustomPropertyOverridesPerInstance = 128"

text \<open>A call that throws makes the enclosing validation false: \<open>passes\<close> is its not throwing.\<close>

definition passes :: "string + 'a \<Rightarrow> bool" where
  "passes r \<longleftrightarrow> (case r of Inl _ \<Rightarrow> False | Inr _ \<Rightarrow> True)"

definition valid_entries :: "WireValue smap \<Rightarrow> string \<Rightarrow> bool" where
  "valid_entries m what \<longleftrightarrow> (\<forall>(name, v) \<in> set m.
     passes (ValidateProtocolString name MaximumProtocolIdentifierBytes what) \<and> passes (ValidateProtocolWireValue v))"

fun valid_extensions :: "SchemaId set \<Rightarrow> SnapshotExtensionState list \<Rightarrow> bool" where
  "valid_extensions seen [] = True"
| "valid_extensions seen (s # rest) =
     (if \<not> SchemaId_IsValid (ExtensionStateId s) \<or> ExtensionStateVersion s = 0 \<or>
         length (ExtensionStateProperties s) > MaximumExtensionOverridesPerInstance \<or> ExtensionStateId s \<in> seen
      then False
      else valid_entries (ExtensionStateProperties s) ''Replication extension property name'' \<and>
           valid_extensions (insert (ExtensionStateId s) seen) rest)"

fun valid_custom :: "SchemaId set \<Rightarrow> SnapshotCustomClassState list \<Rightarrow> bool" where
  "valid_custom seen [] = True"
| "valid_custom seen (s # rest) =
     (if \<not> SchemaId_IsValid (CustomStateId s) \<or> CustomStateVersion s = 0 \<or>
         length (CustomStateProperties s) > MaximumCustomPropertyOverridesPerInstance \<or> CustomStateId s \<in> seen
      then False
      else valid_entries (CustomStateProperties s) ''Replication custom property name'' \<and>
           valid_custom (insert (CustomStateId s) seen) rest)"

fun valid_tags :: "bytes set \<Rightarrow> bytes list \<Rightarrow> bool" where
  "valid_tags seen [] = True"
| "valid_tags seen (t # rest) = (passes (ValidateTagName t) \<and> t \<notin> seen \<and> valid_tags (insert t seen) rest)"

definition IsValidPublishReplication :: "json_measure \<Rightarrow> PublishReplication \<Rightarrow> bool" where
  "IsValidPublishReplication jm p =
     (if \<not> ObjectId_IsValid (PublishObject p) then False
      else if \<not> passes (ValidateProtocolString (PublishClassName p) MaximumProtocolIdentifierBytes ''Replication class name'') \<or>
         \<not> passes (ValidateProtocolString (PublishName p) MaximumProtocolStringBytes ''Replication object name'') then False
      else if length (PublishProperties p) > MaximumSnapshotPropertiesPerObject \<or>
         length (PublishAttributes p) > MaximumAttributesPerInstance \<or>
         length (PublishExtensions p) > MaximumCustomExtensionDefinitions \<or>
         length (PublishCustomProperties p) > MaximumCustomClassDefinitions \<or>
         length (PublishTags p) > MaximumTagsPerInstance then False
      else if \<not> valid_entries (PublishProperties p) ''Replication property name'' \<or>
         \<not> passes (ValidateAttributeCollection jm (PublishAttributes p)) \<or>
         \<not> valid_extensions {} (PublishExtensions p) \<or> \<not> valid_custom {} (PublishCustomProperties p) \<or>
         \<not> valid_tags {} (PublishTags p) then False
      else SchemaId_IsValid (PublishClassSchemaId p) \<and> PublishDefinitionVersion p \<noteq> 0 \<and>
         (case PublishParent p of None \<Rightarrow> True | Some i \<Rightarrow> ObjectId_IsValid i))"

fun is_reference :: "WireValue \<Rightarrow> bool" where
  "is_reference (WireObjectReference _) = True"
| "is_reference _ = False"

definition nil_name_ok :: "WireValue smap \<Rightarrow> StructuralPropertyPatchList \<Rightarrow> nat \<Rightarrow> bool" where
  "nil_name_ok properties nils i \<longleftrightarrow>
     (case List.find (\<lambda>e. fst e = PatchList_At nils i) properties of
        None \<Rightarrow> False
      | Some (_, v) \<Rightarrow> is_reference v \<and> \<not> (i \<noteq> 0 \<and> \<not> PatchList_At nils (i - 1) < PatchList_At nils i))"

definition ValidatePreparedPublish :: "PreparedPublishReplication \<Rightarrow> bool" where
  "ValidatePreparedPublish p =
     (case PreparedTemplate p of
        None \<Rightarrow> False
      | Some t \<Rightarrow>
          if \<not> ObjectId_IsValid (PreparedObject p) \<or> \<not> ObjectId_IsValid (KeyWorld (TemplateKey t)) \<or>
             KeyObject (TemplateKey t) \<noteq> PreparedObject p \<or> PublishObject (TemplatePublication t) \<noteq> PreparedObject p \<or>
             PatchList_Size (NilProperties p) > length (PublishProperties (TemplatePublication t))
          then False
          else \<forall>i \<in> set [0..<PatchList_Size (NilProperties p)].
                 nil_name_ok (PublishProperties (TemplatePublication t)) (NilProperties p) i)"

definition Intent_IsValid :: "json_measure \<Rightarrow> ReplicationIntent \<Rightarrow> bool" where
  "Intent_IsValid jm intent =
     (case intent of
        Publish p \<Rightarrow> IsValidPublishReplication jm p
      | PreparedPublish p \<Rightarrow> ValidatePreparedPublish p
      | PropertyReplicationUpdate _ name v schema version \<Rightarrow>
          passes (ValidateProtocolString name MaximumProtocolIdentifierBytes ''Replication property name'') \<and>
          passes (ValidateProtocolWireValue v) \<and> (schema \<noteq> None) = (version \<noteq> None) \<and>
          (case schema of None \<Rightarrow> True | Some s \<Rightarrow> SchemaId_IsValid s \<and> version \<noteq> Some 0)
      | ExtensionPropertyReplicationUpdate _ s version name v \<Rightarrow>
          passes (ValidateProtocolString name MaximumProtocolIdentifierBytes ''Replication extension property name'') \<and>
          passes (ValidateProtocolWireValue v) \<and> SchemaId_IsValid s \<and> version \<noteq> 0
      | ReparentReplication _ parent \<Rightarrow> (case parent of None \<Rightarrow> True | Some i \<Rightarrow> ObjectId_IsValid i)
      | AttributeReplicationUpdate _ name v \<Rightarrow>
          passes (ValidateAttributeName name) \<and>
          (case v of None \<Rightarrow> True | Some w \<Rightarrow> passes (ValidateAttributeValue jm w))
      | TagAddedReplication _ name \<Rightarrow> passes (ValidateTagName name)
      | TagRemovedReplication _ name \<Rightarrow> passes (ValidateTagName name)
      | UnpublishReplication _ \<Rightarrow> True
      | DestroyReplication _ \<Rightarrow> True)"

definition Operation_IsValid :: "json_measure \<Rightarrow> ReplicationOperation \<Rightarrow> bool" where
  "Operation_IsValid jm x =
     (if \<not> Sequence_IsValid (OperationEpoch x) then False
      else if \<not> ObjectId_IsValid (GetReplicationObject (Intent x)) then False
      else Intent_IsValid jm (Intent x))"

section \<open>The patch list is a list\<close>

definition patch_wf :: "StructuralPropertyPatchList \<Rightarrow> bool" where
  "patch_wf p \<longleftrightarrow> length (Inline p) = InlineCapacity \<and> length (Overflow p) = Count p - InlineCapacity"

definition patch_names :: "StructuralPropertyPatchList \<Rightarrow> bytes list" where
  "patch_names p = map (PatchList_At p) [0..<PatchList_Size p]"

lemma PatchList_Add_wf: "patch_wf p \<Longrightarrow> patch_wf (PatchList_Add n p)"
  by (auto simp: patch_wf_def PatchList_Add_def Let_def InlineCapacity_def)

lemma PatchList_Add_names:
  assumes "patch_wf p"
  shows "patch_names (PatchList_Add n p) = patch_names p @ [n]"
proof -
  have "PatchList_At (PatchList_Add n p) i = (if i = Count p then n else PatchList_At p i)" if "i \<le> Count p" for i
    using assms that by (auto simp: PatchList_At_def PatchList_Add_def patch_wf_def Let_def nth_append InlineCapacity_def)
  then show ?thesis by (auto simp: patch_names_def PatchList_Size_def PatchList_Add_def Let_def)
qed

lemma patch_names_fold:
  "patch_wf p \<Longrightarrow> patch_wf (fold PatchList_Add ns p) \<and> patch_names (fold PatchList_Add ns p) = patch_names p @ ns"
  by (induction ns arbitrary: p) (auto simp: PatchList_Add_wf PatchList_Add_names)

lemma PatchList_Contains_iff: "PatchList_Contains n p \<longleftrightarrow> n \<in> set (patch_names p)"
  by (auto simp: PatchList_Contains_def patch_names_def PatchList_Size_def)

lemma new_patch: "patch_wf new_PatchList" "patch_names new_PatchList = []"
  by (simp_all add: patch_wf_def patch_names_def new_PatchList_def InlineCapacity_def PatchList_Size_def)

section \<open>Accepted attributes\<close>

lemma passes_iff: "passes r \<longleftrightarrow> (\<exists>x. r = Inr x)"
  by (cases r) (simp_all add: passes_def)

lemma ValidateAttributeName_ok: "ValidateAttributeName n = Inr () \<longleftrightarrow> n \<noteq> [] \<and> protocol_string MaximumAttributeNameBytes n"
  by (auto simp: ValidateAttributeName_def protocol_string_def IsValidProtocolUtf8_def utf8_loop_spec)

lemma ValidateTagName_ok: "ValidateTagName n = Inr () \<longleftrightarrow> n \<noteq> [] \<and> protocol_string MaximumTagNameBytes n"
  by (auto simp: ValidateTagName_def protocol_string_def IsValidProtocolUtf8_def utf8_loop_spec)

definition attribute_ok :: "json_measure \<Rightarrow> WireValue \<Rightarrow> bool" where
  "attribute_ok jm v \<longleftrightarrow> attribute_supported v \<and> \<not> oversized_string v \<and>
     (case jm v of None \<Rightarrow> False | Some n \<Rightarrow> n \<le> MaximumAttributeValueBytes)"

lemma ValidateAttributeValue_ok: "ValidateAttributeValue jm v = Inr n \<longleftrightarrow> attribute_ok jm v \<and> jm v = Some n"
  by (auto simp: ValidateAttributeValue_def attribute_ok_def split: option.splits)

definition attribute_bytes :: "json_measure \<Rightarrow> WireValue smap \<Rightarrow> nat" where
  "attribute_bytes jm m = (\<Sum>(name, v) \<leftarrow> m. length name + the (jm v))"

definition entry_ok :: "json_measure \<Rightarrow> bytes \<times> WireValue \<Rightarrow> bool" where
  "entry_ok jm e \<longleftrightarrow> fst e \<noteq> [] \<and> protocol_string MaximumAttributeNameBytes (fst e) \<and> attribute_ok jm (snd e)"

lemma ValidateAttributes_step:
  assumes "entry_ok jm (name, v)"
  shows "ValidateAttributes jm a ((name, v) # rest) =
    (if a + length name + the (jm v) \<le> MaximumAttributeBytesPerInstance
     then ValidateAttributes jm (a + length name + the (jm v)) rest
     else Inl ''Instance exceeds its aggregate attribute byte limit'')"
proof -
  obtain k where "jm v = Some k" "ValidateAttributeValue jm v = Inr k"
    using assms by (auto simp: entry_ok_def ValidateAttributeValue_ok attribute_ok_def split: option.splits)
  moreover have "ValidateAttributeName name = Inr ()" using assms by (simp add: entry_ok_def ValidateAttributeName_ok)
  ultimately show ?thesis by (simp add: Let_def MaximumReplicatedAttributeBytesPerInstance_def)
qed

lemma ValidateAttributes_reject: "\<not> entry_ok jm (name, v) \<Longrightarrow> ValidateAttributes jm a ((name, v) # rest) \<noteq> Inr n"
  using ValidateAttributeName_ok [of name]
  by (auto simp: entry_ok_def ValidateAttributeValue_ok split: sum.splits)

lemma ValidateAttributes_ok:
  "ValidateAttributes jm a m = Inr n \<longleftrightarrow>
     (\<forall>e \<in> set m. entry_ok jm e) \<and> n = a + attribute_bytes jm m \<and> (m \<noteq> [] \<longrightarrow> n \<le> MaximumAttributeBytesPerInstance)"
proof (induction m arbitrary: a)
  case Nil
  show ?case by (auto simp: attribute_bytes_def)
next
  case (Cons e rest)
  obtain name v where e: "e = (name, v)" by (cases e)
  have sum: "attribute_bytes jm (e # rest) = length name + the (jm v) + attribute_bytes jm rest"
    by (simp add: e attribute_bytes_def)
  show ?case
  proof (cases "entry_ok jm e")
    case True
    show ?thesis
      unfolding e ValidateAttributes_step [OF True [unfolded e]] sum [unfolded e]
      using Cons.IH [of "a + length name + the (jm v)"] True by (auto simp: e attribute_bytes_def)
  next
    case False
    then show ?thesis using ValidateAttributes_reject by (auto simp: e)
  qed
qed

section \<open>Properties\<close>

text \<open>
  The patch list with its two places for short lists behaves as the list of the names
  added to it, in order, for size, indexing and membership.
\<close>

theorem patch_list_is_list:
  "map (PatchList_At (fold PatchList_Add names new_PatchList)) [0..<PatchList_Size (fold PatchList_Add names new_PatchList)] = names \<and>
   (PatchList_Contains n (fold PatchList_Add names new_PatchList) \<longleftrightarrow> n \<in> set names)"
  using patch_names_fold [OF new_patch(1), of names] new_patch(2)
  by (simp add: PatchList_Contains_iff) (simp add: patch_names_def)


definition ex_view :: ReplicationView where
  "ex_view = \<lparr>ViewConnection = ConnectionId 1 1, ViewEpoch = 1, KnownObjects = [ObjectId 1 1, ObjectId 2 1],
     RelevantObjects = [ObjectId 1 1], LatestStateSequences = [((ObjectId 1 1, 3), 4), ((ObjectId 2 1, 3), 5)]\<rparr>"

lemma ex_view_valid: "View_IsValid ex_view"
  by (simp add: View_IsValid_def ex_view_def ConnectionId_IsValid_def Sequence_IsValid_def ObjectId_IsValid_def)


text \<open>
  A collection of attributes is accepted exactly when it has at most 64 entries, every
  name and value is admissible and the names and encoded values together stay within 16 KiB;
  the result is that size. Checking the running total after each entry, as the code does,
  amounts to checking the sum.
\<close>

theorem attribute_collection_accepted:
  "ValidateAttributeCollection jm m = Inr n \<longleftrightarrow>
     length m \<le> MaximumAttributesPerInstance \<and>
     list_all (entry_ok jm) m \<and>
     n = attribute_bytes jm m \<and> n \<le> MaximumAttributeBytesPerInstance"
  by (auto simp: ValidateAttributeCollection_def ValidateAttributes_ok list_all_iff) (auto simp: attribute_bytes_def)

end
