(* ===== verification/ReadCalculus.thy ===== *)
theory ReadCalculus imports BinaryCodec begin

text \<open>
  Reasoning about readers that are composed of smaller ones, shared by the protocols whose frames
  are decoded piece by piece: what a reader reads back from an image, what whatever it returns
  satisfies, and the contract of a writer and a reader that fit.
\<close>

section \<open>Readers that give up, and lists\<close>

text \<open>A return of false without a message of its own.\<close>

definition rd_reject :: "'a rd" where
  "rd_reject r = (None, r)"

definition rd_guard :: "bool \<Rightarrow> 'a rd \<Rightarrow> 'a rd" where
  "rd_guard ok m = (if ok then m else rd_reject)"

fun rd_list :: "nat \<Rightarrow> 'a rd \<Rightarrow> 'a list rd" where
  "rd_list 0 m = rd_return []"
| "rd_list (Suc n) m = rd_bind m (\<lambda>x. rd_bind (rd_list n m) (\<lambda>xs. rd_return (x # xs)))"

section \<open>What a reader reads back\<close>

text \<open>
  \<open>reads m bs x\<close>: wherever \<open>bs\<close> stands at the position, \<open>m\<close> returns \<open>x\<close> and moves past it. It is
  the half of the contract of \<open>codec\<close> that survives when several images decode to one value, as
  the entries of a map may come in any order. The contract of \<open>stream_codec\<close> adds what is
  emitted; \<open>norm\<close> is what a receiver gets for a value.
\<close>

definition reads :: "'a rd \<Rightarrow> bytes \<Rightarrow> 'a \<Rightarrow> bool" where
  "reads m bs x \<longleftrightarrow> (\<forall>r r'. takes bs r r' \<longrightarrow> m r = (Some x, r'))"

lemma reads_return: "reads (rd_return x) [] x"
  by (simp add: reads_def takes_Nil rd_return_def)

lemma reads_bind: "reads m as x \<Longrightarrow> reads (f x) bs y \<Longrightarrow> reads (rd_bind m f) (as @ bs) y"
  unfolding reads_def takes_append by (fastforce simp: rd_bind_def)

lemma reads_map: "reads m as x \<Longrightarrow> reads (rd_bind m (\<lambda>x. rd_return (g x))) as (g x)"
  using reads_bind [OF _ reads_return, of m as x g] by simp

lemma reads_or_fail: "reads m bs x \<Longrightarrow> P x \<Longrightarrow> reads (rd_or_fail m P e) bs x"
  by (simp add: reads_def rd_or_fail_def)

lemma reads_guard: "ok \<Longrightarrow> reads m bs x \<Longrightarrow> reads (rd_guard ok m) bs x"
  by (simp add: rd_guard_def)

lemma reads_check: "ok \<Longrightarrow> reads (rd_bind (rd_check ok e) (\<lambda>_. rd_return x)) [] x"
  by (simp add: reads_def takes_Nil rd_bind_def rd_check_def rd_return_def)

lemma reads_list:
  "(\<And>v. v \<in> set vs \<Longrightarrow> reads m (img v) (g v)) \<Longrightarrow> reads (rd_list (length vs) m) (concat (map img vs)) (map g vs)"
proof (induction vs)
  case (Cons v vs)
  then show ?case using reads_bind [of m "img v" "g v"] reads_map by fastforce
qed (simp add: reads_return)

locale stream_codec =
  fixes wr :: "'v \<Rightarrow> writer \<Rightarrow> writer"
    and rd :: "'w rd"
    and img :: "'v \<Rightarrow> bytes"
    and norm :: "'v \<Rightarrow> 'w"
    and ok :: "'v \<Rightarrow> bool"
  assumes stream_emits: "ok v \<Longrightarrow> emits (wr v) (img v)"
    and stream_reads: "ok v \<Longrightarrow> reads rd (img v) (norm v)"
begin

lemma all_emits: "(\<And>v. v \<in> set vs \<Longrightarrow> ok v) \<Longrightarrow> emits (fold wr vs) (concat (map img vs))"
  by (intro emits_fold stream_emits)

lemma all_reads: "(\<And>v. v \<in> set vs \<Longrightarrow> ok v) \<Longrightarrow> reads (rd_list (length vs) rd) (concat (map img vs)) (map norm vs)"
  by (intro reads_list stream_reads)

end

sublocale codec \<subseteq> stream_codec wr rd img "\<lambda>v. v" ok
  by unfold_locales (simp_all add: write_emits reads_def read_takes)

lemma reads_u8: "reads (Reader_Integer :: u8 rd) (int_image v) v"
  and reads_u16: "reads (Reader_Integer :: u16 rd) (int_image v2) v2"
  and reads_u32: "reads (Reader_Integer :: u32 rd) (int_image v4) v4"
  and reads_u64: "reads (Reader_Integer :: u64 rd) (int_image v8) v8"
  by (simp_all add: reads_def Reader_Integer_ok)

lemma reads_string: "string_ok limit s \<Longrightarrow> reads (Reader_String limit) (string_image s) s"
  by (simp add: reads_def Reader_String_ok)

lemma reads_object: "ObjectId_IsValid i \<Longrightarrow> reads ReadBinaryObjectId (object_id_image i) i"
  by (simp add: reads_def ReadBinaryObjectId_ok)

lemma reads_schema: "SchemaId_IsValid i \<Longrightarrow> reads ReadBinarySchemaId (schema_id_image i) i"
  by (simp add: reads_def ReadBinarySchemaId_ok)

lemma reads_wire: "wire_value_ok limit v \<Longrightarrow> reads (ReadBinaryWireValue limit) (wire_value_image v) v"
  by (simp add: reads_def ReadBinaryWireValue_ok)

lemmas reads_intros = reads_bind [OF reads_u8] reads_bind [OF reads_u16] reads_bind [OF reads_u32] reads_bind [OF reads_u64]
  reads_bind [OF reads_string] reads_bind [OF reads_object] reads_bind [OF reads_schema] reads_bind [OF reads_wire]
  reads_bind [OF reads_or_fail [OF reads_u8]] reads_return reads_guard

section \<open>What a reader yields\<close>

text \<open>
  \<open>yields m Q\<close>: whatever \<open>m\<close> returns satisfies \<open>Q\<close> together with the number of bytes consumed.
  This is the other half of the contract, without a fixed image.
\<close>

definition moved :: "reader \<Rightarrow> reader \<Rightarrow> nat \<Rightarrow> bool" where
  "moved r r' n \<longleftrightarrow> Input r' = Input r \<and> Position r' = Position r + n \<and> Position r' \<le> length (Input r')"

definition yields :: "'a rd \<Rightarrow> ('a \<Rightarrow> nat \<Rightarrow> bool) \<Rightarrow> bool" where
  "yields m Q \<longleftrightarrow> (\<forall>r x r'. Position r \<le> length (Input r) \<longrightarrow> m r = (Some x, r') \<longrightarrow> (\<exists>n. moved r r' n \<and> Q x n))"

lemma takes_moved: "takes bs r r' \<Longrightarrow> moved r r' (length bs)"
  by (auto simp: takes_def moved_def)

lemma yields_mono: "yields m Q \<Longrightarrow> (\<And>x n. Q x n \<Longrightarrow> R x n) \<Longrightarrow> yields m R"
  unfolding yields_def by blast

lemma yields_return: "Q x 0 \<Longrightarrow> yields (rd_return x) Q"
  by (auto simp: yields_def rd_return_def moved_def)

lemma yields_bind:
  assumes "yields m Q" "\<And>x n. Q x n \<Longrightarrow> yields (f x) (\<lambda>y k. R y (n + k))"
  shows "yields (rd_bind m f) R"
  unfolding yields_def
proof (intro allI impI)
  fix r y r'' assume r: "Position r \<le> length (Input r)" and "rd_bind m f r = (Some y, r'')"
  then obtain x r' where m: "m r = (Some x, r')" and f: "f x r' = (Some y, r'')" by (auto simp: rd_bind_ok)
  from assms(1) r m obtain n where n: "moved r r' n" "Q x n" unfolding yields_def by blast
  then have "Position r' \<le> length (Input r')" by (auto simp: moved_def)
  with assms(2) [OF n(2)] f obtain k where k: "moved r' r'' k" "R y (n + k)" unfolding yields_def by blast
  then have "moved r r'' (n + k)" using n(1) by (auto simp: moved_def)
  with k(2) show "\<exists>n. moved r r'' n \<and> R y n" by blast
qed

lemma yields_none: "yields (Fail e) Q" "yields rd_reject Q"
  by (simp_all add: yields_def Fail_def rd_reject_def)

lemma yields_guard: "(ok \<Longrightarrow> yields m Q) \<Longrightarrow> yields (rd_guard ok m) Q"
  by (simp add: rd_guard_def yields_none)

lemma yields_or_fail: "yields m (\<lambda>x n. P x \<longrightarrow> Q x n) \<Longrightarrow> yields (rd_or_fail m P e) Q"
  by (auto simp: yields_def rd_or_fail_ok)

lemma yields_check: "(ok \<Longrightarrow> Q x 0) \<Longrightarrow> yields (rd_bind (rd_check ok e) (\<lambda>_. rd_return x)) Q"
  by (auto simp: yields_def rd_bind_ok rd_check_ok rd_return_ok moved_def)

lemma yields_u8: "yields (Reader_Integer :: u8 rd) (\<lambda>_ n. n = 1)"
  and yields_u16: "yields (Reader_Integer :: u16 rd) (\<lambda>_ n. n = 2)"
  and yields_u32: "yields (Reader_Integer :: u32 rd) (\<lambda>_ n. n = 4)"
  and yields_u64: "yields (Reader_Integer :: u64 rd) (\<lambda>_ n. n = 8)"
  by (auto simp: yields_def Reader_Integer_ok length_int_image dest!: takes_moved)

lemma yields_string: "yields (Reader_String limit) (\<lambda>s n. n = length (string_image s))"
  by (auto simp: yields_def Reader_String_ok dest!: takes_moved)

lemma yields_object: "yields ReadBinaryObjectId (\<lambda>i n. n = length (object_id_image i))"
  by (auto simp: yields_def ReadBinaryObjectId_ok dest!: takes_moved)

lemma yields_schema: "yields ReadBinarySchemaId (\<lambda>i n. n = length (schema_id_image i))"
  by (auto simp: yields_def ReadBinarySchemaId_ok dest!: takes_moved)

lemma yields_wire: "yields (ReadBinaryWireValue limit) (\<lambda>v n. wf_WireValue v \<and> n = length (wire_value_image v))"
  by (auto simp: yields_def ReadBinaryWireValue_ok wire_value_ok_def dest!: takes_moved)

lemmas yields_intros = yields_bind [OF yields_u8] yields_bind [OF yields_u16] yields_bind [OF yields_u32] yields_bind [OF yields_u64]
  yields_bind [OF yields_string] yields_bind [OF yields_object] yields_bind [OF yields_schema] yields_bind [OF yields_wire]
  yields_guard yields_return

lemma yields_list:
  "yields m (\<lambda>x n. P x \<and> n = length (img x)) \<Longrightarrow>
   yields (rd_list k m) (\<lambda>xs n. length xs = k \<and> (\<forall>x \<in> set xs. P x) \<and> n = length (concat (map img xs)))"
proof (induction k)
  case (Suc k)
  show ?case
    unfolding rd_list.simps
    by (rule yields_bind [OF Suc.prems], rule yields_bind [OF Suc.IH [OF Suc.prems]], rule yields_return) auto
qed (simp add: yields_return)

end
