(* ===== verification/ReplicationProtocol.thy ===== *)
theory ReplicationProtocol imports Replication Serialization ReadCalculus begin

text \<open>
  The replication frames of src/network/ReplicationProtocol.cpp: a frame carries a schema
  manifest and operations; encoding and decoding, on the binary reader and writer. The set of
  definitions in the schema registry is an argument, as is the JSON size of a value (see
  \<open>json_measure\<close>). The work counters and allocation failure are not modelled.
\<close>

section \<open>Frames\<close>

definition ReplicationProtocolVersion :: u16 where
  "ReplicationProtocolVersion = 1"

definition MaximumReplicationFrameBytes :: nat where
  "MaximumReplicationFrameBytes = 8 * 1024 * 1024"

definition MaximumReplicationOperationsPerFrame :: nat where
  "MaximumReplicationOperationsPerFrame = 64 * 1024"

definition MaximumReplicationSchemaDefinitions :: nat where
  "MaximumReplicationSchemaDefinitions = 4096"

definition ReplicationMagic :: u32 where
  "ReplicationMagic = 0x4c505247"

definition ReplicationHeaderBytes :: nat where
  "ReplicationHeaderBytes = 36"

definition ReplicationSchemaEntryBytes :: nat where
  "ReplicationSchemaEntryBytes = 21"

definition MinimumReplicationOperationBytes :: nat where
  "MinimumReplicationOperationBytes = 9"

lemmas replication_limits = MaximumReplicationFrameBytes_def MaximumReplicationOperationsPerFrame_def
  MaximumReplicationSchemaDefinitions_def ReplicationHeaderBytes_def ReplicationSchemaEntryBytes_def
  MinimumReplicationOperationBytes_def

text \<open>The enumerations are bytes, since the code tests them against their last value.\<close>

type_synonym ReplicationMessageKind = u8

definition KindBaseline :: ReplicationMessageKind where
  "KindBaseline = 0"

definition KindIncremental :: ReplicationMessageKind where
  "KindIncremental = 1"

type_synonym SchemaDefinitionKind = u8

definition SchemaKindExtension :: SchemaDefinitionKind where
  "SchemaKindExtension = 2"

record SchemaCompatibilityEntry =
  EntryId :: SchemaId
  EntryVersion :: u32
  EntryKind :: SchemaDefinitionKind

record ReplicationFrame =
  FrameVersion :: u16
  FrameKind :: ReplicationMessageKind
  FrameEpoch :: Sequence
  FrameSequence :: Sequence
  FrameSchema :: "SchemaCompatibilityEntry list"
  FrameOperations :: "ReplicationOperation list"

fun unique_schema :: "SchemaId set \<Rightarrow> SchemaCompatibilityEntry list \<Rightarrow> bool" where
  "unique_schema seen [] = True"
| "unique_schema seen (e # rest) =
     (if \<not> SchemaId_IsValid (EntryId e) \<or> EntryVersion e = 0 \<or> EntryKind e > SchemaKindExtension \<or> EntryId e \<in> seen
      then False else unique_schema (insert (EntryId e) seen) rest)"

definition Frame_IsValid :: "json_measure \<Rightarrow> ReplicationFrame \<Rightarrow> bool" where
  "Frame_IsValid jm f =
     (if FrameVersion f \<noteq> ReplicationProtocolVersion \<or> \<not> Sequence_IsValid (FrameEpoch f) \<or>
         \<not> Sequence_IsValid (FrameSequence f) \<or> FrameKind f > KindIncremental \<or>
         length (FrameOperations f) > MaximumReplicationOperationsPerFrame \<or>
         length (FrameSchema f) > MaximumReplicationSchemaDefinitions then False
      else if FrameKind f = KindBaseline \<and> FrameSchema f = [] then False
      else if FrameKind f = KindIncremental \<and> FrameSchema f \<noteq> [] then False
      else unique_schema {} (FrameSchema f) \<and>
           (\<forall>x \<in> set (FrameOperations f). OperationEpoch x = FrameEpoch f \<and> Operation_IsValid jm x))"

definition CaptureReplicationSchemaCompatibility :: "SchemaCompatibilityEntry list \<Rightarrow> SchemaCompatibilityEntry list" where
  "CaptureReplicationSchemaCompatibility definitions = sort_key EntryId definitions"

definition IsReplicationSchemaCompatible :: "SchemaCompatibilityEntry list \<Rightarrow> SchemaCompatibilityEntry list \<Rightarrow> bool" where
  "IsReplicationSchemaCompatible definitions remote \<longleftrightarrow> CaptureReplicationSchemaCompatibility definitions = remote"

section \<open>Writing\<close>

definition WriteOptionalObjectId :: "ObjectId option \<Rightarrow> writer \<Rightarrow> writer" where
  "WriteOptionalObjectId i =
     (case i of None \<Rightarrow> id | Some x \<Rightarrow> WriteBinaryObjectId x) \<circ> Writer_Integer (if i \<noteq> None then 1 else 0 :: u8)"

definition patched :: "StructuralPropertyPatchList option \<Rightarrow> bytes \<times> WireValue \<Rightarrow> bytes \<times> WireValue" where
  "patched nils e =
     (fst e, if (case nils of None \<Rightarrow> False | Some p \<Rightarrow> PatchList_Contains (fst e) p) then WireMonostate else snd e)"

definition WriteEntry :: "bytes \<times> WireValue \<Rightarrow> writer \<Rightarrow> writer" where
  "WriteEntry e = WriteBinaryWireValue (snd e) \<circ> Writer_String (fst e)"

definition WriteValueMap :: "StructuralPropertyPatchList option \<Rightarrow> WireValue smap \<Rightarrow> writer \<Rightarrow> writer" where
  "WriteValueMap nils m =
     fold (\<lambda>e. WriteEntry (patched nils e)) m \<circ> Writer_Integer (word_of_nat (length m) :: u32)"

definition WriteExtensionState :: "SnapshotExtensionState \<Rightarrow> writer \<Rightarrow> writer" where
  "WriteExtensionState s =
     WriteValueMap None (ExtensionStateProperties s) \<circ> Writer_Integer (ExtensionStateVersion s) \<circ>
     WriteBinarySchemaId (ExtensionStateId s)"

definition WriteCustomState :: "SnapshotCustomClassState \<Rightarrow> writer \<Rightarrow> writer" where
  "WriteCustomState s =
     WriteValueMap None (CustomStateProperties s) \<circ> Writer_Integer (CustomStateVersion s) \<circ>
     WriteBinarySchemaId (CustomStateId s)"

definition WriteCounted :: "('a \<Rightarrow> writer \<Rightarrow> writer) \<Rightarrow> 'a list \<Rightarrow> writer \<Rightarrow> writer" where
  "WriteCounted f xs = fold f xs \<circ> Writer_Integer (word_of_nat (length xs) :: u32)"

definition WritePublish :: "StructuralPropertyPatchList option \<Rightarrow> PublishReplication \<Rightarrow> writer \<Rightarrow> writer" where
  "WritePublish nils p =
     WriteCounted Writer_String (PublishTags p) \<circ> WriteCounted WriteCustomState (PublishCustomProperties p) \<circ>
     WriteCounted WriteExtensionState (PublishExtensions p) \<circ> WriteValueMap None (PublishAttributes p) \<circ>
     WriteValueMap nils (PublishProperties p) \<circ> Writer_String (PublishName p) \<circ> Writer_String (PublishClassName p) \<circ>
     WriteOptionalObjectId (PublishParent p) \<circ> Writer_Integer (PublishDefinitionVersion p) \<circ>
     WriteBinarySchemaId (PublishClassSchemaId p) \<circ> WriteBinaryObjectId (PublishObject p)"

text \<open>
  \<open>OperationCode\<close> numbers the alternatives. A prepared publication is written as the publication
  of its template with the patched properties; its template is not null when it is valid.
\<close>

primrec WriteIntent :: "ReplicationIntent \<Rightarrow> writer \<Rightarrow> writer" where
  "WriteIntent (Publish p) = WritePublish None p \<circ> Writer_Integer (0 :: u8)"
| "WriteIntent (PreparedPublish p) =
     (case PreparedTemplate p of
        None \<Rightarrow> id
      | Some t \<Rightarrow> WritePublish (Some (NilProperties p)) (TemplatePublication t) \<circ> Writer_Integer (0 :: u8))"
| "WriteIntent (PropertyReplicationUpdate i name v schema version) =
     (case schema of
        None \<Rightarrow> id
      | Some s \<Rightarrow> Writer_Integer (the version) \<circ> WriteBinarySchemaId s) \<circ>
     Writer_Integer (if schema \<noteq> None then 1 else 0 :: u8) \<circ> WriteBinaryWireValue v \<circ> Writer_String name \<circ>
     WriteBinaryObjectId i \<circ> Writer_Integer (1 :: u8)"
| "WriteIntent (ExtensionPropertyReplicationUpdate i s version name v) =
     WriteBinaryWireValue v \<circ> Writer_String name \<circ> Writer_Integer version \<circ> WriteBinarySchemaId s \<circ>
     WriteBinaryObjectId i \<circ> Writer_Integer (2 :: u8)"
| "WriteIntent (ReparentReplication i parent) =
     WriteOptionalObjectId parent \<circ> WriteBinaryObjectId i \<circ> Writer_Integer (3 :: u8)"
| "WriteIntent (AttributeReplicationUpdate i name v) =
     (case v of None \<Rightarrow> id | Some w \<Rightarrow> WriteBinaryWireValue w) \<circ> Writer_Integer (if v \<noteq> None then 1 else 0 :: u8) \<circ>
     Writer_String name \<circ> WriteBinaryObjectId i \<circ> Writer_Integer (4 :: u8)"
| "WriteIntent (TagAddedReplication i name) = Writer_String name \<circ> WriteBinaryObjectId i \<circ> Writer_Integer (5 :: u8)"
| "WriteIntent (TagRemovedReplication i name) = Writer_String name \<circ> WriteBinaryObjectId i \<circ> Writer_Integer (6 :: u8)"
| "WriteIntent (UnpublishReplication i) = WriteBinaryObjectId i \<circ> Writer_Integer (7 :: u8)"
| "WriteIntent (DestroyReplication i) = WriteBinaryObjectId i \<circ> Writer_Integer (8 :: u8)"

definition WriteSchemaEntry :: "SchemaCompatibilityEntry \<Rightarrow> writer \<Rightarrow> writer" where
  "WriteSchemaEntry e = Writer_Integer (EntryKind e) \<circ> Writer_Integer (EntryVersion e) \<circ> WriteBinarySchemaId (EntryId e)"

definition EncodeReplicationFrameBounded :: "json_measure \<Rightarrow> ReplicationFrame \<Rightarrow> nat \<Rightarrow> SerializationError + bytes" where
  "EncodeReplicationFrameBounded jm f bound =
     (if \<not> Frame_IsValid jm f then SerializationFailure InvalidValue ''Replication frame is invalid''
      else
        (let n = min bound MaximumReplicationFrameBytes
         in if n < ReplicationHeaderBytes then SerializationFailure LimitExceeded ''Replication frame exceeds its byte limit''
            else
              (let payload = (fold (\<lambda>x. WriteIntent (Intent x)) (FrameOperations f) \<circ> fold WriteSchemaEntry (FrameSchema f))
                     (GameBinaryWriter (n - ReplicationHeaderBytes))
               in if \<not> Writer_Succeeded payload
                  then SerializationFailure LimitExceeded ''Replication frame exceeds its byte limit''
                  else
                    (let out = (Writer_Integer (word_of_nat (length (Bytes payload)) :: u32) \<circ>
                           Writer_Integer (word_of_nat (length (FrameOperations f)) :: u32) \<circ>
                           Writer_Integer (word_of_nat (length (FrameSchema f)) :: u32) \<circ>
                           Writer_Integer (FrameSequence f) \<circ> Writer_Integer (FrameEpoch f) \<circ> Writer_Integer (0 :: u8) \<circ>
                           Writer_Integer (FrameKind f) \<circ> Writer_Integer (FrameVersion f) \<circ> Writer_Integer ReplicationMagic)
                           (GameBinaryWriter n)
                     in Inr (Bytes out @ Bytes payload)))))"

definition EncodeReplicationFrame :: "json_measure \<Rightarrow> ReplicationFrame \<Rightarrow> SerializationError + bytes" where
  "EncodeReplicationFrame jm f = EncodeReplicationFrameBounded jm f MaximumReplicationFrameBytes"

section \<open>Reading\<close>

definition ReadOptionalObjectId :: "ObjectId option rd" where
  "ReadOptionalObjectId =
     rd_bind (rd_or_fail (Reader_Integer :: u8 rd) (\<lambda>p. p \<le> 1) ''Replication optional marker is invalid'') (\<lambda>present.
       if present = 0 then rd_return None else rd_bind ReadBinaryObjectId (\<lambda>i. rd_return (Some i)))"

fun ReadEntries :: "nat \<Rightarrow> WireValue smap \<Rightarrow> WireValue smap rd" where
  "ReadEntries 0 m = rd_return m"
| "ReadEntries (Suc n) m =
     rd_bind (Reader_String MaximumProtocolIdentifierBytes) (\<lambda>name.
     rd_bind (ReadBinaryWireValue MaximumProtocolStringBytes) (\<lambda>v.
       case smap_emplace name v m of
         None \<Rightarrow> Fail ''Replication value map contains duplicate keys''
       | Some m' \<Rightarrow> ReadEntries n m'))"

definition ReadCount :: "nat \<Rightarrow> string \<Rightarrow> nat rd" where
  "ReadCount limit message =
     rd_bind (rd_or_fail (Reader_Integer :: u32 rd) (\<lambda>n. unat n \<le> limit) message) (\<lambda>n. rd_return (unat n))"

definition ReadValueMap :: "nat \<Rightarrow> WireValue smap rd" where
  "ReadValueMap limit = rd_bind (ReadCount limit ''Replication value map exceeds its limit'') (\<lambda>n. ReadEntries n [])"

definition ReadExtensionState :: "SnapshotExtensionState rd" where
  "ReadExtensionState =
     rd_bind ReadBinarySchemaId (\<lambda>i. rd_bind Reader_Integer (\<lambda>version. rd_guard (version \<noteq> 0)
       (rd_bind (ReadValueMap MaximumExtensionOverridesPerInstance) (\<lambda>m.
         rd_return \<lparr>ExtensionStateId = i, ExtensionStateVersion = version, ExtensionStateProperties = m\<rparr>))))"

definition ReadCustomState :: "SnapshotCustomClassState rd" where
  "ReadCustomState =
     rd_bind ReadBinarySchemaId (\<lambda>i. rd_bind Reader_Integer (\<lambda>version. rd_guard (version \<noteq> 0)
       (rd_bind (ReadValueMap MaximumCustomPropertyOverridesPerInstance) (\<lambda>m.
         rd_return \<lparr>CustomStateId = i, CustomStateVersion = version, CustomStateProperties = m\<rparr>))))"

fun ReadTags :: "nat \<Rightarrow> bytes set \<Rightarrow> bytes list rd" where
  "ReadTags 0 seen = rd_return []"
| "ReadTags (Suc n) seen =
     rd_bind (rd_or_fail (Reader_String MaximumTagNameBytes) (\<lambda>t. t \<notin> seen) ''Replication tags are invalid or duplicated'') (\<lambda>t.
     rd_bind (ReadTags n (insert t seen)) (\<lambda>ts. rd_return (t # ts)))"

definition ReadPublish :: "PublishReplication rd" where
  "ReadPublish =
     rd_bind ReadBinaryObjectId (\<lambda>i. rd_bind ReadBinarySchemaId (\<lambda>schema. rd_bind Reader_Integer (\<lambda>version.
     rd_guard (version \<noteq> 0) (rd_bind ReadOptionalObjectId (\<lambda>parent.
     rd_bind (Reader_String MaximumProtocolIdentifierBytes) (\<lambda>className.
     rd_bind (Reader_String MaximumProtocolStringBytes) (\<lambda>name.
     rd_bind (ReadValueMap MaximumSnapshotPropertiesPerObject) (\<lambda>properties.
     rd_bind (ReadValueMap MaximumAttributesPerInstance) (\<lambda>attributes.
     rd_bind (rd_bind (ReadCount MaximumCustomExtensionDefinitions ''Replication extension state exceeds its limit'')
       (\<lambda>n. rd_list n ReadExtensionState)) (\<lambda>extensions.
     rd_bind (rd_bind (ReadCount MaximumCustomClassDefinitions ''Replication custom state exceeds its limit'')
       (\<lambda>n. rd_list n ReadCustomState)) (\<lambda>custom.
     rd_bind (rd_bind (ReadCount MaximumTagsPerInstance ''Replication tags exceed their limit'')
       (\<lambda>n. ReadTags n {})) (\<lambda>tags.
       rd_return \<lparr>PublishObject = i, PublishClassSchemaId = schema, PublishDefinitionVersion = version,
         PublishParent = parent, PublishClassName = className, PublishName = name, PublishProperties = properties,
         PublishAttributes = attributes, PublishExtensions = extensions, PublishCustomProperties = custom,
         PublishTags = tags\<rparr>))))))))))))"

definition ReadPropertySchema :: "(SchemaId \<times> u32) option rd" where
  "ReadPropertySchema =
     rd_bind (rd_or_fail (Reader_Integer :: u8 rd) (\<lambda>p. p \<le> 1) ''Replication property operation is invalid'') (\<lambda>present.
       if present = 0 then rd_return None
       else rd_bind (rd_or_fail (rd_bind ReadBinarySchemaId (\<lambda>i. rd_bind Reader_Integer (\<lambda>version. rd_return (i, version))))
              (\<lambda>(i, version). version \<noteq> 0) ''Replication property schema is invalid'') (\<lambda>s. rd_return (Some s)))"

definition ReadIntent :: "u8 \<Rightarrow> ReplicationIntent rd" where
  "ReadIntent code =
     (if code = 0 then rd_bind ReadPublish (\<lambda>p. rd_return (Publish p))
      else if code = 1 then
        rd_bind (rd_or_fail
          (rd_bind ReadBinaryObjectId (\<lambda>i. rd_bind (Reader_String MaximumProtocolIdentifierBytes) (\<lambda>name.
           rd_bind (ReadBinaryWireValue MaximumProtocolStringBytes) (\<lambda>v. rd_return (i, name, v)))))
          (\<lambda>_. True) ''Replication property operation is invalid'') (\<lambda>(i, name, v).
        rd_bind ReadPropertySchema (\<lambda>s.
          rd_return (PropertyReplicationUpdate i name v (map_option fst s) (map_option snd s))))
      else if code = 2 then
        rd_bind ReadBinaryObjectId (\<lambda>i. rd_bind ReadBinarySchemaId (\<lambda>s. rd_bind Reader_Integer (\<lambda>version.
        rd_guard (version \<noteq> 0) (rd_bind (Reader_String MaximumProtocolIdentifierBytes) (\<lambda>name.
        rd_bind (ReadBinaryWireValue MaximumProtocolStringBytes) (\<lambda>v.
          rd_return (ExtensionPropertyReplicationUpdate i s version name v)))))))
      else if code = 3 then
        rd_bind ReadBinaryObjectId (\<lambda>i. rd_bind ReadOptionalObjectId (\<lambda>parent. rd_return (ReparentReplication i parent)))
      else if code = 4 then
        rd_bind (rd_or_fail
          (rd_bind ReadBinaryObjectId (\<lambda>i. rd_bind (Reader_String MaximumAttributeNameBytes) (\<lambda>name.
           rd_bind (Reader_Integer :: u8 rd) (\<lambda>present. rd_return (i, name, present)))))
          (\<lambda>(i, name, present). present \<le> 1) ''Replication attribute operation is invalid'') (\<lambda>(i, name, present).
        if present = 0 then rd_return (AttributeReplicationUpdate i name None)
        else rd_bind (ReadBinaryWireValue MaximumProtocolStringBytes) (\<lambda>v.
          rd_return (AttributeReplicationUpdate i name (Some v))))
      else if code = 5 then
        rd_bind ReadBinaryObjectId (\<lambda>i. rd_bind (Reader_String MaximumTagNameBytes) (\<lambda>name. rd_return (TagAddedReplication i name)))
      else if code = 6 then
        rd_bind ReadBinaryObjectId (\<lambda>i. rd_bind (Reader_String MaximumTagNameBytes) (\<lambda>name. rd_return (TagRemovedReplication i name)))
      else if code = 7 then rd_bind ReadBinaryObjectId (\<lambda>i. rd_return (UnpublishReplication i))
      else rd_bind ReadBinaryObjectId (\<lambda>i. rd_return (DestroyReplication i)))"

definition ReadOperation :: "json_measure \<Rightarrow> Sequence \<Rightarrow> ReplicationOperation rd" where
  "ReadOperation jm epoch =
     rd_bind (rd_or_fail (Reader_Integer :: u8 rd) (\<lambda>code. code \<le> 8) ''Replication opcode is invalid'') (\<lambda>code.
     rd_bind (ReadIntent code) (\<lambda>intent.
       let x = \<lparr>OperationEpoch = epoch, Intent = intent\<rparr>
       in rd_bind (rd_check (Operation_IsValid jm x) ''Replication operation failed semantic validation'') (\<lambda>_. rd_return x)))"

record replication_header =
  HeaderMagic :: u32
  HeaderVersion :: u16
  HeaderKind :: u8
  HeaderReserved :: u8
  HeaderEpoch :: u64
  HeaderSequence :: u64
  HeaderSchemaCount :: u32
  HeaderOperationCount :: u32
  HeaderPayloadBytes :: u32

definition ReadReplicationHeader :: "replication_header rd" where
  "ReadReplicationHeader =
     rd_bind Reader_Integer (\<lambda>magic. rd_bind Reader_Integer (\<lambda>version. rd_bind Reader_Integer (\<lambda>kind.
     rd_bind Reader_Integer (\<lambda>reserved. rd_bind Reader_Integer (\<lambda>epoch. rd_bind Reader_Integer (\<lambda>sequence.
     rd_bind Reader_Integer (\<lambda>schemaCount. rd_bind Reader_Integer (\<lambda>operationCount. rd_bind Reader_Integer (\<lambda>payloadBytes.
       rd_return \<lparr>HeaderMagic = magic, HeaderVersion = version, HeaderKind = kind, HeaderReserved = reserved,
         HeaderEpoch = epoch, HeaderSequence = sequence, HeaderSchemaCount = schemaCount,
         HeaderOperationCount = operationCount, HeaderPayloadBytes = payloadBytes\<rparr>)))))))))"

definition ReadSchemaEntry :: "SchemaCompatibilityEntry rd" where
  "ReadSchemaEntry =
     rd_bind ReadBinarySchemaId (\<lambda>i. rd_bind Reader_Integer (\<lambda>version. rd_guard (version \<noteq> 0)
       (rd_bind Reader_Integer (\<lambda>kind. rd_guard (\<not> kind > SchemaKindExtension)
         (rd_return \<lparr>EntryId = i, EntryVersion = version, EntryKind = kind\<rparr>)))))"

definition DecodeReplicationFrame :: "json_measure \<Rightarrow> bytes \<Rightarrow> SerializationError + ReplicationFrame" where
  "DecodeReplicationFrame jm bs =
     (if length bs > MaximumReplicationFrameBytes
      then SerializationFailure LimitExceeded ''Replication frame exceeds its byte limit''
      else (case ReadReplicationHeader (GameBinaryReader bs ''Replication frame'') of
          (None, r) \<Rightarrow> SerializationFailure TruncatedInput (Error r)
        | (Some h, r) \<Rightarrow>
            if HeaderMagic h \<noteq> ReplicationMagic
            then SerializationFailure InvalidSyntax ''Replication frame magic is invalid''
            else if HeaderVersion h \<noteq> ReplicationProtocolVersion
            then SerializationFailure UnsupportedVersion ''Replication protocol version is unsupported''
            else if HeaderKind h > KindIncremental \<or> HeaderReserved h \<noteq> 0
            then SerializationFailure InvalidValue ''Replication frame header is invalid''
            else if unat (HeaderSchemaCount h) > MaximumReplicationSchemaDefinitions \<or>
                    unat (HeaderOperationCount h) > MaximumReplicationOperationsPerFrame
            then SerializationFailure LimitExceeded ''Replication frame count exceeds its limit''
            else if unat (HeaderPayloadBytes h) \<noteq> Remaining r
            then SerializationFailure TruncatedInput ''Replication payload length does not match the frame''
            else if unat (HeaderSchemaCount h) > Remaining r div ReplicationSchemaEntryBytes
            then SerializationFailure TruncatedInput ''Replication schema count cannot fit in the payload''
            else if unat (HeaderOperationCount h) >
                    (Remaining r - unat (HeaderSchemaCount h) * ReplicationSchemaEntryBytes) div MinimumReplicationOperationBytes
            then SerializationFailure TruncatedInput ''Replication operation count cannot fit in the payload''
            else (case rd_list (unat (HeaderSchemaCount h)) ReadSchemaEntry r of
                (None, r1) \<Rightarrow> SerializationFailure InvalidValue
                    (if Error r1 = [] then ''Replication schema manifest is invalid'' else Error r1)
              | (Some schema, r1) \<Rightarrow>
                  (case rd_list (unat (HeaderOperationCount h)) (ReadOperation jm (HeaderEpoch h)) r1 of
                     (None, r2) \<Rightarrow> SerializationFailure InvalidValue (Error r2)
                   | (Some operations, r2) \<Rightarrow>
                       (let f = \<lparr>FrameVersion = HeaderVersion h, FrameKind = HeaderKind h, FrameEpoch = HeaderEpoch h,
                           FrameSequence = HeaderSequence h, FrameSchema = schema, FrameOperations = operations\<rparr>
                        in if \<not> Complete r2 \<or> \<not> Frame_IsValid jm f
                           then SerializationFailure InvalidValue ''Replication frame contains trailing or invalid data''
                           else Inr f)))))"

section \<open>Counted lists and maps\<close>

context stream_codec
begin

lemma counted_emits:
  "(\<And>v. v \<in> set vs \<Longrightarrow> ok v) \<Longrightarrow>
   emits (WriteCounted wr vs) (int_image (word_of_nat (length vs) :: u32) @ concat (map img vs))"
  unfolding WriteCounted_def by (intro emits_comp emits_Integer all_emits)

lemma counted_reads:
  assumes "\<And>v. v \<in> set vs \<Longrightarrow> ok v" "length vs \<le> limit" "length vs \<le> 0xffffffff"
  shows "reads (rd_bind (ReadCount limit e) (\<lambda>n. rd_list n rd))
    (int_image (word_of_nat (length vs) :: u32) @ concat (map img vs)) (map norm vs)"
proof (rule reads_bind)
  have "reads (Reader_Integer :: u32 rd) (int_image (word_of_nat (length vs) :: u32)) (word_of_nat (length vs))"
    by (simp add: reads_def Reader_Integer_ok)
  moreover have "unat (word_of_nat (length vs) :: u32) = length vs" using assms(3) by (rule unat_length32)
  ultimately show "reads (ReadCount limit e) (int_image (word_of_nat (length vs) :: u32)) (length vs)"
    unfolding ReadCount_def using assms(2)
      reads_map [OF reads_or_fail, of "Reader_Integer :: u32 rd" "int_image (word_of_nat (length vs) :: u32)"
        "word_of_nat (length vs)" "\<lambda>n. unat n \<le> limit" e unat]
    by simp
qed (rule all_reads [OF assms(1)])

end

lemma insort_last: "\<forall>e \<in> set m. fst e < k \<Longrightarrow> insort_key fst (k, v) m = m @ [(k, v)]"
  by (induction m) auto

lemma smap_emplace_last:
  assumes "smap_wf (m @ (k, v) # rest)"
  shows "smap_emplace k v m = Some (m @ [(k, v)])"
proof -
  have "\<forall>e \<in> set m. fst e \<le> k \<and> fst e \<noteq> k" using assms by (auto simp: smap_wf_def sorted_append)
  then show ?thesis by (auto simp: smap_emplace_def insort_last less_le)
qed

definition entry_fits :: "bytes \<times> WireValue \<Rightarrow> bool" where
  "entry_fits e \<longleftrightarrow> string_ok MaximumProtocolIdentifierBytes (fst e) \<and> wire_value_ok MaximumProtocolStringBytes (snd e)"

definition map_ok :: "nat \<Rightarrow> WireValue smap \<Rightarrow> bool" where
  "map_ok limit m \<longleftrightarrow> smap_wf m \<and> length m \<le> limit \<and> length m \<le> 0xffffffff \<and> (\<forall>e \<in> set m. entry_fits e)"

definition entry_image :: "bytes \<times> WireValue \<Rightarrow> bytes" where
  "entry_image e = string_image (fst e) @ wire_value_image (snd e)"

definition map_image :: "WireValue smap \<Rightarrow> bytes" where
  "map_image m = int_image (word_of_nat (length m) :: u32) @ concat (map entry_image m)"

lemma entry_emits: "entry_fits e \<Longrightarrow> emits (WriteEntry e) (entry_image e)"
  unfolding WriteEntry_def entry_image_def
  by (intro emits_comp emits_String emits_WireValue) (simp_all add: entry_fits_def string_ok_def wire_value_ok_def)

lemma reads_entries:
  "smap_wf (m0 @ m) \<Longrightarrow> (\<And>e. e \<in> set m \<Longrightarrow> entry_fits e) \<Longrightarrow>
   reads (ReadEntries (length m) m0) (concat (map entry_image m)) (m0 @ m)"
proof (induction m arbitrary: m0)
  case (Cons e m)
  obtain k v where e: "e = (k, v)" by (cases e)
  have "reads (ReadEntries (length m) (m0 @ [(k, v)])) (concat (map entry_image m)) (m0 @ e # m)"
    using Cons.IH [of "m0 @ [e]"] Cons.prems by (simp add: e)
  moreover have "smap_emplace k v m0 = Some (m0 @ [(k, v)])"
    using Cons.prems(1) by (intro smap_emplace_last) (simp add: e)
  ultimately have "reads (case smap_emplace k v m0 of None \<Rightarrow> Fail ''Replication value map contains duplicate keys''
      | Some m' \<Rightarrow> ReadEntries (length m) m') (concat (map entry_image m)) (m0 @ e # m)" by simp
  then show ?case
    using Cons.prems(2) [of e] unfolding list.map concat.simps entry_image_def append_assoc list.size add_Suc_right add_0_right ReadEntries.simps
    by (intro reads_bind [where x = k] reads_bind [where x = v]) (simp_all add: e entry_fits_def reads_string reads_wire)
qed (simp add: reads_return)

lemma reads_count: "n \<le> limit \<Longrightarrow> n \<le> 0xffffffff \<Longrightarrow> reads (ReadCount limit e) (int_image (word_of_nat n :: u32)) n"
  unfolding ReadCount_def
  using reads_map [OF reads_or_fail [OF reads_u32], of "\<lambda>k. unat k \<le> limit" "word_of_nat n" e unat] unat_length32 [of "replicate n (0 :: u8)"]
  by simp

lemma map_codec: "map_ok limit m \<Longrightarrow> emits (WriteValueMap None m) (map_image m)"
  "map_ok limit m \<Longrightarrow> reads (ReadValueMap limit) (map_image m) m"
proof -
  assume m: "map_ok limit m"
  have "emits (fold WriteEntry m) (concat (map entry_image m))"
    using m by (intro emits_fold entry_emits) (simp add: map_ok_def)
  moreover have "(\<lambda>e. WriteEntry (patched None e)) = WriteEntry" by (simp add: patched_def)
  ultimately show "emits (WriteValueMap None m) (map_image m)"
    unfolding WriteValueMap_def map_image_def by (intro emits_comp emits_Integer) simp
  show "reads (ReadValueMap limit) (map_image m) m"
    unfolding ReadValueMap_def map_image_def
  proof (rule reads_bind)
    show "reads (ReadCount limit ''Replication value map exceeds its limit'') (int_image (word_of_nat (length m) :: u32)) (length m)"
      using m by (intro reads_count) (simp_all add: map_ok_def)
    show "reads (ReadEntries (length m) []) (concat (map entry_image m)) m"
      using m reads_entries [of "[]" m] by (simp add: map_ok_def)
  qed
qed

interpretation valuemap: stream_codec "WriteValueMap None" "ReadValueMap limit" map_image "\<lambda>m. m" "map_ok limit" for limit
  by unfold_locales (rule map_codec; assumption)+

definition extension_ok :: "SnapshotExtensionState \<Rightarrow> bool" where
  "extension_ok s \<longleftrightarrow> SchemaId_IsValid (ExtensionStateId s) \<and> ExtensionStateVersion s \<noteq> 0 \<and>
     map_ok MaximumExtensionOverridesPerInstance (ExtensionStateProperties s)"

definition extension_image :: "SnapshotExtensionState \<Rightarrow> bytes" where
  "extension_image s = schema_id_image (ExtensionStateId s) @ int_image (ExtensionStateVersion s) @ map_image (ExtensionStateProperties s)"

interpretation extension: stream_codec WriteExtensionState ReadExtensionState extension_image "\<lambda>s. s" extension_ok
proof
  fix s assume s: "extension_ok s"
  then show "emits (WriteExtensionState s) (extension_image s)"
    unfolding WriteExtensionState_def extension_image_def
    by (intro emits_comp emits_SchemaId emits_Integer valuemap.stream_emits) (auto simp: extension_ok_def)
  have "reads ReadExtensionState (extension_image s @ []) \<lparr>ExtensionStateId = ExtensionStateId s,
      ExtensionStateVersion = ExtensionStateVersion s, ExtensionStateProperties = ExtensionStateProperties s\<rparr>"
    unfolding ReadExtensionState_def extension_image_def append_assoc using s
    by (intro reads_intros reads_bind [OF valuemap.stream_reads]) (simp_all add: extension_ok_def)
  then show "reads ReadExtensionState (extension_image s) s" by (cases s) simp
qed

definition custom_ok :: "SnapshotCustomClassState \<Rightarrow> bool" where
  "custom_ok s \<longleftrightarrow> SchemaId_IsValid (CustomStateId s) \<and> CustomStateVersion s \<noteq> 0 \<and>
     map_ok MaximumCustomPropertyOverridesPerInstance (CustomStateProperties s)"

definition custom_image :: "SnapshotCustomClassState \<Rightarrow> bytes" where
  "custom_image s = schema_id_image (CustomStateId s) @ int_image (CustomStateVersion s) @ map_image (CustomStateProperties s)"

interpretation custom: stream_codec WriteCustomState ReadCustomState custom_image "\<lambda>s. s" custom_ok
proof
  fix s assume s: "custom_ok s"
  then show "emits (WriteCustomState s) (custom_image s)"
    unfolding WriteCustomState_def custom_image_def
    by (intro emits_comp emits_SchemaId emits_Integer valuemap.stream_emits) (auto simp: custom_ok_def)
  have "reads ReadCustomState (custom_image s @ []) \<lparr>CustomStateId = CustomStateId s,
      CustomStateVersion = CustomStateVersion s, CustomStateProperties = CustomStateProperties s\<rparr>"
    unfolding ReadCustomState_def custom_image_def append_assoc using s
    by (intro reads_intros reads_bind [OF valuemap.stream_reads]) (simp_all add: custom_ok_def)
  then show "reads ReadCustomState (custom_image s) s" by (cases s) simp
qed

section \<open>Publications\<close>

definition optional_id_image :: "ObjectId option \<Rightarrow> bytes" where
  "optional_id_image i = (case i of None \<Rightarrow> int_image (0 :: u8) | Some x \<Rightarrow> int_image (1 :: u8) @ object_id_image x)"

interpretation optional_id: stream_codec WriteOptionalObjectId ReadOptionalObjectId optional_id_image "\<lambda>i. i"
  "\<lambda>i. case i of None \<Rightarrow> True | Some x \<Rightarrow> ObjectId_IsValid x"
proof
  fix i assume i: "case i of None \<Rightarrow> True | Some x \<Rightarrow> ObjectId_IsValid x"
  show "emits (WriteOptionalObjectId i) (optional_id_image i)"
  proof (cases i)
    case None
    have "emits (id \<circ> Writer_Integer (0 :: u8)) (int_image (0 :: u8) @ [])" by (intro emits_comp emits_Integer emits_id)
    then show ?thesis by (simp add: None WriteOptionalObjectId_def optional_id_image_def)
  next
    case (Some x)
    have "emits (WriteBinaryObjectId x \<circ> Writer_Integer (1 :: u8)) (int_image (1 :: u8) @ object_id_image x)"
      by (intro emits_comp emits_Integer emits_ObjectId)
    then show ?thesis by (simp add: Some WriteOptionalObjectId_def optional_id_image_def)
  qed
  show "reads ReadOptionalObjectId (optional_id_image i) i"
  proof (cases i)
    case None
    have "reads ReadOptionalObjectId (int_image (0 :: u8) @ []) None"
      unfolding ReadOptionalObjectId_def by (intro reads_bind [where x = "0 :: u8"] reads_or_fail reads_u8) (simp_all add: reads_return)
    then show ?thesis by (simp add: None optional_id_image_def)
  next
    case (Some x)
    have "reads ReadOptionalObjectId (int_image (1 :: u8) @ object_id_image x) (Some x)"
      unfolding ReadOptionalObjectId_def using i
      by (intro reads_bind [where x = "1 :: u8"] reads_or_fail reads_u8) (simp_all add: Some reads_map reads_object)
    then show ?thesis by (simp add: Some optional_id_image_def)
  qed
qed

definition tag_ok :: "bytes \<Rightarrow> bool" where
  "tag_ok t \<longleftrightarrow> string_ok MaximumTagNameBytes t"

lemma reads_tags:
  "distinct ts \<Longrightarrow> set ts \<inter> seen = {} \<Longrightarrow> (\<And>t. t \<in> set ts \<Longrightarrow> tag_ok t) \<Longrightarrow>
   reads (ReadTags (length ts) seen) (concat (map string_image ts)) ts"
proof (induction ts arbitrary: seen)
  case (Cons t ts)
  have "reads (ReadTags (length ts) (insert t seen)) (concat (map string_image ts)) ts" using Cons by auto
  then have "reads (rd_bind (ReadTags (length ts) (insert t seen)) (\<lambda>ts. rd_return (t # ts))) (concat (map string_image ts)) (t # ts)"
    by (rule reads_map)
  moreover have "reads (rd_or_fail (Reader_String MaximumTagNameBytes) (\<lambda>t. t \<notin> seen) ''Replication tags are invalid or duplicated'')
      (string_image t) t"
    using Cons.prems by (intro reads_or_fail reads_string) (auto simp: tag_ok_def)
  ultimately show ?case by (simp add: reads_bind)
qed (simp add: reads_return)

definition counted_image :: "('a \<Rightarrow> bytes) \<Rightarrow> 'a list \<Rightarrow> bytes" where
  "counted_image img xs = int_image (word_of_nat (length xs) :: u32) @ concat (map img xs)"

definition publish_image :: "PublishReplication \<Rightarrow> bytes" where
  "publish_image p = object_id_image (PublishObject p) @ schema_id_image (PublishClassSchemaId p) @
     int_image (PublishDefinitionVersion p) @ optional_id_image (PublishParent p) @ string_image (PublishClassName p) @
     string_image (PublishName p) @ map_image (PublishProperties p) @ map_image (PublishAttributes p) @
     counted_image extension_image (PublishExtensions p) @ counted_image custom_image (PublishCustomProperties p) @
     counted_image string_image (PublishTags p)"

definition publish_ok :: "PublishReplication \<Rightarrow> bool" where
  "publish_ok p \<longleftrightarrow> ObjectId_IsValid (PublishObject p) \<and> SchemaId_IsValid (PublishClassSchemaId p) \<and>
     PublishDefinitionVersion p \<noteq> 0 \<and> (case PublishParent p of None \<Rightarrow> True | Some i \<Rightarrow> ObjectId_IsValid i) \<and>
     string_ok MaximumProtocolIdentifierBytes (PublishClassName p) \<and> string_ok MaximumProtocolStringBytes (PublishName p) \<and>
     map_ok MaximumSnapshotPropertiesPerObject (PublishProperties p) \<and> map_ok MaximumAttributesPerInstance (PublishAttributes p) \<and>
     length (PublishExtensions p) \<le> MaximumCustomExtensionDefinitions \<and> (\<forall>s \<in> set (PublishExtensions p). extension_ok s) \<and>
     length (PublishCustomProperties p) \<le> MaximumCustomClassDefinitions \<and> (\<forall>s \<in> set (PublishCustomProperties p). custom_ok s) \<and>
     length (PublishTags p) \<le> MaximumTagsPerInstance \<and> distinct (PublishTags p) \<and> (\<forall>t \<in> set (PublishTags p). tag_ok t)"

lemmas publish_limits = MaximumCustomExtensionDefinitions_def MaximumCustomClassDefinitions_def MaximumTagsPerInstance_def

lemma counted_tags:
  assumes "publish_ok p"
  shows "emits (WriteCounted Writer_String (PublishTags p)) (counted_image string_image (PublishTags p))"
    "reads (rd_bind (ReadCount MaximumTagsPerInstance e) (\<lambda>n. ReadTags n {})) (counted_image string_image (PublishTags p)) (PublishTags p)"
proof -
  have t: "length (PublishTags p) \<le> MaximumTagsPerInstance" "distinct (PublishTags p)" "\<And>t. t \<in> set (PublishTags p) \<Longrightarrow> tag_ok t"
    using assms by (auto simp: publish_ok_def)
  show "emits (WriteCounted Writer_String (PublishTags p)) (counted_image string_image (PublishTags p))"
    unfolding WriteCounted_def counted_image_def
    by (intro emits_comp emits_Integer emits_fold emits_String) (use t(3) in \<open>simp add: tag_ok_def string_ok_def\<close>)
  show "reads (rd_bind (ReadCount MaximumTagsPerInstance e) (\<lambda>n. ReadTags n {})) (counted_image string_image (PublishTags p)) (PublishTags p)"
    unfolding counted_image_def
  proof (rule reads_bind)
    show "reads (ReadCount MaximumTagsPerInstance e) (int_image (word_of_nat (length (PublishTags p)) :: u32)) (length (PublishTags p))"
      using t(1) by (intro reads_count) (simp_all add: publish_limits)
    show "reads (ReadTags (length (PublishTags p)) {}) (concat (map string_image (PublishTags p))) (PublishTags p)"
      using t by (intro reads_tags) auto
  qed
qed

lemma counted_states:
  assumes "publish_ok p"
  shows "emits (WriteCounted WriteExtensionState (PublishExtensions p)) (counted_image extension_image (PublishExtensions p))"
    "reads (rd_bind (ReadCount MaximumCustomExtensionDefinitions e) (\<lambda>n. rd_list n ReadExtensionState))
       (counted_image extension_image (PublishExtensions p)) (PublishExtensions p)"
    "emits (WriteCounted WriteCustomState (PublishCustomProperties p)) (counted_image custom_image (PublishCustomProperties p))"
    "reads (rd_bind (ReadCount MaximumCustomClassDefinitions e') (\<lambda>n. rd_list n ReadCustomState))
       (counted_image custom_image (PublishCustomProperties p)) (PublishCustomProperties p)"
  using assms extension.counted_emits [of "PublishExtensions p"] custom.counted_emits [of "PublishCustomProperties p"]
    extension.counted_reads [of "PublishExtensions p" MaximumCustomExtensionDefinitions e]
    custom.counted_reads [of "PublishCustomProperties p" MaximumCustomClassDefinitions e']
  by (simp_all add: publish_ok_def counted_image_def publish_limits)

interpretation publish: stream_codec "WritePublish None" ReadPublish publish_image "\<lambda>p. p" publish_ok
proof
  fix p assume p: "publish_ok p"
  show "emits (WritePublish None p) (publish_image p)"
    unfolding WritePublish_def publish_image_def
    by (intro emits_comp emits_Integer emits_ObjectId emits_SchemaId emits_String counted_tags(1) counted_states(1,3) p
        optional_id.stream_emits valuemap.stream_emits)
      (use p in \<open>auto simp: publish_ok_def string_ok_def\<close>)
  have "reads ReadPublish (publish_image p @ []) \<lparr>PublishObject = PublishObject p, PublishClassSchemaId = PublishClassSchemaId p,
      PublishDefinitionVersion = PublishDefinitionVersion p, PublishParent = PublishParent p, PublishClassName = PublishClassName p,
      PublishName = PublishName p, PublishProperties = PublishProperties p, PublishAttributes = PublishAttributes p,
      PublishExtensions = PublishExtensions p, PublishCustomProperties = PublishCustomProperties p, PublishTags = PublishTags p\<rparr>"
    unfolding ReadPublish_def publish_image_def append_assoc
    by (intro reads_bind [OF counted_tags(2) [OF p]]
        reads_bind [OF counted_states(2) [OF p]] reads_bind [OF counted_states(4) [OF p]]
        reads_bind [OF valuemap.stream_reads] reads_bind [OF optional_id.stream_reads] reads_intros)
      (use p in \<open>simp_all add: publish_ok_def\<close>)
  then show "reads ReadPublish (publish_image p) p" by (cases p) simp
qed

section \<open>Operations\<close>

definition materialize :: "StructuralPropertyPatchList \<Rightarrow> PublishReplication \<Rightarrow> PublishReplication" where
  "materialize nils p = p\<lparr>PublishProperties := map (patched (Some nils)) (PublishProperties p)\<rparr>"

text \<open>What the receiver of an intent gets: a prepared publication arrives as an ordinary one.\<close>

primrec received :: "ReplicationIntent \<Rightarrow> ReplicationIntent" where
  "received (Publish p) = Publish p"
| "received (PreparedPublish p) =
     (case PreparedTemplate p of
        None \<Rightarrow> PreparedPublish p
      | Some t \<Rightarrow> Publish (materialize (NilProperties p) (TemplatePublication t)))"
| "received (PropertyReplicationUpdate i n v s x) = PropertyReplicationUpdate i n v s x"
| "received (ExtensionPropertyReplicationUpdate i s x n v) = ExtensionPropertyReplicationUpdate i s x n v"
| "received (ReparentReplication i x) = ReparentReplication i x"
| "received (AttributeReplicationUpdate i n v) = AttributeReplicationUpdate i n v"
| "received (TagAddedReplication i n) = TagAddedReplication i n"
| "received (TagRemovedReplication i n) = TagRemovedReplication i n"
| "received (UnpublishReplication i) = UnpublishReplication i"
| "received (DestroyReplication i) = DestroyReplication i"

lemma WriteValueMap_patched: "WriteValueMap nils m = WriteValueMap None (map (patched nils) m)"
proof -
  have "patched None = id" by (rule ext) (simp add: patched_def)
  then show ?thesis by (simp add: WriteValueMap_def fold_map comp_def)
qed

lemma WritePublish_patched: "WritePublish (Some nils) p = WritePublish None (materialize nils p)"
  by (simp add: WritePublish_def materialize_def WriteValueMap_patched [of "Some nils"])

lemma WriteIntent_received:
  "(\<And>p. x = PreparedPublish p \<Longrightarrow> PreparedTemplate p \<noteq> None) \<Longrightarrow> WriteIntent x = WriteIntent (received x)"
  by (cases x) (auto simp: WritePublish_patched)

definition schema_image :: "SchemaId option \<Rightarrow> u32 option \<Rightarrow> bytes" where
  "schema_image s v = (case s of None \<Rightarrow> int_image (0 :: u8) | Some i \<Rightarrow> int_image (1 :: u8) @ schema_id_image i @ int_image (the v))"

definition value_image :: "WireValue option \<Rightarrow> bytes" where
  "value_image v = (case v of None \<Rightarrow> int_image (0 :: u8) | Some w \<Rightarrow> int_image (1 :: u8) @ wire_value_image w)"

primrec intent_code :: "ReplicationIntent \<Rightarrow> u8" where
  "intent_code (Publish _) = 0"
| "intent_code (PreparedPublish _) = 0"
| "intent_code (PropertyReplicationUpdate _ _ _ _ _) = 1"
| "intent_code (ExtensionPropertyReplicationUpdate _ _ _ _ _) = 2"
| "intent_code (ReparentReplication _ _) = 3"
| "intent_code (AttributeReplicationUpdate _ _ _) = 4"
| "intent_code (TagAddedReplication _ _) = 5"
| "intent_code (TagRemovedReplication _ _) = 6"
| "intent_code (UnpublishReplication _) = 7"
| "intent_code (DestroyReplication _) = 8"

primrec body_image :: "ReplicationIntent \<Rightarrow> bytes" where
  "body_image (Publish p) = publish_image p"
| "body_image (PreparedPublish p) = []"
| "body_image (PropertyReplicationUpdate i n v s x) = object_id_image i @ string_image n @ wire_value_image v @ schema_image s x"
| "body_image (ExtensionPropertyReplicationUpdate i s x n v) =
     object_id_image i @ schema_id_image s @ int_image x @ string_image n @ wire_value_image v"
| "body_image (ReparentReplication i p) = object_id_image i @ optional_id_image p"
| "body_image (AttributeReplicationUpdate i n v) = object_id_image i @ string_image n @ value_image v"
| "body_image (TagAddedReplication i n) = object_id_image i @ string_image n"
| "body_image (TagRemovedReplication i n) = object_id_image i @ string_image n"
| "body_image (UnpublishReplication i) = object_id_image i"
| "body_image (DestroyReplication i) = object_id_image i"

definition intent_image :: "ReplicationIntent \<Rightarrow> bytes" where
  "intent_image x = int_image (intent_code x) @ body_image x"

definition schema_ok :: "SchemaId option \<Rightarrow> u32 option \<Rightarrow> bool" where
  "schema_ok s v \<longleftrightarrow> (case s of None \<Rightarrow> v = None | Some i \<Rightarrow> SchemaId_IsValid i \<and> (\<exists>n. v = Some n \<and> n \<noteq> 0))"

primrec intent_ok :: "ReplicationIntent \<Rightarrow> bool" where
  "intent_ok (Publish p) = publish_ok p"
| "intent_ok (PreparedPublish p) = False"
| "intent_ok (PropertyReplicationUpdate i n v s x) = (ObjectId_IsValid i \<and> string_ok MaximumProtocolIdentifierBytes n \<and>
     wire_value_ok MaximumProtocolStringBytes v \<and> schema_ok s x)"
| "intent_ok (ExtensionPropertyReplicationUpdate i s x n v) = (ObjectId_IsValid i \<and> SchemaId_IsValid s \<and> x \<noteq> 0 \<and>
     string_ok MaximumProtocolIdentifierBytes n \<and> wire_value_ok MaximumProtocolStringBytes v)"
| "intent_ok (ReparentReplication i p) = (ObjectId_IsValid i \<and> (case p of None \<Rightarrow> True | Some x \<Rightarrow> ObjectId_IsValid x))"
| "intent_ok (AttributeReplicationUpdate i n v) = (ObjectId_IsValid i \<and> string_ok MaximumAttributeNameBytes n \<and>
     (case v of None \<Rightarrow> True | Some w \<Rightarrow> wire_value_ok MaximumProtocolStringBytes w))"
| "intent_ok (TagAddedReplication i n) = (ObjectId_IsValid i \<and> string_ok MaximumTagNameBytes n)"
| "intent_ok (TagRemovedReplication i n) = (ObjectId_IsValid i \<and> string_ok MaximumTagNameBytes n)"
| "intent_ok (UnpublishReplication i) = ObjectId_IsValid i"
| "intent_ok (DestroyReplication i) = ObjectId_IsValid i"

lemma wire_emits: "wire_value_ok n v \<Longrightarrow> emits (WriteBinaryWireValue v) (wire_value_image v)"
  by (simp add: wire_value_ok_def emits_WireValue)

lemma string_emits: "string_ok n v \<Longrightarrow> emits (Writer_String v) (string_image v)"
  by (simp add: string_ok_def emits_String)

lemma emits_u8_id: "emits (id \<circ> Writer_Integer (n :: u8)) (int_image n)"
  using emits_comp [OF emits_Integer emits_id, of n] by simp

lemma schema_emits:
  "emits ((case s of None \<Rightarrow> id | Some i \<Rightarrow> Writer_Integer (the v) \<circ> WriteBinarySchemaId i) \<circ>
     Writer_Integer (if s \<noteq> None then 1 else 0 :: u8)) (schema_image s v)"
proof (cases s)
  case (Some i)
  have "emits (Writer_Integer (the v) \<circ> WriteBinarySchemaId i \<circ> Writer_Integer (1 :: u8)) (int_image (1 :: u8) @ schema_id_image i @ int_image (the v))"
    by (intro emits_comp emits_Integer emits_SchemaId)
  then show ?thesis by (simp add: Some schema_image_def)
qed (use emits_u8_id [of 0] in \<open>simp add: schema_image_def\<close>)

lemma value_emits:
  "(\<And>w. v = Some w \<Longrightarrow> wire_value_ok n w) \<Longrightarrow> emits ((case v of None \<Rightarrow> id | Some w \<Rightarrow> WriteBinaryWireValue w) \<circ>
     Writer_Integer (if v \<noteq> None then 1 else 0 :: u8)) (value_image v)"
  using emits_u8_id [of 0] emits_comp [OF emits_Integer wire_emits, of n "the v" "1 :: u8"]
  by (cases v) (simp_all add: value_image_def)

lemma intent_emits: "intent_ok x \<Longrightarrow> emits (WriteIntent x) (intent_image x)"
proof (induction x)
  case (PropertyReplicationUpdate i n v s y)
  have "emits ((case s of None \<Rightarrow> id | Some i \<Rightarrow> Writer_Integer (the y) \<circ> WriteBinarySchemaId i) \<circ>
      Writer_Integer (if s \<noteq> None then 1 else 0 :: u8) \<circ> (WriteBinaryWireValue v \<circ> (Writer_String n \<circ> (WriteBinaryObjectId i \<circ> Writer_Integer (1 :: u8)))))
      ((((int_image (1 :: u8) @ object_id_image i) @ string_image n) @ wire_value_image v) @ schema_image s y)"
    using PropertyReplicationUpdate
    by (intro emits_comp [OF _ schema_emits] emits_comp emits_Integer emits_ObjectId string_emits wire_emits) auto
  then show ?case
    by (simp only: WriteIntent.simps intent_image_def intent_code.simps body_image.simps comp_assoc append_assoc)
next
  case (AttributeReplicationUpdate i n v)
  have "emits ((case v of None \<Rightarrow> id | Some w \<Rightarrow> WriteBinaryWireValue w) \<circ> Writer_Integer (if v \<noteq> None then 1 else 0 :: u8) \<circ>
      (Writer_String n \<circ> (WriteBinaryObjectId i \<circ> Writer_Integer (4 :: u8))))
      (((int_image (4 :: u8) @ object_id_image i) @ string_image n) @ value_image v)"
    using AttributeReplicationUpdate
    by (intro emits_comp [OF _ value_emits] emits_comp emits_Integer emits_ObjectId string_emits) (auto split: option.splits)
  then show ?case
    by (simp only: WriteIntent.simps intent_image_def intent_code.simps body_image.simps comp_assoc append_assoc)
qed (auto simp: intent_image_def intro!: emits_comp emits_Integer emits_ObjectId emits_SchemaId optional_id.stream_emits publish.stream_emits
    intro: string_emits wire_emits)

lemma reads_schema_option: "schema_ok s v \<Longrightarrow> reads ReadPropertySchema (schema_image s v) (map_option (\<lambda>i. (i, the v)) s)"
proof (cases s)
  case None
  have "reads ReadPropertySchema (int_image (0 :: u8) @ []) None"
    unfolding ReadPropertySchema_def by (intro reads_intros) (simp_all add: reads_return)
  then show ?thesis by (simp add: None schema_image_def)
next
  case (Some i)
  assume s: "schema_ok s v"
  have "reads (rd_bind ReadBinarySchemaId (\<lambda>i. rd_bind Reader_Integer (\<lambda>version. rd_return (i, version))))
      (schema_id_image i @ int_image (the v)) (i, the v)"
    using s by (intro reads_bind [OF reads_schema] reads_map reads_u32) (simp add: Some schema_ok_def)
  then have "reads (rd_bind (rd_or_fail (rd_bind ReadBinarySchemaId (\<lambda>i. rd_bind Reader_Integer (\<lambda>version. rd_return (i, version))))
      (\<lambda>(i, version). version \<noteq> 0) ''Replication property schema is invalid'') (\<lambda>s. rd_return (Some s)))
      (schema_id_image i @ int_image (the v)) (Some (i, the v))"
    using s by (intro reads_map reads_or_fail) (auto simp: Some schema_ok_def)
  then have "reads ReadPropertySchema (int_image (1 :: u8) @ schema_id_image i @ int_image (the v)) (Some (i, the v))"
    unfolding ReadPropertySchema_def by (intro reads_intros) simp_all
  then show ?thesis by (simp add: Some schema_image_def)
qed

lemma reads_property_head:
  assumes "ObjectId_IsValid i" "string_ok MaximumProtocolIdentifierBytes n" "wire_value_ok MaximumProtocolStringBytes v"
  shows "reads (rd_or_fail (rd_bind ReadBinaryObjectId (\<lambda>i. rd_bind (Reader_String MaximumProtocolIdentifierBytes) (\<lambda>name.
      rd_bind (ReadBinaryWireValue MaximumProtocolStringBytes) (\<lambda>v. rd_return (i, name, v))))) (\<lambda>_. True) e)
      (object_id_image i @ string_image n @ wire_value_image v) (i, n, v)"
  using assms by (intro reads_or_fail reads_bind [OF reads_object] reads_bind [OF reads_string] reads_map reads_wire) simp_all

lemma reads_attribute_head:
  assumes "ObjectId_IsValid i" "string_ok MaximumAttributeNameBytes n" "present \<le> 1"
  shows "reads (rd_or_fail (rd_bind ReadBinaryObjectId (\<lambda>i. rd_bind (Reader_String MaximumAttributeNameBytes) (\<lambda>name.
      rd_bind (Reader_Integer :: u8 rd) (\<lambda>present. rd_return (i, name, present))))) (\<lambda>(i, name, present). present \<le> 1) e)
      (object_id_image i @ string_image n @ int_image present) (i, n, present)"
  using assms by (intro reads_or_fail reads_bind [OF reads_object] reads_bind [OF reads_string] reads_map reads_u8) simp_all

lemma intent_reads: "intent_ok x \<Longrightarrow> reads (ReadIntent (intent_code x)) (body_image x) x"
proof (induction x)
  case (Publish p)
  then have "reads (rd_bind ReadPublish (\<lambda>p. rd_return (Replication.Publish p))) (publish_image p) (Replication.Publish p)"
    by (intro reads_map publish.stream_reads) simp
  then show ?case by (simp add: ReadIntent_def)
next
  case (PropertyReplicationUpdate i n v s y)
  then have ok: "ObjectId_IsValid i" "string_ok MaximumProtocolIdentifierBytes n" "wire_value_ok MaximumProtocolStringBytes v" "schema_ok s y"
    by simp_all
  have sy: "map_option fst (map_option (\<lambda>i. (i, the y)) s) = s" "map_option snd (map_option (\<lambda>i. (i, the y)) s) = y"
    using ok(4) by (cases s; auto simp: schema_ok_def)+
  have "reads (ReadIntent 1) ((object_id_image i @ string_image n @ wire_value_image v) @ schema_image s y)
      (Replication.PropertyReplicationUpdate i n v (map_option fst (map_option (\<lambda>i. (i, the y)) s)) (map_option snd (map_option (\<lambda>i. (i, the y)) s)))"
    unfolding ReadIntent_def using reads_map [OF reads_schema_option [OF ok(4)], of "\<lambda>s. Replication.PropertyReplicationUpdate i n v (map_option fst s) (map_option snd s)"]
    by (simp del: append_assoc) (rule reads_bind [OF reads_property_head [OF ok(1-3)]], simp)
  then show ?case by (simp add: sy)
next
  case (AttributeReplicationUpdate i n v)
  then have ok: "ObjectId_IsValid i" "string_ok MaximumAttributeNameBytes n" by simp_all
  show ?case
  proof (cases v)
    case None
    have "reads (ReadIntent 4) ((object_id_image i @ string_image n @ int_image (0 :: u8)) @ []) (Replication.AttributeReplicationUpdate i n None)"
      unfolding ReadIntent_def by (simp del: append_assoc append_Nil2) (rule reads_bind [OF reads_attribute_head [OF ok]], simp_all add: reads_return)
    then show ?thesis by (simp add: None value_image_def)
  next
    case (Some w)
    have w: "reads (rd_bind (ReadBinaryWireValue MaximumProtocolStringBytes) (\<lambda>v. rd_return (Replication.AttributeReplicationUpdate i n (Some v))))
        (wire_value_image w) (Replication.AttributeReplicationUpdate i n (Some w))"
      using AttributeReplicationUpdate by (intro reads_map reads_wire) (simp add: Some)
    have "reads (ReadIntent 4) ((object_id_image i @ string_image n @ int_image (1 :: u8)) @ wire_value_image w) (Replication.AttributeReplicationUpdate i n (Some w))"
      unfolding ReadIntent_def by (simp del: append_assoc) (rule reads_bind [OF reads_attribute_head [OF ok]], simp_all add: w)
    then show ?thesis by (simp add: Some value_image_def)
  qed
next
  case (ReparentReplication i p)
  then have "reads (rd_bind ReadBinaryObjectId (\<lambda>i. rd_bind ReadOptionalObjectId (\<lambda>parent. rd_return (Replication.ReparentReplication i parent))))
      (object_id_image i @ optional_id_image p) (Replication.ReparentReplication i p)"
    by (intro reads_bind [OF reads_object] reads_map optional_id.stream_reads) simp_all
  then show ?case by (simp add: ReadIntent_def)
next
  case (ExtensionPropertyReplicationUpdate i s y n v)
  then have "reads (ReadIntent 2) ((object_id_image i @ schema_id_image s @ int_image y @ string_image n @ wire_value_image v))
      (Replication.ExtensionPropertyReplicationUpdate i s y n v)"
    unfolding ReadIntent_def
    by simp (intro reads_bind [OF reads_object] reads_bind [OF reads_schema] reads_bind [OF reads_u32] reads_guard reads_bind [OF reads_string]
        reads_map reads_wire; simp)
  then show ?case by simp
next
  case (TagAddedReplication i n)
  then show ?case by (simp add: ReadIntent_def) (intro reads_bind [OF reads_object] reads_map reads_string; simp)
next
  case (TagRemovedReplication i n)
  then show ?case by (simp add: ReadIntent_def) (intro reads_bind [OF reads_object] reads_map reads_string; simp)
next
  case (UnpublishReplication i)
  then show ?case by (simp add: ReadIntent_def) (intro reads_map reads_object; simp)
next
  case (DestroyReplication i)
  then show ?case by (simp add: ReadIntent_def) (intro reads_map reads_object; simp)
qed simp

lemma intent_code_le: "intent_code x \<le> 8"
  by (cases x) simp_all

lemma operation_reads:
  assumes "intent_ok x" "Operation_IsValid jm \<lparr>OperationEpoch = epoch, Intent = x\<rparr>"
  shows "reads (ReadOperation jm epoch) (intent_image x) \<lparr>OperationEpoch = epoch, Intent = x\<rparr>"
proof -
  have "reads (rd_or_fail (Reader_Integer :: u8 rd) (\<lambda>code. code \<le> 8) ''Replication opcode is invalid'') (int_image (intent_code x)) (intent_code x)"
    by (rule reads_or_fail [OF reads_u8]) (rule intent_code_le)
  note head = reads_bind [OF this]
  have "reads (ReadOperation jm epoch) (int_image (intent_code x) @ (body_image x @ [])) \<lparr>OperationEpoch = epoch, Intent = x\<rparr>"
    unfolding ReadOperation_def Let_def
    by (rule head, rule reads_bind [OF intent_reads [OF assms(1)]], rule reads_check [OF assms(2)])
  then show ?thesis by (simp add: intent_image_def)
qed

section \<open>Valid values are written and read\<close>

text \<open>
  What holds of every value of the source's types: map entries are in order of their keys, and a
  coordinate frame has twelve components.
\<close>

definition entries_wf :: "WireValue smap \<Rightarrow> bool" where
  "entries_wf m \<longleftrightarrow> smap_wf m \<and> (\<forall>e \<in> set m. wf_WireValue (snd e))"

definition publish_wf :: "PublishReplication \<Rightarrow> bool" where
  "publish_wf p \<longleftrightarrow> entries_wf (PublishProperties p) \<and> entries_wf (PublishAttributes p) \<and>
     (\<forall>s \<in> set (PublishExtensions p). entries_wf (ExtensionStateProperties s)) \<and>
     (\<forall>s \<in> set (PublishCustomProperties p). entries_wf (CustomStateProperties s))"

primrec intent_wf :: "ReplicationIntent \<Rightarrow> bool" where
  "intent_wf (Publish p) = publish_wf p"
| "intent_wf (PreparedPublish p) = (case PreparedTemplate p of None \<Rightarrow> True | Some t \<Rightarrow> publish_wf (TemplatePublication t))"
| "intent_wf (PropertyReplicationUpdate i n v s x) = wf_WireValue v"
| "intent_wf (ExtensionPropertyReplicationUpdate i s x n v) = wf_WireValue v"
| "intent_wf (ReparentReplication i p) = True"
| "intent_wf (AttributeReplicationUpdate i n v) = (case v of None \<Rightarrow> True | Some w \<Rightarrow> wf_WireValue w)"
| "intent_wf (TagAddedReplication i n) = True"
| "intent_wf (TagRemovedReplication i n) = True"
| "intent_wf (UnpublishReplication i) = True"
| "intent_wf (DestroyReplication i) = True"

lemma passes_string: "passes (ValidateProtocolString v n what) \<longleftrightarrow> protocol_string n v"
  by (simp add: passes_iff flip: ValidateProtocolString_ok [of v n what])

lemma passes_wire: "passes (ValidateProtocolWireValue v) \<longleftrightarrow> ValidateProtocolWireValue v = Inr ()"
  by (simp add: passes_iff)

lemma protocol_string_mono: "protocol_string a v \<Longrightarrow> a \<le> b \<Longrightarrow> protocol_string b v"
  by (simp add: protocol_string_def)

lemma valid_wire_ok: "wf_WireValue v \<Longrightarrow> ValidateProtocolWireValue v = Inr () \<Longrightarrow> wire_value_ok MaximumProtocolStringBytes v"
  by (cases v) (simp_all add: wire_value_ok_def ValidateProtocolString_ok protocol_string_def)

lemma attribute_wire_ok: "attribute_ok jm v \<Longrightarrow> ValidateProtocolWireValue v = Inr ()"
  by (cases v)
    (auto simp: attribute_ok_def require_ok ValidateProtocolString_ok protocol_string_def IsValidProtocolUtf8_def utf8_loop_spec
      protocol_limits MaximumAttributeValueBytes_def)

lemma valid_entries_ok:
  assumes "entries_wf m" "valid_entries m what" "length m \<le> limit" "limit \<le> 0xffffffff"
  shows "map_ok limit m"
proof -
  have "entry_fits e" if "e \<in> set m" for e
  proof -
    have "protocol_string MaximumProtocolIdentifierBytes (fst e)" "ValidateProtocolWireValue (snd e) = Inr ()" "wf_WireValue (snd e)"
      using assms(1,2) that by (auto simp: valid_entries_def entries_wf_def passes_string passes_wire)
    then show ?thesis by (simp add: entry_fits_def valid_wire_ok protocol_string_ok MaximumProtocolIdentifierBytes_def)
  qed
  then show ?thesis using assms by (simp add: map_ok_def entries_wf_def)
qed

lemma valid_attributes_ok:
  assumes "entries_wf m" "passes (ValidateAttributeCollection jm m)"
  shows "map_ok MaximumAttributesPerInstance m"
proof -
  have m: "length m \<le> MaximumAttributesPerInstance" "\<forall>e \<in> set m. entry_ok jm e"
    using assms(2) by (auto simp: passes_iff ValidateAttributeCollection_def ValidateAttributes_ok split: if_splits)
  have "entry_fits e" if "e \<in> set m" for e
  proof -
    have e: "protocol_string MaximumAttributeNameBytes (fst e)" "attribute_ok jm (snd e)" "wf_WireValue (snd e)"
      using that m(2) assms(1) by (auto simp: entry_ok_def entries_wf_def)
    have "string_ok MaximumProtocolIdentifierBytes (fst e)"
      by (rule protocol_string_ok [OF protocol_string_mono [OF e(1)]]) (simp_all add: MaximumAttributeNameBytes_def protocol_limits)
    then show ?thesis using valid_wire_ok [OF e(3) attribute_wire_ok [OF e(2)]] by (simp add: entry_fits_def)
  qed
  then show ?thesis using m(1) assms(1) by (simp add: map_ok_def entries_wf_def MaximumAttributesPerInstance_def)
qed

lemma valid_extensions_ok:
  "valid_extensions seen ss \<Longrightarrow> \<forall>s \<in> set ss. entries_wf (ExtensionStateProperties s) \<Longrightarrow> s \<in> set ss \<Longrightarrow> extension_ok s"
  by (induction seen ss rule: valid_extensions.induct)
    (auto simp: extension_ok_def MaximumExtensionOverridesPerInstance_def intro: valid_entries_ok split: if_splits)

lemma valid_custom_ok:
  "valid_custom seen ss \<Longrightarrow> \<forall>s \<in> set ss. entries_wf (CustomStateProperties s) \<Longrightarrow> s \<in> set ss \<Longrightarrow> custom_ok s"
  by (induction seen ss rule: valid_custom.induct)
    (auto simp: custom_ok_def MaximumCustomPropertyOverridesPerInstance_def intro: valid_entries_ok split: if_splits)

lemma tag_string_ok: "passes (ValidateTagName t) \<Longrightarrow> string_ok MaximumTagNameBytes t"
  using protocol_string_ok [of MaximumTagNameBytes t] ValidateTagName_ok [of t] by (auto simp: passes_iff MaximumTagNameBytes_def)

lemma valid_tags_ok: "valid_tags seen ts \<Longrightarrow> distinct ts \<and> set ts \<inter> seen = {} \<and> (\<forall>t \<in> set ts. tag_ok t)"
  by (induction seen ts rule: valid_tags.induct) (auto simp: tag_ok_def tag_string_ok)

lemma valid_publish_ok:
  assumes wf: "publish_wf p" and valid: "IsValidPublishReplication jm p"
  shows "publish_ok p"
proof -
  have v: "valid_entries (PublishProperties p) ''Replication property name''" "passes (ValidateAttributeCollection jm (PublishAttributes p))"
    "valid_extensions {} (PublishExtensions p)" "valid_custom {} (PublishCustomProperties p)" "valid_tags {} (PublishTags p)"
    "length (PublishProperties p) \<le> MaximumSnapshotPropertiesPerObject"
    using valid by (auto simp: IsValidPublishReplication_def split: if_splits)
  have s: "string_ok MaximumProtocolIdentifierBytes (PublishClassName p)" "string_ok MaximumProtocolStringBytes (PublishName p)"
    using valid by (auto simp: IsValidPublishReplication_def passes_string protocol_limits intro!: protocol_string_ok split: if_splits)
  have r: "ObjectId_IsValid (PublishObject p)" "SchemaId_IsValid (PublishClassSchemaId p)" "PublishDefinitionVersion p \<noteq> 0"
    "case PublishParent p of None \<Rightarrow> True | Some i \<Rightarrow> ObjectId_IsValid i"
    "length (PublishExtensions p) \<le> MaximumCustomExtensionDefinitions" "length (PublishCustomProperties p) \<le> MaximumCustomClassDefinitions"
    "length (PublishTags p) \<le> MaximumTagsPerInstance"
    using valid by (auto simp: IsValidPublishReplication_def split: if_splits)
  have "map_ok MaximumSnapshotPropertiesPerObject (PublishProperties p)"
    using wf v(1,6) by (intro valid_entries_ok) (auto simp: publish_wf_def MaximumSnapshotPropertiesPerObject_def)
  moreover have "map_ok MaximumAttributesPerInstance (PublishAttributes p)"
    using wf v(2) by (intro valid_attributes_ok) (auto simp: publish_wf_def)
  moreover have "\<forall>s \<in> set (PublishExtensions p). extension_ok s" "\<forall>s \<in> set (PublishCustomProperties p). custom_ok s"
    using wf valid_extensions_ok [OF v(3)] valid_custom_ok [OF v(4)] by (auto simp: publish_wf_def)
  ultimately show ?thesis using valid_tags_ok [OF v(5)] s r by (simp add: publish_ok_def)
qed

lemma valid_schema_ok:
  "(schema \<noteq> None) = (version \<noteq> None) \<Longrightarrow> (case schema of None \<Rightarrow> True | Some s \<Rightarrow> SchemaId_IsValid s \<and> version \<noteq> Some 0) \<Longrightarrow>
   schema_ok schema version"
  by (cases schema; cases version) (simp_all add: schema_ok_def)

lemma attribute_name_ok: "passes (ValidateAttributeName n) \<Longrightarrow> string_ok MaximumAttributeNameBytes n"
  using protocol_string_ok [of MaximumAttributeNameBytes n] ValidateAttributeName_ok [of n]
  by (auto simp: passes_iff MaximumAttributeNameBytes_def)

lemma attribute_value_ok: "passes (ValidateAttributeValue jm v) \<Longrightarrow> wf_WireValue v \<Longrightarrow> wire_value_ok MaximumProtocolStringBytes v"
  by (auto simp: passes_iff ValidateAttributeValue_ok intro!: valid_wire_ok attribute_wire_ok)

lemma identifier_ok: "passes (ValidateProtocolString v MaximumProtocolIdentifierBytes what) \<Longrightarrow> string_ok MaximumProtocolIdentifierBytes v"
  by (simp add: passes_string protocol_string_ok MaximumProtocolIdentifierBytes_def)

lemma valid_intent_ok:
  assumes "Intent_IsValid jm x" "intent_wf x" "ObjectId_IsValid (GetReplicationObject x)" "\<And>p. x \<noteq> PreparedPublish p"
  shows "intent_ok x"
proof (cases x)
  case (Publish p)
  then show ?thesis using assms valid_publish_ok by (simp add: Intent_IsValid_def)
next
  case (PropertyReplicationUpdate i n v s y)
  then show ?thesis using assms by (auto simp: Intent_IsValid_def passes_wire valid_wire_ok intro: identifier_ok valid_schema_ok)
next
  case (ExtensionPropertyReplicationUpdate i s y n v)
  then show ?thesis using assms by (auto simp: Intent_IsValid_def passes_wire valid_wire_ok intro: identifier_ok)
next
  case (AttributeReplicationUpdate i n v)
  then show ?thesis using assms by (auto simp: Intent_IsValid_def attribute_name_ok attribute_value_ok split: option.splits)
qed (use assms in \<open>simp_all add: Intent_IsValid_def tag_string_ok\<close>)

lemma patched_wf: "entries_wf m \<Longrightarrow> entries_wf (map (patched nils) m)"
proof -
  have "fst \<circ> patched nils = fst" by (rule ext) (simp add: patched_def)
  then show "entries_wf m \<Longrightarrow> entries_wf (map (patched nils) m)"
    by (auto simp: entries_wf_def smap_wf_def patched_def)
qed

lemma received_wf: "intent_wf x \<Longrightarrow> intent_wf (received x)"
  by (cases x) (auto simp: publish_wf_def materialize_def patched_wf split: option.splits)

section \<open>The frame\<close>

definition schema_entry_image :: "SchemaCompatibilityEntry \<Rightarrow> bytes" where
  "schema_entry_image e = schema_id_image (EntryId e) @ int_image (EntryVersion e) @ int_image (EntryKind e)"

definition schema_entry_ok :: "SchemaCompatibilityEntry \<Rightarrow> bool" where
  "schema_entry_ok e \<longleftrightarrow> SchemaId_IsValid (EntryId e) \<and> EntryVersion e \<noteq> 0 \<and> \<not> EntryKind e > SchemaKindExtension"

interpretation schema_entry: stream_codec WriteSchemaEntry ReadSchemaEntry schema_entry_image "\<lambda>e. e" schema_entry_ok
proof
  fix e assume e: "schema_entry_ok e"
  show "emits (WriteSchemaEntry e) (schema_entry_image e)"
    unfolding WriteSchemaEntry_def schema_entry_image_def by (intro emits_comp emits_SchemaId emits_Integer)
  have "reads ReadSchemaEntry (schema_entry_image e @ []) \<lparr>EntryId = EntryId e, EntryVersion = EntryVersion e, EntryKind = EntryKind e\<rparr>"
    unfolding ReadSchemaEntry_def schema_entry_image_def append_assoc using e
    by (intro reads_intros) (simp_all add: schema_entry_ok_def)
  then show "reads ReadSchemaEntry (schema_entry_image e) e" by (cases e) simp
qed

lemma unique_schema_ok: "unique_schema seen es \<Longrightarrow> e \<in> set es \<Longrightarrow> schema_entry_ok e"
  by (induction seen es rule: unique_schema.induct) (auto simp: schema_entry_ok_def split: if_splits)

text \<open>What the receiver of a frame gets, and an operation that can be sent.\<close>

definition received_operation :: "ReplicationOperation \<Rightarrow> ReplicationOperation" where
  "received_operation x = \<lparr>OperationEpoch = OperationEpoch x, Intent = received (Intent x)\<rparr>"

definition received_frame :: "ReplicationFrame \<Rightarrow> ReplicationFrame" where
  "received_frame f = f\<lparr>FrameOperations := map received_operation (FrameOperations f)\<rparr>"

definition sendable :: "json_measure \<Rightarrow> Sequence \<Rightarrow> ReplicationOperation \<Rightarrow> bool" where
  "sendable jm epoch x \<longleftrightarrow> OperationEpoch x = epoch \<and> intent_wf (Intent x) \<and> Operation_IsValid jm x \<and>
     Operation_IsValid jm (received_operation x)"

definition operation_image :: "ReplicationOperation \<Rightarrow> bytes" where
  "operation_image x = intent_image (received (Intent x))"

lemma sendable_ok:
  assumes "sendable jm epoch x"
  shows "intent_ok (received (Intent x))" "WriteIntent (Intent x) = WriteIntent (received (Intent x))"
proof -
  have "Intent_IsValid jm (Intent x)" using assms by (auto simp: sendable_def Operation_IsValid_def split: if_splits)
  then have t: "PreparedTemplate p \<noteq> None" if "Intent x = PreparedPublish p" for p
    using that by (cases "PreparedTemplate p") (auto simp: Intent_IsValid_def ValidatePreparedPublish_def)
  then have "received (Intent x) \<noteq> PreparedPublish p" for p by (cases "Intent x") auto
  moreover have "Intent_IsValid jm (received (Intent x))" "ObjectId_IsValid (GetReplicationObject (received (Intent x)))"
    using assms by (auto simp: sendable_def received_operation_def Operation_IsValid_def split: if_splits)
  ultimately show "intent_ok (received (Intent x))"
    using assms received_wf [of "Intent x"] by (intro valid_intent_ok) (auto simp: sendable_def)
  show "WriteIntent (Intent x) = WriteIntent (received (Intent x))" using t by (rule WriteIntent_received)
qed

interpretation operation: stream_codec "\<lambda>x. WriteIntent (Intent x)" "ReadOperation jm epoch" operation_image received_operation
  "sendable jm epoch" for jm epoch
proof
  fix x assume x: "sendable jm epoch x"
  show "emits (WriteIntent (Intent x)) (operation_image x)"
    unfolding operation_image_def sendable_ok(2) [OF x] by (rule intent_emits [OF sendable_ok(1) [OF x]])
  have "OperationEpoch x = epoch" using x by (simp add: sendable_def)
  then show "reads (ReadOperation jm epoch) (operation_image x) (received_operation x)"
    using x operation_reads [OF sendable_ok(1) [OF x], of jm epoch] by (simp add: sendable_def received_operation_def operation_image_def)
qed

definition frame_payload :: "ReplicationFrame \<Rightarrow> bytes" where
  "frame_payload f = concat (map schema_entry_image (FrameSchema f)) @ concat (map operation_image (FrameOperations f))"

definition frame_header :: "ReplicationFrame \<Rightarrow> nat \<Rightarrow> bytes" where
  "frame_header f n = int_image ReplicationMagic @ int_image (FrameVersion f) @ int_image (FrameKind f) @ int_image (0 :: u8) @
     int_image (FrameEpoch f) @ int_image (FrameSequence f) @ int_image (word_of_nat (length (FrameSchema f)) :: u32) @
     int_image (word_of_nat (length (FrameOperations f)) :: u32) @ int_image (word_of_nat n :: u32)"

lemma frame_header_length: "length (frame_header f n) = 36"
  by (simp add: frame_header_def length_int_image)

lemma schema_entry_length: "length (schema_entry_image e) = ReplicationSchemaEntryBytes"
  by (simp add: schema_entry_image_def schema_id_image_def length_int_image ReplicationSchemaEntryBytes_def)

lemma operation_length: "sendable jm epoch x \<Longrightarrow> MinimumReplicationOperationBytes \<le> length (operation_image x)"
  using sendable_ok(1) [of jm epoch x]
  by (cases "received (Intent x)")
    (simp_all add: operation_image_def intent_image_def publish_image_def object_id_image_def length_int_image MinimumReplicationOperationBytes_def)

lemma schema_payload_length: "length (concat (map schema_entry_image es)) = length es * ReplicationSchemaEntryBytes"
  by (induction es) (simp_all add: schema_entry_length)

lemma operations_payload_length:
  "(\<And>x. x \<in> set xs \<Longrightarrow> sendable jm epoch x) \<Longrightarrow> length xs * MinimumReplicationOperationBytes \<le> length (concat (map operation_image xs))"
  by (induction xs) (auto dest!: operation_length [of jm epoch] intro: add_mono)

definition frame_ok :: "json_measure \<Rightarrow> ReplicationFrame \<Rightarrow> bool" where
  "frame_ok jm f \<longleftrightarrow> Frame_IsValid jm f \<and> Frame_IsValid jm (received_frame f) \<and> (\<forall>x \<in> set (FrameOperations f). intent_wf (Intent x))"

lemma frame_okD:
  assumes "frame_ok jm f"
  shows "FrameVersion f = ReplicationProtocolVersion" "\<not> FrameKind f > KindIncremental"
    "length (FrameSchema f) \<le> MaximumReplicationSchemaDefinitions" "length (FrameOperations f) \<le> MaximumReplicationOperationsPerFrame"
    "\<And>e. e \<in> set (FrameSchema f) \<Longrightarrow> schema_entry_ok e" "\<And>x. x \<in> set (FrameOperations f) \<Longrightarrow> sendable jm (FrameEpoch f) x"
proof -
  have v: "Frame_IsValid jm f" "Frame_IsValid jm (received_frame f)" using assms by (simp_all add: frame_ok_def)
  show "FrameVersion f = ReplicationProtocolVersion" "\<not> FrameKind f > KindIncremental"
    "length (FrameSchema f) \<le> MaximumReplicationSchemaDefinitions" "length (FrameOperations f) \<le> MaximumReplicationOperationsPerFrame"
    using v(1) by (simp_all add: Frame_IsValid_def not_less split: if_splits)
  have u: "unique_schema {} (FrameSchema f)" "\<forall>x \<in> set (FrameOperations f). OperationEpoch x = FrameEpoch f \<and> Operation_IsValid jm x"
    using v(1) unfolding Frame_IsValid_def by (metis (full_types))+
  have r: "\<forall>x \<in> set (FrameOperations (received_frame f)). Operation_IsValid jm x"
    using v(2) unfolding Frame_IsValid_def by (metis (full_types))
  show "schema_entry_ok e" if "e \<in> set (FrameSchema f)" for e using unique_schema_ok [OF u(1) that] .
  show "sendable jm (FrameEpoch f) x" if "x \<in> set (FrameOperations f)" for x
    using that u(2) r assms by (simp add: sendable_def received_frame_def frame_ok_def)
qed

lemma payload_emits:
  assumes "frame_ok jm f"
  shows "emits (fold (\<lambda>x. WriteIntent (Intent x)) (FrameOperations f) \<circ> fold WriteSchemaEntry (FrameSchema f)) (frame_payload f)"
  unfolding frame_payload_def
  by (intro emits_comp schema_entry.all_emits operation.all_emits [where jm = jm and epoch = "FrameEpoch f"] frame_okD(5,6) [OF assms])

lemma Encode_frame:
  assumes f: "frame_ok jm f" and n: "n = min bound MaximumReplicationFrameBytes"
  shows "EncodeReplicationFrameBounded jm f bound =
    (if 36 + length (frame_payload f) \<le> n then Inr (frame_header f (length (frame_payload f)) @ frame_payload f)
     else SerializationFailure LimitExceeded ''Replication frame exceeds its byte limit'')"
proof -
  let ?w = "\<lambda>k. Writer_Integer (word_of_nat k :: u32) \<circ> Writer_Integer (word_of_nat (length (FrameOperations f)) :: u32) \<circ>
     Writer_Integer (word_of_nat (length (FrameSchema f)) :: u32) \<circ>
     Writer_Integer (FrameSequence f) \<circ> Writer_Integer (FrameEpoch f) \<circ> Writer_Integer (0 :: u8) \<circ>
     Writer_Integer (FrameKind f) \<circ> Writer_Integer (FrameVersion f) \<circ> Writer_Integer ReplicationMagic"
  have h: "emits (?w k) (frame_header f k)" for k
    unfolding frame_header_def by (intro emits_comp emits_Integer)
  have v: "Frame_IsValid jm f" using f by (simp add: frame_ok_def)
  note pay = payload_emits [OF f]
  show ?thesis
  proof (cases "36 + length (frame_payload f) \<le> n")
    case True
    then have "\<not> n < ReplicationHeaderBytes" "length (frame_payload f) \<le> n - ReplicationHeaderBytes" "36 \<le> n"
      by (simp_all add: ReplicationHeaderBytes_def)
    then show ?thesis
      using emits_succeeds [OF pay, of "n - ReplicationHeaderBytes"] emits_succeeds [OF h, of "length (frame_payload f)" n] True v
      by (simp add: EncodeReplicationFrameBounded_def Let_def flip: n) (simp add: Writer_Succeeded_def frame_header_length)
  next
    case False
    then have "n < ReplicationHeaderBytes \<or> n - ReplicationHeaderBytes < length (frame_payload f)"
      by (auto simp: ReplicationHeaderBytes_def)
    then show ?thesis
      using emits_fails [OF pay, of "n - ReplicationHeaderBytes"] False v
      by (auto simp: EncodeReplicationFrameBounded_def Let_def simp flip: n)
  qed
qed

definition header_of :: "ReplicationFrame \<Rightarrow> nat \<Rightarrow> replication_header" where
  "header_of f n = \<lparr>HeaderMagic = ReplicationMagic, HeaderVersion = FrameVersion f, HeaderKind = FrameKind f, HeaderReserved = 0,
     HeaderEpoch = FrameEpoch f, HeaderSequence = FrameSequence f, HeaderSchemaCount = word_of_nat (length (FrameSchema f)),
     HeaderOperationCount = word_of_nat (length (FrameOperations f)), HeaderPayloadBytes = word_of_nat n\<rparr>"

lemma header_reads: "reads ReadReplicationHeader (frame_header f n) (header_of f n)"
proof -
  have "reads ReadReplicationHeader (frame_header f n @ []) (header_of f n)"
    unfolding ReadReplicationHeader_def frame_header_def header_of_def append_assoc by (intro reads_intros)
  then show ?thesis by simp
qed

lemma takes_frame:
  fixes what as bs cs
  defines "r0 \<equiv> GameBinaryReader (as @ bs @ cs) what"
  shows "takes as r0 (r0\<lparr>Position := length as\<rparr>)"
    "takes bs (r0\<lparr>Position := length as\<rparr>) (r0\<lparr>Position := length as + length bs\<rparr>)"
    "takes cs (r0\<lparr>Position := length as + length bs\<rparr>) (r0\<lparr>Position := length as + length bs + length cs\<rparr>)"
    "Remaining (r0\<lparr>Position := length as\<rparr>) = length bs + length cs"
    "Complete (r0\<lparr>Position := length as + length bs + length cs\<rparr>)"
  by (simp_all add: r0_def takes_def GameBinaryReader_def Remaining_def Complete_def)

lemma received_frame_fields:
  "\<lparr>FrameVersion = FrameVersion f, FrameKind = FrameKind f, FrameEpoch = FrameEpoch f, FrameSequence = FrameSequence f,
    FrameSchema = FrameSchema f, FrameOperations = map received_operation (FrameOperations f)\<rparr> = received_frame f"
  by (cases f) (simp add: received_frame_def)

lemma Decode_frame:
  assumes f: "frame_ok jm f" and n: "36 + length (frame_payload f) \<le> MaximumReplicationFrameBytes"
  shows "DecodeReplicationFrame jm (frame_header f (length (frame_payload f)) @ frame_payload f) = Inr (received_frame f)"
proof -
  let ?as = "frame_header f (length (frame_payload f))" and ?bs = "concat (map schema_entry_image (FrameSchema f))"
    and ?cs = "concat (map operation_image (FrameOperations f))" and ?h = "header_of f (length (frame_payload f))"
  let ?r0 = "GameBinaryReader (?as @ ?bs @ ?cs) ''Replication frame''"
  let ?r1 = "?r0\<lparr>Position := length ?as\<rparr>" and ?r2 = "?r0\<lparr>Position := length ?as + length ?bs\<rparr>"
    and ?r3 = "?r0\<lparr>Position := length ?as + length ?bs + length ?cs\<rparr>"
  note t = takes_frame [where as = ?as and bs = ?bs and cs = ?cs and what = "''Replication frame''"]
  have counts: "unat (HeaderSchemaCount ?h) = length (FrameSchema f)" "unat (HeaderOperationCount ?h) = length (FrameOperations f)"
    "unat (HeaderPayloadBytes ?h) = length ?bs + length ?cs"
    using frame_okD(3,4) [OF f] n unat_length32 [of "frame_payload f"]
    by (simp_all add: header_of_def unat_of_nat replication_limits) (simp add: frame_payload_def)
  have ops: "length (FrameOperations f) * MinimumReplicationOperationBytes \<le> length ?cs"
    by (rule operations_payload_length) (rule frame_okD(6) [OF f])
  have fit: "\<not> length (FrameSchema f) > (length ?bs + length ?cs) div ReplicationSchemaEntryBytes"
    "\<not> length (FrameOperations f) > (length ?bs + length ?cs - length (FrameSchema f) * ReplicationSchemaEntryBytes) div MinimumReplicationOperationBytes"
    using ops schema_payload_length [of "FrameSchema f"]
    by (simp_all add: not_less less_eq_div_iff_mult_less_eq ReplicationSchemaEntryBytes_def MinimumReplicationOperationBytes_def)
  have h: "ReadReplicationHeader ?r0 = (Some ?h, ?r1)" using header_reads t(1) unfolding reads_def by blast
  have s: "rd_list (length (FrameSchema f)) ReadSchemaEntry ?r1 = (Some (FrameSchema f), ?r2)"
    using schema_entry.all_reads [of "FrameSchema f"] frame_okD(5) [OF f] t(2) unfolding reads_def list.map_ident by blast
  have x: "rd_list (length (FrameOperations f)) (ReadOperation jm (FrameEpoch f)) ?r2 = (Some (map received_operation (FrameOperations f)), ?r3)"
    using operation.all_reads [of "FrameOperations f" jm "FrameEpoch f"] frame_okD(6) [OF f] t(3) unfolding reads_def by blast
  have len: "\<not> length (?as @ ?bs @ ?cs) > MaximumReplicationFrameBytes"
    using n by (simp add: frame_header_length) (simp add: frame_payload_def)
  have guards: "HeaderMagic ?h = ReplicationMagic" "HeaderVersion ?h = ReplicationProtocolVersion"
    "\<not> (HeaderKind ?h > KindIncremental \<or> HeaderReserved ?h \<noteq> 0)" "HeaderEpoch ?h = FrameEpoch f"
    using frame_okD(1,2) [OF f] by (simp_all add: header_of_def)
  have limits: "\<not> (length (FrameSchema f) > MaximumReplicationSchemaDefinitions \<or> length (FrameOperations f) > MaximumReplicationOperationsPerFrame)"
    using frame_okD(3,4) [OF f] by simp
  have "DecodeReplicationFrame jm (?as @ ?bs @ ?cs) =
     (let f = \<lparr>FrameVersion = HeaderVersion ?h, FrameKind = HeaderKind ?h, FrameEpoch = HeaderEpoch ?h,
         FrameSequence = HeaderSequence ?h, FrameSchema = FrameSchema f, FrameOperations = map received_operation (FrameOperations f)\<rparr>
      in if \<not> Complete ?r3 \<or> \<not> Frame_IsValid jm f
         then SerializationFailure InvalidValue ''Replication frame contains trailing or invalid data'' else Inr f)"
    unfolding DecodeReplicationFrame_def h prod.case option.case counts guards t(4) if_not_P [OF len]
      if_not_P [OF fit(1)] if_not_P [OF fit(2)] if_not_P [OF guards(3)] if_not_P [OF limits] s x
    by (simp only: not_True_eq_False simp_thms if_False HOL.refl if_cancel)
  also have "\<dots> = Inr (received_frame f)"
    using t(5) f by (simp add: header_of_def received_frame_fields frame_ok_def Let_def)
  finally show ?thesis by (simp add: frame_payload_def)
qed

lemma yields_count: "yields (ReadCount limit e) (\<lambda>_ n. n = 4)"
  unfolding ReadCount_def
  by (rule yields_bind [OF yields_or_fail [where Q = "\<lambda>_ n. n = 4"]], rule yields_mono [OF yields_u32]) (auto intro: yields_return)

lemma smap_emplace_wf:
  assumes "smap_emplace k v m = Some m'" "smap_wf m"
  shows "smap_wf m'" "set m' = insert (k, v) (set m)" "length (concat (map f m')) = length (f (k, v)) + length (concat (map f m))"
    "length m' = Suc (length m)"
proof -
  have m': "m' = insort_key fst (k, v) m" "k \<notin> fst ` set m" using assms(1) by (auto simp: smap_emplace_def split: if_splits)
  show "set m' = insert (k, v) (set m)" "length m' = Suc (length m)" by (simp_all add: m' set_insort_key)
  show "length (concat (map f m')) = length (f (k, v)) + length (concat (map f m))" unfolding m' by (induction m) auto
  have "map fst m' = insort k (map fst m)" unfolding m' by (induction m) auto
  then show "smap_wf m'" using assms(2) m'(2) by (simp add: smap_wf_def sorted_insort distinct_insort)
qed

lemma yields_entries:
  "entries_wf m0 \<Longrightarrow> yields (ReadEntries n m0) (\<lambda>m k. entries_wf m \<and> length m = length m0 + n \<and>
     length (concat (map entry_image m)) = length (concat (map entry_image m0)) + k)"
proof (induction n arbitrary: m0)
  case (Suc n)
  have step: "yields (case smap_emplace name v m0 of None \<Rightarrow> Fail e | Some m' \<Rightarrow> ReadEntries n m')
      (\<lambda>m k. entries_wf m \<and> length m = length m0 + Suc n \<and>
         length (concat (map entry_image m)) = length (concat (map entry_image m0)) + (length (string_image name) + (length (wire_value_image v) + k)))"
    if v: "wf_WireValue v" for name v e
  proof (cases "smap_emplace name v m0")
    case None
    then show ?thesis by (simp add: yields_none)
  next
    case (Some m')
    note wf = smap_emplace_wf [OF Some]
    have "entries_wf m'" using Suc.prems v wf(1,2) by (simp add: entries_wf_def)
    moreover have "length (concat (map entry_image m')) =
        length (string_image name) + length (wire_value_image v) + length (concat (map entry_image m0))" "length m' = Suc (length m0)"
      using wf(3) [of entry_image] wf(4) Suc.prems by (simp_all add: entries_wf_def) (simp add: entry_image_def)
    ultimately show ?thesis
      unfolding Some option.case by (intro yields_mono [OF Suc.IH]) auto
  qed
  show ?case
    unfolding ReadEntries.simps
    by (rule yields_bind [OF yields_string], rule yields_bind [OF yields_wire], elim conjE, simp only:, rule step)
qed (simp add: yields_return)

lemma yields_map: "yields (ReadValueMap limit) (\<lambda>m k. entries_wf m \<and> k = length (map_image m))"
  unfolding ReadValueMap_def
  by (rule yields_bind [OF yields_count], rule yields_mono [OF yields_entries])
    (auto simp: entries_wf_def smap_wf_def map_image_def length_int_image)

lemma yields_extension: "yields ReadExtensionState (\<lambda>s k. entries_wf (ExtensionStateProperties s) \<and> k = length (extension_image s))"
  unfolding ReadExtensionState_def
  by (intro yields_intros yields_bind [OF yields_map]) (simp add: extension_image_def length_int_image)

lemma yields_custom: "yields ReadCustomState (\<lambda>s k. entries_wf (CustomStateProperties s) \<and> k = length (custom_image s))"
  unfolding ReadCustomState_def
  by (intro yields_intros yields_bind [OF yields_map]) (simp add: custom_image_def length_int_image)

lemma yields_tags: "yields (ReadTags n seen) (\<lambda>ts k. length ts = n \<and> k = length (concat (map string_image ts)))"
proof (induction n arbitrary: seen)
  case (Suc n)
  have t: "yields (rd_or_fail (Reader_String MaximumTagNameBytes) (\<lambda>t. t \<notin> seen) e) (\<lambda>s n. n = length (string_image s))" for e
    by (rule yields_or_fail, rule yields_mono [OF yields_string]) simp
  show ?case
    unfolding ReadTags.simps by (rule yields_bind [OF t], rule yields_bind [OF Suc.IH], rule yields_return) auto
qed (simp add: yields_return)

lemma yields_counted:
  assumes "\<And>k. yields (body k) (\<lambda>xs n. length xs = k \<and> P xs \<and> n = length (concat (map img xs)))"
  shows "yields (rd_bind (ReadCount limit e) body) (\<lambda>xs n. P xs \<and> n = length (counted_image img xs))"
  by (rule yields_bind [OF yields_count], rule yields_mono [OF assms]) (simp add: counted_image_def length_int_image)

lemmas yields_publish_parts = yields_counted [OF yields_list [OF yields_extension]] yields_counted [OF yields_list [OF yields_custom]]
  yields_counted [where P = "\<lambda>_. True", unfolded simp_thms, OF yields_tags]

lemma yields_marker: "yields (rd_or_fail (Reader_Integer :: u8 rd) P e) (\<lambda>x n. P x \<and> n = 1)"
  by (rule yields_or_fail, rule yields_mono [OF yields_u8]) simp

lemma yields_optional: "yields ReadOptionalObjectId (\<lambda>i k. k = length (optional_id_image i))"
  unfolding ReadOptionalObjectId_def
proof (rule yields_bind [OF yields_marker], elim conjE)
  fix x :: u8 and n :: nat assume "n = 1"
  then show "yields (if x = 0 then rd_return None else rd_bind ReadBinaryObjectId (\<lambda>i. rd_return (Some i)))
      (\<lambda>i k. n + k = length (optional_id_image i))"
    by (auto simp: optional_id_image_def length_int_image intro!: yields_return yields_bind [OF yields_object])
qed

lemma yields_publish: "yields ReadPublish (\<lambda>p k. publish_wf p \<and> k = length (publish_image p))"
  unfolding ReadPublish_def
  by (intro yields_bind [OF yields_publish_parts(1)] yields_bind [OF yields_publish_parts(2)] yields_bind [OF yields_publish_parts(3)]
      yields_bind [OF yields_map] yields_bind [OF yields_optional] yields_intros)
    (simp add: publish_wf_def publish_image_def length_int_image)

definition plain_intent :: "ReplicationIntent \<Rightarrow> bool" where
  "plain_intent x \<longleftrightarrow> intent_wf x \<and> received x = x"

lemma plain_intents:
  "plain_intent (Publish p) = publish_wf p"
  "plain_intent (PropertyReplicationUpdate i n v s y) = wf_WireValue v"
  "plain_intent (ExtensionPropertyReplicationUpdate i s2 y2 n v) = wf_WireValue v"
  "plain_intent (ReparentReplication i parent)"
  "plain_intent (AttributeReplicationUpdate i n w) = (case w of None \<Rightarrow> True | Some v \<Rightarrow> wf_WireValue v)"
  "plain_intent (TagAddedReplication i n)" "plain_intent (TagRemovedReplication i n)"
  "plain_intent (UnpublishReplication i)" "plain_intent (DestroyReplication i)"
  by (simp_all add: plain_intent_def)

lemma yields_property_schema: "yields ReadPropertySchema (\<lambda>s k. k = length (schema_image (map_option fst s) (map_option snd s)))"
  unfolding ReadPropertySchema_def
proof (rule yields_bind [OF yields_marker], elim conjE)
  fix x :: u8 and n :: nat assume n: "n = 1"
  have "yields (rd_or_fail (rd_bind ReadBinarySchemaId (\<lambda>i. rd_bind (Reader_Integer :: u32 rd) (\<lambda>version. rd_return (i, version)))) P e)
      (\<lambda>s k. k = length (schema_id_image (fst s)) + 4)" for P e
    by (intro yields_or_fail yields_intros) simp
  then show "yields (if x = 0 then rd_return None
       else rd_bind (rd_or_fail (rd_bind ReadBinarySchemaId (\<lambda>i. rd_bind Reader_Integer (\<lambda>version. rd_return (i, version))))
              (\<lambda>(i, version). version \<noteq> 0) ''Replication property schema is invalid'') (\<lambda>s. rd_return (Some s)))
      (\<lambda>s k. n + k = length (schema_image (map_option fst s) (map_option snd s)))"
    using n by (auto simp: schema_image_def length_int_image intro!: yields_return yields_bind)
qed

lemma yields_property:
  "yields (rd_bind (rd_or_fail
        (rd_bind ReadBinaryObjectId (\<lambda>i. rd_bind (Reader_String MaximumProtocolIdentifierBytes) (\<lambda>name.
         rd_bind (ReadBinaryWireValue MaximumProtocolStringBytes) (\<lambda>v. rd_return (i, name, v)))))
        (\<lambda>_. True) ''Replication property operation is invalid'') (\<lambda>(i, name, v).
      rd_bind ReadPropertySchema (\<lambda>s. rd_return (PropertyReplicationUpdate i name v (map_option fst s) (map_option snd s)))))
     (\<lambda>x k. plain_intent x \<and> k = length (body_image x))"
proof (rule yields_bind)
  show "yields (rd_or_fail (rd_bind ReadBinaryObjectId (\<lambda>i. rd_bind (Reader_String MaximumProtocolIdentifierBytes) (\<lambda>name.
         rd_bind (ReadBinaryWireValue MaximumProtocolStringBytes) (\<lambda>v. rd_return (i, name, v))))) (\<lambda>_. True) ''Replication property operation is invalid'')
     (\<lambda>(i, name, v) k. wf_WireValue v \<and> k = length (object_id_image i) + length (string_image name) + length (wire_value_image v))"
    by (intro yields_or_fail yields_intros) simp
qed (auto intro!: yields_bind [OF yields_property_schema] yields_return simp: plain_intents)

lemma yields_attribute:
  "yields (rd_bind (rd_or_fail
        (rd_bind ReadBinaryObjectId (\<lambda>i. rd_bind (Reader_String MaximumAttributeNameBytes) (\<lambda>name.
         rd_bind (Reader_Integer :: u8 rd) (\<lambda>present. rd_return (i, name, present)))))
        (\<lambda>(i, name, present). present \<le> 1) ''Replication attribute operation is invalid'') (\<lambda>(i, name, present).
      if present = 0 then rd_return (AttributeReplicationUpdate i name None)
      else rd_bind (ReadBinaryWireValue MaximumProtocolStringBytes) (\<lambda>v. rd_return (AttributeReplicationUpdate i name (Some v)))))
     (\<lambda>x k. plain_intent x \<and> k = length (body_image x))"
proof (rule yields_bind)
  show "yields (rd_or_fail (rd_bind ReadBinaryObjectId (\<lambda>i. rd_bind (Reader_String MaximumAttributeNameBytes) (\<lambda>name.
         rd_bind (Reader_Integer :: u8 rd) (\<lambda>present. rd_return (i, name, present))))) (\<lambda>(i, name, present). present \<le> 1)
         ''Replication attribute operation is invalid'')
     (\<lambda>(i, name, present) k. k = length (object_id_image i) + length (string_image name) + 1)"
    by (intro yields_or_fail yields_intros) simp
qed (auto intro!: yields_bind [OF yields_wire] yields_return simp: plain_intents value_image_def length_int_image)

lemma yields_intent: "yields (ReadIntent code) (\<lambda>x k. plain_intent x \<and> k = length (body_image x))"
  unfolding ReadIntent_def
  by (auto intro!: yields_property yields_attribute yields_bind [OF yields_publish] yields_bind [OF yields_optional] yields_intros
      simp: plain_intents length_int_image)

lemma yields_operation:
  "yields (ReadOperation jm epoch) (\<lambda>x k. (OperationEpoch x = epoch \<and> plain_intent (Intent x)) \<and> k = length (operation_image x))"
  unfolding ReadOperation_def Let_def
  by (rule yields_bind [OF yields_marker], rule yields_bind [OF yields_intent], rule yields_check)
    (auto simp: operation_image_def plain_intent_def intent_image_def length_int_image)

lemma yields_schema_entry: "yields ReadSchemaEntry (\<lambda>e k. True \<and> k = length (schema_entry_image e))"
  unfolding ReadSchemaEntry_def by (intro yields_intros) (simp add: schema_entry_image_def length_int_image)

lemma yields_header: "yields ReadReplicationHeader (\<lambda>_ k. k = 36)"
  unfolding ReadReplicationHeader_def by (intro yields_intros) simp

lemma Decode_yields:
  assumes "DecodeReplicationFrame jm bs = Inr f"
  shows "length bs \<le> MaximumReplicationFrameBytes" "length bs = 36 + length (frame_payload f)" "Frame_IsValid jm f"
    "\<forall>x \<in> set (FrameOperations f). plain_intent (Intent x)"
proof -
  let ?r = "GameBinaryReader bs ''Replication frame''"
  have "\<exists>h r schema r1 operations r2. ReadReplicationHeader ?r = (Some h, r) \<and>
      rd_list (unat (HeaderSchemaCount h)) ReadSchemaEntry r = (Some schema, r1) \<and>
      rd_list (unat (HeaderOperationCount h)) (ReadOperation jm (HeaderEpoch h)) r1 = (Some operations, r2) \<and>
      f = \<lparr>FrameVersion = HeaderVersion h, FrameKind = HeaderKind h, FrameEpoch = HeaderEpoch h,
         FrameSequence = HeaderSequence h, FrameSchema = schema, FrameOperations = operations\<rparr> \<and> Complete r2 \<and>
      Frame_IsValid jm f \<and> length bs \<le> MaximumReplicationFrameBytes"
    using assms unfolding DecodeReplicationFrame_def Let_def if_Failure case_rd_Inr by (auto simp: if_Failure)
  then obtain h r schema r1 operations r2 where h: "ReadReplicationHeader ?r = (Some h, r)"
    and s: "rd_list (unat (HeaderSchemaCount h)) ReadSchemaEntry r = (Some schema, r1)"
    and x: "rd_list (unat (HeaderOperationCount h)) (ReadOperation jm (HeaderEpoch h)) r1 = (Some operations, r2)"
    and f: "FrameSchema f = schema" "FrameOperations f = operations" "Complete r2"
    and v: "Frame_IsValid jm f" "length bs \<le> MaximumReplicationFrameBytes" by auto
  have m0: "moved ?r r 36" using h yields_header unfolding yields_def by (auto simp: GameBinaryReader_def)
  then have "Position r \<le> length (Input r)" by (auto simp: moved_def)
  with s yields_list [OF yields_schema_entry] have m1: "moved r r1 (length (concat (map schema_entry_image schema)))"
    unfolding yields_def by blast
  then have "Position r1 \<le> length (Input r1)" by (auto simp: moved_def)
  with x yields_list [OF yields_operation] have m2: "moved r1 r2 (length (concat (map operation_image operations)))"
    "\<forall>x \<in> set operations. OperationEpoch x = HeaderEpoch h \<and> plain_intent (Intent x)"
    unfolding yields_def by blast+
  show "length bs \<le> MaximumReplicationFrameBytes" "Frame_IsValid jm f" by (rule v)+
  show "\<forall>x \<in> set (FrameOperations f). plain_intent (Intent x)" using m2(2) f(2) by simp
  show "length bs = 36 + length (frame_payload f)"
    using m0 m1 m2(1) f by (auto simp: moved_def frame_payload_def GameBinaryReader_def Complete_def)
qed

lemma plain_frame:
  assumes "\<forall>x \<in> set (FrameOperations f). plain_intent (Intent x)"
  shows "received_frame f = f"
proof -
  have "map received_operation (FrameOperations f) = FrameOperations f"
    using assms by (intro map_idI) (simp add: received_operation_def plain_intent_def)
  then show ?thesis by (simp add: received_frame_def)
qed

text \<open>A template is made from a publication that was itself checked.\<close>

primrec template_valid :: "json_measure \<Rightarrow> ReplicationIntent \<Rightarrow> bool" where
  "template_valid jm (Publish p) = True"
| "template_valid jm (PreparedPublish p) =
     (case PreparedTemplate p of None \<Rightarrow> True | Some t \<Rightarrow> IsValidPublishReplication jm (TemplatePublication t))"
| "template_valid jm (PropertyReplicationUpdate i n v s x) = True"
| "template_valid jm (ExtensionPropertyReplicationUpdate i s x n v) = True"
| "template_valid jm (ReparentReplication i p) = True"
| "template_valid jm (AttributeReplicationUpdate i n v) = True"
| "template_valid jm (TagAddedReplication i n) = True"
| "template_valid jm (TagRemovedReplication i n) = True"
| "template_valid jm (UnpublishReplication i) = True"
| "template_valid jm (DestroyReplication i) = True"

lemma materialize_valid: "IsValidPublishReplication jm p \<Longrightarrow> IsValidPublishReplication jm (materialize nils p)"
proof -
  have "valid_entries m what \<Longrightarrow> valid_entries (map (patched (Some nils)) m) what" for m what
    by (force simp: valid_entries_def patched_def passes_def)
  then show "IsValidPublishReplication jm p \<Longrightarrow> IsValidPublishReplication jm (materialize nils p)"
    by (simp add: IsValidPublishReplication_def materialize_def split: if_splits)
qed

lemma Operation_IsValid_iff:
  "Operation_IsValid jm x \<longleftrightarrow> Sequence_IsValid (OperationEpoch x) \<and> ObjectId_IsValid (GetReplicationObject (Intent x)) \<and> Intent_IsValid jm (Intent x)"
  by (simp add: Operation_IsValid_def)

lemma received_valid:
  assumes "Operation_IsValid jm x" "template_valid jm (Intent x)"
  shows "Operation_IsValid jm (received_operation x)"
proof (cases "Intent x")
  case (PreparedPublish p)
  obtain t where t: "PreparedTemplate p = Some t" "PublishObject (TemplatePublication t) = PreparedObject p"
    using assms(1) PreparedPublish
    by (cases "PreparedTemplate p") (auto simp: Operation_IsValid_iff Intent_IsValid_def ValidatePreparedPublish_def split: if_splits)
  moreover have "IsValidPublishReplication jm (materialize (NilProperties p) (TemplatePublication t))"
    using assms(2) PreparedPublish t(1) by (simp add: materialize_valid)
  moreover have "PublishObject (materialize nils q) = PublishObject q" for nils q by (simp add: materialize_def)
  ultimately show ?thesis
    using assms(1) PreparedPublish by (simp add: Operation_IsValid_iff Intent_IsValid_def received_operation_def)
qed (use assms in \<open>simp_all add: received_operation_def Operation_IsValid_iff\<close>)

lemma Frame_IsValid_received:
  assumes "Frame_IsValid jm f" "\<forall>x \<in> set (FrameOperations f). template_valid jm (Intent x)"
  shows "Frame_IsValid jm (received_frame f)"
proof -
  have f: "FrameVersion (received_frame f) = FrameVersion f" "FrameKind (received_frame f) = FrameKind f" "FrameEpoch (received_frame f) = FrameEpoch f"
    "FrameSequence (received_frame f) = FrameSequence f" "FrameSchema (received_frame f) = FrameSchema f"
    "FrameOperations (received_frame f) = map received_operation (FrameOperations f)"
    by (simp_all add: received_frame_def)
  have "OperationEpoch (received_operation x) = OperationEpoch x" for x by (simp add: received_operation_def)
  then show ?thesis using assms unfolding Frame_IsValid_def f by (simp add: received_valid split: if_splits)
qed

section \<open>Properties\<close>

text \<open>
  C29. A frame that encodes, within whatever byte limit, decodes to the same frame, in which
  every prepared publication has become the ordinary publication of its template with the
  patched properties cleared. The templates are taken to hold valid publications, and maps
  and coordinate frames to be what their types promise.
\<close>

theorem replication_roundtrip:
  assumes "EncodeReplicationFrameBounded jm f bound = Inr bs"
    and "\<forall>x \<in> set (FrameOperations f). intent_wf (Intent x) \<and> template_valid jm (Intent x)"
  shows "length bs \<le> bound \<and> DecodeReplicationFrame jm bs = Inr (received_frame f)"
proof -
  have "Frame_IsValid jm f" using assms(1) by (simp add: EncodeReplicationFrameBounded_def split: if_splits)
  then have f: "frame_ok jm f" using assms(2) by (simp add: frame_ok_def Frame_IsValid_received)
  have "36 + length (frame_payload f) \<le> min bound MaximumReplicationFrameBytes"
    "bs = frame_header f (length (frame_payload f)) @ frame_payload f"
    using assms(1) unfolding Encode_frame [OF f refl] by (simp_all split: if_splits)
  then show ?thesis using Decode_frame [OF f] by (simp add: frame_header_length)
qed

text \<open>
  C30. A frame that decodes is valid and carries no prepared publication; encoding it succeeds,
  with a frame of the same size, and that frame decodes to it again. The bytes need not be the
  same, since the entries of a map may arrive in any order.
\<close>

theorem replication_decode_stable:
  assumes "DecodeReplicationFrame jm bs = Inr f"
  shows "Frame_IsValid jm f \<and> received_frame f = f \<and>
    (\<exists>canonical. EncodeReplicationFrame jm f = Inr canonical \<and> length canonical = length bs \<and>
       DecodeReplicationFrame jm canonical = Inr f)"
proof -
  note d = Decode_yields [OF assms]
  have r: "received_frame f = f" by (rule plain_frame [OF d(4)])
  then have f: "frame_ok jm f" using d(3,4) by (simp add: frame_ok_def plain_intent_def)
  have n: "36 + length (frame_payload f) \<le> MaximumReplicationFrameBytes" using d(1,2) by simp
  have "EncodeReplicationFrame jm f = Inr (frame_header f (length (frame_payload f)) @ frame_payload f)"
    unfolding EncodeReplicationFrame_def Encode_frame [OF f refl] using n by simp
  then show ?thesis using Decode_frame [OF f n] d(2,3) r by (simp add: frame_header_length)
qed

definition ex_publication :: PublishReplication where
  "ex_publication = \<lparr>PublishObject = ObjectId 1 1, PublishClassSchemaId = SchemaId 1 2, PublishDefinitionVersion = 1,
     PublishParent = Some (ObjectId 2 1), PublishClassName = [80], PublishName = [81],
     PublishProperties = [([65], WireObjectReference (ObjectId 3 1)), ([66], WireBool True)],
     PublishAttributes = [([67], WireInt 5)], PublishExtensions = [], PublishCustomProperties = [], PublishTags = [[84]]\<rparr>"

definition ex_frame :: ReplicationFrame where
  "ex_frame = \<lparr>FrameVersion = 1, FrameKind = KindIncremental, FrameEpoch = 7, FrameSequence = 9, FrameSchema = [],
     FrameOperations = [\<lparr>OperationEpoch = 7, Intent = PreparedPublish \<lparr>PreparedObject = ObjectId 1 1,
         PreparedTemplate = Some \<lparr>TemplateKey = \<lparr>KeyWorld = ObjectId 4 1, KeyObject = ObjectId 1 1, KeyStructuralRevision = 1\<rparr>,
           TemplatePublication = ex_publication, TemplateRetainedBytes = 100\<rparr>,
         NilProperties = PatchList_Add [65] new_PatchList\<rparr>\<rparr>,
       \<lparr>OperationEpoch = 7, Intent = TagAddedReplication (ObjectId 1 1) [85]\<rparr>]\<rparr>"

definition ex_json :: json_measure where
  "ex_json v = Some 1"

lemma ex_utf8: "list_all (\<lambda>b. IsValidProtocolUtf8 [b]) [65, 66, 67, 80, 81, 84, 85]"
  by code_simp

lemmas ex_evals = ex_utf8 [simplified] IsValidPublishReplication_def valid_entries_def ValidateAttributeCollection_def ValidateAttributeName_def
  ValidateAttributeValue_def ValidateTagName_def passes_def ValidateProtocolString_def require_def Sequence_IsValid_def ObjectId_IsValid_def
  SchemaId_IsValid_def ex_json_def Let_def protocol_limits MaximumAttributeNameBytes_def MaximumAttributesPerInstance_def
  MaximumAttributeValueBytes_def MaximumAttributeBytesPerInstance_def MaximumReplicatedAttributeBytesPerInstance_def
  MaximumTagNameBytes_def MaximumSnapshotPropertiesPerObject_def publish_limits

lemma ex_publication_valid: "IsValidPublishReplication ex_json ex_publication"
  by (simp add: ex_publication_def ex_evals)

lemma ex_frame_valid: "Frame_IsValid ex_json ex_frame"
proof -
  have "ValidatePreparedPublish \<lparr>PreparedObject = ObjectId 1 1,
      PreparedTemplate = Some \<lparr>TemplateKey = \<lparr>KeyWorld = ObjectId 4 1, KeyObject = ObjectId 1 1, KeyStructuralRevision = 1\<rparr>,
        TemplatePublication = ex_publication, TemplateRetainedBytes = 100\<rparr>, NilProperties = PatchList_Add [65] new_PatchList\<rparr>"
    by (simp add: ValidatePreparedPublish_def ex_publication_def ObjectId_IsValid_def nil_name_ok_def PatchList_Size_def PatchList_At_def
        PatchList_Add_def new_PatchList_def InlineCapacity_def Let_def)
  then show ?thesis
    by (simp add: Frame_IsValid_def ex_frame_def ReplicationProtocolVersion_def KindIncremental_def KindBaseline_def replication_limits
        Operation_IsValid_iff Intent_IsValid_def ex_evals)
qed

lemma ex_frame_fits: "\<forall>x \<in> set (FrameOperations ex_frame). intent_wf (Intent x) \<and> template_valid ex_json (Intent x)"
proof -
  have "publish_wf ex_publication" by (simp add: publish_wf_def entries_wf_def smap_wf_def ex_publication_def)
  then show ?thesis using ex_publication_valid by (simp add: ex_frame_def)
qed

lemma ex_frame_ok: "frame_ok ex_json ex_frame"
  using ex_frame_valid ex_frame_fits by (simp add: frame_ok_def Frame_IsValid_received)

lemma ex_frame_payload: "length (frame_payload ex_frame) \<le> 900"
  by (simp add: frame_payload_def ex_frame_def operation_image_def intent_image_def materialize_def publish_image_def ex_publication_def
      object_id_image_def schema_id_image_def string_image_def optional_id_image_def map_image_def entry_image_def counted_image_def
      wire_value_image_def patched_def PatchList_Contains_def PatchList_Add_def PatchList_At_def new_PatchList_def InlineCapacity_def
      Let_def length_int_image)

theorem replication_roundtrip_witness:
  "\<exists>bs. EncodeReplicationFrameBounded ex_json ex_frame 1000 = Inr bs \<and> length bs \<le> 1000 \<and>
     DecodeReplicationFrame ex_json bs = Inr (received_frame ex_frame)"
proof -
  have "\<exists>bs. EncodeReplicationFrameBounded ex_json ex_frame 1000 = Inr bs"
    unfolding Encode_frame [OF ex_frame_ok refl] using ex_frame_payload by (simp add: MaximumReplicationFrameBytes_def)
  then show ?thesis using replication_roundtrip [OF _ ex_frame_fits] by blast
qed

theorem replication_decode_stable_witness:
  "\<exists>bs f. DecodeReplicationFrame ex_json bs = Inr f \<and> length (FrameOperations f) = 2 \<and> received_frame f = f \<and>
     (\<exists>canonical. EncodeReplicationFrame ex_json f = Inr canonical \<and> DecodeReplicationFrame ex_json canonical = Inr f)"
proof -
  let ?bs = "frame_header ex_frame (length (frame_payload ex_frame)) @ frame_payload ex_frame"
  have d: "DecodeReplicationFrame ex_json ?bs = Inr (received_frame ex_frame)"
    using Decode_frame [OF ex_frame_ok] ex_frame_payload by (simp add: MaximumReplicationFrameBytes_def)
  moreover have "length (FrameOperations (received_frame ex_frame)) = 2" by (simp add: received_frame_def ex_frame_def)
  ultimately show ?thesis using replication_decode_stable [OF d] by blast
qed

end
