(* ===== verification/Transport.thy ===== *)
theory Transport imports NetworkCore begin

text \<open>
  Endpoints, start configurations and transport events with their validation
  (src/network/Transport.cpp and include/gargantuan/network/Transport.hpp). The transport
  interface itself has no state; its implementations are not part of this theory.
\<close>

section \<open>Endpoints\<close>

definition MaximumTransportEndpointBytes :: nat where
  "MaximumTransportEndpointBytes = 1024"

definition MaximumOpaqueHandshakeMaterialBytes :: nat where
  "MaximumOpaqueHandshakeMaterialBytes = 64 * 1024"

datatype TransportRole = Client | Server

record TransportEndpoint =
  Host :: bytes
  Port :: u16

definition Endpoint_IsValid :: "TransportEndpoint \<Rightarrow> bool" where
  "Endpoint_IsValid e =
     (case ValidateProtocolString (Host e) MaximumTransportEndpointBytes ''Transport endpoint'' of
        Inl _ \<Rightarrow> False
      | Inr _ \<Rightarrow> Host e \<noteq> [] \<and> Port e \<noteq> 0)"

definition is_digit :: "u8 \<Rightarrow> bool" where
  "is_digit c \<longleftrightarrow> 48 \<le> c \<and> c \<le> 57"

text \<open>
  The loop over the host name, with the array of octets, the index of the current one and the
  number of its digits; \<open>None\<close> where it returns false. An octet never exceeds 2559, so the
  32-bit arithmetic of the source does not wrap.
\<close>

fun octets_loop :: "bytes \<Rightarrow> nat list \<Rightarrow> nat \<Rightarrow> nat \<Rightarrow> (nat list \<times> nat \<times> nat) option" where
  "octets_loop [] octets octet digits = Some (octets, octet, digits)"
| "octets_loop (c # rest) octets octet digits =
     (if c = 46 then
        (if digits = 0 \<or> octet \<ge> 3 then None else octets_loop rest octets (octet + 1) 0)
      else if \<not> is_digit c \<or> digits \<ge> 3 then None
      else
        (let octets' = octets[octet := octets ! octet * 10 + unat (c - 48)]
         in if octets' ! octet > 255 then None else octets_loop rest octets' octet (digits + 1)))"

definition IsLoopbackTransportEndpoint :: "TransportEndpoint \<Rightarrow> bool" where
  "IsLoopbackTransportEndpoint e =
     (if \<not> Endpoint_IsValid e then False
      else if Host e = [58, 58, 49] then True
      else (case octets_loop (Host e) [0, 0, 0, 0] 0 0 of
          None \<Rightarrow> False
        | Some (octets, octet, digits) \<Rightarrow> octet = 3 \<and> digits \<noteq> 0 \<and> octets ! 0 = 127))"

section \<open>Configurations and events\<close>

record TransportStartConfiguration =
  Role :: TransportRole
  StartEndpoint :: TransportEndpoint
  AdvertisedLimits :: NetworkLimits
  OpaqueHandshakeMaterial :: bytes

definition StartConfiguration_IsValid :: "TransportStartConfiguration \<Rightarrow> bool" where
  "StartConfiguration_IsValid c \<longleftrightarrow>
     (Role c = Client \<or> Role c = Server) \<and> Endpoint_IsValid (StartEndpoint c) \<and>
     NetworkLimits_IsValid (AdvertisedLimits c) \<and>
     length (OpaqueHandshakeMaterial c) \<le> MaximumOpaqueHandshakeMaterialBytes"

datatype TransportEvent =
    ConnectionStateEvent ConnectionId (Previous: ConnectionState) (Current: ConnectionState)
  | ReceivedMessageEvent ConnectionId DeliveryMode TrafficClass MessageOrder bytes
  | DisconnectedEvent ConnectionId DisconnectInfo
  | TransportFailureEvent DisconnectInfo

definition IsValidTransportEvent :: "TransportEvent \<Rightarrow> NetworkLimits \<Rightarrow> bool" where
  "IsValidTransportEvent event l =
     (if \<not> NetworkLimits_IsValid l then False
      else (case event of
          ConnectionStateEvent c previous current \<Rightarrow> ConnectionId_IsValid c \<and> IsLegalConnectionTransition previous current
        | ReceivedMessageEvent c delivery traffic order payload \<Rightarrow>
            if \<not> ConnectionId_IsValid c \<or> \<not> IsValidDeliveryMode delivery \<or> \<not> IsValidTrafficClass traffic \<or> payload = [] \<or>
               \<not> IsValidMessageOrder order \<or> length payload > MaximumDecodedMessageBytes l \<or>
               length payload > MaximumReceiveBytesPerTick l then False
            else
              (let messageLimit = (if delivery = ReliableOrdered then MaximumReliableMessageBytes l
                                   else MaximumUnreliableMessageBytes l)
               in if length payload > messageLimit then False
                  else
                    (let hasOrder = (order \<noteq> NoOrder)
                     in if delivery = UnreliableSequenced then hasOrder \<and> \<not> is_replication_order order
                        else delivery \<noteq> UnreliableUnordered \<or> \<not> hasOrder))
        | DisconnectedEvent c information \<Rightarrow> ConnectionId_IsValid c \<and> DisconnectInfo_IsValid information
        | TransportFailureEvent information \<Rightarrow>
            DisconnectInfo_IsValid information \<and> Reason information = DisconnectTransportFailure))"

section \<open>The loop reads a dotted quad\<close>

fun segments :: "bytes \<Rightarrow> bytes list" where
  "segments [] = [[]]"
| "segments (c # rest) = (if c = 46 then [] # segments rest else (c # hd (segments rest)) # tl (segments rest))"

definition decimal :: "nat \<Rightarrow> bytes \<Rightarrow> nat" where
  "decimal v s = foldl (\<lambda>v c. v * 10 + unat (c - 48)) v s"

definition octet_from :: "nat \<Rightarrow> nat \<Rightarrow> bytes \<Rightarrow> bool" where
  "octet_from v digits s \<longleftrightarrow> list_all is_digit s \<and> digits + length s \<in> {1..3} \<and> decimal v s \<le> 255"

lemma segments_not_Nil: "segments xs \<noteq> []"
  by (cases xs) auto

lemma decimal_simps: "decimal v [] = v" "decimal v (c # s) = decimal (v * 10 + unat (c - 48)) s"
  by (simp_all add: decimal_def)

lemma decimal_ge: "v \<le> decimal v s"
proof (induction s arbitrary: v)
  case (Cons c s)
  have "v \<le> v * 10 + unat (c - 48)" by simp
  also have "\<dots> \<le> decimal (v * 10 + unat (c - 48)) s" by (rule Cons.IH)
  finally show ?case by (simp add: decimal_simps)
qed (simp add: decimal_simps)

definition quad_from :: "nat list \<Rightarrow> nat \<Rightarrow> nat \<Rightarrow> bytes list \<Rightarrow> bool" where
  "quad_from octets k digits ss \<longleftrightarrow> length (tl ss) = 3 - k \<and> octet_from (octets ! k) digits (hd ss) \<and>
     list_all (octet_from 0 0) (tl ss) \<and> (if k = 0 then decimal (octets ! 0) (hd ss) else octets ! 0) = 127"

definition accepts :: "(nat list \<times> nat \<times> nat) option \<Rightarrow> bool" where
  "accepts r \<longleftrightarrow> (case r of None \<Rightarrow> False | Some (octets, octet, digits) \<Rightarrow> octet = 3 \<and> digits \<noteq> 0 \<and> octets ! 0 = 127)"

lemma octets_loop_spec:
  assumes "length octets = 4" "k \<le> 3" "\<And>j. k < j \<Longrightarrow> j \<le> 3 \<Longrightarrow> octets ! j = 0" "digits \<le> 3" "octets ! k \<le> 255"
  shows "accepts (octets_loop xs octets k digits) \<longleftrightarrow> quad_from octets k digits (segments xs)"
  using assms
proof (induction xs arbitrary: octets k digits)
  case Nil
  then show ?case by (auto simp: accepts_def quad_from_def octet_from_def decimal_simps)
next
  case (Cons c rest)
  obtain s ss where ss: "segments rest = s # ss" using segments_not_Nil [of rest] by (cases "segments rest") auto
  show ?case
  proof (cases "c = 46")
    case True
    show ?thesis
    proof (cases "digits = 0 \<or> k \<ge> 3")
      case True
      then show ?thesis using \<open>c = 46\<close> Cons.prems by (auto simp: accepts_def quad_from_def octet_from_def ss)
    next
      case False
      then have "accepts (octets_loop rest octets (k + 1) 0) \<longleftrightarrow> quad_from octets (k + 1) 0 (segments rest)"
        using Cons.prems by (intro Cons.IH) auto
      moreover have "octets ! Suc k = 0" using Cons.prems(3) [of "Suc k"] False by simp
      ultimately show ?thesis
        using \<open>c = 46\<close> False Cons.prems(4,5) by (auto simp: quad_from_def octet_from_def decimal_simps ss)
    qed
  next
    case False
    let ?v = "octets ! k * 10 + unat (c - 48)"
    let ?os = "octets[k := ?v]"
    show ?thesis
    proof (cases "is_digit c \<and> digits < 3 \<and> ?v \<le> 255")
      case True
      then have "accepts (octets_loop rest ?os k (digits + 1)) \<longleftrightarrow> quad_from ?os k (digits + 1) (segments rest)"
        using Cons.prems by (intro Cons.IH) auto
      then show ?thesis
        using True False Cons.prems by (auto simp: Let_def quad_from_def octet_from_def decimal_simps ss)
    next
      case bad: False
      have "\<not> octet_from (octets ! k) digits (c # s)"
        using bad decimal_ge [of ?v s] by (auto simp: octet_from_def decimal_simps)
      then show ?thesis
        using bad False Cons.prems by (auto simp: accepts_def Let_def quad_from_def ss)
    qed
  qed
qed

lemma IsLoopback_accepts:
  "IsLoopbackTransportEndpoint e \<longleftrightarrow> Endpoint_IsValid e \<and>
     (Host e = [58, 58, 49] \<or> accepts (octets_loop (Host e) [0, 0, 0, 0] 0 0))"
  by (simp add: IsLoopbackTransportEndpoint_def accepts_def)

lemma quad_from_start:
  "quad_from [0, 0, 0, 0] 0 0 ss \<longleftrightarrow> length (tl ss) = 3 \<and> octet_from 0 0 (hd ss) \<and> list_all (octet_from 0 0) (tl ss) \<and> decimal 0 (hd ss) = 127"
  by (simp add: quad_from_def)

section \<open>Messages that may be sent may be received\<close>

lemma event_iff_intent:
  "IsValidTransportEvent (ReceivedMessageEvent c (Delivery i) (Traffic i) (Order i) (Payload i)) l \<and> ConnectionId_IsValid (Destination i) \<longleftrightarrow>
   IsNetworkMessageIntentValid i l \<and> ConnectionId_IsValid c"
proof (cases "NetworkLimits_IsValid l")
  case True
  then have "MaximumReliableMessageBytes l \<le> MaximumSendBytesPerTick l" "MaximumUnreliableMessageBytes l \<le> MaximumSendBytesPerTick l"
    "MaximumDecodedMessageBytes l \<le> MaximumReceiveBytesPerTick l"
    by (simp_all add: NetworkLimits_IsValid_def)
  with True show ?thesis
    by (auto simp: IsValidTransportEvent_def IsNetworkMessageIntentValid_def ValidateIntent_def Let_def split: if_splits)
qed (simp add: IsValidTransportEvent_def IsNetworkMessageIntentValid_def ValidateIntent_def)

lemma intent_mono:
  "IsNetworkMessageIntentValid i l \<Longrightarrow> limits_le l l' \<Longrightarrow> NetworkLimits_IsValid l' \<Longrightarrow> IsNetworkMessageIntentValid i l'"
  by (auto simp: IsNetworkMessageIntentValid_def ValidateIntent_def limits_le_def split: if_splits)

lemma negotiated:
  "NegotiateNetworkLimits a b = Some r \<Longrightarrow> NetworkLimits_IsValid a \<and> NetworkLimits_IsValid b \<and> limits_le r a \<and> limits_le r b"
  using limits_min_greatest [of "limits_min a b" a b] limits_le_refl
  by (auto simp: NegotiateNetworkLimits_def Let_def split: if_splits)

section \<open>Properties\<close>

text \<open>
  An endpoint is taken for a loopback address exactly when it is valid and its host is
  "::1" or splits at its dots into four numbers of one to three decimal digits, none above 255,
  the first of them 127.
\<close>

theorem loopback_endpoint_correct:
  "IsLoopbackTransportEndpoint e \<longleftrightarrow> Endpoint_IsValid e \<and>
     (Host e = [58, 58, 49] \<or>
      length (segments (Host e)) = 4 \<and> list_all (octet_from 0 0) (segments (Host e)) \<and> decimal 0 (hd (segments (Host e))) = 127)"
proof -
  have "accepts (octets_loop (Host e) [0, 0, 0, 0] 0 0) \<longleftrightarrow> quad_from [0, 0, 0, 0] 0 0 (segments (Host e))"
    by (rule octets_loop_spec) (auto simp: less_Suc_eq_0_disj numeral_3_eq_3 le_Suc_eq)
  then show ?thesis
    unfolding IsLoopback_accepts quad_from_start using segments_not_Nil [of "Host e"]
    by (cases "segments (Host e)") auto
qed

text \<open>
  Under negotiated limits the two sides agree on what may be said: a message valid for
  the limits that both sides negotiated, sent on a connection the receiver knows, arrives as
  an event that is valid under the limits each side advertised.
\<close>

theorem negotiated_message_receivable:
  assumes "NegotiateNetworkLimits a b = Some r" "IsNetworkMessageIntentValid i r" "ConnectionId_IsValid c"
  shows "IsValidTransportEvent (ReceivedMessageEvent c (Delivery i) (Traffic i) (Order i) (Payload i)) a \<and>
    IsValidTransportEvent (ReceivedMessageEvent c (Delivery i) (Traffic i) (Order i) (Payload i)) b"
  using negotiated [OF assms(1)] intent_mono [OF assms(2)] assms(3) event_iff_intent by blast

definition ex_limits :: "nat \<Rightarrow> NetworkLimits" where
  "ex_limits n = \<lparr>MaximumReliableMessageBytes = n, MaximumUnreliableMessageBytes = 100, MaximumQueuedReliableBytes = 1000,
     MaximumInFlightRemoteRequests = 5, MaximumDecodedMessageBytes = 1000, MaximumSendBytesPerTick = 2000,
     MaximumReceiveBytesPerTick = 2000, MaximumMessagesPerTick = 5\<rparr>"

definition ex_intent :: NetworkMessageIntent where
  "ex_intent = \<lparr>Destination = ConnectionId 1 1, Delivery = ReliableOrdered, Traffic = Control, Order = NoOrder, Payload = [1, 2, 3],
     ReliableRetirementToken = 0, ReliableGrantActivatedAtMicroseconds = 0\<rparr>"

theorem negotiated_message_receivable_witness:
  "IsValidTransportEvent (ReceivedMessageEvent (ConnectionId 2 1) ReliableOrdered Control NoOrder [1, 2, 3]) (ex_limits 10) \<and>
   IsValidTransportEvent (ReceivedMessageEvent (ConnectionId 2 1) ReliableOrdered Control NoOrder [1, 2, 3]) (ex_limits 20)"
proof -
  have v: "NetworkLimits_IsValid (ex_limits 10)" "NetworkLimits_IsValid (ex_limits 20)"
    by (simp_all add: NetworkLimits_IsValid_def ex_limits_def native_limits)
  have m: "limits_min (ex_limits 10) (ex_limits 20) = ex_limits 10" by (simp add: limits_min_def ex_limits_def)
  have "NegotiateNetworkLimits (ex_limits 10) (ex_limits 20) = Some (ex_limits 10)"
    using v by (simp add: NegotiateNetworkLimits_def m)
  moreover have "IsNetworkMessageIntentValid ex_intent (ex_limits 10)"
    using v(1) by (simp add: IsNetworkMessageIntentValid_def ValidateIntent_def ex_intent_def ConnectionId_IsValid_def IsValidDeliveryMode_def
        IsValidTrafficClass_def) (simp add: ex_limits_def)
  moreover have "ConnectionId_IsValid (ConnectionId 2 1)" by (simp add: ConnectionId_IsValid_def)
  ultimately show ?thesis
    using negotiated_message_receivable [of "ex_limits 10" "ex_limits 20" "ex_limits 10" ex_intent "ConnectionId 2 1"]
    by (simp add: ex_intent_def)
qed

end
