(* ===== verification/GrantCurve.thy ===== *)
theory GrantCurve imports Prelude begin

text \<open>
  The two service certificates of one accepted structural grant
  (src/network/FiniteGrantServiceCurve.hpp): the F1 curve, which compares what was sent of the
  grant with a demand that grows with time, and the native completion certificate.

  Times are microseconds and products are byte-microseconds, as natural numbers with the 64-bit
  arithmetic of the prelude; a signed balance is an integer. The reference definition is over
  the trace of a grant: the points in time at which an observer saw how much had been sent.
\<close>

section \<open>The finite curve\<close>

definition PeerRateBytesPerSecond :: nat where
  "PeerRateBytesPerSecond = 16 * 1024 * 1024"

definition MaximumGrantBytes :: nat where
  "MaximumGrantBytes = 512 * 1024"

definition StartupMicroseconds :: nat where
  "StartupMicroseconds = 5000"

definition RunningHandoffMicroseconds :: nat where
  "RunningHandoffMicroseconds = 1000"

definition QuantumBytes :: nat where
  "QuantumBytes = 1248"

definition FiniteInterceptByteMicroseconds :: nat where
  "FiniteInterceptByteMicroseconds =
     PeerRateBytesPerSecond * (StartupMicroseconds + RunningHandoffMicroseconds) + QuantumBytes * 1000000"

definition RunningBoundByteMicroseconds :: nat where
  "RunningBoundByteMicroseconds = PeerRateBytesPerSecond * RunningHandoffMicroseconds + QuantumBytes * 1000000"

lemmas curve_constants = PeerRateBytesPerSecond_def MaximumGrantBytes_def StartupMicroseconds_def
  RunningHandoffMicroseconds_def QuantumBytes_def FiniteInterceptByteMicroseconds_def RunningBoundByteMicroseconds_def

definition s64_max :: nat where
  "s64_max = 2 ^ 63 - 1"

definition to_s64 :: "nat \<Rightarrow> int" where
  "to_s64 n = (if n \<le> s64_max then int n else int n - 2 ^ 64)"

definition to_u64 :: "int \<Rightarrow> nat" where
  "to_u64 i = nat (i mod 2 ^ 64)"

definition ZeroFirstSendBreach :: "nat \<Rightarrow> nat \<Rightarrow> bool" where
  "ZeroFirstSendBreach activatedAt firstAt =
     (if activatedAt = 0 \<or> activatedAt = u64_max \<or> firstAt < activatedAt then False
      else
        (let elapsed = sub64 firstAt activatedAt
         in elapsed \<le> u64_max div PeerRateBytesPerSecond \<and>
            mul64 elapsed PeerRateBytesPerSecond > FiniteInterceptByteMicroseconds))"

record FiniteGrantServiceCurve =
  Invalid :: bool
  ServiceFailed :: bool
  GrantFailed :: bool
  LastGrantFailed :: bool
  EverFailed :: bool
  ActiveToken :: nat
  LastToken :: nat
  GrantBytes :: nat
  FirstSentBytes :: nat
  ActivatedAtMicroseconds :: nat
  FirstSentAtMicroseconds :: nat
  CompletedAtMicroseconds :: nat
  QualifiedRunningMicroseconds :: nat
  CurrentRunningDeficitByteMicroseconds :: nat
  MaximumRunningDeficitByteMicroseconds :: nat
  MaximumFiniteShortfallByteMicroseconds :: nat
  HasFirstSend :: bool
  LastObservedAtMicroseconds :: nat
  MinimumRunningBalanceByteMicroseconds :: int
  FirstSentBytesAtFirstEvent :: nat

definition new_FiniteGrantServiceCurve :: FiniteGrantServiceCurve where
  "new_FiniteGrantServiceCurve =
     \<lparr>Invalid = False, ServiceFailed = False, GrantFailed = False, LastGrantFailed = False, EverFailed = False,
      ActiveToken = 0, LastToken = 0, GrantBytes = 0, FirstSentBytes = 0, ActivatedAtMicroseconds = 0,
      FirstSentAtMicroseconds = 0, CompletedAtMicroseconds = 0, QualifiedRunningMicroseconds = 0,
      CurrentRunningDeficitByteMicroseconds = 0, MaximumRunningDeficitByteMicroseconds = 0,
      MaximumFiniteShortfallByteMicroseconds = 0, HasFirstSend = False, LastObservedAtMicroseconds = 0,
      MinimumRunningBalanceByteMicroseconds = 0, FirstSentBytesAtFirstEvent = 0\<rparr>"

definition Activate :: "nat \<Rightarrow> nat \<Rightarrow> nat \<Rightarrow> FiniteGrantServiceCurve \<Rightarrow> bool \<times> FiniteGrantServiceCurve" where
  "Activate token bytes now c =
     (if Invalid c \<or> token = 0 \<or> token \<le> LastToken c \<or> bytes = 0 \<or> bytes > MaximumGrantBytes \<or>
         (ActiveToken c \<noteq> 0 \<and> FirstSentBytes c \<noteq> GrantBytes c) \<or>
         (ActiveToken c \<noteq> 0 \<and> now < LastObservedAtMicroseconds c)
      then (False, c\<lparr>Invalid := True\<rparr>)
      else (True, c\<lparr>ActiveToken := token, LastToken := token, GrantBytes := bytes, FirstSentBytes := 0,
              ActivatedAtMicroseconds := now, FirstSentAtMicroseconds := 0, CompletedAtMicroseconds := 0,
              QualifiedRunningMicroseconds := 0, CurrentRunningDeficitByteMicroseconds := 0,
              MaximumRunningDeficitByteMicroseconds := 0, MaximumFiniteShortfallByteMicroseconds := 0,
              MinimumRunningBalanceByteMicroseconds := 0, FirstSentBytesAtFirstEvent := 0, HasFirstSend := False,
              LastGrantFailed := GrantFailed c, GrantFailed := False, ServiceFailed := False,
              LastObservedAtMicroseconds := now\<rparr>))"

definition fail_grant :: "FiniteGrantServiceCurve \<Rightarrow> FiniteGrantServiceCurve" where
  "fail_grant c = c\<lparr>GrantFailed := True, ServiceFailed := True, EverFailed := True\<rparr>"

definition CheckRunning :: "nat \<Rightarrow> FiniteGrantServiceCurve \<Rightarrow> bool \<times> FiniteGrantServiceCurve" where
  "CheckRunning now c =
     (let elapsed = sub64 now (FirstSentAtMicroseconds c);
          served = mul64 (sub64 (FirstSentBytes c) (FirstSentBytesAtFirstEvent c)) 1000000
      in if elapsed > s64_max div PeerRateBytesPerSecond then (False, c\<lparr>Invalid := True\<rparr>)
         else
           (let balance = to_s64 (mul64 elapsed PeerRateBytesPerSecond) - to_s64 served;
                c1 = (if balance > MinimumRunningBalanceByteMicroseconds c then
                        (let deficit = sub64 (to_u64 balance) (to_u64 (MinimumRunningBalanceByteMicroseconds c));
                             d = c\<lparr>CurrentRunningDeficitByteMicroseconds := deficit\<rparr>;
                             e = (if deficit > MaximumRunningDeficitByteMicroseconds d
                                  then d\<lparr>MaximumRunningDeficitByteMicroseconds := deficit\<rparr> else d)
                         in if deficit > RunningBoundByteMicroseconds then fail_grant e else e)
                      else c\<lparr>MinimumRunningBalanceByteMicroseconds := balance, CurrentRunningDeficitByteMicroseconds := 0\<rparr>);
                c2 = c1\<lparr>QualifiedRunningMicroseconds := elapsed\<rparr>
            in (\<not> GrantFailed c2, c2)))"

definition Observe :: "nat \<Rightarrow> FiniteGrantServiceCurve \<Rightarrow> bool \<times> FiniteGrantServiceCurve" where
  "Observe now c =
     (if Invalid c \<or> ActiveToken c = 0 \<or> now < LastObservedAtMicroseconds c then (False, c\<lparr>Invalid := True\<rparr>)
      else if FirstSentBytes c = GrantBytes c then (\<not> GrantFailed c, c\<lparr>LastObservedAtMicroseconds := now\<rparr>)
      else
        (let elapsed = sub64 now (ActivatedAtMicroseconds c)
         in if elapsed > u64_max div PeerRateBytesPerSecond then (False, c\<lparr>Invalid := True\<rparr>)
            else
              (let accrued = mul64 elapsed PeerRateBytesPerSecond;
                   finiteDemand = (if accrued > FiniteInterceptByteMicroseconds
                                   then sub64 accrued FiniteInterceptByteMicroseconds else 0);
                   limitedDemand = (if finiteDemand < mul64 (GrantBytes c) 1000000 then finiteDemand
                                    else mul64 (GrantBytes c) 1000000);
                   served = mul64 (FirstSentBytes c) 1000000;
                   c1 = (if limitedDemand > served then
                           (let shortfall = sub64 limitedDemand served;
                                d = (if shortfall > MaximumFiniteShortfallByteMicroseconds c
                                     then c\<lparr>MaximumFiniteShortfallByteMicroseconds := shortfall\<rparr> else c)
                            in fail_grant d)
                         else c);
                   c2 = (if HasFirstSend c1 then snd (CheckRunning now c1) else c1);
                   c3 = c2\<lparr>LastObservedAtMicroseconds := now\<rparr>
               in (\<not> GrantFailed c3, c3))))"

definition FirstSend :: "nat \<Rightarrow> nat \<Rightarrow> nat \<Rightarrow> FiniteGrantServiceCurve \<Rightarrow> bool \<times> FiniteGrantServiceCurve" where
  "FirstSend token bytes now c =
     (if Invalid c \<or> ActiveToken c = 0 \<or> token \<noteq> ActiveToken c \<or> bytes = 0 \<or>
         bytes > sub64 (GrantBytes c) (FirstSentBytes c) \<or> now < LastObservedAtMicroseconds c
      then (False, c\<lparr>Invalid := True\<rparr>)
      else
        (let c1 = snd (Observe now c)
         in if Invalid c1 then (False, c1)
            else
              (let c2 = (if \<not> HasFirstSend c1
                         then c1\<lparr>HasFirstSend := True, FirstSentAtMicroseconds := now, FirstSentBytesAtFirstEvent := bytes,
                                MinimumRunningBalanceByteMicroseconds := 0\<rparr> else c1);
                   c3 = c2\<lparr>FirstSentBytes := add64 (FirstSentBytes c2) bytes\<rparr>
               in if FirstSentBytes c3 = GrantBytes c3
                  then (let c4 = c3\<lparr>CompletedAtMicroseconds := now, CurrentRunningDeficitByteMicroseconds := 0\<rparr>
                        in (\<not> GrantFailed c4, c4))
                  else (case CheckRunning now c3 of
                      (False, c4) \<Rightarrow> (False, c4)
                    | (True, c4) \<Rightarrow> (\<not> GrantFailed c4, c4)))))"

section \<open>The native completion certificate\<close>

definition CompletionBudgetByteMicroseconds :: nat where
  "CompletionBudgetByteMicroseconds = PeerRateBytesPerSecond * 6000 + (MaximumGrantBytes + 1248) * 1000000"

record NativeGrantCompletionCurve =
  NInvalid :: bool
  NGrantFailed :: bool
  NEverFailed :: bool
  NHasFirstSend :: bool
  NActiveToken :: nat
  NLastToken :: nat
  NGrantBytes :: nat
  NFirstSentBytes :: nat
  NActivatedAt :: nat
  NFirstSentAt :: nat
  NCompletedAt :: nat
  NLastObservedAt :: nat

definition new_NativeGrantCompletionCurve :: NativeGrantCompletionCurve where
  "new_NativeGrantCompletionCurve =
     \<lparr>NInvalid = False, NGrantFailed = False, NEverFailed = False, NHasFirstSend = False, NActiveToken = 0, NLastToken = 0,
      NGrantBytes = 0, NFirstSentBytes = 0, NActivatedAt = 0, NFirstSentAt = 0, NCompletedAt = 0, NLastObservedAt = 0\<rparr>"

definition NActivate :: "nat \<Rightarrow> nat \<Rightarrow> nat \<Rightarrow> NativeGrantCompletionCurve \<Rightarrow> bool \<times> NativeGrantCompletionCurve" where
  "NActivate token bytes at c =
     (if NInvalid c \<or> token = 0 \<or> token \<le> NLastToken c \<or> bytes = 0 \<or> bytes > MaximumGrantBytes \<or> at = 0 \<or> at = u64_max \<or>
         (NActiveToken c \<noteq> 0 \<and> (NFirstSentBytes c \<noteq> NGrantBytes c \<or> at < NLastObservedAt c))
      then (False, c\<lparr>NInvalid := True\<rparr>)
      else (True, c\<lparr>NActiveToken := token, NLastToken := token, NGrantBytes := bytes, NFirstSentBytes := 0,
              NActivatedAt := at, NLastObservedAt := at, NFirstSentAt := 0, NCompletedAt := 0,
              NHasFirstSend := False, NGrantFailed := False\<rparr>))"

definition CheckElapsed :: "nat \<Rightarrow> nat \<Rightarrow> NativeGrantCompletionCurve \<Rightarrow> NativeGrantCompletionCurve" where
  "CheckElapsed elapsed budget c =
     (if elapsed > u64_max div PeerRateBytesPerSecond then c\<lparr>NInvalid := True\<rparr>
      else if mul64 elapsed PeerRateBytesPerSecond > budget then c\<lparr>NGrantFailed := True, NEverFailed := True\<rparr>
      else c)"

definition NObserve :: "nat \<Rightarrow> NativeGrantCompletionCurve \<Rightarrow> bool \<times> NativeGrantCompletionCurve" where
  "NObserve at c =
     (if NInvalid c \<or> NActiveToken c = 0 \<or> at < NLastObservedAt c then (False, c\<lparr>NInvalid := True\<rparr>)
      else
        (let c1 = (if NFirstSentBytes c \<noteq> NGrantBytes c
                   then CheckElapsed (sub64 at (NActivatedAt c)) CompletionBudgetByteMicroseconds c else c);
             c2 = c1\<lparr>NLastObservedAt := at\<rparr>
         in (\<not> NInvalid c2 \<and> \<not> NGrantFailed c2, c2)))"

definition NFirstSend :: "nat \<Rightarrow> nat \<Rightarrow> nat \<Rightarrow> NativeGrantCompletionCurve \<Rightarrow> bool \<times> NativeGrantCompletionCurve" where
  "NFirstSend token bytes at c =
     (if NInvalid c \<or> NActiveToken c = 0 \<or> token \<noteq> NActiveToken c \<or> bytes = 0 \<or>
         bytes > sub64 (NGrantBytes c) (NFirstSentBytes c) \<or> at < NLastObservedAt c
      then (False, c\<lparr>NInvalid := True\<rparr>)
      else
        (let c1 = snd (NObserve at c)
         in if NInvalid c1 then (False, c1)
            else
              (let c2 = (if \<not> NHasFirstSend c1 then c1\<lparr>NHasFirstSend := True, NFirstSentAt := at\<rparr> else c1);
                   c3 = c2\<lparr>NFirstSentBytes := add64 (NFirstSentBytes c2) bytes\<rparr>;
                   c4 = (if NFirstSentBytes c3 = NGrantBytes c3 then c3\<lparr>NCompletedAt := at\<rparr> else c3)
               in (\<not> NGrantFailed c4, c4))))"

section \<open>Traces of a grant\<close>

text \<open>
  A trace is a list of events in order: at a time, so many bytes were first sent, or none, when
  the curve was only observed. A point is a time with the bytes sent until then; an event gives
  the point just before it and, when it sends, the one just after, as long as the grant is not
  complete. The demand of the grant is met on time at a point, and service between two points
  is steady when it does not fall behind the rate by more than the bound.
\<close>

type_synonym grant_event = "nat \<times> nat"

definition run_event :: "nat \<Rightarrow> grant_event \<Rightarrow> FiniteGrantServiceCurve \<Rightarrow> FiniteGrantServiceCurve" where
  "run_event token e c = snd (if snd e = 0 then Observe (fst e) c else FirstSend token (snd e) (fst e) c)"

definition run_grant :: "nat \<Rightarrow> grant_event list \<Rightarrow> FiniteGrantServiceCurve \<Rightarrow> FiniteGrantServiceCurve" where
  "run_grant token es c = fold (run_event token) es c"

definition sent :: "grant_event list \<Rightarrow> nat" where
  "sent es = (\<Sum>e \<leftarrow> es. snd e)"

definition event_points :: "nat \<Rightarrow> nat \<Rightarrow> grant_event \<Rightarrow> (nat \<times> nat) list" where
  "event_points g d e = (if d < g then [(fst e, d)] else []) @ (if snd e \<noteq> 0 \<and> d + snd e < g then [(fst e, d + snd e)] else [])"

fun points :: "nat \<Rightarrow> nat \<Rightarrow> grant_event list \<Rightarrow> (nat \<times> nat) list" where
  "points g d [] = []"
| "points g d (e # es) = event_points g d e @ points g (d + snd e) es"

definition on_time :: "nat \<Rightarrow> nat \<times> nat \<Rightarrow> bool" where
  "on_time a p \<longleftrightarrow> int PeerRateBytesPerSecond * (int (fst p) - int a) - int (snd p) * 1000000 \<le> int FiniteInterceptByteMicroseconds"

definition steady :: "nat \<times> nat \<Rightarrow> nat \<times> nat \<Rightarrow> bool" where
  "steady p q \<longleftrightarrow> int PeerRateBytesPerSecond * (int (fst q) - int (fst p)) - (int (snd q) - int (snd p)) * 1000000
     \<le> int RunningBoundByteMicroseconds"

definition started :: "nat \<times> nat \<Rightarrow> bool" where
  "started p \<longleftrightarrow> snd p \<noteq> 0"

definition served_well :: "nat \<Rightarrow> (nat \<times> nat) list \<Rightarrow> bool" where
  "served_well a ps \<longleftrightarrow> list_all (on_time a) ps \<and> sorted_wrt steady (filter started ps)"

text \<open>The latest time of a trace that the 64-bit products of the code can still represent.\<close>

definition horizon :: "nat \<Rightarrow> nat" where
  "horizon a = a + s64_max div PeerRateBytesPerSecond"

definition admissible :: "nat \<Rightarrow> nat \<Rightarrow> grant_event list \<Rightarrow> bool" where
  "admissible g a es \<longleftrightarrow> sorted (a # map fst es) \<and> (\<forall>e \<in> set es. fst e \<le> horizon a \<and> fst e \<le> u64_max) \<and> sent es \<le> g"

section \<open>The running balance\<close>

definition balance_at :: "nat \<times> nat \<Rightarrow> nat \<times> nat \<Rightarrow> int" where
  "balance_at p0 p = int PeerRateBytesPerSecond * (int (fst p) - int (fst p0)) - (int (snd p) - int (snd p0)) * 1000000"

lemma steady_balance: "steady q p \<longleftrightarrow> balance_at p0 p - balance_at p0 q \<le> int RunningBoundByteMicroseconds"
  by (simp add: steady_def balance_at_def algebra_simps)

definition runs :: "(nat \<times> nat) list \<Rightarrow> FiniteGrantServiceCurve \<Rightarrow> bool" where
  "runs ps c \<longleftrightarrow> ps \<noteq> [] \<and> FirstSentAtMicroseconds c = fst (hd ps) \<and> FirstSentBytesAtFirstEvent c = snd (hd ps) \<and>
     MinimumRunningBalanceByteMicroseconds c = Min (balance_at (hd ps) ` set ps) \<and>
     (\<forall>q \<in> set ps. fst (hd ps) \<le> fst q \<and> snd (hd ps) \<le> snd q \<and> snd q \<le> MaximumGrantBytes)"

lemma runs_observed: "runs ps (c\<lparr>LastObservedAtMicroseconds := t\<rparr>) = runs ps c"
  by (simp add: runs_def)

lemma balance_lower: "fst p0 \<le> fst q \<Longrightarrow> snd q \<le> MaximumGrantBytes \<Longrightarrow> - 1000000000000 \<le> balance_at p0 q"
proof -
  assume q: "fst p0 \<le> fst q" "snd q \<le> MaximumGrantBytes"
  have "0 \<le> int PeerRateBytesPerSecond * (int (fst q) - int (fst p0))" using q(1) by simp
  moreover have "(int (snd q) - int (snd p0)) * 1000000 \<le> 1000000000000" using q(2) by (simp add: MaximumGrantBytes_def)
  ultimately show "- 1000000000000 \<le> balance_at p0 q" by (simp add: balance_at_def)
qed

lemma runs_minimum:
  assumes "runs ps c"
  shows "- 1000000000000 \<le> MinimumRunningBalanceByteMicroseconds c" "MinimumRunningBalanceByteMicroseconds c \<le> 0"
proof -
  have ps: "ps \<noteq> []" "MinimumRunningBalanceByteMicroseconds c = Min (balance_at (hd ps) ` set ps)" using assms by (simp_all add: runs_def)
  have "- 1000000000000 \<le> balance_at (hd ps) q" if "q \<in> set ps" for q
    using assms that by (intro balance_lower) (auto simp: runs_def)
  then show "- 1000000000000 \<le> MinimumRunningBalanceByteMicroseconds c" using ps by simp
  have "balance_at (hd ps) (hd ps) = 0" by (simp add: balance_at_def)
  then show "MinimumRunningBalanceByteMicroseconds c \<le> 0"
    using ps by (metis List.finite_set Min_le finite_imageI hd_in_set imageI)
qed

lemma mod_sub_wrap: "(b mod M + (M - m mod M)) mod M = (b - m) mod (M :: int)"
proof -
  have "b mod M + (M - m mod M) = (b mod M - m mod M) + M" by simp
  then show ?thesis by (simp only: mod_add_self2 mod_diff_eq)
qed

lemma deficit_exact:
  assumes "m < b" "b - m \<le> int u64_max"
  shows "int (sub64 (to_u64 b) (to_u64 m)) = b - m"
proof -
  have "int (sub64 (to_u64 b) (to_u64 m)) = (b mod 2 ^ 64 + (2 ^ 64 - m mod 2 ^ 64)) mod 2 ^ 64"
    by (simp add: sub64_def to_u64_def zmod_int of_nat_diff nat_mod_distrib algebra_simps)
  also have "\<dots> = (b - m) mod 2 ^ 64" by (rule mod_sub_wrap)
  also have "\<dots> = b - m" using assms by (simp add: u64_max_def)
  finally show ?thesis .
qed

definition same_grant :: "FiniteGrantServiceCurve \<Rightarrow> FiniteGrantServiceCurve \<Rightarrow> bool" where
  "same_grant c d \<longleftrightarrow> Invalid d = Invalid c \<and> ActiveToken d = ActiveToken c \<and> GrantBytes d = GrantBytes c \<and>
     FirstSentBytes d = FirstSentBytes c \<and> ActivatedAtMicroseconds d = ActivatedAtMicroseconds c \<and>
     HasFirstSend d = HasFirstSend c \<and> CompletedAtMicroseconds d = CompletedAtMicroseconds c \<and>
     LastObservedAtMicroseconds d = LastObservedAtMicroseconds c"

lemma CheckRunning_runs:
  assumes ps: "runs ps c" and now: "fst (hd ps) \<le> now" "now \<le> u64_max" "now - fst (hd ps) \<le> s64_max div PeerRateBytesPerSecond"
    and d: "snd (hd ps) \<le> FirstSentBytes c" "FirstSentBytes c \<le> MaximumGrantBytes"
  defines "p \<equiv> (now, FirstSentBytes c)" and "c' \<equiv> snd (CheckRunning now c)"
  shows "runs (ps @ [p]) c'" "same_grant c c'" "GrantFailed c' \<longleftrightarrow> GrantFailed c \<or> \<not> (\<forall>q \<in> set ps. steady q p)"
    "fst (CheckRunning now c) \<longleftrightarrow> \<not> GrantFailed c'"
proof -
  let ?m = "MinimumRunningBalanceByteMicroseconds c" and ?b = "balance_at (hd ps) p"
  let ?e = "now - fst (hd ps)" and ?s = "(FirstSentBytes c - snd (hd ps)) * 1000000"
  have first: "FirstSentAtMicroseconds c = fst (hd ps)" "FirstSentBytesAtFirstEvent c = snd (hd ps)"
    and m: "?m = Min (balance_at (hd ps) ` set ps)" "ps \<noteq> []" using ps by (simp_all add: runs_def)
  have er: "?e * PeerRateBytesPerSecond \<le> s64_max"
    using now(3) by (metis div_times_less_eq_dividend le_trans mult_le_mono1)
  have s: "?s \<le> 1000000000000" using d by (simp add: MaximumGrantBytes_def)
  have small: "s64_max \<le> u64_max" "(1000000000000 :: nat) \<le> s64_max" by (simp_all add: s64_max_def u64_max_def)
  have elapsed: "sub64 now (FirstSentAtMicroseconds c) = ?e" using now by (simp add: first sub64_exact)
  have served: "mul64 (sub64 (FirstSentBytes c) (FirstSentBytesAtFirstEvent c)) 1000000 = ?s"
    using d s small by (simp add: first sub64_exact mul64_exact MaximumGrantBytes_def u64_max_def)
  have accrued: "mul64 ?e PeerRateBytesPerSecond = ?e * PeerRateBytesPerSecond" using er small by (intro mul64_exact) simp
  have b: "?b = int (?e * PeerRateBytesPerSecond) - int ?s"
    using now(1) d(1) by (simp add: balance_at_def p_def of_nat_diff algebra_simps)
  then have balance: "to_s64 (?e * PeerRateBytesPerSecond) - to_s64 ?s = ?b"
    using er s small by (simp add: to_s64_def)
  have "int (?e * PeerRateBytesPerSecond) \<le> int s64_max" using er by (simp only: of_nat_le_iff)
  then have "?b \<le> int s64_max" using b by linarith
  then have defi: "int (sub64 (to_u64 ?b) (to_u64 ?m)) = ?b - ?m" if "?m < ?b"
    using that runs_minimum [OF ps] by (intro deficit_exact) (simp_all add: s64_max_def u64_max_def)
  have steady_iff: "(\<forall>q \<in> set ps. steady q p) \<longleftrightarrow> ?b - ?m \<le> int RunningBoundByteMicroseconds"
  proof -
    have "?b - int RunningBoundByteMicroseconds \<le> Min (balance_at (hd ps) ` set ps) \<longleftrightarrow>
        (\<forall>q \<in> set ps. ?b - int RunningBoundByteMicroseconds \<le> balance_at (hd ps) q)"
      using m(2) by simp
    then show ?thesis unfolding steady_balance [of _ p "hd ps"] m(1) by (simp add: algebra_simps)
  qed
  have not_late: "\<not> ?e > s64_max div PeerRateBytesPerSecond" using now(3) by simp
  note eqs = CheckRunning_def Let_def elapsed served accrued balance if_not_P [OF not_late]
  have new_min: "Min (balance_at (hd (ps @ [p])) ` set (ps @ [p])) = min ?m ?b"
    using m by (simp add: min.commute)
  have bounds: "\<forall>q \<in> set (ps @ [p]). fst (hd (ps @ [p])) \<le> fst q \<and> snd (hd (ps @ [p])) \<le> snd q \<and> snd q \<le> MaximumGrantBytes"
    using ps now(1) d m(2) by (auto simp: runs_def p_def)
  show "same_grant c c'" unfolding c'_def eqs same_grant_def by (simp add: fail_grant_def)
  show "fst (CheckRunning now c) \<longleftrightarrow> \<not> GrantFailed c'" unfolding c'_def eqs by simp
  have "MinimumRunningBalanceByteMicroseconds c' = min ?m ?b" "FirstSentAtMicroseconds c' = fst (hd ps)"
    "FirstSentBytesAtFirstEvent c' = snd (hd ps)"
    unfolding c'_def eqs by (simp_all add: fail_grant_def first)
  then show "runs (ps @ [p]) c'" unfolding runs_def new_min using m(2) bounds by simp
  show "GrantFailed c' \<longleftrightarrow> GrantFailed c \<or> \<not> (\<forall>q \<in> set ps. steady q p)"
  proof (cases "?m < ?b")
    case True
    have "sub64 (to_u64 ?b) (to_u64 ?m) > RunningBoundByteMicroseconds \<longleftrightarrow> \<not> ?b - ?m \<le> int RunningBoundByteMicroseconds"
      using defi [OF True] by linarith
    then show ?thesis unfolding c'_def eqs steady_iff using True by (simp add: fail_grant_def)
  next
    case False
    then show ?thesis unfolding c'_def eqs steady_iff by simp
  qed
qed

section \<open>The curve tracks its trace\<close>

definition tracks :: "nat \<Rightarrow> nat \<Rightarrow> nat \<Rightarrow> (nat \<times> nat) list \<Rightarrow> nat \<Rightarrow> FiniteGrantServiceCurve \<Rightarrow> bool" where
  "tracks token g a ps d c \<longleftrightarrow> \<not> Invalid c \<and> ActiveToken c = token \<and> token \<noteq> 0 \<and> GrantBytes c = g \<and> 0 < g \<and> g \<le> MaximumGrantBytes \<and>
     ActivatedAtMicroseconds c = a \<and> FirstSentBytes c = d \<and> d \<le> g \<and> (HasFirstSend c \<longleftrightarrow> d \<noteq> 0) \<and>
     (d \<noteq> 0 \<longrightarrow> d < g \<longrightarrow> runs (filter started ps) c) \<and>
     (GrantFailed c \<longleftrightarrow> \<not> served_well a ps) \<and> a \<le> LastObservedAtMicroseconds c \<and> LastObservedAtMicroseconds c \<le> u64_max \<and>
     (\<forall>p \<in> set ps. a \<le> fst p \<and> fst p \<le> LastObservedAtMicroseconds c \<and> snd p \<le> d)"

lemma sorted_wrt_snoc: "sorted_wrt P (xs @ [x]) \<longleftrightarrow> sorted_wrt P xs \<and> (\<forall>y \<in> set xs. P y x)"
  by (simp add: sorted_wrt_append)

lemma served_well_snoc:
  "served_well a (ps @ [p]) \<longleftrightarrow> served_well a ps \<and> on_time a p \<and> (started p \<longrightarrow> (\<forall>q \<in> set (filter started ps). steady q p))"
  by (auto simp: served_well_def sorted_wrt_snoc)

lemma demand_on_time:
  assumes "a \<le> now" "now \<le> u64_max" "now - a \<le> u64_max div PeerRateBytesPerSecond" "d < g" "g \<le> MaximumGrantBytes"
  shows "sub64 now a = now - a"
    "(let accrued = mul64 (now - a) PeerRateBytesPerSecond;
          finiteDemand = (if accrued > FiniteInterceptByteMicroseconds then sub64 accrued FiniteInterceptByteMicroseconds else 0)
      in (if finiteDemand < mul64 g 1000000 then finiteDemand else mul64 g 1000000)) > mul64 d 1000000 \<longleftrightarrow> \<not> on_time a (now, d)"
proof -
  let ?x = "(now - a) * PeerRateBytesPerSecond"
  have x: "?x \<le> u64_max" using assms(3) by (metis div_times_less_eq_dividend le_trans mult_le_mono1)
  show "sub64 now a = now - a" using assms by (simp add: sub64_exact)
  have e: "mul64 (now - a) PeerRateBytesPerSecond = ?x" "mul64 g 1000000 = g * 1000000" "mul64 d 1000000 = d * 1000000"
    using x assms by (simp_all add: mul64_exact u64_max_def MaximumGrantBytes_def)
  have s: "sub64 ?x FiniteInterceptByteMicroseconds = ?x - FiniteInterceptByteMicroseconds" if "?x > FiniteInterceptByteMicroseconds"
    using that x by (simp add: sub64_exact)
  have "int PeerRateBytesPerSecond * (int now - int a) = int ?x" using assms(1) by (simp add: of_nat_diff)
  then have "\<not> on_time a (now, d) \<longleftrightarrow> \<not> int ?x - int d * 1000000 \<le> int FiniteInterceptByteMicroseconds"
    unfolding on_time_def fst_conv snd_conv by (simp only:)
  then have "\<not> on_time a (now, d) \<longleftrightarrow> ?x > FiniteInterceptByteMicroseconds + d * 1000000"
    by linarith
  then show "(let accrued = mul64 (now - a) PeerRateBytesPerSecond;
          finiteDemand = (if accrued > FiniteInterceptByteMicroseconds then sub64 accrued FiniteInterceptByteMicroseconds else 0)
      in (if finiteDemand < mul64 g 1000000 then finiteDemand else mul64 g 1000000)) > mul64 d 1000000 \<longleftrightarrow> \<not> on_time a (now, d)"
    unfolding e Let_def using s assms(4) by auto
qed

lemma tracks_first:
  assumes t: "tracks token g a ps d c" and d: "d \<noteq> 0" "d < g"
    and now: "LastObservedAtMicroseconds c \<le> now" "now \<le> horizon a"
  defines "p \<equiv> hd (filter started ps)"
  shows "runs (filter started ps) c" "fst p \<le> now" "now - fst p \<le> s64_max div PeerRateBytesPerSecond" "snd p \<le> d"
proof -
  show r: "runs (filter started ps) c" using t d by (simp add: tracks_def)
  then have "filter started ps \<noteq> []" by (simp add: runs_def)
  then have "p \<in> set ps" unfolding p_def using hd_in_set [of "filter started ps"] by auto
  then have "a \<le> fst p" "fst p \<le> LastObservedAtMicroseconds c" "snd p \<le> d" using t by (auto simp: tracks_def)
  then show "fst p \<le> now" "now - fst p \<le> s64_max div PeerRateBytesPerSecond" "snd p \<le> d" using now by (simp_all add: horizon_def)
qed

lemma Observe_open:
  assumes t: "tracks token g a ps d c" and now: "LastObservedAtMicroseconds c \<le> now" "now \<le> u64_max" "now \<le> horizon a" and d: "d < g"
  shows "\<exists>c1. Observe now c = (\<not> GrantFailed ((if HasFirstSend c1 then snd (CheckRunning now c1) else c1)),
           (if HasFirstSend c1 then snd (CheckRunning now c1) else c1)\<lparr>LastObservedAtMicroseconds := now\<rparr>) \<and>
       same_grant c c1 \<and> (GrantFailed c1 \<longleftrightarrow> GrantFailed c \<or> \<not> on_time a (now, d)) \<and> (\<forall>rs. runs rs c \<longrightarrow> runs rs c1)"
proof -
  have c: "\<not> Invalid c" "ActiveToken c \<noteq> 0" "FirstSentBytes c = d" "GrantBytes c = g" "ActivatedAtMicroseconds c = a" "g \<le> MaximumGrantBytes" "a \<le> now"
    using t now by (auto simp: tracks_def)
  have "s64_max div PeerRateBytesPerSecond \<le> u64_max div PeerRateBytesPerSecond"
    by (rule div_le_mono) (simp add: s64_max_def u64_max_def)
  then have h: "now - a \<le> u64_max div PeerRateBytesPerSecond" using now(3) by (simp add: horizon_def)
  note dem = demand_on_time [OF c(7) now(2) h d c(6)]
  define limited where "limited = (let accrued = mul64 (now - a) PeerRateBytesPerSecond;
          finiteDemand = (if accrued > FiniteInterceptByteMicroseconds then sub64 accrued FiniteInterceptByteMicroseconds else 0)
      in (if finiteDemand < mul64 g 1000000 then finiteDemand else mul64 g 1000000))"
  define c1 where "c1 = (if limited > mul64 d 1000000 then
      fail_grant (if sub64 limited (mul64 d 1000000) > MaximumFiniteShortfallByteMicroseconds c
         then c\<lparr>MaximumFiniteShortfallByteMicroseconds := sub64 limited (mul64 d 1000000)\<rparr> else c) else c)"
  have guard: "\<not> (Invalid c \<or> ActiveToken c = 0 \<or> now < LastObservedAtMicroseconds c)" "d \<noteq> g" using c now d by auto
  have "Observe now c = (\<not> GrantFailed ((if HasFirstSend c1 then snd (CheckRunning now c1) else c1)),
           (if HasFirstSend c1 then snd (CheckRunning now c1) else c1)\<lparr>LastObservedAtMicroseconds := now\<rparr>)"
    unfolding Observe_def if_not_P [OF guard(1)] c(3,4,5) if_not_P [OF guard(2)] dem(1) Let_def if_not_P [OF leD [OF h]]
    unfolding limited_def [unfolded Let_def, symmetric] c1_def [symmetric] by simp
  moreover have "same_grant c c1" by (simp add: c1_def same_grant_def fail_grant_def)
  moreover have "GrantFailed c1 \<longleftrightarrow> GrantFailed c \<or> \<not> on_time a (now, d)"
    unfolding dem(2) [folded limited_def, symmetric] by (simp add: c1_def fail_grant_def)
  moreover have "runs rs c \<Longrightarrow> runs rs c1" for rs by (simp add: runs_def c1_def fail_grant_def)
  ultimately show ?thesis by blast
qed

lemma Observe_tracks:
  assumes t: "tracks token g a ps d c" and now: "LastObservedAtMicroseconds c \<le> now" "now \<le> u64_max" "now \<le> horizon a"
  defines "c' \<equiv> snd (Observe now c)"
  shows "tracks token g a (ps @ event_points g d (now, 0)) d c'" "LastObservedAtMicroseconds c' = now"
    "CompletedAtMicroseconds c' = CompletedAtMicroseconds c"
proof -
  have "tracks token g a (ps @ event_points g d (now, 0)) d c' \<and> LastObservedAtMicroseconds c' = now \<and>
      CompletedAtMicroseconds c' = CompletedAtMicroseconds c"
  proof (cases "d < g")
    case False
    then show ?thesis
      using t now by (auto simp: c'_def Observe_def tracks_def event_points_def)
  next
    case True
    obtain c1 where o: "c' = (if HasFirstSend c1 then snd (CheckRunning now c1) else c1)\<lparr>LastObservedAtMicroseconds := now\<rparr>"
      and s: "same_grant c c1" and f: "GrantFailed c1 \<longleftrightarrow> GrantFailed c \<or> \<not> on_time a (now, d)" and r: "\<And>rs. runs rs c \<Longrightarrow> runs rs c1"
      using Observe_open [OF t now True] unfolding c'_def by (metis snd_conv)
    have pts: "\<forall>p \<in> set (ps @ [(now, d)]). a \<le> fst p \<and> fst p \<le> now \<and> snd p \<le> d" using t now by (fastforce simp: tracks_def)
    have c: "\<not> Invalid c" "ActiveToken c = token" "token \<noteq> 0" "GrantBytes c = g" "0 < g" "g \<le> MaximumGrantBytes" "ActivatedAtMicroseconds c = a"
      "FirstSentBytes c = d" "HasFirstSend c \<longleftrightarrow> d \<noteq> 0" "GrantFailed c \<longleftrightarrow> \<not> served_well a ps" "a \<le> now"
      using t now by (auto simp: tracks_def)
    show ?thesis
    proof (cases "d = 0")
      case True
      then have "c' = c1\<lparr>LastObservedAtMicroseconds := now\<rparr>" using o s c(9) by (simp add: same_grant_def)
      then show ?thesis
        using \<open>d < g\<close> True s f c pts now(2)
        by (auto simp: tracks_def same_grant_def event_points_def served_well_snoc started_def)
    next
      case False
      note first = tracks_first [OF t False True now(1,3)]
      have d: "FirstSentBytes c1 = d" "HasFirstSend c1" using s c(8,9) False by (simp_all add: same_grant_def)
      note run = CheckRunning_runs [OF r [OF first(1)] first(2) now(2) first(3), unfolded d(1), OF first(4)]
      have le: "d \<le> MaximumGrantBytes" using True c(6) by simp
      let ?c2 = "snd (CheckRunning now c1)"
      have o': "c' = ?c2\<lparr>LastObservedAtMicroseconds := now\<rparr>" using o d(2) by simp
      have fil: "filter started (ps @ [(now, d)]) = filter started ps @ [(now, d)]" using False by (simp add: started_def)
      have "runs (filter started (ps @ [(now, d)])) c'" using run(1) [OF le] by (simp only: fil o' runs_observed)
      moreover have "GrantFailed c' \<longleftrightarrow> \<not> served_well a (ps @ [(now, d)])"
        using run(3) [OF le] f c(10) False by (auto simp: o' served_well_snoc started_def)
      moreover have "same_grant c1 ?c2" by (rule run(2) [OF le])
      ultimately show ?thesis
        using True False s c pts now(2) by (auto simp: tracks_def same_grant_def event_points_def o')
    qed
  qed
  then show "tracks token g a (ps @ event_points g d (now, 0)) d c'" "LastObservedAtMicroseconds c' = now"
    "CompletedAtMicroseconds c' = CompletedAtMicroseconds c" by blast+
qed

lemma FirstSend_step:
  assumes t: "tracks token g a ps d c" and now: "LastObservedAtMicroseconds c \<le> now" "now \<le> u64_max" "now \<le> horizon a"
    and b: "b \<noteq> 0" "d + b \<le> g"
  defines "c1 \<equiv> snd (Observe now c)"
  defines "c3 \<equiv> (if d = 0 then c1\<lparr>HasFirstSend := True, FirstSentAtMicroseconds := now, FirstSentBytesAtFirstEvent := b,
      MinimumRunningBalanceByteMicroseconds := 0\<rparr> else c1)\<lparr>FirstSentBytes := d + b\<rparr>"
  shows "snd (FirstSend token b now c) =
    (if d + b = g then c3\<lparr>CompletedAtMicroseconds := now, CurrentRunningDeficitByteMicroseconds := 0\<rparr> else snd (CheckRunning now c3))"
proof -
  note o = Observe_tracks(1) [OF t now, folded c1_def]
  have c: "\<not> Invalid c" "ActiveToken c = token" "token \<noteq> 0" "FirstSentBytes c = d" "GrantBytes c = g" "g \<le> MaximumGrantBytes"
    using t by (simp_all add: tracks_def)
  have u: "g \<le> u64_max" using c(6) by (simp add: MaximumGrantBytes_def u64_max_def)
  have c1: "\<not> Invalid c1" "HasFirstSend c1 \<longleftrightarrow> d \<noteq> 0" "FirstSentBytes c1 = d" "GrantBytes c1 = g" using o by (simp_all add: tracks_def)
  have guard: "\<not> (Invalid c \<or> ActiveToken c = 0 \<or> token \<noteq> ActiveToken c \<or> b = 0 \<or> b > sub64 (GrantBytes c) (FirstSentBytes c) \<or>
      now < LastObservedAtMicroseconds c)"
    using c b now u by (simp add: sub64_exact)
  have add: "add64 d b = d + b" using b(2) u by (intro add64_exact) simp
  then have add0: "d = 0 \<Longrightarrow> add64 0 b = b" by simp
  have case_snd: "snd (case r of (False, c4) \<Rightarrow> (False, c4) | (True, c4) \<Rightarrow> (\<not> GrantFailed c4, c4)) = snd r" for r
    by (cases r; cases "fst r") auto
  show ?thesis
    unfolding FirstSend_def if_not_P [OF guard] Let_def c1_def [symmetric] if_not_P [OF c1(1)]
    using c1 add0 by (simp add: c3_def add case_snd)
qed

lemma FirstSend_tracks:
  assumes t: "tracks token g a ps d c" and now: "LastObservedAtMicroseconds c \<le> now" "now \<le> u64_max" "now \<le> horizon a"
    and b: "b \<noteq> 0" "d + b \<le> g"
  defines "c' \<equiv> snd (FirstSend token b now c)"
  shows "tracks token g a (ps @ event_points g d (now, b)) (d + b) c'" "LastObservedAtMicroseconds c' = now"
    "d + b = g \<Longrightarrow> CompletedAtMicroseconds c' = now"
proof -
  define c1 where "c1 = snd (Observe now c)"
  define c3 where "c3 = (if d = 0 then c1\<lparr>HasFirstSend := True, FirstSentAtMicroseconds := now, FirstSentBytesAtFirstEvent := b,
      MinimumRunningBalanceByteMicroseconds := 0\<rparr> else c1)\<lparr>FirstSentBytes := d + b\<rparr>"
  note step = FirstSend_step [OF t now b, folded c1_def, folded c3_def, folded c'_def]
  have dg: "d < g" using b by simp
  let ?ps = "ps @ [(now, d)]"
  have o: "tracks token g a ?ps d c1" "LastObservedAtMicroseconds c1 = now"
    using Observe_tracks(1,2) [OF t now, folded c1_def] dg by (simp_all add: event_points_def)
  have c1: "\<not> Invalid c1" "ActiveToken c1 = token" "token \<noteq> 0" "GrantBytes c1 = g" "0 < g" "g \<le> MaximumGrantBytes"
    "ActivatedAtMicroseconds c1 = a" "FirstSentBytes c1 = d" "HasFirstSend c1 \<longleftrightarrow> d \<noteq> 0" "GrantFailed c1 \<longleftrightarrow> \<not> served_well a ?ps" "a \<le> now"
    using o by (simp_all add: tracks_def)
  have pts: "\<forall>p \<in> set ?ps. a \<le> fst p \<and> fst p \<le> now \<and> snd p \<le> d" using o by (simp add: tracks_def)
  have c3: "same_grant (c1\<lparr>HasFirstSend := True, FirstSentBytes := d + b\<rparr>) c3" "GrantFailed c3 = GrantFailed c1"
    using c1(9) by (simp_all add: c3_def same_grant_def)
  have "tracks token g a (ps @ event_points g d (now, b)) (d + b) c' \<and> LastObservedAtMicroseconds c' = now \<and>
      (d + b = g \<longrightarrow> CompletedAtMicroseconds c' = now)"
  proof (cases "d + b = g")
    case True
    have "c' = c3\<lparr>CompletedAtMicroseconds := now, CurrentRunningDeficitByteMicroseconds := 0\<rparr>" using step True by simp
    then show ?thesis
      using True c3 c1 pts now(2) dg o(2) by (auto simp: tracks_def event_points_def same_grant_def)
  next
    case False
    then have lt: "d + b < g" using b by simp
    let ?p = "(now, d + b)"
    have cr: "c' = snd (CheckRunning now c3)" using step False by simp
    have le: "FirstSentBytes c3 \<le> MaximumGrantBytes" "FirstSentBytes c3 = d + b" using c3 lt c1(6) by (simp_all add: same_grant_def)
    have run: "runs (filter started (?ps @ [?p])) c' \<and> same_grant c3 c' \<and>
        (GrantFailed c' \<longleftrightarrow> GrantFailed c3 \<or> \<not> (\<forall>q \<in> set (filter started ?ps). steady q ?p))"
    proof (cases "d = 0")
      case True
      have none: "filter started ?ps = []" using pts True by (auto simp: filter_empty_conv started_def)
      have r: "runs [?p] c3"
        using True b(1) le by (simp add: runs_def c3_def balance_at_def)
      note run = CheckRunning_runs [OF r _ now(2), folded cr]
      have "runs [?p, ?p] c'" "same_grant c3 c'" "GrantFailed c' \<longleftrightarrow> GrantFailed c3 \<or> \<not> steady ?p ?p"
        using run le by simp_all
      moreover have "steady ?p ?p" by (simp add: steady_def)
      ultimately show ?thesis using none b(1) True by (simp add: runs_def started_def)
    next
      case nz: False
      note first = tracks_first [OF o(1) nz dg _ now(3), unfolded o(2), OF order_refl]
      have r: "runs (filter started ?ps) c3" using first(1) nz by (simp add: runs_def c3_def)
      have "snd (hd (filter started ?ps)) \<le> FirstSentBytes c3" using first(4) le(2) by simp
      note run = CheckRunning_runs [OF r first(2) now(2) first(3) this le(1), folded cr, unfolded le(2)]
      have "filter started (?ps @ [?p]) = filter started ?ps @ [?p]" using b(1) by (simp add: started_def)
      then show ?thesis using run(1-3) by (simp only: simp_thms)
    qed
    have "started ?p" using b(1) by (simp add: started_def)
    moreover have "on_time a ?p" if "served_well a ?ps"
      using that by (simp add: served_well_def on_time_def)
    ultimately have "served_well a (?ps @ [?p]) \<longleftrightarrow> served_well a ?ps \<and> (\<forall>q \<in> set (filter started ?ps). steady q ?p)"
      unfolding served_well_snoc [of a ?ps] by blast
    then have "GrantFailed c' \<longleftrightarrow> \<not> served_well a (?ps @ [?p])" "runs (filter started (?ps @ [?p])) c'" "same_grant c3 c'"
      using run c3(2) c1(10) by blast+
    then show ?thesis
      using lt False c3 c1 pts now(2) dg b o(2) by (auto simp: tracks_def event_points_def same_grant_def)
  qed
  then show "tracks token g a (ps @ event_points g d (now, b)) (d + b) c'" "LastObservedAtMicroseconds c' = now"
    "d + b = g \<Longrightarrow> CompletedAtMicroseconds c' = now" by blast+
qed

section \<open>Whole traces\<close>

lemma sent_simps: "sent [] = 0" "sent (es @ [e]) = sent es + snd e"
  by (simp_all add: sent_def)

lemma points_snoc: "points g d (es @ [e]) = points g d es @ event_points g (d + sent es) e"
  by (induction es arbitrary: d) (simp_all add: sent_def add.assoc)

lemma sorted_le_last: "sorted xs \<Longrightarrow> y \<in> set xs \<Longrightarrow> y \<le> last (xs :: nat list)"
  by (induction xs) auto

lemma admissible_snoc:
  "admissible g a (es @ [e]) \<longleftrightarrow> admissible g a es \<and> last (a # map fst es) \<le> fst e \<and> fst e \<le> horizon a \<and> fst e \<le> u64_max \<and> sent es + snd e \<le> g"
proof -
  have "sorted (a # map fst es @ [fst e]) \<longleftrightarrow> sorted (a # map fst es) \<and> last (a # map fst es) \<le> fst e"
    using sorted_wrt_snoc [of "(\<le>)" "a # map fst es" "fst e"] sorted_le_last [of "a # map fst es"] last_in_set [of "a # map fst es"]
    by (metis append_Cons list.distinct(1) order_trans)
  then show ?thesis by (auto simp: admissible_def sent_simps)
qed

definition completed_in :: "nat \<Rightarrow> (nat \<times> nat) list \<Rightarrow> nat \<Rightarrow> bool" where
  "completed_in g ps t \<longleftrightarrow> (\<exists>d < g. (t, d) \<in> set ps)"

lemma run_grant_tracks:
  assumes "tracks token g a [] 0 c" "LastObservedAtMicroseconds c = a"
  shows "admissible g a es \<Longrightarrow> tracks token g a (points g 0 es) (sent es) (run_grant token es c) \<and>
    LastObservedAtMicroseconds (run_grant token es c) = last (a # map fst es) \<and>
    (sent es = g \<longrightarrow> completed_in g (points g 0 es) (CompletedAtMicroseconds (run_grant token es c)))"
proof (induction es rule: rev_induct)
  case Nil
  then show ?case using assms by (auto simp: run_grant_def sent_simps tracks_def)
next
  case (snoc e es)
  obtain t b where e: "e = (t, b)" by (cases e)
  let ?c = "run_grant token es c"
  have adm: "admissible g a es" "last (a # map fst es) \<le> t" "t \<le> horizon a" "t \<le> u64_max" "sent es + b \<le> g"
    using snoc.prems by (simp_all add: admissible_snoc e)
  have ih: "tracks token g a (points g 0 es) (sent es) ?c" "LastObservedAtMicroseconds ?c \<le> t"
    "sent es = g \<Longrightarrow> completed_in g (points g 0 es) (CompletedAtMicroseconds ?c)"
    using snoc.IH [OF adm(1)] adm(2) by simp_all
  have run: "run_grant token (es @ [e]) c = run_event token e ?c" by (simp add: run_grant_def)
  show ?case
  proof (cases "b = 0")
    case True
    note o = Observe_tracks [OF ih(1,2) adm(4,3)]
    show ?thesis
      using o ih(3) True unfolding run by (auto simp: run_event_def e sent_simps points_snoc completed_in_def)
  next
    case False
    note f = FirstSend_tracks [OF ih(1,2) adm(4,3) False adm(5)]
    have "sent es < g" using False adm(5) by simp
    then have "(t, sent es) \<in> set (event_points g (sent es) (t, b))" by (simp add: event_points_def)
    then show ?thesis
      using f False \<open>sent es < g\<close> unfolding run by (auto simp: run_event_def e sent_simps points_snoc completed_in_def)
  qed
qed

lemma Activate_tracks:
  assumes "Activate token g a c0 = (True, c)" "a \<le> u64_max"
  shows "tracks token g a [] 0 c" "LastObservedAtMicroseconds c = a"
  using assms by (auto simp: Activate_def tracks_def served_well_def split: if_splits)

section \<open>Native traces\<close>

definition run_native_event :: "nat \<Rightarrow> grant_event \<Rightarrow> NativeGrantCompletionCurve \<Rightarrow> NativeGrantCompletionCurve" where
  "run_native_event token e c = snd (if snd e = 0 then NObserve (fst e) c else NFirstSend token (snd e) (fst e) c)"

definition run_native :: "nat \<Rightarrow> grant_event list \<Rightarrow> NativeGrantCompletionCurve \<Rightarrow> NativeGrantCompletionCurve" where
  "run_native token es c = fold (run_native_event token) es c"

definition within_budget :: "nat \<Rightarrow> nat \<times> nat \<Rightarrow> bool" where
  "within_budget a p \<longleftrightarrow> PeerRateBytesPerSecond * (fst p - a) \<le> CompletionBudgetByteMicroseconds"

definition native_tracks :: "nat \<Rightarrow> nat \<Rightarrow> nat \<Rightarrow> (nat \<times> nat) list \<Rightarrow> nat \<Rightarrow> NativeGrantCompletionCurve \<Rightarrow> bool" where
  "native_tracks token g a ps d c \<longleftrightarrow> \<not> NInvalid c \<and> NActiveToken c = token \<and> token \<noteq> 0 \<and> NGrantBytes c = g \<and> g \<le> MaximumGrantBytes \<and>
     NActivatedAt c = a \<and> NFirstSentBytes c = d \<and> d \<le> g \<and> (NGrantFailed c \<longleftrightarrow> \<not> list_all (within_budget a) ps) \<and> a \<le> NLastObservedAt c"

lemma NObserve_tracks:
  assumes t: "native_tracks token g a ps d c" and now: "NLastObservedAt c \<le> now" "now \<le> u64_max" "now \<le> horizon a"
  defines "c' \<equiv> snd (NObserve now c)"
  shows "native_tracks token g a (ps @ event_points g d (now, 0)) d c' \<and> NLastObservedAt c' = now"
proof -
  have a: "a \<le> now" using t now by (simp add: native_tracks_def)
  have "now - a \<le> s64_max div PeerRateBytesPerSecond" using now(3) by (simp add: horizon_def)
  also have "\<dots> \<le> u64_max div PeerRateBytesPerSecond" by (rule div_le_mono) (simp add: s64_max_def u64_max_def)
  finally have h: "now - a \<le> u64_max div PeerRateBytesPerSecond" .
  then have "(now - a) * PeerRateBytesPerSecond \<le> u64_max" by (metis div_times_less_eq_dividend le_trans mult_le_mono1)
  then have e: "sub64 now a = now - a" "mul64 (now - a) PeerRateBytesPerSecond = PeerRateBytesPerSecond * (now - a)"
    using a now(2) by (simp_all add: sub64_exact mul64_exact mult.commute)
  show ?thesis
    using t now h e unfolding c'_def NObserve_def CheckElapsed_def
    by (auto simp: native_tracks_def Let_def event_points_def within_budget_def)
qed

lemma NFirstSend_tracks:
  assumes t: "native_tracks token g a ps d c" and now: "NLastObservedAt c \<le> now" "now \<le> u64_max" "now \<le> horizon a"
    and b: "b \<noteq> 0" "d + b \<le> g"
  defines "c' \<equiv> snd (NFirstSend token b now c)"
  shows "native_tracks token g a (ps @ event_points g d (now, b)) (d + b) c' \<and> NLastObservedAt c' = now"
proof -
  have o: "native_tracks token g a (ps @ [(now, d)]) d (snd (NObserve now c))" "NLastObservedAt (snd (NObserve now c)) = now"
    using NObserve_tracks [OF t now] b by (simp_all add: event_points_def)
  have u: "g \<le> u64_max" using t by (simp add: native_tracks_def MaximumGrantBytes_def u64_max_def)
  then have "sub64 g d = g - d" "add64 d b = d + b" using b t by (simp_all add: sub64_exact add64_exact native_tracks_def)
  then show ?thesis
    using t now b o unfolding c'_def NFirstSend_def
    by (auto simp: native_tracks_def Let_def event_points_def within_budget_def)
qed

lemma run_native_tracks:
  assumes "native_tracks token g a [] 0 c" "NLastObservedAt c = a"
  shows "admissible g a es \<Longrightarrow> native_tracks token g a (points g 0 es) (sent es) (run_native token es c) \<and>
    NLastObservedAt (run_native token es c) = last (a # map fst es)"
proof (induction es rule: rev_induct)
  case Nil
  then show ?case using assms by (simp add: run_native_def sent_simps)
next
  case (snoc e es)
  have adm: "admissible g a es" "last (a # map fst es) \<le> fst e" "fst e \<le> u64_max" "fst e \<le> horizon a" "sent es + snd e \<le> g"
    using snoc.prems by (simp_all add: admissible_snoc)
  have ih: "native_tracks token g a (points g 0 es) (sent es) (run_native token es c)" "NLastObservedAt (run_native token es c) \<le> fst e"
    using snoc.IH [OF adm(1)] adm(2) by simp_all
  have run: "run_native token (es @ [e]) c = run_native_event token e (run_native token es c)" by (simp add: run_native_def)
  show ?case
    using NObserve_tracks [OF ih adm(3,4)] NFirstSend_tracks [OF ih adm(3,4) _ adm(5)]
    unfolding run by (cases e) (auto simp: run_native_event_def sent_simps points_snoc)
qed

lemma NActivate_tracks:
  assumes "NActivate token g a n0 = (True, n)"
  shows "native_tracks token g a [] 0 n" "NLastObservedAt n = a" "a \<noteq> 0"
  using assms by (auto simp: NActivate_def native_tracks_def split: if_splits)

lemma points_le: "p \<in> set (points g d es) \<Longrightarrow> snd p < g"
  by (induction es arbitrary: d) (auto simp: event_points_def split: if_splits)

section \<open>Properties\<close>

text \<open>
  C33. The F1 curve decides exactly the service it is meant to certify. After a successful
  activation, on every trace whose times do not decrease, that stays within the range of the
  64-bit products and sends no more than the grant, the curve stays valid, counts the bytes
  sent, and reports a failure exactly when at some point the demand of the grant was not met
  on time, or between two points after the first send service fell behind the rate by more
  than the bound. Keeping one minimum of the balance is enough to compare all pairs of points.
\<close>

theorem finite_curve_exact:
  assumes "Activate token g a c0 = (True, c)" "a \<le> u64_max" "admissible g a es"
  shows "\<not> Invalid (run_grant token es c) \<and> FirstSentBytes (run_grant token es c) = sent es \<and>
    (GrantFailed (run_grant token es c) \<longleftrightarrow> \<not> served_well a (points g 0 es))"
  using run_grant_tracks [OF Activate_tracks [OF assms(1,2)] assms(3)] by (simp add: tracks_def)

text \<open>
  C34. A grant that is sent completely without a failure was completed within the time in
  which the rate covers its bytes and the intercept.
\<close>

theorem finite_curve_completes_in_time:
  assumes "Activate token g a c0 = (True, c)" "a \<le> u64_max" "admissible g a es"
    and "FirstSentBytes (run_grant token es c) = g" "\<not> GrantFailed (run_grant token es c)"
  shows "PeerRateBytesPerSecond * (CompletedAtMicroseconds (run_grant token es c) - a) < FiniteInterceptByteMicroseconds + g * 1000000"
proof -
  note r = run_grant_tracks [OF Activate_tracks [OF assms(1,2)] assms(3)]
  then have "sent es = g" "served_well a (points g 0 es)" using assms(4,5) by (auto simp: tracks_def)
  then obtain d where d: "d < g" "(CompletedAtMicroseconds (run_grant token es c), d) \<in> set (points g 0 es)"
    using r by (auto simp: completed_in_def)
  then have "on_time a (CompletedAtMicroseconds (run_grant token es c), d)" using \<open>served_well a _\<close> by (auto simp: served_well_def list_all_iff)
  moreover have "a \<le> CompletedAtMicroseconds (run_grant token es c)" using r d(2) by (auto simp: tracks_def)
  ultimately have "int (PeerRateBytesPerSecond * (CompletedAtMicroseconds (run_grant token es c) - a)) \<le>
      int FiniteInterceptByteMicroseconds + int d * 1000000"
    by (simp add: on_time_def of_nat_diff)
  then show ?thesis using d(1) by linarith
qed

text \<open>
  C35. The native completion certificate is implied by the F1 curve: when both are activated
  for the same grant and see the same events, a trace on which the F1 curve does not fail
  does not fail the native one either.
\<close>

theorem native_certificate_weaker:
  assumes "Activate token g a c0 = (True, c)" "NActivate token g a n0 = (True, n)" "a \<le> u64_max" "admissible g a es"
    and "\<not> GrantFailed (run_grant token es c)"
  shows "\<not> NInvalid (run_native token es n) \<and> \<not> NGrantFailed (run_native token es n)"
proof -
  have f: "tracks token g a (points g 0 es) (sent es) (run_grant token es c)"
    using run_grant_tracks [OF Activate_tracks [OF assms(1,3)] assms(4)] by blast
  have n: "native_tracks token g a (points g 0 es) (sent es) (run_native token es n)"
    using run_native_tracks [OF NActivate_tracks(1,2) [OF assms(2)] assms(4)] by blast
  have "within_budget a p" if "p \<in> set (points g 0 es)" for p
  proof -
    have "on_time a p" "a \<le> fst p" "snd p < g" "g \<le> MaximumGrantBytes"
      using that f assms(5) points_le [OF that] by (auto simp: tracks_def served_well_def list_all_iff)
    then have "int (PeerRateBytesPerSecond * (fst p - a)) \<le> int FiniteInterceptByteMicroseconds + int MaximumGrantBytes * 1000000"
      by (simp add: on_time_def of_nat_diff)
    moreover have "CompletionBudgetByteMicroseconds = FiniteInterceptByteMicroseconds + MaximumGrantBytes * 1000000"
      by (simp add: CompletionBudgetByteMicroseconds_def curve_constants)
    ultimately show ?thesis unfolding within_budget_def by linarith
  qed
  then show ?thesis using n by (simp add: native_tracks_def list_all_iff)
qed

text \<open>
  The diagnostic predicate for a first send that comes too late agrees with the curve:
  when nothing was sent since a qualified activation, observing the curve fails exactly when
  the predicate holds, for every time whose product with the rate fits in 64 bits.
\<close>

theorem zero_first_send_breach_exact:
  assumes "Activate token g a c0 = (True, c)" "0 < a" "a \<le> now" "now \<le> u64_max" "now - a \<le> u64_max div PeerRateBytesPerSecond"
  shows "fst (Observe now c) \<longleftrightarrow> \<not> ZeroFirstSendBreach a now"
proof -
  have c: "\<not> Invalid c" "ActiveToken c \<noteq> 0" "FirstSentBytes c = 0" "GrantBytes c = g" "g \<noteq> 0" "g \<le> MaximumGrantBytes"
    "ActivatedAtMicroseconds c = a" "\<not> HasFirstSend c" "\<not> GrantFailed c" "LastObservedAtMicroseconds c = a"
    using assms(1) by (auto simp: Activate_def split: if_splits)
  have "0 < g" using c(5) by simp
  note dem = demand_on_time [OF assms(3-5) this c(6)]
  have guards: "\<not> (Invalid c \<or> ActiveToken c = 0 \<or> now < a)" "0 \<noteq> g" "\<not> now - a > u64_max div PeerRateBytesPerSecond"
    using c assms by auto
  have "fst (Observe now c) \<longleftrightarrow> on_time a (now, 0)"
    unfolding Observe_def c(3,4,7,10) if_not_P [OF guards(1)] if_not_P [OF guards(2)] dem(1) Let_def if_not_P [OF guards(3)]
    using dem(2) c(8,9) by (simp add: fail_grant_def Let_def)
  also have "\<dots> \<longleftrightarrow> \<not> ZeroFirstSendBreach a now"
  proof -
    have "(now - a) * PeerRateBytesPerSecond \<le> u64_max" using assms(5) by (metis div_times_less_eq_dividend le_trans mult_le_mono1)
    then have e: "mul64 (now - a) PeerRateBytesPerSecond = (now - a) * PeerRateBytesPerSecond" by (rule mul64_exact)
    have "on_time a (now, 0) \<longleftrightarrow> (now - a) * PeerRateBytesPerSecond \<le> FiniteInterceptByteMicroseconds"
      using assms(3) by (simp add: on_time_def mult.commute flip: of_nat_diff of_nat_mult)
    moreover have "a = u64_max \<Longrightarrow> now - a = 0" using assms(4) by simp
    ultimately show ?thesis using assms by (auto simp: ZeroFirstSendBreach_def Let_def dem(1) e)
  qed
  finally show ?thesis .
qed

definition ex_curve :: FiniteGrantServiceCurve where
  "ex_curve = snd (Activate 1 2000 1000 new_FiniteGrantServiceCurve)"

definition ex_native :: NativeGrantCompletionCurve where
  "ex_native = snd (NActivate 1 2000 1000 new_NativeGrantCompletionCurve)"

definition ex_events :: "grant_event list" where
  "ex_events = [(1500, 800), (1600, 0), (2100, 1200)]"

lemma ex_activate: "Activate 1 2000 1000 new_FiniteGrantServiceCurve = (True, ex_curve)" "(1000 :: nat) \<le> u64_max" "admissible 2000 1000 ex_events"
  "NActivate 1 2000 1000 new_NativeGrantCompletionCurve = (True, ex_native)"
  by (simp_all add: ex_curve_def ex_native_def Activate_def NActivate_def new_FiniteGrantServiceCurve_def new_NativeGrantCompletionCurve_def
      MaximumGrantBytes_def u64_max_def admissible_def ex_events_def horizon_def s64_max_def PeerRateBytesPerSecond_def sent_def)

lemma ex_served_well: "served_well 1000 (points 2000 0 ex_events)"
  by (simp add: served_well_def ex_events_def event_points_def on_time_def steady_def started_def curve_constants)

lemma ex_run: "FirstSentBytes (run_grant 1 ex_events ex_curve) = 2000 \<and> \<not> GrantFailed (run_grant 1 ex_events ex_curve)"
  using run_grant_tracks [OF Activate_tracks [OF ex_activate(1,2)] ex_activate(3)] ex_served_well
  by (simp add: tracks_def) (simp add: ex_events_def sent_def)

theorem finite_curve_exact_witness:
  "\<not> Invalid (run_grant 1 ex_events ex_curve) \<and> FirstSentBytes (run_grant 1 ex_events ex_curve) = 2000 \<and>
   \<not> GrantFailed (run_grant 1 ex_events ex_curve)"
  using finite_curve_exact [OF ex_activate(1-3)] ex_served_well by (simp add: ex_events_def sent_def)

theorem finite_curve_completes_in_time_witness:
  "PeerRateBytesPerSecond * (CompletedAtMicroseconds (run_grant 1 ex_events ex_curve) - 1000) < FiniteInterceptByteMicroseconds + 2000 * 1000000"
  using finite_curve_completes_in_time [OF ex_activate(1-3)] ex_run by blast

theorem native_certificate_weaker_witness:
  "\<not> NInvalid (run_native 1 ex_events ex_native) \<and> \<not> NGrantFailed (run_native 1 ex_events ex_native)"
  using native_certificate_weaker [OF ex_activate(1,4,2,3)] ex_run by blast

theorem zero_first_send_breach_exact_witness:
  "fst (Observe 1500 ex_curve) \<and> \<not> fst (Observe 2000000 ex_curve)"
proof -
  have "fst (Observe now ex_curve) \<longleftrightarrow> \<not> ZeroFirstSendBreach 1000 now" if "now \<in> {1500, 2000000}" for now
    using that by (intro zero_first_send_breach_exact [OF ex_activate(1)]) (auto simp: u64_max_def PeerRateBytesPerSecond_def)
  moreover have "\<not> ZeroFirstSendBreach 1000 1500" "ZeroFirstSendBreach 1000 2000000"
    by (simp_all add: ZeroFirstSendBreach_def Let_def sub64_def mul64_def u64_max_def curve_constants)
  ultimately show ?thesis by blast
qed

end
