(* ===== verification/CompactFloat.thy ===== *)
theory CompactFloat imports Complex_Main WireValue begin

text \<open>
  Single-precision floats on their bit patterns, and the 16-bit quantisation of compact character
  states in src/network/CharacterProtocol.cpp: what \<open>QuantizeSigned\<close> sends for a component of a
  rotation, a velocity or a floor normal, and what the receiver multiplies it back to.
\<close>

section \<open>Floats\<close>

definition f32_biased :: "f32 \<Rightarrow> nat" where
  "f32_biased b = unat (drop_bit 23 b AND 0xff)"

definition f32_mantissa :: "f32 \<Rightarrow> nat" where
  "f32_mantissa b = unat (b AND 0x7fffff) + (if f32_biased b = 0 then 0 else 2 ^ 23)"

text \<open>The exponent of the unit of the mantissa, plus 149: zero for subnormal numbers.\<close>

definition f32_exponent :: "f32 \<Rightarrow> nat" where
  "f32_exponent b = f32_biased b - 1"

definition f32_negative :: "f32 \<Rightarrow> bool" where
  "f32_negative b \<longleftrightarrow> bit b 31"

definition f32_nan :: "f32 \<Rightarrow> bool" where
  "f32_nan b \<longleftrightarrow> b AND 0x7f800000 = 0x7f800000 \<and> b AND 0x7fffff \<noteq> 0"

definition f32_key :: "f32 \<Rightarrow> int" where
  "f32_key b = (if f32_negative b then - int (unat (b AND 0x7fffffff)) else int (unat b))"

definition f32_le :: "f32 \<Rightarrow> f32 \<Rightarrow> bool" where
  "f32_le a b \<longleftrightarrow> \<not> f32_nan a \<and> \<not> f32_nan b \<and> f32_key a \<le> f32_key b"

definition f32_less :: "f32 \<Rightarrow> f32 \<Rightarrow> bool" where
  "f32_less a b \<longleftrightarrow> \<not> f32_nan a \<and> \<not> f32_nan b \<and> f32_key a < f32_key b"

definition f32_abs :: "f32 \<Rightarrow> f32" where
  "f32_abs b = b AND 0x7fffffff"

text \<open>
  \<open>std::abs(x - 1.0f) <= 1.0e-3f\<close> and \<open>std::abs(x - 1.0f) > 1.0e-3f\<close>: the difference is exact
  near one, and both are false for a NaN.
\<close>

definition near_one :: "f32 \<Rightarrow> bool" where
  "near_one b \<longleftrightarrow> 0x3f7fbe77 \<le> b \<and> b \<le> 0x3f8020c4"

definition off_one :: "f32 \<Rightarrow> bool" where
  "off_one b \<longleftrightarrow> \<not> f32_nan b \<and> \<not> near_one b"

fun bit_length :: "nat \<Rightarrow> nat" where
  "bit_length n = (if n = 0 then 0 else Suc (bit_length (n div 2)))"

text \<open>The 24-bit mantissa nearest to \<open>p\<close>, ties to even, for a positive \<open>p\<close>.\<close>

definition round_half_even :: "nat \<Rightarrow> nat \<Rightarrow> nat" where
  "round_half_even p k =
     (let q = p div 2 ^ k; r = p mod 2 ^ k
      in if r > 2 ^ (k - 1) \<or> (r = 2 ^ (k - 1) \<and> odd q) then q + 1 else q)"

definition rounded_mantissa :: "nat \<Rightarrow> nat" where
  "rounded_mantissa p =
     (let l = bit_length p in if l \<le> 24 then p * 2 ^ (24 - l) else round_half_even p (l - 24))"

text \<open>
  The float nearest to \<open>n * 2 ^ (- s)\<close>, for the integers and scales used below, where it is zero
  or a normal number. A mantissa that rounds up to \<open>2 ^ 24\<close> carries into the exponent.
\<close>

definition float_of_scaled :: "int \<Rightarrow> nat \<Rightarrow> f32" where
  "float_of_scaled n s =
     (if n = 0 then 0
      else (if n < 0 then 0x80000000 else 0) +
        word_of_nat ((bit_length (nat \<bar>n\<bar>) + 126 - s) * 2 ^ 23 + rounded_mantissa (nat \<bar>n\<bar>) - 2 ^ 23))"

section \<open>Quantisation\<close>

text \<open>
  The product of a float and the scale is exact in a double, and \<open>std::round\<close> takes halves away
  from zero.
\<close>

definition round_scaled :: "f32 \<Rightarrow> nat \<Rightarrow> nat" where
  "round_scaled b scale = (2 * (f32_mantissa b * scale * 2 ^ f32_exponent b) + 2 ^ 149) div 2 ^ 150"

definition QuantizeSigned :: "nat \<Rightarrow> f32 \<Rightarrow> u16 option" where
  "QuantizeSigned scale b =
     (if \<not> isfinite32 b then None
      else if round_scaled b scale > 32767 then None
      else Some (if f32_negative b then - word_of_nat (round_scaled b scale) else word_of_nat (round_scaled b scale)))"

text \<open>
  \<open>static_cast<float>(n) * CompactCharacterUnitResolution\<close>, where \<open>1.0f / 32767.0f\<close> is the float
  \<open>8388864 * 2 ^ -38\<close>, and the same with \<open>CompactCharacterVelocityResolution\<close>, which is \<open>2 ^ -6\<close>.
\<close>

definition unit_value :: "u16 \<Rightarrow> f32" where
  "unit_value n = float_of_scaled (sint n * 8388864) 38"

definition velocity_value :: "u16 \<Rightarrow> f32" where
  "velocity_value n = float_of_scaled (sint n) 6"

section \<open>The number a bit pattern stands for\<close>

definition f32_magnitude :: "f32 \<Rightarrow> real" where
  "f32_magnitude b = real (f32_mantissa b) * 2 ^ f32_exponent b / 2 ^ 149"

definition f32_value :: "f32 \<Rightarrow> real" where
  "f32_value b = (if f32_negative b then - f32_magnitude b else f32_magnitude b)"

subsection \<open>Rounding to a mantissa\<close>

declare bit_length.simps [simp del]

lemma bit_length_bounds: "0 < n \<Longrightarrow> 0 < bit_length n \<and> 2 ^ (bit_length n - 1) \<le> n \<and> n < 2 ^ bit_length n"
proof (induction n rule: bit_length.induct)
  case (1 n)
  show ?case
  proof (cases "n div 2 = 0")
    case True
    with 1 have "n = 1" by simp
    then show ?thesis by (simp add: bit_length.simps)
  next
    case False
    let ?l = "bit_length (n div 2)"
    from False 1 have IH: "0 < ?l" "2 ^ (?l - 1) \<le> n div 2" "n div 2 < 2 ^ ?l" by auto
    have "(2 :: nat) ^ ?l = 2 * 2 ^ (?l - 1)" using IH(1) by (cases ?l) simp_all
    moreover have "n = 2 * (n div 2) + n mod 2" "n mod 2 < 2" by simp_all
    ultimately show ?thesis using IH 1 unfolding bit_length.simps [of n] by simp linarith
  qed
qed

lemma bit_length_le: "n < 2 ^ k \<Longrightarrow> bit_length n \<le> k"
proof (cases "n = 0")
  case False
  assume "n < 2 ^ k"
  with bit_length_bounds [of n] False have "(2 :: nat) ^ (bit_length n - 1) < 2 ^ k" by (metis gr_zeroI le_less_trans)
  then have "bit_length n - 1 < k" by simp
  then show ?thesis by simp
qed (simp add: bit_length.simps)

lemma half_power: "0 < k \<Longrightarrow> (2 :: nat) ^ k = 2 * 2 ^ (k - 1)"
  by (cases k) simp_all

text \<open>Rounding to nearest moves a number by at most half a unit of its mantissa.\<close>

lemma round_half_even_near:
  assumes "0 < k"
  shows "round_half_even p k * 2 ^ k \<le> p + 2 ^ (k - 1)" "p \<le> round_half_even p k * 2 ^ k + 2 ^ (k - 1)"
proof -
  define q r where "q = p div 2 ^ k" and "r = p mod 2 ^ k"
  have p: "p = q * 2 ^ k + r" "r < 2 ^ k" unfolding q_def r_def using div_mult_mod_eq [of p "2 ^ k"] by simp_all
  show "round_half_even p k * 2 ^ k \<le> p + 2 ^ (k - 1)" "p \<le> round_half_even p k * 2 ^ k + 2 ^ (k - 1)"
    using p half_power [OF assms] unfolding round_half_even_def Let_def q_def [symmetric] r_def [symmetric]
    by (auto simp: add_mult_distrib)
qed

lemma rounded_mantissa_bounds:
  assumes "0 < p"
  shows "2 ^ 23 \<le> rounded_mantissa p" "rounded_mantissa p \<le> 2 ^ 24"
    "\<bar>real (rounded_mantissa p) * 2 ^ bit_length p - real p * 2 ^ 24\<bar> \<le> (if bit_length p \<le> 24 then 0 else 2 ^ bit_length p / 2)"
proof -
  let ?l = "bit_length p"
  note l = bit_length_bounds [OF assms]
  have "2 ^ 23 \<le> rounded_mantissa p \<and> rounded_mantissa p \<le> 2 ^ 24 \<and>
    \<bar>real (rounded_mantissa p) * 2 ^ ?l - real p * 2 ^ 24\<bar> \<le> (if ?l \<le> 24 then 0 else 2 ^ ?l / 2)"
  proof (cases "?l \<le> 24")
    case True
    have e: "(2 :: nat) ^ 24 = 2 ^ ?l * 2 ^ (24 - ?l)" "(2 :: nat) ^ 23 = 2 ^ (?l - 1) * 2 ^ (24 - ?l)"
      using True l by (simp_all add: power_add [symmetric] del: power_eq_if)
    have q: "rounded_mantissa p = p * 2 ^ (24 - ?l)" using True by (simp add: rounded_mantissa_def Let_def)
    moreover have "real p * 2 ^ (24 - ?l) * 2 ^ ?l = real p * 2 ^ 24"
      using True by (simp add: power_add [symmetric] mult.assoc del: power_eq_if)
    ultimately show ?thesis using True l unfolding q e by (simp add: mult_le_mono1)
  next
    case False
    let ?k = "?l - 24"
    have k: "0 < ?k" using False by simp
    have e: "(2 :: nat) ^ ?l = 2 ^ 24 * 2 ^ ?k" "(2 :: nat) ^ (?l - 1) = 2 ^ 23 * 2 ^ ?k"
      using power_add [of "2 :: nat" 24 ?k] power_add [of "2 :: nat" 23 ?k] False by simp_all
    have q: "rounded_mantissa p = round_half_even p ?k" using False by (simp add: rounded_mantissa_def Let_def)
    note b = round_half_even_near [OF k, of p, folded q]
    have "2 ^ 23 * 2 ^ ?k \<le> p" "p < 2 ^ 24 * 2 ^ ?k" using l e by simp_all
    then have "2 ^ 23 \<le> p div 2 ^ ?k" "p div 2 ^ ?k < 2 ^ 24"
      by (simp_all add: less_eq_div_iff_mult_less_eq div_less_iff_less_mult)
    then have m: "2 ^ 23 \<le> rounded_mantissa p" "rounded_mantissa p \<le> 2 ^ 24" unfolding q round_half_even_def Let_def by auto
    have "\<bar>real (rounded_mantissa p) * 2 ^ ?k - real p\<bar> \<le> 2 ^ ?k / 2"
    proof -
      have "(2 :: real) ^ ?k / 2 = 2 ^ (?k - 1)" using k by (cases ?k) simp_all
      moreover have "real (rounded_mantissa p) * 2 ^ ?k \<le> real p + 2 ^ (?k - 1)" "real p \<le> real (rounded_mantissa p) * 2 ^ ?k + 2 ^ (?k - 1)"
        using of_nat_mono [OF b(1), where 'a = real] of_nat_mono [OF b(2), where 'a = real] by simp_all
      ultimately show ?thesis by linarith
    qed
    then have "\<bar>(real (rounded_mantissa p) * 2 ^ ?k - real p) * 2 ^ 24\<bar> \<le> 2 ^ ?k / 2 * 2 ^ 24"
      unfolding abs_mult by (intro mult_mono) simp_all
    moreover have "(real (rounded_mantissa p) * 2 ^ ?k - real p) * 2 ^ 24 =
        real (rounded_mantissa p) * (2 ^ 24 * 2 ^ ?k) - real p * 2 ^ 24" by (simp only: left_diff_distrib mult.assoc mult.commute [of "2 ^ ?k" "2 ^ 24"])
    moreover have "(2 :: real) ^ ?l = 2 ^ 24 * 2 ^ ?k" using power_add [of "2 :: real" 24 ?k] False by simp
    ultimately show ?thesis using m False by simp
  qed
  then show "2 ^ 23 \<le> rounded_mantissa p" "rounded_mantissa p \<le> 2 ^ 24"
    "\<bar>real (rounded_mantissa p) * 2 ^ ?l - real p * 2 ^ 24\<bar> \<le> (if ?l \<le> 24 then 0 else 2 ^ ?l / 2)" by blast+
qed


subsection \<open>Reading back the bit pattern\<close>

lemma unat_low_bits: "unat (b AND 0x7fffff :: f32) = unat b mod 2 ^ 23"
proof -
  have "b AND 0x7fffff = take_bit 23 b" by (simp add: take_bit_eq_mask mask_eq_exp_minus_1)
  then show ?thesis by (simp add: unat_take_bit)
qed

lemma biased_eq: "f32_biased b = unat b div 2 ^ 23 mod 2 ^ 8"
proof -
  have "drop_bit 23 b AND 0xff = take_bit 8 (drop_bit 23 b)" by (simp add: take_bit_eq_mask mask_eq_exp_minus_1)
  then show ?thesis unfolding f32_biased_def by (simp only: unat_take_bit unat_drop_bit_eq drop_bit_eq_div [where 'a = nat])
qed

lemma negative_eq: "f32_negative b \<longleftrightarrow> odd (unat b div 2 ^ 31)"
  using bit_unsigned_iff [where 'a = nat, of b 31] unfolding f32_negative_def bit_iff_odd [of "unat b"] by simp


text \<open>A sign, a biased exponent and a mantissa in normal form, or the next power of two.\<close>

definition float_pattern :: "bool \<Rightarrow> nat \<Rightarrow> nat \<Rightarrow> f32" where
  "float_pattern neg e q = (if neg then 0x80000000 else 0) + word_of_nat (e * 2 ^ 23 + q - 2 ^ 23)"

lemma float_pattern_parts:
  assumes "1 \<le> e" "e \<le> 253" "2 ^ 23 \<le> q" "q \<le> 2 ^ 24"
  shows "f32_negative (float_pattern neg e q) = neg" "f32_magnitude (float_pattern neg e q) = real q * 2 ^ (e - 1) / 2 ^ 149"
    "isfinite32 (float_pattern neg e q)"
proof -
  let ?b = "float_pattern neg e q" and ?n = "e * 2 ^ 23 + q - 2 ^ 23"
  obtain f where f: "q = 2 ^ 23 + f" "f \<le> 2 ^ 23" using assms(3,4) le_Suc_ex by fastforce
  have n: "?n = e * 2 ^ 23 + f" using f by simp
  have n_lt: "?n < 2 ^ 31" using n f assms(2) by simp
  then have u: "unat ?b = (if neg then 2 ^ 31 else 0) + ?n"
    unfolding float_pattern_def by (auto simp: unat_word_ariths unat_of_nat)
  have d: "unat ?b div 2 ^ 31 = (if neg then 1 else 0)" using u n_lt by auto
  then show "f32_negative ?b = neg" unfolding negative_eq by simp
  have s: "unat ?b = ?n + (if neg then 256 else 0) * 2 ^ 23" using u by simp
  have "?n div 2 ^ 23 < 2 ^ 8" using n_lt by (simp add: less_mult_imp_div_less)
  then have low: "unat ?b mod 2 ^ 23 = ?n mod 2 ^ 23" and biased: "f32_biased ?b = ?n div 2 ^ 23"
    unfolding biased_eq s by (simp_all add: mod_mult_self1 div_mult_self1)
  have parts: "?n div 2 ^ 23 = (if f = 2 ^ 23 then Suc e else e)" "?n mod 2 ^ 23 = (if f = 2 ^ 23 then 0 else f)"
    unfolding n using f(2) by auto
  have e: "(2 :: real) ^ e = 2 * 2 ^ (e - 1)" using assms(1) by (cases e) simp_all
  have "real (f32_mantissa ?b) * 2 ^ f32_exponent ?b = real q * 2 ^ (e - 1)"
    using assms(1) e f(1) unfolding f32_mantissa_def f32_exponent_def unat_low_bits low biased parts by auto
  then show "f32_magnitude ?b = real q * 2 ^ (e - 1) / 2 ^ 149" by (simp add: f32_magnitude_def)
  have "f32_biased ?b \<noteq> 255" using biased parts assms(2) by auto
  moreover have "f32_biased ?b = 255" if "?b AND 0x7f800000 = 0x7f800000"
  proof -
    from that have "drop_bit 23 (?b AND 0x7f800000) = drop_bit 23 (0x7f800000 :: f32)" by (rule arg_cong)
    then have "drop_bit 23 ?b AND 0xff = 0xff" unfolding drop_bit_and by simp
    then show ?thesis unfolding f32_biased_def by simp
  qed
  ultimately show "isfinite32 ?b" unfolding isfinite32_def by blast
qed

lemma float_of_scaled_pattern:
  "n \<noteq> 0 \<Longrightarrow> float_of_scaled n s = float_pattern (n < 0) (bit_length (nat \<bar>n\<bar>) + 126 - s) (rounded_mantissa (nat \<bar>n\<bar>))"
  by (simp add: float_of_scaled_def float_pattern_def)


lemma float_of_scaled_value:
  assumes s: "s \<le> 125" and n: "n \<noteq> 0" and l: "bit_length (nat \<bar>n\<bar>) \<le> 64"
  shows "f32_negative (float_of_scaled n s) = (n < 0)" "isfinite32 (float_of_scaled n s)"
    "\<bar>f32_magnitude (float_of_scaled n s) - real_of_int \<bar>n\<bar> / 2 ^ s\<bar> \<le>
       (if bit_length (nat \<bar>n\<bar>) \<le> 24 then 0 else 2 ^ bit_length (nat \<bar>n\<bar>) / 2 ^ (25 + s))"
proof -
  let ?p = "nat \<bar>n\<bar>"
  let ?l = "bit_length ?p" and ?q = "rounded_mantissa ?p"
  have p: "0 < ?p" "real ?p = real_of_int \<bar>n\<bar>" using n by simp_all
  note q = rounded_mantissa_bounds [OF p(1)]
  have e: "1 \<le> ?l + 126 - s" "?l + 126 - s \<le> 253" using s l by simp_all
  note parts = float_pattern_parts [OF e q(1,2), of "n < 0", folded float_of_scaled_pattern [OF n]]
  show "f32_negative (float_of_scaled n s) = (n < 0)" "isfinite32 (float_of_scaled n s)" by (rule parts)+
  have "?l + 126 - s - 1 = ?l + (125 - s)" using s by simp
  then have "f32_magnitude (float_of_scaled n s) = real ?q * 2 ^ ?l * 2 ^ (125 - s) / 2 ^ 149"
    using parts(2) by (simp add: power_add mult.assoc)
  also have "(2 :: real) ^ 149 = 2 ^ 24 * 2 ^ s * 2 ^ (125 - s)"
    using s by (simp only: power_add [symmetric]) simp
  finally have v: "f32_magnitude (float_of_scaled n s) = real ?q * 2 ^ ?l / (2 ^ 24 * 2 ^ s)" by simp
  have "f32_magnitude (float_of_scaled n s) - real ?p / 2 ^ s = (real ?q * 2 ^ ?l - real ?p * 2 ^ 24) / (2 ^ 24 * 2 ^ s)"
    unfolding v by (simp add: diff_divide_distrib)
  then have "\<bar>f32_magnitude (float_of_scaled n s) - real ?p / 2 ^ s\<bar> =
      \<bar>real ?q * 2 ^ ?l - real ?p * 2 ^ 24\<bar> / (2 ^ 24 * 2 ^ s)" by (simp add: abs_divide)
  also have "\<dots> \<le> (if ?l \<le> 24 then 0 else 2 ^ ?l / 2) / (2 ^ 24 * 2 ^ s)"
    by (rule divide_right_mono [OF q(3)]) simp
  also have "\<dots> = (if ?l \<le> 24 then 0 else 2 ^ ?l / 2 ^ (25 + s))" by (simp add: power_add)
  finally show "\<bar>f32_magnitude (float_of_scaled n s) - real_of_int \<bar>n\<bar> / 2 ^ s\<bar> \<le>
       (if ?l \<le> 24 then 0 else 2 ^ ?l / 2 ^ (25 + s))" unfolding p(2) .
qed

subsection \<open>Rounding to a 16-bit integer\<close>

lemma round_scaled_iff:
  "round_scaled b scale = k \<longleftrightarrow>
     real k - 1 / 2 \<le> f32_magnitude b * real scale \<and> f32_magnitude b * real scale < real k + 1 / 2"
proof -
  define D x :: nat where "D = 2 ^ 149" and "x = f32_mantissa b * scale * 2 ^ f32_exponent b"
  have D: "0 < D" "(2 :: nat) ^ 150 = 2 * D" by (simp_all add: D_def)
  have x: "f32_magnitude b * real scale = real x / real D"
    unfolding x_def D_def f32_magnitude_def by (simp add: mult_ac)
  have "round_scaled b scale = (2 * x + D) div (2 * D)"
    unfolding round_scaled_def D(2) by (simp only: x_def D_def)
  then have "round_scaled b scale = k \<longleftrightarrow> k \<le> (2 * x + D) div (2 * D) \<and> (2 * x + D) div (2 * D) < Suc k" by auto
  also have "\<dots> \<longleftrightarrow> k * (2 * D) \<le> 2 * x + D \<and> 2 * x + D < Suc k * (2 * D)"
    using D(1) by (simp only: less_eq_div_iff_mult_less_eq div_less_iff_less_mult)
  also have "\<dots> \<longleftrightarrow> real (k * (2 * D)) \<le> real (2 * x + D) \<and> real (2 * x + D) < real (Suc k * (2 * D))"
    unfolding of_nat_le_iff of_nat_less_iff ..
  also have "\<dots> \<longleftrightarrow> real k - 1 / 2 \<le> real x / real D \<and> real x / real D < real k + 1 / 2"
    using D(1) by (simp add: field_simps)
  finally show ?thesis unfolding x .
qed


lemma round_scaled_gt: "round_scaled b scale > 32767 \<longleftrightarrow> f32_magnitude b * real scale \<ge> 32767.5"
proof -
  let ?r = "round_scaled b scale"
  have "real ?r - 1 / 2 \<le> f32_magnitude b * real scale" "f32_magnitude b * real scale < real ?r + 1 / 2"
    using round_scaled_iff [of b scale ?r] by simp_all
  moreover have "?r > 32767 \<longleftrightarrow> real ?r \<ge> 32768" "\<not> ?r > 32767 \<longleftrightarrow> real ?r \<le> 32767" by linarith+
  ultimately show ?thesis by (cases "?r > 32767") linarith+
qed

lemma sint_small: "k \<le> 32767 \<Longrightarrow> sint (word_of_nat k :: u16) = int k \<and> sint (- word_of_nat k :: u16) = - int k"
proof -
  assume k: "k \<le> 32767"
  have "sint (word_of_int i :: u16) = i" if "- 32768 \<le> i" "i < 32768" for i
    using that by (simp add: sint_sbintrunc' signed_take_bit_int_eq_self)
  from this [of "int k"] this [of "- int k"] k show ?thesis by simp
qed

lemma sint_bounds: "(n :: u16) \<noteq> 0x8000 \<Longrightarrow> \<bar>sint n\<bar> \<le> 32767"
proof -
  assume n: "n \<noteq> 0x8000"
  have "- 32768 \<le> sint n" "sint n < 32768" using sint_greater_eq [of n] sint_less [of n] by simp_all
  moreover have "sint n \<noteq> - 32768"
  proof
    assume "sint n = - 32768"
    then have "word_of_int (sint n) = (word_of_int (- 32768) :: u16)" by simp
    then have "n = 0x8000" by simp
    with n show False ..
  qed
  ultimately show ?thesis by linarith
qed

lemma QuantizeSigned_Some:
  "QuantizeSigned scale b = Some n \<longleftrightarrow> isfinite32 b \<and> round_scaled b scale \<le> 32767 \<and> n \<noteq> 0x8000 \<and>
     sint n = (if f32_negative b then - int (round_scaled b scale) else int (round_scaled b scale))"
proof (cases "isfinite32 b \<and> round_scaled b scale \<le> 32767")
  case True
  define w :: u16 where "w = (if f32_negative b then - word_of_nat (round_scaled b scale) else word_of_nat (round_scaled b scale))"
  have w: "sint w = (if f32_negative b then - int (round_scaled b scale) else int (round_scaled b scale))"
    using True sint_small unfolding w_def by simp
  moreover have "sint (0x8000 :: u16) = - 32768" by simp
  ultimately have "w \<noteq> 0x8000" using True by (auto split: if_splits)
  moreover have "QuantizeSigned scale b = Some w" using True by (simp add: QuantizeSigned_def w_def)
  moreover have "word_of_int (sint x) = x" for x :: u16 by simp
  then have "n = w \<longleftrightarrow> sint n = sint w" by metis
  ultimately show ?thesis using True w by auto
qed (auto simp: QuantizeSigned_def)


lemma requantized:
  assumes n: "(n :: u16) \<noteq> 0x8000" and b: "sint n \<noteq> 0 \<Longrightarrow> f32_negative b = (sint n < 0)" "isfinite32 b"
    and near: "\<bar>f32_magnitude b * real scale - \<bar>real_of_int (sint n)\<bar>\<bar> < 1 / 2"
  shows "QuantizeSigned scale b = Some n"
proof -
  define i where "i = sint n"
  have "real (nat \<bar>i\<bar>) = \<bar>real_of_int i\<bar>" by simp
  then have "round_scaled b scale = nat \<bar>i\<bar>"
    unfolding round_scaled_iff using near unfolding i_def [symmetric] by linarith
  then have "round_scaled b scale = nat \<bar>sint n\<bar>" unfolding i_def .
  moreover have "\<bar>sint n\<bar> \<le> 32767" by (rule sint_bounds [OF n])
  ultimately show ?thesis
    unfolding QuantizeSigned_Some using n b by (cases "sint n = 0") auto
qed

lemma quantized_near:
  assumes "QuantizeSigned scale b = Some n"
  shows "\<bar>f32_value b * real scale - real_of_int (sint n)\<bar> \<le> 1 / 2"
proof -
  have "real (round_scaled b scale) - 1 / 2 \<le> f32_magnitude b * real scale"
    "f32_magnitude b * real scale < real (round_scaled b scale) + 1 / 2"
    using round_scaled_iff [of b scale "round_scaled b scale"] by simp_all
  moreover have "sint n = (if f32_negative b then - int (round_scaled b scale) else int (round_scaled b scale))"
    using assms unfolding QuantizeSigned_Some by blast
  then have "real_of_int (sint n) = (if f32_negative b then - real (round_scaled b scale) else real (round_scaled b scale))"
    by (simp only:) simp
  ultimately show ?thesis
    unfolding f32_value_def abs_le_iff by (cases "f32_negative b") (simp_all only: if_True if_False mult_minus_left, linarith+)
qed

lemma float_zero: "f32_value 0 = 0" "f32_magnitude 0 = 0" "isfinite32 0"
  by (simp_all add: f32_value_def f32_magnitude_def f32_mantissa_def f32_biased_def isfinite32_def)

text \<open>A value with the sign of an integer, whose magnitude is near that of another number with that sign.\<close>

lemma signed_near:
  assumes "n \<noteq> 0 \<Longrightarrow> f32_negative b = (n < 0)" "\<bar>f32_magnitude b - \<bar>real_of_int n\<bar> * c\<bar> \<le> d"
  shows "\<bar>f32_value b - real_of_int n * c\<bar> \<le> d"
  using assms by (cases "n = 0"; cases "n < 0") (auto simp: f32_value_def abs_le_iff)

lemma velocity_exact:
  assumes "n \<noteq> 0x8000"
  shows "sint n \<noteq> 0 \<Longrightarrow> f32_negative (velocity_value n) = (sint n < 0)" "isfinite32 (velocity_value n)"
    "f32_magnitude (velocity_value n) = \<bar>real_of_int (sint n)\<bar> / 64"
proof -
  have "bit_length (nat \<bar>sint n\<bar>) \<le> 15" using sint_bounds [OF assms] by (intro bit_length_le) simp
  then show "sint n \<noteq> 0 \<Longrightarrow> f32_negative (velocity_value n) = (sint n < 0)" "isfinite32 (velocity_value n)"
    "f32_magnitude (velocity_value n) = \<bar>real_of_int (sint n)\<bar> / 64"
    using float_of_scaled_value [of 6 "sint n"] unfolding velocity_value_def
    by (cases "sint n = 0"; simp add: float_zero float_of_scaled_def [of 0])+
qed

lemma unit_near:
  assumes "n \<noteq> 0x8000"
  shows "sint n \<noteq> 0 \<Longrightarrow> f32_negative (unit_value n) = (sint n < 0)" "isfinite32 (unit_value n)"
    "\<bar>f32_magnitude (unit_value n) - \<bar>real_of_int (sint n)\<bar> / 32767\<bar> \<le> 1 / 2 ^ 25 + 1 / 2 ^ 30"
proof -
  let ?n = "sint n * 8388864"
  have k: "\<bar>sint n\<bar> \<le> 32767" by (rule sint_bounds [OF assms])
  then have "\<bar>?n\<bar> \<le> 32767 * 8388864" by (simp add: abs_mult)
  then have l: "bit_length (nat \<bar>?n\<bar>) \<le> 38" by (intro bit_length_le) simp
  show "sint n \<noteq> 0 \<Longrightarrow> f32_negative (unit_value n) = (sint n < 0)"
    using float_of_scaled_value(1) [of 38 ?n] l unfolding unit_value_def by simp
  show "isfinite32 (unit_value n)"
    using float_of_scaled_value(2) [of 38 ?n] l unfolding unit_value_def
    by (cases "sint n = 0") (simp_all add: float_zero float_of_scaled_def [of 0])
  have "\<bar>f32_magnitude (unit_value n) - \<bar>real_of_int (sint n)\<bar> * 8388864 / 2 ^ 38\<bar> \<le> 1 / 2 ^ 25"
  proof (cases "sint n = 0")
    case False
    have "(2 :: real) ^ bit_length (nat \<bar>?n\<bar>) \<le> 2 ^ 38" using l by (intro power_increasing) simp_all
    then have "(if bit_length (nat \<bar>?n\<bar>) \<le> 24 then 0 else 2 ^ bit_length (nat \<bar>?n\<bar>) / 2 ^ (25 + 38)) \<le> (1 / 2 ^ 25 :: real)"
      by (simp add: field_simps)
    with float_of_scaled_value(3) [of 38 ?n] l False show ?thesis unfolding unit_value_def by (simp add: abs_mult)
  qed (simp add: unit_value_def float_of_scaled_def float_zero)
  moreover have "\<bar>\<bar>real_of_int i\<bar> * 8388864 / 2 ^ 38 - \<bar>real_of_int i\<bar> / 32767\<bar> \<le> 1 / 2 ^ 30" if "\<bar>i\<bar> \<le> 32767" for i
  proof -
    have "x * 8388864 / 2 ^ 38 - x / 32767 \<le> 1 / 2 ^ 30 \<and> - (x * 8388864 / 2 ^ 38 - x / 32767) \<le> 1 / 2 ^ 30"
      if "0 \<le> x" "x \<le> 32767" for x :: real
      using that by (simp add: field_simps)
    from this [of "\<bar>real_of_int i\<bar>"] that show ?thesis unfolding abs_le_iff [of "_ - _"] by linarith
  qed
  note this [OF k]
  ultimately show "\<bar>f32_magnitude (unit_value n) - \<bar>real_of_int (sint n)\<bar> / 32767\<bar> \<le> 1 / 2 ^ 25 + 1 / 2 ^ 30"
    by linarith
qed


text \<open>What a receiver multiplies back quantises to the integer that was sent.\<close>

lemma velocity_requantized:
  assumes "n \<noteq> 0x8000"
  shows "QuantizeSigned 64 (velocity_value n) = Some n"
  by (rule requantized [OF assms velocity_exact(1,2) [OF assms]], assumption) (unfold velocity_exact(3) [OF assms], simp)

lemma unit_requantized:
  assumes "n \<noteq> 0x8000"
  shows "QuantizeSigned 32767 (unit_value n) = Some n"
proof (rule requantized [OF assms unit_near(1,2) [OF assms]])
  have "\<bar>(x - y / 32767) * 32767\<bar> < 1 / 2" if "\<bar>x - y / 32767\<bar> \<le> 1 / 2 ^ 25 + 1 / 2 ^ 30" for x y :: real
  proof -
    from that have "\<bar>x - y / 32767\<bar> * \<bar>32767\<bar> \<le> (1 / 2 ^ 25 + 1 / 2 ^ 30) * 32767" by (intro mult_mono) simp_all
    then show ?thesis unfolding abs_mult by (rule le_less_trans) simp
  qed
  from this [OF unit_near(3) [OF assms]]
  show "\<bar>f32_magnitude (unit_value n) * real 32767 - \<bar>real_of_int (sint n)\<bar>\<bar> < 1 / 2"
    by (simp add: left_diff_distrib)
qed

lemma velocity_error:
  assumes "QuantizeSigned 64 b = Some n"
  shows "\<bar>f32_value (velocity_value n) - f32_value b\<bar> \<le> 1 / 128"
proof -
  have n: "n \<noteq> 0x8000" using assms unfolding QuantizeSigned_Some by blast
  have "\<bar>f32_magnitude (velocity_value n) - \<bar>real_of_int (sint n)\<bar> * (1 / 64)\<bar> \<le> 0"
    unfolding velocity_exact(3) [OF n] by simp
  from signed_near [OF velocity_exact(1) [OF n] this] have "f32_value (velocity_value n) = real_of_int (sint n) * (1 / 64)" by simp
  moreover have "\<bar>i * (1 / 64) - y\<bar> \<le> 1 / 128" if "\<bar>y * real 64 - i\<bar> \<le> 1 / 2" for y i :: real
    using that unfolding abs_le_iff by simp
  from this [OF quantized_near [OF assms]]
  have "\<bar>real_of_int (sint n) * (1 / 64) - f32_value b\<bar> \<le> 1 / 128" .
  ultimately show ?thesis by (simp only:)
qed

lemma unit_error:
  assumes "QuantizeSigned 32767 b = Some n"
  shows "\<bar>f32_value (unit_value n) - f32_value b\<bar> \<le> 1 / 65000"
proof -
  have n: "n \<noteq> 0x8000" using assms unfolding QuantizeSigned_Some by blast
  have "\<bar>f32_magnitude (unit_value n) - \<bar>real_of_int (sint n)\<bar> * (1 / 32767)\<bar> \<le> 1 / 2 ^ 25 + 1 / 2 ^ 30"
    using unit_near(3) [OF n] by simp
  note near = signed_near [OF unit_near(1) [OF n] this]
  have "\<bar>x - y\<bar> \<le> 1 / 65000" if x: "\<bar>x - i * (1 / 32767)\<bar> \<le> 1 / 2 ^ 25 + 1 / 2 ^ 30" and y: "\<bar>y * real 32767 - i\<bar> \<le> 1 / 2" for x y i :: real
  proof -
    have "\<bar>i * (1 / 32767) - y\<bar> \<le> 1 / 65534" using y unfolding abs_le_iff by simp
    with x have "\<bar>x - y\<bar> \<le> 1 / 2 ^ 25 + 1 / 2 ^ 30 + 1 / 65534" by linarith
    then show ?thesis by simp
  qed
  from this [OF near quantized_near [OF assms]] show ?thesis .
qed

section \<open>Properties\<close>

text \<open>
  C37. Quantisation of compact states. A finite number is refused exactly when its scaled
  magnitude rounds above 32767. A velocity component that is sent arrives within 1/128 of its
  value, a component of a rotation or of a floor normal within 1/65000, and what arrives quantises
  to the same 16-bit integer again, so forwarding a received state loses nothing more.
\<close>

theorem compact_quantisation:
  "(QuantizeSigned scale b = None \<longleftrightarrow> \<not> isfinite32 b \<or> f32_magnitude b * real scale \<ge> 32767.5) \<and>
   (QuantizeSigned 64 b = Some n \<longrightarrow> \<bar>f32_value (velocity_value n) - f32_value b\<bar> \<le> 1 / 128 \<and>
      QuantizeSigned 64 (velocity_value n) = Some n) \<and>
   (QuantizeSigned 32767 b = Some n \<longrightarrow> \<bar>f32_value (unit_value n) - f32_value b\<bar> \<le> 1 / 65000 \<and>
      QuantizeSigned 32767 (unit_value n) = Some n)"
proof (intro conjI impI)
  show "QuantizeSigned scale b = None \<longleftrightarrow> \<not> isfinite32 b \<or> f32_magnitude b * real scale \<ge> 32767.5"
    unfolding round_scaled_gt [symmetric] by (simp add: QuantizeSigned_def)
  have n: "n \<noteq> 0x8000" if "QuantizeSigned k b = Some n" for k using that unfolding QuantizeSigned_Some by blast
  show "QuantizeSigned 64 (velocity_value n) = Some n" if "QuantizeSigned 64 b = Some n"
    by (rule velocity_requantized [OF n [OF that]])
  show "QuantizeSigned 32767 (unit_value n) = Some n" if "QuantizeSigned 32767 b = Some n"
    by (rule unit_requantized [OF n [OF that]])
qed (rule velocity_error unit_error, assumption)+

lemma ex_half: "QuantizeSigned 32767 0x3f000000 = Some 0x4000" "QuantizeSigned 64 0x3f000000 = Some 32"
  by (simp_all add: QuantizeSigned_def round_scaled_def f32_mantissa_def f32_exponent_def f32_biased_def f32_negative_def
      isfinite32_def)

theorem compact_quantisation_witness:
  "QuantizeSigned 64 0x3f000000 = Some 32 \<and> QuantizeSigned 64 (velocity_value 32) = Some 32 \<and>
   \<bar>f32_value (unit_value 0x4000) - f32_value 0x3f000000\<bar> \<le> 1 / 65000 \<and> QuantizeSigned 64 0x7f800000 = None"
  using compact_quantisation [of 32767 "0x3f000000" "0x4000"] compact_quantisation [of 64 "0x3f000000" 32]
    compact_quantisation [of 64 "0x7f800000" 0] ex_half
  by (simp add: isfinite32_def)

end
