(* ===== verification/CharacterProtocol.thy ===== *)
theory CharacterProtocol imports CompactFloat ReadCalculus Serialization begin

text \<open>
  The realtime character messages of src/network/CharacterProtocol.cpp: control transitions,
  input commands, action requests and results, full authoritative states, and the compact state
  frames in which rotations, velocities and floor normals travel as 16-bit integers. The glm
  functions the code calls are the fields of a record, an argument of the definitions that
  use them.
\<close>

section \<open>Geometry\<close>

datatype Vec2 = Vec2 (Vec2_x: f32) (Vec2_y: f32)

datatype Vec3 = Vec3 (Vec3_x: f32) (Vec3_y: f32) (Vec3_z: f32)

datatype Quat = Quat (Quat_x: f32) (Quat_y: f32) (Quat_z: f32) (Quat_w: f32)

text \<open>The columns of a \<open>glm::mat3\<close>.\<close>

datatype Mat3 = Mat3 Vec3 Vec3 Vec3

datatype CFrame = CFrame (Place: Vec3) (Rotation: Mat3)

record glm =
  quat_cast :: "Mat3 \<Rightarrow> Quat"
  mat3_cast :: "Quat \<Rightarrow> Mat3"
  normalize :: "Quat \<Rightarrow> Quat"
  quat_length :: "Quat \<Rightarrow> f32"
  vec3_length :: "Vec3 \<Rightarrow> f32"
  vec2_length :: "Vec2 \<Rightarrow> f32"

definition CFrame_default :: CFrame where
  "CFrame_default = CFrame (Vec3 0 0 0)
     (Mat3 (Vec3 0x3f800000 0 0) (Vec3 0 0x3f800000 0) (Vec3 0 0 0x3f800000))"

definition ToQuaternion :: "glm \<Rightarrow> CFrame \<Rightarrow> Quat" where
  "ToQuaternion g c = quat_cast g (Rotation c)"

primrec vec3_list :: "Vec3 \<Rightarrow> f32 list" where
  "vec3_list (Vec3 x y z) = [x, y, z]"

primrec quat_list :: "Quat \<Rightarrow> f32 list" where
  "quat_list (Quat x y z w) = [x, y, z, w]"

definition vec3_of :: "f32 list \<Rightarrow> Vec3" where
  "vec3_of xs = Vec3 (xs ! 0) (xs ! 1) (xs ! 2)"

definition quat_of :: "f32 list \<Rightarrow> Quat" where
  "quat_of xs = Quat (xs ! 0) (xs ! 1) (xs ! 2) (xs ! 3)"

primrec IsFinite_vec2 :: "Vec2 \<Rightarrow> bool" where
  "IsFinite_vec2 (Vec2 x y) \<longleftrightarrow> isfinite32 x \<and> isfinite32 y"

definition IsFinite_vec3 :: "Vec3 \<Rightarrow> bool" where
  "IsFinite_vec3 v \<longleftrightarrow> list_all isfinite32 (vec3_list v)"

primrec IsFinite_mat3 :: "Mat3 \<Rightarrow> bool" where
  "IsFinite_mat3 (Mat3 a b c) \<longleftrightarrow> IsFinite_vec3 a \<and> IsFinite_vec3 b \<and> IsFinite_vec3 c"

definition IsFinite_CFrame :: "glm \<Rightarrow> CFrame \<Rightarrow> bool" where
  "IsFinite_CFrame g c \<longleftrightarrow> IsFinite_vec3 (Place c) \<and> IsFinite_mat3 (Rotation c) \<and>
     list_all isfinite32 (quat_list (ToQuaternion g c)) \<and> near_one (quat_length g (ToQuaternion g c))"

section \<open>Messages\<close>

definition CharacterMagic :: u32 where
  "CharacterMagic = 0x52484347"

definition LegacyCharacterProtocolVersion :: u16 where
  "LegacyCharacterProtocolVersion = 1"

definition CharacterProtocolVersion :: u16 where
  "CharacterProtocolVersion = 4"

definition MaximumCharacterFrameBytes :: nat where
  "MaximumCharacterFrameBytes = 256"

definition MaximumCharacterStateFrameBytes :: nat where
  "MaximumCharacterStateFrameBytes = 1200"

definition MaximumCharacterStatesPerFrame :: nat where
  "MaximumCharacterStatesPerFrame = 15"

definition CompactCharacterStateBytes :: nat where
  "CompactCharacterStateBytes = 74"

definition CompactCharacterActionStateBytes :: nat where
  "CompactCharacterActionStateBytes = 72"

definition CharacterStateFrameHeaderBytes :: nat where
  "CharacterStateFrameHeaderBytes = 34"

definition MaximumCharacterCommandInterval :: f32 where
  "MaximumCharacterCommandInterval = 0x3e800000"

definition MaximumCharacterMoveIntentMagnitude :: f32 where
  "MaximumCharacterMoveIntentMagnitude = 0x3f8020c5"

text \<open>\<open>3.14159265358979323846f\<close> and \<open>1.001f\<close>.\<close>

definition pi_f32 :: f32 where
  "pi_f32 = 0x40490fdb"

definition MaximumFloorNormal :: f32 where
  "MaximumFloorNormal = 0x3f8020c5"

datatype CharacterMessageKind = ControlBind | ControlUnbind | InputKind | ActionRequestKind | StateKind
  | StateFrameKind | ActionResultKind

primrec kind_byte :: "CharacterMessageKind \<Rightarrow> u8" where
  "kind_byte ControlBind = 0"
| "kind_byte ControlUnbind = 1"
| "kind_byte InputKind = 2"
| "kind_byte ActionRequestKind = 3"
| "kind_byte StateKind = 4"
| "kind_byte StateFrameKind = 5"
| "kind_byte ActionResultKind = 6"

definition ValidInputFlags :: u8 where
  "ValidInputFlags = 1"

definition ValidStateFlags :: u8 where
  "ValidStateFlags = 1 OR 2"

datatype AssetId = AssetId (AssetHigh: u64) (AssetLow: u64)

definition AssetId_IsValid :: "AssetId \<Rightarrow> bool" where
  "AssetId_IsValid i \<longleftrightarrow> AssetHigh i \<noteq> 0 \<or> AssetLow i \<noteq> 0"

text \<open>A \<open>std::array<std::uint8_t, 32>\<close>: a list of 32 bytes.\<close>

datatype AssetContentId = AssetContentId (ContentBytes: bytes)

definition AssetContentId_IsValid :: "AssetContentId \<Rightarrow> bool" where
  "AssetContentId_IsValid i \<longleftrightarrow> list_ex (\<lambda>b. b \<noteq> 0) (ContentBytes i)"

record CharacterControlled =
  Character :: ObjectId
  ControlEpoch :: Sequence

record CharacterControlTransition = CharacterControlled +
  Channel :: Sequence
  TransitionTick :: u64
  Bound :: bool

record CharacterInputCommand = CharacterControlled +
  InputSequence :: Sequence
  SimulationTick :: u64
  DeltaSeconds :: f32
  MoveIntent :: Vec2
  FacingYawRadians :: f32
  InputFlags :: u8

record CharacterActionRequest = CharacterControlled +
  RequestSequence :: Sequence
  BasedOnInput :: Sequence
  RequestedActionToken :: u32

record CharacterActionState =
  ActionSequence :: Sequence
  ActionToken :: u32
  Animation :: AssetId
  ContentRevision :: AssetContentId
  StartTick :: u64
  DurationTicks :: u32

record CharacterActionResult = CharacterControlled +
  ResultSequence :: Sequence
  ResultActionToken :: u32
  Accepted :: bool
  AuthoritativeAction :: "CharacterActionState option"

record CharacterAuthoritativeState = CharacterControlled +
  StateSequence :: Sequence
  AcknowledgedInput :: Sequence
  ResolvedAction :: Sequence
  AuthoritativeTick :: u64
  Transform :: CFrame
  Velocity :: Vec3
  FloorNormal :: Vec3
  StateFlags :: u8
  ActiveAction :: "CharacterActionState option"

text \<open>\<open>States\<close> is a \<open>std::array\<close> of \<open>MaximumCharacterStatesPerFrame\<close> states.\<close>

record CharacterStateFrame =
  ServerTick :: u64
  FrameSequence :: Sequence
  MaterializationEpoch :: Sequence
  States :: "CharacterAuthoritativeState list"
  StateCount :: u16

definition GetStates :: "CharacterStateFrame \<Rightarrow> CharacterAuthoritativeState list" where
  "GetStates f = take (unat (StateCount f)) (States f)"

definition JumpRequested :: "CharacterInputCommand \<Rightarrow> bool" where
  "JumpRequested c \<longleftrightarrow> InputFlags c AND 1 \<noteq> 0"

definition Grounded :: "CharacterAuthoritativeState \<Rightarrow> bool" where
  "Grounded s \<longleftrightarrow> StateFlags s AND 1 \<noteq> 0"

definition Teleport :: "CharacterAuthoritativeState \<Rightarrow> bool" where
  "Teleport s \<longleftrightarrow> StateFlags s AND 2 \<noteq> 0"

datatype CharacterMessage =
    ControlTransition CharacterControlTransition
  | InputCommand CharacterInputCommand
  | ActionRequest CharacterActionRequest
  | ActionResult CharacterActionResult
  | AuthoritativeState CharacterAuthoritativeState
  | StateFrame CharacterStateFrame

section \<open>Quantisation\<close>

definition quantized_rotation :: "glm \<Rightarrow> CharacterAuthoritativeState \<Rightarrow> u16 list option" where
  "quantized_rotation g s = those (map (QuantizeSigned 32767) (quat_list (ToQuaternion g (Transform s))))"

definition quantized_velocity :: "CharacterAuthoritativeState \<Rightarrow> u16 list option" where
  "quantized_velocity s = those (map (QuantizeSigned 64) (vec3_list (Velocity s)))"

definition quantized_floor :: "CharacterAuthoritativeState \<Rightarrow> u16 list option" where
  "quantized_floor s = those (map (QuantizeSigned 32767) (vec3_list (FloorNormal s)))"

section \<open>Validity\<close>

definition CharacterControlTransition_IsValid :: "CharacterControlTransition \<Rightarrow> bool" where
  "CharacterControlTransition_IsValid t \<longleftrightarrow> ObjectId_IsValid (Character t) \<and> Sequence_IsValid (ControlEpoch t) \<and>
     TransitionTick t \<noteq> 0 \<and> (Sequence_IsValid (Channel t) = Bound t)"

definition CharacterInputCommand_IsValid :: "glm \<Rightarrow> CharacterInputCommand \<Rightarrow> bool" where
  "CharacterInputCommand_IsValid g c \<longleftrightarrow> ObjectId_IsValid (Character c) \<and> Sequence_IsValid (ControlEpoch c) \<and>
     Sequence_IsValid (InputSequence c) \<and> SimulationTick c \<noteq> 0 \<and> isfinite32 (DeltaSeconds c) \<and>
     f32_less 0 (DeltaSeconds c) \<and> f32_le (DeltaSeconds c) MaximumCharacterCommandInterval \<and>
     IsFinite_vec2 (MoveIntent c) \<and> f32_le (vec2_length g (MoveIntent c)) MaximumCharacterMoveIntentMagnitude \<and>
     isfinite32 (FacingYawRadians c) \<and> f32_le (f32_abs (FacingYawRadians c)) pi_f32 \<and>
     InputFlags c AND NOT ValidInputFlags = 0"

definition CharacterActionRequest_IsValid :: "CharacterActionRequest \<Rightarrow> bool" where
  "CharacterActionRequest_IsValid a \<longleftrightarrow> ObjectId_IsValid (Character a) \<and> Sequence_IsValid (ControlEpoch a) \<and>
     Sequence_IsValid (RequestSequence a) \<and> RequestedActionToken a \<noteq> 0"

definition CharacterActionState_IsValid :: "CharacterActionState \<Rightarrow> bool" where
  "CharacterActionState_IsValid a \<longleftrightarrow> Sequence_IsValid (ActionSequence a) \<and> ActionToken a \<noteq> 0 \<and>
     AssetId_IsValid (Animation a) \<and> AssetContentId_IsValid (ContentRevision a) \<and> StartTick a \<noteq> 0 \<and>
     DurationTicks a \<noteq> 0 \<and> (ucast (DurationTicks a) :: u64) \<le> 0xffffffffffffffff - StartTick a"

definition CharacterActionResult_IsValid :: "CharacterActionResult \<Rightarrow> bool" where
  "CharacterActionResult_IsValid a \<longleftrightarrow> ObjectId_IsValid (Character a) \<and> Sequence_IsValid (ControlEpoch a) \<and>
     Sequence_IsValid (ResultSequence a) \<and> ResultActionToken a \<noteq> 0 \<and>
     (Accepted a = (AuthoritativeAction a \<noteq> None)) \<and>
     (case AuthoritativeAction a of
        None \<Rightarrow> True
      | Some x \<Rightarrow> CharacterActionState_IsValid x \<and> ActionSequence x = ResultSequence a)"

definition CharacterAuthoritativeState_IsValid :: "glm \<Rightarrow> CharacterAuthoritativeState \<Rightarrow> bool" where
  "CharacterAuthoritativeState_IsValid g s \<longleftrightarrow>
     ObjectId_IsValid (Character s) \<and> Sequence_IsValid (ControlEpoch s) \<and> Sequence_IsValid (StateSequence s) \<and>
     AuthoritativeTick s \<noteq> 0 \<and> IsFinite_CFrame g (Transform s) \<and> IsFinite_vec3 (Velocity s) \<and>
     IsFinite_vec3 (FloorNormal s) \<and> f32_le (vec3_length g (FloorNormal s)) MaximumFloorNormal \<and>
     StateFlags s AND NOT ValidStateFlags = 0 \<and>
     (case ActiveAction s of
        None \<Rightarrow> True
      | Some a \<Rightarrow> CharacterActionState_IsValid a \<and>
          (\<not> Sequence_IsValid (ResolvedAction s) \<or> ActionSequence a \<le> ResolvedAction s))"

definition GetCompactCharacterStateEncodedBytes :: "glm \<Rightarrow> CharacterAuthoritativeState \<Rightarrow> nat" where
  "GetCompactCharacterStateEncodedBytes g s =
     (if \<not> CharacterAuthoritativeState_IsValid g s then 0
      else if quantized_rotation g s = None then 0
      else if quantized_velocity s = None \<or> quantized_floor s = None then 0
      else CompactCharacterStateBytes + (if ActiveAction s \<noteq> None then CompactCharacterActionStateBytes else 0))"

text \<open>The loop of \<open>CharacterStateFrame::IsValid\<close>; \<open>None\<close> before the first state.\<close>

fun frame_states_valid :: "glm \<Rightarrow> u64 \<Rightarrow> ObjectId option \<Rightarrow> CharacterAuthoritativeState list \<Rightarrow> bool" where
  "frame_states_valid g tick prev [] = True"
| "frame_states_valid g tick prev (s # ss) =
     (if AuthoritativeTick s \<noteq> tick \<or> GetCompactCharacterStateEncodedBytes g s = 0 then False
      else if prev \<noteq> None \<and> \<not> the prev < Character s then False
      else frame_states_valid g tick (Some (Character s)) ss)"

definition CharacterStateFrame_IsValid :: "glm \<Rightarrow> CharacterStateFrame \<Rightarrow> bool" where
  "CharacterStateFrame_IsValid g f =
     (if ServerTick f = 0 \<or> \<not> Sequence_IsValid (FrameSequence f) \<or> \<not> Sequence_IsValid (MaterializationEpoch f) \<or>
         StateCount f = 0 \<or> unat (StateCount f) > length (States f)
      then False
      else frame_states_valid g (ServerTick f) None (take (unat (StateCount f)) (States f)))"

primrec CharacterMessage_IsValid :: "glm \<Rightarrow> CharacterMessage \<Rightarrow> bool" where
  "CharacterMessage_IsValid g (ControlTransition t) = CharacterControlTransition_IsValid t"
| "CharacterMessage_IsValid g (InputCommand c) = CharacterInputCommand_IsValid g c"
| "CharacterMessage_IsValid g (ActionRequest a) = CharacterActionRequest_IsValid a"
| "CharacterMessage_IsValid g (ActionResult a) = CharacterActionResult_IsValid a"
| "CharacterMessage_IsValid g (AuthoritativeState s) = CharacterAuthoritativeState_IsValid g s"
| "CharacterMessage_IsValid g (StateFrame f) = CharacterStateFrame_IsValid g f"

primrec GetCharacterMessageKind :: "CharacterMessage \<Rightarrow> CharacterMessageKind" where
  "GetCharacterMessageKind (ControlTransition t) = (if Bound t then ControlBind else ControlUnbind)"
| "GetCharacterMessageKind (InputCommand c) = InputKind"
| "GetCharacterMessageKind (ActionRequest a) = ActionRequestKind"
| "GetCharacterMessageKind (ActionResult a) = ActionResultKind"
| "GetCharacterMessageKind (AuthoritativeState s) = StateKind"
| "GetCharacterMessageKind (StateFrame f) = StateFrameKind"

section \<open>Encoding\<close>

definition WriteAssetId :: "AssetId \<Rightarrow> writer \<Rightarrow> writer" where
  "WriteAssetId i = Writer_Integer (AssetLow i) \<circ> Writer_Integer (AssetHigh i)"

definition WriteContentId :: "AssetContentId \<Rightarrow> writer \<Rightarrow> writer" where
  "WriteContentId i = fold Writer_Integer (ContentBytes i)"

definition WriteVector3 :: "Vec3 \<Rightarrow> writer \<Rightarrow> writer" where
  "WriteVector3 v = Writer_Float (Vec3_z v) \<circ> Writer_Float (Vec3_y v) \<circ> Writer_Float (Vec3_x v)"

definition WriteCFrame :: "glm \<Rightarrow> CFrame \<Rightarrow> writer \<Rightarrow> writer" where
  "WriteCFrame g c =
     (let q = ToQuaternion g c
      in Writer_Float (Quat_w q) \<circ> Writer_Float (Quat_z q) \<circ> Writer_Float (Quat_y q) \<circ> Writer_Float (Quat_x q) \<circ>
         Writer_Float (Vec3_z (Place c)) \<circ> Writer_Float (Vec3_y (Place c)) \<circ> Writer_Float (Vec3_x (Place c)))"

text \<open>The fields of an action, as the three places of the source that write one begin.\<close>

definition WriteActionState :: "CharacterActionState \<Rightarrow> writer \<Rightarrow> writer" where
  "WriteActionState a =
     Writer_Integer (DurationTicks a) \<circ> Writer_Integer (StartTick a) \<circ> WriteContentId (ContentRevision a) \<circ>
     WriteAssetId (Animation a) \<circ> Writer_Integer (ActionToken a) \<circ> Writer_Integer (ActionSequence a)"

definition WriteCompactFields :: "u16 list \<Rightarrow> u16 list \<Rightarrow> u16 list \<Rightarrow> CharacterAuthoritativeState \<Rightarrow> writer \<Rightarrow> writer" where
  "WriteCompactFields rotation velocity normal s =
     (case ActiveAction s of None \<Rightarrow> id | Some a \<Rightarrow> WriteActionState a) \<circ>
     Writer_Integer (if ActiveAction s \<noteq> None then 1 else 0 :: u8) \<circ> Writer_Integer (StateFlags s) \<circ>
     fold Writer_Integer normal \<circ> fold Writer_Integer velocity \<circ> fold Writer_Integer rotation \<circ>
     Writer_Float (Vec3_z (Place (Transform s))) \<circ> Writer_Float (Vec3_y (Place (Transform s))) \<circ>
     Writer_Float (Vec3_x (Place (Transform s))) \<circ>
     Writer_Integer (ResolvedAction s) \<circ> Writer_Integer (AcknowledgedInput s) \<circ> Writer_Integer (StateSequence s) \<circ>
     Writer_Integer (ControlEpoch s) \<circ> WriteBinaryObjectId (Character s)"

definition WriteCompactState :: "glm \<Rightarrow> CharacterAuthoritativeState \<Rightarrow> writer \<Rightarrow> bool \<times> writer" where
  "WriteCompactState g s w =
     (case (quantized_rotation g s, quantized_velocity s, quantized_floor s) of
        (Some rotation, Some velocity, Some normal) \<Rightarrow>
          (let w' = WriteCompactFields rotation velocity normal s w in (Writer_Succeeded w', w'))
      | _ \<Rightarrow> (False, w))"

fun WriteCompactStates :: "glm \<Rightarrow> CharacterAuthoritativeState list \<Rightarrow> writer \<Rightarrow> writer" where
  "WriteCompactStates g [] w = w"
| "WriteCompactStates g (s # ss) w =
     (case WriteCompactState g s w of (ok, w') \<Rightarrow> if \<not> ok then w' else WriteCompactStates g ss w')"

definition WriteStateFrame :: "glm \<Rightarrow> CharacterStateFrame \<Rightarrow> writer \<Rightarrow> writer" where
  "WriteStateFrame g f =
     WriteCompactStates g (GetStates f) \<circ> Writer_Integer (MaterializationEpoch f) \<circ> Writer_Integer (StateCount f) \<circ>
     Writer_Integer (FrameSequence f) \<circ> Writer_Integer (ServerTick f)"

definition WriteControlled :: "'a CharacterControlled_scheme \<Rightarrow> writer \<Rightarrow> writer" where
  "WriteControlled v = Writer_Integer (ControlEpoch v) \<circ> WriteBinaryObjectId (Character v)"

definition WriteReservedAction :: "CharacterActionState option \<Rightarrow> writer \<Rightarrow> writer" where
  "WriteReservedAction x =
     (case x of None \<Rightarrow> id | Some a \<Rightarrow> Writer_Integer (0 :: u32) \<circ> WriteActionState a)"

definition WriteTransition :: "CharacterControlTransition \<Rightarrow> writer \<Rightarrow> writer" where
  "WriteTransition t = Writer_Integer (TransitionTick t) \<circ> Writer_Integer (Channel t) \<circ> WriteControlled t"

definition WriteInput :: "CharacterInputCommand \<Rightarrow> writer \<Rightarrow> writer" where
  "WriteInput c =
     Writer_Integer (0 :: u16) \<circ> Writer_Integer (0 :: u8) \<circ> Writer_Integer (InputFlags c) \<circ>
     Writer_Float (FacingYawRadians c) \<circ> Writer_Float (Vec2_y (MoveIntent c)) \<circ> Writer_Float (Vec2_x (MoveIntent c)) \<circ>
     Writer_Float (DeltaSeconds c) \<circ> Writer_Integer (SimulationTick c) \<circ> Writer_Integer (InputSequence c) \<circ>
     WriteControlled c"

definition WriteActionRequest :: "CharacterActionRequest \<Rightarrow> writer \<Rightarrow> writer" where
  "WriteActionRequest a =
     Writer_Integer (0 :: u32) \<circ> Writer_Integer (RequestedActionToken a) \<circ> Writer_Integer (BasedOnInput a) \<circ>
     Writer_Integer (RequestSequence a) \<circ> WriteControlled a"

definition WriteActionResult :: "CharacterActionResult \<Rightarrow> writer \<Rightarrow> writer" where
  "WriteActionResult a =
     WriteReservedAction (AuthoritativeAction a) \<circ> Writer_Integer (0 :: u16) \<circ> Writer_Integer (0 :: u8) \<circ>
     Writer_Integer (if Accepted a then 1 else 0 :: u8) \<circ> Writer_Integer (ResultActionToken a) \<circ>
     Writer_Integer (ResultSequence a) \<circ> WriteControlled a"

definition WriteState :: "glm \<Rightarrow> CharacterAuthoritativeState \<Rightarrow> writer \<Rightarrow> writer" where
  "WriteState g s =
     WriteReservedAction (ActiveAction s) \<circ> Writer_Integer (0 :: u16) \<circ>
     Writer_Integer (if ActiveAction s \<noteq> None then 1 else 0 :: u8) \<circ> Writer_Integer (StateFlags s) \<circ>
     WriteVector3 (FloorNormal s) \<circ> WriteVector3 (Velocity s) \<circ> WriteCFrame g (Transform s) \<circ>
     Writer_Integer (AuthoritativeTick s) \<circ> Writer_Integer (ResolvedAction s) \<circ>
     Writer_Integer (AcknowledgedInput s) \<circ> Writer_Integer (StateSequence s) \<circ> WriteControlled s"

primrec WriteCharacterBody :: "glm \<Rightarrow> CharacterMessage \<Rightarrow> writer \<Rightarrow> writer" where
  "WriteCharacterBody g (ControlTransition t) = WriteTransition t"
| "WriteCharacterBody g (InputCommand c) = WriteInput c"
| "WriteCharacterBody g (ActionRequest a) = WriteActionRequest a"
| "WriteCharacterBody g (ActionResult a) = WriteActionResult a"
| "WriteCharacterBody g (AuthoritativeState s) = WriteState g s"
| "WriteCharacterBody g (StateFrame f) = WriteStateFrame g f"

definition is_state_frame :: "CharacterMessage \<Rightarrow> bool" where
  "is_state_frame m = (case m of StateFrame _ \<Rightarrow> True | _ \<Rightarrow> False)"

definition is_modern :: "CharacterMessage \<Rightarrow> bool" where
  "is_modern m = (is_state_frame m \<or> (case m of ActionResult _ \<Rightarrow> True | _ \<Rightarrow> False))"

definition character_limit :: "CharacterMessage \<Rightarrow> nat" where
  "character_limit m = (if is_state_frame m then MaximumCharacterStateFrameBytes else MaximumCharacterFrameBytes)"

definition character_version :: "CharacterMessage \<Rightarrow> u16" where
  "character_version m = (if is_modern m then CharacterProtocolVersion else LegacyCharacterProtocolVersion)"

definition EncodeCharacterMessage :: "glm \<Rightarrow> CharacterMessage \<Rightarrow> SerializationError + bytes" where
  "EncodeCharacterMessage g m =
     (if \<not> CharacterMessage_IsValid g m then SerializationFailure InvalidValue ''Character message is invalid''
      else (let w = (WriteCharacterBody g m \<circ> Writer_Integer (0 :: u8) \<circ>
                     Writer_Integer (kind_byte (GetCharacterMessageKind m)) \<circ>
                     Writer_Integer (character_version m) \<circ> Writer_Integer CharacterMagic)
                    (GameBinaryWriter (character_limit m))
            in if \<not> Writer_Succeeded w then SerializationFailure LimitExceeded ''Character frame exceeds its limit''
               else Inr (Bytes w)))"

section \<open>Decoding\<close>

definition ReadAssetId :: "AssetId rd" where
  "ReadAssetId =
     rd_bind Reader_Integer (\<lambda>high. rd_bind Reader_Integer (\<lambda>low.
       rd_bind (rd_check (AssetId_IsValid (AssetId high low)) ''Character Animation AssetId is invalid'')
         (\<lambda>_. rd_return (AssetId high low))))"

definition ReadContentId :: "AssetContentId rd" where
  "ReadContentId =
     rd_bind (rd_list 32 Reader_Integer) (\<lambda>bs.
       rd_bind (rd_check (AssetContentId_IsValid (AssetContentId bs)) ''Character Animation content revision is invalid'')
         (\<lambda>_. rd_return (AssetContentId bs)))"

definition ReadVector3 :: "Vec3 rd" where
  "ReadVector3 = rd_bind Reader_Float (\<lambda>x. rd_bind Reader_Float (\<lambda>y. rd_bind Reader_Float (\<lambda>z. rd_return (Vec3 x y z))))"

definition ReadCFrame :: "glm \<Rightarrow> CFrame rd" where
  "ReadCFrame g =
     rd_bind Reader_Float (\<lambda>px. rd_bind Reader_Float (\<lambda>py. rd_bind Reader_Float (\<lambda>pz.
     rd_bind Reader_Float (\<lambda>x. rd_bind Reader_Float (\<lambda>y. rd_bind Reader_Float (\<lambda>z. rd_bind Reader_Float (\<lambda>w.
       let p = Vec3 px py pz; q = Quat x y z w
       in if \<not> IsFinite_vec3 p \<or> \<not> isfinite32 x \<or> \<not> isfinite32 y \<or> \<not> isfinite32 z \<or> \<not> isfinite32 w \<or>
             off_one (quat_length g q)
          then Fail ''Character CFrame is not finite and normalized''
          else rd_return (CFrame p (mat3_cast g (normalize g q))))))))))"

definition ReadActionState :: "CharacterActionState rd" where
  "ReadActionState =
     rd_bind Reader_Integer (\<lambda>sequence. rd_bind Reader_Integer (\<lambda>token. rd_bind ReadAssetId (\<lambda>animation.
     rd_bind ReadContentId (\<lambda>content. rd_bind Reader_Integer (\<lambda>start. rd_bind Reader_Integer (\<lambda>duration.
       rd_return \<lparr>ActionSequence = sequence, ActionToken = token, Animation = animation, ContentRevision = content,
         StartTick = start, DurationTicks = duration\<rparr>))))))"

text \<open>The part of \<open>ReadCompactState\<close> before the rotation is checked.\<close>

definition ReadCompactFields ::
  "(CharacterControlled \<times> Sequence \<times> Sequence \<times> Sequence \<times> Vec3 \<times> u16 list \<times> u16 list \<times> u16 list \<times> u8 \<times> u8) rd" where
  "ReadCompactFields =
     rd_bind ReadBinaryObjectId (\<lambda>character. rd_bind Reader_Integer (\<lambda>epoch.
     rd_bind Reader_Integer (\<lambda>sequence. rd_bind Reader_Integer (\<lambda>acknowledged. rd_bind Reader_Integer (\<lambda>resolved.
     rd_bind ReadVector3 (\<lambda>place.
     rd_bind (rd_list 4 Reader_Integer) (\<lambda>rotation. rd_bind (rd_list 3 Reader_Integer) (\<lambda>velocity.
     rd_bind (rd_list 3 Reader_Integer) (\<lambda>normal. rd_bind Reader_Integer (\<lambda>flags. rd_bind Reader_Integer (\<lambda>hasAction.
       rd_bind (rd_check (\<not> (hasAction > 1 \<or> 0x8000 \<in> set rotation \<or> 0x8000 \<in> set velocity \<or> 0x8000 \<in> set normal))
           ''Character compact state contains an invalid quantized value'')
         (\<lambda>_. rd_return (\<lparr>Character = character, ControlEpoch = epoch\<rparr>, sequence, acknowledged, resolved, place,
            rotation, velocity, normal, flags, hasAction)))))))))))))"

definition ReadCompactState :: "glm \<Rightarrow> u64 \<Rightarrow> CharacterAuthoritativeState rd" where
  "ReadCompactState g tick =
     rd_bind ReadCompactFields (\<lambda>(c, sequence, acknowledged, resolved, place, rotation, velocity, normal, flags, hasAction).
       let q = quat_of (map unit_value rotation); l = quat_length g q
       in if \<not> IsFinite_vec3 place \<or> \<not> isfinite32 l \<or> off_one l then Fail ''Character compact transform is invalid''
          else rd_bind (if hasAction \<noteq> 0 then rd_bind ReadActionState (\<lambda>a. rd_return (Some a)) else rd_return None) (\<lambda>action.
            let s = \<lparr>Character = Character c, ControlEpoch = ControlEpoch c, StateSequence = sequence,
                     AcknowledgedInput = acknowledged, ResolvedAction = resolved, AuthoritativeTick = tick,
                     Transform = CFrame place (mat3_cast g (normalize g q)),
                     Velocity = vec3_of (map velocity_value velocity), FloorNormal = vec3_of (map unit_value normal),
                     StateFlags = flags, ActiveAction = action\<rparr>
            in rd_guard (CharacterAuthoritativeState_IsValid g s) (rd_return s)))"

definition CharacterAuthoritativeState_default :: CharacterAuthoritativeState where
  "CharacterAuthoritativeState_default =
     \<lparr>Character = ObjectId 0 0, ControlEpoch = 0, StateSequence = 0, AcknowledgedInput = 0, ResolvedAction = 0,
      AuthoritativeTick = 0, Transform = CFrame_default, Velocity = Vec3 0 0 0, FloorNormal = Vec3 0 0 0,
      StateFlags = 0, ActiveAction = None\<rparr>"

text \<open>The states read so far stand at the front of the array, defaults behind them.\<close>

definition state_array :: "CharacterAuthoritativeState list \<Rightarrow> CharacterAuthoritativeState list" where
  "state_array ss = ss @ replicate (MaximumCharacterStatesPerFrame - length ss) CharacterAuthoritativeState_default"

definition ReadFrameHeader :: "(u64 \<times> u64 \<times> u16 \<times> u64) rd" where
  "ReadFrameHeader =
     rd_bind Reader_Integer (\<lambda>tick. rd_bind Reader_Integer (\<lambda>sequence. rd_bind Reader_Integer (\<lambda>count.
     rd_bind Reader_Integer (\<lambda>epoch. rd_return (tick, sequence, count, epoch)))))"

definition DecodeStateFrame :: "glm \<Rightarrow> reader \<Rightarrow> SerializationError + CharacterMessage" where
  "DecodeStateFrame g r =
     (case ReadFrameHeader r of
        (None, r1) \<Rightarrow> SerializationFailure TruncatedInput (Error r1)
      | (Some (tick, sequence, count, epoch), r1) \<Rightarrow>
          if epoch = 0 \<or> count = 0 \<or> unat count > MaximumCharacterStatesPerFrame
          then SerializationFailure InvalidValue ''Character state-frame materialization epoch or count is invalid''
          else (case rd_list (unat count) (ReadCompactState g tick) r1 of
              (None, r2) \<Rightarrow> SerializationFailure InvalidValue (Error r2)
            | (Some ss, r2) \<Rightarrow>
                let f = \<lparr>ServerTick = tick, FrameSequence = sequence, MaterializationEpoch = epoch,
                         States = state_array ss, StateCount = count\<rparr>
                in if \<not> Complete r2 \<or> \<not> CharacterStateFrame_IsValid g f
                   then SerializationFailure InvalidValue
                     ''Character state frame contains trailing, duplicate, unordered, or invalid data''
                   else Inr (StateFrame f)))"

definition ReadResultHeader :: "(ObjectId \<times> u64 \<times> u64 \<times> u32 \<times> u8 \<times> u8 \<times> u16) rd" where
  "ReadResultHeader =
     rd_bind ReadBinaryObjectId (\<lambda>character. rd_bind Reader_Integer (\<lambda>epoch. rd_bind Reader_Integer (\<lambda>sequence.
     rd_bind Reader_Integer (\<lambda>token. rd_bind Reader_Integer (\<lambda>accepted. rd_bind Reader_Integer (\<lambda>reserved8.
     rd_bind Reader_Integer (\<lambda>reserved16. rd_return (character, epoch, sequence, token, accepted, reserved8, reserved16))))))))"

text \<open>The optional action at the end of a message, with its reserved word.\<close>

definition DecodeReservedAction ::
  "string \<Rightarrow> bool \<Rightarrow> reader \<Rightarrow> SerializationError + CharacterActionState option \<times> reader" where
  "DecodeReservedAction message present r =
     (if present then
        (case rd_bind ReadActionState (\<lambda>a. rd_bind Reader_Integer (\<lambda>reserved. rd_return (a, reserved))) r of
           (None, r1) \<Rightarrow> SerializationFailure TruncatedInput (Error r1)
         | (Some (a, reserved :: u32), r1) \<Rightarrow>
             if reserved \<noteq> 0 then SerializationFailure InvalidValue message else Inr (Some a, r1))
      else Inr (None, r))"

definition DecodeActionResult :: "reader \<Rightarrow> SerializationError + CharacterMessage" where
  "DecodeActionResult r =
     (case ReadResultHeader r of
        (None, r1) \<Rightarrow> SerializationFailure TruncatedInput (Error r1)
      | (Some (character, epoch, sequence, token, accepted, reserved8, reserved16), r1) \<Rightarrow>
          if epoch = 0 \<or> accepted > 1 \<or> reserved8 \<noteq> 0 \<or> reserved16 \<noteq> 0
          then SerializationFailure InvalidValue ''Character action-result header is invalid''
          else (case DecodeReservedAction ''Character action-result reserved bytes are nonzero'' (accepted \<noteq> 0) r1 of
              Inl e \<Rightarrow> Inl e
            | Inr (action, r2) \<Rightarrow>
                let a = \<lparr>Character = character, ControlEpoch = epoch, ResultSequence = sequence,
                         ResultActionToken = token, Accepted = (accepted \<noteq> 0), AuthoritativeAction = action\<rparr>
                in if \<not> Complete r2 \<or> \<not> CharacterActionResult_IsValid a
                   then SerializationFailure InvalidValue ''Character action result contains trailing or invalid data''
                   else Inr (ActionResult a)))"

definition DecodeTransition :: "CharacterControlled \<Rightarrow> bool \<Rightarrow> reader \<Rightarrow> SerializationError + CharacterMessage \<times> reader" where
  "DecodeTransition c bound r =
     (case rd_bind Reader_Integer (\<lambda>channel. rd_bind Reader_Integer (\<lambda>tick. rd_return (channel, tick))) r of
        (None, r1) \<Rightarrow> SerializationFailure TruncatedInput (Error r1)
      | (Some (channel, tick), r1) \<Rightarrow>
          Inr (ControlTransition \<lparr>Character = Character c, ControlEpoch = ControlEpoch c, Channel = channel,
            TransitionTick = tick, Bound = bound\<rparr>, r1))"

definition ReadInput :: "(u64 \<times> u64 \<times> f32 \<times> Vec2 \<times> f32 \<times> u8 \<times> u8 \<times> u16) rd" where
  "ReadInput =
     rd_bind Reader_Integer (\<lambda>sequence. rd_bind Reader_Integer (\<lambda>tick. rd_bind Reader_Float (\<lambda>delta.
     rd_bind Reader_Float (\<lambda>x. rd_bind Reader_Float (\<lambda>y. rd_bind Reader_Float (\<lambda>yaw. rd_bind Reader_Integer (\<lambda>flags.
     rd_bind Reader_Integer (\<lambda>tail. rd_bind Reader_Integer (\<lambda>reserved.
       rd_return (sequence, tick, delta, Vec2 x y, yaw, flags, tail, reserved))))))))))"

definition DecodeInput :: "CharacterControlled \<Rightarrow> reader \<Rightarrow> SerializationError + CharacterMessage \<times> reader" where
  "DecodeInput c r =
     (case ReadInput r of
        (None, r1) \<Rightarrow> SerializationFailure TruncatedInput (Error r1)
      | (Some (sequence, tick, delta, move, yaw, flags, tail, reserved), r1) \<Rightarrow>
          if tail \<noteq> 0 \<or> reserved \<noteq> 0 then SerializationFailure InvalidValue ''Character input reserved bytes are nonzero''
          else Inr (InputCommand \<lparr>Character = Character c, ControlEpoch = ControlEpoch c, InputSequence = sequence,
            SimulationTick = tick, DeltaSeconds = delta, MoveIntent = move, FacingYawRadians = yaw, InputFlags = flags\<rparr>, r1))"

definition DecodeActionRequest :: "CharacterControlled \<Rightarrow> reader \<Rightarrow> SerializationError + CharacterMessage \<times> reader" where
  "DecodeActionRequest c r =
     (case rd_bind Reader_Integer (\<lambda>sequence. rd_bind Reader_Integer (\<lambda>basedOn. rd_bind Reader_Integer (\<lambda>token.
             rd_bind Reader_Integer (\<lambda>reserved. rd_return (sequence, basedOn, token, reserved))))) r of
        (None, r1) \<Rightarrow> SerializationFailure TruncatedInput (Error r1)
      | (Some (sequence, basedOn, token, reserved :: u32), r1) \<Rightarrow>
          if reserved \<noteq> 0 then SerializationFailure InvalidValue ''Character action reserved bytes are nonzero''
          else Inr (ActionRequest \<lparr>Character = Character c, ControlEpoch = ControlEpoch c, RequestSequence = sequence,
            BasedOnInput = basedOn, RequestedActionToken = token\<rparr>, r1))"

definition ReadStateFields :: "glm \<Rightarrow> (u64 \<times> u64 \<times> u64 \<times> u64 \<times> CFrame \<times> Vec3 \<times> Vec3 \<times> u8 \<times> u8 \<times> u16) rd" where
  "ReadStateFields g =
     rd_bind Reader_Integer (\<lambda>sequence. rd_bind Reader_Integer (\<lambda>acknowledged. rd_bind Reader_Integer (\<lambda>resolved.
     rd_bind Reader_Integer (\<lambda>tick. rd_bind (ReadCFrame g) (\<lambda>transform. rd_bind ReadVector3 (\<lambda>velocity.
     rd_bind ReadVector3 (\<lambda>normal. rd_bind Reader_Integer (\<lambda>flags. rd_bind Reader_Integer (\<lambda>hasAction.
     rd_bind Reader_Integer (\<lambda>reserved.
       rd_return (sequence, acknowledged, resolved, tick, transform, velocity, normal, flags, hasAction, reserved)))))))))))"

definition DecodeState :: "glm \<Rightarrow> CharacterControlled \<Rightarrow> reader \<Rightarrow> SerializationError + CharacterMessage \<times> reader" where
  "DecodeState g c r =
     (case ReadStateFields g r of
        (None, r1) \<Rightarrow> SerializationFailure TruncatedInput (Error r1)
      | (Some (sequence, acknowledged, resolved, tick, transform, velocity, normal, flags, hasAction, reserved), r1) \<Rightarrow>
          if hasAction > 1 \<or> reserved \<noteq> 0 then SerializationFailure InvalidValue ''Character state flags are invalid''
          else (case DecodeReservedAction ''Character action state reserved bytes are nonzero'' (hasAction \<noteq> 0) r1 of
              Inl e \<Rightarrow> Inl e
            | Inr (action, r2) \<Rightarrow>
                Inr (AuthoritativeState \<lparr>Character = Character c, ControlEpoch = ControlEpoch c, StateSequence = sequence,
                  AcknowledgedInput = acknowledged, ResolvedAction = resolved, AuthoritativeTick = tick,
                  Transform = transform, Velocity = velocity, FloorNormal = normal, StateFlags = flags,
                  ActiveAction = action\<rparr>, r2)))"

definition DecodeLegacyBody :: "glm \<Rightarrow> u8 \<Rightarrow> CharacterControlled \<Rightarrow> reader \<Rightarrow> SerializationError + CharacterMessage \<times> reader" where
  "DecodeLegacyBody g kind c r =
     (if kind = kind_byte ControlBind \<or> kind = kind_byte ControlUnbind
      then DecodeTransition c (kind = kind_byte ControlBind) r
      else if kind = kind_byte InputKind then DecodeInput c r
      else if kind = kind_byte ActionRequestKind then DecodeActionRequest c r
      else DecodeState g c r)"

definition DecodeLegacy :: "glm \<Rightarrow> bytes \<Rightarrow> u8 \<Rightarrow> reader \<Rightarrow> SerializationError + CharacterMessage" where
  "DecodeLegacy g bs kind r =
     (if length bs > MaximumCharacterFrameBytes \<or> kind > kind_byte StateKind
      then SerializationFailure InvalidValue ''Character v1 frame is invalid''
      else (case rd_bind ReadBinaryObjectId (\<lambda>character. rd_bind Reader_Integer (\<lambda>epoch.
                   rd_return \<lparr>Character = character, ControlEpoch = epoch\<rparr>)) r of
          (None, r1) \<Rightarrow> SerializationFailure TruncatedInput (Error r1)
        | (Some c, r1) \<Rightarrow>
            if ControlEpoch c = 0 then SerializationFailure InvalidValue ''Character frame header is invalid''
            else (case DecodeLegacyBody g kind c r1 of
                Inl e \<Rightarrow> Inl e
              | Inr (m, r2) \<Rightarrow>
                  if \<not> Complete r2 \<or> \<not> CharacterMessage_IsValid g m
                  then SerializationFailure InvalidValue ''Character frame contains trailing or invalid data''
                  else Inr m)))"

definition ReadCharacterHeader :: "(u32 \<times> u16 \<times> u8 \<times> u8) rd" where
  "ReadCharacterHeader =
     rd_bind Reader_Integer (\<lambda>magic. rd_bind Reader_Integer (\<lambda>version. rd_bind Reader_Integer (\<lambda>kind.
     rd_bind Reader_Integer (\<lambda>reserved. rd_return (magic, version, kind, reserved)))))"

definition DecodeCharacterMessage :: "glm \<Rightarrow> bytes \<Rightarrow> SerializationError + CharacterMessage" where
  "DecodeCharacterMessage g bs =
     (if length bs > MaximumCharacterStateFrameBytes
      then SerializationFailure LimitExceeded ''Character frame exceeds its limit''
      else (case ReadCharacterHeader (GameBinaryReader bs ''Character frame'') of
          (None, r) \<Rightarrow> SerializationFailure TruncatedInput (Error r)
        | (Some (magic, version, kind, reserved), r) \<Rightarrow>
            if magic \<noteq> CharacterMagic then SerializationFailure InvalidSyntax ''Character frame magic is invalid''
            else if reserved \<noteq> 0 then SerializationFailure InvalidValue ''Character frame header is invalid''
            else if version = CharacterProtocolVersion \<and> kind = kind_byte StateFrameKind then DecodeStateFrame g r
            else if version = CharacterProtocolVersion \<and> kind = kind_byte ActionResultKind then DecodeActionResult r
            else if version = CharacterProtocolVersion
            then SerializationFailure InvalidValue ''Character v4 opcode is invalid''
            else if version \<noteq> LegacyCharacterProtocolVersion
            then SerializationFailure UnsupportedVersion ''Character protocol version is unsupported''
            else DecodeLegacy g bs kind r))"

section \<open>What a message looks like on the wire\<close>

text \<open>
  \<open>std::array\<close> fields are lists here; \<open>wf_message\<close> says that they have the length of the array.
\<close>

definition wf_action :: "CharacterActionState \<Rightarrow> bool" where
  "wf_action a \<longleftrightarrow> length (ContentBytes (ContentRevision a)) = 32"

definition wf_state :: "CharacterAuthoritativeState \<Rightarrow> bool" where
  "wf_state s \<longleftrightarrow> (case ActiveAction s of None \<Rightarrow> True | Some a \<Rightarrow> wf_action a)"

primrec wf_message :: "CharacterMessage \<Rightarrow> bool" where
  "wf_message (ControlTransition t) = True"
| "wf_message (InputCommand c) = True"
| "wf_message (ActionRequest a) = True"
| "wf_message (ActionResult a) = (case AuthoritativeAction a of None \<Rightarrow> True | Some x \<Rightarrow> wf_action x)"
| "wf_message (AuthoritativeState s) = wf_state s"
| "wf_message (StateFrame f) = (length (States f) = MaximumCharacterStatesPerFrame \<and> list_all wf_state (States f))"

definition asset_image :: "AssetId \<Rightarrow> bytes" where
  "asset_image i = int_image (AssetHigh i) @ int_image (AssetLow i)"

definition content_image :: "AssetContentId \<Rightarrow> bytes" where
  "content_image i = concat (map int_image (ContentBytes i))"

definition vec3_image :: "Vec3 \<Rightarrow> bytes" where
  "vec3_image v = int_image (Vec3_x v) @ int_image (Vec3_y v) @ int_image (Vec3_z v)"

definition cframe_image :: "glm \<Rightarrow> CFrame \<Rightarrow> bytes" where
  "cframe_image g c =
     (let p = Place c; q = ToQuaternion g c
      in int_image (Vec3_x p) @ int_image (Vec3_y p) @ int_image (Vec3_z p) @
         int_image (Quat_x q) @ int_image (Quat_y q) @ int_image (Quat_z q) @ int_image (Quat_w q))"

definition action_image :: "CharacterActionState \<Rightarrow> bytes" where
  "action_image a =
     int_image (ActionSequence a) @ int_image (ActionToken a) @ asset_image (Animation a) @
     content_image (ContentRevision a) @ int_image (StartTick a) @ int_image (DurationTicks a)"

definition present_byte :: "bool \<Rightarrow> u8" where
  "present_byte b = (if b then 1 else 0)"

definition compact_fields_image :: "u16 list \<Rightarrow> u16 list \<Rightarrow> u16 list \<Rightarrow> CharacterAuthoritativeState \<Rightarrow> bytes" where
  "compact_fields_image rotation velocity normal s =
     object_id_image (Character s) @ int_image (ControlEpoch s) @ int_image (StateSequence s) @
     int_image (AcknowledgedInput s) @ int_image (ResolvedAction s) @ vec3_image (Place (Transform s)) @
     concat (map int_image rotation) @ concat (map int_image velocity) @ concat (map int_image normal) @
     int_image (StateFlags s) @ int_image (present_byte (ActiveAction s \<noteq> None))"

definition option_image :: "('a \<Rightarrow> bytes) \<Rightarrow> 'a option \<Rightarrow> bytes" where
  "option_image img x = (case x of None \<Rightarrow> [] | Some a \<Rightarrow> img a)"

definition compact_image :: "glm \<Rightarrow> CharacterAuthoritativeState \<Rightarrow> bytes" where
  "compact_image g s =
     compact_fields_image (the (quantized_rotation g s)) (the (quantized_velocity s)) (the (quantized_floor s)) s @
     option_image action_image (ActiveAction s)"

definition frame_header_image :: "CharacterStateFrame \<Rightarrow> bytes" where
  "frame_header_image f =
     int_image (ServerTick f) @ int_image (FrameSequence f) @ int_image (StateCount f) @
     int_image (MaterializationEpoch f)"

definition controlled_image :: "'a CharacterControlled_scheme \<Rightarrow> bytes" where
  "controlled_image v = object_id_image (Character v) @ int_image (ControlEpoch v)"

definition reserved_action_image :: "CharacterActionState \<Rightarrow> bytes" where
  "reserved_action_image a = action_image a @ int_image (0 :: u32)"

definition transition_image :: "CharacterControlTransition \<Rightarrow> bytes" where
  "transition_image t = int_image (Channel t) @ int_image (TransitionTick t)"

definition input_image :: "CharacterInputCommand \<Rightarrow> bytes" where
  "input_image c =
     int_image (InputSequence c) @ int_image (SimulationTick c) @ int_image (DeltaSeconds c) @
     int_image (Vec2_x (MoveIntent c)) @ int_image (Vec2_y (MoveIntent c)) @ int_image (FacingYawRadians c) @
     int_image (InputFlags c) @ int_image (0 :: u8) @ int_image (0 :: u16)"

definition request_image :: "CharacterActionRequest \<Rightarrow> bytes" where
  "request_image a =
     int_image (RequestSequence a) @ int_image (BasedOnInput a) @ int_image (RequestedActionToken a) @
     int_image (0 :: u32)"

definition result_image :: "CharacterActionResult \<Rightarrow> bytes" where
  "result_image a =
     int_image (ResultSequence a) @ int_image (ResultActionToken a) @ int_image (present_byte (Accepted a)) @
     int_image (0 :: u8) @ int_image (0 :: u16)"

definition state_image :: "glm \<Rightarrow> CharacterAuthoritativeState \<Rightarrow> bytes" where
  "state_image g s =
     int_image (StateSequence s) @ int_image (AcknowledgedInput s) @ int_image (ResolvedAction s) @
     int_image (AuthoritativeTick s) @ cframe_image g (Transform s) @ vec3_image (Velocity s) @
     vec3_image (FloorNormal s) @ int_image (StateFlags s) @ int_image (present_byte (ActiveAction s \<noteq> None)) @
     int_image (0 :: u16)"

primrec character_body_image :: "glm \<Rightarrow> CharacterMessage \<Rightarrow> bytes" where
  "character_body_image g (ControlTransition t) = controlled_image t @ transition_image t"
| "character_body_image g (InputCommand c) = controlled_image c @ input_image c"
| "character_body_image g (ActionRequest a) = controlled_image a @ request_image a"
| "character_body_image g (ActionResult a) =
     (controlled_image a @ result_image a) @ option_image reserved_action_image (AuthoritativeAction a)"
| "character_body_image g (AuthoritativeState s) =
     controlled_image s @ (state_image g s @ option_image reserved_action_image (ActiveAction s))"
| "character_body_image g (StateFrame f) =
     frame_header_image f @ concat (map (compact_image g) (GetStates f))"

definition character_header_image :: "CharacterMessage \<Rightarrow> bytes" where
  "character_header_image m =
     int_image CharacterMagic @ int_image (character_version m) @
     int_image (kind_byte (GetCharacterMessageKind m)) @ int_image (0 :: u8)"

definition character_image :: "glm \<Rightarrow> CharacterMessage \<Rightarrow> bytes" where
  "character_image g m = character_header_image m @ character_body_image g m"

section \<open>What is written\<close>

lemma emits_cong:
  assumes "emits f bs" "\<And>w. wf_writer w \<Longrightarrow> g w = f w"
  shows "emits g bs"
  using assms unfolding emits_def by simp

text \<open>A loop that stops once the writer has failed writes what the plain loop writes.\<close>

lemma emits_unless_failed:
  assumes "emits f as" "emits h bs"
  shows "emits (\<lambda>w. if \<not> Writer_Succeeded (f w) then f w else h (f w)) (as @ bs)"
proof (rule emits_cong [OF emits_comp [OF assms]])
  fix w assume w: "wf_writer w"
  have "wf_writer (f w)"
    using assms(1) [unfolded emits_def, rule_format, OF w] w by (auto simp: wf_writer_def split: if_splits)
  then show "(if \<not> Writer_Succeeded (f w) then f w else h (f w)) = (h \<circ> f) w"
    using assms(2) by (simp add: emits_def Writer_Succeeded_def)
qed

lemmas emits_intros = emits_comp emits_Integer emits_Float emits_ObjectId emits_fold

lemma emits_asset: "emits (WriteAssetId i) (asset_image i)"
  unfolding WriteAssetId_def asset_image_def by (intro emits_intros)

lemma emits_content: "emits (WriteContentId i) (content_image i)"
  unfolding WriteContentId_def content_image_def by (intro emits_intros)

lemma emits_action: "emits (WriteActionState a) (action_image a)"
  unfolding WriteActionState_def action_image_def by (intro emits_intros emits_asset emits_content)

lemma emits_vector: "emits (WriteVector3 v) (vec3_image v)"
  unfolding WriteVector3_def vec3_image_def by (intro emits_intros)

lemma emits_cframe: "emits (WriteCFrame g c) (cframe_image g c)"
  unfolding WriteCFrame_def cframe_image_def Let_def by (intro emits_intros)

lemma emits_controlled: "emits (WriteControlled v) (controlled_image v)"
  unfolding WriteControlled_def controlled_image_def by (intro emits_intros)

lemma emits_option:
  "(\<And>a. emits (f a) (img a)) \<Longrightarrow> emits (case x of None \<Rightarrow> id | Some a \<Rightarrow> f a) (option_image img x)"
  by (cases x) (simp_all add: option_image_def emits_id)

lemma emits_reserved_action: "emits (WriteReservedAction x) (option_image reserved_action_image x)"
  unfolding WriteReservedAction_def reserved_action_image_def by (intro emits_option emits_intros emits_action)

lemma emits_present: "emits (Writer_Integer (if b then 1 else 0 :: u8)) (int_image (present_byte b))"
  unfolding present_byte_def by (rule emits_Integer)

lemmas emits_parts = emits_comp emits_present emits_Integer emits_Float emits_ObjectId emits_fold emits_vector emits_cframe
  emits_controlled emits_reserved_action emits_action emits_option

lemma emits_compact_fields:
  "emits (WriteCompactFields rotation velocity normal s)
     (compact_fields_image rotation velocity normal s @ option_image action_image (ActiveAction s))"
  unfolding WriteCompactFields_def compact_fields_image_def vec3_image_def append_assoc by (intro emits_parts)

definition quantizable :: "glm \<Rightarrow> CharacterAuthoritativeState \<Rightarrow> bool" where
  "quantizable g s \<longleftrightarrow> quantized_rotation g s \<noteq> None \<and> quantized_velocity s \<noteq> None \<and> quantized_floor s \<noteq> None"

lemma WriteCompactState_eq:
  assumes "quantizable g s"
  shows "WriteCompactState g s w =
     (let w' = WriteCompactFields (the (quantized_rotation g s)) (the (quantized_velocity s)) (the (quantized_floor s)) s w
      in (Writer_Succeeded w', w'))"
  using assms by (auto simp: quantizable_def WriteCompactState_def)

lemma emits_compact_states:
  "(\<And>s. s \<in> set ss \<Longrightarrow> quantizable g s) \<Longrightarrow> emits (WriteCompactStates g ss) (concat (map (compact_image g) ss))"
proof (induction ss)
  case Nil
  then show ?case using emits_id by (simp add: id_def)
next
  case (Cons s ss)
  let ?f = "WriteCompactFields (the (quantized_rotation g s)) (the (quantized_velocity s)) (the (quantized_floor s)) s"
  have "WriteCompactStates g (s # ss) =
      (\<lambda>w. if \<not> Writer_Succeeded (?f w) then ?f w else WriteCompactStates g ss (?f w))"
    using Cons.prems by (simp add: WriteCompactState_eq Let_def fun_eq_iff)
  moreover have "emits (WriteCompactStates g ss) (concat (map (compact_image g) ss))"
    using Cons by simp
  from emits_unless_failed [OF emits_compact_fields this]
  have "emits (\<lambda>w. if \<not> Writer_Succeeded (?f w) then ?f w else WriteCompactStates g ss (?f w))
      (compact_image g s @ concat (map (compact_image g) ss))"
    unfolding compact_image_def [of g s] .
  ultimately show ?case by simp
qed

lemma GetCompact_quantizable: "0 < GetCompactCharacterStateEncodedBytes g s \<longleftrightarrow> CharacterAuthoritativeState_IsValid g s \<and> quantizable g s"
  by (simp add: GetCompactCharacterStateEncodedBytes_def quantizable_def CompactCharacterStateBytes_def)

lemma frame_states_validD:
  "frame_states_valid g tick prev ss \<Longrightarrow> s \<in> set ss \<Longrightarrow>
     AuthoritativeTick s = tick \<and> CharacterAuthoritativeState_IsValid g s \<and> quantizable g s"
  by (induction g tick prev ss rule: frame_states_valid.induct) (auto simp: GetCompact_quantizable split: if_splits)

lemma frame_validD:
  assumes "CharacterStateFrame_IsValid g f"
  shows "ServerTick f \<noteq> 0" "FrameSequence f \<noteq> 0" "MaterializationEpoch f \<noteq> 0" "StateCount f \<noteq> 0"
    "unat (StateCount f) \<le> length (States f)" "frame_states_valid g (ServerTick f) None (GetStates f)"
    "\<And>s. s \<in> set (GetStates f) \<Longrightarrow> AuthoritativeTick s = ServerTick f \<and> CharacterAuthoritativeState_IsValid g s \<and> quantizable g s"
  using assms by (auto simp: CharacterStateFrame_IsValid_def Sequence_IsValid_def GetStates_def
      dest: frame_states_validD split: if_splits)

lemma emits_character_body:
  "CharacterMessage_IsValid g m \<Longrightarrow> emits (WriteCharacterBody g m) (character_body_image g m)"
proof (induction m)
  case (StateFrame f)
  then have "\<And>s. s \<in> set (GetStates f) \<Longrightarrow> quantizable g s" using frame_validD(7) by simp
  then show ?case
    by (simp only: WriteCharacterBody.simps character_body_image.simps WriteStateFrame_def frame_header_image_def append_assoc)
      (intro emits_comp emits_Integer emits_compact_states)
next
  case (AuthoritativeState s)
  show ?case
    by (simp only: WriteCharacterBody.simps character_body_image.simps WriteState_def state_image_def append_assoc)
      (intro emits_parts)
qed (simp_all only: WriteCharacterBody.simps character_body_image.simps append_assoc WriteTransition_def transition_image_def
    WriteInput_def input_image_def WriteActionRequest_def request_image_def WriteActionResult_def result_image_def,
    (intro emits_parts)+)

lemma Encode_character:
  assumes "CharacterMessage_IsValid g m"
  shows "EncodeCharacterMessage g m =
     (if length (character_image g m) \<le> character_limit m then Inr (character_image g m)
      else SerializationFailure LimitExceeded ''Character frame exceeds its limit'')"
proof -
  have "emits (WriteCharacterBody g m \<circ> Writer_Integer (0 :: u8) \<circ>
      Writer_Integer (kind_byte (GetCharacterMessageKind m)) \<circ> Writer_Integer (character_version m) \<circ> Writer_Integer CharacterMagic)
      (character_image g m)"
    unfolding character_image_def character_header_image_def append_assoc
    by (intro emits_comp emits_Integer emits_character_body assms)
  from emits_succeeds [OF this] emits_fails [OF this] show ?thesis
    using assms by (auto simp: EncodeCharacterMessage_def Let_def Writer_Succeeded_def not_le)
qed

section \<open>How long a message is\<close>

definition reserved_action_bytes :: "CharacterActionState option \<Rightarrow> nat" where
  "reserved_action_bytes x = (if x = None then 0 else CompactCharacterActionStateBytes + 4)"

primrec character_size :: "glm \<Rightarrow> CharacterMessage \<Rightarrow> nat" where
  "character_size g (ControlTransition t) = 40"
| "character_size g (InputCommand c) = 60"
| "character_size g (ActionRequest a) = 48"
| "character_size g (ActionResult a) = 40 + reserved_action_bytes (AuthoritativeAction a)"
| "character_size g (AuthoritativeState s) = 112 + reserved_action_bytes (ActiveAction s)"
| "character_size g (StateFrame f) =
     CharacterStateFrameHeaderBytes + sum_list (map (GetCompactCharacterStateEncodedBytes g) (GetStates f))"

lemma length_int_images: "length (concat (map int_image (vs :: 'a::len word list))) = length vs * (LENGTH('a) div 8)"
  by (induction vs) (simp_all add: length_int_image)

lemma those_length: "those xs \<noteq> None \<Longrightarrow> length (the (those xs)) = length xs"
  by (induction xs) (auto split: option.splits)

lemma length_quantized:
  assumes "quantizable g s"
  shows "length (the (quantized_rotation g s)) = 4" "length (the (quantized_velocity s)) = 3"
    "length (the (quantized_floor s)) = 3"
proof -
  have l: "length (quat_list q) = 4" "length (vec3_list v) = 3" for q v by (cases q, simp) (cases v, simp)
  show "length (the (quantized_rotation g s)) = 4" "length (the (quantized_velocity s)) = 3"
    "length (the (quantized_floor s)) = 3"
    using assms by (simp_all add: quantizable_def quantized_rotation_def quantized_velocity_def quantized_floor_def l
        those_length del: not_None_eq)
qed

lemmas length_parts = length_int_image length_int_images object_id_image_def vec3_image_def cframe_image_def Let_def
  controlled_image_def asset_image_def content_image_def action_image_def reserved_action_image_def option_image_def

lemma length_action: "wf_action a \<Longrightarrow> length (action_image a) = CompactCharacterActionStateBytes"
  by (simp add: length_parts wf_action_def CompactCharacterActionStateBytes_def)

lemma length_reserved_action:
  "(case x of None \<Rightarrow> True | Some a \<Rightarrow> wf_action a) \<Longrightarrow>
     length (option_image reserved_action_image x) = reserved_action_bytes x"
  by (cases x) (simp_all add: option_image_def reserved_action_image_def reserved_action_bytes_def length_action length_int_image)

lemma length_compact:
  assumes "CharacterAuthoritativeState_IsValid g s" "quantizable g s" "wf_state s"
  shows "length (compact_image g s) = GetCompactCharacterStateEncodedBytes g s"
proof -
  have q: "quantized_rotation g s \<noteq> None" "quantized_velocity s \<noteq> None" "quantized_floor s \<noteq> None"
    using assms(2) by (simp_all add: quantizable_def)
  have "length (option_image action_image (ActiveAction s)) =
      (if ActiveAction s \<noteq> None then CompactCharacterActionStateBytes else 0)"
    using assms(3) by (auto simp: wf_state_def option_image_def length_action split: option.splits)
  moreover have "length (compact_fields_image (the (quantized_rotation g s)) (the (quantized_velocity s))
      (the (quantized_floor s)) s) = CompactCharacterStateBytes"
    by (simp add: compact_fields_image_def length_int_image length_int_images object_id_image_def vec3_image_def
        length_quantized [OF assms(2)] CompactCharacterStateBytes_def)
  ultimately show ?thesis
    using assms(1) q by (simp add: compact_image_def GetCompactCharacterStateEncodedBytes_def del: not_None_eq)
qed

lemma GetStates_wf: "wf_message (StateFrame f) \<Longrightarrow> s \<in> set (GetStates f) \<Longrightarrow> wf_state s"
  by (auto simp: GetStates_def list_all_iff dest: in_set_takeD)

lemma length_compact_states:
  assumes "CharacterStateFrame_IsValid g f" "wf_message (StateFrame f)"
  shows "length (concat (map (compact_image g) (GetStates f))) =
    sum_list (map (GetCompactCharacterStateEncodedBytes g) (GetStates f))"
proof -
  have "\<And>s. s \<in> set (GetStates f) \<Longrightarrow> length (compact_image g s) = GetCompactCharacterStateEncodedBytes g s"
    using frame_validD(7) [OF assms(1)] GetStates_wf [OF assms(2)] length_compact by blast
  then show ?thesis by (simp add: length_concat comp_def cong: map_cong)
qed

lemma length_character:
  assumes "CharacterMessage_IsValid g m" "wf_message m"
  shows "length (character_image g m) = character_size g m"
proof (cases m)
  case (StateFrame f)
  then show ?thesis
    using assms by (simp add: character_image_def character_header_image_def frame_header_image_def length_int_image
        CharacterStateFrameHeaderBytes_def length_compact_states)
next
  case (ActionResult a)
  with assms(2) show ?thesis
    by (simp add: character_image_def character_header_image_def controlled_image_def object_id_image_def
        result_image_def length_int_image length_reserved_action)
next
  case (AuthoritativeState s)
  with assms(2) show ?thesis
    by (simp add: character_image_def character_header_image_def controlled_image_def object_id_image_def
        state_image_def vec3_image_def cframe_image_def Let_def length_int_image length_reserved_action wf_state_def)
qed (simp_all add: character_image_def character_header_image_def controlled_image_def object_id_image_def
    transition_image_def input_image_def request_image_def length_int_image)

lemma small_messages: "\<not> is_state_frame m \<Longrightarrow> character_size g m \<le> MaximumCharacterFrameBytes"
  by (cases m) (simp_all add: is_state_frame_def reserved_action_bytes_def MaximumCharacterFrameBytes_def
      CompactCharacterActionStateBytes_def)

lemma compact_bytes_le:
  "GetCompactCharacterStateEncodedBytes g s \<le> CompactCharacterStateBytes +
     (if ActiveAction s \<noteq> None then CompactCharacterActionStateBytes else 0)"
  by (simp add: GetCompactCharacterStateEncodedBytes_def)

lemma actionless_frame_size:
  assumes "wf_message (StateFrame f)" "\<And>s. s \<in> set (GetStates f) \<Longrightarrow> ActiveAction s = None"
  shows "character_size g (StateFrame f) \<le> MaximumCharacterStateFrameBytes"
proof -
  let ?n = "length (GetStates f)"
  have "sum_list (map (GetCompactCharacterStateEncodedBytes g) (GetStates f)) \<le>
      sum_list (map (\<lambda>_. CompactCharacterStateBytes) (GetStates f))"
    using compact_bytes_le assms(2) by (intro sum_list_mono) (metis add.right_neutral)
  moreover have "?n \<le> 15" using assms(1) by (simp add: GetStates_def MaximumCharacterStatesPerFrame_def)
  ultimately show ?thesis
    by (simp add: sum_list_triv CompactCharacterStateBytes_def CharacterStateFrameHeaderBytes_def
        MaximumCharacterStateFrameBytes_def)
qed

section \<open>What is read back\<close>

lemma reads_float: "reads Reader_Float (int_image v) v"
  unfolding Reader_Float_def by (rule reads_u32)

lemma reads_float_list: "n = length vs \<Longrightarrow> reads (rd_list n (Reader_Integer :: u16 rd)) (concat (map int_image vs)) vs"
  using reads_list [where vs = vs and img = int_image and g = id and m = "Reader_Integer :: u16 rd"] reads_u16 by simp

lemma reads_byte_list: "n = length vs \<Longrightarrow> reads (rd_list n (Reader_Integer :: u8 rd)) (concat (map int_image vs)) vs"
  using reads_list [where vs = vs and img = int_image and g = id and m = "Reader_Integer :: u8 rd"] reads_u8 by simp

lemma reads_checked: "ok \<Longrightarrow> reads m bs x \<Longrightarrow> reads (rd_bind (rd_check ok e) (\<lambda>_. m)) bs x"
  by (simp add: reads_def rd_bind_def rd_check_def)

lemmas reads_floats = reads_intros reads_bind [OF reads_float] reads_return

lemma reads_last: "reads m as x \<Longrightarrow> reads (f x) [] y \<Longrightarrow> reads (rd_bind m f) as y"
  using reads_bind [of m as x f "[]"] by simp

lemmas reads_lasts = reads_last [OF reads_u8] reads_last [OF reads_u16] reads_last [OF reads_u32] reads_last [OF reads_u64]
  reads_last [OF reads_float]

lemma reads_asset: "AssetId_IsValid i \<Longrightarrow> reads ReadAssetId (asset_image i) i"
  unfolding ReadAssetId_def asset_image_def by (cases i) (auto intro!: reads_bind [OF reads_u64] reads_last [OF reads_u64] reads_check)

lemma reads_content:
  "AssetContentId_IsValid i \<Longrightarrow> length (ContentBytes i) = 32 \<Longrightarrow> reads ReadContentId (content_image i) i"
  unfolding ReadContentId_def content_image_def
  by (rule reads_last [OF reads_byte_list]) (auto intro: reads_check)

lemma reads_vector: "reads ReadVector3 (vec3_image v) v"
  unfolding ReadVector3_def vec3_image_def
  by (cases v) (auto intro!: reads_bind [OF reads_float] reads_last [OF reads_float] reads_return)

lemma near_one_finite: "near_one l \<Longrightarrow> isfinite32 l"
proof (rule ccontr)
  assume l: "near_one l" "\<not> isfinite32 l"
  then have "(0x7f800000 :: f32) \<le> l" unfolding isfinite32_def
    using word_and_le1 [of l "0x7f800000"] word_and_le2 [of l "0x7f800000"] by metis
  also have "l \<le> 0x3f8020c4" using l(1) by (simp add: near_one_def)
  finally show False by simp
qed

lemma off_one_iff: "\<not> isfinite32 l \<or> off_one l \<longleftrightarrow> \<not> near_one l"
  using near_one_finite by (auto simp: off_one_def f32_nan_def isfinite32_def)

lemma reads_cframe:
  assumes "IsFinite_CFrame g c"
  shows "reads (ReadCFrame g) (cframe_image g c) (CFrame (Place c) (mat3_cast g (normalize g (ToQuaternion g c))))"
proof -
  obtain px py pz where p: "Place c = Vec3 px py pz" by (cases "Place c")
  obtain x y z w where q: "ToQuaternion g c = Quat x y z w" by (cases "ToQuaternion g c")
  have "IsFinite_vec3 (Vec3 px py pz)" "isfinite32 x" "isfinite32 y" "isfinite32 z" "isfinite32 w"
    "\<not> off_one (quat_length g (Quat x y z w))"
    using assms p q by (auto simp: IsFinite_CFrame_def off_one_def)
  then show ?thesis
    unfolding ReadCFrame_def cframe_image_def Let_def p q Vec3.sel Quat.sel
    by (intro reads_bind [OF reads_float] reads_last [OF reads_float]) (simp add: reads_return)
qed

lemma reads_action:
  assumes "CharacterActionState_IsValid a" "wf_action a"
  shows "reads ReadActionState (action_image a) a"
proof -
  have i: "AssetId_IsValid (Animation a)" "AssetContentId_IsValid (ContentRevision a)"
    "length (ContentBytes (ContentRevision a)) = 32"
    using assms by (simp_all add: CharacterActionState_IsValid_def wf_action_def)
  have "reads ReadActionState (action_image a)
    \<lparr>ActionSequence = ActionSequence a, ActionToken = ActionToken a, Animation = Animation a,
     ContentRevision = ContentRevision a, StartTick = StartTick a, DurationTicks = DurationTicks a\<rparr>"
    unfolding ReadActionState_def action_image_def
    by (intro reads_bind [OF reads_u64] reads_bind [OF reads_u32] reads_bind [OF reads_asset] reads_bind [OF reads_content]
        reads_last [OF reads_u32] reads_return i)
  then show ?thesis by (cases a) simp
qed

subsection \<open>Compact states\<close>

lemma quantized_not_min: "QuantizeSigned scale b \<noteq> Some 0x8000"
  unfolding QuantizeSigned_Some by blast

lemma those_mem: "those xs = Some ys \<Longrightarrow> y \<in> set ys \<Longrightarrow> Some y \<in> set xs"
  by (induction xs arbitrary: ys) (auto split: option.splits)

lemma quantized_values:
  assumes "quantizable g s"
  shows "0x8000 \<notin> set (the (quantized_rotation g s))" "0x8000 \<notin> set (the (quantized_velocity s))"
    "0x8000 \<notin> set (the (quantized_floor s))"
proof -
  have "0x8000 \<notin> set (the (those (map (QuantizeSigned n) xs)))" if "those (map (QuantizeSigned n) xs) \<noteq> None" for n xs
  proof
    assume "0x8000 \<in> set (the (those (map (QuantizeSigned n) xs)))"
    with that have "Some 0x8000 \<in> set (map (QuantizeSigned n) xs)" by (intro those_mem) auto
    then show False using quantized_not_min by (metis imageE list.set_map)
  qed
  then show "0x8000 \<notin> set (the (quantized_rotation g s))" "0x8000 \<notin> set (the (quantized_velocity s))"
    "0x8000 \<notin> set (the (quantized_floor s))"
    using assms unfolding quantizable_def quantized_rotation_def quantized_velocity_def quantized_floor_def by blast+
qed

definition compact_rotation :: "glm \<Rightarrow> CharacterAuthoritativeState \<Rightarrow> Quat" where
  "compact_rotation g s = quat_of (map unit_value (the (quantized_rotation g s)))"

text \<open>What a receiver gets for a compact state, and when it takes it.\<close>

definition compact_received :: "glm \<Rightarrow> CharacterAuthoritativeState \<Rightarrow> CharacterAuthoritativeState" where
  "compact_received g s =
     s\<lparr>Transform := CFrame (Place (Transform s)) (mat3_cast g (normalize g (compact_rotation g s))),
       Velocity := vec3_of (map velocity_value (the (quantized_velocity s))),
       FloorNormal := vec3_of (map unit_value (the (quantized_floor s)))\<rparr>"

definition compact_receivable :: "glm \<Rightarrow> CharacterAuthoritativeState \<Rightarrow> bool" where
  "compact_receivable g s \<longleftrightarrow>
     near_one (quat_length g (compact_rotation g s)) \<and> CharacterAuthoritativeState_IsValid g (compact_received g s)"

lemma present_byte_simps [simp]: "\<not> 1 < present_byte b" "present_byte b \<noteq> 0 \<longleftrightarrow> b" "present_byte b = 0 \<longleftrightarrow> \<not> b"
  by (simp_all add: present_byte_def)

lemma reads_compact_fields:
  assumes "ObjectId_IsValid (Character s)" "length rotation = 4" "length velocity = 3" "length normal = 3"
    "0x8000 \<notin> set rotation" "0x8000 \<notin> set velocity" "0x8000 \<notin> set normal"
  shows "reads ReadCompactFields (compact_fields_image rotation velocity normal s)
    (\<lparr>Character = Character s, ControlEpoch = ControlEpoch s\<rparr>, StateSequence s, AcknowledgedInput s, ResolvedAction s,
     Place (Transform s), rotation, velocity, normal, StateFlags s, present_byte (ActiveAction s \<noteq> None))"
  unfolding ReadCompactFields_def compact_fields_image_def
  by (intro reads_bind [OF reads_object] reads_bind [OF reads_u64] reads_bind [OF reads_vector]
      reads_bind [OF reads_float_list] reads_bind [OF reads_u8] reads_last [OF reads_u8] reads_check)
    (use assms in simp_all)

lemma reads_option:
  assumes "\<And>a. x = Some a \<Longrightarrow> reads m (img a) a"
  shows "reads (if present_byte (x \<noteq> None) \<noteq> 0 then rd_bind m (\<lambda>a. rd_return (Some a)) else rd_return None) (option_image img x) x"
  using assms reads_map by (cases x) (auto simp: option_image_def reads_return)

lemma ReadCompactState_result:
  assumes v: "CharacterAuthoritativeState_IsValid g s" and q: "quantizable g s" and wf: "wf_state s"
    and r: "takes (compact_image g s) r r'"
  shows "if compact_receivable g s
    then ReadCompactState g (AuthoritativeTick s) r = (Some (compact_received g s), r')
    else fst (ReadCompactState g (AuthoritativeTick s) r) = None"
proof -
  let ?a = "\<lambda>x. if x \<noteq> (0 :: u8) then rd_bind ReadActionState (\<lambda>a. rd_return (Some a)) else rd_return None"
  from r obtain r1 where r1: "takes (compact_fields_image (the (quantized_rotation g s)) (the (quantized_velocity s))
      (the (quantized_floor s)) s) r r1" and r': "takes (option_image action_image (ActiveAction s)) r1 r'"
    unfolding compact_image_def takes_append by blast
  have fields: "ReadCompactFields r = (Some (\<lparr>Character = Character s, ControlEpoch = ControlEpoch s\<rparr>, StateSequence s,
      AcknowledgedInput s, ResolvedAction s, Place (Transform s), the (quantized_rotation g s),
      the (quantized_velocity s), the (quantized_floor s), StateFlags s, present_byte (ActiveAction s \<noteq> None)), r1)"
    using reads_compact_fields [OF _ length_quantized [OF q] quantized_values [OF q]] v r1
    by (simp add: reads_def CharacterAuthoritativeState_IsValid_def)
  have action: "?a (present_byte (ActiveAction s \<noteq> None)) r1 = (Some (ActiveAction s), r')"
  proof -
    have "\<And>a. ActiveAction s = Some a \<Longrightarrow> reads ReadActionState (action_image a) a"
      using v wf by (intro reads_action) (simp_all add: CharacterAuthoritativeState_IsValid_def wf_state_def)
    then show ?thesis using reads_option r' unfolding reads_def by blast
  qed
  have place: "IsFinite_vec3 (Place (Transform s))"
    using v by (simp add: CharacterAuthoritativeState_IsValid_def IsFinite_CFrame_def)
  let ?l = "quat_length g (compact_rotation g s)"
  show ?thesis
  proof (cases "near_one ?l")
    case True
    then have ok: "\<not> (\<not> IsFinite_vec3 (Place (Transform s)) \<or> \<not> isfinite32 ?l \<or> off_one ?l)"
      using place off_one_iff by blast
    have received: "\<lparr>Character = Character s, ControlEpoch = ControlEpoch s, StateSequence = StateSequence s,
        AcknowledgedInput = AcknowledgedInput s, ResolvedAction = ResolvedAction s, AuthoritativeTick = AuthoritativeTick s,
        Transform = CFrame (Place (Transform s)) (mat3_cast g (normalize g (compact_rotation g s))),
        Velocity = vec3_of (map velocity_value (the (quantized_velocity s))),
        FloorNormal = vec3_of (map unit_value (the (quantized_floor s))), StateFlags = StateFlags s,
        ActiveAction = ActiveAction s\<rparr> = compact_received g s"
      unfolding compact_received_def by simp
    have "ReadCompactState g (AuthoritativeTick s) r =
      rd_guard (CharacterAuthoritativeState_IsValid g (compact_received g s)) (rd_return (compact_received g s)) r'"
      unfolding ReadCompactState_def rd_bind_def [of ReadCompactFields] fields prod.case option.case Let_def
        compact_rotation_def [symmetric] if_not_P [OF ok] rd_bind_def [of "?a _"] action received CharacterControlled.simps ..
    then show ?thesis using True by (simp add: compact_receivable_def rd_guard_def rd_return_def rd_reject_def)
  next
    case False
    then have ok: "\<not> IsFinite_vec3 (Place (Transform s)) \<or> \<not> isfinite32 ?l \<or> off_one ?l"
      using off_one_iff by blast
    have "fst (ReadCompactState g (AuthoritativeTick s) r) = None"
      unfolding ReadCompactState_def rd_bind_def [of ReadCompactFields] fields prod.case option.case Let_def
        compact_rotation_def [symmetric] if_P [OF ok] by (simp add: Fail_def)
    with False show ?thesis by (simp add: compact_receivable_def)
  qed
qed

subsection \<open>Messages\<close>

primrec received_message :: "glm \<Rightarrow> CharacterMessage \<Rightarrow> CharacterMessage" where
  "received_message g (ControlTransition t) = ControlTransition t"
| "received_message g (InputCommand c) = InputCommand c"
| "received_message g (ActionRequest a) = ActionRequest a"
| "received_message g (ActionResult a) = ActionResult a"
| "received_message g (AuthoritativeState s) =
     AuthoritativeState (s\<lparr>Transform := CFrame (Place (Transform s)) (mat3_cast g (normalize g (ToQuaternion g (Transform s))))\<rparr>)"
| "received_message g (StateFrame f) = StateFrame (f\<lparr>States := state_array (map (compact_received g) (GetStates f))\<rparr>)"

text \<open>
  Rotations are renormalised by the receiver, and compact values have been rounded by the
  sender, so the receiver's own validity check is the condition.
\<close>

definition receivable :: "glm \<Rightarrow> CharacterMessage \<Rightarrow> bool" where
  "receivable g m \<longleftrightarrow> CharacterMessage_IsValid g (received_message g m) \<and>
     (case m of StateFrame f \<Rightarrow> list_all (compact_receivable g) (GetStates f) | _ \<Rightarrow> True)"

lemma rd_list_result:
  assumes "\<And>v r r'. v \<in> set vs \<Longrightarrow> takes (img v) r r' \<Longrightarrow>
      if P v then m r = (Some (h v), r') else fst (m r) = None"
    and "takes (concat (map img vs)) r r'"
  shows "if list_all P vs then rd_list (length vs) m r = (Some (map h vs), r') else fst (rd_list (length vs) m r) = None"
  using assms
proof (induction vs arbitrary: r)
  case (Cons v vs)
  from Cons.prems(2) obtain r1 where r1: "takes (img v) r r1" "takes (concat (map img vs)) r1 r'"
    by (auto simp: takes_append)
  have v: "if P v then m r = (Some (h v), r1) else fst (m r) = None" using Cons.prems(1) [OF list.set_intros(1) r1(1)] .
  have vs: "if list_all P vs then rd_list (length vs) m r1 = (Some (map h vs), r')
      else fst (rd_list (length vs) m r1) = None"
    by (rule Cons.IH [OF Cons.prems(1) r1(2)]) simp_all
  show ?case
    using v vs by (auto simp: rd_bind_def rd_return_def split: if_splits option.splits prod.splits)
qed (simp add: takes_Nil rd_return_def)

lemma DecodeReservedAction_ok:
  assumes "\<And>a. x = Some a \<Longrightarrow> CharacterActionState_IsValid a \<and> wf_action a"
    and "takes (option_image reserved_action_image x) r r'"
  shows "DecodeReservedAction e (x \<noteq> None) r = Inr (x, r')"
proof (cases x)
  case None
  with assms(2) show ?thesis by (simp add: option_image_def takes_Nil DecodeReservedAction_def)
next
  case (Some a)
  then have "reads (rd_bind ReadActionState (\<lambda>a. rd_bind Reader_Integer (\<lambda>reserved. rd_return (a, reserved))))
      (reserved_action_image a) (a, 0 :: u32)"
    unfolding reserved_action_image_def
    using assms(1) by (intro reads_bind [OF reads_action] reads_last [OF reads_u32] reads_return) simp_all
  with assms(2) Some show ?thesis by (simp add: reads_def option_image_def DecodeReservedAction_def)
qed

definition controlled :: "'a CharacterControlled_scheme \<Rightarrow> CharacterControlled" where
  "controlled v = \<lparr>Character = Character v, ControlEpoch = ControlEpoch v\<rparr>"

lemma controlled_sel [simp]: "Character (controlled v) = Character v" "ControlEpoch (controlled v) = ControlEpoch v"
  by (simp_all add: controlled_def)

lemma DecodeTransition_ok:
  "takes (transition_image t) r r' \<Longrightarrow> DecodeTransition (controlled t) (Bound t) r = Inr (ControlTransition t, r')"
proof -
  assume r: "takes (transition_image t) r r'"
  have "reads (rd_bind Reader_Integer (\<lambda>channel. rd_bind Reader_Integer (\<lambda>tick. rd_return (channel, tick))))
      (transition_image t) (Channel t, TransitionTick t)"
    unfolding transition_image_def by (intro reads_bind [OF reads_u64] reads_last [OF reads_u64] reads_return)
  with r show ?thesis by (simp add: reads_def DecodeTransition_def)
qed

lemma DecodeInput_ok: "takes (input_image c) r r' \<Longrightarrow> DecodeInput (controlled c) r = Inr (InputCommand c, r')"
proof -
  assume r: "takes (input_image c) r r'"
  have "reads ReadInput (input_image c) (InputSequence c, SimulationTick c, DeltaSeconds c,
      Vec2 (Vec2_x (MoveIntent c)) (Vec2_y (MoveIntent c)), FacingYawRadians c, InputFlags c, 0, 0)"
    unfolding ReadInput_def input_image_def
    by (intro reads_bind [OF reads_u64] reads_bind [OF reads_float] reads_bind [OF reads_u8] reads_last [OF reads_u16] reads_return)
  with r show ?thesis by (simp add: reads_def DecodeInput_def)
qed

lemma DecodeActionRequest_ok: "takes (request_image a) r r' \<Longrightarrow> DecodeActionRequest (controlled a) r = Inr (ActionRequest a, r')"
proof -
  assume r: "takes (request_image a) r r'"
  have "reads (rd_bind Reader_Integer (\<lambda>sequence. rd_bind Reader_Integer (\<lambda>basedOn. rd_bind Reader_Integer (\<lambda>token.
      rd_bind Reader_Integer (\<lambda>reserved. rd_return (sequence, basedOn, token, reserved)))))) (request_image a)
      (RequestSequence a, BasedOnInput a, RequestedActionToken a, 0 :: u32)"
    unfolding request_image_def
    by (intro reads_bind [OF reads_u64] reads_bind [OF reads_u32] reads_last [OF reads_u32] reads_return)
  with r show ?thesis by (simp add: reads_def DecodeActionRequest_def)
qed

lemma DecodeState_ok:
  assumes v: "CharacterAuthoritativeState_IsValid g s" and wf: "wf_state s"
    and r: "takes (state_image g s @ option_image reserved_action_image (ActiveAction s)) r r'"
  shows "DecodeState g (controlled s) r = Inr (received_message g (AuthoritativeState s), r')"
proof -
  from r obtain r1 where r1: "takes (state_image g s) r r1"
    and r': "takes (option_image reserved_action_image (ActiveAction s)) r1 r'" by (auto simp: takes_append)
  have c: "IsFinite_CFrame g (Transform s)" using v by (simp add: CharacterAuthoritativeState_IsValid_def)
  have "reads (ReadStateFields g) (state_image g s) (StateSequence s, AcknowledgedInput s, ResolvedAction s,
      AuthoritativeTick s, CFrame (Place (Transform s)) (mat3_cast g (normalize g (ToQuaternion g (Transform s)))),
      Velocity s, FloorNormal s, StateFlags s, present_byte (ActiveAction s \<noteq> None), 0)"
    unfolding ReadStateFields_def state_image_def
    by (intro reads_bind [OF reads_u64] reads_bind [OF reads_cframe [OF c]] reads_bind [OF reads_vector]
        reads_bind [OF reads_u8] reads_last [OF reads_u16] reads_return)
  then have fields: "ReadStateFields g r = (Some (StateSequence s, AcknowledgedInput s, ResolvedAction s,
      AuthoritativeTick s, CFrame (Place (Transform s)) (mat3_cast g (normalize g (ToQuaternion g (Transform s)))),
      Velocity s, FloorNormal s, StateFlags s, present_byte (ActiveAction s \<noteq> None), 0), r1)"
    using r1 by (simp add: reads_def)
  have "DecodeReservedAction e (ActiveAction s \<noteq> None) r1 = Inr (ActiveAction s, r')" for e
    using v wf r' by (intro DecodeReservedAction_ok) (simp_all add: CharacterAuthoritativeState_IsValid_def wf_state_def)
  with fields show ?thesis by (simp add: DecodeState_def del: not_None_eq)
qed

lemma Decode_header:
  assumes "length (character_image g m) \<le> MaximumCharacterStateFrameBytes"
  obtains r r' where
    "DecodeCharacterMessage g (character_image g m) =
       (let kind = kind_byte (GetCharacterMessageKind m); version = character_version m in
        if version = CharacterProtocolVersion \<and> kind = kind_byte StateFrameKind then DecodeStateFrame g r
        else if version = CharacterProtocolVersion \<and> kind = kind_byte ActionResultKind then DecodeActionResult r
        else if version = CharacterProtocolVersion
        then SerializationFailure InvalidValue ''Character v4 opcode is invalid''
        else if version \<noteq> LegacyCharacterProtocolVersion
        then SerializationFailure UnsupportedVersion ''Character protocol version is unsupported''
        else DecodeLegacy g (character_image g m) kind r)"
    "takes (character_body_image g m) r r'" "Complete r'"
proof -
  let ?bs = "character_image g m" and ?r = "GameBinaryReader (character_image g m) ''Character frame''"
  obtain r' where r': "takes ?bs ?r r'" "Complete r'" using takes_complete by blast
  then obtain r where r: "takes (character_header_image m) ?r r" "takes (character_body_image g m) r r'"
    unfolding character_image_def [of g m] takes_append by blast
  have "reads ReadCharacterHeader (character_header_image m)
      (CharacterMagic, character_version m, kind_byte (GetCharacterMessageKind m), 0)"
    unfolding ReadCharacterHeader_def character_header_image_def
    by (intro reads_bind [OF reads_u32] reads_bind [OF reads_u16] reads_bind [OF reads_u8] reads_last [OF reads_u8] reads_return)
  with r(1) have "ReadCharacterHeader ?r = (Some (CharacterMagic, character_version m, kind_byte (GetCharacterMessageKind m), 0), r)"
    by (simp add: reads_def)
  with assms show ?thesis
    by (intro that [OF _ r(2) r'(2)]) (simp add: DecodeCharacterMessage_def Let_def)
qed

lemma DecodeLegacy_ok:
  assumes "length bs \<le> MaximumCharacterFrameBytes" "\<not> kind > kind_byte StateKind"
    and r: "takes (controlled_image v @ rest) r r'" "Complete r'"
    and v: "ObjectId_IsValid (Character v)" "Sequence_IsValid (ControlEpoch v)"
    and body: "\<And>r1. takes rest r1 r' \<Longrightarrow> DecodeLegacyBody g kind (controlled v) r1 = Inr (m, r')"
  shows "DecodeLegacy g bs kind r =
     (if CharacterMessage_IsValid g m then Inr m
      else SerializationFailure InvalidValue ''Character frame contains trailing or invalid data'')"
proof -
  from r(1) obtain r1 where r1: "takes (controlled_image v) r r1" "takes rest r1 r'" by (auto simp: takes_append)
  have "reads (rd_bind ReadBinaryObjectId (\<lambda>character. rd_bind Reader_Integer (\<lambda>epoch.
      rd_return \<lparr>Character = character, ControlEpoch = epoch\<rparr>))) (controlled_image v) (controlled v)"
    unfolding controlled_image_def controlled_def
    by (intro reads_bind [OF reads_object] reads_last [OF reads_u64] reads_return v)
  then have "rd_bind ReadBinaryObjectId (\<lambda>character. rd_bind Reader_Integer (\<lambda>epoch.
      rd_return \<lparr>Character = character, ControlEpoch = epoch\<rparr>)) r = (Some (controlled v), r1)"
    using r1(1) by (simp add: reads_def)
  with assms(1,2) v(2) body [OF r1(2)] r(2) show ?thesis
    by (simp add: DecodeLegacy_def Sequence_IsValid_def)
qed

lemma decodes_legacy:
  assumes v: "CharacterMessage_IsValid g m" and wf: "wf_message m" and modern: "\<not> is_modern m"
    and len: "length bs \<le> MaximumCharacterFrameBytes" and r: "takes (character_body_image g m) r r'" "Complete r'"
  shows "DecodeLegacy g bs (kind_byte (GetCharacterMessageKind m)) r =
     (if CharacterMessage_IsValid g (received_message g m) then Inr (received_message g m)
      else SerializationFailure InvalidValue ''Character frame contains trailing or invalid data'')"
proof (cases m)
  case (ControlTransition t)
  note body = DecodeTransition_ok [of t]
  show ?thesis
    unfolding ControlTransition
    by (rule DecodeLegacy_ok [OF len, where v = t and rest = "transition_image t"])
      (use v r body ControlTransition in
        \<open>cases "Bound t"; simp add: CharacterControlTransition_IsValid_def DecodeLegacyBody_def\<close>)+
next
  case (InputCommand c)
  note body = DecodeInput_ok [of c]
  show ?thesis
    unfolding InputCommand
    by (rule DecodeLegacy_ok [OF len, where v = c and rest = "input_image c"])
      (use v r body InputCommand in \<open>simp_all add: CharacterInputCommand_IsValid_def DecodeLegacyBody_def\<close>)
next
  case (ActionRequest a)
  note body = DecodeActionRequest_ok [of a]
  show ?thesis
    unfolding ActionRequest
    by (rule DecodeLegacy_ok [OF len, where v = a and rest = "request_image a"])
      (use v r body ActionRequest in \<open>simp_all add: CharacterActionRequest_IsValid_def DecodeLegacyBody_def\<close>)
next
  case (AuthoritativeState s)
  then have "CharacterAuthoritativeState_IsValid g s" "wf_state s" using v wf by simp_all
  note body = DecodeState_ok [OF this]
  show ?thesis
    unfolding AuthoritativeState
    by (rule DecodeLegacy_ok [OF len, where v = s and rest = "state_image g s @ option_image reserved_action_image (ActiveAction s)"])
      (use v r body AuthoritativeState in \<open>simp_all add: CharacterAuthoritativeState_IsValid_def DecodeLegacyBody_def\<close>)
qed (use modern in \<open>simp_all add: is_modern_def is_state_frame_def\<close>)

lemma decodes_result:
  assumes v: "CharacterActionResult_IsValid a" and wf: "wf_message (ActionResult a)"
    and r: "takes (character_body_image g (ActionResult a)) r r'" "Complete r'"
  shows "DecodeActionResult r = Inr (ActionResult a)"
proof -
  from r(1) obtain r1 where r1: "takes (controlled_image a @ result_image a) r r1"
    and r': "takes (option_image reserved_action_image (AuthoritativeAction a)) r1 r'"
    unfolding character_body_image.simps takes_append [of "controlled_image a @ result_image a"] by blast
  have a: "ObjectId_IsValid (Character a)" "ControlEpoch a \<noteq> 0" "Accepted a = (AuthoritativeAction a \<noteq> None)"
    using v by (simp_all add: CharacterActionResult_IsValid_def Sequence_IsValid_def)
  have "reads ReadResultHeader (controlled_image a @ result_image a) (Character a, ControlEpoch a, ResultSequence a,
      ResultActionToken a, present_byte (Accepted a), 0, 0)"
    unfolding ReadResultHeader_def controlled_image_def result_image_def append_assoc
    by (intro reads_bind [OF reads_object] reads_bind [OF reads_u64] reads_bind [OF reads_u32] reads_bind [OF reads_u8]
        reads_last [OF reads_u16] reads_return a)
  then have header: "ReadResultHeader r = (Some (Character a, ControlEpoch a, ResultSequence a,
      ResultActionToken a, present_byte (Accepted a), 0, 0), r1)"
    using r1 by (simp add: reads_def)
  have "DecodeReservedAction e (AuthoritativeAction a \<noteq> None) r1 = Inr (AuthoritativeAction a, r')" for e
    using v wf r' by (intro DecodeReservedAction_ok) (simp_all add: CharacterActionResult_IsValid_def)
  moreover have "CharacterActionResult_IsValid \<lparr>Character = Character a, ControlEpoch = ControlEpoch a,
      ResultSequence = ResultSequence a, ResultActionToken = ResultActionToken a, Accepted = Accepted a,
      AuthoritativeAction = AuthoritativeAction a\<rparr>"
    using v by (cases a) simp
  ultimately show ?thesis
    using header r(2) a(2) unfolding DecodeActionResult_def by (simp add: a(3) [symmetric] Let_def del: not_None_eq)
qed

lemma unat_count: "CharacterStateFrame_IsValid g f \<Longrightarrow> length (GetStates f) = unat (StateCount f)"
  using frame_validD(5) by (simp add: GetStates_def)

lemma decodes_frame:
  assumes v: "CharacterStateFrame_IsValid g f" and wf: "wf_message (StateFrame f)"
    and r: "takes (character_body_image g (StateFrame f)) r r'" "Complete r'"
  shows "DecodeStateFrame g r = Inr m \<longleftrightarrow> receivable g (StateFrame f) \<and> m = received_message g (StateFrame f)"
proof -
  from r(1) obtain r1 where r1: "takes (frame_header_image f) r r1"
    and r': "takes (concat (map (compact_image g) (GetStates f))) r1 r'" by (auto simp: takes_append)
  have "reads ReadFrameHeader (frame_header_image f) (ServerTick f, FrameSequence f, StateCount f, MaterializationEpoch f)"
    unfolding ReadFrameHeader_def frame_header_image_def
    by (intro reads_bind [OF reads_u64] reads_bind [OF reads_u16] reads_last [OF reads_u64] reads_return)
  then have header: "ReadFrameHeader r = (Some (ServerTick f, FrameSequence f, StateCount f, MaterializationEpoch f), r1)"
    using r1 by (simp add: reads_def)
  have ok: "\<not> (MaterializationEpoch f = 0 \<or> StateCount f = 0 \<or> unat (StateCount f) > MaximumCharacterStatesPerFrame)"
    using frame_validD(3,4,5) [OF v] wf by simp
  have "if compact_receivable g s then ReadCompactState g (ServerTick f) r = (Some (compact_received g s), r')
      else fst (ReadCompactState g (ServerTick f) r) = None"
    if "s \<in> set (GetStates f)" "takes (compact_image g s) r r'" for s r r'
    using ReadCompactState_result [where g = g and s = s] frame_validD(7) [OF v that(1)] GetStates_wf [OF wf that(1)] that(2)
    by metis
  from rd_list_result [OF this r'] have states:
    "if list_all (compact_receivable g) (GetStates f)
     then rd_list (unat (StateCount f)) (ReadCompactState g (ServerTick f)) r1 = (Some (map (compact_received g) (GetStates f)), r')
     else fst (rd_list (unat (StateCount f)) (ReadCompactState g (ServerTick f)) r1) = None"
    unfolding unat_count [OF v] .
  have f': "\<lparr>ServerTick = ServerTick f, FrameSequence = FrameSequence f, MaterializationEpoch = MaterializationEpoch f,
      States = state_array (map (compact_received g) (GetStates f)), StateCount = StateCount f\<rparr> =
      f\<lparr>States := state_array (map (compact_received g) (GetStates f))\<rparr>" by simp
  show ?thesis
  proof (cases "list_all (compact_receivable g) (GetStates f)")
    case True
    with states r(2) show ?thesis
      unfolding DecodeStateFrame_def header prod.case option.case if_not_P [OF ok]
      by (auto simp: receivable_def Let_def f')
  next
    case False
    with states show ?thesis
      unfolding DecodeStateFrame_def header prod.case option.case if_not_P [OF ok]
      by (auto simp: receivable_def split: prod.splits option.splits)
  qed
qed

lemma Decode_character:
  assumes v: "CharacterMessage_IsValid g m" and wf: "wf_message m"
    and len: "length (character_image g m) \<le> character_limit m"
  shows "DecodeCharacterMessage g (character_image g m) = Inr m' \<longleftrightarrow> receivable g m \<and> m' = received_message g m"
proof -
  have "length (character_image g m) \<le> MaximumCharacterStateFrameBytes"
    using len by (simp add: character_limit_def MaximumCharacterFrameBytes_def MaximumCharacterStateFrameBytes_def split: if_splits)
  then obtain r r' where d: "DecodeCharacterMessage g (character_image g m) =
       (let kind = kind_byte (GetCharacterMessageKind m); version = character_version m in
        if version = CharacterProtocolVersion \<and> kind = kind_byte StateFrameKind then DecodeStateFrame g r
        else if version = CharacterProtocolVersion \<and> kind = kind_byte ActionResultKind then DecodeActionResult r
        else if version = CharacterProtocolVersion
        then SerializationFailure InvalidValue ''Character v4 opcode is invalid''
        else if version \<noteq> LegacyCharacterProtocolVersion
        then SerializationFailure UnsupportedVersion ''Character protocol version is unsupported''
        else DecodeLegacy g (character_image g m) kind r)"
    and r: "takes (character_body_image g m) r r'" "Complete r'" by (rule Decode_header)
  consider (frame) f where "m = StateFrame f" | (result) a where "m = ActionResult a" | (legacy) "\<not> is_modern m"
    by (cases m) (simp_all add: is_modern_def is_state_frame_def)
  then show ?thesis
  proof cases
    case frame
    then show ?thesis using d decodes_frame [of g f r r'] v wf r
      by (simp add: character_version_def is_modern_def is_state_frame_def)
  next
    case result
    then show ?thesis using d decodes_result [of a g r r'] v wf r
      by (auto simp: character_version_def is_modern_def is_state_frame_def receivable_def)
  next
    case legacy
    then have "character_version m = LegacyCharacterProtocolVersion" "\<not> is_state_frame m"
      by (simp_all add: character_version_def is_modern_def)
    moreover from this have "length (character_image g m) \<le> MaximumCharacterFrameBytes"
      using len by (simp add: character_limit_def)
    moreover have "LegacyCharacterProtocolVersion \<noteq> CharacterProtocolVersion"
      by (simp add: LegacyCharacterProtocolVersion_def CharacterProtocolVersion_def)
    moreover have "receivable g m = CharacterMessage_IsValid g (received_message g m)"
      using legacy by (cases m) (simp_all add: receivable_def is_modern_def is_state_frame_def)
    ultimately show ?thesis using d decodes_legacy [OF v wf legacy _ r] by auto
  qed
qed

section \<open>Properties\<close>

text \<open>
  C38. A valid message is encoded exactly when its size, which for a state frame is the header and
  what \<open>GetCompactCharacterStateEncodedBytes\<close> promises for each state, is within the limit of its
  kind, and then it has that size; otherwise the error is \<open>LimitExceeded\<close>. Every message but a
  state frame fits, and so does every state frame whose states have no active action.
\<close>

theorem character_encoding_exact:
  assumes "wf_message m" "CharacterMessage_IsValid g m"
  shows "(if character_size g m \<le> character_limit m
      then \<exists>bs. EncodeCharacterMessage g m = Inr bs \<and> length bs = character_size g m
      else EncodeCharacterMessage g m = SerializationFailure LimitExceeded ''Character frame exceeds its limit'') \<and>
    (\<not> is_state_frame m \<longrightarrow> character_size g m \<le> character_limit m) \<and>
    (\<forall>f. m = StateFrame f \<and> (\<forall>s \<in> set (GetStates f). ActiveAction s = None) \<longrightarrow> character_size g m \<le> character_limit m)"
proof (intro conjI)
  show "\<not> is_state_frame m \<longrightarrow> character_size g m \<le> character_limit m"
    using small_messages by (simp add: character_limit_def)
  show "\<forall>f. m = StateFrame f \<and> (\<forall>s \<in> set (GetStates f). ActiveAction s = None) \<longrightarrow> character_size g m \<le> character_limit m"
    using actionless_frame_size assms(1) by (auto simp: character_limit_def is_state_frame_def)
qed (simp add: Encode_character [OF assms(2)] length_character [OF assms(2,1)])

text \<open>
  C39. What a receiver makes of an encoded message: decoding gives \<open>received_message\<close>, the message
  with its rotations renormalised and, in a state frame, its compact values rounded, exactly when
  the receiver's validity check accepts it, and never anything else. Control transitions, input
  commands, action requests and action results are always received unchanged.
\<close>

theorem character_roundtrip:
  assumes "wf_message m" "EncodeCharacterMessage g m = Inr bs"
  shows "(DecodeCharacterMessage g bs = Inr m' \<longleftrightarrow> receivable g m \<and> m' = received_message g m) \<and>
    (GetCharacterMessageKind m \<notin> {StateKind, StateFrameKind} \<longrightarrow> DecodeCharacterMessage g bs = Inr m)"
proof -
  have v: "CharacterMessage_IsValid g m" using assms(2) by (simp add: EncodeCharacterMessage_def split: if_splits)
  then have bs: "bs = character_image g m" "length (character_image g m) \<le> character_limit m"
    using assms(2) by (simp_all add: Encode_character split: if_splits)
  note d = Decode_character [OF v assms(1) bs(2)]
  moreover have "receivable g m \<and> received_message g m = m" if "GetCharacterMessageKind m \<notin> {StateKind, StateFrameKind}"
    using v that by (cases m) (simp_all add: receivable_def)
  ultimately show ?thesis unfolding bs(1) by metis
qed

subsection \<open>An example\<close>

definition ex_glm :: glm where
  "ex_glm = \<lparr>quat_cast = (\<lambda>_. Quat 0 0 0 0x3f800000), mat3_cast = (\<lambda>_. Rotation CFrame_default), normalize = (\<lambda>q. q),
     quat_length = (\<lambda>q. Quat_w q), vec3_length = (\<lambda>v. Vec3_y v), vec2_length = (\<lambda>v. Vec2_x v)\<rparr>"

definition ex_state :: CharacterAuthoritativeState where
  "ex_state = CharacterAuthoritativeState_default\<lparr>Character := ObjectId 7 1, ControlEpoch := 1, StateSequence := 3,
     AuthoritativeTick := 9, Velocity := Vec3 0x3f000000 0 0, FloorNormal := Vec3 0 0x3f000000 0, StateFlags := 1\<rparr>"

definition ex_states :: CharacterMessage where
  "ex_states = StateFrame \<lparr>ServerTick = 9, FrameSequence = 2, MaterializationEpoch = 1, States = state_array [ex_state],
     StateCount = 1\<rparr>"

lemma ex_quantized:
  "QuantizeSigned k 0 = Some 0" "QuantizeSigned 32767 0x3f800000 = Some 0x7fff" "isfinite32 0x3f000000" "isfinite32 0x3f800000"
  by (simp_all add: QuantizeSigned_def round_scaled_def f32_mantissa_def f32_exponent_def f32_biased_def f32_negative_def
      isfinite32_def)

lemma ex_values: "unit_value 0 = 0" "velocity_value 0 = 0" "velocity_value 32 = 0x3f000000"
  "unit_value 0x4000 = 0x3f000100" "unit_value 0x7fff = 0x3f800000"
  by (simp_all add: unit_value_def velocity_value_def float_of_scaled_def bit_length.simps rounded_mantissa_def
      round_half_even_def Let_def)

lemma ex_lengths: "f32_le 0x3f000000 MaximumFloorNormal" "f32_le 0x3f000100 MaximumFloorNormal" "near_one 0x3f800000"
  "isfinite32 0x3f000100"
  by (simp_all add: f32_le_def f32_nan_def f32_key_def f32_negative_def MaximumFloorNormal_def near_one_def isfinite32_def)

lemmas ex_evaluate = ex_glm_def ex_state_def CharacterAuthoritativeState_default_def CFrame_default_def ToQuaternion_def
  CharacterAuthoritativeState_IsValid_def IsFinite_CFrame_def IsFinite_vec3_def ObjectId_IsValid_def Sequence_IsValid_def
  ValidStateFlags_def float_zero ex_half ex_quantized ex_values ex_lengths quantized_rotation_def quantized_velocity_def
  quantized_floor_def

lemma ex_state_valid: "CharacterAuthoritativeState_IsValid ex_glm ex_state" "wf_state ex_state"
  "wf_state CharacterAuthoritativeState_default"
  by (simp_all add: ex_evaluate wf_state_def)

lemma ex_state_quantized: "quantized_rotation ex_glm ex_state = Some [0, 0, 0, 0x7fff]"
  "quantized_velocity ex_state = Some [32, 0, 0]" "quantized_floor ex_state = Some [0, 0x4000, 0]"
  by (simp_all add: ex_evaluate)

lemma ex_received: "compact_received ex_glm ex_state = ex_state\<lparr>FloorNormal := Vec3 0 0x3f000100 0\<rparr>"
  by (simp add: compact_received_def ex_state_quantized vec3_of_def ex_values)
    (simp add: ex_glm_def ex_state_def CharacterAuthoritativeState_default_def CFrame_default_def)

lemma ex_received_valid: "CharacterAuthoritativeState_IsValid ex_glm (ex_state\<lparr>FloorNormal := Vec3 0 0x3f000100 0\<rparr>)"
  by (simp add: ex_evaluate)

lemma ex_requantized: "QuantizeSigned 32767 0x3f000100 = Some 0x4000"
  using unit_requantized [of "0x4000"] by (simp add: ex_values)

lemma ex_received_quantized:
  "quantizable ex_glm (ex_state\<lparr>FloorNormal := Vec3 0 0x3f000100 0\<rparr>)" "quantizable ex_glm ex_state"
  by (simp_all add: quantizable_def ex_evaluate ex_requantized)

lemma ex_bytes_positive: "GetCompactCharacterStateEncodedBytes ex_glm ex_state = 74"
  "GetCompactCharacterStateEncodedBytes ex_glm (ex_state\<lparr>FloorNormal := Vec3 0 0x3f000100 0\<rparr>) \<noteq> 0"
proof -
  show "GetCompactCharacterStateEncodedBytes ex_glm ex_state = 74"
    by (simp add: GetCompactCharacterStateEncodedBytes_def ex_state_valid ex_state_quantized CompactCharacterStateBytes_def)
      (simp add: ex_state_def CharacterAuthoritativeState_default_def)
qed (use ex_received_valid ex_received_quantized(1) in \<open>simp add: GetCompact_quantizable\<close>)

lemma ex_states_valid: "wf_message ex_states" "CharacterMessage_IsValid ex_glm ex_states" "character_size ex_glm ex_states = 108"
  by (simp_all add: ex_states_def state_array_def ex_state_valid MaximumCharacterStatesPerFrame_def CharacterStateFrame_IsValid_def
      Sequence_IsValid_def ex_bytes_positive GetStates_def CharacterStateFrameHeaderBytes_def list_all_iff)
    (simp add: ex_state_def)

lemma ex_states_receivable: "receivable ex_glm ex_states"
proof -
  have "near_one (quat_length ex_glm (compact_rotation ex_glm ex_state))"
    by (simp add: compact_rotation_def ex_state_quantized quat_of_def ex_values ex_lengths) (simp add: ex_glm_def ex_lengths)
  then have "compact_receivable ex_glm ex_state"
    by (simp add: compact_receivable_def ex_received ex_received_valid)
  moreover have "AuthoritativeTick (ex_state\<lparr>FloorNormal := x\<rparr>) = 9" for x
    by (simp add: ex_state_def)
  ultimately show ?thesis
    using ex_bytes_positive(2)
    by (simp add: receivable_def ex_states_def state_array_def GetStates_def CharacterStateFrame_IsValid_def Sequence_IsValid_def
        MaximumCharacterStatesPerFrame_def ex_received)
qed

theorem character_encoding_exact_witness:
  "\<exists>bs. EncodeCharacterMessage ex_glm ex_states = Inr bs \<and> length bs = 108"
  using character_encoding_exact [OF ex_states_valid(1,2)] ex_states_valid(3)
  by (simp add: character_limit_def is_state_frame_def ex_states_def MaximumCharacterStateFrameBytes_def)

lemma ex_states_fit: "length (character_image ex_glm ex_states) \<le> character_limit ex_states"
  by (simp add: length_character ex_states_valid) (simp add: character_limit_def is_state_frame_def ex_states_def MaximumCharacterStateFrameBytes_def)

theorem character_roundtrip_witness:
  "\<exists>bs. EncodeCharacterMessage ex_glm ex_states = Inr bs \<and>
     DecodeCharacterMessage ex_glm bs = Inr (received_message ex_glm ex_states)"
proof -
  have "EncodeCharacterMessage ex_glm ex_states = Inr (character_image ex_glm ex_states)"
    using Encode_character [OF ex_states_valid(2)] ex_states_fit by simp
  with character_roundtrip [OF ex_states_valid(1) this] ex_states_receivable show ?thesis by blast
qed

end
