(* ===== verification/SimulatedTransport.thy ===== *)
theory SimulatedTransport imports Complex_Main Transport "HOL-Library.Product_Lexorder" begin

text \<open>
  The simulated network of src/network/SimulatedTransport.cpp: transports in one process that are
  joined by links with latency, jitter, bandwidth, loss, duplication and reordering, driven by an
  explicit clock. The network and its transports are one record; a transport is named by its id,
  so two references to one transport are one entry. A transport that exists is always registered,
  because its destructor takes it out, so the weak references never expire. Times are the 64-bit
  counts of microseconds, with the overflow checks of the source; ids and counters are natural
  numbers with the checks against the largest 64-bit value. Left out: the trace of packets for
  diagnostics and the loss ratio, a quotient of two fields that the code keeps beside it.
\<close>

section \<open>Configuration\<close>

definition int64_max :: int where
  "int64_max = 2 ^ 63 - 1"

text \<open>A double, as far as it is compared: every finite one is a rational number.\<close>

datatype double = Finite rat | NotANumber | PositiveInfinity | NegativeInfinity

definition MaximumSimulatedDuration :: int where
  "MaximumSimulatedDuration = 24 * 365 * 3600 * 1000000"

definition MaximumSimulatedBandwidthBytesPerSecond :: nat where
  "MaximumSimulatedBandwidthBytesPerSecond = 1024 * 1024 * 1024"

definition MaximumSimulatedTransports :: nat where
  "MaximumSimulatedTransports = 1024"

definition MaximumSimulatedConnections :: nat where
  "MaximumSimulatedConnections = 16 * 1024"

definition MaximumSimulatedScheduledEvents :: nat where
  "MaximumSimulatedScheduledEvents = 1024 * 1024"

definition MaximumSimulatedPendingEvents :: nat where
  "MaximumSimulatedPendingEvents = 1024 * 1024"

record SimulatedTransportConfiguration =
  Seed :: u64
  BaseLatency :: int
  MaximumJitter :: int
  MaximumReorderDelay :: int
  UnreliableLossProbability :: double
  UnreliableDuplicationProbability :: double
  UnreliableReorderProbability :: double
  BandwidthBytesPerSecond :: nat
  MaximumReliableQueueBytes :: nat
  MaximumQueuedUnreliableMessages :: nat
  MaximumUnreliableDatagramBytes :: nat
  MaximumTransports :: nat
  MaximumConnections :: nat
  MaximumScheduledEvents :: nat
  MaximumPendingEventsPerTransport :: nat
  ConnectionLifetime :: "int option"

definition IsValidProbability :: "double \<Rightarrow> bool" where
  "IsValidProbability p = (case p of Finite q \<Rightarrow> 0 \<le> q \<and> q \<le> 1 | _ \<Rightarrow> False)"

definition IsValidDuration :: "int \<Rightarrow> bool \<Rightarrow> bool" where
  "IsValidDuration d permitZero \<longleftrightarrow> d \<ge> (if permitZero then 0 else 1) \<and> d \<le> MaximumSimulatedDuration"

definition SimulatedConfiguration_IsValid :: "SimulatedTransportConfiguration \<Rightarrow> bool" where
  "SimulatedConfiguration_IsValid c \<longleftrightarrow>
     IsValidDuration (BaseLatency c) True \<and> IsValidDuration (MaximumJitter c) True \<and>
     IsValidDuration (MaximumReorderDelay c) True \<and>
     (case ConnectionLifetime c of None \<Rightarrow> True | Some d \<Rightarrow> IsValidDuration d False) \<and>
     IsValidProbability (UnreliableLossProbability c) \<and> IsValidProbability (UnreliableDuplicationProbability c) \<and>
     IsValidProbability (UnreliableReorderProbability c) \<and>
     BandwidthBytesPerSecond c > 0 \<and> BandwidthBytesPerSecond c \<le> MaximumSimulatedBandwidthBytesPerSecond \<and>
     MaximumReliableQueueBytes c > 0 \<and> MaximumReliableQueueBytes c \<le> NativeMaximumQueuedReliableBytes \<and>
     MaximumQueuedUnreliableMessages c > 0 \<and>
     MaximumQueuedUnreliableMessages c \<le> unat NativeMaximumNetworkMessagesPerTick \<and>
     MaximumUnreliableDatagramBytes c > 0 \<and> MaximumUnreliableDatagramBytes c \<le> NativeMaximumUnreliableMessageBytes \<and>
     MaximumTransports c > 0 \<and> MaximumTransports c \<le> MaximumSimulatedTransports \<and>
     MaximumConnections c > 0 \<and> MaximumConnections c \<le> MaximumSimulatedConnections \<and>
     MaximumScheduledEvents c > MaximumConnections c * 2 \<and>
     MaximumScheduledEvents c \<le> MaximumSimulatedScheduledEvents \<and>
     MaximumPendingEventsPerTransport c \<ge> MaximumConnections c * 4 \<and>
     MaximumPendingEventsPerTransport c \<le> MaximumSimulatedPendingEvents"

section \<open>State\<close>

record NetworkStatistics =
  BytesSent :: "nat option"
  BytesReceived :: "nat option"
  MessagesSent :: "nat option"
  MessagesDelivered :: "nat option"
  MessagesReceived :: "nat option"
  DroppedUnreliableMessages :: "nat option"
  DuplicatedUnreliableMessages :: "nat option"
  QueuedReliableBytes :: "nat option"
  EstimatedRoundTripTime :: "int option"

datatype SequenceKey = SequenceKey (SequenceDomain: u8) (SequenceChannel: u64)

record SimulatedConnection =
  LinkId :: nat
  RemoteConnection :: ConnectionId
  RemoteTransportId :: nat
  CurrentState :: ConnectionState
  ConnectionLimits :: NetworkLimits
  ReliableQueueBytes :: nat
  QueuedUnreliableMessages :: nat
  UnreliableAttempts :: nat
  NextSendAvailable :: int
  LastReliableDelivery :: int
  ConnectionStatistics :: NetworkStatistics
  LatestReceivedSequences :: "SequenceKey \<rightharpoonup> u64"

text \<open>The id of a link, as that of a transport, is its key in the network.\<close>

record SimulatedLink =
  FirstTransportId :: nat
  FirstConnection :: ConnectionId
  SecondTransportId :: nat
  SecondConnection :: ConnectionId

datatype ScheduledKind = Activate | Message | Disconnection

record ScheduledItem =
  Kind :: ScheduledKind
  At :: int
  ItemLink :: nat
  SourceTransportId :: nat
  SourceConnection :: ConnectionId
  DestinationTransportId :: nat
  DestinationConnection :: ConnectionId
  ItemDelivery :: DeliveryMode
  ItemTraffic :: TrafficClass
  ItemOrder :: MessageOrder
  ItemPayload :: bytes
  Duplicate :: bool
  ItemDisconnect :: DisconnectInfo

definition default_item :: ScheduledItem where
  "default_item =
     \<lparr>Kind = Activate, At = 0, ItemLink = 0, SourceTransportId = 0, SourceConnection = ConnectionId 0 0,
      DestinationTransportId = 0, DestinationConnection = ConnectionId 0 0, ItemDelivery = ReliableOrdered,
      ItemTraffic = Control, ItemOrder = NoOrder, ItemPayload = [], Duplicate = False,
      ItemDisconnect = DisconnectInfo DisconnectTransportFailure []\<rparr>"

record SimulatedTransportState =
  Started :: bool
  StateRole :: TransportRole
  StateEndpoint :: TransportEndpoint
  StateLimits :: NetworkLimits
  Connections :: "(ConnectionId \<times> SimulatedConnection) list"
  Generations :: "u32 list"
  FreeSlots :: "u32 list"
  Events :: "TransportEvent list"

type_synonym ScheduledKey = "int \<times> nat"

text \<open>
  The maps are lists in the order of their keys. \<open>AssertionsHeld\<close> records the outcome of the
  \<open>assert\<close> statements of the source.
\<close>

record SimulatedNetworkState =
  Configuration :: SimulatedTransportConfiguration
  CurrentTime :: int
  RandomState :: u64
  NextTransportId :: nat
  NextLinkId :: nat
  NextTieBreaker :: nat
  Transports :: "(nat \<times> SimulatedTransportState) list"
  Servers :: "(TransportEndpoint \<times> nat) list"
  Links :: "(nat \<times> SimulatedLink) list"
  Scheduled :: "(ScheduledKey \<times> ScheduledItem) list"
  AssertionsHeld :: bool

definition map_emplace :: "'k::linorder \<Rightarrow> 'v \<Rightarrow> ('k \<times> 'v) list \<Rightarrow> ('k \<times> 'v) list" where
  "map_emplace k v m = (if k \<in> fst ` set m then m else insort_key fst (k, v) m)"

definition map_erase :: "'k \<Rightarrow> ('k \<times> 'v) list \<Rightarrow> ('k \<times> 'v) list" where
  "map_erase k m = filter (\<lambda>e. fst e \<noteq> k) m"

definition map_modify :: "'k \<Rightarrow> ('v \<Rightarrow> 'v) \<Rightarrow> ('k \<times> 'v) list \<Rightarrow> ('k \<times> 'v) list" where
  "map_modify k f m = map (\<lambda>e. (fst e, if fst e = k then f (snd e) else snd e)) m"

definition FindTransport :: "SimulatedNetworkState \<Rightarrow> nat \<Rightarrow> SimulatedTransportState option" where
  "FindTransport n i = map_of (Transports n) i"

definition update_transport ::
  "nat \<Rightarrow> (SimulatedTransportState \<Rightarrow> SimulatedTransportState) \<Rightarrow> SimulatedNetworkState \<Rightarrow> SimulatedNetworkState" where
  "update_transport i f n = n\<lparr>Transports := map_modify i f (Transports n)\<rparr>"

definition update_connection ::
  "nat \<Rightarrow> ConnectionId \<Rightarrow> (SimulatedConnection \<Rightarrow> SimulatedConnection) \<Rightarrow> SimulatedNetworkState \<Rightarrow> SimulatedNetworkState" where
  "update_connection i c f = update_transport i (\<lambda>t. t\<lparr>Connections := map_modify c f (Connections t)\<rparr>)"

definition assert_that :: "bool \<Rightarrow> SimulatedNetworkState \<Rightarrow> SimulatedNetworkState" where
  "assert_that ok n = n\<lparr>AssertionsHeld := AssertionsHeld n \<and> ok\<rparr>"

definition no_limits :: NetworkLimits where
  "no_limits =
     \<lparr>MaximumReliableMessageBytes = 0, MaximumUnreliableMessageBytes = 0, MaximumQueuedReliableBytes = 0,
      MaximumInFlightRemoteRequests = 0, MaximumDecodedMessageBytes = 0, MaximumSendBytesPerTick = 0,
      MaximumReceiveBytesPerTick = 0, MaximumMessagesPerTick = 0\<rparr>"

definition new_SimulatedTransportState :: SimulatedTransportState where
  "new_SimulatedTransportState =
     \<lparr>Started = False, StateRole = Client, StateEndpoint = \<lparr>Host = [], Port = 0\<rparr>, StateLimits = no_limits,
      Connections = [], Generations = [0], FreeSlots = [], Events = []\<rparr>"

section \<open>Time, chance and capacity\<close>

definition AddTime :: "int \<Rightarrow> int \<Rightarrow> int option" where
  "AddTime first second = (if second < 0 \<or> first > int64_max - second then None else Some (first + second))"

definition NextRandom :: "SimulatedNetworkState \<Rightarrow> u64 \<times> SimulatedNetworkState" where
  "NextRandom n =
     (let r = RandomState n + 0x9e3779b97f4a7c15;
          v1 = (r XOR drop_bit 30 r) * 0xbf58476d1ce4e5b9;
          v2 = (v1 XOR drop_bit 27 v1) * 0x94d049bb133111eb
      in (v2 XOR drop_bit 31 v2, n\<lparr>RandomState := r\<rparr>))"

fun double_le_zero :: "double \<Rightarrow> bool" where
  "double_le_zero (Finite q) \<longleftrightarrow> q \<le> 0"
| "double_le_zero NegativeInfinity \<longleftrightarrow> True"
| "double_le_zero _ \<longleftrightarrow> False"

fun double_ge_one :: "double \<Rightarrow> bool" where
  "double_ge_one (Finite q) \<longleftrightarrow> q \<ge> 1"
| "double_ge_one PositiveInfinity \<longleftrightarrow> True"
| "double_ge_one _ \<longleftrightarrow> False"

text \<open>The sample, a 53-bit integer over \<open>2 ^ 53\<close>, is exact.\<close>

fun sample_below :: "nat \<Rightarrow> double \<Rightarrow> bool" where
  "sample_below k (Finite q) \<longleftrightarrow> of_nat k / 9007199254740992 < q"
| "sample_below k PositiveInfinity \<longleftrightarrow> True"
| "sample_below k _ \<longleftrightarrow> False"

definition ProbabilityHit :: "double \<Rightarrow> SimulatedNetworkState \<Rightarrow> bool \<times> SimulatedNetworkState" where
  "ProbabilityHit p n =
     (if double_le_zero p then (False, n)
      else if double_ge_one p then (True, n)
      else (case NextRandom n of (v, n') \<Rightarrow> (sample_below (unat (drop_bit 11 v)) p, n')))"

definition RandomDuration :: "int \<Rightarrow> SimulatedNetworkState \<Rightarrow> int \<times> SimulatedNetworkState" where
  "RandomDuration maximum n =
     (if maximum = 0 then (0, n)
      else (case NextRandom n of (v, n') \<Rightarrow> (int (unat v) mod (maximum + 1), n')))"

definition TransmissionDuration :: "nat \<Rightarrow> nat \<Rightarrow> int option" where
  "TransmissionDuration bytes bytesPerSecond =
     (if bytes = 0 \<or> bytesPerSecond = 0 then None
      else if bytes > u64_max div 1000000 then None
      else
        (let scaled = bytes * 1000000;
             duration = scaled div bytesPerSecond + (if scaled mod bytesPerSecond \<noteq> 0 then 1 else 0)
         in if duration = 0 \<or> int duration > int64_max then None else Some (int duration)))"

definition reserved_events :: "SimulatedConnection \<Rightarrow> nat" where
  "reserved_events s = (if CurrentState s = Connecting then 4 else 2)"

definition ReservedLifecycleEventCapacity :: "SimulatedTransportState \<Rightarrow> nat" where
  "ReservedLifecycleEventCapacity t = sum_list (map (\<lambda>e. reserved_events (snd e)) (Connections t))"

definition HasEventCapacityWithReservations :: "SimulatedNetworkState \<Rightarrow> SimulatedTransportState \<Rightarrow> nat \<Rightarrow> bool" where
  "HasEventCapacityWithReservations n t required \<longleftrightarrow>
     (let reserved = ReservedLifecycleEventCapacity t; maximum = MaximumPendingEventsPerTransport (Configuration n)
      in required \<le> maximum \<and> reserved \<le> maximum - required \<and> length (Events t) \<le> maximum - required - reserved)"

definition QueueEvent ::
  "SimulatedNetworkState \<Rightarrow> TransportEvent \<Rightarrow> SimulatedTransportState \<Rightarrow> bool \<times> SimulatedTransportState" where
  "QueueEvent n e t =
     (if \<not> HasEventCapacityWithReservations n t 1 then (False, t) else (True, t\<lparr>Events := Events t @ [e]\<rparr>))"

primrec event_connection :: "TransportEvent \<Rightarrow> ConnectionId option" where
  "event_connection (ConnectionStateEvent c _ _) = Some c"
| "event_connection (ReceivedMessageEvent c _ _ _ _) = Some c"
| "event_connection (DisconnectedEvent c _) = Some c"
| "event_connection (TransportFailureEvent _) = None"

definition RemoveConnectionEvents :: "ConnectionId \<Rightarrow> SimulatedTransportState \<Rightarrow> SimulatedTransportState" where
  "RemoveConnectionEvents c t = t\<lparr>Events := filter (\<lambda>e. event_connection e \<noteq> Some c) (Events t)\<rparr>"

text \<open>The loop over the free slots, then a new slot.\<close>

fun allocate_free :: "u32 list \<Rightarrow> u32 list \<Rightarrow> (ConnectionId option \<times> u32 list \<times> u32 list)" where
  "allocate_free [] generations = (None, [], generations)"
| "allocate_free (slot # rest) generations =
     (if generations ! unat slot = 0xffffffff then allocate_free rest generations
      else (Some (ConnectionId slot (generations ! unat slot + 1)), rest,
            generations[unat slot := generations ! unat slot + 1]))"

definition AllocateConnection :: "SimulatedTransportState \<Rightarrow> ConnectionId option \<times> SimulatedTransportState" where
  "AllocateConnection t =
     (case allocate_free (FreeSlots t) (Generations t) of
        (Some c, free, generations) \<Rightarrow> (Some c, t\<lparr>FreeSlots := free, Generations := generations\<rparr>)
      | (None, free, generations) \<Rightarrow>
          let t' = t\<lparr>FreeSlots := free, Generations := generations\<rparr>
          in if length generations > 0xffffffff then (None, t')
             else (Some (ConnectionId (word_of_nat (length generations)) 1), t'\<lparr>Generations := generations @ [1]\<rparr>))"

definition ReleaseConnection :: "ConnectionId \<Rightarrow> SimulatedTransportState \<Rightarrow> SimulatedTransportState" where
  "ReleaseConnection c t =
     (if unat (ConnectionSlot c) < length (Generations t) \<and>
         Generations t ! unat (ConnectionSlot c) = ConnectionGeneration c \<and> ConnectionGeneration c \<noteq> 0xffffffff
      then t\<lparr>FreeSlots := FreeSlots t @ [ConnectionSlot c]\<rparr> else t)"

section \<open>The schedule and links\<close>

definition Schedule :: "ScheduledItem \<Rightarrow> SimulatedNetworkState \<Rightarrow> bool \<times> SimulatedNetworkState" where
  "Schedule item n =
     (if length (Scheduled n) \<ge> MaximumScheduledEvents (Configuration n) \<or> NextTieBreaker n = u64_max then (False, n)
      else
        (let key = (At item, NextTieBreaker n)
         in (key \<notin> fst ` set (Scheduled n),
             n\<lparr>NextTieBreaker := NextTieBreaker n + 1, Scheduled := map_emplace key item (Scheduled n)\<rparr>)))"

definition CanSchedule :: "SimulatedNetworkState \<Rightarrow> nat \<Rightarrow> bool" where
  "CanSchedule n count \<longleftrightarrow>
     count \<le> MaximumScheduledEvents (Configuration n) \<and>
     length (Scheduled n) \<le> MaximumScheduledEvents (Configuration n) - count \<and>
     count < u64_max \<and> NextTieBreaker n \<le> u64_max - count"

definition CanScheduleMessages :: "SimulatedNetworkState \<Rightarrow> nat \<Rightarrow> bool" where
  "CanScheduleMessages n count =
     (let reserved = MaximumConnections (Configuration n) * 2
      in if reserved \<ge> MaximumScheduledEvents (Configuration n) then False
         else
           (let capacity = MaximumScheduledEvents (Configuration n) - reserved
            in count \<le> capacity \<and> length (Scheduled n) \<le> capacity - count \<and> CanSchedule n count))"

definition CancelScheduledLink :: "nat \<Rightarrow> SimulatedNetworkState \<Rightarrow> SimulatedNetworkState" where
  "CancelScheduledLink link n = n\<lparr>Scheduled := filter (\<lambda>e. ItemLink (snd e) \<noteq> link) (Scheduled n)\<rparr>"

definition RemoteDisconnectInformation :: "DisconnectInfo \<Rightarrow> DisconnectInfo" where
  "RemoteDisconnectInformation d =
     (if Reason d = LocalShutdown then DisconnectInfo RemoteShutdown (Diagnostic d) else d)"

definition CloseOneSide :: "nat \<Rightarrow> ConnectionId \<Rightarrow> DisconnectInfo \<Rightarrow> SimulatedNetworkState \<Rightarrow> SimulatedNetworkState" where
  "CloseOneSide i c information n =
     (case FindTransport n i of
        None \<Rightarrow> n
      | Some t \<Rightarrow>
          (case map_of (Connections t) c of
             None \<Rightarrow> n
           | Some s \<Rightarrow>
               let t1 = RemoveConnectionEvents c t;
                   t2 = ReleaseConnection c (t1\<lparr>Connections := map_erase c (Connections t1)\<rparr>);
                   ok = HasEventCapacityWithReservations n t2 2
               in update_transport i
                    (\<lambda>_. t2\<lparr>Events := Events t2 @
                       [ConnectionStateEvent c (CurrentState s) Closed, DisconnectedEvent c information]\<rparr>)
                    (assert_that ok n)))"

definition CloseLink :: "nat \<Rightarrow> nat \<Rightarrow> DisconnectInfo \<Rightarrow> SimulatedNetworkState \<Rightarrow> SimulatedNetworkState" where
  "CloseLink link initiator information n =
     (case map_of (Links n) link of
        None \<Rightarrow> n
      | Some l \<Rightarrow>
          let n1 = CancelScheduledLink link (n\<lparr>Links := map_erase link (Links n)\<rparr>);
              first = (initiator = FirstTransportId l); second = (initiator = SecondTransportId l);
              n2 = CloseOneSide (FirstTransportId l) (FirstConnection l)
                     (if first \<or> initiator = 0 then information else RemoteDisconnectInformation information) n1
          in CloseOneSide (SecondTransportId l) (SecondConnection l)
               (if second \<or> initiator = 0 then information else RemoteDisconnectInformation information) n2)"

section \<open>Statistics\<close>

definition NewStatistics :: "int \<Rightarrow> NetworkStatistics" where
  "NewStatistics latency =
     \<lparr>BytesSent = Some 0, BytesReceived = Some 0, MessagesSent = Some 0, MessagesDelivered = Some 0,
      MessagesReceived = Some 0, DroppedUnreliableMessages = Some 0, DuplicatedUnreliableMessages = Some 0,
      QueuedReliableBytes = Some 0, EstimatedRoundTripTime = AddTime latency latency\<rparr>"

definition saturating_increment :: "nat \<Rightarrow> nat" where
  "saturating_increment v = (if v \<noteq> u64_max then v + 1 else v)"

definition SaturatingIncrement :: "nat option \<Rightarrow> nat option" where
  "SaturatingIncrement v = (case v of None \<Rightarrow> None | Some x \<Rightarrow> Some (saturating_increment x))"

definition SaturatingAdd :: "nat \<Rightarrow> nat option \<Rightarrow> nat option" where
  "SaturatingAdd amount v =
     (case v of None \<Rightarrow> None | Some x \<Rightarrow> Some (if x > u64_max - amount then u64_max else x + amount))"

definition update_statistics :: "(NetworkStatistics \<Rightarrow> NetworkStatistics) \<Rightarrow> SimulatedConnection \<Rightarrow> SimulatedConnection" where
  "update_statistics f s = s\<lparr>ConnectionStatistics := f (ConnectionStatistics s)\<rparr>"

definition RecordUnreliableDrop :: "SimulatedConnection \<Rightarrow> SimulatedConnection" where
  "RecordUnreliableDrop =
     update_statistics (\<lambda>x. x\<lparr>DroppedUnreliableMessages := SaturatingIncrement (DroppedUnreliableMessages x)\<rparr>)"
section \<open>Processing the schedule\<close>

definition activate_side :: "nat \<Rightarrow> ConnectionId \<Rightarrow> SimulatedNetworkState \<Rightarrow> SimulatedNetworkState" where
  "activate_side i c n =
     (let n1 = update_connection i c (\<lambda>s. s\<lparr>CurrentState := Connected\<rparr>) n
      in case FindTransport n1 i of
           None \<Rightarrow> n1
         | Some t \<Rightarrow>
             update_transport i
               (\<lambda>t. t\<lparr>Events := Events t @
                  [ConnectionStateEvent c Connecting Authenticating, ConnectionStateEvent c Authenticating Connected]\<rparr>)
               (assert_that (HasEventCapacityWithReservations n1 t 2) n1))"

definition ActivateLink :: "ScheduledItem \<Rightarrow> SimulatedNetworkState \<Rightarrow> SimulatedNetworkState" where
  "ActivateLink item n =
     (case map_of (Links n) (ItemLink item) of
        None \<Rightarrow> n
      | Some l \<Rightarrow>
          (case (FindTransport n (FirstTransportId l), FindTransport n (SecondTransportId l)) of
             (Some first, Some second) \<Rightarrow>
               (case (map_of (Connections first) (FirstConnection l), map_of (Connections second) (SecondConnection l)) of
                  (Some s1, Some s2) \<Rightarrow>
                    if CurrentState s1 \<noteq> Connecting \<or> CurrentState s2 \<noteq> Connecting then n
                    else activate_side (SecondTransportId l) (SecondConnection l)
                           (activate_side (FirstTransportId l) (FirstConnection l) n)
                | _ \<Rightarrow> n)
           | _ \<Rightarrow> CloseLink (ItemLink item) 0
                     (DisconnectInfo DisconnectTransportFailure (ascii ''Simulated endpoint disappeared'')) n))"

primrec GetSequenceKey :: "MessageOrder \<Rightarrow> (SequenceKey \<times> u64) option" where
  "GetSequenceKey (RealtimeStateOrder c s) = Some (SequenceKey 1 c, s)"
| "GetSequenceKey (RemoteEventOrder c p s) = Some (SequenceKey 2 c, s)"
| "GetSequenceKey NoOrder = None"
| "GetSequenceKey (ReliableReplicationOrder s) = None"

text \<open>The queue of the sender gives up the message; \<open>None\<close> where its counters are too small.\<close>

definition account_delivery :: "ScheduledItem \<Rightarrow> SimulatedConnection \<Rightarrow> SimulatedConnection option" where
  "account_delivery item s =
     (if ItemDelivery item = ReliableOrdered then
        (if length (ItemPayload item) > ReliableQueueBytes s then None
         else Some (update_statistics (\<lambda>x. x\<lparr>QueuedReliableBytes := Some (ReliableQueueBytes s - length (ItemPayload item))\<rparr>)
                (s\<lparr>ReliableQueueBytes := ReliableQueueBytes s - length (ItemPayload item)\<rparr>)))
      else if QueuedUnreliableMessages s > 0
      then Some (s\<lparr>QueuedUnreliableMessages := QueuedUnreliableMessages s - 1\<rparr>) else None)"

definition underflow_information :: "ScheduledItem \<Rightarrow> DisconnectInfo" where
  "underflow_information item =
     DisconnectInfo DisconnectTransportFailure
       (ascii (if ItemDelivery item = ReliableOrdered then ''Simulated reliable accounting underflow''
               else ''Simulated unreliable accounting underflow''))"

definition received_event :: "ScheduledItem \<Rightarrow> TransportEvent" where
  "received_event item =
     ReceivedMessageEvent (DestinationConnection item) (ItemDelivery item) (ItemTraffic item) (ItemOrder item)
       (ItemPayload item)"

definition count_sent :: "ScheduledItem \<Rightarrow> NetworkStatistics \<Rightarrow> NetworkStatistics" where
  "count_sent item x =
     x\<lparr>MessagesDelivered := SaturatingIncrement (MessagesDelivered x),
       DuplicatedUnreliableMessages :=
         (if Duplicate item then SaturatingIncrement (DuplicatedUnreliableMessages x)
          else DuplicatedUnreliableMessages x)\<rparr>"

definition count_received :: "ScheduledItem \<Rightarrow> NetworkStatistics \<Rightarrow> NetworkStatistics" where
  "count_received item x =
     x\<lparr>MessagesReceived := SaturatingIncrement (MessagesReceived x),
       BytesReceived := SaturatingAdd (length (ItemPayload item)) (BytesReceived x)\<rparr>"

definition drop_message :: "ScheduledItem \<Rightarrow> SimulatedNetworkState \<Rightarrow> SimulatedNetworkState" where
  "drop_message item = update_connection (SourceTransportId item) (SourceConnection item) RecordUnreliableDrop"

definition queue_message :: "ScheduledItem \<Rightarrow> SimulatedNetworkState \<Rightarrow> SimulatedNetworkState" where
  "queue_message item n =
     (case FindTransport n (DestinationTransportId item) of
        None \<Rightarrow> n
      | Some t \<Rightarrow>
          (case QueueEvent n (received_event item) t of
             (False, _) \<Rightarrow>
               if ItemDelivery item = ReliableOrdered
               then CloseLink (ItemLink item) (DestinationTransportId item)
                      (DisconnectInfo ResourceExhaustion (ascii ''Simulated receive queue exhausted'')) n
               else drop_message item n
           | (True, t') \<Rightarrow>
               update_connection (DestinationTransportId item) (DestinationConnection item)
                 (update_statistics (count_received item))
                 (update_connection (SourceTransportId item) (SourceConnection item) (update_statistics (count_sent item))
                   (update_transport (DestinationTransportId item) (\<lambda>_. t') n))))"

definition note_sequence :: "ScheduledItem \<Rightarrow> SequenceKey \<Rightarrow> u64 \<Rightarrow> SimulatedNetworkState \<Rightarrow> SimulatedNetworkState" where
  "note_sequence item key sequence =
     update_connection (DestinationTransportId item) (DestinationConnection item)
       (\<lambda>s. s\<lparr>LatestReceivedSequences := (LatestReceivedSequences s)(key \<mapsto> sequence)\<rparr>)"

definition is_stale :: "(SequenceKey \<rightharpoonup> u64) \<Rightarrow> SequenceKey \<Rightarrow> u64 \<Rightarrow> bool" where
  "is_stale latest key sequence = (case latest key of None \<Rightarrow> False | Some x \<Rightarrow> x \<ge> sequence)"

definition order_message :: "ScheduledItem \<Rightarrow> SimulatedConnection \<Rightarrow> SimulatedNetworkState \<Rightarrow> SimulatedNetworkState" where
  "order_message item d n =
     (if ItemDelivery item = UnreliableSequenced then
        (case GetSequenceKey (ItemOrder item) of
           None \<Rightarrow> drop_message item n
         | Some (key, sequence) \<Rightarrow>
             if is_stale (LatestReceivedSequences d) key sequence then drop_message item n
             else queue_message item (note_sequence item key sequence n))
      else queue_message item n)"

definition DeliverMessage :: "ScheduledItem \<Rightarrow> SimulatedNetworkState \<Rightarrow> SimulatedNetworkState" where
  "DeliverMessage item n =
     (if map_of (Links n) (ItemLink item) = None then n
      else
        (case (FindTransport n (SourceTransportId item), FindTransport n (DestinationTransportId item)) of
           (Some source, Some destination) \<Rightarrow>
             (case (map_of (Connections source) (SourceConnection item),
                    map_of (Connections destination) (DestinationConnection item)) of
                (Some s, Some d) \<Rightarrow>
                  if LinkId s \<noteq> ItemLink item \<or> LinkId d \<noteq> ItemLink item \<or> CurrentState s \<noteq> Connected \<or>
                     CurrentState d \<noteq> Connected then n
                  else
                    (case account_delivery item s of
                       None \<Rightarrow> CloseLink (ItemLink item) (SourceTransportId item) (underflow_information item) n
                     | Some s' \<Rightarrow>
                         order_message item d
                           (update_connection (SourceTransportId item) (SourceConnection item) (\<lambda>_. s') n))
              | _ \<Rightarrow> n)
         | _ \<Rightarrow> n))"

definition ProcessScheduledItem :: "ScheduledItem \<Rightarrow> SimulatedNetworkState \<Rightarrow> SimulatedNetworkState" where
  "ProcessScheduledItem item n =
     (case Kind item of
        Activate \<Rightarrow> ActivateLink item n
      | Message \<Rightarrow> DeliverMessage item n
      | Disconnection \<Rightarrow> CloseLink (ItemLink item) (SourceTransportId item) (ItemDisconnect item) n)"

text \<open>One turn of the loop of \<open>Pump\<close>: nothing when no item is due.\<close>

definition pump_one :: "SimulatedNetworkState \<Rightarrow> SimulatedNetworkState option" where
  "pump_one n =
     (case Scheduled n of
        [] \<Rightarrow> None
      | (key, item) # rest \<Rightarrow>
          if fst key \<le> CurrentTime n then Some (ProcessScheduledItem item (n\<lparr>Scheduled := rest\<rparr>)) else None)"

subsection \<open>Processing does not add to the schedule\<close>

lemma update_transport_fields [simp]:
  "Configuration (update_transport i f n) = Configuration n" "CurrentTime (update_transport i f n) = CurrentTime n"
  "NextTransportId (update_transport i f n) = NextTransportId n" "NextLinkId (update_transport i f n) = NextLinkId n"
  "NextTieBreaker (update_transport i f n) = NextTieBreaker n" "Servers (update_transport i f n) = Servers n"
  "Links (update_transport i f n) = Links n" "Scheduled (update_transport i f n) = Scheduled n"
  "AssertionsHeld (update_transport i f n) = AssertionsHeld n"
  by (simp_all add: update_transport_def)

lemma update_connection_fields [simp]:
  "Configuration (update_connection i c f n) = Configuration n" "CurrentTime (update_connection i c f n) = CurrentTime n"
  "NextTransportId (update_connection i c f n) = NextTransportId n" "NextLinkId (update_connection i c f n) = NextLinkId n"
  "NextTieBreaker (update_connection i c f n) = NextTieBreaker n" "Servers (update_connection i c f n) = Servers n"
  "Links (update_connection i c f n) = Links n" "Scheduled (update_connection i c f n) = Scheduled n"
  "AssertionsHeld (update_connection i c f n) = AssertionsHeld n"
  by (simp_all add: update_connection_def)

lemma assert_that_fields [simp]:
  "Configuration (assert_that ok n) = Configuration n" "CurrentTime (assert_that ok n) = CurrentTime n"
  "NextTransportId (assert_that ok n) = NextTransportId n" "NextLinkId (assert_that ok n) = NextLinkId n"
  "NextTieBreaker (assert_that ok n) = NextTieBreaker n" "Servers (assert_that ok n) = Servers n"
  "Links (assert_that ok n) = Links n" "Scheduled (assert_that ok n) = Scheduled n"
  "AssertionsHeld (assert_that ok n) \<longleftrightarrow> AssertionsHeld n \<and> ok" "Transports (assert_that ok n) = Transports n"
  by (simp_all add: assert_that_def)

lemma CloseOneSide_fields [simp]:
  "Scheduled (CloseOneSide i c d n) = Scheduled n" "Configuration (CloseOneSide i c d n) = Configuration n"
  "CurrentTime (CloseOneSide i c d n) = CurrentTime n" "NextTransportId (CloseOneSide i c d n) = NextTransportId n"
  "NextLinkId (CloseOneSide i c d n) = NextLinkId n" "NextTieBreaker (CloseOneSide i c d n) = NextTieBreaker n"
  "Links (CloseOneSide i c d n) = Links n"
  by (simp_all add: CloseOneSide_def Let_def split: option.splits)

lemma CloseLink_shrinks: "length (Scheduled (CloseLink l i d n)) \<le> length (Scheduled n)"
  by (simp add: CloseLink_def Let_def CancelScheduledLink_def split: option.splits)

lemma activate_side_Scheduled [simp]: "Scheduled (activate_side i c n) = Scheduled n"
  by (simp add: activate_side_def Let_def split: option.splits)

lemma ActivateLink_shrinks: "length (Scheduled (ActivateLink item n)) \<le> length (Scheduled n)"
  unfolding ActivateLink_def by (simp add: CloseLink_shrinks split: option.split)

lemma queue_message_shrinks: "length (Scheduled (queue_message item n)) \<le> length (Scheduled n)"
  unfolding queue_message_def drop_message_def by (simp add: CloseLink_shrinks split: option.split prod.split bool.split)

lemma order_message_shrinks: "length (Scheduled (order_message item d n)) \<le> length (Scheduled n)"
  unfolding order_message_def drop_message_def note_sequence_def
  by (simp add: order.trans [OF queue_message_shrinks] split: option.split)

lemma DeliverMessage_shrinks: "length (Scheduled (DeliverMessage item n)) \<le> length (Scheduled n)"
  unfolding DeliverMessage_def
  by (simp add: CloseLink_shrinks order.trans [OF order_message_shrinks] split: option.split)

lemma Process_shrinks: "length (Scheduled (ProcessScheduledItem item n)) \<le> length (Scheduled n)"
  by (simp add: ProcessScheduledItem_def ActivateLink_shrinks DeliverMessage_shrinks CloseLink_shrinks split: ScheduledKind.splits)

lemma pump_one_shrinks: "pump_one n = Some n' \<Longrightarrow> length (Scheduled n') < length (Scheduled n)"
proof -
  assume "pump_one n = Some n'"
  then obtain k item rest where s: "Scheduled n = (k, item) # rest" and n': "n' = ProcessScheduledItem item (n\<lparr>Scheduled := rest\<rparr>)"
    by (auto simp: pump_one_def split: list.splits if_splits)
  have "length (Scheduled n') \<le> length rest" using Process_shrinks [of item "n\<lparr>Scheduled := rest\<rparr>"] n' by simp
  then show ?thesis using s by simp
qed

function Pump :: "SimulatedNetworkState \<Rightarrow> nat \<times> SimulatedNetworkState" where
  "Pump n = (case pump_one n of None \<Rightarrow> (0, n) | Some n' \<Rightarrow> (case Pump n' of (k, n'') \<Rightarrow> (k + 1, n'')))"
  by pat_completeness auto
termination
  by (relation "measure (\<lambda>n. length (Scheduled n))") (simp_all add: pump_one_shrinks)

declare Pump.simps [simp del]
section \<open>The network\<close>

definition Create :: "SimulatedTransportConfiguration \<Rightarrow> SimulatedNetworkState option" where
  "Create c =
     (if \<not> SimulatedConfiguration_IsValid c then None
      else Some \<lparr>Configuration = c, CurrentTime = 0, RandomState = Seed c, NextTransportId = 1, NextLinkId = 1,
             NextTieBreaker = 1, Transports = [], Servers = [], Links = [], Scheduled = [], AssertionsHeld = True\<rparr>)"

definition CreateTransport :: "SimulatedNetworkState \<Rightarrow> nat option \<times> SimulatedNetworkState" where
  "CreateTransport n =
     (if length (Transports n) \<ge> MaximumTransports (Configuration n) \<or> NextTransportId n = u64_max then (None, n)
      else (Some (NextTransportId n),
            n\<lparr>NextTransportId := NextTransportId n + 1,
              Transports := map_emplace (NextTransportId n) new_SimulatedTransportState (Transports n)\<rparr>))"

definition Advance :: "int \<Rightarrow> SimulatedNetworkState \<Rightarrow> bool \<times> SimulatedNetworkState" where
  "Advance delta n =
     (if delta < 0 then (False, n)
      else (case AddTime (CurrentTime n) delta of
          None \<Rightarrow> (False, n)
        | Some next \<Rightarrow> (True, n\<lparr>CurrentTime := next\<rparr>)))"

definition Now :: "SimulatedNetworkState \<Rightarrow> int" where
  "Now n = CurrentTime n"

definition delete_SimulatedTransport :: "nat \<Rightarrow> SimulatedNetworkState \<Rightarrow> SimulatedNetworkState" where
  "delete_SimulatedTransport i n =
     (case FindTransport n i of
        None \<Rightarrow> n
      | Some t \<Rightarrow>
          let n1 = fold (\<lambda>link. CloseLink link i
                       (DisconnectInfo DisconnectTransportFailure (ascii ''Simulated transport destroyed'')))
                     (map (\<lambda>e. LinkId (snd e)) (Connections t)) n;
              n2 = (if Started t \<and> StateRole t = Server then n1\<lparr>Servers := map_erase (StateEndpoint t) (Servers n1)\<rparr> else n1)
          in n2\<lparr>Transports := map_erase i (Transports n2)\<rparr>)"

section \<open>The transport\<close>

definition Operation :: "TransportOperationStatus \<Rightarrow> TransportOperationResult" where
  "Operation s = TransportOperationResult s None"

definition TerminalOperation :: "TransportOperationStatus \<Rightarrow> DisconnectInfo \<Rightarrow> TransportOperationResult" where
  "TerminalOperation s d = TransportOperationResult s (Some d)"

type_synonym operation = "SimulatedNetworkState \<Rightarrow> TransportOperationResult \<times> SimulatedNetworkState"

definition mark_started :: "TransportStartConfiguration \<Rightarrow> SimulatedTransportState \<Rightarrow> SimulatedTransportState" where
  "mark_started c t =
     t\<lparr>Started := True, StateRole := Role c, StateEndpoint := StartEndpoint c, StateLimits := AdvertisedLimits c\<rparr>"

definition new_connection :: "nat \<Rightarrow> ConnectionId \<Rightarrow> nat \<Rightarrow> NetworkLimits \<Rightarrow> int \<Rightarrow> SimulatedConnection" where
  "new_connection link remote remoteTransport limits latency =
     \<lparr>LinkId = link, RemoteConnection = remote, RemoteTransportId = remoteTransport, CurrentState = Connecting,
      ConnectionLimits = limits, ReliableQueueBytes = 0, QueuedUnreliableMessages = 0, UnreliableAttempts = 0,
      NextSendAvailable = 0, LastReliableDelivery = 0, ConnectionStatistics = NewStatistics latency,
      LatestReceivedSequences = Map.empty\<rparr>"

definition add_connection :: "ConnectionId \<Rightarrow> SimulatedConnection \<Rightarrow> SimulatedTransportState \<Rightarrow> SimulatedTransportState" where
  "add_connection c s t = t\<lparr>Connections := map_emplace c s (Connections t)\<rparr>"

definition schedule_exhausted :: DisconnectInfo where
  "schedule_exhausted = DisconnectInfo ResourceExhaustion (ascii ''Simulated schedule exhausted'')"

text \<open>The end of \<open>Start\<close>, once both sides and the link are registered.\<close>

definition schedule_link :: "nat \<Rightarrow> TransportStartConfiguration \<Rightarrow> nat \<Rightarrow> int \<Rightarrow> operation" where
  "schedule_link i c link timeoutAt n =
     (case Schedule (default_item\<lparr>Kind := Activate, At := CurrentTime n, ItemLink := link\<rparr>) n of
        (False, n1) \<Rightarrow> (Operation ResourceExhausted, CloseLink link 0 schedule_exhausted n1)
      | (True, n1) \<Rightarrow>
          (case (if ConnectionLifetime (Configuration n) = None then (True, n1)
                 else Schedule (default_item\<lparr>Kind := Disconnection, At := timeoutAt, ItemLink := link,
                        ItemDisconnect := DisconnectInfo Timeout (ascii ''Simulated connection lifetime expired'')\<rparr>) n1) of
             (False, n2) \<Rightarrow> (Operation ResourceExhausted, CloseLink link 0 schedule_exhausted n2)
           | (True, n2) \<Rightarrow> (Operation Succeeded, update_transport i (mark_started c) n2)))"

text \<open>Registering both sides and the link.\<close>

definition register_link ::
  "nat \<Rightarrow> nat \<Rightarrow> ConnectionId \<Rightarrow> ConnectionId \<Rightarrow> TransportStartConfiguration \<Rightarrow> NetworkLimits \<Rightarrow> int \<Rightarrow> operation" where
  "register_link i j a b c limits timeoutAt n =
     (let link = NextLinkId n; latency = BaseLatency (Configuration n);
          n1 = update_transport i (add_connection a (new_connection link b j limits latency))
                 (n\<lparr>NextLinkId := NextLinkId n + 1\<rparr>);
          n2 = update_transport j (add_connection b (new_connection link a i limits latency)) n1;
          n3 = n2\<lparr>Links := map_emplace link
                 \<lparr>FirstTransportId = i, FirstConnection = a, SecondTransportId = j, SecondConnection = b\<rparr> (Links n2)\<rparr>
      in schedule_link i c link timeoutAt n3)"

text \<open>Connecting a client to the server that was found, once capacity has been checked.\<close>

definition open_link :: "nat \<Rightarrow> nat \<Rightarrow> TransportStartConfiguration \<Rightarrow> NetworkLimits \<Rightarrow> int \<Rightarrow> operation" where
  "open_link i j c limits timeoutAt n =
     (case map_option AllocateConnection (FindTransport n i) of
        None \<Rightarrow> (Operation TransportFailure, n)
      | Some (clientConnection, client) \<Rightarrow>
          let n0 = update_transport i (\<lambda>_. client) n
          in (case map_option AllocateConnection (FindTransport n0 j) of
                None \<Rightarrow> (Operation TransportFailure, n)
              | Some (serverConnection, server) \<Rightarrow>
                  let n1 = update_transport j (\<lambda>_. server) n0
                  in (case (clientConnection, serverConnection) of
                        (Some a, Some b) \<Rightarrow>
                          if NextLinkId n = u64_max
                          then (Operation ResourceExhausted,
                                update_transport j (ReleaseConnection b) (update_transport i (ReleaseConnection a) n1))
                          else register_link i j a b c limits timeoutAt n1
                      | (Some a, None) \<Rightarrow> (Operation ResourceExhausted, update_transport i (ReleaseConnection a) n1)
                      | (None, Some b) \<Rightarrow> (Operation ResourceExhausted, update_transport j (ReleaseConnection b) n1)
                      | (None, None) \<Rightarrow> (Operation ResourceExhausted, n1))))"

definition StartClient :: "nat \<Rightarrow> TransportStartConfiguration \<Rightarrow> SimulatedTransportState \<Rightarrow> operation" where
  "StartClient i c t n =
     (case map_of (Servers n) (StartEndpoint c) of
        None \<Rightarrow> (Operation TransportFailure, n)
      | Some j \<Rightarrow>
          (case FindTransport n j of
             None \<Rightarrow> (Operation TransportFailure, n)
           | Some server \<Rightarrow>
               if \<not> Started server \<or> StateRole server \<noteq> Server then (Operation TransportFailure, n)
               else
                 (case NegotiateNetworkLimits (AdvertisedLimits c) (StateLimits server) of
                    None \<Rightarrow> (Operation ResourceExhausted, n)
                  | Some limits \<Rightarrow>
                      if MaximumReliableQueueBytes (Configuration n) < MaximumReliableMessageBytes limits
                      then (Operation ResourceExhausted, n)
                      else
                        (case (case ConnectionLifetime (Configuration n) of
                                 None \<Rightarrow> Some (CurrentTime n)
                               | Some lifetime \<Rightarrow> AddTime (CurrentTime n) lifetime) of
                           None \<Rightarrow> (Operation ResourceExhausted, n)
                         | Some timeoutAt \<Rightarrow>
                             if \<not> CanSchedule n (if ConnectionLifetime (Configuration n) = None then 1 else 2) \<or>
                                length (Links n) \<ge> MaximumConnections (Configuration n) \<or>
                                \<not> HasEventCapacityWithReservations n t 4 \<or>
                                \<not> HasEventCapacityWithReservations n server 4
                             then (Operation ResourceExhausted, n)
                             else open_link i j c limits timeoutAt n))))"

definition Start :: "nat \<Rightarrow> TransportStartConfiguration \<Rightarrow> operation" where
  "Start i c n =
     (case FindTransport n i of
        None \<Rightarrow> (Operation InvalidState, n)
      | Some t \<Rightarrow>
          if \<not> StartConfiguration_IsValid c then (Operation MessageRejected, n)
          else if Started t \<or> Connections t \<noteq> [] then (Operation InvalidState, n)
          else if MaximumReliableQueueBytes (Configuration n) < MaximumReliableMessageBytes (AdvertisedLimits c)
          then (Operation ResourceExhausted, n)
          else if Role c = Server then
            (if map_of (Servers n) (StartEndpoint c) \<noteq> None then (Operation InvalidState, n)
             else (Operation Succeeded,
                   (update_transport i (mark_started c) n)\<lparr>Servers := (StartEndpoint c, i) # Servers n\<rparr>))
          else StartClient i c t n)"

definition disconnect_item :: "nat \<Rightarrow> ConnectionId \<Rightarrow> nat \<Rightarrow> int \<Rightarrow> DisconnectInfo \<Rightarrow> ScheduledItem" where
  "disconnect_item i c link due information =
     default_item\<lparr>Kind := Disconnection, At := due, ItemLink := link, SourceTransportId := i, SourceConnection := c,
       ItemDisconnect := information\<rparr>"

definition close_connection :: "SimulatedConnection \<Rightarrow> SimulatedConnection" where
  "close_connection s = s\<lparr>CurrentState := Closing\<rparr>"

definition Stop :: "nat \<Rightarrow> DisconnectInfo \<Rightarrow> operation" where
  "Stop i information n =
     (case FindTransport n i of
        None \<Rightarrow> (Operation InvalidState, n)
      | Some t \<Rightarrow>
          if \<not> DisconnectInfo_IsValid information then (Operation MessageRejected, n)
          else if \<not> Started t then (Operation Succeeded, n)
          else if \<not> CanSchedule n (length (Connections t)) then (Operation ResourceExhausted, n)
          else
            (let n1 = (if StateRole t = Server then n\<lparr>Servers := map_erase (StateEndpoint t) (Servers n)\<rparr> else n);
                 n2 = update_transport i (\<lambda>t. t\<lparr>Started := False,
                        Connections := map (\<lambda>e. (fst e, close_connection (snd e))) (Connections t)\<rparr>) n1
             in (Operation Succeeded,
                 fold (\<lambda>e n. snd (Schedule (disconnect_item i (fst e) (LinkId (snd e)) (CurrentTime n) information) n))
                   (Connections t) n2)))"

definition Disconnect :: "nat \<Rightarrow> ConnectionId \<Rightarrow> DisconnectInfo \<Rightarrow> operation" where
  "Disconnect i c information n =
     (case FindTransport n i of
        None \<Rightarrow> (Operation InvalidState, n)
      | Some t \<Rightarrow>
          if \<not> DisconnectInfo_IsValid information then (Operation MessageRejected, n)
          else
            (case map_of (Connections t) c of
               None \<Rightarrow> (Operation InvalidConnection, n)
             | Some s \<Rightarrow>
                 if CurrentState s = Closing then (Operation Succeeded, n)
                 else if \<not> CanSchedule n 1 then (Operation ResourceExhausted, n)
                 else (Operation Succeeded,
                       snd (Schedule (disconnect_item i c (LinkId s) (CurrentTime n) information)
                              (update_connection i c close_connection n)))))"

definition ScheduleDisconnect :: "nat \<Rightarrow> ConnectionId \<Rightarrow> int \<Rightarrow> DisconnectInfo \<Rightarrow> operation" where
  "ScheduleDisconnect i c delay information n =
     (case FindTransport n i of
        None \<Rightarrow> (Operation InvalidState, n)
      | Some t \<Rightarrow>
          if \<not> IsValidDuration delay True \<or> \<not> DisconnectInfo_IsValid information then (Operation MessageRejected, n)
          else
            (case map_of (Connections t) c of
               None \<Rightarrow> (Operation InvalidConnection, n)
             | Some s \<Rightarrow>
                 (case AddTime (CurrentTime n) delay of
                    None \<Rightarrow> (Operation ResourceExhausted, n)
                  | Some due \<Rightarrow>
                      if \<not> CanSchedule n 1 then (Operation ResourceExhausted, n)
                      else (case Schedule (disconnect_item i c (LinkId s) due information) n of
                          (False, n') \<Rightarrow> (Operation ResourceExhausted, n')
                        | (True, n') \<Rightarrow> (Operation Succeeded, n')))))"

subsection \<open>Sending\<close>

text \<open>
  The time of delivery, the time at which the line is free again, and the network after the
  random draws. Where the code fails, the caller restores everything that was changed.
\<close>

definition ComputeDeliveryTime ::
  "int \<Rightarrow> nat \<Rightarrow> bool \<Rightarrow> SimulatedNetworkState \<Rightarrow> (int \<times> int \<times> SimulatedNetworkState) option" where
  "ComputeDeliveryTime available bytes reorder n =
     (case TransmissionDuration bytes (BandwidthBytesPerSecond (Configuration n)) of
        None \<Rightarrow> None
      | Some transmission \<Rightarrow>
          (case AddTime (max (CurrentTime n) available) transmission of
             None \<Rightarrow> None
           | Some finish \<Rightarrow>
               (case AddTime finish (BaseLatency (Configuration n)) of
                  None \<Rightarrow> None
                | Some due1 \<Rightarrow>
                    (case RandomDuration (MaximumJitter (Configuration n)) n of (jitter, n1) \<Rightarrow>
                       (case AddTime due1 jitter of
                          None \<Rightarrow> None
                        | Some due2 \<Rightarrow>
                            if \<not> reorder then Some (due2, finish, n1)
                            else
                              (case RandomDuration (MaximumReorderDelay (Configuration n1)) n1 of (delay, n2) \<Rightarrow>
                                 (case AddTime due2 delay of
                                    None \<Rightarrow> None
                                  | Some due3 \<Rightarrow> Some (due3, finish, n2))))))))"

definition message_item :: "nat \<Rightarrow> SimulatedConnection \<Rightarrow> NetworkMessageIntent \<Rightarrow> int \<Rightarrow> bool \<Rightarrow> ScheduledItem" where
  "message_item i s m due duplicate =
     default_item\<lparr>Kind := Message, At := due, ItemLink := LinkId s, SourceTransportId := i,
       SourceConnection := Destination m, DestinationTransportId := RemoteTransportId s,
       DestinationConnection := RemoteConnection s, ItemDelivery := Delivery m, ItemTraffic := Traffic m,
       ItemOrder := Order m, ItemPayload := Payload m, Duplicate := duplicate\<rparr>"

definition count_message :: "nat \<Rightarrow> NetworkStatistics \<Rightarrow> NetworkStatistics" where
  "count_message bytes x =
     x\<lparr>MessagesSent := SaturatingIncrement (MessagesSent x), BytesSent := SaturatingAdd bytes (BytesSent x)\<rparr>"

definition queue_exhausted :: DisconnectInfo where
  "queue_exhausted = DisconnectInfo ResourceExhaustion (ascii ''Simulated reliable queue exhausted'')"

definition SendReliable :: "nat \<Rightarrow> SimulatedConnection \<Rightarrow> NetworkMessageIntent \<Rightarrow> operation" where
  "SendReliable i s m n =
     (let c = Destination m; bytes = length (Payload m);
          queueLimit = min (MaximumReliableQueueBytes (Configuration n)) (MaximumQueuedReliableBytes (ConnectionLimits s))
      in if bytes > queueLimit \<or> ReliableQueueBytes s > queueLimit - bytes \<or> \<not> CanScheduleMessages n 1 then
           (case Schedule (disconnect_item i c (LinkId s) (CurrentTime n) queue_exhausted)
                   (update_connection i c close_connection n) of (ok, n1) \<Rightarrow>
              (TerminalOperation ResourceExhausted queue_exhausted,
               if ok then n1 else CloseLink (LinkId s) i queue_exhausted n1))
         else
           (let n1 = update_connection i c (update_statistics (count_message bytes)) n
            in case ComputeDeliveryTime (NextSendAvailable s) bytes False n1 of
                 None \<Rightarrow> (Operation ResourceExhausted, n)
               | Some (due, finish, n2) \<Rightarrow>
                   let due' = max due (LastReliableDelivery s);
                       n3 = update_connection i c (\<lambda>s. s\<lparr>NextSendAvailable := finish, LastReliableDelivery := due'\<rparr>) n2
                   in case Schedule (message_item i s m due' False) n3 of
                        (False, n4) \<Rightarrow> (TerminalOperation ResourceExhausted schedule_exhausted,
                                       CloseLink (LinkId s) i schedule_exhausted n4)
                      | (True, n4) \<Rightarrow>
                          (Operation Succeeded,
                           update_connection i c (\<lambda>s. update_statistics
                               (\<lambda>x. x\<lparr>QueuedReliableBytes := Some (ReliableQueueBytes s + bytes)\<rparr>)
                               (s\<lparr>ReliableQueueBytes := ReliableQueueBytes s + bytes\<rparr>)) n4)))"

text \<open>The loop that prepares the copies: their items, the time the line is free, and the draws.\<close>

fun prepare_copies ::
  "nat \<Rightarrow> SimulatedConnection \<Rightarrow> NetworkMessageIntent \<Rightarrow> bool list \<Rightarrow> int \<Rightarrow> SimulatedNetworkState \<Rightarrow>
   (ScheduledItem list \<times> int \<times> SimulatedNetworkState) option" where
  "prepare_copies i s m [] available n = Some ([], available, n)"
| "prepare_copies i s m (duplicate # rest) available n =
     (case ProbabilityHit (UnreliableReorderProbability (Configuration n)) n of (reorder, n1) \<Rightarrow>
        (case ComputeDeliveryTime available (length (Payload m)) reorder n1 of
           None \<Rightarrow> None
         | Some (due, finish, n2) \<Rightarrow>
             (case prepare_copies i s m rest finish n2 of
                None \<Rightarrow> None
              | Some (items, available', n3) \<Rightarrow> Some (message_item i s m due duplicate # items, available', n3))))"

text \<open>The loop that schedules them, which stops at the first that is refused.\<close>

fun schedule_all :: "ScheduledItem list \<Rightarrow> SimulatedNetworkState \<Rightarrow> bool \<times> SimulatedNetworkState" where
  "schedule_all [] n = (True, n)"
| "schedule_all (item # rest) n =
     (case Schedule item n of (False, n1) \<Rightarrow> (False, n1) | (True, n1) \<Rightarrow> schedule_all rest n1)"

definition SendUnreliable :: "nat \<Rightarrow> SimulatedConnection \<Rightarrow> NetworkMessageIntent \<Rightarrow> operation" where
  "SendUnreliable i s m n =
     (let c = Destination m; bytes = length (Payload m);
          n1 = update_connection i c (\<lambda>s. update_statistics (count_message bytes)
                 (s\<lparr>UnreliableAttempts := saturating_increment (UnreliableAttempts s)\<rparr>)) n
      in case ProbabilityHit (UnreliableLossProbability (Configuration n)) n1 of (lost, n2) \<Rightarrow>
           if lost then (Operation Succeeded, update_connection i c RecordUnreliableDrop n2)
           else
             (case ProbabilityHit (UnreliableDuplicationProbability (Configuration n)) n2 of (duplicate, n3) \<Rightarrow>
                let copies = (if duplicate then [False, True] else [False]);
                    free = (MaximumQueuedUnreliableMessages (Configuration n) + 2 ^ 32 - QueuedUnreliableMessages s) mod 2 ^ 32
                in if length copies > free \<or> \<not> CanScheduleMessages n3 (length copies)
                   then (Operation Succeeded, update_connection i c RecordUnreliableDrop n3)
                   else
                     (case prepare_copies i s m copies (NextSendAvailable s) n3 of
                        None \<Rightarrow> (Operation ResourceExhausted, n)
                      | Some (items, available, n4) \<Rightarrow>
                          (case schedule_all items (update_connection i c (\<lambda>s. s\<lparr>NextSendAvailable := available\<rparr>) n4) of
                             (False, n5) \<Rightarrow> (Operation Succeeded, update_connection i c RecordUnreliableDrop n5)
                           | (True, n5) \<Rightarrow>
                               (Operation Succeeded,
                                update_connection i c
                                  (\<lambda>s. s\<lparr>QueuedUnreliableMessages := QueuedUnreliableMessages s + length copies\<rparr>) n5)))))"

definition Send :: "nat \<Rightarrow> NetworkMessageIntent \<Rightarrow> operation" where
  "Send i m n =
     (case FindTransport n i of
        None \<Rightarrow> (Operation InvalidState, n)
      | Some t \<Rightarrow>
          (case map_of (Connections t) (Destination m) of
             None \<Rightarrow> (Operation InvalidConnection, n)
           | Some s \<Rightarrow>
               if CurrentState s \<noteq> Connected then (Operation InvalidState, n)
               else if Payload m = [] \<or>
                  length (Payload m) > (if Delivery m = ReliableOrdered then MaximumReliableMessageBytes (ConnectionLimits s)
                                        else MaximumUnreliableMessageBytes (ConnectionLimits s)) \<or>
                  length (Payload m) > MaximumDecodedMessageBytes (ConnectionLimits s)
               then (Operation MessageRejected, n)
               else if Delivery m \<noteq> ReliableOrdered \<and>
                  length (Payload m) > min (MaximumUnreliableDatagramBytes (Configuration n))
                    (MaximumUnreliableMessageBytes (ConnectionLimits s))
               then (Operation MessageRejected, n)
               else if Delivery m = ReliableOrdered then SendReliable i s m n else SendUnreliable i s m n))"

definition PollEvents :: "nat \<Rightarrow> nat \<Rightarrow> SimulatedNetworkState \<Rightarrow> TransportEvent list \<times> SimulatedNetworkState" where
  "PollEvents i bytes n =
     (case FindTransport n i of
        None \<Rightarrow> ([], n)
      | Some t \<Rightarrow>
          let count = min bytes (length (Events t))
          in (take count (Events t), update_transport i (\<lambda>t. t\<lparr>Events := drop count (Events t)\<rparr>) n))"

definition GetAvailableDatagramBytes :: "nat \<Rightarrow> ConnectionId \<Rightarrow> SimulatedNetworkState \<Rightarrow> nat option" where
  "GetAvailableDatagramBytes i c n =
     (case FindTransport n i of
        None \<Rightarrow> None
      | Some t \<Rightarrow>
          (case map_of (Connections t) c of
             None \<Rightarrow> None
           | Some s \<Rightarrow> Some (min (MaximumUnreliableDatagramBytes (Configuration n))
               (MaximumUnreliableMessageBytes (ConnectionLimits s)))))"

definition GetStatistics :: "nat \<Rightarrow> ConnectionId \<Rightarrow> SimulatedNetworkState \<Rightarrow> NetworkStatistics option" where
  "GetStatistics i c n =
     (case FindTransport n i of
        None \<Rightarrow> None
      | Some t \<Rightarrow> map_option ConnectionStatistics (map_of (Connections t) c))"
end
