(* ===== verification/SimulatedInvariant.thy ===== *)
theory SimulatedInvariant imports SimulatedTransport begin

text \<open>
  What holds in every reachable state of the simulated network: the assertions of the source, the
  capacity reserved for lifecycle events, and the accounting of what is under way.
\<close>

section \<open>Maps\<close>

lemma map_of_modify: "map_of (map_modify k f m) j = (if j = k then map_option f (map_of m j) else map_of m j)"
  by (induction m) (auto simp: map_modify_def)

lemma keys_modify [simp]: "map fst (map_modify k f m) = map fst m"
  by (simp add: map_modify_def)

lemma length_modify [simp]: "length (map_modify k f m) = length m"
  by (simp add: map_modify_def)

lemma set_modify: "set (map_modify k f m) = (\<lambda>x. (fst x, if fst x = k then f (snd x) else snd x)) ` set m"
  by (simp add: map_modify_def)

lemma sum_modify:
  "(\<And>x. x \<in> set m \<Longrightarrow> fst x = k \<Longrightarrow> g (f (snd x)) \<le> g (snd x)) \<Longrightarrow>
     sum_list (map (\<lambda>e. g (snd e)) (map_modify k f m)) \<le> (sum_list (map (\<lambda>e. g (snd e)) m) :: nat)"
proof (induction m)
  case (Cons e m)
  then have "sum_list (map (\<lambda>e. g (snd e)) (map_modify k f m)) \<le> sum_list (map (\<lambda>e. g (snd e)) m)" by simp
  moreover have "fst e = k \<longrightarrow> g (f (snd e)) \<le> g (snd e)" using Cons.prems by simp
  ultimately show ?case by (cases "fst e = k") (simp_all add: map_modify_def add_mono)
qed (simp add: map_modify_def)

lemma sum_modify_less:
  assumes "map_of m k = Some x" "g (f x) + d \<le> g x" "\<And>y. g (f y) \<le> g y"
  shows "sum_list (map (\<lambda>e. g (snd e)) (map_modify k f m)) + d \<le> (sum_list (map (\<lambda>e. g (snd e)) m) :: nat)"
  using assms(1)
proof (induction m)
  case (Cons e m)
  have "sum_list (map (\<lambda>e. g (snd e)) (map_modify k f m)) \<le> sum_list (map (\<lambda>e. g (snd e)) m)"
    by (rule sum_modify) (rule assms(3))
  with Cons assms(2) assms(3) [of "snd e"] show ?case
    by (cases "fst e = k") (auto simp: map_modify_def)
qed simp

lemma sum_erase:
  assumes "map_of m k = Some x" "\<And>y. d \<le> g y"
  shows "sum_list (map (\<lambda>e. g (snd e)) (map_erase k m)) + d \<le> (sum_list (map (\<lambda>e. g (snd e)) m) :: nat)"
  using assms(1)
proof (induction m)
  case (Cons e m)
  have "sum_list (map (\<lambda>e. g (snd e)) (map_erase k m)) \<le> sum_list (map (\<lambda>e. g (snd e)) m)"
    unfolding map_erase_def by (rule sum_list_filter_le_nat)
  with Cons assms(2) [of "snd e"] show ?case by (cases "fst e = k") (auto simp: map_erase_def)
qed simp

lemma keys_erase: "distinct (map fst m) \<Longrightarrow> distinct (map fst (map_erase k m))" "set (map_erase k m) \<subseteq> set m"
  by (auto simp: map_erase_def distinct_map_filter)

lemma sum_insort: "sum_list (map f (insort_key g x xs)) = f x + (sum_list (map f xs) :: nat)"
  by (induction xs) auto

lemma keys_emplace: "distinct (map fst m) \<Longrightarrow> distinct (map fst (map_emplace k v m))"
  "set (map_emplace k v m) \<subseteq> insert (k, v) (set m)" "length (map_emplace k v m) \<le> Suc (length m)"
proof -
  have "map fst (insort_key fst (k, v) m) = insort k (map fst m)" by (induction m) auto
  then show "distinct (map fst m) \<Longrightarrow> distinct (map fst (map_emplace k v m))"
    by (simp add: map_emplace_def distinct_insort)
qed (auto simp: map_emplace_def set_insort_key)

lemma map_of_mem: "distinct (map fst m) \<Longrightarrow> (k, v) \<in> set m \<longleftrightarrow> map_of m k = Some v"
  by (metis map_of_eq_Some_iff)

section \<open>The invariant\<close>

text \<open>Whether a scheduled item is a message sent from a connection over a link.\<close>

definition carried :: "nat \<Rightarrow> ConnectionId \<Rightarrow> nat \<Rightarrow> ScheduledItem \<Rightarrow> bool" where
  "carried i c link item \<longleftrightarrow>
     Kind item = Message \<and> SourceTransportId item = i \<and> SourceConnection item = c \<and> ItemLink item = link"

definition reliable_share :: "nat \<Rightarrow> ConnectionId \<Rightarrow> nat \<Rightarrow> ScheduledItem \<Rightarrow> nat" where
  "reliable_share i c link item =
     (if carried i c link item \<and> ItemDelivery item = ReliableOrdered then length (ItemPayload item) else 0)"

definition unreliable_share :: "nat \<Rightarrow> ConnectionId \<Rightarrow> nat \<Rightarrow> ScheduledItem \<Rightarrow> nat" where
  "unreliable_share i c link item = (if carried i c link item \<and> ItemDelivery item \<noteq> ReliableOrdered then 1 else 0)"

definition under_way :: "(ScheduledItem \<Rightarrow> nat) \<Rightarrow> (ScheduledKey \<times> ScheduledItem) list \<Rightarrow> nat" where
  "under_way f sched = sum_list (map (\<lambda>e. f (snd e)) sched)"

record environment =
  EnvConfiguration :: SimulatedTransportConfiguration
  EnvNextLink :: nat
  EnvScheduled :: "(ScheduledKey \<times> ScheduledItem) list"

definition connection_inv :: "environment \<Rightarrow> nat \<Rightarrow> ConnectionId \<Rightarrow> SimulatedConnection \<Rightarrow> bool" where
  "connection_inv v i c s \<longleftrightarrow>
     LinkId s < EnvNextLink v \<and>
     under_way (reliable_share i c (LinkId s)) (EnvScheduled v) \<le> ReliableQueueBytes s \<and>
     under_way (unreliable_share i c (LinkId s)) (EnvScheduled v) \<le> QueuedUnreliableMessages s \<and>
     ReliableQueueBytes s \<le> MaximumReliableQueueBytes (EnvConfiguration v) \<and>
     QueuedUnreliableMessages s \<le> MaximumQueuedUnreliableMessages (EnvConfiguration v) \<and>
     QueuedReliableBytes (ConnectionStatistics s) = Some (ReliableQueueBytes s)"

definition transport_inv :: "environment \<Rightarrow> nat \<Rightarrow> SimulatedTransportState \<Rightarrow> bool" where
  "transport_inv v i t \<longleftrightarrow>
     distinct (map fst (Connections t)) \<and>
     length (Events t) + ReservedLifecycleEventCapacity t \<le> MaximumPendingEventsPerTransport (EnvConfiguration v) \<and>
     (\<forall>e \<in> set (Connections t). connection_inv v i (fst e) (snd e))"

definition environment_of :: "SimulatedNetworkState \<Rightarrow> environment" where
  "environment_of n = \<lparr>EnvConfiguration = Configuration n, EnvNextLink = NextLinkId n, EnvScheduled = Scheduled n\<rparr>"

definition network_inv :: "SimulatedNetworkState \<Rightarrow> bool" where
  "network_inv n \<longleftrightarrow>
     SimulatedConfiguration_IsValid (Configuration n) \<and> AssertionsHeld n \<and>
     distinct (map fst (Transports n)) \<and> length (Transports n) \<le> MaximumTransports (Configuration n) \<and>
     (\<forall>e \<in> set (Transports n). fst e < NextTransportId n \<and> transport_inv (environment_of n) (fst e) (snd e)) \<and>
     (\<forall>e \<in> set (Scheduled n). ItemLink (snd e) < NextLinkId n \<and> snd (fst e) < NextTieBreaker n) \<and>
     length (Scheduled n) \<le> MaximumScheduledEvents (Configuration n) \<and>
     (\<forall>e \<in> set (Links n). FirstTransportId (snd e) \<noteq> SecondTransportId (snd e)) \<and>
     length (Links n) \<le> MaximumConnections (Configuration n)"

lemma inv_found: "network_inv n \<Longrightarrow> FindTransport n i = Some t \<Longrightarrow> transport_inv (environment_of n) i t"
  unfolding network_inv_def FindTransport_def by (metis fst_conv map_of_SomeD snd_conv)

lemma inv_connection:
  "network_inv n \<Longrightarrow> FindTransport n i = Some t \<Longrightarrow> map_of (Connections t) c = Some s \<Longrightarrow>
     connection_inv (environment_of n) i c s"
  using inv_found unfolding transport_inv_def by (metis fst_conv map_of_SomeD snd_conv)

lemma environment_update [simp]:
  "environment_of (update_transport i f n) = environment_of n" "environment_of (update_connection i c g n) = environment_of n"
  "environment_of (assert_that ok n) = environment_of n"
  by (simp_all add: environment_of_def)

lemma FindTransport_update [simp]:
  "FindTransport (update_transport i f n) j = (if j = i then map_option f (FindTransport n j) else FindTransport n j)"
  "FindTransport (assert_that ok n) j = FindTransport n j"
  by (simp_all add: FindTransport_def update_transport_def map_of_modify)

text \<open>Changing one transport.\<close>

lemma inv_update_transport:
  assumes n: "network_inv n" and f: "\<And>t. FindTransport n i = Some t \<Longrightarrow> transport_inv (environment_of n) i t \<Longrightarrow>
    transport_inv (environment_of n) i (f t)"
  shows "network_inv (update_transport i f n)"
proof -
  have "transport_inv (environment_of n) (fst e) (snd e) \<and> fst e < NextTransportId n"
    if e: "e \<in> set (map_modify i f (Transports n))" for e
  proof -
    from e obtain x where x: "x \<in> set (Transports n)" "e = (fst x, if fst x = i then f (snd x) else snd x)"
      unfolding set_modify by blast
    moreover have "FindTransport n (fst x) = Some (snd x)"
      using n x(1) unfolding network_inv_def FindTransport_def by (metis map_of_mem prod.collapse)
    ultimately show ?thesis using n f unfolding network_inv_def by auto
  qed
  then have "\<forall>e \<in> set (Transports (update_transport i f n)).
      fst e < NextTransportId n \<and> transport_inv (environment_of n) (fst e) (snd e)"
    unfolding update_transport_def by simp
  moreover have "map fst (Transports (update_transport i f n)) = map fst (Transports n)"
    "length (Transports (update_transport i f n)) = length (Transports n)"
    by (simp_all add: update_transport_def)
  ultimately show ?thesis
    using n unfolding network_inv_def environment_update update_transport_fields by (metis (no_types))
qed

lemma inv_assert: "network_inv n \<Longrightarrow> ok \<Longrightarrow> network_inv (assert_that ok n)"
  unfolding network_inv_def environment_update assert_that_fields by simp

lemma transport_inv_modify:
  assumes t: "transport_inv v i t"
    and f: "\<And>s. map_of (Connections t) c = Some s \<Longrightarrow> connection_inv v i c s \<Longrightarrow>
      connection_inv v i c (f s) \<and> reserved_events (f s) \<le> reserved_events s"
  shows "transport_inv v i (t\<lparr>Connections := map_modify c f (Connections t)\<rparr>)"
proof -
  have found: "map_of (Connections t) (fst x) = Some (snd x)" if "x \<in> set (Connections t)" for x
    using t that unfolding transport_inv_def by (metis map_of_mem prod.collapse)
  have "connection_inv v i (fst e) (snd e)" if e: "e \<in> set (map_modify c f (Connections t))" for e
  proof -
    from e obtain x where x: "x \<in> set (Connections t)" "e = (fst x, if fst x = c then f (snd x) else snd x)"
      unfolding set_modify by blast
    then show ?thesis using t f found [OF x(1)] unfolding transport_inv_def by auto
  qed
  moreover have "sum_list (map (\<lambda>e. reserved_events (snd e)) (map_modify c f (Connections t))) \<le>
      sum_list (map (\<lambda>e. reserved_events (snd e)) (Connections t))"
    by (rule sum_modify) (use t f found in \<open>auto simp: transport_inv_def\<close>)
  ultimately show ?thesis
    using t unfolding transport_inv_def ReservedLifecycleEventCapacity_def by auto
qed

lemma inv_update_connection:
  assumes "network_inv n"
    and "\<And>t s. FindTransport n i = Some t \<Longrightarrow> map_of (Connections t) c = Some s \<Longrightarrow> connection_inv (environment_of n) i c s \<Longrightarrow>
      connection_inv (environment_of n) i c (f s) \<and> reserved_events (f s) \<le> reserved_events s"
  shows "network_inv (update_connection i c f n)"
  unfolding update_connection_def
  by (rule inv_update_transport [OF assms(1)]) (rule transport_inv_modify; use assms in blast)

section \<open>Closing\<close>

definition env_le :: "environment \<Rightarrow> environment \<Rightarrow> bool" where
  "env_le v v' \<longleftrightarrow> EnvConfiguration v' = EnvConfiguration v \<and> EnvNextLink v \<le> EnvNextLink v' \<and>
     (\<forall>f. under_way f (EnvScheduled v') \<le> under_way f (EnvScheduled v))"

lemma connection_inv_mono: "connection_inv v i c s \<Longrightarrow> env_le v v' \<Longrightarrow> connection_inv v' i c s"
  unfolding connection_inv_def env_le_def by (metis order.trans order.strict_trans2)

lemma transport_inv_mono: "transport_inv v i t \<Longrightarrow> env_le v v' \<Longrightarrow> transport_inv v' i t"
  using connection_inv_mono unfolding transport_inv_def env_le_def by metis

lemma inv_scheduled_le:
  assumes "network_inv n" "set sched \<subseteq> set (Scheduled n)" "length sched \<le> length (Scheduled n)"
    "\<And>f. under_way f sched \<le> under_way f (Scheduled n)"
  shows "network_inv (n\<lparr>Scheduled := sched\<rparr>)"
proof -
  have "env_le (environment_of n) (environment_of (n\<lparr>Scheduled := sched\<rparr>))"
    using assms(4) by (simp add: env_le_def environment_of_def)
  then show ?thesis
    using assms(1-3) transport_inv_mono unfolding network_inv_def by fastforce
qed

lemma under_way_filter: "under_way f (filter P sched) \<le> under_way f sched"
  unfolding under_way_def by (rule sum_list_filter_le_nat)

lemma inv_cancel: "network_inv n \<Longrightarrow> network_inv (CancelScheduledLink link n)"
  unfolding CancelScheduledLink_def by (rule inv_scheduled_le) (auto simp: under_way_filter)

lemma inv_links:
  assumes "network_inv n" "\<And>e. e \<in> set links \<Longrightarrow> FirstTransportId (snd e) \<noteq> SecondTransportId (snd e)"
    "length links \<le> MaximumConnections (Configuration n)"
  shows "network_inv (n\<lparr>Links := links\<rparr>)"
  using assms unfolding network_inv_def by (simp add: environment_of_def)

lemma inv_erase_link: "network_inv n \<Longrightarrow> network_inv (n\<lparr>Links := map_erase link (Links n)\<rparr>)"
  by (rule inv_links) (auto simp: network_inv_def map_erase_def intro: order.trans [OF length_filter_le])

lemma ReleaseConnection_fields [simp]: "Connections (ReleaseConnection c t) = Connections t" "Events (ReleaseConnection c t) = Events t"
  by (simp_all add: ReleaseConnection_def)

lemma RemoveConnectionEvents_fields [simp]: "Connections (RemoveConnectionEvents c t) = Connections t"
  "length (Events (RemoveConnectionEvents c t)) \<le> length (Events t)"
  by (simp_all add: RemoveConnectionEvents_def)

lemma capacity_iff: "HasEventCapacityWithReservations n t k \<longleftrightarrow>
    length (Events t) + ReservedLifecycleEventCapacity t + k \<le> MaximumPendingEventsPerTransport (Configuration n)"
  by (auto simp: HasEventCapacityWithReservations_def Let_def)

lemma environment_configuration [simp]: "EnvConfiguration (environment_of n) = Configuration n" "EnvNextLink (environment_of n) = NextLinkId n"
  "EnvScheduled (environment_of n) = Scheduled n"
  by (simp_all add: environment_of_def)

lemma CloseOneSide_inv:
  assumes n: "network_inv n"
  shows "network_inv (CloseOneSide i c d n)"
proof (cases "FindTransport n i")
  case (Some t)
  show ?thesis
  proof (cases "map_of (Connections t) c")
    case (Some s)
    define t2 where "t2 = ReleaseConnection c ((RemoveConnectionEvents c t)\<lparr>Connections := map_erase c (Connections (RemoveConnectionEvents c t))\<rparr>)"
    have t: "transport_inv (environment_of n) i t" by (rule inv_found [OF n \<open>FindTransport n i = Some t\<close>])
    have conns: "Connections t2 = map_erase c (Connections t)" and events: "length (Events t2) \<le> length (Events t)"
      by (simp_all add: t2_def)
    have "ReservedLifecycleEventCapacity t2 + 2 \<le> ReservedLifecycleEventCapacity t"
      unfolding ReservedLifecycleEventCapacity_def conns
      by (rule sum_erase [where g = reserved_events, OF Some]) (simp add: reserved_events_def)
    with events t have room: "length (Events t2) + ReservedLifecycleEventCapacity t2 + 2 \<le> MaximumPendingEventsPerTransport (Configuration n)"
      by (simp add: transport_inv_def)
    then have ok: "HasEventCapacityWithReservations n t2 2" by (simp only: capacity_iff)
    have "CloseOneSide i c d n = update_transport i (\<lambda>_. t2\<lparr>Events := Events t2 @
        [ConnectionStateEvent c (CurrentState s) Closed, DisconnectedEvent c d]\<rparr>) (assert_that (HasEventCapacityWithReservations n t2 2) n)"
      unfolding CloseOneSide_def Let_def t2_def using \<open>FindTransport n i = Some t\<close> Some by simp
    moreover have "transport_inv (environment_of n) i (t2\<lparr>Events := Events t2 @
        [ConnectionStateEvent c (CurrentState s) Closed, DisconnectedEvent c d]\<rparr>)"
      using t room keys_erase [where m = "Connections t" and k = c]
      by (auto simp: transport_inv_def conns ReservedLifecycleEventCapacity_def)
    ultimately show ?thesis
      using inv_update_transport [OF inv_assert [OF n ok]] by simp
  qed (use n Some in \<open>simp add: CloseOneSide_def\<close>)
qed (use n in \<open>simp add: CloseOneSide_def\<close>)

lemma CloseLink_inv: "network_inv n \<Longrightarrow> network_inv (CloseLink link i d n)"
  unfolding CloseLink_def Let_def by (simp add: CloseOneSide_inv inv_cancel inv_erase_link split: option.split)

section \<open>Activation\<close>

lemma FindTransport_update_connection:
  "FindTransport (update_connection i c f n) j =
     (if j = i then map_option (\<lambda>t. t\<lparr>Connections := map_modify c f (Connections t)\<rparr>) (FindTransport n j) else FindTransport n j)"
  unfolding update_connection_def by simp

lemma activate_side_inv:
  assumes n: "network_inv n" and t: "FindTransport n i = Some t" and s: "map_of (Connections t) c = Some s" "CurrentState s = Connecting"
  shows "network_inv (activate_side i c n)"
proof -
  let ?f = "\<lambda>s. s\<lparr>CurrentState := Connected\<rparr>"
  define n1 where "n1 = update_connection i c ?f n"
  define t1 where "t1 = t\<lparr>Connections := map_modify c ?f (Connections t)\<rparr>"
  have n1: "network_inv n1"
    unfolding n1_def by (rule inv_update_connection [OF n]) (simp add: connection_inv_def reserved_events_def)
  have t1: "FindTransport n1 i = Some t1" unfolding n1_def t1_def FindTransport_update_connection by (simp add: t)
  have "ReservedLifecycleEventCapacity t1 + 2 \<le> ReservedLifecycleEventCapacity t"
    using sum_modify_less [where g = reserved_events and f = ?f and d = 2, OF s(1)] s(2)
    by (simp add: ReservedLifecycleEventCapacity_def t1_def) (simp add: reserved_events_def)
  then have room: "length (Events t1) + ReservedLifecycleEventCapacity t1 + 2 \<le> MaximumPendingEventsPerTransport (Configuration n)"
    using inv_found [OF n t] by (simp add: transport_inv_def t1_def)
  then have ok: "HasEventCapacityWithReservations n1 t1 2" by (simp add: capacity_iff n1_def)
  have "activate_side i c n = update_transport i (\<lambda>t. t\<lparr>Events := Events t @
      [ConnectionStateEvent c Connecting Authenticating, ConnectionStateEvent c Authenticating Connected]\<rparr>)
      (assert_that (HasEventCapacityWithReservations n1 t1 2) n1)"
    unfolding activate_side_def Let_def n1_def [symmetric] by (simp add: t1)
  moreover have events: "transport_inv (environment_of n1) i (t1\<lparr>Events := Events t1 @ [a, b]\<rparr>)" for a b
    using inv_found [OF n1 t1] room by (simp add: transport_inv_def ReservedLifecycleEventCapacity_def n1_def)
  have "network_inv (update_transport i (\<lambda>t. t\<lparr>Events := Events t @ [a, b]\<rparr>)
      (assert_that (HasEventCapacityWithReservations n1 t1 2) n1))" for a b
    by (rule inv_update_transport [OF inv_assert [OF n1 ok]]) (use t1 events in simp)
  ultimately show ?thesis by simp
qed

lemma activate_side_other: "j \<noteq> i \<Longrightarrow> FindTransport (activate_side i c n) j = FindTransport n j"
  by (simp add: activate_side_def Let_def FindTransport_update_connection split: option.split)

lemma ActivateLink_inv:
  assumes n: "network_inv n"
  shows "network_inv (ActivateLink item n)"
proof (cases "map_of (Links n) (ItemLink item)")
  case (Some l)
  then have l: "SecondTransportId l \<noteq> FirstTransportId l"
    using n unfolding network_inv_def by (metis map_of_SomeD snd_conv)
  have "network_inv (activate_side (SecondTransportId l) (SecondConnection l) (activate_side (FirstTransportId l) (FirstConnection l) n))"
    if "FindTransport n (FirstTransportId l) = Some t1" "FindTransport n (SecondTransportId l) = Some t2"
      "map_of (Connections t1) (FirstConnection l) = Some s1" "map_of (Connections t2) (SecondConnection l) = Some s2"
      "CurrentState s1 = Connecting" "CurrentState s2 = Connecting" for t1 t2 s1 s2
  proof (rule activate_side_inv [OF activate_side_inv [OF n that(1,3,5)] _ that(4,6)])
    show "FindTransport (activate_side (FirstTransportId l) (FirstConnection l) n) (SecondTransportId l) = Some t2"
      using activate_side_other [OF l] that(2) by simp
  qed
  then show ?thesis
    unfolding ActivateLink_def Some option.case using n CloseLink_inv by (simp split: option.split)
qed (simp add: ActivateLink_def n)

section \<open>Delivery\<close>

text \<open>The queues of the sender of a message still count it.\<close>

definition owed :: "ScheduledItem \<Rightarrow> SimulatedNetworkState \<Rightarrow> bool" where
  "owed item n \<longleftrightarrow>
     (\<forall>t s. FindTransport n (SourceTransportId item) = Some t \<longrightarrow> map_of (Connections t) (SourceConnection item) = Some s \<longrightarrow>
       LinkId s = ItemLink item \<longrightarrow>
       under_way (reliable_share (SourceTransportId item) (SourceConnection item) (LinkId s)) (Scheduled n) +
         (if ItemDelivery item = ReliableOrdered then length (ItemPayload item) else 0) \<le> ReliableQueueBytes s \<and>
       under_way (unreliable_share (SourceTransportId item) (SourceConnection item) (LinkId s)) (Scheduled n) +
         (if ItemDelivery item = ReliableOrdered then 0 else 1) \<le> QueuedUnreliableMessages s)"

lemma account_delivery_owed:
  assumes "network_inv n" "owed item n" "FindTransport n (SourceTransportId item) = Some t"
    "map_of (Connections t) (SourceConnection item) = Some s" "LinkId s = ItemLink item"
  obtains s' where "account_delivery item s = Some s'"
    "connection_inv (environment_of n) (SourceTransportId item) (SourceConnection item) s'" "reserved_events s' = reserved_events s"
proof -
  have s: "connection_inv (environment_of n) (SourceTransportId item) (SourceConnection item) s"
    by (rule inv_connection [OF assms(1,3,4)])
  have o: "under_way (reliable_share (SourceTransportId item) (SourceConnection item) (LinkId s)) (Scheduled n) +
      (if ItemDelivery item = ReliableOrdered then length (ItemPayload item) else 0) \<le> ReliableQueueBytes s"
    "under_way (unreliable_share (SourceTransportId item) (SourceConnection item) (LinkId s)) (Scheduled n) +
      (if ItemDelivery item = ReliableOrdered then 0 else 1) \<le> QueuedUnreliableMessages s"
    using assms(2-5) unfolding owed_def by blast+
  show thesis
  proof (cases "ItemDelivery item = ReliableOrdered")
    case True
    let ?s = "update_statistics (\<lambda>x. x\<lparr>QueuedReliableBytes := Some (ReliableQueueBytes s - length (ItemPayload item))\<rparr>)
      (s\<lparr>ReliableQueueBytes := ReliableQueueBytes s - length (ItemPayload item)\<rparr>)"
    show thesis
      using True o s by (intro that [of ?s]) (simp_all add: account_delivery_def update_statistics_def connection_inv_def reserved_events_def, linarith?)
  next
    case False
    let ?s = "s\<lparr>QueuedUnreliableMessages := QueuedUnreliableMessages s - 1\<rparr>"
    show thesis
      using False o s by (intro that [of ?s]) (simp_all add: account_delivery_def connection_inv_def reserved_events_def, linarith?)
  qed
qed

lemma connection_inv_statistics:
  "connection_inv v i c s \<Longrightarrow> QueuedReliableBytes (f (ConnectionStatistics s)) = QueuedReliableBytes (ConnectionStatistics s) \<Longrightarrow>
     connection_inv v i c (update_statistics f s) \<and> reserved_events (update_statistics f s) \<le> reserved_events s"
  by (simp add: connection_inv_def update_statistics_def reserved_events_def)

lemma inv_statistics:
  assumes "network_inv n" "\<And>x. QueuedReliableBytes (f x) = QueuedReliableBytes x"
  shows "network_inv (update_connection i c (update_statistics f) n)"
  by (rule inv_update_connection [OF assms(1)]) (simp add: connection_inv_statistics assms(2))

lemma inv_drop: "network_inv n \<Longrightarrow> network_inv (update_connection i c RecordUnreliableDrop n)"
  unfolding RecordUnreliableDrop_def by (rule inv_statistics) simp_all

lemma queue_message_inv:
  assumes n: "network_inv n"
  shows "network_inv (queue_message item n)"
proof (cases "FindTransport n (DestinationTransportId item)")
  case (Some t)
  show ?thesis
  proof (cases "HasEventCapacityWithReservations n t 1")
    case True
    then have "transport_inv (environment_of n) (DestinationTransportId item) (t\<lparr>Events := Events t @ [received_event item]\<rparr>)"
      using inv_found [OF n Some] by (simp add: capacity_iff transport_inv_def ReservedLifecycleEventCapacity_def)
    then have "network_inv (update_transport (DestinationTransportId item) (\<lambda>_. t\<lparr>Events := Events t @ [received_event item]\<rparr>) n)"
      by (intro inv_update_transport [OF n])
    then have "network_inv (update_connection (DestinationTransportId item) (DestinationConnection item) (update_statistics (count_received item))
        (update_connection (SourceTransportId item) (SourceConnection item) (update_statistics (count_sent item))
          (update_transport (DestinationTransportId item) (\<lambda>_. t\<lparr>Events := Events t @ [received_event item]\<rparr>) n)))"
      by (intro inv_statistics) (simp_all add: count_sent_def count_received_def)
    then show ?thesis using True Some by (simp add: queue_message_def QueueEvent_def)
  next
    case False
    then show ?thesis
      using Some n CloseLink_inv inv_drop by (simp add: queue_message_def QueueEvent_def drop_message_def)
  qed
qed (simp add: queue_message_def n)

lemma order_message_inv:
  assumes n: "network_inv n"
  shows "network_inv (order_message item d n)"
proof -
  have "network_inv (note_sequence item k x n)" for k x
    unfolding note_sequence_def by (rule inv_update_connection [OF n]) (simp add: connection_inv_def reserved_events_def)
  then show ?thesis
    using n queue_message_inv inv_drop unfolding order_message_def drop_message_def by (simp split: option.split)
qed

lemma DeliverMessage_inv:
  assumes n: "network_inv n" and o: "owed item n"
  shows "network_inv (DeliverMessage item n)"
proof -
  have "network_inv (case account_delivery item s of
      None \<Rightarrow> CloseLink (ItemLink item) (SourceTransportId item) (underflow_information item) n
    | Some s' \<Rightarrow> order_message item d (update_connection (SourceTransportId item) (SourceConnection item) (\<lambda>_. s') n))"
    if t: "FindTransport n (SourceTransportId item) = Some t" "map_of (Connections t) (SourceConnection item) = Some s" "LinkId s = ItemLink item"
    for t s d
  proof -
    obtain s' where s': "account_delivery item s = Some s'"
      "connection_inv (environment_of n) (SourceTransportId item) (SourceConnection item) s'" "reserved_events s' = reserved_events s"
      by (rule account_delivery_owed [OF n o t])
    have "network_inv (update_connection (SourceTransportId item) (SourceConnection item) (\<lambda>_. s') n)"
      by (rule inv_update_connection [OF n]) (use s' t in simp)
    then show ?thesis using s'(1) order_message_inv by simp
  qed
  then show ?thesis unfolding DeliverMessage_def using n by (simp split: option.split)
qed

lemma under_way_Cons: "under_way f (e # sched) = f (snd e) + under_way f sched"
  by (simp add: under_way_def)

lemma pump_one_inv:
  assumes n: "network_inv n" and p: "pump_one n = Some n'"
  shows "network_inv n'"
proof -
  from p obtain k item rest where s: "Scheduled n = (k, item) # rest" and n': "n' = ProcessScheduledItem item (n\<lparr>Scheduled := rest\<rparr>)"
    by (auto simp: pump_one_def split: list.splits if_splits)
  let ?n = "n\<lparr>Scheduled := rest\<rparr>"
  have rest: "network_inv ?n" by (rule inv_scheduled_le [OF n]) (auto simp: s under_way_Cons)
  have "owed item ?n" if "Kind item = Message"
    unfolding owed_def
  proof (intro allI impI)
    fix t s' assume "FindTransport ?n (SourceTransportId item) = Some t"
      and c: "map_of (Connections t) (SourceConnection item) = Some s'" "LinkId s' = ItemLink item"
    then have "FindTransport n (SourceTransportId item) = Some t" by (simp add: FindTransport_def)
    from inv_connection [OF n this c(1)] c(2) that
    show "under_way (reliable_share (SourceTransportId item) (SourceConnection item) (LinkId s')) (Scheduled ?n) +
        (if ItemDelivery item = ReliableOrdered then length (ItemPayload item) else 0) \<le> ReliableQueueBytes s' \<and>
      under_way (unreliable_share (SourceTransportId item) (SourceConnection item) (LinkId s')) (Scheduled ?n) +
        (if ItemDelivery item = ReliableOrdered then 0 else 1) \<le> QueuedUnreliableMessages s'"
      by (simp add: connection_inv_def s under_way_Cons reliable_share_def unreliable_share_def carried_def split: if_splits)
  qed
  then show ?thesis
    unfolding n' ProcessScheduledItem_def using rest ActivateLink_inv DeliverMessage_inv CloseLink_inv by (simp split: ScheduledKind.split)
qed

lemma Pump_inv: "network_inv n \<Longrightarrow> network_inv (snd (Pump n))"
proof (induction n rule: Pump.induct)
  case (1 n)
  then show ?case
    using pump_one_inv [OF 1(2)] by (simp add: Pump.simps [of n] split: option.split prod.split) (metis snd_conv)
qed

section \<open>Scheduling\<close>

definition connection_of :: "SimulatedNetworkState \<Rightarrow> nat \<Rightarrow> ConnectionId \<Rightarrow> SimulatedConnection option" where
  "connection_of n i c = (case FindTransport n i of None \<Rightarrow> None | Some t \<Rightarrow> map_of (Connections t) c)"

lemma connection_of_update [simp]: "connection_of (update_connection i c f n) i c = map_option f (connection_of n i c)"
  by (simp add: connection_of_def FindTransport_update_connection map_of_modify split: option.split)

lemma connection_of_fields [simp]: "connection_of (n\<lparr>RandomState := r\<rparr>) i c = connection_of n i c"
  "connection_of (n\<lparr>NextTieBreaker := k, Scheduled := sched\<rparr>) i c = connection_of n i c"
  by (simp_all add: connection_of_def FindTransport_def)

lemma owed_iff: "owed item n \<longleftrightarrow>
    (\<forall>s. connection_of n (SourceTransportId item) (SourceConnection item) = Some s \<longrightarrow> LinkId s = ItemLink item \<longrightarrow>
       under_way (reliable_share (SourceTransportId item) (SourceConnection item) (LinkId s)) (Scheduled n) +
         (if ItemDelivery item = ReliableOrdered then length (ItemPayload item) else 0) \<le> ReliableQueueBytes s \<and>
       under_way (unreliable_share (SourceTransportId item) (SourceConnection item) (LinkId s)) (Scheduled n) +
         (if ItemDelivery item = ReliableOrdered then 0 else 1) \<le> QueuedUnreliableMessages s)"
  unfolding owed_def connection_of_def by (auto split: option.splits)

lemma inv_connection_of: "network_inv n \<Longrightarrow> connection_of n i c = Some s \<Longrightarrow> connection_inv (environment_of n) i c s"
  using inv_connection unfolding connection_of_def by (auto split: option.splits)

lemma inv_random: "network_inv n \<Longrightarrow> network_inv (n\<lparr>RandomState := r\<rparr>)"
  unfolding network_inv_def by (simp add: environment_of_def)

definition fresh_keys :: "SimulatedNetworkState \<Rightarrow> bool" where
  "fresh_keys n \<longleftrightarrow> (\<forall>e \<in> set (Scheduled n). snd (fst e) < NextTieBreaker n)"

definition scheduled_with :: "ScheduledItem \<Rightarrow> SimulatedNetworkState \<Rightarrow> SimulatedNetworkState" where
  "scheduled_with item n = n\<lparr>NextTieBreaker := NextTieBreaker n + 1,
     Scheduled := insort_key fst ((At item, NextTieBreaker n), item) (Scheduled n)\<rparr>"

lemma Schedule_cases:
  assumes "fresh_keys n"
  shows "Schedule item n = (if length (Scheduled n) \<ge> MaximumScheduledEvents (Configuration n) \<or> NextTieBreaker n = u64_max
    then (False, n) else (True, scheduled_with item n))"
proof -
  have "(At item, NextTieBreaker n) \<notin> fst ` set (Scheduled n)"
    using assms unfolding fresh_keys_def by (metis imageE less_irrefl snd_conv)
  then show ?thesis by (simp add: Schedule_def map_emplace_def scheduled_with_def Let_def)
qed

lemma inv_fresh: "network_inv n \<Longrightarrow> fresh_keys n"
  by (simp add: network_inv_def fresh_keys_def)

lemma fresh_scheduled: "fresh_keys n \<Longrightarrow> fresh_keys (scheduled_with item n)"
  by (auto simp: fresh_keys_def scheduled_with_def set_insort_key less_Suc_eq)

lemma scheduled_with_fields [simp]:
  "Configuration (scheduled_with item n) = Configuration n" "NextLinkId (scheduled_with item n) = NextLinkId n"
  "connection_of (scheduled_with item n) i c = connection_of n i c" "length (Scheduled (scheduled_with item n)) = Suc (length (Scheduled n))"
  "NextTieBreaker (scheduled_with item n) = Suc (NextTieBreaker n)" "CurrentTime (scheduled_with item n) = CurrentTime n"
  "FindTransport (scheduled_with item n) i = FindTransport n i" "Transports (scheduled_with item n) = Transports n"
  by (simp_all add: scheduled_with_def FindTransport_def connection_of_def)

lemma under_way_scheduled: "under_way f (Scheduled (scheduled_with item n)) = f item + under_way f (Scheduled n)"
  by (simp add: scheduled_with_def under_way_def sum_insort)

lemma scheduled_update: "scheduled_with item (update_connection i c f n) = update_connection i c f (scheduled_with item n)"
  by (simp add: scheduled_with_def update_connection_def update_transport_def)

lemma inv_scheduled_with:
  assumes n: "network_inv n" and link: "ItemLink item < NextLinkId n" and o: "Kind item = Message \<Longrightarrow> owed item n"
    and room: "length (Scheduled n) < MaximumScheduledEvents (Configuration n)"
  shows "network_inv (scheduled_with item n)"
proof -
  let ?n = "scheduled_with item n"
  have conn: "connection_inv (environment_of ?n) i c s" if t: "connection_of n i c = Some s" for i c s
  proof -
    have s: "connection_inv (environment_of n) i c s" by (rule inv_connection_of [OF n t])
    show ?thesis
    proof (cases "carried i c (LinkId s) item")
      case True
      then have "owed item n" "SourceTransportId item = i" "SourceConnection item = c" "LinkId s = ItemLink item"
        using o by (auto simp: carried_def)
      then show ?thesis
        using s t True unfolding owed_iff connection_inv_def environment_configuration under_way_scheduled scheduled_with_fields
        by (auto simp: reliable_share_def unreliable_share_def)
    next
      case False
      then show ?thesis
        using s unfolding connection_inv_def environment_configuration under_way_scheduled scheduled_with_fields
        by (simp add: reliable_share_def unreliable_share_def)
    qed
  qed
  have "transport_inv (environment_of ?n) (fst e) (snd e)" if e: "e \<in> set (Transports n)" for e
  proof -
    have f: "FindTransport n (fst e) = Some (snd e)"
      using n e unfolding network_inv_def FindTransport_def by (metis map_of_mem prod.collapse)
    from inv_found [OF n f] have d: "distinct (map fst (Connections (snd e)))" by (simp add: transport_inv_def)
    have "connection_inv (environment_of ?n) (fst e) (fst x) (snd x)" if "x \<in> set (Connections (snd e))" for x
      by (rule conn) (use f d that map_of_mem [of "Connections (snd e)" "fst x" "snd x"] in \<open>simp add: connection_of_def\<close>)
    then show ?thesis using inv_found [OF n f] by (simp add: transport_inv_def)
  qed
  moreover have "set (Scheduled ?n) = insert ((At item, NextTieBreaker n), item) (set (Scheduled n))"
    by (simp add: scheduled_with_def set_insort_key)
  moreover have "AssertionsHeld ?n = AssertionsHeld n" "NextTransportId ?n = NextTransportId n" "Links ?n = Links n"
    by (simp_all add: scheduled_with_def)
  ultimately show ?thesis
    using n link room unfolding network_inv_def scheduled_with_fields by (auto simp: less_Suc_eq)
qed

lemma Schedule_inv:
  assumes "network_inv n" "ItemLink item < NextLinkId n" "Kind item = Message \<Longrightarrow> owed item n"
  shows "network_inv (snd (Schedule item n))"
  unfolding Schedule_cases [OF inv_fresh [OF assms(1)]] using assms inv_scheduled_with by simp

lemma disconnect_item_fields [simp]: "Kind (disconnect_item i c l d x) = Disconnection" "ItemLink (disconnect_item i c l d x) = l"
  by (simp_all add: disconnect_item_def)

lemma message_item_fields [simp]:
  "Kind (message_item i s m d x) = Message" "ItemLink (message_item i s m d x) = LinkId s" "SourceTransportId (message_item i s m d x) = i"
  "SourceConnection (message_item i s m d x) = Destination m" "ItemDelivery (message_item i s m d x) = Delivery m"
  "ItemPayload (message_item i s m d x) = Payload m"
  by (simp_all add: message_item_def)

section \<open>Sending\<close>

definition redrawn :: "SimulatedNetworkState \<Rightarrow> SimulatedNetworkState \<Rightarrow> bool" where
  "redrawn n n' \<longleftrightarrow> (\<exists>r. n' = n\<lparr>RandomState := r\<rparr>)"

lemma redrawn_refl: "redrawn n n"
  unfolding redrawn_def by (rule exI [of _ "RandomState n"]) simp

lemma redrawn_trans: "redrawn n n' \<Longrightarrow> redrawn n' n'' \<Longrightarrow> redrawn n n''"
  unfolding redrawn_def by auto

lemma RandomDuration_redrawn: "RandomDuration d n = (x, n') \<Longrightarrow> redrawn n n'"
  by (auto simp: RandomDuration_def NextRandom_def Let_def redrawn_def redrawn_refl [unfolded redrawn_def] split: if_splits)

lemma ProbabilityHit_redrawn: "ProbabilityHit p n = (x, n') \<Longrightarrow> redrawn n n'"
  by (auto simp: ProbabilityHit_def NextRandom_def Let_def redrawn_def redrawn_refl [unfolded redrawn_def] split: if_splits)

lemma ComputeDeliveryTime_redrawn: "ComputeDeliveryTime a b r n = Some (x, y, n') \<Longrightarrow> redrawn n n'"
  unfolding ComputeDeliveryTime_def
  by (auto split: option.splits prod.splits if_splits dest!: RandomDuration_redrawn intro: redrawn_trans)

lemma prepare_copies_redrawn: "prepare_copies i s m cs a n = Some (items, a', n') \<Longrightarrow> redrawn n n' \<and> length items = length cs \<and>
    (\<forall>item \<in> set items. \<exists>due d. item = message_item i s m due d)"
proof (induction i s m cs a n arbitrary: items a' n' rule: prepare_copies.induct)
  case (2 i s m d rest a n)
  from "2.prems" obtain reorder n1 due finish n2 items' n3 where p: "ProbabilityHit (UnreliableReorderProbability (Configuration n)) n = (reorder, n1)"
    "ComputeDeliveryTime a (length (Payload m)) reorder n1 = Some (due, finish, n2)"
    "prepare_copies i s m rest finish n2 = Some (items', a', n3)" "items = message_item i s m due d # items'" "n' = n3"
    by (auto split: prod.splits option.splits)
  from "2.IH" [OF p(1) [symmetric] p(2) refl refl p(3)] p(1,2,4,5) show ?case
    using ProbabilityHit_redrawn ComputeDeliveryTime_redrawn redrawn_trans by (metis (no_types, lifting) length_Cons set_ConsD)
qed (auto simp: redrawn_refl)

lemma redrawn_inv: "network_inv n \<Longrightarrow> redrawn n n' \<Longrightarrow> network_inv n'"
  unfolding redrawn_def using inv_random by blast

lemma redrawn_fields: "redrawn n n' \<Longrightarrow> connection_of n' i c = connection_of n i c \<and> Scheduled n' = Scheduled n \<and>
    Configuration n' = Configuration n \<and> NextLinkId n' = NextLinkId n \<and> NextTieBreaker n' = NextTieBreaker n"
  unfolding redrawn_def by auto

definition add_reliable :: "nat \<Rightarrow> SimulatedConnection \<Rightarrow> SimulatedConnection" where
  "add_reliable k s = update_statistics (\<lambda>x. x\<lparr>QueuedReliableBytes := Some (ReliableQueueBytes s + k)\<rparr>)
     (s\<lparr>ReliableQueueBytes := ReliableQueueBytes s + k\<rparr>)"

lemma inv_close_connection: "network_inv n \<Longrightarrow> network_inv (update_connection i c close_connection n)"
  by (rule inv_update_connection) (simp_all add: close_connection_def connection_inv_def reserved_events_def)

lemma inv_available:
  "network_inv n \<Longrightarrow> network_inv (update_connection i c (\<lambda>s. s\<lparr>NextSendAvailable := a, LastReliableDelivery := b\<rparr>) n)"
  "network_inv n \<Longrightarrow> network_inv (update_connection i c (\<lambda>s. s\<lparr>NextSendAvailable := a\<rparr>) n)"
  by (rule inv_update_connection; simp add: connection_inv_def reserved_events_def)+

lemma inv_send_message:
  assumes n: "network_inv n" and s: "connection_of n i (Destination m) = Some s" "LinkId s = LinkId s0" and m: "Delivery m = ReliableOrdered"
    and room: "ReliableQueueBytes s + length (Payload m) \<le> MaximumReliableQueueBytes (Configuration n)"
    and free: "length (Scheduled n) < MaximumScheduledEvents (Configuration n)"
  shows "network_inv (update_connection i (Destination m) (add_reliable (length (Payload m))) (scheduled_with (message_item i s0 m d x) n))"
proof -
  let ?n = "update_connection i (Destination m) (add_reliable (length (Payload m))) n"
  have c: "connection_inv (environment_of n) i (Destination m) s" by (rule inv_connection_of [OF n s(1)])
  have "network_inv ?n"
  proof (rule inv_update_connection [OF n])
    fix t s' assume "FindTransport n i = Some t" "map_of (Connections t) (Destination m) = Some s'"
    with s(1) have "s' = s" by (simp add: connection_of_def)
    with c room show "connection_inv (environment_of n) i (Destination m) (add_reliable (length (Payload m)) s') \<and>
        reserved_events (add_reliable (length (Payload m)) s') \<le> reserved_events s'"
      by (simp add: connection_inv_def add_reliable_def update_statistics_def reserved_events_def)
  qed
  moreover have "owed (message_item i s0 m d x) ?n"
    unfolding owed_iff using s c m by (simp add: add_reliable_def update_statistics_def connection_inv_def)
  ultimately have "network_inv (scheduled_with (message_item i s0 m d x) ?n)"
    using c s(2) free by (intro inv_scheduled_with) (simp_all add: connection_inv_def)
  then show ?thesis by (simp only: scheduled_update)
qed

lemma SendReliable_inv:
  assumes n: "network_inv n" and s: "connection_of n i (Destination m) = Some s" and m: "Delivery m = ReliableOrdered"
  shows "network_inv (snd (SendReliable i s m n))"
proof -
  define c k where "c = Destination m" and "k = length (Payload m)"
  define limit where "limit = min (MaximumReliableQueueBytes (Configuration n)) (MaximumQueuedReliableBytes (ConnectionLimits s))"
  have inv: "connection_inv (environment_of n) i c s" unfolding c_def by (rule inv_connection_of [OF n s])
  note unfold = SendReliable_def Let_def c_def [symmetric] k_def [symmetric] limit_def [symmetric]
  show ?thesis
  proof (cases "k > limit \<or> ReliableQueueBytes s > limit - k \<or> \<not> CanScheduleMessages n 1")
    case True
    have "network_inv (snd (Schedule (disconnect_item i c (LinkId s) (CurrentTime n) queue_exhausted) (update_connection i c close_connection n)))"
      using inv by (intro Schedule_inv inv_close_connection n) (simp_all add: connection_inv_def)
    then show ?thesis
      unfolding unfold if_P [OF True] using CloseLink_inv by (simp add: prod.case_eq_if)
  next
    case False
    define n1 where "n1 = update_connection i c (update_statistics (count_message k)) n"
    have n1: "network_inv n1" unfolding n1_def by (rule inv_statistics [OF n]) (simp add: count_message_def)
    show ?thesis
    proof (cases "ComputeDeliveryTime (NextSendAvailable s) k False n1")
      case None
      then show ?thesis unfolding unfold if_not_P [OF False] n1_def [symmetric] by (simp add: n)
    next
      case (Some x)
      then obtain due finish n2 where d: "ComputeDeliveryTime (NextSendAvailable s) k False n1 = Some (due, finish, n2)" by (cases x) auto
      define due' where "due' = max due (LastReliableDelivery s)"
      define n3 where "n3 = update_connection i c (\<lambda>s. s\<lparr>NextSendAvailable := finish, LastReliableDelivery := due'\<rparr>) n2"
      have r: "redrawn n1 n2" by (rule ComputeDeliveryTime_redrawn [OF d])
      have n3: "network_inv n3" unfolding n3_def by (rule inv_available [OF redrawn_inv [OF n1 r]])
      obtain s3 where s3: "connection_of n3 i c = Some s3" "LinkId s3 = LinkId s" "ReliableQueueBytes s3 = ReliableQueueBytes s"
        using redrawn_fields [OF r, of i c] s by (simp add: n3_def n1_def c_def update_statistics_def)
      have conf: "Configuration n3 = Configuration n" using redrawn_fields [OF r] by (simp add: n3_def n1_def)
      have "network_inv (update_connection i c (add_reliable k) (scheduled_with (message_item i s m due' False) n3))"
        if "length (Scheduled n3) < MaximumScheduledEvents (Configuration n3)"
        unfolding c_def k_def
        by (rule inv_send_message [OF n3, where s = s3]) (use s3 False m that conf in \<open>auto simp: c_def k_def limit_def\<close>)
      then show ?thesis
        unfolding unfold if_not_P [OF False] n1_def [symmetric] d option.case prod.case due'_def [symmetric] n3_def [symmetric]
          Schedule_cases [OF inv_fresh [OF n3]] add_reliable_def [symmetric]
        using CloseLink_inv [OF n3] by (simp add: not_le)
    qed
  qed
qed

lemma schedule_all_update: "schedule_all items (update_connection i c f n) =
    (case schedule_all items n of (ok, n') \<Rightarrow> (ok, update_connection i c f n'))"
proof (induction items arbitrary: n)
  case (Cons item items)
  have "Schedule item (update_connection i c f n) = (case Schedule item n of (ok, n') \<Rightarrow> (ok, update_connection i c f n'))"
    by (simp add: Schedule_def Let_def update_connection_def update_transport_def)
  with Cons show ?case by (simp split: prod.split bool.split)
qed simp

lemma schedule_all_ok:
  "fresh_keys n \<Longrightarrow> CanSchedule n (length items) \<Longrightarrow> fst (schedule_all items n)"
proof (induction items arbitrary: n)
  case (Cons item items)
  from Cons.prems(2) have "length (Scheduled n) < MaximumScheduledEvents (Configuration n)" "NextTieBreaker n \<noteq> u64_max"
    "CanSchedule (scheduled_with item n) (length items)"
    by (auto simp: CanSchedule_def)
  with Cons show ?case by (simp add: Schedule_cases fresh_scheduled)
qed simp

lemma schedule_all_inv:
  "network_inv n \<Longrightarrow> connection_of n i c = Some s \<Longrightarrow>
   (\<And>item. item \<in> set items \<Longrightarrow> Kind item = Message \<and> SourceTransportId item = i \<and> SourceConnection item = c \<and>
      ItemLink item = LinkId s \<and> ItemDelivery item \<noteq> ReliableOrdered) \<Longrightarrow>
   under_way (unreliable_share i c (LinkId s)) (Scheduled n) + length items \<le> QueuedUnreliableMessages s \<Longrightarrow>
   network_inv (snd (schedule_all items n))"
proof (induction items arbitrary: n)
  case (Cons item items)
  note item = Cons.prems(3) [of item, simplified]
  show ?case
  proof (cases "length (Scheduled n) \<ge> MaximumScheduledEvents (Configuration n) \<or> NextTieBreaker n = u64_max")
    case True
    then show ?thesis using Cons.prems(1) by (simp add: Schedule_cases inv_fresh)
  next
    case False
    have c: "connection_inv (environment_of n) i c s" by (rule inv_connection_of [OF Cons.prems(1,2)])
    have "owed item n" unfolding owed_iff using c item Cons.prems(2,4) by (simp add: connection_inv_def)
    then have "network_inv (scheduled_with item n)"
      using c item False Cons.prems(1) by (intro inv_scheduled_with) (simp_all add: connection_inv_def)
    moreover have "unreliable_share i c (LinkId s) item = 1" using item by (simp add: unreliable_share_def carried_def)
    ultimately have "network_inv (snd (schedule_all items (scheduled_with item n)))"
      using Cons.prems by (intro Cons.IH) (simp_all add: under_way_scheduled)
    then show ?thesis using False Cons.prems(1) by (simp add: Schedule_cases inv_fresh)
  qed
qed simp

lemma mod_difference: "q \<le> m \<Longrightarrow> m < k \<Longrightarrow> (m + k - q) mod k = m - (q :: nat)"
proof -
  assume "q \<le> m" "m < k"
  then have "m + k - q = (m - q) + k" "m - q < k" by linarith+
  then show ?thesis by (simp only: mod_add_self2 mod_less)
qed

lemma SendUnreliable_inv:
  assumes n: "network_inv n" and s: "connection_of n i (Destination m) = Some s" and m: "Delivery m \<noteq> ReliableOrdered"
  shows "network_inv (snd (SendUnreliable i s m n))"
proof -
  define c k where "c = Destination m" and "k = length (Payload m)"
  define n1 where "n1 = update_connection i c (\<lambda>s. update_statistics (count_message k)
    (s\<lparr>UnreliableAttempts := saturating_increment (UnreliableAttempts s)\<rparr>)) n"
  have n1: "network_inv n1"
    unfolding n1_def by (rule inv_update_connection [OF n])
      (simp add: connection_inv_def update_statistics_def count_message_def reserved_events_def)
  obtain lost n2 where h2: "ProbabilityHit (UnreliableLossProbability (Configuration n)) n1 = (lost, n2)" by fastforce
  obtain duplicate n3 where h3: "ProbabilityHit (UnreliableDuplicationProbability (Configuration n)) n2 = (duplicate, n3)" by fastforce
  have r2: "redrawn n1 n2" by (rule ProbabilityHit_redrawn [OF h2])
  have r3: "redrawn n1 n3" by (rule redrawn_trans [OF r2 ProbabilityHit_redrawn [OF h3]])
  define copies where "copies = (if duplicate then [False, True] else [False])"
  define free where "free = (MaximumQueuedUnreliableMessages (Configuration n) + 2 ^ 32 - QueuedUnreliableMessages s) mod 2 ^ 32"
  note unfold = SendUnreliable_def Let_def c_def [symmetric] k_def [symmetric] n1_def [symmetric] h2 prod.case h3
    copies_def [symmetric] free_def [symmetric]
  have n2: "network_inv n2" and n3: "network_inv n3" using redrawn_inv [OF n1] r2 r3 by blast+
  show ?thesis
  proof (cases "lost \<or> length copies > free \<or> \<not> CanScheduleMessages n3 (length copies)")
    case True
    show ?thesis
    proof (cases lost)
      case False
      with True have refused: "length copies > free \<or> \<not> CanScheduleMessages n3 (length copies)" by blast
      show ?thesis unfolding unfold if_P [OF refused] using False inv_drop n3 by simp
    qed (unfold unfold, simp add: inv_drop n2)
  next
    case False
    have inv: "connection_inv (environment_of n) i c s" unfolding c_def by (rule inv_connection_of [OF n s])
    have "MaximumQueuedUnreliableMessages (Configuration n) < 2 ^ 32"
      using n by (simp add: network_inv_def SimulatedConfiguration_IsValid_def native_limits)
    moreover have q: "QueuedUnreliableMessages s \<le> MaximumQueuedUnreliableMessages (Configuration n)"
      using inv by (simp add: connection_inv_def)
    ultimately have "free = MaximumQueuedUnreliableMessages (Configuration n) - QueuedUnreliableMessages s"
      unfolding free_def by (intro mod_difference)
    with q False have room: "QueuedUnreliableMessages s + length copies \<le> MaximumQueuedUnreliableMessages (Configuration n)" by linarith
    show ?thesis
    proof (cases "prepare_copies i s m copies (NextSendAvailable s) n3")
      case None
      then show ?thesis unfolding unfold using False n by simp
    next
      case (Some x)
      then obtain items available n4 where p: "prepare_copies i s m copies (NextSendAvailable s) n3 = Some (items, available, n4)"
        by (cases x) auto
      note p' = prepare_copies_redrawn [OF p]
      have r4: "redrawn n1 n4" using r3 p' redrawn_trans by blast
      define n5 where "n5 = update_connection i c (\<lambda>s. s\<lparr>NextSendAvailable := available\<rparr>) n4"
      have n5: "network_inv n5" unfolding n5_def by (rule inv_available(2) [OF redrawn_inv [OF n1 r4]])
      obtain s5 where s5: "connection_of n5 i c = Some s5" "LinkId s5 = LinkId s" "QueuedUnreliableMessages s5 = QueuedUnreliableMessages s"
        using redrawn_fields [OF r4, of i c] s by (simp add: n5_def n1_def c_def update_statistics_def)
      have same: "Scheduled n5 = Scheduled n" "Configuration n5 = Configuration n" "NextTieBreaker n5 = NextTieBreaker n3" "Scheduled n3 = Scheduled n"
        "Configuration n3 = Configuration n"
        using redrawn_fields [OF r4] redrawn_fields [OF r3] by (simp_all add: n5_def n1_def)
      let ?f = "\<lambda>s. s\<lparr>QueuedUnreliableMessages := QueuedUnreliableMessages s + length copies\<rparr>"
      have "CanSchedule n3 (length copies)" using False by (simp add: CanScheduleMessages_def Let_def split: if_splits)
      then have "CanSchedule n5 (length items)" using p' same by (simp add: CanSchedule_def)
      then have ok: "fst (schedule_all items n5)" by (rule schedule_all_ok [OF inv_fresh [OF n5]])
      have "network_inv (snd (schedule_all items (update_connection i c ?f n5)))"
      proof (rule schedule_all_inv)
        show "connection_of (update_connection i c ?f n5) i c = Some (?f s5)" using s5 by simp
        show "network_inv (update_connection i c ?f n5)"
        proof (rule inv_update_connection [OF n5])
          fix t s' assume "FindTransport n5 i = Some t" "map_of (Connections t) c = Some s'" "connection_inv (environment_of n5) i c s'"
          moreover from this have "s' = s5" using s5(1) by (simp add: connection_of_def)
          ultimately show "connection_inv (environment_of n5) i c (?f s') \<and> reserved_events (?f s') \<le> reserved_events s'"
            using room s5(3) same by (simp add: connection_inv_def reserved_events_def)
        qed
        show "under_way (unreliable_share i c (LinkId (?f s5))) (Scheduled (update_connection i c ?f n5)) + length items \<le>
            QueuedUnreliableMessages (?f s5)"
          using inv_connection_of [OF n5 s5(1)] p' by (simp add: connection_inv_def)
        fix item assume "item \<in> set items"
        then obtain due d where "item = message_item i s m due d" using p' by blast
        then show "Kind item = Message \<and> SourceTransportId item = i \<and> SourceConnection item = c \<and>
            ItemLink item = LinkId (?f s5) \<and> ItemDelivery item \<noteq> ReliableOrdered"
          using m s5(2) by (simp add: c_def)
      qed
      then have "network_inv (update_connection i c ?f (snd (schedule_all items n5)))"
        unfolding schedule_all_update by (simp add: prod.case_eq_if)
      moreover obtain n6 where "schedule_all items n5 = (True, n6)" using ok by (cases "schedule_all items n5") auto
      ultimately show ?thesis
        unfolding unfold using False p by (simp add: n5_def [symmetric])
    qed
  qed
qed

lemma connection_of_found: "FindTransport n i = Some t \<Longrightarrow> connection_of n i c = map_of (Connections t) c"
  by (simp add: connection_of_def)

lemma Send_inv:
  assumes n: "network_inv n"
  shows "network_inv (snd (Send i m n))"
proof (cases "FindTransport n i")
  case (Some t)
  show ?thesis
  proof (cases "map_of (Connections t) (Destination m)")
    case s: (Some s)
    then have "connection_of n i (Destination m) = Some s" using Some by (simp add: connection_of_found)
    from SendReliable_inv [OF n this] SendUnreliable_inv [OF n this] show ?thesis
      unfolding Send_def Some option.case s using n by simp
  qed (simp add: Send_def Some n)
qed (simp add: Send_def n)

section \<open>The other operations\<close>

lemma Disconnect_inv:
  assumes n: "network_inv n"
  shows "network_inv (snd (Disconnect i c d n))"
proof (cases "FindTransport n i")
  case (Some t)
  have "network_inv (snd (Schedule (disconnect_item i c (LinkId s) x d) (update_connection i c close_connection n)))"
    if "map_of (Connections t) c = Some s" for s x
    using inv_connection [OF n Some that] by (intro Schedule_inv inv_close_connection n) (simp_all add: connection_inv_def)
  then show ?thesis unfolding Disconnect_def Some option.case using n by (simp split: option.split)
qed (simp add: Disconnect_def n)

lemma ScheduleDisconnect_inv:
  assumes n: "network_inv n"
  shows "network_inv (snd (ScheduleDisconnect i c delay d n))"
proof (cases "FindTransport n i")
  case (Some t)
  have "network_inv (snd (Schedule (disconnect_item i c (LinkId s) x d) n))" if "map_of (Connections t) c = Some s" for s x
    using inv_connection [OF n Some that] by (intro Schedule_inv n) (simp_all add: connection_inv_def)
  then show ?thesis
    unfolding ScheduleDisconnect_def Some option.case using n
    by (simp add: prod.case_eq_if bool.case_eq_if split: option.split)
qed (simp add: ScheduleDisconnect_def n)

lemma schedule_disconnects_inv:
  "network_inv n \<Longrightarrow> (\<And>e. e \<in> set es \<Longrightarrow> LinkId (snd e) < NextLinkId n) \<Longrightarrow>
   network_inv (fold (\<lambda>e n. snd (Schedule (disconnect_item i (fst e) (LinkId (snd e)) (CurrentTime n) d) n)) es n)"
proof (induction es arbitrary: n)
  case (Cons e es)
  let ?n = "snd (Schedule (disconnect_item i (fst e) (LinkId (snd e)) (CurrentTime n) d) n)"
  have "network_inv ?n" by (rule Schedule_inv) (use Cons.prems in simp_all)
  moreover have "NextLinkId ?n = NextLinkId n" by (simp add: Schedule_cases inv_fresh Cons.prems)
  ultimately show ?case using Cons by simp
qed simp

lemma inv_servers: "network_inv n \<Longrightarrow> network_inv (n\<lparr>Servers := x\<rparr>)"
  unfolding network_inv_def by (simp add: environment_of_def)

lemma Stop_inv:
  assumes n: "network_inv n"
  shows "network_inv (snd (Stop i d n))"
proof (cases "FindTransport n i")
  case (Some t)
  let ?close = "\<lambda>t. t\<lparr>Started := False, Connections := map (\<lambda>e. (fst e, close_connection (snd e))) (Connections t)\<rparr>"
  have sum: "(\<Sum>e\<leftarrow>xs. reserved_events (close_connection (snd e))) \<le> (\<Sum>e\<leftarrow>xs. reserved_events (snd e))" for xs :: "(ConnectionId \<times> SimulatedConnection) list"
    by (rule sum_list_mono) (simp add: close_connection_def reserved_events_def)
  have close: "network_inv (update_transport i ?close n')" if "network_inv n'" for n'
  proof (rule inv_update_transport [OF that])
    fix t assume "transport_inv (environment_of n') i t"
    then show "transport_inv (environment_of n') i (?close t)"
      using sum [of "Connections t"]
      by (simp add: transport_inv_def ReservedLifecycleEventCapacity_def comp_def) (auto simp: connection_inv_def close_connection_def)
  qed
  have links: "LinkId (snd e) < NextLinkId n" if "e \<in> set (Connections t)" for e
    using inv_found [OF n Some] that by (simp add: transport_inv_def connection_inv_def)
  show ?thesis
    unfolding Stop_def Some option.case Let_def using n
    by (simp add: schedule_disconnects_inv close inv_servers links)
qed (simp add: Stop_def n)

subsection \<open>Starting\<close>

lemma transport_inv_same: "transport_inv v i t \<Longrightarrow> Connections t' = Connections t \<Longrightarrow> Events t' = Events t \<Longrightarrow> transport_inv v i t'"
  by (simp add: transport_inv_def ReservedLifecycleEventCapacity_def)

lemma inv_update_same:
  assumes "network_inv n" "\<And>t. FindTransport n i = Some t \<Longrightarrow> Connections (f t) = Connections t \<and> Events (f t) = Events t"
  shows "network_inv (update_transport i f n)"
  by (rule inv_update_transport [OF assms(1)]) (use assms(2) transport_inv_same in blast)

lemma inv_mark: "network_inv n \<Longrightarrow> network_inv (update_transport i (mark_started c) n)"
  by (rule inv_update_same) (simp_all add: mark_started_def)

lemma inv_release: "network_inv n \<Longrightarrow> network_inv (update_transport i (ReleaseConnection c) n)"
  by (rule inv_update_same) simp_all

lemma AllocateConnection_fields:
  "AllocateConnection t = (c, t') \<Longrightarrow> Connections t' = Connections t \<and> Events t' = Events t"
  by (auto simp: AllocateConnection_def Let_def split: prod.splits option.splits if_splits)

lemma schedule_link_inv:
  assumes n: "network_inv n" and link: "link < NextLinkId n"
  shows "network_inv (snd (schedule_link i c link timeout n))"
proof -
  define a where "a = default_item\<lparr>Kind := Activate, At := CurrentTime n, ItemLink := link\<rparr>"
  define b where "b = default_item\<lparr>Kind := Disconnection, At := timeout, ItemLink := link,
    ItemDisconnect := DisconnectInfo Timeout (ascii ''Simulated connection lifetime expired'')\<rparr>"
  have n1: "network_inv (snd (Schedule a n))" using link by (intro Schedule_inv n) (simp_all add: a_def)
  have l: "NextLinkId (snd (Schedule a n)) = NextLinkId n" by (simp add: Schedule_cases inv_fresh n)
  have n2: "network_inv (snd (Schedule b (snd (Schedule a n))))" using link l by (intro Schedule_inv n1) (simp_all add: b_def)
  show ?thesis
    unfolding schedule_link_def a_def [symmetric] b_def [symmetric]
    using CloseLink_inv [OF n1] CloseLink_inv [OF n2] inv_mark [OF n1] inv_mark [OF n2]
    by (simp add: prod.case_eq_if bool.case_eq_if)
qed

lemma transport_inv_add:
  assumes t: "transport_inv v i t" and s: "connection_inv v i c s"
    and room: "length (Events t) + ReservedLifecycleEventCapacity t + 4 \<le> MaximumPendingEventsPerTransport (EnvConfiguration v)"
  shows "transport_inv v i (add_connection c s t)"
proof -
  have "sum_list (map (\<lambda>e. reserved_events (snd e)) (map_emplace c s (Connections t))) \<le>
      sum_list (map (\<lambda>e. reserved_events (snd e)) (Connections t)) + 4"
    by (simp add: map_emplace_def sum_insort reserved_events_def)
  moreover have "connection_inv v i (fst e) (snd e)" if "e \<in> set (map_emplace c s (Connections t))" for e
  proof -
    have "e = (c, s) \<or> e \<in> set (Connections t)" using that keys_emplace(2) by fastforce
    then show ?thesis using t s by (auto simp: transport_inv_def)
  qed
  ultimately show ?thesis
    using t room keys_emplace(1) by (auto simp: transport_inv_def add_connection_def ReservedLifecycleEventCapacity_def)
qed

lemma unused_link: "network_inv n \<Longrightarrow> under_way (reliable_share i c (NextLinkId n)) (Scheduled n) = 0 \<and>
    under_way (unreliable_share i c (NextLinkId n)) (Scheduled n) = 0"
  unfolding network_inv_def under_way_def
  by (auto simp: sum_list_eq_0_iff reliable_share_def unreliable_share_def carried_def)

lemma register_link_core:
  assumes n: "network_inv n" and i: "FindTransport n i = Some t" "HasEventCapacityWithReservations n t 4"
    and j: "FindTransport n j = Some t'" "HasEventCapacityWithReservations n t' 4" and ij: "i \<noteq> j"
    and links: "length (Links n) < MaximumConnections (Configuration n)"
  shows "network_inv ((update_transport j (add_connection b (new_connection (NextLinkId n) a i limits (BaseLatency (Configuration n))))
      (update_transport i (add_connection a (new_connection (NextLinkId n) b j limits (BaseLatency (Configuration n)))) (n\<lparr>NextLinkId := NextLinkId n + 1\<rparr>)))
      \<lparr>Links := map_emplace (NextLinkId n) \<lparr>FirstTransportId = i, FirstConnection = a, SecondTransportId = j, SecondConnection = b\<rparr> (Links n)\<rparr>)"
proof -
  define n0 where "n0 = n\<lparr>NextLinkId := NextLinkId n + 1\<rparr>"
  have le: "env_le (environment_of n) (environment_of n0)" by (simp add: n0_def env_le_def environment_of_def)
  have n0: "network_inv n0"
    using n transport_inv_mono [OF _ le] unfolding network_inv_def by (auto simp: n0_def less_Suc_eq)
  have found: "FindTransport n0 k = FindTransport n k" for k by (simp add: n0_def FindTransport_def)
  have new: "connection_inv (environment_of n0) k x (new_connection (NextLinkId n) y z limits (BaseLatency (Configuration n)))" for k x y z
    using unused_link [OF n] by (simp add: connection_inv_def new_connection_def NewStatistics_def n0_def)
  define n1 where "n1 = update_transport i (add_connection a (new_connection (NextLinkId n) b j limits (BaseLatency (Configuration n)))) n0"
  have n1: "network_inv n1"
    unfolding n1_def
    by (rule inv_update_transport [OF n0], rule transport_inv_add) (use i new found in \<open>simp_all add: capacity_iff n0_def\<close>)
  have env: "environment_of n1 = environment_of n0" by (simp add: n1_def)
  define n2 where "n2 = update_transport j (add_connection b (new_connection (NextLinkId n) a i limits (BaseLatency (Configuration n)))) n1"
  have n2: "network_inv n2"
    unfolding n2_def
    by (rule inv_update_transport [OF n1], rule transport_inv_add)
      (use j ij new found env in \<open>simp_all add: capacity_iff n0_def n1_def\<close>)
  define l where "l = \<lparr>FirstTransportId = i, FirstConnection = a, SecondTransportId = j, SecondConnection = b\<rparr>"
  have "network_inv (n2\<lparr>Links := map_emplace (NextLinkId n) l (Links n2)\<rparr>)"
  proof (rule inv_links [OF n2])
    show "length (map_emplace (NextLinkId n) l (Links n2)) \<le> MaximumConnections (Configuration n2)"
      using keys_emplace(3) [of "NextLinkId n" l "Links n2"] links by (simp add: n2_def n1_def n0_def)
    fix e assume "e \<in> set (map_emplace (NextLinkId n) l (Links n2))"
    then have "e = (NextLinkId n, l) \<or> e \<in> set (Links n2)" using keys_emplace(2) by fastforce
    then show "FirstTransportId (snd e) \<noteq> SecondTransportId (snd e)" using n2 ij by (auto simp: network_inv_def l_def)
  qed
  moreover have "Links n2 = Links n" by (simp add: n2_def n1_def n0_def)
  ultimately show ?thesis unfolding n2_def n1_def n0_def l_def by simp
qed

lemma register_link_inv:
  assumes n: "network_inv n" and i: "FindTransport n i = Some t" "HasEventCapacityWithReservations n t 4"
    and j: "FindTransport n j = Some t'" "HasEventCapacityWithReservations n t' 4" and ij: "i \<noteq> j"
    and links: "length (Links n) < MaximumConnections (Configuration n)"
  shows "network_inv (snd (register_link i j a b c limits timeout n))"
proof -
  have "network_inv (snd (schedule_link i c (NextLinkId n) timeout m))"
    if "m = (update_transport j (add_connection b (new_connection (NextLinkId n) a i limits (BaseLatency (Configuration n))))
      (update_transport i (add_connection a (new_connection (NextLinkId n) b j limits (BaseLatency (Configuration n)))) (n\<lparr>NextLinkId := NextLinkId n + 1\<rparr>)))
      \<lparr>Links := map_emplace (NextLinkId n) \<lparr>FirstTransportId = i, FirstConnection = a, SecondTransportId = j, SecondConnection = b\<rparr> (Links n)\<rparr>" for m
    by (rule schedule_link_inv) (use that register_link_core [OF assms] in simp_all)
  then show ?thesis by (simp add: register_link_def Let_def)
qed

lemma open_link_inv:
  assumes n: "network_inv n" and i: "FindTransport n i = Some t" "HasEventCapacityWithReservations n t 4"
    and j: "FindTransport n j = Some t'" "HasEventCapacityWithReservations n t' 4" and ij: "i \<noteq> j"
    and links: "length (Links n) < MaximumConnections (Configuration n)"
  shows "network_inv (snd (open_link i j c limits timeout n))"
proof -
  obtain a u where a: "AllocateConnection t = (a, u)" by fastforce
  obtain b u' where b: "AllocateConnection t' = (b, u')" by fastforce
  note same = AllocateConnection_fields [OF a] AllocateConnection_fields [OF b]
  define n0 where "n0 = update_transport i (\<lambda>_. u) n"
  define n1 where "n1 = update_transport j (\<lambda>_. u') n0"
  have n0: "network_inv n0" unfolding n0_def by (rule inv_update_same [OF n]) (use i same in simp)
  have j0: "FindTransport n0 j = Some t'" using j ij by (simp add: n0_def)
  have n1: "network_inv n1" unfolding n1_def by (rule inv_update_same [OF n0]) (use j0 same in simp)
  have "FindTransport n1 i = Some u" "FindTransport n1 j = Some u'" using i j0 ij by (simp_all add: n1_def n0_def)
  moreover have "HasEventCapacityWithReservations n1 u 4" "HasEventCapacityWithReservations n1 u' 4"
    using i(2) j(2) same by (simp_all add: capacity_iff n1_def n0_def ReservedLifecycleEventCapacity_def)
  moreover have "length (Links n1) < MaximumConnections (Configuration n1)" using links by (simp add: n1_def n0_def)
  ultimately have "network_inv (snd (register_link i j x y c limits timeout n1))" for x y
    using register_link_inv [OF n1] ij by blast
  then show ?thesis
    unfolding open_link_def i(1) option.map option.case a prod.case Let_def n0_def [symmetric] j0 b n1_def [symmetric]
    using n1 inv_release by (simp split: option.split)
qed

lemma Start_inv:
  assumes n: "network_inv n"
  shows "network_inv (snd (Start i c n))"
proof (cases "FindTransport n i")
  case (Some t)
  have client: "network_inv (snd (StartClient i c t n))" if "\<not> Started t"
  proof -
    have "network_inv (snd (open_link i j c limits timeout n))"
      if "FindTransport n j = Some t'" "Started t'" "length (Links n) < MaximumConnections (Configuration n)"
        "HasEventCapacityWithReservations n t 4" "HasEventCapacityWithReservations n t' 4" for j t' limits timeout
      using open_link_inv [OF n Some that(4,1,5)] that \<open>\<not> Started t\<close> Some by (metis option.inject)
    then show ?thesis unfolding StartClient_def using n by (simp add: not_le split: option.split)
  qed
  have "network_inv ((update_transport i (mark_started c) n)\<lparr>Servers := x\<rparr>)" for x
    by (rule inv_servers [OF inv_mark [OF n]])
  then show ?thesis unfolding Start_def Some option.case using n client by simp
qed (simp add: Start_def n)

subsection \<open>The rest\<close>

lemma inv_transports:
  assumes n: "network_inv n" and d: "distinct (map fst ts)" and l: "length ts \<le> MaximumTransports (Configuration n)"
    and e: "\<And>e. e \<in> set ts \<Longrightarrow> fst e < k \<and> transport_inv (environment_of n) (fst e) (snd e)"
  shows "network_inv (n\<lparr>NextTransportId := k, Transports := ts\<rparr>)"
  using n d l e unfolding network_inv_def by (simp add: environment_of_def)

lemma CreateTransport_inv:
  assumes n: "network_inv n"
  shows "network_inv (snd (CreateTransport n))"
proof (cases "length (Transports n) \<ge> MaximumTransports (Configuration n) \<or> NextTransportId n = u64_max")
  case False
  let ?k = "NextTransportId n" and ?v = new_SimulatedTransportState
  let ?ts = "map_emplace ?k ?v (Transports n)"
  have new: "transport_inv (environment_of n) i ?v" for i
    by (simp add: transport_inv_def new_SimulatedTransportState_def ReservedLifecycleEventCapacity_def)
  have old: "fst e < ?k \<and> transport_inv (environment_of n) (fst e) (snd e)" if "e \<in> set (Transports n)" for e
    using n that by (simp add: network_inv_def)
  have "network_inv (n\<lparr>NextTransportId := ?k + 1, Transports := ?ts\<rparr>)"
  proof (rule inv_transports [OF n])
    show "distinct (map fst ?ts)" using n by (intro keys_emplace(1)) (simp add: network_inv_def)
    show "length ?ts \<le> MaximumTransports (Configuration n)"
      using keys_emplace(3) [where k = ?k and v = ?v and m = "Transports n"] False by linarith
    fix e assume "e \<in> set ?ts"
    then consider "e = (?k, ?v)" | "e \<in> set (Transports n)"
      using keys_emplace(2) [where k = ?k and v = ?v and m = "Transports n"] by blast
    then show "fst e < ?k + 1 \<and> transport_inv (environment_of n) (fst e) (snd e)"
    proof cases
      case 1 then show ?thesis using new by simp
    next
      case 2 then show ?thesis using old [of e] by simp
    qed
  qed
  then show ?thesis unfolding CreateTransport_def if_not_P [OF False] by simp
qed (simp add: CreateTransport_def n)

lemma Advance_inv: "network_inv n \<Longrightarrow> network_inv (snd (Advance d n))"
  unfolding Advance_def by (simp add: network_inv_def environment_of_def split: option.split)

lemma PollEvents_inv:
  assumes n: "network_inv n"
  shows "network_inv (snd (PollEvents i k n))"
proof (cases "FindTransport n i")
  case (Some t)
  have "network_inv (update_transport i (\<lambda>t. t\<lparr>Events := drop x (Events t)\<rparr>) n)" for x
    by (rule inv_update_transport [OF n]) (simp add: transport_inv_def ReservedLifecycleEventCapacity_def, linarith)
  then show ?thesis unfolding PollEvents_def Some option.case Let_def by simp
qed (simp add: PollEvents_def n)

lemma inv_erase_transport:
  assumes n: "network_inv n"
  shows "network_inv (n\<lparr>Transports := map_erase i (Transports n)\<rparr>)"
proof -
  have "network_inv (n\<lparr>NextTransportId := NextTransportId n, Transports := map_erase i (Transports n)\<rparr>)"
  proof (rule inv_transports [OF n])
    have "length (map_erase i (Transports n)) \<le> length (Transports n)" by (simp add: map_erase_def)
    then show "length (map_erase i (Transports n)) \<le> MaximumTransports (Configuration n)" using n by (simp add: network_inv_def)
    show "distinct (map fst (map_erase i (Transports n)))"
      using n keys_erase [where m = "Transports n" and k = i] by (simp add: network_inv_def)
    fix e assume "e \<in> set (map_erase i (Transports n))"
    then have "e \<in> set (Transports n)" using keys_erase [where m = "Transports n" and k = i] by blast
    then show "fst e < NextTransportId n \<and> transport_inv (environment_of n) (fst e) (snd e)"
      using n by (simp add: network_inv_def)
  qed
  then show ?thesis by simp
qed

lemma delete_inv:
  assumes n: "network_inv n"
  shows "network_inv (delete_SimulatedTransport i n)"
proof (cases "FindTransport n i")
  case (Some t)
  have "network_inv (fold (\<lambda>link. CloseLink link i d) xs n)" for d xs
    using n by (induction xs arbitrary: n) (simp_all add: CloseLink_inv)
  then show ?thesis
    unfolding delete_SimulatedTransport_def Some option.case Let_def by (simp add: inv_erase_transport inv_servers)
qed (simp add: delete_SimulatedTransport_def n)

lemma Create_inv: "Create c = Some n \<Longrightarrow> network_inv n"
  by (auto simp: Create_def network_inv_def split: if_splits)

section \<open>Reachable states\<close>

text \<open>One call of an operation of the network or of one of its transports.\<close>

inductive simulation_step :: "SimulatedNetworkState \<Rightarrow> SimulatedNetworkState \<Rightarrow> bool" where
  "simulation_step n (snd (CreateTransport n))"
| "simulation_step n (snd (Advance d n))"
| "simulation_step n (snd (Pump n))"
| "simulation_step n (snd (Start i configuration n))"
| "simulation_step n (snd (Stop i information n))"
| "simulation_step n (snd (Disconnect i connection information n))"
| "simulation_step n (snd (ScheduleDisconnect i connection d information n))"
| "simulation_step n (snd (Send i message n))"
| "simulation_step n (snd (PollEvents i k n))"
| "simulation_step n (delete_SimulatedTransport i n)"

interpretation simulation: invariant_system "\<lambda>n. Create c = Some n" simulation_step network_inv for c
proof unfold_locales
  fix n assume "Create c = Some n" then show "network_inv n" by (rule Create_inv)
next
  fix n n' assume "network_inv n" "simulation_step n n'"
  then show "network_inv n'"
    by (auto simp only: CreateTransport_inv Advance_inv Pump_inv Start_inv Stop_inv Disconnect_inv ScheduleDisconnect_inv
      Send_inv PollEvents_inv delete_inv elim: simulation_step.cases)
qed

lemma member_under_way: "e \<in> set sched \<Longrightarrow> f (snd e) \<le> under_way f sched"
  unfolding under_way_def by (rule member_le_sum_list) auto

lemma scheduled_accounted:
  assumes n: "network_inv n" and e: "(key, item) \<in> set (Scheduled n)" "Kind item = Message"
    and s: "FindTransport n (SourceTransportId item) = Some t" "map_of (Connections t) (SourceConnection item) = Some s"
      "LinkId s = ItemLink item"
  shows "account_delivery item s \<noteq> None"
proof -
  let ?i = "SourceTransportId item" and ?c = "SourceConnection item"
  have "reliable_share ?i ?c (LinkId s) item \<le> ReliableQueueBytes s" "unreliable_share ?i ?c (LinkId s) item \<le> QueuedUnreliableMessages s"
    using inv_connection [OF n s(1,2)] member_under_way [OF e(1), of "reliable_share ?i ?c (LinkId s)"]
      member_under_way [OF e(1), of "unreliable_share ?i ?c (LinkId s)"]
    unfolding connection_inv_def environment_of_def by auto
  then show ?thesis using e(2) s(3)
    by (cases "ItemDelivery item = ReliableOrdered")
      (auto simp: account_delivery_def reliable_share_def unreliable_share_def carried_def)
qed

text \<open>
  C40. In every state a simulated network can reach, no assertion of the source has failed; the tables stay within
  the configured limits; the events pending at a transport and the capacity reserved for the lifecycle events its
  connections may still raise fit together in the limit of its queue, so no lifecycle event is ever lost; the queues of
  every connection are within their limits, and the statistics report the exact number of reliable bytes queued; and a
  scheduled message is always counted by the connection that sent it, so the branches for an accounting underflow are
  never taken.
\<close>

theorem simulated_network_safe:
  assumes "Create c = Some start" and "reachable_from simulation_step start n"
  shows "AssertionsHeld n \<and>
    length (Transports n) \<le> MaximumTransports (Configuration n) \<and>
    length (Links n) \<le> MaximumConnections (Configuration n) \<and>
    length (Scheduled n) \<le> MaximumScheduledEvents (Configuration n) \<and>
    (\<forall>i t. FindTransport n i = Some t \<longrightarrow>
       length (Events t) + ReservedLifecycleEventCapacity t \<le> MaximumPendingEventsPerTransport (Configuration n) \<and>
       (\<forall>k s. map_of (Connections t) k = Some s \<longrightarrow>
          ReliableQueueBytes s \<le> MaximumReliableQueueBytes (Configuration n) \<and>
          QueuedUnreliableMessages s \<le> MaximumQueuedUnreliableMessages (Configuration n) \<and>
          QueuedReliableBytes (ConnectionStatistics s) = Some (ReliableQueueBytes s))) \<and>
    (\<forall>key item t s. (key, item) \<in> set (Scheduled n) \<longrightarrow> Kind item = Message \<longrightarrow>
       FindTransport n (SourceTransportId item) = Some t \<longrightarrow> map_of (Connections t) (SourceConnection item) = Some s \<longrightarrow>
       LinkId s = ItemLink item \<longrightarrow> account_delivery item s \<noteq> None)"
proof -
  have n: "network_inv n" by (rule simulation.inv_reachable [OF assms])
  have "transport_inv (environment_of n) i t" if "FindTransport n i = Some t" for i t using inv_found [OF n that] .
  then have t: "length (Events t) + ReservedLifecycleEventCapacity t \<le> MaximumPendingEventsPerTransport (Configuration n)"
    if "FindTransport n i = Some t" for i t using that by (auto simp: transport_inv_def environment_of_def)
  have s: "ReliableQueueBytes s \<le> MaximumReliableQueueBytes (Configuration n) \<and>
      QueuedUnreliableMessages s \<le> MaximumQueuedUnreliableMessages (Configuration n) \<and>
      QueuedReliableBytes (ConnectionStatistics s) = Some (ReliableQueueBytes s)"
    if "FindTransport n i = Some t" "map_of (Connections t) k = Some s" for i t k s
    using inv_connection [OF n that] by (simp add: connection_inv_def environment_of_def)
  show ?thesis using n t s scheduled_accounted [OF n] unfolding network_inv_def by blast
qed

text \<open>A network on which a client has connected to a server and one reliable message is under way.\<close>

definition sample_configuration :: SimulatedTransportConfiguration where
  "sample_configuration =
     \<lparr>Seed = 7, BaseLatency = 1000, MaximumJitter = 0, MaximumReorderDelay = 0, UnreliableLossProbability = Finite 0,
      UnreliableDuplicationProbability = Finite 0, UnreliableReorderProbability = Finite 0, BandwidthBytesPerSecond = 1000000,
      MaximumReliableQueueBytes = 64, MaximumQueuedUnreliableMessages = 16, MaximumUnreliableDatagramBytes = 32,
      MaximumTransports = 2, MaximumConnections = 1, MaximumScheduledEvents = 16, MaximumPendingEventsPerTransport = 16,
      ConnectionLifetime = None\<rparr>"

definition sample_limits :: NetworkLimits where
  "sample_limits =
     \<lparr>MaximumReliableMessageBytes = 64, MaximumUnreliableMessageBytes = 32, MaximumQueuedReliableBytes = 64,
      MaximumInFlightRemoteRequests = 1, MaximumDecodedMessageBytes = 64, MaximumSendBytesPerTick = 64,
      MaximumReceiveBytesPerTick = 64, MaximumMessagesPerTick = 1\<rparr>"

definition sample_start :: "TransportRole \<Rightarrow> TransportStartConfiguration" where
  "sample_start role =
     \<lparr>Role = role, StartEndpoint = \<lparr>Host = [104], Port = 1\<rparr>, AdvertisedLimits = sample_limits, OpaqueHandshakeMaterial = []\<rparr>"

definition sample_message :: NetworkMessageIntent where
  "sample_message =
     \<lparr>Destination = ConnectionId 1 1, Delivery = ReliableOrdered, Traffic = ReliableApplication, Order = NoOrder, Payload = [1, 2, 3],
      ReliableRetirementToken = 0, ReliableGrantActivatedAtMicroseconds = 0\<rparr>"

definition sample_connected :: SimulatedNetworkState where
  "sample_connected =
     snd (Pump (snd (Start 2 (sample_start Client) (snd (Start 1 (sample_start Server)
       (snd (CreateTransport (snd (CreateTransport (the (Create sample_configuration)))))))))))"

definition sample_network :: SimulatedNetworkState where
  "sample_network = snd (Send 2 sample_message sample_connected)"

lemmas sample_constants = sample_configuration_def sample_limits_def sample_message_def u64_max_def int64_max_def native_limits
  MaximumSimulatedDuration_def MaximumSimulatedBandwidthBytesPerSecond_def MaximumSimulatedTransports_def
  MaximumSimulatedConnections_def MaximumSimulatedScheduledEvents_def MaximumSimulatedPendingEvents_def

lemma sample_host: "ValidateProtocolString [104] 1024 d = Inr ()"
  by (simp add: ValidateProtocolString_def IsValidProtocolUtf8_def) code_simp

lemma sample_start_valid: "StartConfiguration_IsValid (sample_start r)"
  by (cases r) (simp_all add: StartConfiguration_IsValid_def Endpoint_IsValid_def NetworkLimits_IsValid_def sample_host
    sample_start_def MaximumTransportEndpointBytes_def MaximumOpaqueHandshakeMaterialBytes_def sample_constants)

lemma sample_negotiated: "NegotiateNetworkLimits sample_limits sample_limits = Some sample_limits"
  by (simp add: NegotiateNetworkLimits_def NetworkLimits_IsValid_def limits_min_def NativeCeilings_def sample_constants)

lemmas map_steps = map_emplace_def map_modify_def FindTransport_def update_transport_def update_connection_def assert_that_def

lemmas start_steps = Create_def SimulatedConfiguration_IsValid_def IsValidProbability_def IsValidDuration_def CreateTransport_def
  Start_def StartClient_def sample_start_def sample_start_valid [unfolded sample_start_def sample_constants]
  sample_negotiated [unfolded sample_constants] HasEventCapacityWithReservations_def ReservedLifecycleEventCapacity_def
  CanSchedule_def open_link_def AllocateConnection_def register_link_def schedule_link_def Schedule_def add_connection_def
  new_connection_def default_item_def NewStatistics_def new_SimulatedTransportState_def mark_started_def

lemmas pump_steps = Pump.simps pump_one_def ProcessScheduledItem_def ActivateLink_def activate_side_def QueueEvent_def reserved_events_def

lemmas send_steps = Send_def SendReliable_def ComputeDeliveryTime_def TransmissionDuration_def AddTime_def RandomDuration_def
  update_statistics_def count_message_def message_item_def CanScheduleMessages_def SaturatingAdd_def SaturatingIncrement_def
  saturating_increment_def Operation_def

lemma sample_network_scheduled:
  "map (\<lambda>e. (fst e, Kind (snd e), ItemPayload (snd e))) (Scheduled sample_network) = [((1003, 2), Message, [1, 2, 3])]"
  by (simp add: sample_network_def sample_connected_def Let_def sample_constants map_steps start_steps pump_steps send_steps)

definition sample_start_state :: SimulatedNetworkState where
  "sample_start_state = the (Create sample_configuration)"

lemma sample_created: "Create sample_configuration = Some sample_start_state"
  by (simp add: sample_start_state_def Create_def SimulatedConfiguration_IsValid_def IsValidProbability_def IsValidDuration_def
    sample_constants)

lemma sample_reachable: "reachable_from simulation_step sample_start_state sample_network"
  unfolding sample_network_def sample_connected_def sample_start_state_def [symmetric]
  by (rule reach_step [where step = simulation_step, OF _ simulation_step.intros(8)], rule reach_step [where step = simulation_step, OF _ simulation_step.intros(3)],
    rule reach_step [where step = simulation_step, OF _ simulation_step.intros(4)], rule reach_step [where step = simulation_step, OF _ simulation_step.intros(4)],
    rule reach_step [where step = simulation_step, OF _ simulation_step.intros(1)], rule reach_step [where step = simulation_step, OF _ simulation_step.intros(1)], rule reach_refl)

theorem simulated_network_safe_witness:
  "Create sample_configuration = Some sample_start_state \<and>
   reachable_from simulation_step sample_start_state sample_network \<and> AssertionsHeld sample_network \<and>
   length (Scheduled sample_network) = 1 \<and> length (Links sample_network) \<le> MaximumConnections (Configuration sample_network)"
proof -
  have "length (Scheduled sample_network) = 1" using arg_cong [OF sample_network_scheduled, of length] by simp
  then show ?thesis
    using sample_created sample_reachable simulated_network_safe [OF sample_created sample_reachable] by blast
qed
end
