(* ===== verification/SimulatedOrder.thy ===== *)
theory SimulatedOrder imports SimulatedInvariant "HOL-Library.Sublist" begin

text \<open>
  Reliable messages over the simulated network arrive in the order in which they were sent, and
  none is missing in between. Two logs record, for every connection, what was sent towards it and
  what was polled from it; between them are the events that are pending and the messages that are
  scheduled.
\<close>

section \<open>Views of the network\<close>

declare split_paired_All [simp del] split_paired_Ex [simp del]

type_synonym place = "nat \<times> ConnectionId"

definition con :: "SimulatedNetworkState \<Rightarrow> place \<Rightarrow> SimulatedConnection option" where
  "con n x = connection_of n (fst x) (snd x)"

definition peer :: "SimulatedConnection \<Rightarrow> place" where
  "peer s = (RemoteTransportId s, RemoteConnection s)"

definition source :: "ScheduledItem \<Rightarrow> place" where
  "source item = (SourceTransportId item, SourceConnection item)"

definition target :: "ScheduledItem \<Rightarrow> place" where
  "target item = (DestinationTransportId item, DestinationConnection item)"

definition ends :: "SimulatedLink \<Rightarrow> place set" where
  "ends l = {(FirstTransportId l, FirstConnection l), (SecondTransportId l, SecondConnection l)}"

definition carries :: "place \<Rightarrow> ScheduledItem \<Rightarrow> bool" where
  "carries x item \<longleftrightarrow> Kind item = Message \<and> ItemDelivery item = ReliableOrdered \<and> target item = x"

text \<open>The reliable messages scheduled for a connection, as the events they will be.\<close>

definition line :: "SimulatedNetworkState \<Rightarrow> place \<Rightarrow> TransportEvent list" where
  "line n x = map (\<lambda>e. received_event (snd e)) (filter (\<lambda>e. carries x (snd e)) (Scheduled n))"

definition reliable_at :: "ConnectionId \<Rightarrow> TransportEvent \<Rightarrow> bool" where
  "reliable_at b e \<longleftrightarrow> (case e of ReceivedMessageEvent c d _ _ _ \<Rightarrow> c = b \<and> d = ReliableOrdered | _ \<Rightarrow> False)"

text \<open>The reliable messages received on a connection that were not polled yet.\<close>

definition pending :: "SimulatedNetworkState \<Rightarrow> place \<Rightarrow> TransportEvent list" where
  "pending n x = (case FindTransport n (fst x) of None \<Rightarrow> [] | Some t \<Rightarrow> filter (reliable_at (snd x)) (Events t))"

definition usable :: "SimulatedConnection \<Rightarrow> bool" where
  "usable s \<longleftrightarrow> CurrentState s = Connecting \<or> CurrentState s = Connected"

text \<open>A connection is in service while neither side closes it.\<close>

definition in_service :: "SimulatedNetworkState \<Rightarrow> place \<Rightarrow> bool" where
  "in_service n x \<longleftrightarrow> (\<exists>d s. con n x = Some d \<and> con n (peer d) = Some s \<and> usable d \<and> usable s)"

section \<open>The invariant\<close>

text \<open>Links and connections fit: a connection is an end of its link, the other end is its peer.\<close>

definition addressed :: "SimulatedNetworkState \<Rightarrow> ScheduledItem \<Rightarrow> bool" where
  "addressed n item \<longleftrightarrow> (\<exists>s. con n (source item) = Some s \<and> LinkId s = ItemLink item \<and> peer s = target item)"

definition linked :: "SimulatedNetworkState \<Rightarrow> bool" where
  "linked n \<longleftrightarrow>
     (\<forall>x s. con n x = Some s \<longrightarrow>
        (\<exists>d. con n (peer s) = Some d \<and> peer d = x \<and> LinkId d = LinkId s) \<and>
        (\<exists>l. map_of (Links n) (LinkId s) = Some l \<and> ends l = {x, peer s})) \<and>
     (\<forall>link l x. map_of (Links n) link = Some l \<longrightarrow> x \<in> ends l \<longrightarrow> (\<exists>s. con n x = Some s \<and> LinkId s = link)) \<and>
     (\<forall>e \<in> set (Scheduled n). Kind (snd e) = Message \<longrightarrow> addressed n (snd e))"

text \<open>The schedule is in order, and the connection knows a bound for its reliable messages.\<close>

definition timed :: "SimulatedNetworkState \<Rightarrow> bool" where
  "timed n \<longleftrightarrow>
     sorted (map fst (Scheduled n)) \<and>
     (\<forall>e \<in> set (Scheduled n). \<forall>s. carries (target (snd e)) (snd e) \<longrightarrow> con n (source (snd e)) = Some s \<longrightarrow>
        fst (fst e) \<le> LastReliableDelivery s)"

text \<open>Nothing reliable is under way before both sides are connected.\<close>

definition activated :: "SimulatedNetworkState \<Rightarrow> bool" where
  "activated n \<longleftrightarrow>
     (\<forall>x s d. con n x = Some s \<longrightarrow> con n (peer s) = Some d \<longrightarrow> CurrentState s = Connected \<longrightarrow> CurrentState d \<noteq> Connecting) \<and>
     (\<forall>e \<in> set (Scheduled n). carries (target (snd e)) (snd e) \<longrightarrow>
        (\<forall>s. con n (source (snd e)) = Some s \<or> con n (target (snd e)) = Some s \<longrightarrow> CurrentState s \<noteq> Connecting))"

text \<open>The identities in use, and those that were sent to, have been handed out by their transport.\<close>

type_synonym log = "place \<Rightarrow> TransportEvent list"

definition handed_out :: "SimulatedTransportState \<Rightarrow> ConnectionId \<Rightarrow> bool" where
  "handed_out t c \<longleftrightarrow> unat (ConnectionSlot c) < length (Generations t) \<and>
     ConnectionGeneration c \<le> Generations t ! unat (ConnectionSlot c)"

definition issued :: "SimulatedNetworkState \<Rightarrow> log \<Rightarrow> bool" where
  "issued n sent \<longleftrightarrow>
     (\<forall>x. sent x \<noteq> [] \<longrightarrow> fst x < NextTransportId n) \<and>
     (\<forall>i t. FindTransport n i = Some t \<longrightarrow>
        (\<forall>slot \<in> set (FreeSlots t). unat slot < length (Generations t)) \<and>
        (\<forall>c. sent (i, c) \<noteq> [] \<or> map_of (Connections t) c \<noteq> None \<longrightarrow> handed_out t c))"

text \<open>
  What was sent towards a connection is what was polled, what is pending, what has just been taken
  from the schedule and what is scheduled; once the connection is out of service, what was polled
  and is pending is still the beginning of it.
\<close>

definition ordered :: "log \<Rightarrow> SimulatedNetworkState \<Rightarrow> log \<Rightarrow> log \<Rightarrow> bool" where
  "ordered taken n sent polled \<longleftrightarrow>
     linked n \<and> timed n \<and> activated n \<and> issued n sent \<and>
     (\<forall>x. prefix (polled x @ pending n x) (sent x) \<and>
        (in_service n x \<longrightarrow> sent x = polled x @ pending n x @ taken x @ line n x))"

section \<open>Calm steps\<close>

text \<open>Steps that change neither the links nor the reliable messages, and close connections at most.\<close>

definition stays :: "SimulatedConnection \<Rightarrow> SimulatedConnection \<Rightarrow> bool" where
  "stays s s' \<longleftrightarrow> LinkId s' = LinkId s \<and> peer s' = peer s \<and> LastReliableDelivery s \<le> LastReliableDelivery s' \<and>
     (CurrentState s' = CurrentState s \<or> CurrentState s' = Closing)"

definition calm :: "SimulatedNetworkState \<Rightarrow> SimulatedNetworkState \<Rightarrow> bool" where
  "calm n n' \<longleftrightarrow>
     Links n' = Links n \<and> NextTransportId n' = NextTransportId n \<and>
     (\<forall>x. rel_option stays (con n x) (con n' x)) \<and>
     (\<forall>x. line n' x = line n x \<and> pending n' x = pending n x) \<and>
     (sorted (map fst (Scheduled n)) \<longrightarrow> sorted (map fst (Scheduled n'))) \<and>
     (\<forall>e \<in> set (Scheduled n'). Kind (snd e) = Message \<longrightarrow>
        e \<in> set (Scheduled n) \<or> ItemDelivery (snd e) \<noteq> ReliableOrdered \<and> addressed n (snd e)) \<and>
     (\<forall>i. map_option (\<lambda>t. (Generations t, FreeSlots t)) (FindTransport n' i) =
        map_option (\<lambda>t. (Generations t, FreeSlots t)) (FindTransport n i))"

lemma calmI:
  assumes "Links n' = Links n" "NextTransportId n' = NextTransportId n"
    "\<And>x. rel_option stays (con n x) (con n' x)" "\<And>x. line n' x = line n x" "\<And>x. pending n' x = pending n x"
    "sorted (map fst (Scheduled n)) \<Longrightarrow> sorted (map fst (Scheduled n'))"
    "\<And>e. e \<in> set (Scheduled n') \<Longrightarrow> Kind (snd e) = Message \<Longrightarrow>
        e \<in> set (Scheduled n) \<or> ItemDelivery (snd e) \<noteq> ReliableOrdered \<and> addressed n (snd e)"
    "\<And>i. map_option (\<lambda>t. (Generations t, FreeSlots t)) (FindTransport n' i) =
        map_option (\<lambda>t. (Generations t, FreeSlots t)) (FindTransport n i)"
  shows "calm n n'"
  unfolding calm_def using assms by blast

lemma calmD:
  assumes "calm n n'"
  shows "Links n' = Links n" "NextTransportId n' = NextTransportId n" "rel_option stays (con n x) (con n' x)"
    "line n' x = line n x" "pending n' x = pending n x"
    "sorted (map fst (Scheduled n)) \<Longrightarrow> sorted (map fst (Scheduled n'))"
    "e \<in> set (Scheduled n') \<Longrightarrow> Kind (snd e) = Message \<Longrightarrow>
        e \<in> set (Scheduled n) \<or> ItemDelivery (snd e) \<noteq> ReliableOrdered \<and> addressed n (snd e)"
    "map_option (\<lambda>t. (Generations t, FreeSlots t)) (FindTransport n' i) =
        map_option (\<lambda>t. (Generations t, FreeSlots t)) (FindTransport n i)"
  using assms unfolding calm_def by blast+

lemma calm_back:
  assumes "calm n n'" "con n' x = Some s'"
  obtains s where "con n x = Some s" "stays s s'"
  using calmD(3) [OF assms(1), of x] assms(2) by (cases "con n x") auto

lemma calm_forward:
  assumes "calm n n'" "con n x = Some s"
  obtains s' where "con n' x = Some s'" "stays s s'"
  using calmD(3) [OF assms(1), of x] assms(2) by (cases "con n' x") auto

lemma stays_fields: "stays s s' \<Longrightarrow> LinkId s' = LinkId s \<and> peer s' = peer s \<and> LastReliableDelivery s \<le> LastReliableDelivery s' \<and>
    (CurrentState s' \<noteq> Closing \<longrightarrow> CurrentState s' = CurrentState s)"
  by (auto simp: stays_def)

lemma stays_refl: "stays s s"
  by (simp add: stays_def)

lemma stays_trans: "stays s s' \<Longrightarrow> stays s' s'' \<Longrightarrow> stays s s''"
  by (auto simp: stays_def)

lemma calm_addressed:
  assumes "calm n n'"
  shows "addressed n' item \<longleftrightarrow> addressed n item"
proof
  assume "addressed n' item"
  then obtain s' where s': "con n' (source item) = Some s'" "LinkId s' = ItemLink item" "peer s' = target item"
    unfolding addressed_def by blast
  from calm_back [OF assms s'(1)] obtain s where "con n (source item) = Some s" "stays s s'" .
  then show "addressed n item" using s' stays_fields unfolding addressed_def by metis
next
  assume "addressed n item"
  then obtain s where s: "con n (source item) = Some s" "LinkId s = ItemLink item" "peer s = target item"
    unfolding addressed_def by blast
  from calm_forward [OF assms s(1)] obtain s' where "con n' (source item) = Some s'" "stays s s'" .
  then show "addressed n' item" using s stays_fields unfolding addressed_def by metis
qed

lemma calm_refl: "calm n n"
  by (rule calmI) (simp_all add: option.rel_refl stays_refl)

lemma calm_trans:
  assumes "calm n n'" "calm n' n''"
  shows "calm n n''"
proof -
  have "rel_option stays (con n x) (con n'' x)" for x
    using calmD(3) [OF assms(1), of x] calmD(3) [OF assms(2), of x]
    by (cases "con n x"; cases "con n' x"; cases "con n'' x") (simp_all, rule stays_trans)
  note con = this
  have items: "e \<in> set (Scheduled n) \<or> ItemDelivery (snd e) \<noteq> ReliableOrdered \<and> addressed n (snd e)"
    if "e \<in> set (Scheduled n'')" "Kind (snd e) = Message" for e
  proof -
    have "e \<in> set (Scheduled n') \<or> ItemDelivery (snd e) \<noteq> ReliableOrdered \<and> addressed n' (snd e)"
      using calmD(7) [OF assms(2)] that by blast
    moreover have "e \<in> set (Scheduled n') \<Longrightarrow> e \<in> set (Scheduled n) \<or> ItemDelivery (snd e) \<noteq> ReliableOrdered \<and> addressed n (snd e)"
      using calmD(7) [OF assms(1)] that(2) by blast
    ultimately show ?thesis unfolding calm_addressed [OF assms(1)] by blast
  qed
  show ?thesis
    by (rule calmI [OF _ _ con _ _ _ items])
      (simp_all only: calmD(1,2,4,5,8) [OF assms(1)] calmD(1,2,4,5,8) [OF assms(2)] calmD(6) [OF assms(1)] calmD(6) [OF assms(2)])
qed

lemma linkedD:
  assumes "linked n" "con n x = Some s"
  obtains d l where "con n (peer s) = Some d" "peer d = x" "LinkId d = LinkId s" "map_of (Links n) (LinkId s) = Some l" "ends l = {x, peer s}"
  using assms unfolding linked_def by blast

lemma linked_end: "linked n \<Longrightarrow> map_of (Links n) link = Some l \<Longrightarrow> x \<in> ends l \<Longrightarrow> con n x = Some s \<Longrightarrow> LinkId s = link"
  unfolding linked_def by (metis option.inject)

lemma linked_occupied: "linked n \<Longrightarrow> map_of (Links n) link = Some l \<Longrightarrow> x \<in> ends l \<Longrightarrow> \<exists>s. con n x = Some s \<and> LinkId s = link"
  unfolding linked_def by blast

lemma linked_item: "linked n \<Longrightarrow> e \<in> set (Scheduled n) \<Longrightarrow> Kind (snd e) = Message \<Longrightarrow> addressed n (snd e)"
  unfolding linked_def by blast

lemma calm_linked:
  assumes c: "calm n n'" and n: "linked n"
  shows "linked n'"
  unfolding linked_def
proof (intro conjI allI impI ballI)
  fix x s' assume "con n' x = Some s'"
  from calm_back [OF c this] obtain s where s: "con n x = Some s" "stays s s'" .
  from linkedD [OF n s(1)] obtain d l where d: "con n (peer s) = Some d" "peer d = x" "LinkId d = LinkId s"
      and l: "map_of (Links n) (LinkId s) = Some l" "ends l = {x, peer s}" .
  from calm_forward [OF c d(1)] obtain d' where "con n' (peer s) = Some d'" "stays d d'" .
  then show "\<exists>d. con n' (peer s') = Some d \<and> peer d = x \<and> LinkId d = LinkId s'"
    using d stays_fields [OF s(2)] stays_fields by auto
  show "\<exists>l. map_of (Links n') (LinkId s') = Some l \<and> ends l = {x, peer s'}"
    using l stays_fields [OF s(2)] calmD(1) [OF c] by auto
next
  fix link l x assume l: "map_of (Links n') link = Some l" "x \<in> ends l"
  then obtain s where s: "con n x = Some s" "LinkId s = link" using linked_occupied [OF n] unfolding calmD(1) [OF c] by blast
  from calm_forward [OF c s(1)] obtain s' where "con n' x = Some s'" "stays s s'" .
  then show "\<exists>s. con n' x = Some s \<and> LinkId s = link" using s(2) stays_fields by auto
next
  fix e assume "e \<in> set (Scheduled n')" "Kind (snd e) = Message"
  then show "addressed n' (snd e)"
    unfolding calm_addressed [OF c] using calmD(7) [OF c] linked_item [OF n] by blast
qed

lemma calm_carried:
  "calm n n' \<Longrightarrow> e \<in> set (Scheduled n') \<Longrightarrow> carries x (snd e) \<Longrightarrow> e \<in> set (Scheduled n)"
  using calmD(7) unfolding carries_def by blast

lemma calm_timed:
  assumes c: "calm n n'" and n: "timed n"
  shows "timed n'"
  unfolding timed_def
proof (intro conjI allI impI ballI)
  show "sorted (map fst (Scheduled n'))" using calmD(6) [OF c] n by (simp add: timed_def)
  fix e s' assume e: "e \<in> set (Scheduled n')" "carries (target (snd e)) (snd e)" and "con n' (source (snd e)) = Some s'"
  from calm_back [OF c this(3)] obtain s where s: "con n (source (snd e)) = Some s" "stays s s'" .
  have "fst (fst e) \<le> LastReliableDelivery s"
    using n calm_carried [OF c e] e(2) s(1) unfolding timed_def by blast
  then show "fst (fst e) \<le> LastReliableDelivery s'" using stays_fields [OF s(2)] by linarith
qed

lemma activated_pair:
  "activated n \<Longrightarrow> con n x = Some s \<Longrightarrow> con n (peer s) = Some d \<Longrightarrow> CurrentState s = Connected \<Longrightarrow> CurrentState d \<noteq> Connecting"
  unfolding activated_def by blast

lemma activated_item:
  "activated n \<Longrightarrow> e \<in> set (Scheduled n) \<Longrightarrow> carries (target (snd e)) (snd e) \<Longrightarrow>
     con n (source (snd e)) = Some s \<or> con n (target (snd e)) = Some s \<Longrightarrow> CurrentState s \<noteq> Connecting"
  unfolding activated_def by blast

lemma stays_Connecting: "stays s s' \<Longrightarrow> CurrentState s' = Connecting \<Longrightarrow> CurrentState s = Connecting"
  by (auto simp: stays_def)

lemma calm_activated:
  assumes c: "calm n n'" and n: "activated n"
  shows "activated n'"
  unfolding activated_def
proof (intro conjI allI impI ballI)
  fix x s' d' assume "con n' x = Some s'" "con n' (peer s') = Some d'" and s': "CurrentState s' = Connected"
  from calm_back [OF c this(1)] calm_back [OF c this(2)]
  obtain s d where s: "con n x = Some s" "stays s s'" and d: "con n (peer s') = Some d" "stays d d'" by metis
  have "CurrentState d \<noteq> Connecting"
    using activated_pair [OF n s(1)] d(1) s' stays_fields [OF s(2)] by simp
  then show "CurrentState d' \<noteq> Connecting" using stays_Connecting [OF d(2)] by blast
next
  fix e s' assume e: "e \<in> set (Scheduled n')" "carries (target (snd e)) (snd e)"
    "con n' (source (snd e)) = Some s' \<or> con n' (target (snd e)) = Some s'"
  then obtain s where "con n (source (snd e)) = Some s \<or> con n (target (snd e)) = Some s" "stays s s'"
    using calm_back [OF c] by metis
  then show "CurrentState s' \<noteq> Connecting"
    using activated_item [OF n calm_carried [OF c e(1,2)] e(2)] stays_Connecting by blast
qed

lemma con_found: "FindTransport n i = Some t \<Longrightarrow> con n (i, c) = map_of (Connections t) c"
  by (simp add: con_def connection_of_def)

lemma calm_issued:
  assumes c: "calm n n'" and n: "issued n sent"
  shows "issued n' sent"
  unfolding issued_def
proof (intro conjI allI impI)
  fix x assume "sent x \<noteq> []" then show "fst x < NextTransportId n'" using n unfolding issued_def calmD(2) [OF c] by blast
next
  fix i t' assume t': "FindTransport n' i = Some t'"
  obtain t where t: "FindTransport n i = Some t" "Generations t' = Generations t" "FreeSlots t' = FreeSlots t"
    using calmD(8) [OF c, of i] t' by (cases "FindTransport n i") simp_all
  have "map_of (Connections t') k \<noteq> None \<longleftrightarrow> map_of (Connections t) k \<noteq> None" for k
    using calmD(3) [OF c, of "(i, k)"] unfolding con_found [OF t'] con_found [OF t(1)]
    by (cases "map_of (Connections t) k"; cases "map_of (Connections t') k") simp_all
  note keys = this
  show "\<forall>slot \<in> set (FreeSlots t'). unat slot < length (Generations t')"
    using n t unfolding issued_def by simp
  fix k assume "sent (i, k) \<noteq> [] \<or> map_of (Connections t') k \<noteq> None"
  then have "handed_out t k" using n t(1) keys unfolding issued_def by blast
  then show "handed_out t' k" using t unfolding handed_out_def by simp
qed

lemma calm_in_service:
  assumes c: "calm n n'" and "in_service n' x"
  shows "in_service n x"
proof -
  from assms(2) obtain d' s' where d': "con n' x = Some d'" "usable d'" and s': "con n' (peer d') = Some s'" "usable s'"
    unfolding in_service_def by blast
  from calm_back [OF c d'(1)] calm_back [OF c s'(1)]
  obtain d s where d: "con n x = Some d" "stays d d'" and s: "con n (peer d') = Some s" "stays s s'" by metis
  have "usable d" "usable s" using d' s' stays_fields [OF d(2)] stays_fields [OF s(2)] by (auto simp: usable_def)
  then show ?thesis using d s stays_fields [OF d(2)] unfolding in_service_def by auto
qed

lemma calm_ordered:
  assumes c: "calm n n'" and n: "ordered taken n sent polled"
  shows "ordered taken n' sent polled"
proof -
  have o: "prefix (polled x @ pending n x) (sent x)" "in_service n x \<Longrightarrow> sent x = polled x @ pending n x @ taken x @ line n x" for x
    using n unfolding ordered_def by blast+
  have "linked n'" "timed n'" "activated n'" "issued n' sent"
    using n calm_linked [OF c] calm_timed [OF c] calm_activated [OF c] calm_issued [OF c] unfolding ordered_def by blast+
  then show ?thesis
    unfolding ordered_def calmD(4,5) [OF c] using o calm_in_service [OF c] by blast
qed

section \<open>Calm operations\<close>

lemma con_update: "con (update_connection i c f n) x = (if x = (i, c) then map_option f (con n x) else con n x)"
  by (cases x) (auto simp: con_def connection_of_def FindTransport_update_connection map_of_modify split: option.split)

lemma con_update_transport:
  assumes "\<And>t. FindTransport n i = Some t \<Longrightarrow> Connections (f t) = Connections t"
  shows "con (update_transport i f n) x = con n x"
  using assms by (auto simp: con_def connection_of_def split: option.split)

lemma line_same: "Scheduled n' = Scheduled n \<Longrightarrow> line n' x = line n x"
  by (simp add: line_def)

lemma calm_update_transport:
  assumes "\<And>t. FindTransport n i = Some t \<Longrightarrow> Connections (f t) = Connections t \<and> Generations (f t) = Generations t \<and>
    FreeSlots (f t) = FreeSlots t \<and> (\<forall>b. filter (reliable_at b) (Events (f t)) = filter (reliable_at b) (Events t))"
  shows "calm n (update_transport i f n)"
proof (rule calmI)
  have "con (update_transport i f n) x = con n x" for x by (rule con_update_transport) (use assms in blast)
  then show "rel_option stays (con n x) (con (update_transport i f n) x)" for x
    by (simp add: option.rel_refl stays_refl)
  show "pending (update_transport i f n) x = pending n x" for x
    using assms by (simp add: pending_def split: option.split)
  show "map_option (\<lambda>t. (Generations t, FreeSlots t)) (FindTransport (update_transport i f n) j) =
      map_option (\<lambda>t. (Generations t, FreeSlots t)) (FindTransport n j)" for j
    using assms by (cases "FindTransport n i") auto
qed (simp_all add: line_def)

lemma calm_update_connection:
  assumes "\<And>s. con n (i, c) = Some s \<Longrightarrow> stays s (f s)"
  shows "calm n (update_connection i c f n)"
proof (rule calmI)
  show "rel_option stays (con n x) (con (update_connection i c f n) x)" for x
    using assms by (cases "con n x") (auto simp: con_update stays_refl)
  show "pending (update_connection i c f n) x = pending n x" for x
    by (simp add: pending_def FindTransport_update_connection split: option.split)
  show "map_option (\<lambda>t. (Generations t, FreeSlots t)) (FindTransport (update_connection i c f n) j) =
      map_option (\<lambda>t. (Generations t, FreeSlots t)) (FindTransport n j)" for j
    by (simp add: FindTransport_update_connection comp_def option.map_comp)
qed (simp_all add: line_def)

lemma calm_same:
  assumes "Transports n' = Transports n" "Links n' = Links n" "NextTransportId n' = NextTransportId n" "Scheduled n' = Scheduled n"
  shows "calm n n'"
proof -
  have f: "FindTransport n' i = FindTransport n i" for i using assms(1) by (simp add: FindTransport_def)
  have "con n' x = con n x" for x by (simp add: con_def connection_of_def f)
  then show ?thesis
    by (intro calmI) (simp_all add: assms pending_def f line_def option.rel_refl stays_refl)
qed

lemma filter_insort_other: "\<not> P x \<Longrightarrow> filter P (insort_key f x xs) = filter P xs"
  by (induction xs) auto

lemma Scheduled_with: "Scheduled (scheduled_with item n) = insort_key fst ((At item, NextTieBreaker n), item) (Scheduled n)"
  by (simp add: scheduled_with_def)

lemma con_scheduled [simp]: "con (scheduled_with item n) x = con n x"
  by (simp add: con_def)

lemma pending_scheduled [simp]: "pending (scheduled_with item n) x = pending n x"
  by (simp add: pending_def)

lemma calm_schedule:
  assumes "Kind item = Message \<Longrightarrow> ItemDelivery item \<noteq> ReliableOrdered \<and> addressed n item"
  shows "calm n (scheduled_with item n)"
proof (rule calmI)
  have "\<not> carries x item" for x using assms by (auto simp: carries_def)
  then show "line (scheduled_with item n) x = line n x" for x
    by (simp add: line_def Scheduled_with filter_insort_other)
  show "sorted (map fst (Scheduled n)) \<Longrightarrow> sorted (map fst (Scheduled (scheduled_with item n)))"
    by (simp add: Scheduled_with sorted_insort_key)
  fix e assume "e \<in> set (Scheduled (scheduled_with item n))" "Kind (snd e) = Message"
  then show "e \<in> set (Scheduled n) \<or> ItemDelivery (snd e) \<noteq> ReliableOrdered \<and> addressed n (snd e)"
    using assms by (auto simp: Scheduled_with set_insort_key)
qed (simp_all add: option.rel_refl stays_refl, simp_all add: scheduled_with_def)

lemma calm_Schedule:
  assumes "fresh_keys n" "Kind item \<noteq> Message"
  shows "calm n (snd (Schedule item n))"
proof -
  have "calm n (scheduled_with item n)" by (rule calm_schedule) (use assms(2) in simp)
  then show ?thesis unfolding Schedule_cases [OF assms(1)] using calm_refl by simp
qed

text \<open>Taking the first item, where it is not a reliable message.\<close>

lemma calm_pop:
  assumes "Scheduled n = e # rest" "\<not> carries (target (snd e)) (snd e)"
  shows "calm n (n\<lparr>Scheduled := rest\<rparr>)"
proof (rule calmI)
  show "line (n\<lparr>Scheduled := rest\<rparr>) x = line n x" for x
    using assms by (auto simp: line_def carries_def)
  have "con (n\<lparr>Scheduled := rest\<rparr>) x = con n x" for x
    by (simp add: con_def connection_of_def FindTransport_def)
  then show "rel_option stays (con n x) (con (n\<lparr>Scheduled := rest\<rparr>) x)" for x
    by (simp add: option.rel_refl stays_refl)
qed (use assms in \<open>simp_all add: pending_def FindTransport_def\<close>)

lemma calm_redrawn: "redrawn n n' \<Longrightarrow> calm n n'"
  unfolding redrawn_def by (auto intro: calm_same)

lemma calm_assert: "calm n (assert_that ok n)"
  by (rule calm_same) simp_all

lemma stays_statistics: "stays s (update_statistics f s)"
  by (simp add: stays_def update_statistics_def peer_def)

lemma calm_statistics: "calm n (update_connection i c (update_statistics f) n)"
  by (rule calm_update_connection) (rule stays_statistics)

lemma calm_drop: "calm n (update_connection i c RecordUnreliableDrop n)"
  unfolding RecordUnreliableDrop_def by (rule calm_statistics)

lemma calm_close_connection: "calm n (update_connection i c close_connection n)"
  by (rule calm_update_connection) (simp add: stays_def close_connection_def peer_def)

lemma calm_mark: "calm n (update_transport i (mark_started k) n)"
  by (rule calm_update_transport) (simp add: mark_started_def)

section \<open>Closing a link\<close>

lemma con_none: "FindTransport n i = None \<Longrightarrow> con n (i, c) = None"
  by (simp add: con_def connection_of_def)

lemma map_of_erase: "map_of (map_erase k m) j = (if j = k then None else map_of m j)"
  by (induction m) (auto simp: map_erase_def)

lemma reliable_at_events [simp]:
  "\<not> reliable_at k (ConnectionStateEvent c a b)" "\<not> reliable_at k (DisconnectedEvent c d)" "\<not> reliable_at k (TransportFailureEvent f)"
  "reliable_at k (ReceivedMessageEvent c m t u p) \<longleftrightarrow> c = k \<and> m = ReliableOrdered"
  by (auto simp: reliable_at_def)

lemma reliable_event: "reliable_at k e \<Longrightarrow> event_connection e = Some k"
  by (cases e) simp_all

text \<open>What closing one side does to the views.\<close>

lemma CloseOneSide_views:
  "con (CloseOneSide i c d n) x = (if x = (i, c) then None else con n x)"
  "pending (CloseOneSide i c d n) x = (if x = (i, c) \<and> con n x \<noteq> None then [] else pending n x)"
  "NextTransportId (CloseOneSide i c d n) = NextTransportId n"
  "FindTransport (CloseOneSide i c d n) j = Some t' \<Longrightarrow> \<exists>t. FindTransport n j = Some t \<and> Generations t' = Generations t \<and>
     set (FreeSlots t') \<subseteq> set (FreeSlots t) \<union> (if j = i \<and> unat (ConnectionSlot c) < length (Generations t) then {ConnectionSlot c} else {})"
proof -
  show "con (CloseOneSide i c d n) x = (if x = (i, c) then None else con n x)"
    by (cases x) (auto simp: CloseOneSide_def Let_def con_def connection_of_def map_of_erase split: option.split)
  have gone: "filter (\<lambda>e. event_connection e \<noteq> Some c \<and> reliable_at k e) es = (if k = c then [] else filter (reliable_at k) es)" for k es
    by (induction es) (auto dest: reliable_event)
  show "pending (CloseOneSide i c d n) x = (if x = (i, c) \<and> con n x \<noteq> None then [] else pending n x)"
  proof (cases "FindTransport n i")
    case (Some t)
    then show ?thesis
      by (cases x, cases "map_of (Connections t) c")
        (auto simp: CloseOneSide_def Let_def pending_def con_def connection_of_def RemoveConnectionEvents_def gone split: option.split)
  qed (simp add: CloseOneSide_def pending_def con_def connection_of_def)
  show "NextTransportId (CloseOneSide i c d n) = NextTransportId n" by simp
  show "\<exists>t. FindTransport n j = Some t \<and> Generations t' = Generations t \<and>
     set (FreeSlots t') \<subseteq> set (FreeSlots t) \<union> (if j = i \<and> unat (ConnectionSlot c) < length (Generations t) then {ConnectionSlot c} else {})"
    if t': "FindTransport (CloseOneSide i c d n) j = Some t'"
  proof (cases "\<exists>t s. FindTransport n i = Some t \<and> map_of (Connections t) c = Some s")
    case True
    then obtain t s where t: "FindTransport n i = Some t" "map_of (Connections t) c = Some s" by blast
    show ?thesis
    proof (cases "j = i")
      case True
      then have "Generations t' = Generations t \<and>
          (FreeSlots t' = FreeSlots t \<or> FreeSlots t' = FreeSlots t @ [ConnectionSlot c] \<and> unat (ConnectionSlot c) < length (Generations t))"
        using t' t by (simp add: CloseOneSide_def Let_def RemoveConnectionEvents_def ReleaseConnection_def split: if_splits)
          (clarsimp, fastforce)+
      then show ?thesis using t(1) True by auto
    next
      case False then show ?thesis using t' t by (simp add: CloseOneSide_def Let_def)
    qed
  next
    case False
    then have "CloseOneSide i c d n = n" by (auto simp: CloseOneSide_def split: option.split)
    then show ?thesis using t' by auto
  qed
qed

lemma CloseLink_views:
  assumes l: "map_of (Links n) link = Some l"
  shows "con (CloseLink link i d n) x = (if x \<in> ends l then None else con n x)"
    "pending (CloseLink link i d n) x = (if x \<in> ends l \<and> con n x \<noteq> None then [] else pending n x)"
    "Links (CloseLink link i d n) = map_erase link (Links n)"
    "Scheduled (CloseLink link i d n) = filter (\<lambda>e. ItemLink (snd e) \<noteq> link) (Scheduled n)"
    "NextTransportId (CloseLink link i d n) = NextTransportId n"
    "FindTransport (CloseLink link i d n) j = Some t' \<Longrightarrow> \<exists>t. FindTransport n j = Some t \<and> Generations t' = Generations t \<and>
       ((\<forall>slot \<in> set (FreeSlots t). unat slot < length (Generations t)) \<longrightarrow> (\<forall>slot \<in> set (FreeSlots t'). unat slot < length (Generations t')))"
proof -
  obtain d1 d2 where c: "CloseLink link i d n = CloseOneSide (SecondTransportId l) (SecondConnection l) d2
      (CloseOneSide (FirstTransportId l) (FirstConnection l) d1 (CancelScheduledLink link (n\<lparr>Links := map_erase link (Links n)\<rparr>)))"
    unfolding CloseLink_def l option.case Let_def by blast
  let ?m = "CancelScheduledLink link (n\<lparr>Links := map_erase link (Links n)\<rparr>)"
  have m: "Transports ?m = Transports n" by (simp add: CancelScheduledLink_def)
  have f: "FindTransport ?m j = FindTransport n j" for j by (simp add: FindTransport_def m)
  have v: "con ?m y = con n y" "pending ?m y = pending n y" for y by (simp_all add: con_def connection_of_def pending_def f)
  show "con (CloseLink link i d n) x = (if x \<in> ends l then None else con n x)"
    unfolding c CloseOneSide_views v by (auto simp: ends_def)
  show "pending (CloseLink link i d n) x = (if x \<in> ends l \<and> con n x \<noteq> None then [] else pending n x)"
    unfolding c CloseOneSide_views v by (auto simp: ends_def)
  show "Links (CloseLink link i d n) = map_erase link (Links n)"
    "Scheduled (CloseLink link i d n) = filter (\<lambda>e. ItemLink (snd e) \<noteq> link) (Scheduled n)"
    "NextTransportId (CloseLink link i d n) = NextTransportId n"
    unfolding c by (simp_all add: CancelScheduledLink_def)
  assume "FindTransport (CloseLink link i d n) j = Some t'"
  from CloseOneSide_views(4) [OF this [unfolded c]] obtain u where
    u: "FindTransport (CloseOneSide (FirstTransportId l) (FirstConnection l) d1 ?m) j = Some u" "Generations t' = Generations u"
      "set (FreeSlots t') \<subseteq> set (FreeSlots u) \<union> (if j = SecondTransportId l \<and> unat (ConnectionSlot (SecondConnection l)) < length (Generations u)
         then {ConnectionSlot (SecondConnection l)} else {})" by blast
  from CloseOneSide_views(4) [OF u(1)] obtain t where
    t: "FindTransport n j = Some t" "Generations u = Generations t"
      "set (FreeSlots u) \<subseteq> set (FreeSlots t) \<union> (if j = FirstTransportId l \<and> unat (ConnectionSlot (FirstConnection l)) < length (Generations t)
         then {ConnectionSlot (FirstConnection l)} else {})" unfolding f by blast
  from u(2,3) t(2,3) have "unat slot < length (Generations t')" if "slot \<in> set (FreeSlots t')" "\<forall>slot \<in> set (FreeSlots t). unat slot < length (Generations t)" for slot
    using that by (auto split: if_splits)
  then show "\<exists>t. FindTransport n j = Some t \<and> Generations t' = Generations t \<and>
       ((\<forall>slot \<in> set (FreeSlots t). unat slot < length (Generations t)) \<longrightarrow> (\<forall>slot \<in> set (FreeSlots t'). unat slot < length (Generations t')))"
    using t(1,2) u(2) by auto
qed

lemma CloseLink_none: "map_of (Links n) link = None \<Longrightarrow> CloseLink link i d n = n"
  by (simp add: CloseLink_def)

text \<open>A connection that is not an end of a link has another link, and so has its peer.\<close>

lemma linked_apart:
  assumes n: "linked n" and l: "map_of (Links n) link = Some l" and s: "con n x = Some s"
  shows "x \<in> ends l \<longleftrightarrow> LinkId s = link" "peer s \<in> ends l \<longleftrightarrow> LinkId s = link"
proof -
  from linkedD [OF n s] obtain d l' where d: "con n (peer s) = Some d" "peer d = x" "LinkId d = LinkId s"
    and l': "map_of (Links n) (LinkId s) = Some l'" "ends l' = {x, peer s}" .
  show "x \<in> ends l \<longleftrightarrow> LinkId s = link" using linked_end [OF n l _ s] l l' by auto
  show "peer s \<in> ends l \<longleftrightarrow> LinkId s = link" using linked_end [OF n l _ d(1)] l l' d(3) by auto
qed

lemma linked_item_apart:
  assumes n: "linked n" and l: "map_of (Links n) link = Some l" and e: "e \<in> set (Scheduled n)" "Kind (snd e) = Message"
  shows "source (snd e) \<in> ends l \<longleftrightarrow> ItemLink (snd e) = link" "target (snd e) \<in> ends l \<longleftrightarrow> ItemLink (snd e) = link"
  using linked_item [OF n e] linked_apart [OF n l] unfolding addressed_def by metis+

lemma CloseLink_ordered:
  assumes o: "ordered taken n sent polled"
  shows "ordered taken (CloseLink link i d n) sent polled"
proof (cases "map_of (Links n) link")
  case (Some l)
  let ?n = "CloseLink link i d n"
  note v = CloseLink_views [OF Some, where i = i and d = d]
  from o have n: "linked n" "timed n" "activated n" "issued n sent" unfolding ordered_def by blast+
  note apart = linked_apart [OF n(1) Some]
  have con: "con n x = Some s \<and> x \<notin> ends l" if "con ?n x = Some s" for x s using that unfolding v by (simp split: if_splits)
  have item: "e \<in> set (Scheduled n) \<and> ItemLink (snd e) \<noteq> link" if "e \<in> set (Scheduled ?n)" for e using that unfolding v by simp
  have linked: "linked ?n"
    unfolding linked_def
  proof (intro conjI allI impI ballI)
    fix x s assume "con ?n x = Some s"
    from con [OF this] have s: "con n x = Some s" "x \<notin> ends l" by blast+
    from linkedD [OF n(1) s(1)] obtain d' l' where d': "con n (peer s) = Some d'" "peer d' = x" "LinkId d' = LinkId s"
      and l': "map_of (Links n) (LinkId s) = Some l'" "ends l' = {x, peer s}" .
    show "\<exists>d. con ?n (peer s) = Some d \<and> peer d = x \<and> LinkId d = LinkId s"
      using d' apart [OF s(1)] s(2) unfolding v by simp
    show "\<exists>l. map_of (Links ?n) (LinkId s) = Some l \<and> ends l = {x, peer s}"
      using l' apart [OF s(1)] s(2) unfolding v map_of_erase by simp
  next
    fix link' l' x assume l': "map_of (Links ?n) link' = Some l'" "x \<in> ends l'"
    then have other: "link' \<noteq> link" "map_of (Links n) link' = Some l'" unfolding v map_of_erase by (simp_all split: if_splits)
    from linked_occupied [OF n(1) other(2) l'(2)] obtain s where s: "con n x = Some s" "LinkId s = link'" "link' \<noteq> link"
      using other(1) by blast
    then show "\<exists>s. con ?n x = Some s \<and> LinkId s = link'" using apart(1) [OF s(1)] unfolding v by simp
  next
    fix e assume e: "e \<in> set (Scheduled ?n)" "Kind (snd e) = Message"
    from item [OF e(1)] have e': "e \<in> set (Scheduled n)" "ItemLink (snd e) \<noteq> link" by blast+
    from linked_item [OF n(1) e'(1) e(2)] show "addressed ?n (snd e)"
      using linked_item_apart(1) [OF n(1) Some e'(1) e(2)] e'(2) unfolding addressed_def v by simp
  qed
  moreover have "timed ?n"
    unfolding timed_def
  proof (intro conjI ballI allI impI)
    show "sorted (map fst (Scheduled ?n))" unfolding v using n(2) by (simp add: timed_def sorted_filter)
    fix e s assume e: "e \<in> set (Scheduled ?n)" "carries (target (snd e)) (snd e)" "con ?n (source (snd e)) = Some s"
    then show "fst (fst e) \<le> LastReliableDelivery s" using n(2) item [OF e(1)] con [OF e(3)] unfolding timed_def by blast
  qed
  moreover have "activated ?n"
    unfolding activated_def
  proof (intro conjI ballI allI impI)
    fix x s d assume "con ?n x = Some s" "con ?n (peer s) = Some d" "CurrentState s = Connected"
    then show "CurrentState d \<noteq> Connecting" using activated_pair [OF n(3)] con by blast
  next
    fix e s assume e: "e \<in> set (Scheduled ?n)" "carries (target (snd e)) (snd e)"
      "con ?n (source (snd e)) = Some s \<or> con ?n (target (snd e)) = Some s"
    then show "CurrentState s \<noteq> Connecting" using activated_item [OF n(3)] item [OF e(1)] con by blast
  qed
  moreover have "issued ?n sent"
    unfolding issued_def
  proof (intro conjI allI impI)
    fix x assume "sent x \<noteq> []" then show "fst x < NextTransportId ?n" using n(4) unfolding issued_def v by blast
  next
    fix j t' assume t': "FindTransport ?n j = Some t'"
    from v(6) [OF t'] obtain t where t: "FindTransport n j = Some t" "Generations t' = Generations t"
      "(\<forall>slot \<in> set (FreeSlots t). unat slot < length (Generations t)) \<longrightarrow> (\<forall>slot \<in> set (FreeSlots t'). unat slot < length (Generations t'))" by blast
    show "\<forall>slot \<in> set (FreeSlots t'). unat slot < length (Generations t')" using n(4) t unfolding issued_def by blast
    fix c assume c: "sent (j, c) \<noteq> [] \<or> map_of (Connections t') c \<noteq> None"
    have "map_of (Connections t') c \<noteq> None \<Longrightarrow> map_of (Connections t) c \<noteq> None"
      using v(1) [of "(j, c)"] unfolding con_found [OF t'] con_found [OF t(1)] by (simp split: if_splits)
    then have "handed_out t c" using n(4) t(1) c unfolding issued_def by blast
    then show "handed_out t' c" using t(2) by (simp add: handed_out_def)
  qed
  moreover have "prefix (polled x @ pending ?n x) (sent x) \<and>
      (in_service ?n x \<longrightarrow> sent x = polled x @ pending ?n x @ taken x @ line ?n x)" for x
  proof (intro conjI impI)
    have old: "prefix (polled x @ pending n x) (sent x)" "in_service n x \<Longrightarrow> sent x = polled x @ pending n x @ taken x @ line n x"
      using o unfolding ordered_def by blast+
    then show "prefix (polled x @ pending ?n x) (sent x)" unfolding v using append_prefixD by auto
    assume s: "in_service ?n x"
    then have "in_service n x" "x \<notin> ends l" using con unfolding in_service_def by blast+
    moreover have "filter (\<lambda>e. carries x (snd e) \<and> ItemLink (snd e) \<noteq> link) (Scheduled n) = filter (\<lambda>e. carries x (snd e)) (Scheduled n)"
      using linked_item_apart(2) [OF n(1) Some] \<open>x \<notin> ends l\<close> by (intro filter_cong) (auto simp: carries_def)
    then have "line ?n x = line n x" unfolding line_def v by (simp add: conj_commute)
    ultimately show "sent x = polled x @ pending ?n x @ taken x @ line ?n x" using old(2) unfolding v by simp
  qed
  ultimately show ?thesis unfolding ordered_def by blast
qed (simp add: CloseLink_none o)

lemma CloseLink_out:
  assumes "linked n" "con n x = Some s" "LinkId s = link"
  shows "\<not> in_service (CloseLink link i d n) x"
proof -
  from linkedD [OF assms(1,2)] obtain l where "map_of (Links n) link = Some l" "ends l = {x, peer s}" using assms(3) by metis
  then show ?thesis using CloseLink_views(1) [where i = i and d = d] unfolding in_service_def by simp
qed

lemma ordered_out:
  assumes "ordered taken n sent polled" "\<And>x. taken x \<noteq> [] \<Longrightarrow> \<not> in_service n x"
  shows "ordered (\<lambda>_. []) n sent polled"
  using assms unfolding ordered_def by (metis append_Nil)

section \<open>Activation\<close>

definition connected_if :: "bool \<Rightarrow> SimulatedConnection \<Rightarrow> SimulatedConnection" where
  "connected_if b s = (if b then s\<lparr>CurrentState := Connected\<rparr> else s)"

lemma connected_if_fields [simp]: "LinkId (connected_if b s) = LinkId s" "peer (connected_if b s) = peer s"
  "LastReliableDelivery (connected_if b s) = LastReliableDelivery s"
  "CurrentState (connected_if b s) = (if b then Connected else CurrentState s)"
  "connected_if False s = s"
  by (simp_all add: connected_if_def peer_def)

lemma pending_update_connection: "pending (update_connection i c f n) x = pending n x"
  by (simp add: pending_def FindTransport_update_connection split: option.split)

lemma activate_side_views:
  "con (activate_side i c n) x = map_option (connected_if (x = (i, c))) (con n x)"
  "pending (activate_side i c n) x = pending n x"
  "Links (activate_side i c n) = Links n" "NextTransportId (activate_side i c n) = NextTransportId n"
  "map_option (\<lambda>t. (Generations t, FreeSlots t)) (FindTransport (activate_side i c n) j) =
     map_option (\<lambda>t. (Generations t, FreeSlots t)) (FindTransport n j)"
proof -
  let ?n = "update_connection i c (\<lambda>s. s\<lparr>CurrentState := Connected\<rparr>) n"
  obtain ok f where "activate_side i c n = ?n \<or> activate_side i c n = update_transport i f (assert_that ok ?n)"
    and f: "Connections (f t) = Connections t" "Generations (f t) = Generations t" "FreeSlots (f t) = FreeSlots t"
      "filter (reliable_at b) (Events (f t)) = filter (reliable_at b) (Events t)" for t b
  proof (cases "FindTransport ?n i")
    case None then show ?thesis by (intro that [where f = "\<lambda>t. t"]) (simp_all add: activate_side_def)
  next
    case (Some t) then show ?thesis by (intro that [where ok = "HasEventCapacityWithReservations ?n t 2" and f = "\<lambda>t. t\<lparr>Events := Events t @
        [ConnectionStateEvent c Connecting Authenticating, ConnectionStateEvent c Authenticating Connected]\<rparr>"])
      (simp_all add: activate_side_def Let_def)
  qed
  then consider "activate_side i c n = ?n" | "activate_side i c n = update_transport i f (assert_that ok ?n)" by blast
  then have "calm ?n (activate_side i c n) \<and> (\<forall>x. con (activate_side i c n) x = con ?n x)"
  proof cases
    case 1 then show ?thesis by (simp only: calm_refl) simp
  next
    case 2
    have "calm (assert_that ok ?n) (update_transport i f (assert_that ok ?n))" by (rule calm_update_transport) (simp add: f)
    moreover have "con (update_transport i f (assert_that ok ?n)) x = con (assert_that ok ?n) x" for x
      by (rule con_update_transport) (rule f)
    moreover have "con (assert_that ok ?n) x = con ?n x" for x by (simp add: con_def connection_of_def)
    ultimately show ?thesis unfolding 2 using calm_trans [OF calm_assert] by simp
  qed
  then have k: "calm ?n (activate_side i c n)" and c: "con (activate_side i c n) x = con ?n x" for x by blast+
  show "con (activate_side i c n) x = map_option (connected_if (x = (i, c))) (con n x)"
    unfolding c con_update by (cases "x = (i, c)"; cases "con n x") (simp_all add: connected_if_def)
  show "pending (activate_side i c n) x = pending n x" using calmD(5) [OF k] by (simp add: pending_update_connection)
  show "Links (activate_side i c n) = Links n" "NextTransportId (activate_side i c n) = NextTransportId n"
    using calmD(1,2) [OF k] by simp_all
  show "map_option (\<lambda>t. (Generations t, FreeSlots t)) (FindTransport (activate_side i c n) j) =
     map_option (\<lambda>t. (Generations t, FreeSlots t)) (FindTransport n j)"
    unfolding calmD(8) [OF k] by (simp add: FindTransport_update_connection comp_def option.map_comp)
qed

lemma activate_ordered:
  assumes o: "ordered taken n sent polled" and l: "map_of (Links n) link = Some l"
    and s: "con n (FirstTransportId l, FirstConnection l) = Some s1" "CurrentState s1 = Connecting"
      "con n (SecondTransportId l, SecondConnection l) = Some s2" "CurrentState s2 = Connecting"
  shows "ordered taken (activate_side (SecondTransportId l) (SecondConnection l) (activate_side (FirstTransportId l) (FirstConnection l) n)) sent polled"
    (is "ordered taken ?n sent polled")
proof -
  from o have n: "linked n" "timed n" "activated n" "issued n sent" unfolding ordered_def by blast+
  have con: "con ?n x = map_option (connected_if (x \<in> ends l)) (con n x)" for x
    unfolding activate_side_views by (cases "con n x") (auto simp: ends_def connected_if_def)
  have before: "\<exists>s. con n x = Some s \<and> s' = connected_if (x \<in> ends l) s" if "con ?n x = Some s'" for x s'
    using that unfolding con by auto
  have same: "Links ?n = Links n" "Scheduled ?n = Scheduled n" "NextTransportId ?n = NextTransportId n"
    "pending ?n x = pending n x" "line ?n x = line n x" for x
    by (simp_all add: activate_side_views line_def)
  have fresh: "CurrentState s = Connecting" if "x \<in> ends l" "con n x = Some s" for x s
    using that s unfolding ends_def by auto
  have hands: "map_option (\<lambda>t. (Generations t, FreeSlots t)) (FindTransport ?n j) =
      map_option (\<lambda>t. (Generations t, FreeSlots t)) (FindTransport n j)" for j
    by (simp only: activate_side_views(5))
  have addressed: "addressed ?n item \<longleftrightarrow> addressed n item" for item
    unfolding addressed_def con by auto
  have "linked ?n"
    unfolding linked_def same addressed
  proof (intro conjI allI impI ballI)
    fix x s' assume "con ?n x = Some s'"
    then obtain s where s: "con n x = Some s" "s' = connected_if (x \<in> ends l) s" using before by blast
    from linkedD [OF n(1) s(1)] obtain d l' where d: "con n (peer s) = Some d" "peer d = x" "LinkId d = LinkId s"
      and l': "map_of (Links n) (LinkId s) = Some l'" "ends l' = {x, peer s}" .
    show "\<exists>d. con ?n (peer s') = Some d \<and> peer d = x \<and> LinkId d = LinkId s'"
      using d unfolding con s(2) by simp
    show "\<exists>l. map_of (Links n) (LinkId s') = Some l \<and> ends l = {x, peer s'}" using l' s(2) by simp
  next
    fix link' l' x assume "map_of (Links n) link' = Some l'" "x \<in> ends l'"
    from linked_occupied [OF n(1) this] show "\<exists>s. con ?n x = Some s \<and> LinkId s = link'" unfolding con by auto
  qed (use linked_item [OF n(1)] in blast)
  moreover have "timed ?n"
    using n(2) before unfolding timed_def same by fastforce
  moreover have "activated ?n"
    unfolding activated_def same
  proof (intro conjI ballI allI impI)
    fix x s' d' assume "con ?n x = Some s'" "con ?n (peer s') = Some d'" and c: "CurrentState s' = Connected"
    then obtain s d where s: "con n x = Some s" "s' = connected_if (x \<in> ends l) s"
      and d: "con n (peer s) = Some d" "d' = connected_if (peer s \<in> ends l) d"
      using before connected_if_fields(2) by (metis (no_types))
    show "CurrentState d' \<noteq> Connecting"
    proof (cases "peer s \<in> ends l")
      case False
      then have "x \<notin> ends l" using linked_apart [OF n(1) l s(1)] by simp
      then show ?thesis using False c s d activated_pair [OF n(3) s(1) d(1)] by simp
    qed (use d in simp)
  next
    fix e s' assume e: "e \<in> set (Scheduled n)" "carries (target (snd e)) (snd e)"
      "con ?n (source (snd e)) = Some s' \<or> con ?n (target (snd e)) = Some s'"
    then obtain x s where "con n (source (snd e)) = Some s \<or> con n (target (snd e)) = Some s" "s' = connected_if (x \<in> ends l) s"
      using before by metis
    then show "CurrentState s' \<noteq> Connecting" using activated_item [OF n(3) e(1,2)] by (simp split: if_splits)
  qed
  moreover have "issued ?n sent"
    unfolding issued_def same
  proof (intro conjI allI impI)
    fix x assume "sent x \<noteq> []" then show "fst x < NextTransportId n" using n(4) unfolding issued_def by blast
  next
    fix j t' assume t': "FindTransport ?n j = Some t'"
    obtain t where t: "FindTransport n j = Some t" "Generations t' = Generations t" "FreeSlots t' = FreeSlots t"
      using t' hands [of j] by (cases "FindTransport n j") auto
    show "\<forall>slot \<in> set (FreeSlots t'). unat slot < length (Generations t')" using n(4) t unfolding issued_def by simp
    fix c assume c: "sent (j, c) \<noteq> [] \<or> map_of (Connections t') c \<noteq> None"
    have "map_of (Connections t') c \<noteq> None \<Longrightarrow> map_of (Connections t) c \<noteq> None"
      using con [of "(j, c)"] unfolding con_found [OF t'] con_found [OF t(1)] by auto
    then have "handed_out t c" using n(4) t(1) c unfolding issued_def by blast
    then show "handed_out t' c" using t(2) by (simp add: handed_out_def)
  qed
  moreover have "in_service n x" if "in_service ?n x" for x
  proof -
    have old: "\<exists>s. con n y = Some s \<and> usable s \<and> peer s = peer s'" if "con ?n y = Some s'" "usable s'" for y s'
    proof -
      from before [OF that(1)] obtain s where "con n y = Some s" "s' = connected_if (y \<in> ends l) s" by blast
      then show ?thesis using fresh [of y s] that(2) by (cases "y \<in> ends l") (auto simp: usable_def)
    qed
    from that obtain d' s' where "con ?n x = Some d'" "usable d'" "con ?n (peer d') = Some s'" "usable s'"
      unfolding in_service_def by blast
    from old [OF this(1,2)] old [OF this(3,4)] show ?thesis unfolding in_service_def by auto
  qed
  ultimately show ?thesis
    using o unfolding ordered_def same by blast
qed

lemma con_cases: "con n (i, c) = Some s \<longleftrightarrow> (\<exists>t. FindTransport n i = Some t \<and> map_of (Connections t) c = Some s)"
  by (auto simp: con_def connection_of_def split: option.split)

lemma ActivateLink_ordered:
  assumes o: "ordered taken n sent polled"
  shows "ordered taken (ActivateLink item n) sent polled"
proof (cases "map_of (Links n) (ItemLink item)")
  case (Some l)
  show ?thesis
    unfolding ActivateLink_def Some option.case
    using CloseLink_ordered [OF o] o activate_ordered [OF o Some]
    by (auto simp: con_cases split: option.split)
qed (simp add: ActivateLink_def o)

section \<open>Delivery\<close>

definition took :: "ScheduledItem \<Rightarrow> log" where
  "took item x = (if carries x item then [received_event item] else [])"

lemma took_iff: "took item x \<noteq> [] \<longleftrightarrow> carries x item"
  by (simp add: took_def)

lemma took_none: "Kind item \<noteq> Message \<or> ItemDelivery item \<noteq> ReliableOrdered \<Longrightarrow> took item = (\<lambda>_. [])"
  by (rule ext) (auto simp: took_def carries_def)

lemma pop_ordered:
  assumes o: "ordered (\<lambda>_. []) n sent polled" and s: "Scheduled n = (key, item) # rest"
  shows "ordered (took item) (n\<lparr>Scheduled := rest\<rparr>) sent polled"
proof -
  let ?n = "n\<lparr>Scheduled := rest\<rparr>"
  have f: "FindTransport ?n j = FindTransport n j" for j by (simp add: FindTransport_def)
  have con: "con ?n x = con n x" "pending ?n x = pending n x" for x by (simp_all add: con_def connection_of_def pending_def f)
  have line: "line n x = took item x @ line ?n x" for x by (simp add: line_def s took_def)
  have sub: "e \<in> set rest \<Longrightarrow> e \<in> set (Scheduled n)" for e by (simp add: s)
  from o have n: "linked n" "timed n" "activated n" "issued n sent" unfolding ordered_def by blast+
  have "linked ?n" using n(1) sub unfolding linked_def addressed_def con by (auto simp del: split_paired_All split_paired_Ex)
  moreover have "timed ?n" using n(2) sub unfolding timed_def con by (simp add: s)
  moreover have "activated ?n" using n(3) sub unfolding activated_def con by (auto simp del: split_paired_All split_paired_Ex)
  moreover have "issued ?n sent" using n(4) unfolding issued_def f by simp
  moreover have "in_service ?n x = in_service n x" for x unfolding in_service_def con ..
  ultimately show ?thesis using o unfolding ordered_def con line by simp
qed

lemma account_stays: "account_delivery item s = Some s' \<Longrightarrow> stays s s' \<and> CurrentState s' = CurrentState s"
  by (auto simp: account_delivery_def stays_def update_statistics_def peer_def split: if_splits)

lemma receive_ordered:
  assumes o: "ordered (took item) n sent polled" and t: "FindTransport n (DestinationTransportId item) = Some t"
    and m: "Kind item = Message" "ItemDelivery item = ReliableOrdered" "in_service n (target item)"
  shows "ordered (\<lambda>_. []) (update_transport (DestinationTransportId item) (\<lambda>_. t\<lparr>Events := Events t @ [received_event item]\<rparr>) n) sent polled"
    (is "ordered _ ?n sent polled")
proof -
  have con: "con ?n x = con n x" for x by (rule con_update_transport) (use t in simp)
  have same: "Links ?n = Links n" "Scheduled ?n = Scheduled n" "NextTransportId ?n = NextTransportId n" "line ?n x = line n x" for x
    by (simp_all add: line_def)
  have pending: "pending ?n x = pending n x @ took item x" for x
    using t m by (cases x) (auto simp: pending_def took_def carries_def target_def received_event_def)
  from o have n: "linked n" "timed n" "activated n" "issued n sent" unfolding ordered_def by blast+
  have "linked ?n" "timed ?n" "activated ?n"
    using n(1-3) unfolding linked_def timed_def activated_def addressed_def con same by blast+
  moreover have "issued ?n sent"
    using n(4) t unfolding issued_def same by (auto simp: handed_out_def)
  moreover have "in_service ?n x = in_service n x" for x unfolding in_service_def con ..
  moreover have "prefix (polled x @ pending n x @ took item x) (sent x)" for x
  proof (cases "x = target item")
    case True
    then have "sent x = polled x @ pending n x @ took item x @ line n x" using o m(3) unfolding ordered_def by blast
    then show ?thesis by simp
  next
    case False
    then have "took item x = []" by (auto simp: took_def carries_def)
    then show ?thesis using o unfolding ordered_def by simp
  qed
  ultimately show ?thesis
    using o unfolding ordered_def pending same by simp
qed

lemma took_out: "ordered (took item) n sent polled \<Longrightarrow> \<not> in_service n (target item) \<Longrightarrow> ordered (\<lambda>_. []) n sent polled"
  by (rule ordered_out) (auto simp: took_iff carries_def)

lemma queue_message_ordered:
  assumes o: "ordered (took item) n sent polled" and k: "Kind item = Message"
    and d: "con n (target item) = Some d" "LinkId d = ItemLink item"
    and s: "ItemDelivery item = ReliableOrdered \<Longrightarrow> in_service n (target item)"
  shows "ordered (\<lambda>_. []) (queue_message item n) sent polled"
proof -
  obtain t where t: "FindTransport n (DestinationTransportId item) = Some t"
    using d(1) by (auto simp: target_def con_cases)
  let ?n = "update_transport (DestinationTransportId item) (\<lambda>_. t\<lparr>Events := Events t @ [received_event item]\<rparr>) n"
  have closed: "ordered (\<lambda>_. []) (CloseLink (ItemLink item) i info n) sent polled" for i info
    by (rule took_out [OF CloseLink_ordered [OF o]]) (use o d CloseLink_out in \<open>unfold ordered_def, blast\<close>)
  have other: "ordered (\<lambda>_. []) n sent polled \<and> calm n ?n" if "ItemDelivery item \<noteq> ReliableOrdered"
    using o that t by (auto simp: took_none received_event_def intro!: calm_update_transport)
  have "ordered (\<lambda>_. []) ?n sent polled"
    using receive_ordered [OF o t k _ s] other calm_ordered by blast
  then have "ordered (\<lambda>_. []) (update_connection a b (update_statistics f) (update_connection c e (update_statistics g) ?n)) sent polled" for a b c e f g
    using calm_ordered calm_statistics by blast
  moreover have "ItemDelivery item \<noteq> ReliableOrdered \<Longrightarrow> ordered (\<lambda>_. []) (drop_message item n) sent polled"
    unfolding drop_message_def using other calm_ordered calm_drop by blast
  ultimately show ?thesis
    unfolding queue_message_def t option.case QueueEvent_def using closed by simp
qed

lemma order_message_ordered:
  assumes o: "ordered (took item) n sent polled" and k: "Kind item = Message"
    and d: "con n (target item) = Some d" "LinkId d = ItemLink item"
    and s: "ItemDelivery item = ReliableOrdered \<Longrightarrow> in_service n (target item)"
  shows "ordered (\<lambda>_. []) (order_message item d' n) sent polled"
proof (cases "ItemDelivery item = UnreliableSequenced")
  case True
  then have "ordered (\<lambda>_. []) n sent polled" using o took_none by simp
  then have "ordered (\<lambda>_. []) (drop_message item n) sent polled"
    unfolding drop_message_def using calm_ordered calm_drop by blast
  moreover have "ordered (\<lambda>_. []) (queue_message item (note_sequence item key sequence n)) sent polled" for key sequence
  proof -
    have c: "calm n (note_sequence item key sequence n)"
      unfolding note_sequence_def by (rule calm_update_connection) (simp add: stays_def peer_def)
    from calm_forward [OF c d(1)] obtain d' where "con (note_sequence item key sequence n) (target item) = Some d'" "stays d d'" .
    then show ?thesis
      using queue_message_ordered [OF calm_ordered [OF c o] k, of d'] d(2) True stays_fields by auto
  qed
  ultimately show ?thesis unfolding order_message_def using True by (simp split: option.split prod.split)
next
  case False
  then show ?thesis unfolding order_message_def using queue_message_ordered [OF o k d s] by simp
qed

lemma DeliverMessage_ordered:
  assumes o: "ordered (took item) n sent polled" and k: "Kind item = Message" and a: "addressed n item"
    and c: "\<And>r. ItemDelivery item = ReliableOrdered \<Longrightarrow> con n (source item) = Some r \<or> con n (target item) = Some r \<Longrightarrow> CurrentState r \<noteq> Connecting"
  shows "ordered (\<lambda>_. []) (DeliverMessage item n) sent polled"
proof -
  from o have linked: "linked n" unfolding ordered_def by blast
  from a obtain s where s: "con n (source item) = Some s" "LinkId s = ItemLink item" "peer s = target item"
    unfolding addressed_def by blast
  from linkedD [OF linked s(1)] obtain d l where d: "con n (target item) = Some d" "peer d = source item" "LinkId d = ItemLink item"
    and l: "map_of (Links n) (ItemLink item) = Some l" using s by metis
  obtain t1 t2 where t: "FindTransport n (SourceTransportId item) = Some t1" "map_of (Connections t1) (SourceConnection item) = Some s"
    "FindTransport n (DestinationTransportId item) = Some t2" "map_of (Connections t2) (DestinationConnection item) = Some d"
    using s(1) d(1) by (auto simp: source_def target_def con_cases)
  have code: "DeliverMessage item n =
      (if CurrentState s \<noteq> Connected \<or> CurrentState d \<noteq> Connected then n
       else (case account_delivery item s of
           None \<Rightarrow> CloseLink (ItemLink item) (SourceTransportId item) (underflow_information item) n
         | Some s' \<Rightarrow> order_message item d (update_connection (SourceTransportId item) (SourceConnection item) (\<lambda>_. s') n)))"
    by (simp add: DeliverMessage_def l t s(2) d(3))
  have closed: "ordered (\<lambda>_. []) (CloseLink (ItemLink item) i info n) sent polled" for i info
    by (rule took_out [OF CloseLink_ordered [OF o]]) (use linked d(1,3) CloseLink_out in blast)
  have dropped: "ordered (\<lambda>_. []) n sent polled" if "CurrentState s \<noteq> Connected \<or> CurrentState d \<noteq> Connected"
  proof (cases "ItemDelivery item = ReliableOrdered")
    case True
    then have "\<not> usable s \<or> \<not> usable d" using that c [of s] c [of d] s(1) d(1) by (auto simp: usable_def)
    then have "\<not> in_service n (target item)" using s(1) d(1,2) unfolding in_service_def by auto
    then show ?thesis by (rule took_out [OF o])
  next
    case False then show ?thesis using o took_none by simp
  qed
  have delivered: "ordered (\<lambda>_. []) (order_message item d (update_connection (SourceTransportId item) (SourceConnection item) (\<lambda>_. s') n)) sent polled"
    if a: "account_delivery item s = Some s'" and connected: "CurrentState s = Connected" "CurrentState d = Connected" for s'
  proof -
    let ?n = "update_connection (SourceTransportId item) (SourceConnection item) (\<lambda>_. s') n"
    have calm: "calm n ?n"
      by (rule calm_update_connection) (use account_stays [OF a] s(1) in \<open>simp add: source_def\<close>)
    have s': "con ?n (source item) = Some s'" "CurrentState s' = Connected"
      using s(1) account_stays [OF a] connected by (simp_all add: con_update source_def)
    obtain d' where d': "con ?n (target item) = Some d'" "stays d d'" "CurrentState d' = Connected"
    proof (cases "target item = source item")
      case True
      then show ?thesis using that [of s'] s' s(1) d(1) account_stays [OF a] by simp
    next
      case False
      then show ?thesis using that [of d] d(1) connected(2) stays_refl by (simp add: con_update source_def)
    qed
    have "in_service ?n (target item)"
      using d' s' stays_fields [OF d'(2)] d(2) unfolding in_service_def usable_def by auto
    then show ?thesis
      using order_message_ordered [OF calm_ordered [OF calm o] k d'(1)] stays_fields [OF d'(2)] d(3) by simp
  qed
  show ?thesis unfolding code using dropped closed delivered by (simp split: option.split)
qed

lemma pump_one_ordered:
  assumes o: "ordered (\<lambda>_. []) n sent polled" and p: "pump_one n = Some n'"
  shows "ordered (\<lambda>_. []) n' sent polled"
proof -
  from p obtain key item rest where s: "Scheduled n = (key, item) # rest" and n': "n' = ProcessScheduledItem item (n\<lparr>Scheduled := rest\<rparr>)"
    by (auto simp: pump_one_def split: list.splits if_splits)
  let ?n = "n\<lparr>Scheduled := rest\<rparr>"
  have con: "con ?n x = con n x" for x by (simp add: con_def connection_of_def FindTransport_def)
  have popped: "ordered (took item) ?n sent polled" by (rule pop_ordered [OF o s])
  from o have n: "linked n" "activated n" unfolding ordered_def by blast+
  show ?thesis
  proof (cases "Kind item")
    case Message
    have "addressed ?n item"
      using linked_item [OF n(1), where e = "(key, item)"] Message by (simp add: s addressed_def con)
    moreover have "CurrentState r \<noteq> Connecting"
      if "ItemDelivery item = ReliableOrdered" "con ?n (source item) = Some r \<or> con ?n (target item) = Some r" for r
      using activated_item [OF n(2), where e = "(key, item)" and s = r] that Message by (simp add: s con carries_def)
    ultimately show ?thesis
      unfolding n' ProcessScheduledItem_def using DeliverMessage_ordered [OF popped Message] Message by simp
  next
    case Activate
    then show ?thesis unfolding n' ProcessScheduledItem_def using ActivateLink_ordered popped took_none by simp
  next
    case Disconnection
    then show ?thesis unfolding n' ProcessScheduledItem_def using CloseLink_ordered popped took_none by simp
  qed
qed

lemma Pump_ordered: "ordered (\<lambda>_. []) n sent polled \<Longrightarrow> ordered (\<lambda>_. []) (snd (Pump n)) sent polled"
proof (induction n rule: Pump.induct)
  case (1 n)
  then show ?case
    using pump_one_ordered [OF 1(2)] by (simp add: Pump.simps [of n] split: option.split prod.split) (metis snd_conv)
qed

section \<open>Sending\<close>

text \<open>The logs grow where a reliable message is accepted, and where events are polled.\<close>

definition log_sent :: "nat \<Rightarrow> NetworkMessageIntent \<Rightarrow> SimulatedNetworkState \<Rightarrow> log \<Rightarrow> log" where
  "log_sent i m n sent =
     (case con n (i, Destination m) of
        None \<Rightarrow> sent
      | Some s \<Rightarrow>
          if Delivery m = ReliableOrdered \<and> Status (fst (Send i m n)) = Succeeded
          then sent(peer s := sent (peer s) @ [ReceivedMessageEvent (RemoteConnection s) ReliableOrdered (Traffic m) (Order m) (Payload m)])
          else sent)"

lemma filter_insort_last:
  assumes "sorted (map f xs)" "P x" "\<And>y. y \<in> set xs \<Longrightarrow> P y \<Longrightarrow> f y < f x"
  shows "filter P (insort_key f x xs) = filter P xs @ [x]"
  using assms
proof (induction xs)
  case (Cons y ys)
  show ?case
  proof (cases "f x \<le> f y")
    case True
    then have "\<not> P z" if "z \<in> set (y # ys)" for z
      using Cons.prems(1) Cons.prems(3) [OF that] that by fastforce
    then show ?thesis using True Cons.prems(2) by (simp add: filter_empty_conv)
  next
    case False
    then show ?thesis using Cons by simp
  qed
qed simp

lemma issued_append:
  assumes "issued n sent" "network_inv n" "con n x = Some d"
  shows "issued n (sent(x := es))"
proof -
  obtain t where t: "FindTransport n (fst x) = Some t" "map_of (Connections t) (snd x) = Some d"
    using assms(3) con_cases [of n "fst x" "snd x"] by auto
  have "fst x < NextTransportId n"
    using assms(2) t(1) map_of_SomeD unfolding network_inv_def FindTransport_def by fastforce
  moreover have "handed_out t (snd x)" using assms(1) t unfolding issued_def by blast
  ultimately show ?thesis
    using assms(1) t(1) unfolding issued_def by (cases x) auto
qed

lemma schedule_reliable_ordered:
  assumes n: "network_inv n" and o: "ordered (\<lambda>_. []) n sent polled" and m: "Delivery m = ReliableOrdered"
    and s: "con n (i, Destination m) = Some s" "CurrentState s = Connected"
    and shape: "LinkId s0 = LinkId s" "peer s0 = peer s" and due: "due = LastReliableDelivery s"
  shows "ordered (\<lambda>_. []) (scheduled_with (message_item i s0 m due False) n)
    (sent(peer s := sent (peer s) @ [ReceivedMessageEvent (RemoteConnection s) ReliableOrdered (Traffic m) (Order m) (Payload m)])) polled"
    (is "ordered _ ?n ?sent polled")
proof -
  define item where "item = message_item i s0 m due False"
  have item: "Kind item = Message" "ItemDelivery item = ReliableOrdered" "source item = (i, Destination m)" "target item = peer s"
    "ItemLink item = LinkId s" "At item = due"
    "received_event item = ReceivedMessageEvent (RemoteConnection s) ReliableOrdered (Traffic m) (Order m) (Payload m)"
    using m shape by (simp_all add: item_def message_item_def source_def target_def peer_def received_event_def)
  from o have linked: "linked n" and timed: "timed n" and activated: "activated n" and issued: "issued n sent"
    unfolding ordered_def by blast+
  from linkedD [OF linked s(1)] obtain d l where d: "con n (peer s) = Some d" "peer d = (i, Destination m)" "LinkId d = LinkId s"
    and l: "map_of (Links n) (LinkId s) = Some l" "ends l = {(i, Destination m), peer s}" .
  have members: "set (Scheduled ?n) = insert ((due, NextTieBreaker n), item) (set (Scheduled n))"
    unfolding item_def [symmetric] by (simp add: Scheduled_with set_insort_key item(6))
  have same: "Links ?n = Links n" "NextTransportId ?n = NextTransportId n" "FindTransport ?n j = FindTransport n j" for j
    by (simp_all add: scheduled_with_def FindTransport_def)
  have before: "fst e < (due, NextTieBreaker n)" if e: "e \<in> set (Scheduled n)" "carries (peer s) (snd e)" for e
  proof -
    have k: "Kind (snd e) = Message" "target (snd e) = peer s" using e(2) by (auto simp: carries_def)
    from linked_item [OF linked e(1) k(1)] obtain r where r: "con n (source (snd e)) = Some r" "peer r = peer s"
      unfolding addressed_def k(2) by blast
    from linkedD [OF linked r(1)] d(1,2) r(2) have "source (snd e) = (i, Destination m)" by (metis option.inject)
    then have "fst (fst e) \<le> due" using timed e k(2) s(1) due unfolding timed_def by auto
    moreover have "snd (fst e) < NextTieBreaker n" using n e(1) by (simp add: network_inv_def)
    ultimately show ?thesis by (cases "fst e") (auto simp: less_prod_def)
  qed
  have line: "line ?n x = (if x = peer s then line n x @ [received_event item] else line n x)" for x
  proof (cases "x = peer s")
    case True
    have "filter (\<lambda>e. carries x (snd e)) (insort_key fst ((due, NextTieBreaker n), item) (Scheduled n)) =
        filter (\<lambda>e. carries x (snd e)) (Scheduled n) @ [((due, NextTieBreaker n), item)]"
      by (rule filter_insort_last) (use timed before True item in \<open>auto simp: timed_def carries_def\<close>)
    then show ?thesis unfolding item_def [symmetric] using True by (simp add: line_def Scheduled_with item(6))
  next
    case False
    then show ?thesis
      unfolding item_def [symmetric] by (simp add: line_def Scheduled_with filter_insort_other carries_def item(4))
  qed
  have "addressed n item" using s(1) item unfolding addressed_def by simp
  then have "linked ?n" using linked unfolding linked_def addressed_def con_scheduled same(1) members by simp
  moreover have "timed ?n"
    unfolding timed_def con_scheduled members
    using timed s(1) due item(3) unfolding timed_def item_def [symmetric] by (auto simp: Scheduled_with sorted_insort_key)
  moreover have "activated ?n"
    unfolding activated_def con_scheduled members
    using activated activated_pair [OF activated s(1) d(1) s(2)] s d(1) item(3,4) unfolding activated_def by auto
  moreover have "issued ?n ?sent"
    using issued_append [OF issued n d(1)] unfolding issued_def same by blast
  moreover have "in_service ?n x = in_service n x" for x by (simp add: in_service_def)
  ultimately show ?thesis
    using o unfolding ordered_def line pending_scheduled item(7) [symmetric] by auto
qed

lemma stays_available: "LastReliableDelivery s \<le> b \<Longrightarrow> stays s (s\<lparr>NextSendAvailable := a, LastReliableDelivery := b\<rparr>)"
  by (simp add: stays_def peer_def)

lemma stays_reliable: "stays s (add_reliable k s)"
  by (simp add: stays_def add_reliable_def update_statistics_def peer_def)

lemma SendReliable_ordered:
  assumes n: "network_inv n" and o: "ordered (\<lambda>_. []) n sent polled"
    and s: "con n (i, Destination m) = Some s" "CurrentState s = Connected" and m: "Delivery m = ReliableOrdered"
  shows "ordered (\<lambda>_. []) (snd (SendReliable i s m n))
    (if Status (fst (SendReliable i s m n)) = Succeeded
     then sent(peer s := sent (peer s) @ [ReceivedMessageEvent (RemoteConnection s) ReliableOrdered (Traffic m) (Order m) (Payload m)])
     else sent) polled"
proof -
  define c k where "c = Destination m" and "k = length (Payload m)"
  define limit where "limit = min (MaximumReliableQueueBytes (Configuration n)) (MaximumQueuedReliableBytes (ConnectionLimits s))"
  note unfold = SendReliable_def Let_def c_def [symmetric] k_def [symmetric] limit_def [symmetric]
  show ?thesis
  proof (cases "k > limit \<or> ReliableQueueBytes s > limit - k \<or> \<not> CanScheduleMessages n 1")
    case True
    have "calm n (snd (Schedule (disconnect_item i c (LinkId s) (CurrentTime n) queue_exhausted) (update_connection i c close_connection n)))"
      by (rule calm_trans [OF calm_close_connection calm_Schedule]) (simp_all add: inv_fresh inv_close_connection n)
    from calm_ordered [OF this o] show ?thesis
      unfolding unfold if_P [OF True] using CloseLink_ordered by (simp add: prod.case_eq_if TerminalOperation_def)
  next
    case False
    define n1 where "n1 = update_connection i c (update_statistics (count_message k)) n"
    have n1: "network_inv n1" unfolding n1_def by (rule inv_statistics [OF n]) (simp add: count_message_def)
    have c1: "calm n n1" unfolding n1_def by (rule calm_statistics)
    show ?thesis
    proof (cases "ComputeDeliveryTime (NextSendAvailable s) k False n1")
      case None
      then show ?thesis unfolding unfold if_not_P [OF False] n1_def [symmetric] using o by (simp add: Operation_def)
    next
      case (Some x)
      then obtain due finish n2 where d: "ComputeDeliveryTime (NextSendAvailable s) k False n1 = Some (due, finish, n2)" by (cases x) auto
      define due' where "due' = max due (LastReliableDelivery s)"
      define n3 where "n3 = update_connection i c (\<lambda>s. s\<lparr>NextSendAvailable := finish, LastReliableDelivery := due'\<rparr>) n2"
      have r: "redrawn n1 n2" by (rule ComputeDeliveryTime_redrawn [OF d])
      have n3: "network_inv n3" unfolding n3_def by (rule inv_available [OF redrawn_inv [OF n1 r]])
      have con2: "con n2 (i, c) = Some (update_statistics (count_message k) s)"
        using redrawn_fields [OF r, of i c] s(1) by (simp add: con_def n1_def c_def)
      have c3: "calm n2 n3"
        unfolding n3_def by (rule calm_update_connection, rule stays_available) (use con2 in \<open>simp add: due'_def update_statistics_def\<close>)
      have o3: "ordered (\<lambda>_. []) n3 sent polled"
        by (rule calm_ordered [OF calm_trans [OF calm_trans [OF c1 calm_redrawn [OF r]] c3] o])
      define s3 where "s3 = (update_statistics (count_message k) s)\<lparr>NextSendAvailable := finish, LastReliableDelivery := due'\<rparr>"
      have s3: "con n3 (i, Destination m) = Some s3" using con2 by (simp add: n3_def con_update s3_def c_def)
      have fields: "CurrentState s3 = Connected" "LinkId s3 = LinkId s" "peer s3 = peer s" "RemoteConnection s3 = RemoteConnection s"
        "LastReliableDelivery s3 = due'"
        using s(2) by (simp_all add: s3_def update_statistics_def peer_def)
      have "ordered (\<lambda>_. []) (scheduled_with (message_item i s m due' False) n3)
          (sent(peer s := sent (peer s) @ [ReceivedMessageEvent (RemoteConnection s) ReliableOrdered (Traffic m) (Order m) (Payload m)])) polled"
        using schedule_reliable_ordered [OF n3 o3 m s3 fields(1), of s due'] fields by simp
      then have "ordered (\<lambda>_. []) (update_connection i c (add_reliable k) (scheduled_with (message_item i s m due' False) n3))
          (sent(peer s := sent (peer s) @ [ReceivedMessageEvent (RemoteConnection s) ReliableOrdered (Traffic m) (Order m) (Payload m)])) polled"
        by (rule calm_ordered [OF calm_update_connection, rotated]) (rule stays_reliable)
      then show ?thesis
        unfolding unfold if_not_P [OF False] n1_def [symmetric] d option.case prod.case due'_def [symmetric] n3_def [symmetric]
          Schedule_cases [OF inv_fresh [OF n3]] add_reliable_def [symmetric]
        using CloseLink_ordered [OF o3] by (simp add: Operation_def TerminalOperation_def)
    qed
  qed
qed

lemma calm_schedule_all:
  "fresh_keys n \<Longrightarrow> (\<And>item. item \<in> set items \<Longrightarrow> ItemDelivery item \<noteq> ReliableOrdered \<and> addressed n item) \<Longrightarrow>
   calm n (snd (schedule_all items n))"
proof (induction items arbitrary: n)
  case (Cons item items)
  have c: "calm n (scheduled_with item n)" by (rule calm_schedule) (use Cons.prems in simp)
  have "calm (scheduled_with item n) (snd (schedule_all items (scheduled_with item n)))"
    by (rule Cons.IH) (use Cons.prems calm_addressed [OF c] fresh_scheduled in auto)
  then show ?case using Cons.prems(1) calm_trans [OF c] calm_refl by (simp add: Schedule_cases)
qed (simp add: calm_refl)

lemma SendUnreliable_calm:
  assumes n: "network_inv n" "linked n" and s: "con n (i, Destination m) = Some s" and m: "Delivery m \<noteq> ReliableOrdered"
  shows "calm n (snd (SendUnreliable i s m n))"
proof -
  define c k where "c = Destination m" and "k = length (Payload m)"
  define n1 where "n1 = update_connection i c (\<lambda>s. update_statistics (count_message k)
    (s\<lparr>UnreliableAttempts := saturating_increment (UnreliableAttempts s)\<rparr>)) n"
  have c1: "calm n n1"
    unfolding n1_def by (rule calm_update_connection) (simp add: stays_def update_statistics_def peer_def)
  obtain lost n2 where h2: "ProbabilityHit (UnreliableLossProbability (Configuration n)) n1 = (lost, n2)" by fastforce
  obtain duplicate n3 where h3: "ProbabilityHit (UnreliableDuplicationProbability (Configuration n)) n2 = (duplicate, n3)" by fastforce
  have r2: "redrawn n1 n2" by (rule ProbabilityHit_redrawn [OF h2])
  have r3: "redrawn n1 n3" by (rule redrawn_trans [OF r2 ProbabilityHit_redrawn [OF h3]])
  define copies where "copies = (if duplicate then [False, True] else [False])"
  define free where "free = (MaximumQueuedUnreliableMessages (Configuration n) + 2 ^ 32 - QueuedUnreliableMessages s) mod 2 ^ 32"
  note unfold = SendUnreliable_def Let_def c_def [symmetric] k_def [symmetric] n1_def [symmetric] h2 prod.case h3
    copies_def [symmetric] free_def [symmetric]
  have c2: "calm n n2" and c3: "calm n n3" using calm_trans [OF c1 calm_redrawn] r2 r3 by blast+
  have drops: "calm n (update_connection i c RecordUnreliableDrop n2)" "calm n (update_connection i c RecordUnreliableDrop n3)"
    using calm_trans [OF c2 calm_drop] calm_trans [OF c3 calm_drop] by blast+
  show ?thesis
  proof (cases "prepare_copies i s m copies (NextSendAvailable s) n3")
    case None
    then show ?thesis unfolding unfold using drops calm_refl by simp
  next
    case (Some x)
    then obtain items available n4 where p: "prepare_copies i s m copies (NextSendAvailable s) n3 = Some (items, available, n4)"
      by (cases x) auto
    note p' = prepare_copies_redrawn [OF p]
    define n5 where "n5 = update_connection i c (\<lambda>s. s\<lparr>NextSendAvailable := available\<rparr>) n4"
    have "calm n4 n5" unfolding n5_def by (rule calm_update_connection) (simp add: stays_def peer_def)
    then have c5: "calm n n5" using calm_trans [OF c1 calm_trans [OF calm_redrawn]] r3 p' redrawn_trans by blast
    have "fresh_keys n5"
      using inv_fresh [OF n(1)] redrawn_fields [OF redrawn_trans [OF r3 conjunct1 [OF p']]] by (simp add: fresh_keys_def n5_def n1_def)
    then have c6: "calm n5 (snd (schedule_all items n5))"
    proof (rule calm_schedule_all)
      fix item assume "item \<in> set items"
      then obtain due d where item: "item = message_item i s m due d" using p' by blast
      then have "addressed n item"
        using s unfolding addressed_def by (simp add: message_item_def source_def target_def peer_def)
      then show "ItemDelivery item \<noteq> ReliableOrdered \<and> addressed n5 item" using calm_addressed [OF c5] m item by simp
    qed
    have c7: "calm n (update_connection i c RecordUnreliableDrop (snd (schedule_all items n5)))"
      by (rule calm_trans [OF calm_trans [OF c5 c6] calm_drop])
    have c8: "calm n (update_connection i c (\<lambda>s. s\<lparr>QueuedUnreliableMessages := QueuedUnreliableMessages s + l\<rparr>) (snd (schedule_all items n5)))" for l
      by (rule calm_trans [OF calm_trans [OF c5 c6] calm_update_connection]) (simp add: stays_def peer_def)
    show ?thesis
      unfolding unfold p option.case n5_def [symmetric] using drops c7 c8 by (simp add: prod.case_eq_if bool.case_eq_if)
  qed
qed

lemma Send_ordered:
  assumes n: "network_inv n" and o: "ordered (\<lambda>_. []) n sent polled"
  shows "ordered (\<lambda>_. []) (snd (Send i m n)) (log_sent i m n sent) polled"
proof (cases "con n (i, Destination m)")
  case None
  then have "snd (Send i m n) = n"
    by (auto simp: Send_def con_def connection_of_def split: option.split)
  then show ?thesis using None o by (simp add: log_sent_def)
next
  case (Some s)
  then obtain t where t: "FindTransport n i = Some t" "map_of (Connections t) (Destination m) = Some s" by (auto simp: con_cases)
  have l: "linked n" using o unfolding ordered_def by blast
  show ?thesis
  proof (cases "Send i m n = SendReliable i s m n \<and> CurrentState s = Connected \<and> Delivery m = ReliableOrdered")
    case True
    then show ?thesis using SendReliable_ordered [OF n o Some] by (simp add: log_sent_def Some)
  next
    case False
    then have "Send i m n = SendUnreliable i s m n \<and> Delivery m \<noteq> ReliableOrdered \<or> snd (Send i m n) = n \<and> Status (fst (Send i m n)) \<noteq> Succeeded"
      unfolding Send_def t option.case by (auto simp: Operation_def)
    then show ?thesis
      using calm_ordered [OF SendUnreliable_calm [OF n l Some] o] o by (auto simp: log_sent_def Some)
  qed
qed

section \<open>Starting\<close>

definition slots_ok :: "SimulatedTransportState \<Rightarrow> bool" where
  "slots_ok t \<longleftrightarrow> (\<forall>slot \<in> set (FreeSlots t). unat slot < length (Generations t))"

text \<open>Steps that change what a transport has handed out, but neither connections nor messages.\<close>

lemma reissued_ordered:
  assumes o: "ordered taken n sent polled"
    and f: "\<And>t. FindTransport n i = Some t \<Longrightarrow> Connections (f t) = Connections t \<and> Events (f t) = Events t \<and>
      (slots_ok t \<longrightarrow> slots_ok (f t) \<and> (\<forall>c. handed_out t c \<longrightarrow> handed_out (f t) c))"
  shows "ordered taken (update_transport i f n) sent polled" (is "ordered taken ?n sent polled")
proof -
  have con: "con ?n x = con n x" for x by (rule con_update_transport) (use f in blast)
  have pending: "pending ?n x = pending n x" for x using f by (simp add: pending_def split: option.split)
  have same: "Links ?n = Links n" "Scheduled ?n = Scheduled n" "NextTransportId ?n = NextTransportId n" "line ?n x = line n x" for x
    by (simp_all add: line_def)
  from o have n: "linked n" "timed n" "activated n" "issued n sent" unfolding ordered_def by blast+
  have "linked ?n" "timed ?n" "activated ?n"
    using n(1-3) unfolding linked_def timed_def activated_def addressed_def con same by blast+
  moreover have "issued ?n sent"
    unfolding issued_def same
  proof (intro conjI allI impI)
    fix x assume "sent x \<noteq> []" then show "fst x < NextTransportId n" using n(4) unfolding issued_def by blast
  next
    fix j t' assume "FindTransport ?n j = Some t'"
    then obtain t where t: "FindTransport n j = Some t" "Connections t' = Connections t"
      "slots_ok t \<longrightarrow> slots_ok t' \<and> (\<forall>c. handed_out t c \<longrightarrow> handed_out t' c)"
      using f by (auto split: if_splits)
    then show "\<forall>slot \<in> set (FreeSlots t'). unat slot < length (Generations t')"
      using n(4) unfolding issued_def slots_ok_def by blast
    fix c assume "sent (j, c) \<noteq> [] \<or> map_of (Connections t') c \<noteq> None"
    then show "handed_out t' c" using n(4) t unfolding issued_def slots_ok_def by metis
  qed
  moreover have "in_service ?n x = in_service n x" for x unfolding in_service_def con ..
  ultimately show ?thesis using o unfolding ordered_def pending same by blast
qed

lemma issued_slots: "issued n sent \<Longrightarrow> FindTransport n i = Some t \<Longrightarrow> slots_ok t"
  unfolding issued_def slots_ok_def by blast

lemma issued_handed_out:
  assumes "issued n sent" "FindTransport n i = Some t" "\<not> handed_out t c"
  shows "con n (i, c) = None \<and> sent (i, c) = []"
  using assms(1,3) assms(2) unfolding issued_def con_found [OF assms(2)] by blast

lemma ReleaseConnection_ordered:
  "ordered taken n sent polled \<Longrightarrow> ordered taken (update_transport i (ReleaseConnection c) n) sent polled"
  by (rule reissued_ordered) (auto simp: ReleaseConnection_def slots_ok_def handed_out_def)

lemma allocate_free_fresh:
  assumes "\<forall>slot \<in> set free. unat slot < length gs" "allocate_free free gs = (c, free', gs')"
  shows "(\<forall>slot \<in> set free'. unat slot < length gs') \<and> length gs' = length gs \<and> (\<forall>k < length gs. gs ! k \<le> gs' ! k) \<and>
    (\<forall>x. c = Some x \<longrightarrow> unat (ConnectionSlot x) < length gs' \<and> ConnectionGeneration x = gs' ! unat (ConnectionSlot x) \<and>
       gs ! unat (ConnectionSlot x) < ConnectionGeneration x)"
  using assms
proof (induction free gs rule: allocate_free.induct)
  case (2 slot rest generations)
  show ?case
  proof (cases "generations ! unat slot = 0xffffffff")
    case False
    then have "generations ! unat slot < generations ! unat slot + 1" using word_inc_bounds by blast
    then show ?thesis using 2 False by (auto simp: nth_list_update)
  qed (use 2 in auto)
qed auto

lemma AllocateConnection_fresh:
  assumes "slots_ok t" "AllocateConnection t = (c, u)"
  shows "slots_ok u" "handed_out t k \<Longrightarrow> handed_out u k" "c = Some x \<Longrightarrow> handed_out u x \<and> \<not> handed_out t x"
proof -
  obtain c' free gs where a: "allocate_free (FreeSlots t) (Generations t) = (c', free, gs)" by (cases "allocate_free (FreeSlots t) (Generations t)")
  note f = allocate_free_fresh [OF assms(1) [unfolded slots_ok_def] a]
  consider (some) x where "c' = Some x" "c = Some x" "u = t\<lparr>FreeSlots := free, Generations := gs\<rparr>"
    | (full) "c' = None" "c = None" "u = t\<lparr>FreeSlots := free, Generations := gs\<rparr>"
    | (new) "c' = None" "length gs \<le> 0xffffffff" "c = Some (ConnectionId (word_of_nat (length gs)) 1)"
        "u = t\<lparr>FreeSlots := free, Generations := gs @ [1]\<rparr>"
    using assms(2) a unfolding AllocateConnection_def by (auto simp: Let_def split: option.splits if_splits)
  then have "slots_ok u \<and> (handed_out t k \<longrightarrow> handed_out u k) \<and> (c = Some x \<longrightarrow> handed_out u x \<and> \<not> handed_out t x)"
  proof cases
    case some then show ?thesis using f by (auto simp: slots_ok_def handed_out_def)
  next
    case full then show ?thesis using f by (auto simp: slots_ok_def handed_out_def)
  next
    case new
    then have "unat (word_of_nat (length gs) :: u32) = length gs" by (simp add: unat_of_nat)
    then show ?thesis using f new by (fastforce simp: slots_ok_def handed_out_def nth_append)
  qed
  then show "slots_ok u" "handed_out t k \<Longrightarrow> handed_out u k" "c = Some x \<Longrightarrow> handed_out u x \<and> \<not> handed_out t x" by blast+
qed

lemma map_of_emplace: "k \<notin> fst ` set m \<Longrightarrow> map_of (map_emplace k v m) j = (if j = k then Some v else map_of m j)"
proof -
  assume k: "k \<notin> fst ` set m"
  have "map_of (insort_key fst (k, v) m) j = (if j = k then Some v else map_of m j)"
    using k by (induction m) auto
  then show ?thesis using k by (simp add: map_emplace_def)
qed

lemma con_add:
  assumes "con n (i, c) = None" "FindTransport n i = Some t"
  shows "con (update_transport i (add_connection c s) n) x = (if x = (i, c) then Some s else con n x)"
proof -
  have "c \<notin> fst ` set (Connections t)" using assms by (metis con_found map_of_eq_None_iff)
  then show ?thesis using assms(2)
    by (cases x) (auto simp: con_def connection_of_def add_connection_def map_of_emplace split: option.split)
qed

lemma pending_add: "pending (update_transport i (add_connection c s) n) x = pending n x"
  by (simp add: pending_def add_connection_def split: option.split)

lemma register_ordered:
  assumes n: "network_inv n" and o: "ordered (\<lambda>_. []) n sent polled"
    and i: "FindTransport n i = Some t" "handed_out t a" "con n (i, a) = None" "sent (i, a) = []"
    and j: "FindTransport n j = Some t'" "handed_out t' b" "con n (j, b) = None" "sent (j, b) = []" and ij: "i \<noteq> j"
    and s1: "LinkId s1 = NextLinkId n" "peer s1 = (j, b)" "CurrentState s1 = Connecting"
    and s2: "LinkId s2 = NextLinkId n" "peer s2 = (i, a)" "CurrentState s2 = Connecting"
    and n': "n' = (update_transport j (add_connection b s2) (update_transport i (add_connection a s1) (n\<lparr>NextLinkId := NextLinkId n + 1\<rparr>)))
      \<lparr>Links := map_emplace (NextLinkId n) \<lparr>FirstTransportId = i, FirstConnection = a, SecondTransportId = j, SecondConnection = b\<rparr> (Links n)\<rparr>"
  shows "ordered (\<lambda>_. []) n' sent polled"
proof -
  let ?l = "\<lparr>FirstTransportId = i, FirstConnection = a, SecondTransportId = j, SecondConnection = b\<rparr>"
  define m0 where "m0 = n\<lparr>NextLinkId := NextLinkId n + 1\<rparr>"
  define m1 where "m1 = update_transport i (add_connection a s1) m0"
  define m2 where "m2 = update_transport j (add_connection b s2) m1"
  have n': "n' = m2\<lparr>Links := map_emplace (NextLinkId n) ?l (Links n)\<rparr>" unfolding n' m0_def m1_def m2_def ..
  have f0: "FindTransport m0 k = FindTransport n k" for k by (simp add: m0_def FindTransport_def)
  have f1: "FindTransport m1 k = (if k = i then map_option (add_connection a s1) (FindTransport n k) else FindTransport n k)" for k
    by (simp add: m1_def f0)
  have f2: "FindTransport n' k = (if k = j then map_option (add_connection b s2) (FindTransport m1 k) else FindTransport m1 k)" for k
    by (simp add: n' m2_def FindTransport_def) (simp add: FindTransport_def [symmetric])
  have v0: "con m0 x = con n x" "pending m0 x = pending n x" for x
    by (simp_all add: con_def connection_of_def pending_def f0)
  have v1: "con m1 x = (if x = (i, a) then Some s1 else con n x)" "pending m1 x = pending n x" for x
    unfolding m1_def using con_add [of "m0" i a t] i v0 f0 by (simp_all add: pending_add)
  have v2: "con m2 x = (if x = (j, b) then Some s2 else con m1 x)" "pending m2 x = pending m1 x" for x
    unfolding m2_def using con_add [of m1 j b t'] j v1 f1 ij by (simp_all add: pending_add)
  have con: "con n' x = (if x = (i, a) then Some s1 else if x = (j, b) then Some s2 else con n x)" for x
  proof -
    have "con n' x = con m2 x" by (simp add: con_def connection_of_def n' FindTransport_def)
    then show ?thesis using v2(1) v1(1) ij by auto
  qed
  have pending: "pending n' x = pending n x" for x
  proof -
    have "pending n' x = pending m2 x" by (simp add: pending_def n' FindTransport_def)
    then show ?thesis using v2(2) v1(2) by simp
  qed
  have same: "Scheduled n' = Scheduled n" "NextTransportId n' = NextTransportId n" "line n' x = line n x" for x
    by (simp_all add: n' m2_def m1_def m0_def line_def)
  from o have inv: "linked n" "timed n" "activated n" "issued n sent" unfolding ordered_def by blast+
  have old: "x \<noteq> (i, a) \<and> x \<noteq> (j, b)" if "con n x = Some s" for x s using that i(3) j(3) by auto
  have below: "LinkId s < NextLinkId n" if "con n x = Some s" for x s
    using inv_connection_of [OF n] that unfolding con_def by (simp add: connection_inv_def)
  have unused: "NextLinkId n \<notin> fst ` set (Links n)"
  proof
    assume "NextLinkId n \<in> fst ` set (Links n)"
    then have "map_of (Links n) (NextLinkId n) \<noteq> None" by (simp add: map_of_eq_None_iff)
    then obtain l where "map_of (Links n) (NextLinkId n) = Some l" by blast
    from linked_occupied [OF inv(1) this, of "(FirstTransportId l, FirstConnection l)"]
    obtain s where s: "con n (FirstTransportId l, FirstConnection l) = Some s" "LinkId s = NextLinkId n" by (auto simp: ends_def)
    show False using below [OF s(1)] s(2) by simp
  qed
  have links: "map_of (Links n') k = (if k = NextLinkId n then Some ?l else map_of (Links n) k)" for k
    using map_of_emplace [OF unused] by (simp add: n')
  have item: "con n (source (snd e)) \<noteq> None \<and> con n (target (snd e)) \<noteq> None" if "e \<in> set (Scheduled n)" "Kind (snd e) = Message" for e
  proof -
    from linked_item [OF inv(1) that] obtain s where s: "con n (source (snd e)) = Some s" "peer s = target (snd e)"
      unfolding addressed_def by blast
    from linkedD [OF inv(1) s(1)] s show ?thesis by (metis option.distinct(1))
  qed
  have empty: "line n x = []" if "con n x = None" for x
  proof -
    have "\<not> carries x (snd e)" if "e \<in> set (Scheduled n)" for e
      using item [OF that] \<open>con n x = None\<close> unfolding carries_def by blast
    then show ?thesis by (simp add: line_def filter_empty_conv)
  qed
  have keep: "con n' x = con n x" if "con n x \<noteq> None" for x using that i(3) j(3) by (auto simp: con)
  have linked': "linked n'"
    unfolding linked_def same
  proof (intro conjI allI impI ballI)
    fix x s assume s: "con n' x = Some s"
    consider "x = (i, a)" "s = s1" | "x = (j, b)" "s = s2" | "con n x = Some s" using s unfolding con by (metis option.inject)
    then have "(\<exists>d. con n' (peer s) = Some d \<and> peer d = x \<and> LinkId d = LinkId s) \<and>
        (\<exists>l. map_of (Links n') (LinkId s) = Some l \<and> ends l = {x, peer s})"
    proof cases
      case 1 then show ?thesis using s1(1,2) s2(1,2) ij unfolding con links by (simp add: ends_def)
    next
      case 2 then show ?thesis using s1(1,2) s2(1,2) ij unfolding con links by (simp add: ends_def insert_commute)
    next
      case 3
      from linkedD [OF inv(1) 3] obtain d l where d: "con n (peer s) = Some d" "peer d = x" "LinkId d = LinkId s"
        and l: "map_of (Links n) (LinkId s) = Some l" "ends l = {x, peer s}" .
      then show ?thesis using old [OF d(1)] below [OF 3] by (simp add: con links)
    qed
    then show "\<exists>d. con n' (peer s) = Some d \<and> peer d = x \<and> LinkId d = LinkId s"
      "\<exists>l. map_of (Links n') (LinkId s) = Some l \<and> ends l = {x, peer s}" by blast+
  next
    fix link l x assume l: "map_of (Links n') link = Some l" "x \<in> ends l"
    show "\<exists>s. con n' x = Some s \<and> LinkId s = link"
    proof (cases "link = NextLinkId n")
      case True
      then show ?thesis using l s1 s2 ij unfolding links con by (auto simp: ends_def)
    next
      case False
      with l have m: "map_of (Links n) link = Some l" unfolding links by simp
      from linked_occupied [OF inv(1) m l(2)] obtain s where s: "con n x = Some s" "LinkId s = link" by blast
      then show ?thesis using old [OF s(1)] by (simp add: con)
    qed
  next
    fix e assume "e \<in> set (Scheduled n)" "Kind (snd e) = Message"
    from linked_item [OF inv(1) this] show "addressed n' (snd e)"
      unfolding addressed_def using keep [of "source (snd e)"] by auto
  qed
  have kept: "con n' (source (snd e)) = con n (source (snd e))" "con n' (target (snd e)) = con n (target (snd e))"
    if "e \<in> set (Scheduled n)" "carries (target (snd e)) (snd e)" for e
    using keep item that by (simp_all add: carries_def)
  note linked'
  moreover have "timed n'" using inv(2) kept unfolding timed_def same by simp
  moreover have "activated n'"
    unfolding activated_def same
  proof (intro conjI ballI allI impI)
    fix x s d assume s: "con n' x = Some s" "con n' (peer s) = Some d" "CurrentState s = Connected"
    then have x: "con n x = Some s" unfolding con using s1(3) s2(3) by (auto split: if_splits)
    from linkedD [OF inv(1) x] obtain d' where "con n (peer s) = Some d'" by blast
    then show "CurrentState d \<noteq> Connecting" using keep [of "peer s"] s activated_pair [OF inv(3) x] by simp
  next
    fix e s assume e: "e \<in> set (Scheduled n)" "carries (target (snd e)) (snd e)"
      "con n' (source (snd e)) = Some s \<or> con n' (target (snd e)) = Some s"
    then show "CurrentState s \<noteq> Connecting" using activated_item [OF inv(3) e(1,2)] kept [OF e(1,2)] by simp
  qed
  moreover have "issued n' sent"
    unfolding issued_def same
  proof (intro conjI allI impI)
    fix x assume "sent x \<noteq> []" then show "fst x < NextTransportId n" using inv(4) unfolding issued_def by blast
  next
    fix k u assume u: "FindTransport n' k = Some u"
    then obtain u0 where u0: "FindTransport n k = Some u0" "Generations u = Generations u0" "FreeSlots u = FreeSlots u0"
      by (auto simp: f2 f1 add_connection_def split: if_splits)
    show "\<forall>slot \<in> set (FreeSlots u). unat slot < length (Generations u)" using inv(4) u0 unfolding issued_def by simp
    fix c assume c: "sent (k, c) \<noteq> [] \<or> map_of (Connections u) c \<noteq> None"
    have "map_of (Connections u) c \<noteq> None \<Longrightarrow> map_of (Connections u0) c \<noteq> None \<or> (k, c) = (i, a) \<or> (k, c) = (j, b)"
      using con [of "(k, c)"] unfolding con_found [OF u] con_found [OF u0(1)] by (simp split: if_splits)
    then consider "sent (k, c) \<noteq> [] \<or> map_of (Connections u0) c \<noteq> None" | "k = i" "c = a" | "k = j" "c = b" using c by blast
    then have "handed_out u0 c"
      by cases (use inv(4) u0(1) i(1,2) j(1,2) in \<open>auto simp: issued_def\<close>)
    then show "handed_out u c" using u0 by (simp add: handed_out_def)
  qed
  moreover have "prefix (polled x @ pending n x) (sent x) \<and> (in_service n' x \<longrightarrow> sent x = polled x @ pending n x @ line n x)" for x
  proof (intro conjI impI)
    show p: "prefix (polled x @ pending n x) (sent x)" using o unfolding ordered_def by blast
    assume service: "in_service n' x"
    show "sent x = polled x @ pending n x @ line n x"
    proof (cases "con n x")
      case None
      have "con n' x \<noteq> None" using service unfolding in_service_def by blast
      then have "sent x = []" using None i(4) j(4) by (auto simp: con split: if_splits)
      then show ?thesis using p empty [OF None] by simp
    next
      case (Some d)
      from linkedD [OF inv(1) Some] obtain r where "con n (peer d) = Some r" by blast
      then have "in_service n x" using service keep Some unfolding in_service_def by auto
      then show ?thesis using o unfolding ordered_def by simp
    qed
  qed
  ultimately show ?thesis unfolding ordered_def pending same by simp
qed

lemma schedule_link_ordered:
  assumes n: "network_inv n" "link < NextLinkId n" and o: "ordered (\<lambda>_. []) n sent polled"
  shows "ordered (\<lambda>_. []) (snd (schedule_link i k link timeout n)) sent polled"
proof -
  define a where "a = default_item\<lparr>Kind := Activate, At := CurrentTime n, ItemLink := link\<rparr>"
  define b where "b = default_item\<lparr>Kind := Disconnection, At := timeout, ItemLink := link,
    ItemDisconnect := DisconnectInfo Timeout (ascii ''Simulated connection lifetime expired'')\<rparr>"
  have n1: "network_inv (snd (Schedule a n))" using n by (intro Schedule_inv) (simp_all add: a_def)
  have o1: "ordered (\<lambda>_. []) (snd (Schedule a n)) sent polled"
    by (rule calm_ordered [OF calm_Schedule o]) (simp_all add: inv_fresh n a_def)
  have o2: "ordered (\<lambda>_. []) (snd (Schedule b (snd (Schedule a n)))) sent polled"
    by (rule calm_ordered [OF calm_Schedule o1]) (simp_all add: inv_fresh n1 b_def)
  show ?thesis
    unfolding schedule_link_def a_def [symmetric] b_def [symmetric]
    using CloseLink_ordered [OF o1] CloseLink_ordered [OF o2] calm_ordered [OF calm_mark o1] calm_ordered [OF calm_mark o2]
    by (simp add: prod.case_eq_if bool.case_eq_if)
qed

lemma open_link_ordered:
  assumes n: "network_inv n" and o: "ordered (\<lambda>_. []) n sent polled"
    and i: "FindTransport n i = Some t" "HasEventCapacityWithReservations n t 4"
    and j: "FindTransport n j = Some t'" "HasEventCapacityWithReservations n t' 4" and ij: "i \<noteq> j"
    and links: "length (Links n) < MaximumConnections (Configuration n)"
  shows "ordered (\<lambda>_. []) (snd (open_link i j k limits timeout n)) sent polled"
proof -
  obtain a u where a: "AllocateConnection t = (a, u)" by fastforce
  obtain b u' where b: "AllocateConnection t' = (b, u')" by fastforce
  note same = AllocateConnection_fields [OF a] AllocateConnection_fields [OF b]
  define n0 where "n0 = update_transport i (\<lambda>_. u) n"
  define n1 where "n1 = update_transport j (\<lambda>_. u') n0"
  from o have issued: "issued n sent" unfolding ordered_def by blast
  note slots = issued_slots [OF issued i(1)] issued_slots [OF issued j(1)]
  note fresh_a = AllocateConnection_fresh [OF slots(1) a] and fresh_b = AllocateConnection_fresh [OF slots(2) b]
  have o0: "ordered (\<lambda>_. []) n0 sent polled"
    unfolding n0_def by (rule reissued_ordered [OF o]) (use i(1) same fresh_a(1,2) in simp)
  have j0: "FindTransport n0 j = Some t'" using j ij by (simp add: n0_def)
  have o1: "ordered (\<lambda>_. []) n1 sent polled"
    unfolding n1_def by (rule reissued_ordered [OF o0]) (use j0 same fresh_b(1,2) in simp)
  have n0: "network_inv n0" unfolding n0_def by (rule inv_update_same [OF n]) (use i same in simp)
  have n1: "network_inv n1" unfolding n1_def by (rule inv_update_same [OF n0]) (use j0 same in simp)
  have found: "FindTransport n1 i = Some u" "FindTransport n1 j = Some u'" using i j0 ij by (simp_all add: n1_def n0_def)
  have con: "con n1 x = con n x" for x
  proof -
    have "con n1 x = con n0 x" unfolding n1_def by (rule con_update_transport) (use j0 same in simp)
    moreover have "con n0 x = con n x" unfolding n0_def by (rule con_update_transport) (use i same in simp)
    ultimately show ?thesis by simp
  qed
  have room: "HasEventCapacityWithReservations n1 u 4" "HasEventCapacityWithReservations n1 u' 4"
    using i(2) j(2) same by (simp_all add: capacity_iff n1_def n0_def ReservedLifecycleEventCapacity_def)
  have "ordered (\<lambda>_. []) (snd (register_link i j x y k limits timeout n1)) sent polled"
    if x: "a = Some x" and y: "b = Some y" for x y
  proof -
    define s1 where "s1 = new_connection (NextLinkId n1) y j limits (BaseLatency (Configuration n1))"
    define s2 where "s2 = new_connection (NextLinkId n1) x i limits (BaseLatency (Configuration n1))"
    define n3 where "n3 = (update_transport j (add_connection y s2) (update_transport i (add_connection x s1) (n1\<lparr>NextLinkId := NextLinkId n1 + 1\<rparr>)))
      \<lparr>Links := map_emplace (NextLinkId n1) \<lparr>FirstTransportId = i, FirstConnection = x, SecondTransportId = j, SecondConnection = y\<rparr> (Links n1)\<rparr>"
    have n3: "network_inv n3"
    proof -
      have l: "length (Links n1) < MaximumConnections (Configuration n1)" using links by (simp add: n1_def n0_def)
      show ?thesis
        using register_link_core [OF n1 found(1) room(1) found(2) room(2) ij l] unfolding n3_def s1_def s2_def .
    qed
    have "ordered (\<lambda>_. []) n3 sent polled"
    proof (rule register_ordered [OF n1 o1 found(1) _ _ _ found(2) _ _ _ ij _ _ _ _ _ _ n3_def])
      show "handed_out u x" "handed_out u' y" using fresh_a(3) fresh_b(3) x y by blast+
      show "con n1 (i, x) = None" "sent (i, x) = []"
        using issued_handed_out [OF issued i(1)] fresh_a(3) x con by simp_all
      show "con n1 (j, y) = None" "sent (j, y) = []"
        using issued_handed_out [OF issued j(1)] fresh_b(3) y con by simp_all
    qed (simp_all add: s1_def s2_def new_connection_def peer_def)
    moreover have "register_link i j x y k limits timeout n1 = schedule_link i k (NextLinkId n1) timeout n3"
      by (simp add: register_link_def Let_def n3_def s1_def s2_def)
    moreover have "NextLinkId n1 < NextLinkId n3" by (simp add: n3_def)
    ultimately show ?thesis using schedule_link_ordered [OF n3] by simp
  qed
  then show ?thesis
    unfolding open_link_def i(1) option.map option.case a prod.case Let_def n0_def [symmetric] j0 b n1_def [symmetric]
    using o1 o ReleaseConnection_ordered by (simp split: option.split)
qed

lemma calm_servers: "calm n (n\<lparr>Servers := x\<rparr>)"
  by (rule calm_same) simp_all

lemma Start_ordered:
  assumes n: "network_inv n" and o: "ordered (\<lambda>_. []) n sent polled"
  shows "ordered (\<lambda>_. []) (snd (Start i k n)) sent polled"
proof (cases "FindTransport n i")
  case (Some t)
  have client: "ordered (\<lambda>_. []) (snd (StartClient i k t n)) sent polled" if "\<not> Started t"
  proof -
    have "ordered (\<lambda>_. []) (snd (open_link i j k limits timeout n)) sent polled"
      if "FindTransport n j = Some t'" "Started t'" "length (Links n) < MaximumConnections (Configuration n)"
        "HasEventCapacityWithReservations n t 4" "HasEventCapacityWithReservations n t' 4" for j t' limits timeout
      using open_link_ordered [OF n o Some that(4,1,5)] that \<open>\<not> Started t\<close> Some by (metis option.inject)
    then show ?thesis unfolding StartClient_def using o by (simp add: not_le split: option.split)
  qed
  have "ordered (\<lambda>_. []) ((update_transport i (mark_started k) n)\<lparr>Servers := x\<rparr>) sent polled" for x
    by (rule calm_ordered [OF calm_servers calm_ordered [OF calm_mark o]])
  then show ?thesis unfolding Start_def Some option.case using o client by simp
qed (simp add: Start_def o)

section \<open>The other operations\<close>

lemma calm_close_all:
  "calm n (update_transport i (\<lambda>t. t\<lparr>Started := False, Connections := map (\<lambda>e. (fst e, close_connection (snd e))) (Connections t)\<rparr>) n)"
  (is "calm n ?n")
proof (rule calmI)
  have m: "map_of (map (\<lambda>e. (fst e, close_connection (snd e))) cs) c = map_option close_connection (map_of cs c)" for cs :: "(ConnectionId \<times> SimulatedConnection) list" and c
    by (induction cs) auto
  have "con ?n x = (if fst x = i then map_option close_connection (con n x) else con n x)" for x
    by (auto simp: con_def connection_of_def m split: option.split)
  then show "rel_option stays (con n x) (con ?n x)" for x
    by (cases "con n x") (auto simp: stays_refl, simp add: stays_def close_connection_def peer_def)
  show "pending ?n x = pending n x" for x by (simp add: pending_def split: option.split)
  show "map_option (\<lambda>t. (Generations t, FreeSlots t)) (FindTransport ?n j) =
      map_option (\<lambda>t. (Generations t, FreeSlots t)) (FindTransport n j)" for j
    by (simp add: option.map_comp comp_def)
qed (simp_all add: line_def)

lemma calm_disconnects:
  "fresh_keys n \<Longrightarrow> calm n (fold (\<lambda>e n. snd (Schedule (disconnect_item i (fst e) (LinkId (snd e)) (CurrentTime n) d) n)) es n)"
proof (induction es arbitrary: n)
  case (Cons e es)
  let ?n = "snd (Schedule (disconnect_item i (fst e) (LinkId (snd e)) (CurrentTime n) d) n)"
  have "fresh_keys ?n" using Cons.prems by (simp add: Schedule_cases fresh_scheduled)
  moreover have "calm n ?n" by (rule calm_Schedule [OF Cons.prems]) simp
  ultimately show ?case using Cons.IH calm_trans by simp
qed (simp add: calm_refl)

lemma Stop_ordered:
  assumes n: "network_inv n" and o: "ordered (\<lambda>_. []) n sent polled"
  shows "ordered (\<lambda>_. []) (snd (Stop i d n)) sent polled"
proof (cases "FindTransport n i")
  case (Some t)
  let ?close = "\<lambda>t. t\<lparr>Started := False, Connections := map (\<lambda>e. (fst e, close_connection (snd e))) (Connections t)\<rparr>"
  have "calm n (fold (\<lambda>e n. snd (Schedule (disconnect_item i (fst e) (LinkId (snd e)) (CurrentTime n) d) n)) (Connections t)
      (update_transport i ?close n1))" if "calm n n1" "Scheduled n1 = Scheduled n" "NextTieBreaker n1 = NextTieBreaker n" for n1
    by (rule calm_trans [OF calm_trans [OF that(1) calm_close_all] calm_disconnects])
      (use that inv_fresh [OF n] in \<open>simp add: fresh_keys_def\<close>)
  then have "calm n (snd (Stop i d n))"
    unfolding Stop_def Some option.case Let_def using calm_refl calm_servers by simp
  then show ?thesis using o by (rule calm_ordered)
qed (simp add: Stop_def o)

lemma Disconnect_ordered:
  assumes n: "network_inv n" and o: "ordered (\<lambda>_. []) n sent polled"
  shows "ordered (\<lambda>_. []) (snd (Disconnect i c d n)) sent polled"
proof -
  have "calm n (snd (Schedule (disconnect_item i c l a d) (update_connection i c close_connection n)))" for l a
    by (rule calm_trans [OF calm_close_connection calm_Schedule]) (simp_all add: inv_fresh inv_close_connection n)
  then have "calm n (snd (Disconnect i c d n))"
    unfolding Disconnect_def using calm_refl by (simp split: option.split)
  then show ?thesis using o by (rule calm_ordered)
qed

lemma ScheduleDisconnect_ordered:
  assumes n: "network_inv n" and o: "ordered (\<lambda>_. []) n sent polled"
  shows "ordered (\<lambda>_. []) (snd (ScheduleDisconnect i c delay d n)) sent polled"
proof -
  have "calm n (snd (Schedule (disconnect_item i c l a d) n))" for l a
    by (rule calm_Schedule) (simp_all add: inv_fresh n)
  then have "calm n (snd (ScheduleDisconnect i c delay d n))"
    unfolding ScheduleDisconnect_def using calm_refl by (simp add: prod.case_eq_if bool.case_eq_if split: option.split)
  then show ?thesis using o by (rule calm_ordered)
qed

text \<open>What a step leaves alone that changes the transports but no connection.\<close>

lemma kept_invariants:
  assumes o: "ordered taken n sent polled" and con: "\<And>x. con n' x = con n x" and same: "Links n' = Links n" "Scheduled n' = Scheduled n"
  shows "linked n' \<and> timed n' \<and> activated n' \<and> line n' x = line n x \<and> in_service n' x = in_service n x"
  using o unfolding ordered_def linked_def timed_def activated_def addressed_def in_service_def line_def con same by blast

lemma erase_ordered:
  assumes o: "ordered (\<lambda>_. []) n sent polled" and gone: "\<And>c. con n (i, c) = None"
  shows "ordered (\<lambda>_. []) (n\<lparr>Transports := map_erase i (Transports n)\<rparr>) sent polled" (is "ordered _ ?n sent polled")
proof -
  have f: "FindTransport ?n j = (if j = i then None else FindTransport n j)" for j
    by (simp add: FindTransport_def map_of_erase)
  have con: "con ?n x = con n x" for x
    using gone [of "snd x"] by (cases x) (simp add: con_def connection_of_def f)
  have same: "Links ?n = Links n" "Scheduled ?n = Scheduled n" "NextTransportId ?n = NextTransportId n" by simp_all
  note k = kept_invariants [OF o con same(1,2)]
  have "issued ?n sent" using o unfolding ordered_def issued_def same f by simp
  moreover have "prefix (polled x @ pending ?n x) (sent x)" for x
  proof -
    have "pending ?n x = [] \<or> pending ?n x = pending n x" by (simp add: pending_def f)
    moreover have "prefix (polled x @ pending n x) (sent x)" using o unfolding ordered_def by blast
    ultimately show ?thesis using append_prefixD by auto
  qed
  moreover have "pending ?n x = pending n x" if "in_service ?n x" for x
  proof -
    have "con n x \<noteq> None" using that unfolding in_service_def con by blast
    then have "fst x \<noteq> i" using gone [of "snd x"] by (cases x) auto
    then show ?thesis by (simp add: pending_def f)
  qed
  ultimately show ?thesis using o k unfolding ordered_def by metis
qed

lemma close_links_ordered:
  "ordered taken n sent polled \<Longrightarrow> ordered taken (fold (\<lambda>link. CloseLink link i d) links n) sent polled"
  by (induction links arbitrary: n) (simp_all add: CloseLink_ordered)

lemma close_links_con:
  "ordered taken n sent polled \<Longrightarrow> con (fold (\<lambda>link. CloseLink link i d) links n) x = Some s \<Longrightarrow>
     con n x = Some s \<and> LinkId s \<notin> set links"
proof (induction links arbitrary: n)
  case (Cons link links)
  have linked: "linked n" using Cons.prems(1) unfolding ordered_def by blast
  from Cons.IH [OF CloseLink_ordered [OF Cons.prems(1)]] Cons.prems(2)
  have s: "con (CloseLink link i d n) x = Some s" "LinkId s \<notin> set links" by simp_all
  show ?case
  proof (cases "map_of (Links n) link")
    case None
    then have "con n x = Some s" using s(1) by (simp add: CloseLink_none)
    moreover from this have "LinkId s \<noteq> link" using linkedD [OF linked] None by fastforce
    ultimately show ?thesis using s(2) by simp
  next
    case (Some l)
    then have "con n x = Some s" "x \<notin> ends l" using s(1) CloseLink_views(1) [OF Some, where i = i and d = d] by (simp_all split: if_splits)
    then show ?thesis using s(2) linked_apart(1) [OF linked Some] by simp
  qed
qed simp

lemma delete_ordered:
  assumes o: "ordered (\<lambda>_. []) n sent polled"
  shows "ordered (\<lambda>_. []) (delete_SimulatedTransport i n) sent polled"
proof (cases "FindTransport n i")
  case (Some t)
  define d where "d = DisconnectInfo DisconnectTransportFailure (ascii ''Simulated transport destroyed'')"
  define links where "links = map (\<lambda>e. LinkId (snd e)) (Connections t)"
  define n1 where "n1 = fold (\<lambda>link. CloseLink link i d) links n"
  have o1: "ordered (\<lambda>_. []) n1 sent polled" unfolding n1_def by (rule close_links_ordered [OF o])
  have gone: "con n1 (i, c) = None" for c
  proof (rule ccontr)
    assume "con n1 (i, c) \<noteq> None"
    then obtain s where "con n1 (i, c) = Some s" by blast
    from close_links_con [OF o this [unfolded n1_def]] have "map_of (Connections t) c = Some s" "LinkId s \<notin> set links"
      using con_found [OF Some] by simp_all
    moreover from this(1) have "(c, s) \<in> set (Connections t)" by (rule map_of_SomeD)
    ultimately show False unfolding links_def by force
  qed
  have erased: "ordered (\<lambda>_. []) (m\<lparr>Transports := map_erase i (Transports m)\<rparr>) sent polled" if "calm n1 m" "\<And>c. con m (i, c) = None" for m
    by (rule erase_ordered [OF calm_ordered [OF that(1) o1] that(2)])
  have "con (n1\<lparr>Servers := x\<rparr>) y = con n1 y" for x y by (simp add: con_def connection_of_def FindTransport_def)
  then show ?thesis
    unfolding delete_SimulatedTransport_def Some option.case Let_def d_def [symmetric] links_def [symmetric] n1_def [symmetric]
    using erased [OF calm_refl gone] erased [OF calm_servers] gone by (simp split: if_split)
qed (simp add: delete_SimulatedTransport_def o)

lemma CreateTransport_ordered:
  assumes n: "network_inv n" and o: "ordered (\<lambda>_. []) n sent polled"
  shows "ordered (\<lambda>_. []) (snd (CreateTransport n)) sent polled"
proof (cases "length (Transports n) \<ge> MaximumTransports (Configuration n) \<or> NextTransportId n = u64_max")
  case False
  let ?k = "NextTransportId n"
  define n' where "n' = n\<lparr>NextTransportId := ?k + 1, Transports := map_emplace ?k new_SimulatedTransportState (Transports n)\<rparr>"
  have fresh: "?k \<notin> fst ` set (Transports n)" using n by (auto simp: network_inv_def)
  have f: "FindTransport n' j = (if j = ?k then Some new_SimulatedTransportState else FindTransport n j)" for j
    using map_of_emplace [OF fresh] by (simp add: n'_def FindTransport_def)
  have none: "FindTransport n ?k = None" using fresh by (simp add: FindTransport_def map_of_eq_None_iff)
  have con: "con n' x = con n x" and pending: "pending n' x = pending n x" for x
    using none by (cases x; simp add: con_def connection_of_def pending_def f new_SimulatedTransportState_def)+
  have same: "Links n' = Links n" "Scheduled n' = Scheduled n" by (simp_all add: n'_def)
  note k = kept_invariants [OF o con same]
  have "issued n' sent"
    unfolding issued_def
  proof (intro conjI allI impI)
    have i: "issued n sent" using o unfolding ordered_def by blast
    fix x assume "sent x \<noteq> []"
    then have "fst x < ?k" using i unfolding issued_def by blast
    then show "fst x < NextTransportId n'" by (simp add: n'_def)
  next
    have i: "issued n sent" using o unfolding ordered_def by blast
    fix j t assume t: "FindTransport n' j = Some t"
    show "\<forall>slot \<in> set (FreeSlots t). unat slot < length (Generations t)"
      using t i unfolding issued_def f by (simp add: new_SimulatedTransportState_def split: if_splits) auto
    fix c assume c: "sent (j, c) \<noteq> [] \<or> map_of (Connections t) c \<noteq> None"
    show "handed_out t c"
    proof (cases "j = ?k")
      case True
      then have "sent (j, c) = []" using i unfolding issued_def by (metis fst_conv less_irrefl)
      then show ?thesis using c t True by (auto simp: f new_SimulatedTransportState_def)
    next
      case False then show ?thesis using t c i unfolding issued_def f by simp
    qed
  qed
  then have "ordered (\<lambda>_. []) n' sent polled" using o k unfolding ordered_def pending by metis
  then show ?thesis unfolding CreateTransport_def if_not_P [OF False] n'_def by simp
qed (simp add: CreateTransport_def o)

definition log_polled :: "nat \<Rightarrow> nat \<Rightarrow> SimulatedNetworkState \<Rightarrow> log \<Rightarrow> log" where
  "log_polled i k n polled =
     (\<lambda>x. if fst x = i then polled x @ filter (reliable_at (snd x)) (fst (PollEvents i k n)) else polled x)"

lemma PollEvents_ordered:
  assumes o: "ordered (\<lambda>_. []) n sent polled"
  shows "ordered (\<lambda>_. []) (snd (PollEvents i k n)) sent (log_polled i k n polled)"
proof (cases "FindTransport n i")
  case (Some t)
  define a where "a = min k (length (Events t))"
  define n' where "n' = update_transport i (\<lambda>t. t\<lparr>Events := drop a (Events t)\<rparr>) n"
  have p: "PollEvents i k n = (take a (Events t), n')"
    by (simp add: PollEvents_def Some a_def n'_def Let_def)
  have con: "con n' x = con n x" for x unfolding n'_def by (rule con_update_transport) simp
  have same: "Links n' = Links n" "Scheduled n' = Scheduled n" "NextTransportId n' = NextTransportId n" by (simp_all add: n'_def)
  have moved: "log_polled i k n polled x @ pending n' x = polled x @ pending n x" for x
    using Some by (cases "fst x = i") (simp_all add: log_polled_def p n'_def pending_def filter_append [symmetric] del: filter_append)
  note inv = kept_invariants [OF o con same(1,2)]
  have "issued n' sent" using o Some unfolding ordered_def issued_def same by (auto simp: n'_def handed_out_def split: if_splits)
  then show ?thesis
    unfolding p snd_conv using o inv moved unfolding ordered_def by (metis append.assoc)
next
  case None
  then have "log_polled i k n polled = polled" by (intro ext) (simp add: log_polled_def PollEvents_def)
  then show ?thesis using None o by (simp add: PollEvents_def)
qed

section \<open>Histories\<close>

text \<open>One call of an operation, with the logs of what was sent and polled.\<close>

type_synonym history = "SimulatedNetworkState \<times> log \<times> log"

inductive history_step :: "history \<Rightarrow> history \<Rightarrow> bool" where
  "history_step (n, sent, polled) (snd (CreateTransport n), sent, polled)"
| "history_step (n, sent, polled) (snd (Advance d n), sent, polled)"
| "history_step (n, sent, polled) (snd (Pump n), sent, polled)"
| "history_step (n, sent, polled) (snd (Start i configuration n), sent, polled)"
| "history_step (n, sent, polled) (snd (Stop i information n), sent, polled)"
| "history_step (n, sent, polled) (snd (Disconnect i connection information n), sent, polled)"
| "history_step (n, sent, polled) (snd (ScheduleDisconnect i connection d information n), sent, polled)"
| "history_step (n, sent, polled) (snd (Send i message n), log_sent i message n sent, polled)"
| "history_step (n, sent, polled) (snd (PollEvents i k n), sent, log_polled i k n polled)"
| "history_step (n, sent, polled) (delete_SimulatedTransport i n, sent, polled)"

definition history_start :: "SimulatedTransportConfiguration \<Rightarrow> history \<Rightarrow> bool" where
  "history_start c h \<longleftrightarrow> Create c = Some (fst h) \<and> snd h = (\<lambda>_. [], \<lambda>_. [])"

definition history_inv :: "history \<Rightarrow> bool" where
  "history_inv h \<longleftrightarrow> network_inv (fst h) \<and> ordered (\<lambda>_. []) (fst h) (fst (snd h)) (snd (snd h))"

lemma calm_Advance: "calm n (snd (Advance d n))"
  unfolding Advance_def by (auto intro: calm_same split: option.split)

lemma Create_ordered: "Create c = Some n \<Longrightarrow> ordered (\<lambda>_. []) n (\<lambda>_. []) (\<lambda>_. [])"
  by (auto simp: Create_def ordered_def linked_def timed_def activated_def issued_def con_def connection_of_def FindTransport_def
      pending_def line_def split: if_splits)

interpretation history: invariant_system "history_start c" history_step history_inv for c
proof unfold_locales
  fix h assume "history_start c h"
  then show "history_inv h" using Create_ordered Create_inv by (auto simp: history_start_def history_inv_def)
next
  fix h h' assume h: "history_inv h" and "history_step h h'"
  from this(2) show "history_inv h'"
    by cases (use h in \<open>simp_all add: history_inv_def CreateTransport_inv Advance_inv Pump_inv Start_inv Stop_inv Disconnect_inv
      ScheduleDisconnect_inv Send_inv PollEvents_inv delete_inv CreateTransport_ordered calm_ordered [OF calm_Advance] Pump_ordered
      Start_ordered Stop_ordered Disconnect_ordered ScheduleDisconnect_ordered Send_ordered PollEvents_ordered delete_ordered\<close>)
qed

text \<open>
  C36. Whatever is called on a simulated network and its transports, in whatever order: the reliable messages polled from
  a connection, followed by those that are pending there, are the first ones of those that were sent towards it, in the
  order of sending, with nothing missing, repeated or added in between. As long as neither side closes the connection
  nothing is lost: the rest of what was sent is exactly what the schedule still carries.
\<close>

theorem reliable_delivery_in_order:
  assumes "Create c = Some start" and "reachable_from history_step (start, \<lambda>_. [], \<lambda>_. []) (n, sent, polled)"
  shows "prefix (polled x @ pending n x) (sent x) \<and>
    (in_service n x \<longrightarrow> sent x = polled x @ pending n x @ line n x)"
proof -
  have "history_start c (start, \<lambda>_. [], \<lambda>_. [])" using assms(1) by (simp add: history_start_def)
  from history.inv_reachable [OF this assms(2)] show ?thesis
    unfolding history_inv_def ordered_def fst_conv snd_conv by simp
qed

text \<open>The sample network once its message has been delivered and polled by the server.\<close>

definition sample_place :: place where
  "sample_place = (1, ConnectionId 1 1)"

definition sample_pumped :: SimulatedNetworkState where
  "sample_pumped = snd (Pump (snd (Advance 2000 sample_network)))"

definition sample_event :: TransportEvent where
  "sample_event = ReceivedMessageEvent (ConnectionId 1 1) ReliableOrdered ReliableApplication NoOrder [1, 2, 3]"

lemmas deliver_steps = Advance_def DeliverMessage_def account_delivery_def order_message_def queue_message_def received_event_def
  count_sent_def count_received_def

lemma sample_sent: "log_sent 2 sample_message sample_connected (\<lambda>_. []) sample_place = [sample_event]"
  by (simp add: log_sent_def con_def connection_of_def peer_def sample_place_def sample_event_def sample_connected_def Let_def sample_constants
    map_steps start_steps pump_steps send_steps)

lemma sample_polled: "log_polled 1 8 sample_pumped (\<lambda>_. []) sample_place = [sample_event]"
  by (simp add: log_polled_def PollEvents_def sample_pumped_def sample_place_def sample_event_def sample_network_def sample_connected_def
    Let_def sample_constants map_steps start_steps pump_steps send_steps deliver_steps)

definition sample_history :: history where
  "sample_history = (snd (PollEvents 1 8 sample_pumped), log_sent 2 sample_message sample_connected (\<lambda>_. []),
     log_polled 1 8 sample_pumped (\<lambda>_. []))"

lemma sample_history_reachable: "reachable_from history_step (sample_start_state, \<lambda>_. [], \<lambda>_. []) sample_history"
  unfolding sample_history_def sample_pumped_def sample_network_def sample_connected_def sample_start_state_def [symmetric]
  by (rule reach_step [where step = history_step, OF _ history_step.intros(9)], rule reach_step [where step = history_step, OF _ history_step.intros(3)],
    rule reach_step [where step = history_step, OF _ history_step.intros(2)], rule reach_step [where step = history_step, OF _ history_step.intros(8)],
    rule reach_step [where step = history_step, OF _ history_step.intros(3)], rule reach_step [where step = history_step, OF _ history_step.intros(4)],
    rule reach_step [where step = history_step, OF _ history_step.intros(4)], rule reach_step [where step = history_step, OF _ history_step.intros(1)],
    rule reach_step [where step = history_step, OF _ history_step.intros(1)], rule reach_refl)

theorem reliable_delivery_in_order_witness:
  "Create sample_configuration = Some sample_start_state \<and>
   reachable_from history_step (sample_start_state, \<lambda>_. [], \<lambda>_. []) sample_history \<and>
   prefix (snd (snd sample_history) sample_place @ pending (fst sample_history) sample_place) (fst (snd sample_history) sample_place) \<and>
   snd (snd sample_history) sample_place = [sample_event] \<and> fst (snd sample_history) sample_place = [sample_event]"
  using sample_created sample_history_reachable sample_sent sample_polled
    reliable_delivery_in_order [OF sample_created sample_history_reachable [unfolded sample_history_def], where x = sample_place]
  by (simp only: sample_history_def fst_conv snd_conv)
end
