(* ===== verification/ServiceProfile.thy ===== *)
theory ServiceProfile imports RemoteProtocol Scheduler begin

text \<open>
  The deployment profile of the reliable service (network/ReliableServiceProfile.hpp and .cpp):
  rates, bursts and backlogs of the full reservation mode, the frozen parameters of the pooled
  mode, and what validation refuses, in the order of its tests and with its messages. Numbers
  are natural numbers with the 64-bit operations of the prelude; a profile whose fields fit
  their types is \<open>profile_fits\<close>. The bounds proved here are what the arithmetic of
  \<open>ByteAdmission\<close> relies on.
\<close>

section \<open>The pooled mode\<close>

definition MaximumReliableServiceGroupBytes :: nat where
  "MaximumReliableServiceGroupBytes = 512 * 1024"

datatype ReliableServiceMode = FULL_RESERVATION | POOLED_SERVICE | OtherServiceMode u8

definition PeerActiveGrantDrainCapacityFloor :: nat where
  "PeerActiveGrantDrainCapacityFloor = 16 * 1024 * 1024"

definition ServiceQuantumBytes :: nat where
  "ServiceQuantumBytes = 1248"

definition ServiceStartupMicroseconds :: nat where
  "ServiceStartupMicroseconds = 5000"

definition ServiceSchedulingMicroseconds :: nat where
  "ServiceSchedulingMicroseconds = 1000"

definition FiniteGrantInterceptByteMicroseconds :: nat where
  "FiniteGrantInterceptByteMicroseconds = ServiceQuantumBytes * 1000000 + PeerActiveGrantDrainCapacityFloor *
     (ServiceStartupMicroseconds + ServiceSchedulingMicroseconds)"

definition QueueWindowMicroseconds :: nat where
  "QueueWindowMicroseconds = 50000"

definition PeerGameplayBurst :: nat where
  "PeerGameplayBurst = 20 * 1024"

definition PooledGameplayBurst :: nat where
  "PooledGameplayBurst = 160 * 1024"

definition ControlBurst :: nat where
  "ControlBurst = 64 * 1024"

definition PeerOrdinaryUnsentLimit :: nat where
  "PeerOrdinaryUnsentLimit =
     (PeerActiveGrantDrainCapacityFloor * QueueWindowMicroseconds -
      (FiniteGrantInterceptByteMicroseconds + MaximumReliableServiceGroupBytes * 1000000)) div 1000000 -
     PeerGameplayBurst - ControlBurst"

record PooledReliableServiceProfile =
  SeparateNativeCapacity :: bool
  DiagnosticPerformance :: bool
  BackendCap :: nat
  StructuralPool :: nat
  GameplayReserve :: nat
  ControlRealtimeReserve :: nat
  RequiredTransportReserve :: nat
  PeerDrainFloor :: nat
  PeerCreditRate :: nat
  GlobalCreditRate :: nat
  PeerBurstCap :: nat
  GlobalBurstCap :: nat
  PeerPendingCap :: nat
  GlobalPendingCap :: nat
  MaximumDrainGrants :: nat
  FeedbackFreshnessMicroseconds :: nat
  RequalificationMicroseconds :: nat

definition default_PooledReliableServiceProfile :: PooledReliableServiceProfile where
  "default_PooledReliableServiceProfile =
     \<lparr>SeparateNativeCapacity = False, DiagnosticPerformance = False,
      BackendCap = 96 * 1024 * 1024, StructuralPool = 64 * 1024 * 1024, GameplayReserve = 8 * 1024 * 1024,
      ControlRealtimeReserve = 4 * 1024 * 1024, RequiredTransportReserve = 8 * 1024 * 1024,
      PeerDrainFloor = 16 * 1024 * 1024, PeerCreditRate = 2 * 1024 * 1024, GlobalCreditRate = 64 * 1024 * 1024,
      PeerBurstCap = MaximumReliableServiceGroupBytes, GlobalBurstCap = 4 * MaximumReliableServiceGroupBytes,
      PeerPendingCap = MaximumReliableServiceGroupBytes, GlobalPendingCap = 32 * MaximumReliableServiceGroupBytes,
      MaximumDrainGrants = 4, FeedbackFreshnessMicroseconds = 50000, RequalificationMicroseconds = 1000000\<rparr>"

definition Pooled_ValidationError :: "PooledReliableServiceProfile \<Rightarrow> string" where
  "Pooled_ValidationError p =
     (let Accepted = default_PooledReliableServiceProfile
      in if BackendCap p \<noteq> BackendCap Accepted \<or> StructuralPool p \<noteq> StructuralPool Accepted \<or>
            GameplayReserve p \<noteq> GameplayReserve Accepted \<or> ControlRealtimeReserve p \<noteq> ControlRealtimeReserve Accepted \<or>
            RequiredTransportReserve p \<noteq> RequiredTransportReserve Accepted \<or> PeerDrainFloor p \<noteq> PeerDrainFloor Accepted \<or>
            PeerCreditRate p \<noteq> PeerCreditRate Accepted \<or> GlobalCreditRate p \<noteq> GlobalCreditRate Accepted \<or>
            PeerBurstCap p \<noteq> PeerBurstCap Accepted \<or> GlobalBurstCap p \<noteq> GlobalBurstCap Accepted \<or>
            PeerPendingCap p \<noteq> PeerPendingCap Accepted \<or> GlobalPendingCap p \<noteq> GlobalPendingCap Accepted \<or>
            MaximumDrainGrants p \<noteq> MaximumDrainGrants Accepted \<or>
            FeedbackFreshnessMicroseconds p \<noteq> FeedbackFreshnessMicroseconds Accepted \<or>
            RequalificationMicroseconds p < RequalificationMicroseconds Accepted
         then ''POOLED_SERVICE parameters differ from the accepted Option C candidate'' else [])"

section \<open>The profile\<close>

record ReliableServiceProfile =
  ConnectionRate :: nat
  AggregateRate :: nat
  BackendRate :: nat
  MaximumConnections :: nat
  StructuralPermille :: nat
  PeerBurst :: nat
  GlobalBurst :: nat
  GameplayBurst :: nat
  PeerBacklog :: nat
  GlobalBacklog :: nat
  NonQueueAllowanceMilliseconds :: nat
  RequireLatencyCompatibility :: bool
  Mode :: ReliableServiceMode
  Pooled :: PooledReliableServiceProfile

definition default_ReliableServiceProfile :: ReliableServiceProfile where
  "default_ReliableServiceProfile =
     \<lparr>ConnectionRate = 256 * 1024, AggregateRate = 256 * 1024, BackendRate = 512 * 1024, MaximumConnections = 1,
      StructuralPermille = 750, PeerBurst = MaximumReliableServiceGroupBytes, GlobalBurst = MaximumReliableServiceGroupBytes,
      GameplayBurst = 256 * 1024 + ReliableServiceEnvelopeBytes,
      PeerBacklog = MaximumReliableServiceGroupBytes + 2 * (256 * 1024 + ReliableServiceEnvelopeBytes),
      GlobalBacklog = MaximumReliableServiceGroupBytes + 2 * (256 * 1024 + ReliableServiceEnvelopeBytes),
      NonQueueAllowanceMilliseconds = 100, RequireLatencyCompatibility = False, Mode = FULL_RESERVATION,
      Pooled = default_PooledReliableServiceProfile\<rparr>"

definition PooledService :: "bool \<Rightarrow> ReliableServiceProfile" where
  "PooledService separate =
     default_ReliableServiceProfile\<lparr>Mode := POOLED_SERVICE,
       Pooled := default_PooledReliableServiceProfile\<lparr>SeparateNativeCapacity := separate\<rparr>,
       MaximumConnections := 32\<rparr>"

definition PooledServiceNonRealtime :: ReliableServiceProfile where
  "PooledServiceNonRealtime =
     (let Result = PooledService True in Result\<lparr>Pooled := (Pooled Result)\<lparr>DiagnosticPerformance := True\<rparr>\<rparr>)"

definition IsPooled :: "ReliableServiceProfile \<Rightarrow> bool" where
  "IsPooled p \<longleftrightarrow> Mode p = POOLED_SERVICE"

definition HasDiagnosticPerformance :: "ReliableServiceProfile \<Rightarrow> bool" where
  "HasDiagnosticPerformance p \<longleftrightarrow> IsPooled p \<and> DiagnosticPerformance (Pooled p)"

definition ContractIdentity :: "ReliableServiceProfile \<Rightarrow> string" where
  "ContractIdentity p =
     (if HasDiagnosticPerformance p then ''POOLED_CORRECTNESS_V1''
      else if IsPooled p then ''HYBRID_F1_V1'' else ''FULL_RESERVATION'')"

definition BackendSendRate :: "ReliableServiceProfile \<Rightarrow> nat" where
  "BackendSendRate p =
     (if IsPooled p
      then add64 (StructuralPool (Pooled p)) (RequiredTransportReserve (Pooled p)) div MaximumDrainGrants (Pooled p)
      else BackendRate p)"

definition PeerStructuralRate :: "ReliableServiceProfile \<Rightarrow> nat" where
  "PeerStructuralRate p = mul64 (ConnectionRate p) (StructuralPermille p) div 1000"

definition GlobalStructuralRate :: "ReliableServiceProfile \<Rightarrow> nat" where
  "GlobalStructuralRate p = mul64 (AggregateRate p) (StructuralPermille p) div 1000"

definition PeerCreditCap :: "ReliableServiceProfile \<Rightarrow> nat" where
  "PeerCreditCap p = (if IsPooled p then PeerBurstCap (Pooled p) else PeerBurst p)"

definition GlobalCreditCap :: "ReliableServiceProfile \<Rightarrow> nat" where
  "GlobalCreditCap p = (if IsPooled p then GlobalBurstCap (Pooled p) else GlobalBurst p)"

definition int_max :: nat where
  "int_max = 2 ^ 31 - 1"

definition ResourceError :: "ReliableServiceProfile \<Rightarrow> string" where
  "ResourceError p =
     (if ConnectionRate p = 0 \<or> ConnectionRate p > int_max
      then ''ConnectionRate must fit the positive backend rate range''
      else if MaximumConnections p = 0 \<or> MaximumConnections p > 4096
      then ''MaximumConnections must be in 1..4096''
      else if BackendRate p < ConnectionRate p \<or> BackendRate p > int_max
      then ''BackendRate must cover ConnectionRate and fit the positive backend rate range''
      else if AggregateRate p div MaximumConnections p < ConnectionRate p \<or>
              AggregateRate p > mul64 int_max (MaximumConnections p)
      then ''AggregateRate must fund MaximumConnections times ConnectionRate''
      else if StructuralPermille p = 0 \<or> StructuralPermille p > 750 \<or> PeerStructuralRate p = 0
      then ''StructuralPermille must reserve at least 25 percent for gameplay and permit structural progress''
      else if PeerBurst p < MaximumReliableServiceGroupBytes \<or> GlobalBurst p < MaximumReliableServiceGroupBytes
      then ''Burst credit must hold a complete 512 KiB supported atomic group''
      else if PeerBacklog p > NativeMaximumQueuedReliableBytes \<or> GlobalBacklog p > NativeMaximumSchedulerQueuedReliableBytes
      then ''Reliable service backlog exceeds the native finite memory ceiling''
      else if GameplayBurst p < MaximumRemoteFrameBytes + ReliableServiceEnvelopeBytes \<or>
              GameplayBurst p > PeerBacklog p div 2 \<or>
              PeerBurst p > sub64 (PeerBacklog p) (mul64 2 (GameplayBurst p))
      then ''PeerBacklog must fund structural burst, existing gameplay burst and fresh gameplay reserve''
      else if GlobalBacklog p < PeerBacklog p \<or> GameplayBurst p > GlobalBacklog p div MaximumConnections p div 2 \<or>
              GlobalBurst p > sub64 (GlobalBacklog p) (mul64 (mul64 2 (GameplayBurst p)) (MaximumConnections p))
      then ''GlobalBacklog must fund the structural burst and gameplay headroom for every admitted peer''
      else if NonQueueAllowanceMilliseconds p = 0 \<or> NonQueueAllowanceMilliseconds p \<ge> 250
      then ''NonQueueAllowanceMilliseconds must leave positive time within the 250 ms Event/action target''
      else [])"

definition IsLatencyCompatible :: "ReliableServiceProfile \<Rightarrow> bool" where
  "IsLatencyCompatible p =
     (if IsPooled p then MaximumConnections p = 32 \<and> NonQueueAllowanceMilliseconds p = 100 \<and>
        \<not> SeparateNativeCapacity (Pooled p) \<and> \<not> DiagnosticPerformance (Pooled p) \<and> Pooled_ValidationError (Pooled p) = []
      else if Mode p \<noteq> FULL_RESERVATION then False
      else if ResourceError p \<noteq> [] then False
      else
        (let QueueMilliseconds = 250 - NonQueueAllowanceMilliseconds p
         in BackendRate p div 2 \<ge> ConnectionRate p \<and>
            mul64 (PeerBacklog p) 1000 \<le> mul64 (ConnectionRate p) QueueMilliseconds \<and>
            mul64 (GlobalBacklog p) 1000 \<le> mul64 (AggregateRate p) QueueMilliseconds))"

definition Profile_ValidationError :: "ReliableServiceProfile \<Rightarrow> string" where
  "Profile_ValidationError p =
     (if IsPooled p
      then (if DiagnosticPerformance (Pooled p) \<and> \<not> SeparateNativeCapacity (Pooled p)
            then ''Non-real-time pooled service requires separate native capacity and exact retained ACK ownership''
            else if MaximumConnections p \<noteq> 32 \<or> NonQueueAllowanceMilliseconds p \<noteq> 100
            then ''POOLED_SERVICE requires the accepted 32-peer, 100 ms nonqueue candidate''
            else if RequireLatencyCompatibility p \<and> SeparateNativeCapacity (Pooled p)
            then (if DiagnosticPerformance (Pooled p) then ''Non-real-time service cannot satisfy RequireLatencyCompatibility''
                  else ''Separated native capacity is unqualified for retained-retry ordinary FIFO service'')
            else Pooled_ValidationError (Pooled p))
      else if Mode p \<noteq> FULL_RESERVATION then ''Unknown reliable service mode''
      else if ResourceError p \<noteq> [] then ResourceError p
      else if RequireLatencyCompatibility p \<and> \<not> IsLatencyCompatible p
      then ''Unqualified reliable rate/backlog profile: the full atomic-group envelope cannot fit the approved latency target''
      else [])"

definition Profile_IsValid :: "ReliableServiceProfile \<Rightarrow> bool" where
  "Profile_IsValid p \<longleftrightarrow> Profile_ValidationError p = []"

section \<open>What a valid profile guarantees\<close>

text \<open>The fields fit their types: the rates and sizes are 64-bit, the counts 32-bit.\<close>

definition profile_fits :: "ReliableServiceProfile \<Rightarrow> bool" where
  "profile_fits p \<longleftrightarrow>
     list_all (\<lambda>x. x \<le> u64_max)
       [ConnectionRate p, AggregateRate p, BackendRate p, PeerBurst p, GlobalBurst p, GameplayBurst p, PeerBacklog p,
        GlobalBacklog p, RequalificationMicroseconds (Pooled p)] \<and>
     list_all (\<lambda>x. x < 2 ^ 32) [MaximumConnections p, StructuralPermille p, NonQueueAllowanceMilliseconds p]"

lemmas profile_constants = MaximumReliableServiceGroupBytes_def ReliableServiceEnvelopeBytes_def MaximumRemoteFrameBytes_def
  NativeMaximumQueuedReliableBytes_def NativeMaximumSchedulerQueuedReliableBytes_def int_max_def

lemma pooled_parameters:
  assumes "Profile_IsValid p" "IsPooled p"
  shows "BackendCap (Pooled p) = 100663296" "RequiredTransportReserve (Pooled p) = 8388608"
    "PeerCreditRate (Pooled p) = 2097152" "GlobalCreditRate (Pooled p) = 67108864"
    "PeerBurstCap (Pooled p) = 524288" "GlobalBurstCap (Pooled p) = 2097152"
    "GlobalPendingCap (Pooled p) = 16777216" "MaximumDrainGrants (Pooled p) = 4"
    "FeedbackFreshnessMicroseconds (Pooled p) = 50000" "MaximumConnections p = 32"
    "1000000 \<le> RequalificationMicroseconds (Pooled p)"
  using assms
  by (simp_all add: Profile_IsValid_def Profile_ValidationError_def Pooled_ValidationError_def Let_def
      default_PooledReliableServiceProfile_def MaximumReliableServiceGroupBytes_def split: if_splits)

text \<open>
  What validation means, in unbounded arithmetic: the rates are positive and the aggregate
  funds every connection, a burst holds a complete group, and the backlogs hold the burst and
  twice the gameplay of every peer besides.
\<close>

definition resources_funded :: "ReliableServiceProfile \<Rightarrow> bool" where
  "resources_funded p \<longleftrightarrow>
     0 < ConnectionRate p \<and> ConnectionRate p \<le> int_max \<and> 0 < MaximumConnections p \<and> MaximumConnections p \<le> 4096 \<and>
     ConnectionRate p \<le> BackendRate p \<and> BackendRate p \<le> int_max \<and>
     MaximumConnections p * ConnectionRate p \<le> AggregateRate p \<and> AggregateRate p \<le> MaximumConnections p * int_max \<and>
     StructuralPermille p \<le> 750 \<and> 1000 \<le> ConnectionRate p * StructuralPermille p \<and>
     MaximumReliableServiceGroupBytes \<le> PeerBurst p \<and> MaximumReliableServiceGroupBytes \<le> GlobalBurst p \<and>
     PeerBacklog p \<le> NativeMaximumQueuedReliableBytes \<and> GlobalBacklog p \<le> NativeMaximumSchedulerQueuedReliableBytes \<and>
     MaximumRemoteFrameBytes + ReliableServiceEnvelopeBytes \<le> GameplayBurst p \<and>
     PeerBurst p + 2 * GameplayBurst p \<le> PeerBacklog p \<and> PeerBacklog p \<le> GlobalBacklog p \<and>
     GlobalBurst p + 2 * GameplayBurst p * MaximumConnections p \<le> GlobalBacklog p \<and>
     0 < NonQueueAllowanceMilliseconds p \<and> NonQueueAllowanceMilliseconds p < 250"

definition latency_funded :: "ReliableServiceProfile \<Rightarrow> bool" where
  "latency_funded p \<longleftrightarrow>
     2 * ConnectionRate p \<le> BackendRate p \<and>
     PeerBacklog p * 1000 \<le> ConnectionRate p * (250 - NonQueueAllowanceMilliseconds p) \<and>
     GlobalBacklog p * 1000 \<le> AggregateRate p * (250 - NonQueueAllowanceMilliseconds p)"

definition frozen_candidate :: "ReliableServiceProfile \<Rightarrow> bool" where
  "frozen_candidate p \<longleftrightarrow>
     (\<exists>separate diagnostic requalification.
        Pooled p = default_PooledReliableServiceProfile\<lparr>SeparateNativeCapacity := separate,
          DiagnosticPerformance := diagnostic, RequalificationMicroseconds := requalification\<rparr> \<and>
        1000000 \<le> requalification \<and> (diagnostic \<longrightarrow> separate) \<and> (RequireLatencyCompatibility p \<longrightarrow> \<not> separate)) \<and>
     MaximumConnections p = 32 \<and> NonQueueAllowanceMilliseconds p = 100"

lemma div_le_eq: "0 < (m :: nat) \<Longrightarrow> a div m < c \<longleftrightarrow> a < m * c"
  by (simp add: div_less_iff_less_mult mult.commute)

lemma le_half: "(g :: nat) \<le> b div 2 \<longleftrightarrow> 2 * g \<le> b"
  by linarith

lemma le_half_share: "0 < (m :: nat) \<Longrightarrow> g \<le> b div m div 2 \<longleftrightarrow> 2 * g * m \<le> b"
  using less_eq_div_iff_mult_less_eq [of "m * 2" g b] by (simp add: div_mult2_eq ac_simps)


lemma if_empty: "(if c then x # xs else r) = [] \<longleftrightarrow> \<not> c \<and> r = []"
  by simp

text \<open>The tests one by one, each under what the earlier ones established.\<close>

lemma rate_test:
  assumes "ConnectionRate p \<le> int_max" "StructuralPermille p \<le> 750"
  shows "PeerStructuralRate p = ConnectionRate p * StructuralPermille p div 1000"
proof -
  have "ConnectionRate p * StructuralPermille p \<le> int_max * 750" using assms by (intro mult_le_mono)
  then show ?thesis
    unfolding PeerStructuralRate_def by (subst mul64_exact) (simp_all add: int_max_def u64_max_def)
qed

lemma aggregate_test:
  assumes "0 < MaximumConnections p" "MaximumConnections p \<le> 4096"
  shows "AggregateRate p div MaximumConnections p < ConnectionRate p \<or> AggregateRate p > mul64 int_max (MaximumConnections p) \<longleftrightarrow>
    \<not> (MaximumConnections p * ConnectionRate p \<le> AggregateRate p \<and> AggregateRate p \<le> MaximumConnections p * int_max)"
proof -
  have "int_max * MaximumConnections p \<le> int_max * 4096" using assms(2) by (intro mult_le_mono) auto
  then have "mul64 int_max (MaximumConnections p) = int_max * MaximumConnections p"
    by (intro mul64_exact) (simp add: int_max_def u64_max_def)
  then show ?thesis using div_le_eq [OF assms(1)] by (auto simp: not_le mult.commute)
qed

lemma peer_backlog_test:
  assumes "PeerBacklog p \<le> u64_max"
  shows "GameplayBurst p > PeerBacklog p div 2 \<or> PeerBurst p > sub64 (PeerBacklog p) (mul64 2 (GameplayBurst p)) \<longleftrightarrow>
    \<not> PeerBurst p + 2 * GameplayBurst p \<le> PeerBacklog p"
proof (cases "2 * GameplayBurst p \<le> PeerBacklog p")
  case True
  then have "sub64 (PeerBacklog p) (mul64 2 (GameplayBurst p)) = PeerBacklog p - 2 * GameplayBurst p"
    using assms by (simp add: mul64_exact sub64_exact)
  then show ?thesis using True by auto
qed auto

lemma global_backlog_test:
  assumes "GlobalBacklog p \<le> u64_max" "0 < MaximumConnections p"
  shows "GameplayBurst p > GlobalBacklog p div MaximumConnections p div 2 \<or>
      GlobalBurst p > sub64 (GlobalBacklog p) (mul64 (mul64 2 (GameplayBurst p)) (MaximumConnections p)) \<longleftrightarrow>
    \<not> GlobalBurst p + 2 * GameplayBurst p * MaximumConnections p \<le> GlobalBacklog p"
proof (cases "2 * GameplayBurst p * MaximumConnections p \<le> GlobalBacklog p")
  case True
  have "2 * GameplayBurst p * 1 \<le> 2 * GameplayBurst p * MaximumConnections p"
    using assms(2) by (intro mult_le_mono2) simp
  then have "mul64 2 (GameplayBurst p) = 2 * GameplayBurst p"
    using True assms(1) by (intro mul64_exact) linarith
  then have "sub64 (GlobalBacklog p) (mul64 (mul64 2 (GameplayBurst p)) (MaximumConnections p)) =
      GlobalBacklog p - 2 * GameplayBurst p * MaximumConnections p"
    using True assms(1) by (simp add: mul64_exact sub64_exact)
  moreover have "\<not> GameplayBurst p > GlobalBacklog p div MaximumConnections p div 2"
    using True le_half_share [OF assms(2), of "GameplayBurst p" "GlobalBacklog p"] by linarith
  ultimately show ?thesis using True by auto
next
  case False
  then have "GameplayBurst p > GlobalBacklog p div MaximumConnections p div 2"
    using le_half_share [OF assms(2), of "GameplayBurst p" "GlobalBacklog p"] by linarith
  then show ?thesis using False by auto
qed

lemma ResourceError_exact:
  assumes "profile_fits p"
  shows "ResourceError p = [] \<longleftrightarrow> resources_funded p"
proof -
  have fits: "PeerBacklog p \<le> u64_max" "GlobalBacklog p \<le> u64_max" using assms by (simp_all add: profile_fits_def)
  let ?a = "0 < ConnectionRate p \<and> ConnectionRate p \<le> int_max"
  let ?b = "0 < MaximumConnections p \<and> MaximumConnections p \<le> 4096"
  have rate: "(StructuralPermille p = 0 \<or> StructuralPermille p > 750 \<or> PeerStructuralRate p = 0) \<longleftrightarrow>
      \<not> (StructuralPermille p \<le> 750 \<and> 1000 \<le> ConnectionRate p * StructuralPermille p)" if ?a
    using that rate_test [of p] by (cases "StructuralPermille p \<le> 750") auto
  have peer: "GameplayBurst p < MaximumRemoteFrameBytes + ReliableServiceEnvelopeBytes \<or> GameplayBurst p > PeerBacklog p div 2 \<or>
        PeerBurst p > sub64 (PeerBacklog p) (mul64 2 (GameplayBurst p)) \<longleftrightarrow>
      \<not> (MaximumRemoteFrameBytes + ReliableServiceEnvelopeBytes \<le> GameplayBurst p \<and> PeerBurst p + 2 * GameplayBurst p \<le> PeerBacklog p)"
    using peer_backlog_test [OF fits(1)] by (auto simp only: not_le de_Morgan_conj)
  have shared: "GlobalBacklog p < PeerBacklog p \<or> GameplayBurst p > GlobalBacklog p div MaximumConnections p div 2 \<or>
        GlobalBurst p > sub64 (GlobalBacklog p) (mul64 (mul64 2 (GameplayBurst p)) (MaximumConnections p)) \<longleftrightarrow>
      \<not> (PeerBacklog p \<le> GlobalBacklog p \<and> GlobalBurst p + 2 * GameplayBurst p * MaximumConnections p \<le> GlobalBacklog p)" if ?b
    using global_backlog_test [OF fits(2)] that by (auto simp only: not_le de_Morgan_conj)
  show ?thesis
  proof (cases "?a \<and> ?b")
    case True
    then have ab: ?a ?b by blast+
    have "ResourceError p = [] \<longleftrightarrow>
        \<not> (BackendRate p < ConnectionRate p \<or> BackendRate p > int_max) \<and>
        (MaximumConnections p * ConnectionRate p \<le> AggregateRate p \<and> AggregateRate p \<le> MaximumConnections p * int_max) \<and>
        (StructuralPermille p \<le> 750 \<and> 1000 \<le> ConnectionRate p * StructuralPermille p) \<and>
        \<not> (PeerBurst p < MaximumReliableServiceGroupBytes \<or> GlobalBurst p < MaximumReliableServiceGroupBytes) \<and>
        \<not> (PeerBacklog p > NativeMaximumQueuedReliableBytes \<or> GlobalBacklog p > NativeMaximumSchedulerQueuedReliableBytes) \<and>
        (MaximumRemoteFrameBytes + ReliableServiceEnvelopeBytes \<le> GameplayBurst p \<and> PeerBurst p + 2 * GameplayBurst p \<le> PeerBacklog p) \<and>
        (PeerBacklog p \<le> GlobalBacklog p \<and> GlobalBurst p + 2 * GameplayBurst p * MaximumConnections p \<le> GlobalBacklog p) \<and>
        \<not> (NonQueueAllowanceMilliseconds p = 0 \<or> NonQueueAllowanceMilliseconds p \<ge> 250)"
      unfolding ResourceError_def if_empty rate [OF ab(1)] peer shared [OF ab(2)]
        aggregate_test [OF conjunct1 [OF ab(2)] conjunct2 [OF ab(2)]]
      using ab by (simp only: not_not not_le not_less neq0_conv de_Morgan_disj simp_thms)
    then show ?thesis using ab by (simp only: resources_funded_def not_le not_less neq0_conv de_Morgan_disj) blast
  next
    case False
    then have "\<not> resources_funded p" by (simp only: resources_funded_def) blast
    moreover have "ResourceError p \<noteq> []" using False unfolding ResourceError_def if_empty by (simp only: not_le not_less neq0_conv de_Morgan_disj) blast
    ultimately show ?thesis by blast
  qed
qed

lemma IsLatencyCompatible_exact:
  assumes "profile_fits p" "Mode p = FULL_RESERVATION"
  shows "IsLatencyCompatible p \<longleftrightarrow> resources_funded p \<and> latency_funded p"
proof (cases "resources_funded p")
  case False
  then show ?thesis using ResourceError_exact [OF assms(1)] assms(2) by (simp add: IsLatencyCompatible_def IsPooled_def)
next
  case True
  then have r: "ConnectionRate p \<le> int_max" "BackendRate p \<le> int_max" "AggregateRate p \<le> MaximumConnections p * int_max"
      "MaximumConnections p \<le> 4096" "PeerBacklog p \<le> NativeMaximumQueuedReliableBytes"
      "GlobalBacklog p \<le> NativeMaximumSchedulerQueuedReliableBytes"
    unfolding resources_funded_def by blast+
  have "MaximumConnections p * int_max \<le> 4096 * int_max" using r(4) by (rule mult_le_mono1)
  then have "AggregateRate p \<le> 4096 * int_max" using r(3) by linarith
  then have "ConnectionRate p * (250 - NonQueueAllowanceMilliseconds p) \<le> int_max * 250"
      "AggregateRate p * (250 - NonQueueAllowanceMilliseconds p) \<le> (4096 * int_max) * 250"
    using r(1) by (blast intro: mult_le_mono diff_le_self)+
  then have "mul64 (ConnectionRate p) (250 - NonQueueAllowanceMilliseconds p) = ConnectionRate p * (250 - NonQueueAllowanceMilliseconds p)"
      "mul64 (AggregateRate p) (250 - NonQueueAllowanceMilliseconds p) = AggregateRate p * (250 - NonQueueAllowanceMilliseconds p)"
      "mul64 (PeerBacklog p) 1000 = PeerBacklog p * 1000" "mul64 (GlobalBacklog p) 1000 = GlobalBacklog p * 1000"
    using r(5,6) by (auto intro!: mul64_exact simp: u64_max_def int_max_def NativeMaximumQueuedReliableBytes_def
        NativeMaximumSchedulerQueuedReliableBytes_def)
  moreover have "ResourceError p = []" using ResourceError_exact [OF assms(1)] True by blast
  moreover have "BackendRate p div 2 \<ge> ConnectionRate p \<longleftrightarrow> 2 * ConnectionRate p \<le> BackendRate p" by (rule le_half)
  ultimately show ?thesis
    using True assms(2) by (simp add: IsLatencyCompatible_def IsPooled_def latency_funded_def Let_def)
qed

lemma frozen_exact:
  assumes "IsPooled p"
  shows "Profile_ValidationError p = [] \<longleftrightarrow> frozen_candidate p"
proof -
  have "Pooled_ValidationError (Pooled p) = [] \<longleftrightarrow>
      (Pooled p = default_PooledReliableServiceProfile\<lparr>SeparateNativeCapacity := SeparateNativeCapacity (Pooled p),
         DiagnosticPerformance := DiagnosticPerformance (Pooled p),
         RequalificationMicroseconds := RequalificationMicroseconds (Pooled p)\<rparr> \<and>
       1000000 \<le> RequalificationMicroseconds (Pooled p))"
    by (cases "Pooled p") (auto simp: Pooled_ValidationError_def default_PooledReliableServiceProfile_def Let_def)
  moreover have "frozen_candidate p \<longleftrightarrow>
      Pooled p = default_PooledReliableServiceProfile\<lparr>SeparateNativeCapacity := SeparateNativeCapacity (Pooled p),
         DiagnosticPerformance := DiagnosticPerformance (Pooled p),
         RequalificationMicroseconds := RequalificationMicroseconds (Pooled p)\<rparr> \<and>
      1000000 \<le> RequalificationMicroseconds (Pooled p) \<and> (DiagnosticPerformance (Pooled p) \<longrightarrow> SeparateNativeCapacity (Pooled p)) \<and>
      (RequireLatencyCompatibility p \<longrightarrow> \<not> SeparateNativeCapacity (Pooled p)) \<and>
      MaximumConnections p = 32 \<and> NonQueueAllowanceMilliseconds p = 100"
    unfolding frozen_candidate_def
    by (cases "Pooled p") (auto simp: default_PooledReliableServiceProfile_def)
  ultimately show ?thesis using assms by (auto simp: Profile_ValidationError_def)
qed

text \<open>
  C26. Validation of a deployment profile is exact in unbounded arithmetic, although the code
  computes its tests in 64 bits: a full reservation profile whose fields fit their types is
  valid exactly when its rates fund every connection, its bursts hold a complete group and its
  backlogs hold the burst and twice the gameplay of every peer (and the queues drain in time,
  when latency compatibility is required); a pooled profile exactly when it is the frozen
  candidate; any other mode never.
\<close>

theorem service_profile_valid_exact:
  assumes "profile_fits p"
  shows "Profile_IsValid p \<longleftrightarrow>
    (case Mode p of
       FULL_RESERVATION \<Rightarrow> resources_funded p \<and> (RequireLatencyCompatibility p \<longrightarrow> latency_funded p)
     | POOLED_SERVICE \<Rightarrow> frozen_candidate p
     | OtherServiceMode m \<Rightarrow> False)"
proof (cases "Mode p")
  case FULL_RESERVATION
  then show ?thesis
    using ResourceError_exact [OF assms] IsLatencyCompatible_exact [OF assms]
    by (auto simp: Profile_IsValid_def Profile_ValidationError_def IsPooled_def)
next
  case POOLED_SERVICE
  then show ?thesis using frozen_exact [of p] by (simp add: Profile_IsValid_def IsPooled_def)
qed (simp add: Profile_IsValid_def Profile_ValidationError_def IsPooled_def)

lemmas profile_eval = default_ReliableServiceProfile_def default_PooledReliableServiceProfile_def PooledService_def
  profile_fits_def profile_constants u64_max_def

theorem service_profile_valid_exact_witness:
  "Profile_IsValid default_ReliableServiceProfile \<and> Profile_IsValid (PooledService True) \<and>
   \<not> Profile_IsValid (default_ReliableServiceProfile\<lparr>RequireLatencyCompatibility := True\<rparr>)"
proof (intro conjI)
  show "Profile_IsValid default_ReliableServiceProfile"
    by (subst service_profile_valid_exact) (simp_all add: profile_eval resources_funded_def)
  show "Profile_IsValid (PooledService True)"
    by (subst service_profile_valid_exact) (auto simp: profile_eval frozen_candidate_def)
  show "\<not> Profile_IsValid (default_ReliableServiceProfile\<lparr>RequireLatencyCompatibility := True\<rparr>)"
    by (subst service_profile_valid_exact) (simp_all add: profile_eval latency_funded_def)
qed
end
