(* ===== verification/ByteAdmission.thy ===== *)
theory ByteAdmission imports ServiceProfile begin

text \<open>
  The byte accounting that admits structural frames to the reliable service
  (src/network/ReliableByteAdmission.hpp) with the evidence it offers to an observer
  (src/network/ReliableByteAdmissionDiagnostics.hpp). A peer and the server have a credit that
  refills with time; a frame is reserved, then committed or rolled back; in the pooled mode a
  committed frame is a debt that owns one of a few grants until its retirement was verified.

  \<open>Peers\<close>, a \<open>std::map\<close>, is the list of its entries in the order of the keys. Numbers are
  natural numbers with the 64-bit operations of the prelude. The evidence sink, a pointer the
  thread sets, is \<open>Evidence\<close>: \<open>None\<close> is the null pointer, \<open>Records\<close> says whether its
  function is set, \<open>Recorded\<close> are the events the function was called with. An operation that
  changes the state returns the state; \<open>std::map::at\<close>, which throws for an unknown key, is only
  called where the invariant of \<open>AdmissionInvariant\<close> has the key, and leaves the state as it is here.
\<close>

section \<open>Evidence\<close>

datatype AdmissionEvidenceKind =
    ExactDemand | CreditEligible | EligibilityInterrupted | GrantAccepted | GrantRetired | GrantReleased
  | GrantTerminalReleased | ReservationRolledBack | DemandDisposed | NativeCapacityReturned

datatype AdmissionEvidenceReason =
    NoReason | NoWorkReason | Unexamined | Replaced | RollbackReason | GenerationRemoved | TerminalReleaseReason
  | FeedbackUnavailable | SourceEmptyReason | ResourceUnavailable

record AdmissionEvidenceEvent =
  EventKind :: AdmissionEvidenceKind
  EventReason :: AdmissionEvidenceReason
  EventConnection :: ConnectionId
  EventDemandId :: nat
  EventEligibilityEpisode :: nat
  EventGrantToken :: nat
  EventExactBytes :: nat
  EventAtMicroseconds :: nat
  EventCreditThresholdAtMicroseconds :: nat
  EventEligibleSinceMicroseconds :: nat
  EventPeerCreditBytes :: nat
  EventGlobalCreditBytes :: nat
  EventActiveGrants :: nat
  EventGrantDeferrals :: nat
  EventFundedDeferrals :: nat
  EventCreditDeferrals :: nat
  EventFairnessDeferrals :: nat
  EventExactCandidateFingerprint :: "nat \<times> nat"
  EventRetainedBytes :: nat
  EventNativeCapacityBytes :: nat
  EventOrdinaryFundingBytes :: nat
  EventOrdinaryUnsentBytes :: nat

record AdmissionEvidenceSink =
  Records :: bool
  Recorded :: "AdmissionEvidenceEvent list"

definition ExactCandidateFingerprint :: "bytes \<Rightarrow> u64 \<times> u64" where
  "ExactCandidateFingerprint bs =
     foldl (\<lambda>(First, Second) b. ((First XOR ucast b) * 0x100000001b3, (Second XOR (ucast b + 1)) * 0x100000001b3))
       (0xcbf29ce484222325, 0x84222325cbf29ce4) bs"

section \<open>State\<close>

definition MinimumFrameBytes :: nat where
  "MinimumFrameBytes = 36 + ReliableServiceEnvelopeBytes"

record Reservation =
  Token :: nat
  ReservedConnection :: ConnectionId
  ReservationBytes :: nat

record ServiceObservation =
  ObservedAtMicroseconds :: nat
  Qualified :: bool
  Available :: bool
  OrdinaryDebt :: nat

record Bucket =
  CreditBytes :: nat
  Remainder :: nat
  Updated :: nat

definition new_Bucket :: Bucket where
  "new_Bucket = \<lparr>CreditBytes = 0, Remainder = 0, Updated = 0\<rparr>"

record Peer =
  Credit :: Bucket
  Exposure :: "nat option"
  WaitSince :: "nat option"
  Required :: nat
  DemandStep :: nat
  Seen :: bool
  Backlogged :: bool
  OwnsGrant :: bool
  OwnsNativeCapacity :: bool
  Service :: "ServiceObservation option"
  Debt :: nat
  DebtToken :: nat
  NextQualification :: nat
  PeerGrantBytes :: nat
  DiagnosticGrantDemandId :: nat
  DiagnosticGrantBytes :: nat
  DiagnosticGrantToken :: nat
  DiagnosticDemandId :: nat
  DiagnosticBytes :: nat
  DiagnosticDemandAt :: nat
  DiagnosticFingerprint :: "nat \<times> nat"
  DiagnosticEligibleAt :: nat
  DiagnosticCreditThresholdAt :: nat
  DiagnosticEligibilityEpisode :: nat
  DiagnosticCreditReadyAt :: "nat option"

definition new_Peer :: Peer where
  "new_Peer =
     \<lparr>Credit = new_Bucket, Exposure = None, WaitSince = None, Required = MinimumFrameBytes, DemandStep = 0,
      Seen = False, Backlogged = False, OwnsGrant = False, OwnsNativeCapacity = False, Service = None,
      Debt = 0, DebtToken = 0, NextQualification = 0, PeerGrantBytes = 0,
      DiagnosticGrantDemandId = 0, DiagnosticGrantBytes = 0, DiagnosticGrantToken = 0,
      DiagnosticDemandId = 0, DiagnosticBytes = 0, DiagnosticDemandAt = 0, DiagnosticFingerprint = (0, 0),
      DiagnosticEligibleAt = 0, DiagnosticCreditThresholdAt = 0, DiagnosticEligibilityEpisode = 0,
      DiagnosticCreditReadyAt = None\<rparr>"

record ReliableByteAdmissionMetrics =
  ReservedBytes :: nat
  AcceptedBytes :: nat
  RolledBackBytes :: nat
  CreditDeferrals :: nat
  BacklogDeferrals :: nat
  FeedbackDeferrals :: nat
  SizeDeferrals :: nat
  DeferredBytes :: nat
  FairnessDeferrals :: nat
  PeerBacklogHighWater :: nat
  GlobalBacklogHighWater :: nat
  MaximumAdmissionWaitMicroseconds :: nat
  OldestWaitMicroseconds :: nat
  GlobalCreditHighWater :: nat
  PeerCreditHighWater :: nat
  VerifiedAttributedRetirement :: nat
  TerminalReleasedBytes :: nat
  OutstandingBytes :: nat
  OutstandingHighWater :: nat
  ActiveDrainGrants :: nat
  DrainGrantsHighWater :: nat
  GrantDeferrals :: nat
  FundedDeferrals :: nat
  QualificationGrants :: nat
  NativeCapacityBytes :: nat
  NativeCapacityReturns :: nat

definition zero_metrics :: ReliableByteAdmissionMetrics where
  "zero_metrics =
     \<lparr>ReservedBytes = 0, AcceptedBytes = 0, RolledBackBytes = 0, CreditDeferrals = 0, BacklogDeferrals = 0,
      FeedbackDeferrals = 0, SizeDeferrals = 0, DeferredBytes = 0, FairnessDeferrals = 0, PeerBacklogHighWater = 0,
      GlobalBacklogHighWater = 0, MaximumAdmissionWaitMicroseconds = 0, OldestWaitMicroseconds = 0,
      GlobalCreditHighWater = 0, PeerCreditHighWater = 0, VerifiedAttributedRetirement = 0, TerminalReleasedBytes = 0,
      OutstandingBytes = 0, OutstandingHighWater = 0, ActiveDrainGrants = 0, DrainGrantsHighWater = 0,
      GrantDeferrals = 0, FundedDeferrals = 0, QualificationGrants = 0, NativeCapacityBytes = 0, NativeCapacityReturns = 0\<rparr>"

record ReliableByteAdmission =
  Profile :: ReliableServiceProfile
  Peers :: "(ConnectionId \<times> Peer) list"
  Global :: Bucket
  Totals :: ReliableByteAdmissionMetrics
  GlobalWait :: "ConnectionId option"
  Active :: "Reservation option"
  OrdinaryFunding :: "nat option"
  Now :: nat
  Step :: nat
  NextToken :: nat
  AggregateExposure :: nat
  NextDiagnosticDemandId :: nat
  Unobserved :: nat
  Initialized :: bool
  FeedbackComplete :: bool
  GlobalBacklogged :: bool
  Evidence :: "AdmissionEvidenceSink option"

text \<open>The constructor refuses an invalid profile with its message.\<close>

definition new_ReliableByteAdmission ::
    "AdmissionEvidenceSink option \<Rightarrow> ReliableServiceProfile \<Rightarrow> string + ReliableByteAdmission" where
  "new_ReliableByteAdmission sink p =
     (if \<not> Profile_IsValid p then Inl (Profile_ValidationError p)
      else Inr \<lparr>Profile = p, Peers = [], Global = new_Bucket, Totals = zero_metrics, GlobalWait = None, Active = None,
                OrdinaryFunding = None, Now = 0, Step = 0, NextToken = 0, AggregateExposure = 0,
                NextDiagnosticDemandId = 0, Unobserved = 0, Initialized = False, FeedbackComplete = False,
                GlobalBacklogged = False, Evidence = sink\<rparr>)"

definition find_peer :: "ConnectionId \<Rightarrow> ReliableByteAdmission \<Rightarrow> Peer option" where
  "find_peer i s = map_of (Peers s) i"

definition put_peer :: "ConnectionId \<Rightarrow> Peer \<Rightarrow> ReliableByteAdmission \<Rightarrow> ReliableByteAdmission" where
  "put_peer i v s = s\<lparr>Peers := AList.update i v (Peers s)\<rparr>"

section \<open>Buckets, rooms and counters\<close>

definition Add :: "nat \<Rightarrow> nat \<Rightarrow> nat" where
  "Add value amount = add64 value (min amount (sub64 u64_max value))"

definition ReleaseWait :: "ConnectionId \<Rightarrow> ReliableByteAdmission \<Rightarrow> ReliableByteAdmission" where
  "ReleaseWait i s = (if GlobalWait s = Some i then s\<lparr>GlobalWait := None\<rparr> else s)"

definition PeerCap :: "ReliableServiceProfile \<Rightarrow> nat" where
  "PeerCap p = (if IsPooled p then PeerBurstCap (Pooled p) else PeerBurst p)"

definition GlobalCap :: "ReliableServiceProfile \<Rightarrow> nat" where
  "GlobalCap p = (if IsPooled p then GlobalBurstCap (Pooled p) else GlobalBurst p)"

definition PeerRate :: "ReliableServiceProfile \<Rightarrow> nat" where
  "PeerRate p = (if IsPooled p then PeerCreditRate (Pooled p) else PeerStructuralRate p)"

definition GlobalRate :: "ReliableServiceProfile \<Rightarrow> nat" where
  "GlobalRate p = (if IsPooled p then GlobalCreditRate (Pooled p) else GlobalStructuralRate p)"

definition Refill :: "nat \<Rightarrow> nat \<Rightarrow> nat \<Rightarrow> Bucket \<Rightarrow> Bucket" where
  "Refill now rate cap v =
     (let Elapsed = sub64 now (Updated v);
          v1 = v\<lparr>Updated := now\<rparr>;
          Remaining = sub64 cap (CreditBytes v1);
          Seconds = Elapsed div 1000000
      in if Seconds > Remaining div rate then v1\<lparr>CreditBytes := cap, Remainder := 0\<rparr>
         else
           (let Fraction = add64 (mul64 (Elapsed mod 1000000) rate) (Remainder v1);
                Added = add64 (mul64 Seconds rate) (Fraction div 1000000);
                v2 = v1\<lparr>CreditBytes := add64 (CreditBytes v1) (min Remaining Added)\<rparr>
            in v2\<lparr>Remainder := (if CreditBytes v2 = cap then 0 else Fraction mod 1000000)\<rparr>))"

definition Advance :: "nat \<Rightarrow> ReliableByteAdmission \<Rightarrow> bool \<times> ReliableByteAdmission" where
  "Advance time s =
     (if Initialized s \<and> time < Now s then (False, s)
      else
        (let s1 = s\<lparr>Now := time\<rparr>;
             s2 = (if \<not> Initialized s1 then s1\<lparr>Initialized := True, Global := (Global s1)\<lparr>Updated := time\<rparr>\<rparr> else s1);
             s3 = s2\<lparr>Global := Refill (Now s2) (GlobalRate (Profile s2)) (GlobalCap (Profile s2)) (Global s2)\<rparr>
         in (True, s3\<lparr>Totals := (Totals s3)\<lparr>GlobalCreditHighWater :=
                        max (GlobalCreditHighWater (Totals s3)) (CreditBytes (Global s3))\<rparr>\<rparr>)))"

definition Room :: "nat \<Rightarrow> nat \<Rightarrow> bool \<Rightarrow> nat \<times> bool" where
  "Room exposure high latched =
     (let l1 = (if exposure > high then True else latched);
          l2 = (if l1 \<and> exposure \<le> sub64 high (min (high div 4) (MaximumReliableServiceGroupBytes div 4)) then False else l1)
      in (if l2 then 0 else sub64 high (min high exposure), l2))"

definition FundedRoom :: "ReliableByteAdmission \<Rightarrow> nat" where
  "FundedRoom s =
     (case OrdinaryFunding s of
        None \<Rightarrow> 0
      | Some funding \<Rightarrow>
          (let P = Pooled (Profile s);
               Funded = mul64 (BackendCap P) QueueWindowMicroseconds div 1000000;
               Transport = mul64 (RequiredTransportReserve P) QueueWindowMicroseconds div 1000000;
               Ordinary = max funding (PooledGameplayBurst + ControlBurst);
               Structural = (if SeparateNativeCapacity P then NativeCapacityBytes (Totals s) else OutstandingBytes (Totals s))
           in if Ordinary > Funded \<or> Transport > sub64 Funded Ordinary \<or>
                 Structural > sub64 (sub64 Funded Ordinary) Transport then 0
              else sub64 (sub64 (sub64 Funded Ordinary) Transport) Structural))"

definition QualifiedOrdinaryFundingLimit :: "ReliableServiceProfile \<Rightarrow> nat" where
  "QualifiedOrdinaryFundingLimit p =
     (let P = Pooled p
      in sub64 (sub64 (mul64 (BackendCap P) QueueWindowMicroseconds div 1000000)
                      (mul64 (RequiredTransportReserve P) QueueWindowMicroseconds div 1000000))
               (mul64 (MaximumDrainGrants P) MaximumReliableServiceGroupBytes))"

section \<open>Offering evidence\<close>

definition record_event :: "AdmissionEvidenceEvent \<Rightarrow> ReliableByteAdmission \<Rightarrow> ReliableByteAdmission" where
  "record_event e s =
     s\<lparr>Evidence := map_option (\<lambda>sink. sink\<lparr>Recorded := Recorded sink @ [e]\<rparr>) (Evidence s)\<rparr>"

definition sink_records :: "ReliableByteAdmission \<Rightarrow> bool" where
  "sink_records s = (case Evidence s of None \<Rightarrow> False | Some sink \<Rightarrow> Records sink)"

definition Emit :: "ConnectionId \<Rightarrow> Peer \<Rightarrow> AdmissionEvidenceKind \<Rightarrow> AdmissionEvidenceReason \<Rightarrow> nat \<Rightarrow> nat \<Rightarrow>
    ReliableByteAdmission \<Rightarrow> ReliableByteAdmission" where
  "Emit i v kind reason at token s =
     (if \<not> sink_records s \<or> DiagnosticDemandId v = 0 then s
      else record_event
        \<lparr>EventKind = kind, EventReason = reason, EventConnection = i, EventDemandId = DiagnosticDemandId v,
         EventEligibilityEpisode = DiagnosticEligibilityEpisode v, EventGrantToken = token,
         EventExactBytes = DiagnosticBytes v, EventAtMicroseconds = at,
         EventCreditThresholdAtMicroseconds = DiagnosticCreditThresholdAt v,
         EventEligibleSinceMicroseconds = DiagnosticEligibleAt v,
         EventPeerCreditBytes = CreditBytes (Credit v), EventGlobalCreditBytes = CreditBytes (Global s),
         EventActiveGrants = ActiveDrainGrants (Totals s), EventGrantDeferrals = GrantDeferrals (Totals s),
         EventFundedDeferrals = FundedDeferrals (Totals s), EventCreditDeferrals = CreditDeferrals (Totals s),
         EventFairnessDeferrals = FairnessDeferrals (Totals s),
         EventExactCandidateFingerprint = DiagnosticFingerprint v,
         EventRetainedBytes = OutstandingBytes (Totals s), EventNativeCapacityBytes = NativeCapacityBytes (Totals s),
         EventOrdinaryFundingBytes = (case OrdinaryFunding s of None \<Rightarrow> u64_max | Some b \<Rightarrow> b),
         EventOrdinaryUnsentBytes = (case Exposure v of None \<Rightarrow> u64_max | Some b \<Rightarrow> b)\<rparr> s)"

definition EmitGrantLifecycle :: "ConnectionId \<Rightarrow> Peer \<Rightarrow> AdmissionEvidenceKind \<Rightarrow> nat \<Rightarrow> AdmissionEvidenceReason \<Rightarrow> nat \<Rightarrow>
    ReliableByteAdmission \<Rightarrow> ReliableByteAdmission" where
  "EmitGrantLifecycle i v kind at reason nativeCompletedAt s =
     (if \<not> sink_records s \<or> DiagnosticGrantDemandId v = 0 then s
      else record_event
        \<lparr>EventKind = kind, EventReason = reason, EventConnection = i, EventDemandId = DiagnosticGrantDemandId v,
         EventEligibilityEpisode = 0, EventGrantToken = DiagnosticGrantToken v,
         EventExactBytes = DiagnosticGrantBytes v, EventAtMicroseconds = at,
         EventCreditThresholdAtMicroseconds = nativeCompletedAt, EventEligibleSinceMicroseconds = 0,
         EventPeerCreditBytes = CreditBytes (Credit v), EventGlobalCreditBytes = CreditBytes (Global s),
         EventActiveGrants = ActiveDrainGrants (Totals s), EventGrantDeferrals = GrantDeferrals (Totals s),
         EventFundedDeferrals = FundedDeferrals (Totals s), EventCreditDeferrals = CreditDeferrals (Totals s),
         EventFairnessDeferrals = FairnessDeferrals (Totals s), EventExactCandidateFingerprint = (0, 0),
         EventRetainedBytes = OutstandingBytes (Totals s), EventNativeCapacityBytes = NativeCapacityBytes (Totals s),
         EventOrdinaryFundingBytes = (case OrdinaryFunding s of None \<Rightarrow> u64_max | Some b \<Rightarrow> b),
         EventOrdinaryUnsentBytes = (case Exposure v of None \<Rightarrow> u64_max | Some b \<Rightarrow> b)\<rparr> s)"

definition ClearDiagnosticGrant :: "Peer \<Rightarrow> Peer" where
  "ClearDiagnosticGrant v = v\<lparr>DiagnosticGrantDemandId := 0, DiagnosticGrantBytes := 0, DiagnosticGrantToken := 0\<rparr>"

definition ClearDiagnosticDemand :: "Peer \<Rightarrow> Peer" where
  "ClearDiagnosticDemand v =
     v\<lparr>DiagnosticDemandId := 0, DiagnosticBytes := 0, DiagnosticDemandAt := 0, DiagnosticFingerprint := (0, 0),
       DiagnosticEligibleAt := 0, DiagnosticCreditThresholdAt := 0, DiagnosticEligibilityEpisode := 0,
       DiagnosticCreditReadyAt := None\<rparr>"

definition DisposeDemand :: "ConnectionId \<Rightarrow> Peer \<Rightarrow> AdmissionEvidenceReason \<Rightarrow> ReliableByteAdmission \<Rightarrow>
    Peer \<times> ReliableByteAdmission" where
  "DisposeDemand i v reason s = (ClearDiagnosticDemand v, Emit i v DemandDisposed reason (Now s) 0 s)"

definition ServiceFresh :: "ReliableByteAdmission \<Rightarrow> ServiceObservation \<Rightarrow> bool" where
  "ServiceFresh s obs \<longleftrightarrow> Available obs \<and> ObservedAtMicroseconds obs \<le> Now s \<and>
     sub64 (Now s) (ObservedAtMicroseconds obs) \<le> FeedbackFreshnessMicroseconds (Pooled (Profile s))"

definition CreditCrossing :: "ReliableServiceProfile \<Rightarrow> Bucket \<Rightarrow> Peer \<Rightarrow> nat" where
  "CreditCrossing p before v =
     (if CreditBytes before < DiagnosticBytes v
      then
        (let NeededByteMicroseconds = mul64 (sub64 (DiagnosticBytes v) (CreditBytes before)) 1000000;
             Numerator = (if NeededByteMicroseconds > Remainder before
                          then sub64 NeededByteMicroseconds (Remainder before) else 0);
             Rate = PeerRate p
         in max (DiagnosticDemandAt v)
              (add64 (add64 (Updated before) (Numerator div Rate)) (if Numerator mod Rate \<noteq> 0 then 1 else 0)))
      else DiagnosticDemandAt v)"

definition ObserveEligibility :: "ConnectionId \<Rightarrow> Bucket \<Rightarrow> Peer \<Rightarrow> ReliableByteAdmission \<Rightarrow>
    Peer \<times> ReliableByteAdmission" where
  "ObserveEligibility i before v s =
     (if Evidence s = None \<or> DiagnosticDemandId v = 0 then (v, s)
      else
        (let P = Pooled (Profile s);
             v1 = (if DiagnosticCreditReadyAt v = None \<and> CreditBytes (Credit v) \<ge> DiagnosticBytes v
                   then v\<lparr>DiagnosticCreditReadyAt := Some (CreditCrossing (Profile s) before v)\<rparr> else v);
             FeedbackValid = (FeedbackComplete s \<and> Unobserved s = 0 \<and> Seen v1 \<and> Exposure v1 \<noteq> None \<and>
               (\<not> IsPooled (Profile s) \<or>
                (case Service v1 of None \<Rightarrow> False
                 | Some obs \<Rightarrow> ServiceFresh s obs \<and> (Qualified obs \<or> Now s \<ge> NextQualification v1))));
             Resources = (\<not> IsPooled (Profile s) \<or> \<not> SeparateNativeCapacity P \<or>
               ((case Exposure v1 of None \<Rightarrow> False | Some e \<Rightarrow> e \<le> PeerOrdinaryUnsentLimit) \<and>
                OutstandingBytes (Totals s) \<le> GlobalPendingCap P \<and>
                DiagnosticBytes v1 \<le> sub64 (GlobalPendingCap P) (OutstandingBytes (Totals s)) \<and>
                (case OrdinaryFunding s of None \<Rightarrow> False | Some b \<Rightarrow> b \<le> QualifiedOrdinaryFundingLimit (Profile s))));
             Eligible = (FeedbackValid \<and> Resources \<and> \<not> OwnsGrant v1 \<and> CreditBytes (Credit v1) \<ge> DiagnosticBytes v1)
         in if \<not> Eligible
            then (if DiagnosticEligibleAt v1 \<noteq> 0
                  then (v1\<lparr>DiagnosticEligibleAt := 0\<rparr>,
                        Emit i v1 EligibilityInterrupted (if Resources then FeedbackUnavailable else ResourceUnavailable) (Now s) 0 s)
                  else (v1, s))
            else if DiagnosticEligibleAt v1 \<noteq> 0 then (v1, s)
            else
              (let v2 = v1\<lparr>DiagnosticEligibleAt := Now s,
                           DiagnosticCreditThresholdAt := (case DiagnosticCreditReadyAt v1 of None \<Rightarrow> 0 | Some t \<Rightarrow> t),
                           DiagnosticEligibilityEpisode := add64 (DiagnosticEligibilityEpisode v1) 1\<rparr>
               in (v2, Emit i v2 CreditEligible NoReason (Now s) 0 s))))"

definition ObserveExactDemand :: "ConnectionId \<Rightarrow> nat \<Rightarrow> nat \<Rightarrow> nat \<times> nat \<Rightarrow> ReliableByteAdmission \<Rightarrow> ReliableByteAdmission" where
  "ObserveExactDemand i completeBytes at fingerprint s =
     (if Evidence s = None \<or> completeBytes < MinimumFrameBytes \<or> completeBytes > MaximumReliableServiceGroupBytes then s
      else case find_peer i s of
        None \<Rightarrow> s
      | Some v \<Rightarrow>
          if DiagnosticBytes v = completeBytes \<and> DiagnosticFingerprint v = fingerprint \<and> DiagnosticDemandId v \<noteq> 0 then s
          else
            (let (v1, s1) = DisposeDemand i v Replaced s
             in if NextDiagnosticDemandId s1 = u64_max then put_peer i v1 s1
                else
                  (let s2 = s1\<lparr>NextDiagnosticDemandId := add64 (NextDiagnosticDemandId s1) 1\<rparr>;
                       v2 = v1\<lparr>DiagnosticBytes := completeBytes, DiagnosticFingerprint := fingerprint,
                               DiagnosticDemandId := NextDiagnosticDemandId s2, DiagnosticDemandAt := at\<rparr>
                   in Emit i v2 ExactDemand NoReason at 0 (put_peer i v2 s2))))"

section \<open>Observing the peers of a step\<close>

definition BeginStep :: "nat \<Rightarrow> ReliableByteAdmission \<Rightarrow> bool \<times> ReliableByteAdmission" where
  "BeginStep microseconds s =
     (if Active s \<noteq> None \<or> Step s = u64_max then (False, s)
      else case Advance microseconds s of
        (False, s1) \<Rightarrow> (False, s1)
      | (True, s1) \<Rightarrow>
          (True, s1\<lparr>Step := add64 (Step s1) 1, AggregateExposure := 0, FeedbackComplete := True,
             Unobserved := length (Peers s1), OrdinaryFunding := None,
             Peers := map (\<lambda>(i, v). (i, v\<lparr>Seen := False, Exposure := None, Service := None\<rparr>)) (Peers s1)\<rparr>))"

definition Observe :: "ConnectionId \<Rightarrow> nat option \<Rightarrow> ReliableByteAdmission \<Rightarrow> bool \<times> ReliableByteAdmission" where
  "Observe i exposure s =
     (if Step s = 0 \<or> \<not> ConnectionId_IsValid i then (False, s)
      else
        (let found =
           (case find_peer i s of
              Some v \<Rightarrow> Some (v, s)
            | None \<Rightarrow>
                if length (Peers s) \<ge> MaximumConnections (Profile s) then None
                else if list_ex (\<lambda>(other, v). ConnectionSlot other = ConnectionSlot i) (Peers s) then None
                else (let v = new_Peer\<lparr>Credit := (Credit new_Peer)\<lparr>Updated := Now s\<rparr>\<rparr>
                      in Some (v, s\<lparr>Peers := insort_key fst (i, v) (Peers s), Unobserved := add64 (Unobserved s) 1\<rparr>)))
         in case found of
              None \<Rightarrow> (False, s)
            | Some (v, s1) \<Rightarrow>
                if Seen v then (False, s1)
                else
                  (let v1 = v\<lparr>Seen := True, Exposure := exposure\<rparr>;
                       s2 = (put_peer i v1 s1)\<lparr>Unobserved := sub64 (Unobserved s1) 1\<rparr>
                   in (True,
                       case exposure of
                         None \<Rightarrow> s2\<lparr>FeedbackComplete := False\<rparr>
                       | Some e \<Rightarrow>
                           (let aggregate = Add (AggregateExposure s2) e
                            in s2\<lparr>AggregateExposure := aggregate,
                                  Totals := (Totals s2)\<lparr>PeerBacklogHighWater := max (PeerBacklogHighWater (Totals s2)) e,
                                    GlobalBacklogHighWater := max (GlobalBacklogHighWater (Totals s2)) aggregate\<rparr>\<rparr>)))))"

definition RefreshService :: "ConnectionId \<Rightarrow> ServiceObservation option \<Rightarrow> ReliableByteAdmission \<Rightarrow>
    bool \<times> ReliableByteAdmission" where
  "RefreshService i service s =
     (case find_peer i s of
        None \<Rightarrow> (False, s)
      | Some v \<Rightarrow>
          if \<not> IsPooled (Profile s) \<or> \<not> Seen v \<or> Active s \<noteq> None then (False, s)
          else
            (let v1 = v\<lparr>Service := service\<rparr>;
                 s1 = put_peer i v1 s
             in if OwnsGrant v1 \<and> Debt v1 = 0 \<and> (case service of None \<Rightarrow> False | Some obs \<Rightarrow> Available obs)
                then (if SeparateNativeCapacity (Pooled (Profile s)) \<and> OwnsNativeCapacity v1 then (False, s1)
                      else
                        (let v2 = v1\<lparr>OwnsGrant := False\<rparr>;
                             (v3, s2) = (if OwnsNativeCapacity v2
                                then (v2\<lparr>OwnsNativeCapacity := False\<rparr>,
                                      s1\<lparr>Totals := (Totals s1)\<lparr>ActiveDrainGrants := sub64 (ActiveDrainGrants (Totals s1)) 1,
                                        NativeCapacityBytes := sub64 (NativeCapacityBytes (Totals s1)) (PeerGrantBytes v2)\<rparr>\<rparr>)
                                else (v2, s1));
                             s3 = EmitGrantLifecycle i v3 GrantReleased (Now s2) NoReason 0 s2;
                             v4 = (ClearDiagnosticGrant v3)\<lparr>PeerGrantBytes := 0\<rparr>
                         in (True, put_peer i v4 s3)))
                else (True, s1)))"

definition ObserveService :: "ConnectionId \<Rightarrow> ServiceObservation option \<Rightarrow> ReliableByteAdmission \<Rightarrow>
    bool \<times> ReliableByteAdmission" where
  "ObserveService i service s =
     (if \<not> IsPooled (Profile s) then (False, s)
      else case Observe i (map_option (\<lambda>_. 0) service) s of
        (False, s1) \<Rightarrow> (False, s1)
      | (True, s1) \<Rightarrow> RefreshService i service s1)"

definition SetOrdinaryFunding :: "nat \<Rightarrow> ReliableByteAdmission \<Rightarrow> ReliableByteAdmission" where
  "SetOrdinaryFunding bytes s = s\<lparr>OrdinaryFunding := Some bytes\<rparr>"

definition SetOrdinaryUnsent :: "ConnectionId \<Rightarrow> nat \<Rightarrow> ReliableByteAdmission \<Rightarrow> bool \<times> ReliableByteAdmission" where
  "SetOrdinaryUnsent i bytes s =
     (case find_peer i s of
        None \<Rightarrow> (False, s)
      | Some v \<Rightarrow>
          (case Exposure v of
             None \<Rightarrow> (False, s)
           | Some exposure \<Rightarrow>
               if \<not> IsPooled (Profile s) then (False, s)
               else
                 (let Remaining = sub64 (AggregateExposure s) exposure
                  in if bytes > sub64 u64_max Remaining then (False, s)
                     else (True, (put_peer i (v\<lparr>Exposure := Some bytes\<rparr>) s)\<lparr>AggregateExposure := add64 Remaining bytes\<rparr>))))"

section \<open>Admission\<close>

text \<open>A refusal counts itself, gives up the turn and allows nothing.\<close>

definition count_feedback :: "ReliableByteAdmission \<Rightarrow> ReliableByteAdmission" where
  "count_feedback s = s\<lparr>Totals := (Totals s)\<lparr>FeedbackDeferrals := Add (FeedbackDeferrals (Totals s)) 1\<rparr>\<rparr>"

definition count_grant :: "ReliableByteAdmission \<Rightarrow> ReliableByteAdmission" where
  "count_grant s = s\<lparr>Totals := (Totals s)\<lparr>GrantDeferrals := Add (GrantDeferrals (Totals s)) 1\<rparr>\<rparr>"

definition count_funded :: "ReliableByteAdmission \<Rightarrow> ReliableByteAdmission" where
  "count_funded s = s\<lparr>Totals := (Totals s)\<lparr>FundedDeferrals := Add (FundedDeferrals (Totals s)) 1\<rparr>\<rparr>"

definition count_backlog :: "ReliableByteAdmission \<Rightarrow> ReliableByteAdmission" where
  "count_backlog s = s\<lparr>Totals := (Totals s)\<lparr>BacklogDeferrals := Add (BacklogDeferrals (Totals s)) 1\<rparr>\<rparr>"

definition count_credit :: "ReliableByteAdmission \<Rightarrow> ReliableByteAdmission" where
  "count_credit s = s\<lparr>Totals := (Totals s)\<lparr>CreditDeferrals := Add (CreditDeferrals (Totals s)) 1\<rparr>\<rparr>"

definition count_fairness :: "ReliableByteAdmission \<Rightarrow> ReliableByteAdmission" where
  "count_fairness s = s\<lparr>Totals := (Totals s)\<lparr>FairnessDeferrals := Add (FairnessDeferrals (Totals s)) 1\<rparr>\<rparr>"

text \<open>The peer that is asked for: its demand is noted, its credit refilled.\<close>

definition ExamineDemand :: "ConnectionId \<Rightarrow> Peer \<Rightarrow> ReliableByteAdmission \<Rightarrow> Peer \<times> ReliableByteAdmission" where
  "ExamineDemand i v s =
     (let v1 = v\<lparr>DemandStep := Step s\<rparr>;
          v2 = (if WaitSince v1 = None then v1\<lparr>WaitSince := Some (Now s)\<rparr> else v1);
          CreditBefore = Credit v2;
          v3 = v2\<lparr>Credit := Refill (Now s) (PeerRate (Profile s)) (PeerCap (Profile s)) (Credit v2)\<rparr>;
          s1 = s\<lparr>Totals := (Totals s)\<lparr>PeerCreditHighWater := max (PeerCreditHighWater (Totals s)) (CreditBytes (Credit v3))\<rparr>\<rparr>;
          (v4, s2) = ObserveEligibility i CreditBefore v3 s1
      in (v4, put_peer i v4 s2))"

definition ServiceUsable :: "ReliableByteAdmission \<Rightarrow> Peer \<Rightarrow> bool" where
  "ServiceUsable s v = (case Service v of None \<Rightarrow> False | Some obs \<Rightarrow> ServiceFresh s obs)"

definition GrantRefused :: "ReliableByteAdmission \<Rightarrow> Peer \<Rightarrow> bool" where
  "GrantRefused s v \<longleftrightarrow>
     OwnsGrant v \<or> ActiveDrainGrants (Totals s) \<ge> MaximumDrainGrants (Pooled (Profile s)) \<or>
     RequalificationMicroseconds (Pooled (Profile s)) > sub64 u64_max (Now s) \<or>
     (case Service v of None \<Rightarrow> False | Some obs \<Rightarrow> \<not> Qualified obs \<and> Now s < NextQualification v)"

text \<open>
  The rooms a frame has to fit, with the two latches they set: in the backlog of the peer, in
  that of the server, and below the bytes retained for all peers.
\<close>

definition PeerRoomOf :: "ReliableByteAdmission \<Rightarrow> Peer \<Rightarrow> nat \<Rightarrow> nat \<times> bool" where
  "PeerRoomOf s v exposure =
     (if IsPooled (Profile s)
      then (if exposure \<le> PeerOrdinaryUnsentLimit then MaximumReliableServiceGroupBytes else 0, Backlogged v)
      else Room exposure (sub64 (PeerBacklog (Profile s)) (GameplayBurst (Profile s))) (Backlogged v))"

definition GlobalRoomOf :: "ReliableByteAdmission \<Rightarrow> nat \<times> bool" where
  "GlobalRoomOf s =
     (if IsPooled (Profile s) then (FundedRoom s, GlobalBacklogged s)
      else Room (AggregateExposure s)
        (sub64 (GlobalBacklog (Profile s)) (mul64 (GameplayBurst (Profile s)) (MaximumConnections (Profile s))))
        (GlobalBacklogged s))"

definition RetainedRoomOf :: "ReliableByteAdmission \<Rightarrow> nat" where
  "RetainedRoomOf s =
     (if IsPooled (Profile s)
      then sub64 (GlobalPendingCap (Pooled (Profile s)))
                 (min (OutstandingBytes (Totals s)) (GlobalPendingCap (Pooled (Profile s))))
      else u64_max)"

text \<open>What the examined peer may send: nothing, for one of the reasons that are counted, or the least of the rooms.\<close>

definition Admit :: "ConnectionId \<Rightarrow> Peer \<Rightarrow> ReliableByteAdmission \<Rightarrow> nat \<times> ReliableByteAdmission" where
  "Admit i v s =
     (if \<not> FeedbackComplete s \<or> Unobserved s \<noteq> 0 \<or> \<not> Seen v \<or> Exposure v = None
      then (0, ReleaseWait i (count_feedback s))
      else if IsPooled (Profile s) \<and> \<not> ServiceUsable s v then (0, ReleaseWait i (count_feedback s))
      else if IsPooled (Profile s) \<and> GrantRefused s v then (0, ReleaseWait i (count_grant s))
      else
        (let (PeerRoom, peerLatch) = PeerRoomOf s v (the (Exposure v));
             (GlobalRoom, globalLatch) = GlobalRoomOf s;
             RetainedRoom = RetainedRoomOf s;
             s2 = (put_peer i (v\<lparr>Backlogged := peerLatch\<rparr>) s)\<lparr>GlobalBacklogged := globalLatch\<rparr>
         in if PeerRoom < Required v \<or> GlobalRoom < Required v \<or> RetainedRoom < Required v
            then (0, ReleaseWait i (count_backlog (if IsPooled (Profile s2) then count_funded s2 else s2)))
            else if CreditBytes (Credit v) < Required v then (0, ReleaseWait i (count_credit s2))
            else if GlobalWait s2 \<noteq> None \<and> GlobalWait s2 \<noteq> Some i then (0, count_fairness s2)
            else if CreditBytes (Global s2) < Required v then (0, count_credit (s2\<lparr>GlobalWait := Some i\<rparr>))
            else (min (CreditBytes (Credit v)) (min (CreditBytes (Global s2)) (min PeerRoom (min GlobalRoom
                    (min RetainedRoom MaximumReliableServiceGroupBytes)))), s2)))"

definition Allowance :: "ConnectionId \<Rightarrow> nat \<Rightarrow> ReliableByteAdmission \<Rightarrow> nat \<times> ReliableByteAdmission" where
  "Allowance i microseconds s =
     (if Active s \<noteq> None then (0, s)
      else case Advance microseconds s of
        (False, s1) \<Rightarrow> (0, s1)
      | (True, s1) \<Rightarrow>
          (case find_peer i s1 of
             None \<Rightarrow> (0, s1)
           | Some v \<Rightarrow> (let (v1, s2) = ExamineDemand i v s1 in Admit i v1 s2)))"

definition DeferSize :: "ConnectionId \<Rightarrow> nat \<Rightarrow> nat \<times> nat \<Rightarrow> ReliableByteAdmission \<Rightarrow> ReliableByteAdmission" where
  "DeferSize i completeBytes fingerprint s =
     (case find_peer i s of
        None \<Rightarrow> s
      | Some v \<Rightarrow>
          if completeBytes < MinimumFrameBytes \<or> completeBytes > MaximumReliableServiceGroupBytes then s
          else
            (let s1 = put_peer i (v\<lparr>Required := completeBytes\<rparr>) s;
                 s2 = ObserveExactDemand i completeBytes (Now s1) fingerprint s1;
                 s3 = s2\<lparr>Totals := (Totals s2)\<lparr>SizeDeferrals := Add (SizeDeferrals (Totals s2)) 1,
                        DeferredBytes := Add (DeferredBytes (Totals s2)) completeBytes\<rparr>\<rparr>
             in snd (Allowance i (Now s3) s3)))"

definition Reserve :: "ConnectionId \<Rightarrow> nat \<Rightarrow> ReliableByteAdmission \<Rightarrow> Reservation option \<times> ReliableByteAdmission" where
  "Reserve i bytes s0 =
     (if bytes < MinimumFrameBytes then (None, s0)
      else
        (let (allowed, s) = Allowance i (Now s0) s0
         in if bytes > allowed \<or> NextToken s = u64_max then (None, s)
            else if IsPooled (Profile s) \<and> bytes > sub64 u64_max (AcceptedBytes (Totals s)) then (None, s)
            else (case find_peer i s of
                None \<Rightarrow> (None, s)
              | Some v \<Rightarrow>
             (case Exposure v of
                None \<Rightarrow> (None, s)
              | Some e \<Rightarrow>
                  (let v1 = v\<lparr>Credit := (Credit v)\<lparr>CreditBytes := sub64 (CreditBytes (Credit v)) bytes\<rparr>\<rparr>;
                       s1 = s\<lparr>Global := (Global s)\<lparr>CreditBytes := sub64 (CreditBytes (Global s)) bytes\<rparr>\<rparr>;
                       exposure = (if IsPooled (Profile s) then e else Add e bytes);
                       aggregate = (if IsPooled (Profile s) then AggregateExposure s1 else Add (AggregateExposure s1) bytes);
                       r = \<lparr>Token = add64 (NextToken s1) 1, ReservedConnection = i, ReservationBytes = bytes\<rparr>;
                       s2 = (put_peer i (v1\<lparr>Exposure := Some exposure\<rparr>) s1)\<lparr>AggregateExposure := aggregate,
                              NextToken := Token r, Active := Some r,
                              Totals := (Totals s1)\<lparr>PeerBacklogHighWater := max (PeerBacklogHighWater (Totals s1)) exposure,
                                GlobalBacklogHighWater := max (GlobalBacklogHighWater (Totals s1)) aggregate,
                                ReservedBytes := Add (ReservedBytes (Totals s1)) bytes\<rparr>\<rparr>
                   in (Some r, s2))))))"

text \<open>A committed frame of the pooled mode becomes the debt of its peer and owns a grant.\<close>

definition OwnDebt :: "Reservation \<Rightarrow> Peer \<Rightarrow> ReliableByteAdmission \<Rightarrow> Peer \<times> ReliableByteAdmission" where
  "OwnDebt receipt v s =
     (let bytes = ReservationBytes receipt;
          t = Totals s;
          outstanding = add64 (OutstandingBytes t) bytes;
          grants = add64 (ActiveDrainGrants t) 1;
          t1 = t\<lparr>NativeCapacityBytes := add64 (NativeCapacityBytes t) bytes, OutstandingBytes := outstanding,
                 ActiveDrainGrants := grants, OutstandingHighWater := max (OutstandingHighWater t) outstanding,
                 DrainGrantsHighWater := max (DrainGrantsHighWater t) grants\<rparr>;
          qualified = (case Service v of None \<Rightarrow> False | Some obs \<Rightarrow> Qualified obs);
          t2 = (if \<not> qualified then t1\<lparr>QualificationGrants := Add (QualificationGrants t1) 1\<rparr> else t1)
      in (v\<lparr>Debt := bytes, DebtToken := Token receipt, OwnsGrant := True, OwnsNativeCapacity := True,
             PeerGrantBytes := bytes,
             NextQualification := add64 (Now s) (RequalificationMicroseconds (Pooled (Profile s)))\<rparr>,
          s\<lparr>Totals := t2\<rparr>))"

definition Commit :: "Reservation \<Rightarrow> nat \<Rightarrow> ReliableByteAdmission \<Rightarrow> bool \<times> ReliableByteAdmission" where
  "Commit receipt diagnosticAcceptedAt s =
     (if Active s \<noteq> Some receipt then (False, s)
      else (case find_peer (ReservedConnection receipt) s of
        None \<Rightarrow> (False, s)
      | Some v \<Rightarrow>
          (let i = ReservedConnection receipt; bytes = ReservationBytes receipt;
               (v1, s1) = (if IsPooled (Profile s) then OwnDebt receipt v s else (v, s));
               s2 = (case WaitSince v1 of None \<Rightarrow> s1
                     | Some since \<Rightarrow> s1\<lparr>Totals := (Totals s1)\<lparr>MaximumAdmissionWaitMicroseconds :=
                         max (MaximumAdmissionWaitMicroseconds (Totals s1)) (sub64 (Now s1) since)\<rparr>\<rparr>);
               s3 = Emit i v1 GrantAccepted NoReason (if diagnosticAcceptedAt = u64_max then Now s2 else diagnosticAcceptedAt)
                      (Token receipt) s2;
               v2 = ClearDiagnosticDemand
                      (v1\<lparr>DiagnosticGrantDemandId := DiagnosticDemandId v1, DiagnosticGrantBytes := bytes,
                          DiagnosticGrantToken := Token receipt\<rparr>);
               v3 = v2\<lparr>WaitSince := None, Required := MinimumFrameBytes\<rparr>;
               s4 = (put_peer i v3 s3)\<lparr>Totals := (Totals s3)\<lparr>AcceptedBytes := Add (AcceptedBytes (Totals s3)) bytes\<rparr>,
                                         Active := None\<rparr>
           in (True, ReleaseWait i s4))))"

definition Rollback :: "Reservation \<Rightarrow> ReliableByteAdmission \<Rightarrow> bool \<times> ReliableByteAdmission" where
  "Rollback receipt s =
     (if Active s \<noteq> Some receipt then (False, s)
      else (case find_peer (ReservedConnection receipt) s of
        None \<Rightarrow> (False, s)
      | Some v \<Rightarrow>
          (let i = ReservedConnection receipt; bytes = ReservationBytes receipt;
               s1 = Emit i v ReservationRolledBack RollbackReason (Now s) (Token receipt) s;
               credit = CreditBytes (Credit v);
               v1 = v\<lparr>Credit := (Credit v)\<lparr>CreditBytes := add64 credit (min bytes (sub64 (PeerCap (Profile s1)) credit))\<rparr>\<rparr>;
               fund = CreditBytes (Global s1);
               s2 = s1\<lparr>Global := (Global s1)\<lparr>CreditBytes := add64 fund (min bytes (sub64 (GlobalCap (Profile s1)) fund))\<rparr>\<rparr>;
               (v2, s3) = (if IsPooled (Profile s2) then (v1, s2)
                           else (v1\<lparr>Exposure := map_option (\<lambda>e. sub64 e bytes) (Exposure v1)\<rparr>,
                                 s2\<lparr>AggregateExposure := sub64 (AggregateExposure s2) bytes\<rparr>))
           in (True, (put_peer i v2 s3)\<lparr>Totals := (Totals s3)\<lparr>RolledBackBytes := Add (RolledBackBytes (Totals s3)) bytes\<rparr>,
                                        Active := None\<rparr>))))"

section \<open>Completion, retirement and the end of a connection\<close>

definition CompleteNativeSend :: "ConnectionId \<Rightarrow> nat \<Rightarrow> nat \<Rightarrow> nat \<Rightarrow> nat \<Rightarrow> nat \<Rightarrow> ReliableByteAdmission \<Rightarrow>
    bool \<times> ReliableByteAdmission" where
  "CompleteNativeSend i token bytes observedAt consumedAt nativeCompletedAt s =
     (case find_peer i s of
        None \<Rightarrow> (False, s)
      | Some v \<Rightarrow>
     (if \<not> IsPooled (Profile s) \<or> \<not> SeparateNativeCapacity (Pooled (Profile s)) \<or> Active s \<noteq> None \<or>
         token = 0 \<or> bytes = 0 \<or> nativeCompletedAt > observedAt \<or> observedAt > consumedAt \<or>
         sub64 consumedAt observedAt > FeedbackFreshnessMicroseconds (Pooled (Profile s)) then (False, s)
      else case Advance consumedAt s of
        (False, s1) \<Rightarrow> (False, s1)
      | (True, s1) \<Rightarrow>
          if \<not> OwnsGrant v \<or> DebtToken v \<noteq> token \<or> Debt v \<noteq> bytes \<or> PeerGrantBytes v \<noteq> bytes then (False, s1)
          else if \<not> OwnsNativeCapacity v then (True, s1)
          else if ActiveDrainGrants (Totals s1) = 0 \<or> NativeCapacityBytes (Totals s1) < bytes \<or>
                  NativeCapacityReturns (Totals s1) = u64_max then (False, s1)
          else
            (let v1 = v\<lparr>OwnsNativeCapacity := False\<rparr>;
                 s2 = s1\<lparr>Totals := (Totals s1)\<lparr>ActiveDrainGrants := sub64 (ActiveDrainGrants (Totals s1)) 1,
                        NativeCapacityBytes := sub64 (NativeCapacityBytes (Totals s1)) bytes,
                        NativeCapacityReturns := add64 (NativeCapacityReturns (Totals s1)) 1\<rparr>\<rparr>
             in (True, put_peer i v1 (EmitGrantLifecycle i v1 NativeCapacityReturned (Now s2) NoReason nativeCompletedAt s2)))))"

definition Retire :: "ConnectionId \<Rightarrow> nat \<Rightarrow> nat \<Rightarrow> ReliableByteAdmission \<Rightarrow> bool \<times> ReliableByteAdmission" where
  "Retire i token bytes s =
     (case find_peer i s of
        None \<Rightarrow> (False, s)
      | Some v \<Rightarrow>
          if \<not> IsPooled (Profile s) \<or> token = 0 \<or> bytes = 0 \<or> DebtToken v \<noteq> token \<or> Debt v \<noteq> bytes \<or>
             bytes > sub64 u64_max (VerifiedAttributedRetirement (Totals s)) then (False, s)
          else
            (let s1 = EmitGrantLifecycle i v GrantRetired (Now s) NoReason 0 s
             in (True, (put_peer i (v\<lparr>Debt := 0, DebtToken := 0\<rparr>) s1)
                   \<lparr>Totals := (Totals s1)\<lparr>OutstandingBytes := sub64 (OutstandingBytes (Totals s1)) bytes,
                      VerifiedAttributedRetirement := add64 (VerifiedAttributedRetirement (Totals s1)) bytes\<rparr>\<rparr>)))"

definition ErasePeer :: "ConnectionId \<Rightarrow> ReliableByteAdmission \<Rightarrow> ReliableByteAdmission" where
  "ErasePeer i s =
     (case find_peer i s of
        None \<Rightarrow> ReleaseWait i s
      | Some v \<Rightarrow>
          if IsPooled (Profile s) \<and> OwnsGrant v then s
          else
            (let (v1, s1) = DisposeDemand i v GenerationRemoved s;
                 s2 = (case Exposure v1 of
                         None \<Rightarrow> s1
                       | Some e \<Rightarrow> s1\<lparr>AggregateExposure := sub64 (AggregateExposure s1) (min (AggregateExposure s1) e)\<rparr>);
                 s3 = (if \<not> Seen v1 \<and> Unobserved s2 \<noteq> 0 then s2\<lparr>Unobserved := sub64 (Unobserved s2) 1\<rparr> else s2)
             in ReleaseWait i (s3\<lparr>Peers := AList.delete i (Peers s3)\<rparr>)))"

definition Remove :: "ConnectionId \<Rightarrow> ReliableByteAdmission \<Rightarrow> ReliableByteAdmission" where
  "Remove i s =
     ErasePeer i (case Active s of
         None \<Rightarrow> s
       | Some r \<Rightarrow> if ReservedConnection r = i then snd (Rollback r s) else s)"

definition TerminalRelease :: "ConnectionId \<Rightarrow> ReliableByteAdmission \<Rightarrow> bool \<times> ReliableByteAdmission" where
  "TerminalRelease i s =
     (case find_peer i s of
        None \<Rightarrow> (False, s)
      | Some v \<Rightarrow>
          if \<not> IsPooled (Profile s) \<or> (case Active s of None \<Rightarrow> False | Some r \<Rightarrow> ReservedConnection r = i) then (False, s)
          else if Debt v > sub64 u64_max (TerminalReleasedBytes (Totals s)) then (False, s)
          else
            (let bytes = Debt v;
                 s1 = s\<lparr>Totals := (Totals s)\<lparr>TerminalReleasedBytes := add64 (TerminalReleasedBytes (Totals s)) bytes,
                       OutstandingBytes := sub64 (OutstandingBytes (Totals s)) bytes\<rparr>\<rparr>;
                 s2 = (if OwnsNativeCapacity v
                       then s1\<lparr>Totals := (Totals s1)\<lparr>ActiveDrainGrants := sub64 (ActiveDrainGrants (Totals s1)) 1,
                              NativeCapacityBytes := sub64 (NativeCapacityBytes (Totals s1)) (PeerGrantBytes v)\<rparr>\<rparr>
                       else s1);
                 s3 = (if OwnsGrant v
                       then EmitGrantLifecycle i v GrantTerminalReleased (Now s2)
                              (if bytes \<noteq> 0 then TerminalReleaseReason else NoReason) 0 s2
                       else s2);
                 v1 = ClearDiagnosticGrant (v\<lparr>OwnsGrant := False, OwnsNativeCapacity := False, PeerGrantBytes := 0,
                        Debt := 0, DebtToken := 0\<rparr>);
                 (v2, s4) = DisposeDemand i v1 TerminalReleaseReason s3
             in (True, Remove i (put_peer i v2 s4))))"

definition ForgetDemand :: "ConnectionId \<Rightarrow> AdmissionEvidenceReason \<Rightarrow> ReliableByteAdmission \<Rightarrow> ReliableByteAdmission" where
  "ForgetDemand i reason s =
     (case find_peer i s of
        None \<Rightarrow> s
      | Some v \<Rightarrow>
          (let (v1, s1) = DisposeDemand i v reason s
           in put_peer i (v1\<lparr>Required := MinimumFrameBytes, WaitSince := None, DemandStep := 0\<rparr>) s1))"

definition NoWork :: "ConnectionId \<Rightarrow> bool \<Rightarrow> nat \<Rightarrow> ReliableByteAdmission \<Rightarrow> bool \<times> ReliableByteAdmission" where
  "NoWork i sourceEmpty at s =
     (if \<not> sourceEmpty then (True, ReleaseWait i (ForgetDemand i NoWorkReason s))
      else if at = u64_max \<or> find_peer i s = None then (False, s)
      else case Advance at s of
        (False, s1) \<Rightarrow> (False, s1)
      | (True, s1) \<Rightarrow> (True, ReleaseWait i (ForgetDemand i SourceEmptyReason s1)))"

definition DeferSource :: "ConnectionId \<Rightarrow> ReliableByteAdmission \<Rightarrow> ReliableByteAdmission" where
  "DeferSource i s = ReleaseWait i s"

definition MeasureWait :: "ConnectionId \<Rightarrow> ReliableByteAdmission \<Rightarrow> ReliableByteAdmission" where
  "MeasureWait i s =
     (case find_peer i s of
        None \<Rightarrow> s
      | Some v \<Rightarrow>
          (case WaitSince v of
             None \<Rightarrow> s
           | Some since \<Rightarrow>
               s\<lparr>Totals := (Totals s)\<lparr>OldestWaitMicroseconds :=
                 max (OldestWaitMicroseconds (Totals s)) (sub64 (Now s) since)\<rparr>\<rparr>))"

definition EndPeer :: "ConnectionId \<Rightarrow> ReliableByteAdmission \<Rightarrow> ReliableByteAdmission" where
  "EndPeer i s =
     (case find_peer i s of
        None \<Rightarrow> s
      | Some v \<Rightarrow>
          MeasureWait i
            (if DemandStep v \<noteq> Step s
             then (let (v1, s1) = DisposeDemand i v Unexamined s in snd (NoWork i False u64_max (put_peer i v1 s1)))
             else s))"

definition EndStep :: "ReliableByteAdmission \<Rightarrow> ReliableByteAdmission" where
  "EndStep s =
     (let s1 = s\<lparr>Totals := (Totals s)\<lparr>OldestWaitMicroseconds := 0\<rparr>\<rparr>;
          s2 = fold EndPeer (map fst (Peers s1)) s1
      in if Peers s2 = [] then s2\<lparr>Totals := (Totals s2)\<lparr>OldestWaitMicroseconds := 0\<rparr>\<rparr> else s2)"

definition DebtOf :: "ConnectionId \<Rightarrow> ReliableByteAdmission \<Rightarrow> nat" where
  "DebtOf i s = (case find_peer i s of None \<Rightarrow> 0 | Some v \<Rightarrow> Debt v)"

definition DebtTokenOf :: "ConnectionId \<Rightarrow> ReliableByteAdmission \<Rightarrow> nat" where
  "DebtTokenOf i s = (case find_peer i s of None \<Rightarrow> 0 | Some v \<Rightarrow> DebtToken v)"

definition PeerCount :: "ReliableByteAdmission \<Rightarrow> nat" where
  "PeerCount s = length (Peers s)"

section \<open>Histories\<close>

text \<open>
  The operations with their arguments, what they answer, and a run of them. The pointer to the
  sink belongs to the thread, so between two operations it can be set.
\<close>

datatype AdmissionOp =
    DoBeginStep nat
  | DoObserve ConnectionId "nat option"
  | DoObserveService ConnectionId "ServiceObservation option"
  | DoRefreshService ConnectionId "ServiceObservation option"
  | DoCompleteNativeSend ConnectionId nat nat nat nat nat
  | DoSetOrdinaryFunding nat
  | DoSetOrdinaryUnsent ConnectionId nat
  | DoRetire ConnectionId nat nat
  | DoTerminalRelease ConnectionId
  | DoAllowance ConnectionId nat
  | DoDeferSize ConnectionId nat "nat \<times> nat"
  | DoObserveExactDemand ConnectionId nat nat "nat \<times> nat"
  | DoReserve ConnectionId nat
  | DoCommit Reservation nat
  | DoRollback Reservation
  | DoNoWork ConnectionId bool nat
  | DoDeferSource ConnectionId
  | DoRemove ConnectionId
  | DoEndStep
  | DoInstallSink "AdmissionEvidenceSink option"

datatype AdmissionAnswer = Nothing | Truth bool | Amount nat | Receipt "Reservation option"

fun perform :: "AdmissionOp \<Rightarrow> ReliableByteAdmission \<Rightarrow> AdmissionAnswer \<times> ReliableByteAdmission" where
  "perform (DoBeginStep t) s = map_prod Truth id (BeginStep t s)"
| "perform (DoObserve i e) s = map_prod Truth id (Observe i e s)"
| "perform (DoObserveService i obs) s = map_prod Truth id (ObserveService i obs s)"
| "perform (DoRefreshService i obs) s = map_prod Truth id (RefreshService i obs s)"
| "perform (DoCompleteNativeSend i token bytes t u w) s = map_prod Truth id (CompleteNativeSend i token bytes t u w s)"
| "perform (DoSetOrdinaryFunding b) s = (Nothing, SetOrdinaryFunding b s)"
| "perform (DoSetOrdinaryUnsent i b) s = map_prod Truth id (SetOrdinaryUnsent i b s)"
| "perform (DoRetire i token bytes) s = map_prod Truth id (Retire i token bytes s)"
| "perform (DoTerminalRelease i) s = map_prod Truth id (TerminalRelease i s)"
| "perform (DoAllowance i t) s = map_prod Amount id (Allowance i t s)"
| "perform (DoDeferSize i b f) s = (Nothing, DeferSize i b f s)"
| "perform (DoObserveExactDemand i b t f) s = (Nothing, ObserveExactDemand i b t f s)"
| "perform (DoReserve i b) s = map_prod Receipt id (Reserve i b s)"
| "perform (DoCommit r t) s = map_prod Truth id (Commit r t s)"
| "perform (DoRollback r) s = map_prod Truth id (Rollback r s)"
| "perform (DoNoWork i e t) s = map_prod Truth id (NoWork i e t s)"
| "perform (DoDeferSource i) s = (Nothing, DeferSource i s)"
| "perform (DoRemove i) s = (Nothing, Remove i s)"
| "perform DoEndStep s = (Nothing, EndStep s)"
| "perform (DoInstallSink sink) s = (Nothing, s\<lparr>Evidence := sink\<rparr>)"

fun performs :: "AdmissionOp list \<Rightarrow> ReliableByteAdmission \<Rightarrow> AdmissionAnswer list \<times> ReliableByteAdmission" where
  "performs [] s = ([], s)"
| "performs (a # as) s = (let (x, s1) = perform a s; (xs, s2) = performs as s1 in (x # xs, s2))"

end
