(* ===== verification/AdmissionEvidence.thy ===== *)
theory AdmissionEvidence imports ByteAdmission begin

text \<open>
  The evidence of \<open>ByteAdmission\<close> is an observation only. \<open>blind\<close> removes the sink, the counter
  of demands and what a peer keeps of a demand; every operation commutes with it, so whatever is
  recorded, answers and accounts are those of a run nobody observes.
\<close>

section \<open>The state without the evidence\<close>

definition blind_peer :: "Peer \<Rightarrow> Peer" where
  "blind_peer v = v\<lparr>DiagnosticGrantDemandId := 0, DiagnosticDemandId := 0, DiagnosticBytes := 0, DiagnosticDemandAt := 0,
     DiagnosticFingerprint := (0, 0), DiagnosticEligibleAt := 0, DiagnosticCreditThresholdAt := 0,
     DiagnosticEligibilityEpisode := 0, DiagnosticCreditReadyAt := None\<rparr>"

definition blind_entry :: "ConnectionId \<times> Peer \<Rightarrow> ConnectionId \<times> Peer" where
  "blind_entry = map_prod id blind_peer"

definition blind :: "ReliableByteAdmission \<Rightarrow> ReliableByteAdmission" where
  "blind s = s\<lparr>Peers := map blind_entry (Peers s), NextDiagnosticDemandId := 0, Evidence := None\<rparr>"

named_theorems blind_simps "the blinded state read and written"

lemma blind_peer_select [blind_simps]:
  "Credit (blind_peer v) = Credit v" "Exposure (blind_peer v) = Exposure v" "WaitSince (blind_peer v) = WaitSince v"
  "Required (blind_peer v) = Required v" "DemandStep (blind_peer v) = DemandStep v" "Seen (blind_peer v) = Seen v"
  "Backlogged (blind_peer v) = Backlogged v" "OwnsGrant (blind_peer v) = OwnsGrant v"
  "OwnsNativeCapacity (blind_peer v) = OwnsNativeCapacity v" "Service (blind_peer v) = Service v"
  "Debt (blind_peer v) = Debt v" "DebtToken (blind_peer v) = DebtToken v"
  "NextQualification (blind_peer v) = NextQualification v" "PeerGrantBytes (blind_peer v) = PeerGrantBytes v"
  "DiagnosticDemandId (blind_peer v) = 0" "DiagnosticGrantDemandId (blind_peer v) = 0"
  by (simp_all add: blind_peer_def)

lemma blind_peer_update [blind_simps]:
  "blind_peer (v\<lparr>Credit := c\<rparr>) = (blind_peer v)\<lparr>Credit := c\<rparr>"
  "blind_peer (v\<lparr>Exposure := e\<rparr>) = (blind_peer v)\<lparr>Exposure := e\<rparr>"
  "blind_peer (v\<lparr>WaitSince := w\<rparr>) = (blind_peer v)\<lparr>WaitSince := w\<rparr>"
  "blind_peer (v\<lparr>Required := n\<rparr>) = (blind_peer v)\<lparr>Required := n\<rparr>"
  "blind_peer (v\<lparr>DemandStep := n\<rparr>) = (blind_peer v)\<lparr>DemandStep := n\<rparr>"
  "blind_peer (v\<lparr>Seen := b\<rparr>) = (blind_peer v)\<lparr>Seen := b\<rparr>"
  "blind_peer (v\<lparr>Backlogged := b\<rparr>) = (blind_peer v)\<lparr>Backlogged := b\<rparr>"
  "blind_peer (v\<lparr>OwnsGrant := b\<rparr>) = (blind_peer v)\<lparr>OwnsGrant := b\<rparr>"
  "blind_peer (v\<lparr>OwnsNativeCapacity := b\<rparr>) = (blind_peer v)\<lparr>OwnsNativeCapacity := b\<rparr>"
  "blind_peer (v\<lparr>Service := q\<rparr>) = (blind_peer v)\<lparr>Service := q\<rparr>"
  "blind_peer (v\<lparr>Debt := n\<rparr>) = (blind_peer v)\<lparr>Debt := n\<rparr>"
  "blind_peer (v\<lparr>DebtToken := n\<rparr>) = (blind_peer v)\<lparr>DebtToken := n\<rparr>"
  "blind_peer (v\<lparr>NextQualification := n\<rparr>) = (blind_peer v)\<lparr>NextQualification := n\<rparr>"
  "blind_peer (v\<lparr>PeerGrantBytes := n\<rparr>) = (blind_peer v)\<lparr>PeerGrantBytes := n\<rparr>"
  "blind_peer (v\<lparr>DiagnosticGrantBytes := n\<rparr>) = (blind_peer v)\<lparr>DiagnosticGrantBytes := n\<rparr>"
  "blind_peer (v\<lparr>DiagnosticGrantToken := n\<rparr>) = (blind_peer v)\<lparr>DiagnosticGrantToken := n\<rparr>"
  "blind_peer (v\<lparr>DiagnosticGrantDemandId := n\<rparr>) = blind_peer v"
  "blind_peer (v\<lparr>DiagnosticDemandId := n\<rparr>) = blind_peer v"
  "blind_peer (v\<lparr>DiagnosticBytes := n\<rparr>) = blind_peer v"
  "blind_peer (v\<lparr>DiagnosticDemandAt := n\<rparr>) = blind_peer v"
  "blind_peer (v\<lparr>DiagnosticFingerprint := x\<rparr>) = blind_peer v"
  "blind_peer (v\<lparr>DiagnosticEligibleAt := n\<rparr>) = blind_peer v"
  "blind_peer (v\<lparr>DiagnosticCreditThresholdAt := n\<rparr>) = blind_peer v"
  "blind_peer (v\<lparr>DiagnosticEligibilityEpisode := n\<rparr>) = blind_peer v"
  "blind_peer (v\<lparr>DiagnosticCreditReadyAt := w\<rparr>) = blind_peer v"
  "(blind_peer v)\<lparr>DiagnosticGrantDemandId := 0\<rparr> = blind_peer v"
  by (simp_all add: blind_peer_def)

lemma blind_peer_new [blind_simps]: "blind_peer new_Peer = new_Peer"
  by (simp add: blind_peer_def new_Peer_def)

lemma blind_select [blind_simps]:
  "Profile (blind s) = Profile s" "Global (blind s) = Global s" "Totals (blind s) = Totals s"
  "GlobalWait (blind s) = GlobalWait s" "Active (blind s) = Active s" "OrdinaryFunding (blind s) = OrdinaryFunding s"
  "Now (blind s) = Now s" "Step (blind s) = Step s" "NextToken (blind s) = NextToken s"
  "AggregateExposure (blind s) = AggregateExposure s" "Unobserved (blind s) = Unobserved s"
  "Initialized (blind s) = Initialized s" "FeedbackComplete (blind s) = FeedbackComplete s"
  "GlobalBacklogged (blind s) = GlobalBacklogged s" "Evidence (blind s) = None"
  "Peers (blind s) = map blind_entry (Peers s)"
  by (simp_all add: blind_def)

lemma blind_update [blind_simps]:
  "blind (s\<lparr>Global := g\<rparr>) = (blind s)\<lparr>Global := g\<rparr>"
  "blind (s\<lparr>Totals := t\<rparr>) = (blind s)\<lparr>Totals := t\<rparr>"
  "blind (s\<lparr>GlobalWait := w\<rparr>) = (blind s)\<lparr>GlobalWait := w\<rparr>"
  "blind (s\<lparr>Active := a\<rparr>) = (blind s)\<lparr>Active := a\<rparr>"
  "blind (s\<lparr>OrdinaryFunding := f\<rparr>) = (blind s)\<lparr>OrdinaryFunding := f\<rparr>"
  "blind (s\<lparr>Now := n\<rparr>) = (blind s)\<lparr>Now := n\<rparr>"
  "blind (s\<lparr>Step := n\<rparr>) = (blind s)\<lparr>Step := n\<rparr>"
  "blind (s\<lparr>NextToken := n\<rparr>) = (blind s)\<lparr>NextToken := n\<rparr>"
  "blind (s\<lparr>AggregateExposure := n\<rparr>) = (blind s)\<lparr>AggregateExposure := n\<rparr>"
  "blind (s\<lparr>Unobserved := n\<rparr>) = (blind s)\<lparr>Unobserved := n\<rparr>"
  "blind (s\<lparr>Initialized := b\<rparr>) = (blind s)\<lparr>Initialized := b\<rparr>"
  "blind (s\<lparr>FeedbackComplete := b\<rparr>) = (blind s)\<lparr>FeedbackComplete := b\<rparr>"
  "blind (s\<lparr>GlobalBacklogged := b\<rparr>) = (blind s)\<lparr>GlobalBacklogged := b\<rparr>"
  "blind (s\<lparr>Peers := ps\<rparr>) = (blind s)\<lparr>Peers := map blind_entry ps\<rparr>"
  "blind (s\<lparr>NextDiagnosticDemandId := n\<rparr>) = blind s"
  "blind (s\<lparr>Evidence := x\<rparr>) = blind s"
  by (simp_all add: blind_def)

lemma map_of_blind: "map_of (map blind_entry ps) i = map_option blind_peer (map_of ps i)"
  by (induction ps) (auto simp: blind_entry_def)

lemma find_peer_blind [blind_simps]: "find_peer i (blind s) = map_option blind_peer (find_peer i s)"
  by (simp add: find_peer_def blind_simps map_of_blind)

lemma update_blind: "map blind_entry (AList.update i v ps) = AList.update i (blind_peer v) (map blind_entry ps)"
  by (induction ps) (auto simp: blind_entry_def)

lemma delete_blind: "map blind_entry (AList.delete i ps) = AList.delete i (map blind_entry ps)"
  by (induction ps) (auto simp: blind_entry_def AList.delete_eq)

lemma insort_blind: "map blind_entry (insort_key fst (i, v) ps) = insort_key fst (i, blind_peer v) (map blind_entry ps)"
  by (induction ps) (auto simp: blind_entry_def)

lemma put_peer_blind [blind_simps]: "blind (put_peer i v s) = put_peer i (blind_peer v) (blind s)"
  by (simp add: put_peer_def blind_simps update_blind)

lemma keys_blind: "map fst (map blind_entry ps) = map fst ps"
  by (simp add: blind_entry_def)

lemma put_peer_select [blind_simps]:
  "Profile (put_peer i v s) = Profile s" "Global (put_peer i v s) = Global s" "Totals (put_peer i v s) = Totals s"
  "GlobalWait (put_peer i v s) = GlobalWait s" "Active (put_peer i v s) = Active s"
  "OrdinaryFunding (put_peer i v s) = OrdinaryFunding s" "Now (put_peer i v s) = Now s" "Step (put_peer i v s) = Step s"
  "NextToken (put_peer i v s) = NextToken s" "AggregateExposure (put_peer i v s) = AggregateExposure s"
  "Unobserved (put_peer i v s) = Unobserved s" "Initialized (put_peer i v s) = Initialized s"
  "FeedbackComplete (put_peer i v s) = FeedbackComplete s" "GlobalBacklogged (put_peer i v s) = GlobalBacklogged s"
  "Evidence (put_peer i v s) = Evidence s"
  by (simp_all add: put_peer_def)

section \<open>The evidence itself\<close>

lemma record_event_blind [blind_simps]: "blind (record_event e s) = blind s"
  by (simp add: record_event_def blind_simps)

lemma Emit_blind [blind_simps]: "blind (Emit i v k r at token s) = blind s" "Evidence s = None \<Longrightarrow> Emit i v k r at token s = s"
  by (simp_all add: Emit_def blind_simps sink_records_def)

lemma EmitGrantLifecycle_blind [blind_simps]:
  "blind (EmitGrantLifecycle i v k at r t s) = blind s" "Evidence s = None \<Longrightarrow> EmitGrantLifecycle i v k at r t s = s"
  by (simp_all add: EmitGrantLifecycle_def blind_simps sink_records_def)

lemma ClearDiagnosticDemand_blind [blind_simps]:
  "blind_peer (ClearDiagnosticDemand v) = blind_peer v" "ClearDiagnosticDemand (blind_peer v) = blind_peer v"
  by (simp_all add: ClearDiagnosticDemand_def blind_peer_def)

lemma ClearDiagnosticDemand_update [blind_simps]:
  "ClearDiagnosticDemand (v\<lparr>DiagnosticGrantDemandId := n\<rparr>) = (ClearDiagnosticDemand v)\<lparr>DiagnosticGrantDemandId := n\<rparr>"
  "ClearDiagnosticDemand (v\<lparr>DiagnosticGrantBytes := n\<rparr>) = (ClearDiagnosticDemand v)\<lparr>DiagnosticGrantBytes := n\<rparr>"
  "ClearDiagnosticDemand (v\<lparr>DiagnosticGrantToken := n\<rparr>) = (ClearDiagnosticDemand v)\<lparr>DiagnosticGrantToken := n\<rparr>"
  "ClearDiagnosticDemand (v\<lparr>OwnsGrant := b\<rparr>) = (ClearDiagnosticDemand v)\<lparr>OwnsGrant := b\<rparr>"
  "ClearDiagnosticDemand (v\<lparr>OwnsNativeCapacity := b\<rparr>) = (ClearDiagnosticDemand v)\<lparr>OwnsNativeCapacity := b\<rparr>"
  "ClearDiagnosticDemand (v\<lparr>PeerGrantBytes := n\<rparr>) = (ClearDiagnosticDemand v)\<lparr>PeerGrantBytes := n\<rparr>"
  "ClearDiagnosticDemand (v\<lparr>Debt := n\<rparr>) = (ClearDiagnosticDemand v)\<lparr>Debt := n\<rparr>"
  "ClearDiagnosticDemand (v\<lparr>DebtToken := n\<rparr>) = (ClearDiagnosticDemand v)\<lparr>DebtToken := n\<rparr>"
  "ClearDiagnosticDemand (ClearDiagnosticGrant v) = ClearDiagnosticGrant (ClearDiagnosticDemand v)"
  by (simp_all add: ClearDiagnosticDemand_def ClearDiagnosticGrant_def)

lemma ClearDiagnosticDemand_select [blind_simps]:
  "Exposure (ClearDiagnosticDemand v) = Exposure v" "Seen (ClearDiagnosticDemand v) = Seen v"
  by (simp_all add: ClearDiagnosticDemand_def)

lemma ClearDiagnosticGrant_blind [blind_simps]: "blind_peer (ClearDiagnosticGrant v) = ClearDiagnosticGrant (blind_peer v)"
  by (simp add: ClearDiagnosticGrant_def blind_simps)

lemma evidence_select [blind_simps]:
  "Profile (record_event e s) = Profile s" "Peers (record_event e s) = Peers s" "Totals (record_event e s) = Totals s"
  "Global (record_event e s) = Global s" "Now (record_event e s) = Now s" "Active (record_event e s) = Active s"
  "GlobalWait (record_event e s) = GlobalWait s" "AggregateExposure (record_event e s) = AggregateExposure s"
  "Unobserved (record_event e s) = Unobserved s"
  by (simp_all add: record_event_def)

lemma Emit_select [blind_simps]:
  "Profile (Emit i v k r at token s) = Profile s" "Peers (Emit i v k r at token s) = Peers s"
  "Totals (Emit i v k r at token s) = Totals s" "Global (Emit i v k r at token s) = Global s"
  "Now (Emit i v k r at token s) = Now s" "Active (Emit i v k r at token s) = Active s"
  "GlobalWait (Emit i v k r at token s) = GlobalWait s"
  "AggregateExposure (Emit i v k r at token s) = AggregateExposure s"
  "Unobserved (Emit i v k r at token s) = Unobserved s"
  by (simp_all add: Emit_def evidence_select)

lemma EmitGrantLifecycle_select [blind_simps]:
  "Profile (EmitGrantLifecycle i v k at r t s) = Profile s" "Peers (EmitGrantLifecycle i v k at r t s) = Peers s"
  "Totals (EmitGrantLifecycle i v k at r t s) = Totals s" "Global (EmitGrantLifecycle i v k at r t s) = Global s"
  "Now (EmitGrantLifecycle i v k at r t s) = Now s"
  by (simp_all add: EmitGrantLifecycle_def evidence_select)

lemma find_peer_evidence [blind_simps]:
  "find_peer j (Emit i v k r at token s) = find_peer j s"
  "find_peer j (EmitGrantLifecycle i v k at r' t s) = find_peer j s"
  by (simp_all add: find_peer_def blind_simps)

lemma map_option_blind: "(map_option blind_peer x = None) = (x = None)"
  by (cases x) simp_all

lemma DisposeDemand_blind:
  "DisposeDemand i (blind_peer v) r (blind s) = map_prod blind_peer blind (DisposeDemand i v r s)"
  by (simp add: DisposeDemand_def blind_simps)

text \<open>Two peers and states that are the same but for the evidence.\<close>

definition unseen :: "Peer \<Rightarrow> ReliableByteAdmission \<Rightarrow> Peer \<times> ReliableByteAdmission \<Rightarrow> bool" where
  "unseen v s r \<longleftrightarrow> blind_peer (fst r) = blind_peer v \<and> blind (snd r) = blind s"

lemma unseen_if: "unseen v s a \<Longrightarrow> unseen v s b \<Longrightarrow> unseen v s (if c then a else b)"
  by simp

lemma unseen_let: "(\<And>y. unseen v s (f y)) \<Longrightarrow> unseen v s (Let x f)"
  by (simp add: Let_def)

lemma unseen_let_peer: "blind_peer w = blind_peer v \<Longrightarrow> (\<And>y. blind_peer y = blind_peer v \<Longrightarrow> unseen v s (f y)) \<Longrightarrow> unseen v s (Let w f)"
  by (simp add: Let_def)

lemma ObserveEligibility_unseen: "unseen v s (ObserveEligibility i c v s)"
  unfolding ObserveEligibility_def
  apply (rule unseen_if)
   apply (simp add: unseen_def)
  apply (rule unseen_let)
  apply (rule unseen_let_peer)
   apply (simp add: blind_simps)
  apply (rule unseen_let)+
  apply (intro unseen_if)
    apply (simp_all add: unseen_def blind_simps Let_def)
  done

lemma ObserveEligibility_blind:
  "ObserveEligibility i c (blind_peer v) (blind s) = map_prod blind_peer blind (ObserveEligibility i c v s)"
proof -
  have "ObserveEligibility i c (blind_peer v) (blind s) = (blind_peer v, blind s)"
    by (simp add: ObserveEligibility_def blind_simps)
  then show ?thesis
    using ObserveEligibility_unseen [of v s i c] by (cases "ObserveEligibility i c v s") (simp add: unseen_def)
qed

lemma update_same: "map_of ps i = Some v \<Longrightarrow> AList.update i v ps = ps"
  by (induction ps) (auto split: if_splits)

lemma ObserveExactDemand_blind [blind_simps]:
  "blind (ObserveExactDemand i n t f s) = blind s" "ObserveExactDemand i n t f (blind s) = blind s"
proof -
  have same: "put_peer i (blind_peer v) (blind s) = blind s" if "find_peer i s = Some v" for v
  proof -
    have "map_of (map blind_entry (Peers s)) i = Some (blind_peer v)"
      using that by (simp add: find_peer_def map_of_blind)
    then have "AList.update i (blind_peer v) (map blind_entry (Peers s)) = map blind_entry (Peers s)"
      by (rule update_same)
    then show ?thesis by (simp add: put_peer_def blind_def)
  qed
  show "blind (ObserveExactDemand i n t f s) = blind s"
    by (auto simp: ObserveExactDemand_def DisposeDemand_def Let_def blind_simps same split: option.splits)
  show "ObserveExactDemand i n t f (blind s) = blind s"
    by (simp add: ObserveExactDemand_def blind_simps)
qed

section \<open>The operations\<close>

text \<open>
  Each one does to the blinded state what it does to the state, and answers the same.
\<close>

text \<open>A result of a run and that of the blinded run, compared branch by branch.\<close>

definition commutes :: "'a \<times> ReliableByteAdmission \<Rightarrow> 'a \<times> ReliableByteAdmission \<Rightarrow> bool" where
  "commutes x y \<longleftrightarrow> x = map_prod id blind y"

lemma commutes_if: "c = c' \<Longrightarrow> commutes a a' \<Longrightarrow> commutes b b' \<Longrightarrow> commutes (if c then a else b) (if c' then a' else b')"
  by simp

lemma commutes_state: "x = blind y \<Longrightarrow> commutes (f x) (g y) \<Longrightarrow> commutes (Let x f) (Let y g)"
  by (simp add: Let_def)

lemma commutes_same: "x = y \<Longrightarrow> (\<And>z. z = y \<Longrightarrow> commutes (f z) (g z)) \<Longrightarrow> commutes (Let x f) (Let y g)"
  by (simp add: Let_def)

lemma commutes_pair: "a = b \<Longrightarrow> x = blind y \<Longrightarrow> commutes (a, x) (b, y)"
  by (simp add: commutes_def)

lemma option_blind: "case_option a f (map_option blind_peer x) = case_option a (\<lambda>v. f (blind_peer v)) x"
  by (cases x) simp_all

lemma Advance_blind: "Advance t (blind s) = map_prod id blind (Advance t s)"
  by (simp add: Advance_def Let_def blind_simps)

lemma reset_blind:
  "map (\<lambda>(i, v). (i, v\<lparr>Seen := False, Exposure := None, Service := None\<rparr>)) (map blind_entry ps) =
   map blind_entry (map (\<lambda>(i, v). (i, v\<lparr>Seen := False, Exposure := None, Service := None\<rparr>)) ps)"
  by (induction ps) (auto simp: blind_entry_def blind_simps)

lemma BeginStep_blind: "BeginStep t (blind s) = map_prod id blind (BeginStep t s)"
  by (cases "Advance t s") (auto simp: BeginStep_def Advance_blind blind_simps reset_blind simp del: map_map split: bool.splits)

lemma slots_blind: "list_ex (\<lambda>(j, v). P j) (map blind_entry ps) = list_ex (\<lambda>(j, v). P j) ps"
  by (induction ps) (auto simp: blind_entry_def)

lemma Observe_blind: "Observe i e (blind s) = map_prod id blind (Observe i e s)"
  by (cases "find_peer i s")
     (simp_all add: Observe_def Let_def blind_simps slots_blind insort_blind split: option.splits)

lemma RefreshService_blind: "RefreshService i q (blind s) = map_prod id blind (RefreshService i q s)"
  by (cases "find_peer i s") (simp_all add: RefreshService_def Let_def blind_simps split: option.splits)

lemma ObserveService_blind: "ObserveService i q (blind s) = map_prod id blind (ObserveService i q s)"
  by (cases "Observe i (map_option (\<lambda>_. 0) q) s")
     (auto simp: ObserveService_def Observe_blind RefreshService_blind blind_simps split: bool.splits)

lemma SetOrdinaryFunding_blind: "SetOrdinaryFunding b (blind s) = blind (SetOrdinaryFunding b s)"
  by (simp add: SetOrdinaryFunding_def blind_simps)

lemma SetOrdinaryUnsent_blind: "SetOrdinaryUnsent i b (blind s) = map_prod id blind (SetOrdinaryUnsent i b s)"
  by (cases "find_peer i s") (simp_all add: SetOrdinaryUnsent_def Let_def blind_simps split: option.splits)

lemma ReleaseWait_blind [blind_simps]: "blind (ReleaseWait i s) = ReleaseWait i (blind s)"
  by (simp add: ReleaseWait_def blind_simps)

lemma CompleteNativeSend_blind:
  "CompleteNativeSend i token bytes t u w (blind s) = map_prod id blind (CompleteNativeSend i token bytes t u w s)"
  by (cases "find_peer i s"; cases "Advance u s")
     (auto simp: CompleteNativeSend_def Let_def Advance_blind blind_simps split: bool.splits)

lemma Retire_blind: "Retire i token bytes (blind s) = map_prod id blind (Retire i token bytes s)"
  by (cases "find_peer i s") (simp_all add: Retire_def Let_def blind_simps)

lemma count_blind [blind_simps]:
  "blind (count_feedback s) = count_feedback (blind s)" "blind (count_grant s) = count_grant (blind s)"
  "blind (count_funded s) = count_funded (blind s)" "blind (count_backlog s) = count_backlog (blind s)"
  "blind (count_credit s) = count_credit (blind s)" "blind (count_fairness s) = count_fairness (blind s)"
  by (simp_all add: count_feedback_def count_grant_def count_funded_def count_backlog_def count_credit_def
      count_fairness_def blind_simps)

lemma ExamineDemand_blind: "ExamineDemand i (blind_peer v) (blind s) = map_prod blind_peer blind (ExamineDemand i v s)"
proof -
  define v3 where "v3 = (let v1 = v\<lparr>DemandStep := Step s\<rparr>; v2 = (if WaitSince v1 = None then v1\<lparr>WaitSince := Some (Now s)\<rparr> else v1)
    in v2\<lparr>Credit := Refill (Now s) (PeerRate (Profile s)) (PeerCap (Profile s)) (Credit v2)\<rparr>)"
  define s1 where "s1 = s\<lparr>Totals := (Totals s)\<lparr>PeerCreditHighWater := max (PeerCreditHighWater (Totals s)) (CreditBytes (Credit v3))\<rparr>\<rparr>"
  have "ExamineDemand i v s = (let (v4, s2) = ObserveEligibility i (Credit v) v3 s1 in (v4, put_peer i v4 s2))"
    by (simp add: ExamineDemand_def v3_def s1_def Let_def)
  moreover have "ExamineDemand i (blind_peer v) (blind s) =
      (let (v4, s2) = ObserveEligibility i (Credit v) (blind_peer v3) (blind s1) in (v4, put_peer i v4 s2))"
    by (simp add: ExamineDemand_def v3_def s1_def Let_def blind_simps)
  ultimately show ?thesis
    by (cases "ObserveEligibility i (Credit v) v3 s1") (simp add: ObserveEligibility_blind blind_simps)
qed

lemma FundedRoom_blind [blind_simps]: "FundedRoom (blind s) = FundedRoom s"
  by (simp only: FundedRoom_def blind_simps)

lemma ServiceFresh_blind [blind_simps]: "ServiceFresh (blind s) obs = ServiceFresh s obs"
  by (simp only: ServiceFresh_def blind_simps)

lemma rooms_blind [blind_simps]:
  "ServiceUsable (blind s) (blind_peer v) = ServiceUsable s v" "GrantRefused (blind s) (blind_peer v) = GrantRefused s v"
  "PeerRoomOf (blind s) (blind_peer v) e = PeerRoomOf s v e" "GlobalRoomOf (blind s) = GlobalRoomOf s"
  "RetainedRoomOf (blind s) = RetainedRoomOf s"
  by (simp_all only: ServiceUsable_def GrantRefused_def PeerRoomOf_def GlobalRoomOf_def RetainedRoomOf_def blind_simps)

lemma Admit_blind: "Admit i (blind_peer v) (blind s) = map_prod id blind (Admit i v s)"
proof -
  obtain pr pl where pr: "PeerRoomOf s v (the (Exposure v)) = (pr, pl)" by (cases "PeerRoomOf s v (the (Exposure v))")
  obtain gr gl where gr: "GlobalRoomOf s = (gr, gl)" by (cases "GlobalRoomOf s")
  have "commutes (Admit i (blind_peer v) (blind s)) (Admit i v s)"
    unfolding Admit_def blind_simps pr gr prod.case
    apply (intro commutes_if commutes_pair)
         apply (simp_all add: blind_simps)
    unfolding Let_def
    apply (intro commutes_if commutes_pair)
              apply (simp_all add: blind_simps)
    done
  then show ?thesis by (simp add: commutes_def)
qed

lemma Allowance_blind: "Allowance i t (blind s) = map_prod id blind (Allowance i t s)"
proof (cases "Active s = None \<and> fst (Advance t s)")
  case True
  then obtain s1 where adv: "Advance t s = (True, s1)" by (cases "Advance t s") auto
  show ?thesis
  proof (cases "find_peer i s1")
    case None
    then show ?thesis using True adv by (simp add: Allowance_def Advance_blind blind_simps)
  next
    case (Some v0)
    obtain v s2 where ex: "ExamineDemand i v0 s1 = (v, s2)" by (cases "ExamineDemand i v0 s1")
    show ?thesis
      using True by (simp add: Allowance_def adv Some Advance_blind ExamineDemand_blind ex Admit_blind find_peer_blind blind_select(5))
  qed
next
  case False
  then show ?thesis by (cases "Advance t s") (auto simp: Allowance_def Advance_blind blind_simps)
qed

lemma DeferSize_blind: "DeferSize i n f (blind s) = blind (DeferSize i n f s)"
proof (cases "find_peer i s")
  case None
  then show ?thesis by (simp add: DeferSize_def blind_simps)
next
  case (Some v)
  define s1 where "s1 = put_peer i (v\<lparr>Required := n\<rparr>) s"
  define totals where "totals t = (t :: ReliableByteAdmissionMetrics)\<lparr>SizeDeferrals := Add (SizeDeferrals t) 1, DeferredBytes := Add (DeferredBytes t) n\<rparr>" for t
  have split: "DeferSize i n f s' = (if n < MinimumFrameBytes \<or> n > MaximumReliableServiceGroupBytes then s'
      else let s2 = ObserveExactDemand i n (Now s1') f s1'; s3 = s2\<lparr>Totals := totals (Totals s2)\<rparr> in snd (Allowance i (Now s3) s3))"
    if "find_peer i s' = Some v'" "s1' = put_peer i (v'\<lparr>Required := n\<rparr>) s'" for s' v' s1'
    using that by (simp add: DeferSize_def Let_def totals_def)
  have s1: "put_peer i ((blind_peer v)\<lparr>Required := n\<rparr>) (blind s) = blind s1" by (simp add: s1_def blind_simps)
  define s2 where "s2 = ObserveExactDemand i n (Now s1) f s1"
  have s2: "blind s1 = blind s2" by (simp add: s2_def blind_simps)
  define s3 where "s3 = s2\<lparr>Totals := totals (Totals s2)\<rparr>"
  have s3: "(blind s2)\<lparr>Totals := totals (Totals s2)\<rparr> = blind s3" by (simp add: s3_def blind_simps)
  have now: "Now s3 = Now s2" by (simp add: s3_def)
  have "snd (Allowance i (Now s3) (blind s3)) = blind (snd (Allowance i (Now s3) s3))" by (simp add: Allowance_blind)
  then have "(let s2' = ObserveExactDemand i n (Now (blind s1)) f (blind s1); s3' = s2'\<lparr>Totals := totals (Totals s2')\<rparr>
      in snd (Allowance i (Now s3') s3')) = blind (snd (Allowance i (Now s2) s3))"
    by (simp add: Let_def ObserveExactDemand_blind s2 s3 blind_select(3,7)) (simp add: now)
  then show ?thesis
    using split [OF Some s1_def] split [of "blind s" "blind_peer v", OF _ s1 [symmetric]] Some
    by (simp add: find_peer_blind s2_def [symmetric] s3_def [symmetric] Let_def)
qed

lemma Reserve_blind: "Reserve i n (blind s) = map_prod id blind (Reserve i n s)"
proof -
  obtain k s1 where all: "Allowance i (Now s) s = (k, s1)" by (cases "Allowance i (Now s) s")
  show ?thesis
    by (cases "find_peer i s1")
       (simp_all add: Reserve_def all Allowance_blind blind_simps Let_def split: option.splits)
qed

lemma OwnDebt_blind: "OwnDebt r (blind_peer v) (blind s) = map_prod blind_peer blind (OwnDebt r v s)"
  by (simp add: OwnDebt_def Let_def blind_simps split: option.splits)

lemma Commit_blind: "Commit r t (blind s) = map_prod id blind (Commit r t s)"
proof (cases "find_peer (ReservedConnection r) s")
  case None
  then show ?thesis by (simp add: Commit_def blind_simps)
next
  case (Some v)
  obtain v1 s1 where own: "(if IsPooled (Profile s) then OwnDebt r v s else (v, s)) = (v1, s1)"
    by (cases "if IsPooled (Profile s) then OwnDebt r v s else (v, s)")
  then have "(if IsPooled (Profile s) then OwnDebt r (blind_peer v) (blind s) else (blind_peer v, blind s)) = (blind_peer v1, blind s1)"
    by (auto simp: OwnDebt_blind split: if_splits)
  then show ?thesis
    using own by (cases "WaitSince v1") (simp_all add: Commit_def Some blind_simps Let_def)
qed

lemma Rollback_blind: "Rollback r (blind s) = map_prod id blind (Rollback r s)"
  by (cases "find_peer (ReservedConnection r) s") (simp_all add: Rollback_def Let_def blind_simps split: option.splits)

lemma ErasePeer_blind: "ErasePeer i (blind s) = blind (ErasePeer i s)"
proof (cases "find_peer i s")
  case (Some v)
  show ?thesis
    by (cases "Exposure v"; cases "IsPooled (Profile s) \<and> OwnsGrant v"; cases "\<not> Seen v \<and> Unobserved s \<noteq> 0")
       (auto simp: ErasePeer_def Some Let_def DisposeDemand_def blind_simps delete_blind)
qed (simp add: ErasePeer_def blind_simps)

lemma Remove_blind: "Remove i (blind s) = blind (Remove i s)"
  by (simp add: Remove_def blind_select(5) Rollback_blind ErasePeer_blind split: option.splits)

lemma TerminalRelease_blind: "TerminalRelease i (blind s) = map_prod id blind (TerminalRelease i s)"
proof (cases "find_peer i s")
  case None
  then show ?thesis by (simp add: TerminalRelease_def blind_simps)
next
  case (Some v)
  then show ?thesis
    by (simp add: TerminalRelease_def DisposeDemand_def Let_def blind_simps Remove_blind [symmetric] split: option.splits)
qed

lemma ForgetDemand_blind [blind_simps]: "blind (ForgetDemand i r s) = ForgetDemand i r (blind s)"
  by (cases "find_peer i s") (simp_all add: ForgetDemand_def DisposeDemand_def blind_simps)

lemma NoWork_blind: "NoWork i e t (blind s) = map_prod id blind (NoWork i e t s)"
  by (cases "Advance t s") (auto simp: NoWork_def Advance_blind blind_simps split: bool.splits)

lemma MeasureWait_blind [blind_simps]: "blind (MeasureWait i s) = MeasureWait i (blind s)"
  by (cases "find_peer i s") (simp_all add: MeasureWait_def blind_simps split: option.splits)

lemma EndPeer_blind: "EndPeer i (blind s) = blind (EndPeer i s)"
proof (cases "find_peer i s")
  case None
  then show ?thesis by (simp add: EndPeer_def blind_simps)
next
  case (Some v)
  have "put_peer i (blind_peer v) (blind s) =
      blind (put_peer i (ClearDiagnosticDemand v) (Emit i v DemandDisposed Unexamined (Now s) 0 s))"
    by (simp add: blind_simps)
  then have "snd (NoWork i False u64_max (put_peer i (blind_peer v) (blind s))) =
      blind (snd (NoWork i False u64_max (put_peer i (ClearDiagnosticDemand v) (Emit i v DemandDisposed Unexamined (Now s) 0 s))))"
    by (simp add: NoWork_blind)
  then show ?thesis
    by (simp add: EndPeer_def DisposeDemand_def Some blind_simps)
qed

lemma EndStep_blind: "EndStep (blind s) = blind (EndStep s)"
proof -
  have folds: "fold EndPeer is (blind s) = blind (fold EndPeer is s)" for "is" s
    by (induction "is" arbitrary: s) (simp_all add: EndPeer_blind)
  define s1 where "s1 = s\<lparr>Totals := (Totals s)\<lparr>OldestWaitMicroseconds := 0\<rparr>\<rparr>"
  have s1: "(blind s)\<lparr>Totals := (Totals (blind s))\<lparr>OldestWaitMicroseconds := 0\<rparr>\<rparr> = blind s1"
    by (simp add: s1_def blind_simps)
  show ?thesis
    unfolding EndStep_def s1 s1_def [symmetric] Let_def blind_select(16) keys_blind folds
    by (simp add: blind_simps)
qed

section \<open>A run, observed and unobserved\<close>

text \<open>The same operations with no sink installed.\<close>

fun unobserved :: "AdmissionOp \<Rightarrow> AdmissionOp" where
  "unobserved (DoInstallSink sink) = DoInstallSink None"
| "unobserved a = a"

lemma perform_blind: "perform (unobserved a) (blind s) = map_prod id blind (perform a s)"
  by (cases a)
     (simp_all add: BeginStep_blind Observe_blind ObserveService_blind RefreshService_blind CompleteNativeSend_blind
       SetOrdinaryFunding_blind SetOrdinaryUnsent_blind Retire_blind TerminalRelease_blind Allowance_blind DeferSize_blind
       ObserveExactDemand_blind Reserve_blind Commit_blind Rollback_blind NoWork_blind DeferSource_def ReleaseWait_blind
       Remove_blind EndStep_blind blind_update map_prod.compositionality, simp add: blind_def)

lemma performs_blind: "performs (map unobserved as) (blind s) = map_prod id blind (performs as s)"
  by (induction as arbitrary: s) (auto simp: perform_blind split: prod.splits)

text \<open>
  C28. Admission evidence is an observation only: whatever sinks are installed and exchanged
  during a run, each operation answers what it answers in the same run with no sink, and the
  accounts at the end are those of that run.
\<close>

theorem admission_evidence_transparent:
  "fst (performs as s) = fst (performs (map unobserved as) (blind s)) \<and>
   blind (snd (performs as s)) = snd (performs (map unobserved as) (blind s))"
  by (simp add: performs_blind)
end
