(* ===== verification/AdmissionInvariant.thy ===== *)
theory AdmissionInvariant imports AdmissionEvidence begin

text \<open>
  What every history of the byte admission keeps. The buckets are token buckets in the exact
  sense (\<open>Refill_exact\<close>), the totals are the sums over the peers, and no 64-bit operation of the
  accounting wraps. Since the evidence has no influence (\<open>AdmissionEvidence\<close>), the steps are
  shown without a sink.
\<close>

section \<open>Token buckets\<close>

text \<open>Credit is counted in millionths of a byte: the level of a bucket.\<close>

definition level :: "Bucket \<Rightarrow> nat" where
  "level b = CreditBytes b * 1000000 + Remainder b"

definition bucket_at :: "nat \<Rightarrow> nat \<Rightarrow> Bucket" where
  "bucket_at now l = \<lparr>CreditBytes = l div 1000000, Remainder = l mod 1000000, Updated = now\<rparr>"

definition bucket_ok :: "nat \<Rightarrow> nat \<Rightarrow> Bucket \<Rightarrow> bool" where
  "bucket_ok cap now b \<longleftrightarrow> CreditBytes b \<le> cap \<and> Remainder b < 1000000 \<and> Updated b \<le> now"

definition refillable :: "nat \<Rightarrow> nat \<Rightarrow> bool" where
  "refillable rate cap \<longleftrightarrow> 0 < rate \<and> 1000000 * rate + 1000000 \<le> u64_max \<and> cap \<le> 2 ^ 32"

lemma level_bucket_at [simp]: "level (bucket_at now l) = l"
  by (simp add: level_def bucket_at_def)

lemma bucket_eqI: "CreditBytes b = l div 1000000 \<Longrightarrow> Remainder b = l mod 1000000 \<Longrightarrow> Updated b = now \<Longrightarrow> b = bucket_at now l"
  by (simp add: bucket_at_def)

lemma Refill_exact:
  assumes ok: "bucket_ok cap now b" and r: "refillable rate cap" and now: "now \<le> u64_max"
  shows "Refill now rate cap b = bucket_at now (min (cap * 1000000) (level b + (now - Updated b) * rate))"
proof -
  define elapsed where "elapsed = now - Updated b"
  define remaining where "remaining = cap - CreditBytes b"
  define seconds where "seconds = elapsed div 1000000"
  define fraction where "fraction = elapsed mod 1000000 * rate + Remainder b"
  have rate: "0 < rate" "1000000 * rate + 1000000 \<le> u64_max" and cap: "cap \<le> 2 ^ 32" using r by (auto simp: refillable_def)
  have b: "CreditBytes b \<le> cap" "Remainder b < 1000000" "Updated b \<le> now" using ok by (auto simp: bucket_ok_def)
  have cap64: "cap \<le> u64_max" using cap by (simp add: u64_max_def)
  have e: "sub64 now (Updated b) = elapsed" "sub64 cap (CreditBytes b) = remaining"
    using b now cap64 by (simp_all add: elapsed_def remaining_def sub64_exact)
  have time: "elapsed * rate = seconds * rate * 1000000 + elapsed mod 1000000 * rate"
  proof -
    have "elapsed = seconds * 1000000 + elapsed mod 1000000" by (simp add: seconds_def)
    then have "elapsed * rate = (seconds * 1000000 + elapsed mod 1000000) * rate" by simp
    then show ?thesis by (simp add: algebra_simps)
  qed
  have whole: "level b + elapsed * rate = (CreditBytes b + seconds * rate) * 1000000 + fraction"
    unfolding level_def time fraction_def by simp
  show ?thesis
  proof (cases "seconds > remaining div rate")
    case True
    then have "remaining div rate + 1 \<le> seconds" by simp
    then have "(remaining div rate + 1) * rate \<le> seconds * rate" by (rule mult_le_mono1)
    moreover have "remaining < (remaining div rate + 1) * rate"
      using dividend_less_div_times [OF rate(1), of remaining] by simp
    ultimately have "cap \<le> CreditBytes b + seconds * rate" using b(1) by (simp add: remaining_def)
    then have "cap * 1000000 \<le> level b + elapsed * rate" unfolding whole by (simp add: trans_le_add1)
    then have "min (cap * 1000000) (level b + elapsed * rate) = cap * 1000000" by simp
    then show ?thesis
      using True unfolding Refill_def Let_def
      by (simp add: e seconds_def elapsed_def [symmetric] bucket_at_def)
  next
    case False
    then have "seconds * rate \<le> (remaining div rate) * rate" by (intro mult_le_mono1) simp
    also have "\<dots> \<le> remaining" by simp
    finally have sec: "seconds * rate \<le> remaining" .
    have "elapsed mod 1000000 \<le> 999999" by simp
    then have "elapsed mod 1000000 * rate \<le> 999999 * rate" by (rule mult_le_mono1)
    then have frac: "fraction \<le> u64_max" "elapsed mod 1000000 * rate \<le> u64_max"
      using rate b(2) unfolding fraction_def by linarith+
    have fd: "fraction div 1000000 \<le> u64_max div 1000000" using frac(1) by (rule div_le_mono)
    have rem: "remaining \<le> 2 ^ 32" using cap by (simp add: remaining_def)
    have m1: "mul64 (elapsed mod 1000000) rate = elapsed mod 1000000 * rate" using frac(2) by (rule mul64_exact)
    have m2: "mul64 seconds rate = seconds * rate" using sec rem by (intro mul64_exact) (simp add: u64_max_def)
    have a1: "add64 (elapsed mod 1000000 * rate) (Remainder b) = fraction"
      using frac(1) by (simp add: fraction_def add64_exact)
    have a2: "add64 (seconds * rate) (fraction div 1000000) = seconds * rate + fraction div 1000000"
      using sec rem fd by (intro add64_exact) (simp add: u64_max_def)
    define added where "added = seconds * rate + fraction div 1000000"
    have a3: "add64 (CreditBytes b) (min remaining added) = CreditBytes b + min remaining added"
      using b(1) cap64 by (intro add64_exact) (simp add: remaining_def)
    have total: "level b + elapsed * rate = (CreditBytes b + added) * 1000000 + fraction mod 1000000"
      unfolding whole added_def by (simp add: algebra_simps)
    have new: "Refill now rate cap b =
        \<lparr>CreditBytes = CreditBytes b + min remaining added,
         Remainder = (if CreditBytes b + min remaining added = cap then 0 else fraction mod 1000000), Updated = now\<rparr>"
      using False unfolding Refill_def Let_def
      by (simp add: e seconds_def [symmetric] m1 m2 a1 a2 added_def [symmetric] a3)
    show ?thesis
    proof (cases "remaining \<le> added")
      case True
      then have full: "CreditBytes b + min remaining added = cap" using b(1) by (simp add: remaining_def)
      have "cap * 1000000 \<le> (CreditBytes b + added) * 1000000" using True b(1) by (intro mult_le_mono1) (simp add: remaining_def)
      then have "min (cap * 1000000) (level b + elapsed * rate) = cap * 1000000" unfolding total by (simp add: trans_le_add1)
      then show ?thesis unfolding new full elapsed_def [symmetric] by (simp add: bucket_at_def)
    next
      case False
      then have less: "CreditBytes b + added < cap" by (simp add: remaining_def)
      then have "Suc (CreditBytes b + added) * 1000000 \<le> cap * 1000000" by (intro mult_le_mono1) simp
      then have "(CreditBytes b + added) * 1000000 + fraction mod 1000000 \<le> cap * 1000000"
        using mod_less_divisor [of 1000000 fraction] by simp
      then have m: "min (cap * 1000000) (level b + elapsed * rate) = (CreditBytes b + added) * 1000000 + fraction mod 1000000"
        unfolding total by linarith
      have dm: "(x * 1000000 + y mod 1000000) div 1000000 = x" "(x * 1000000 + y mod 1000000) mod 1000000 = y mod 1000000"
        for x y :: nat by simp_all
      show ?thesis
        using False less unfolding new elapsed_def [symmetric] m bucket_at_def dm by simp
    qed
  qed
qed

lemma bucket_ok_at: "l \<le> cap * 1000000 \<Longrightarrow> now \<le> now' \<Longrightarrow> bucket_ok cap now' (bucket_at now l)"
  using div_le_mono [of l "cap * 1000000" 1000000] by (simp add: bucket_ok_def bucket_at_def)

lemma bucket_ok_Refill:
  assumes "bucket_ok cap now b" "refillable rate cap" "now \<le> u64_max"
  shows "bucket_ok cap now (Refill now rate cap b)"
  using Refill_exact [OF assms] by (simp add: bucket_ok_at)

lemma Updated_Refill: "Updated (Refill now rate cap b) = now"
  by (simp add: Refill_def Let_def)

lemma bucket_ok_later: "bucket_ok cap now b \<Longrightarrow> now \<le> now' \<Longrightarrow> bucket_ok cap now' b"
  by (simp add: bucket_ok_def)

lemma min_min_add: "min (c :: nat) (min c x + y) = min c (x + y)"
  by (simp add: min_def)

text \<open>
  C31. Credit does not depend on how often it is refilled: refilling a bucket at one time and
  again at a later one gives exactly the bucket refilled once at the later time, so passes
  neither create nor lose credit; and the level never exceeds the level before plus the rate
  times the time that passed, nor the cap.
\<close>

theorem refill_path_independent:
  assumes "bucket_ok cap t b" "refillable rate cap" "t \<le> t'" "t' \<le> u64_max"
  shows "Refill t' rate cap (Refill t rate cap b) = Refill t' rate cap b \<and>
    level (Refill t' rate cap b) = min (cap * 1000000) (level b + (t' - Updated b) * rate)"
proof -
  have t: "t \<le> u64_max" "Updated b \<le> t" using assms by (simp_all add: bucket_ok_def)
  have first: "Refill t rate cap b = bucket_at t (min (cap * 1000000) (level b + (t - Updated b) * rate))"
    by (rule Refill_exact [OF assms(1,2) t(1)])
  have ok: "bucket_ok cap t' (Refill t rate cap b)"
    using bucket_ok_Refill [OF assms(1,2) t(1)] assms(3) by (rule bucket_ok_later)
  have upd: "Updated (Refill t rate cap b) = t" unfolding first by (simp add: bucket_at_def)
  have lev: "level (Refill t rate cap b) = min (cap * 1000000) (level b + (t - Updated b) * rate)"
    unfolding first by (rule level_bucket_at)
  have "(t' - Updated b) * rate = (t - Updated b) * rate + (t' - t) * rate"
    using t(2) assms(3) by (simp add: distrib_right [symmetric])
  then have "min (cap * 1000000) (min (cap * 1000000) (level b + (t - Updated b) * rate) + (t' - t) * rate) =
      min (cap * 1000000) (level b + (t' - Updated b) * rate)"
    by (simp only: min_min_add add.assoc)
  then have "Refill t' rate cap (Refill t rate cap b) = bucket_at t' (min (cap * 1000000) (level b + (t' - Updated b) * rate))"
    using Refill_exact [OF ok assms(2,4)] by (simp only: upd lev)
  moreover have "Refill t' rate cap b = bucket_at t' (min (cap * 1000000) (level b + (t' - Updated b) * rate))"
    using bucket_ok_later [OF assms(1,3)] assms(2,4) by (rule Refill_exact)
  ultimately show ?thesis by simp
qed

theorem refill_path_independent_witness:
  "Refill 900000 1000000 500000 (Refill 300000 1000000 500000 (new_Bucket :: Bucket)) = Refill 900000 1000000 500000 new_Bucket"
  using refill_path_independent [of 500000 300000 new_Bucket 1000000 900000]
  by (simp add: bucket_ok_def refillable_def new_Bucket_def u64_max_def)

section \<open>The buckets of a valid profile\<close>

lemma valid_mode: "Profile_IsValid p \<Longrightarrow> \<not> IsPooled p \<Longrightarrow> ResourceError p = []"
  by (auto simp: Profile_IsValid_def Profile_ValidationError_def split: if_splits)

lemma reservation_funded: "Profile_IsValid p \<Longrightarrow> profile_fits p \<Longrightarrow> \<not> IsPooled p \<Longrightarrow> resources_funded p"
  using valid_mode ResourceError_exact by blast

lemma reservation_rates:
  assumes "resources_funded p"
  shows "0 < PeerStructuralRate p" "PeerStructuralRate p \<le> 8796093018112" "0 < GlobalStructuralRate p"
    "GlobalStructuralRate p \<le> 8796093018112"
proof -
  from assms have r: "ConnectionRate p \<le> int_max" "0 < MaximumConnections p" "MaximumConnections p \<le> 4096"
      "MaximumConnections p * ConnectionRate p \<le> AggregateRate p" "AggregateRate p \<le> MaximumConnections p * int_max"
      "StructuralPermille p \<le> 750" "1000 \<le> ConnectionRate p * StructuralPermille p"
    unfolding resources_funded_def by blast+
  have "1 * ConnectionRate p \<le> MaximumConnections p * ConnectionRate p" using r(2) by (intro mult_le_mono1) simp
  then have "ConnectionRate p \<le> AggregateRate p" using r(4) by linarith
  then have "ConnectionRate p * StructuralPermille p \<le> AggregateRate p * StructuralPermille p" by (rule mult_le_mono1)
  then have low: "1000 \<le> AggregateRate p * StructuralPermille p" using r(7) by linarith
  have "MaximumConnections p * int_max \<le> 4096 * int_max" using r(3) by (rule mult_le_mono1)
  then have agg: "AggregateRate p \<le> 4096 * int_max" using r(5) by linarith
  then have high: "AggregateRate p * StructuralPermille p \<le> (4096 * int_max) * 750" using r(6) by (rule mult_le_mono)
  have conn: "ConnectionRate p * StructuralPermille p \<le> int_max * 750" using r(1,6) by (rule mult_le_mono)
  have "mul64 (AggregateRate p) (StructuralPermille p) = AggregateRate p * StructuralPermille p"
    using high by (intro mul64_exact) (simp add: u64_max_def int_max_def)
  then have g: "GlobalStructuralRate p = AggregateRate p * StructuralPermille p div 1000" by (simp add: GlobalStructuralRate_def)
  have c: "PeerStructuralRate p = ConnectionRate p * StructuralPermille p div 1000" using r(1,6) by (rule rate_test)
  show "0 < PeerStructuralRate p" "0 < GlobalStructuralRate p" using low r(7) div_le_mono [of 1000 _ 1000] unfolding g c by force+
  show "PeerStructuralRate p \<le> 8796093018112" using div_le_mono [OF conn, of 1000] unfolding c by (simp add: int_max_def)
  show "GlobalStructuralRate p \<le> 8796093018112" using div_le_mono [OF high, of 1000] unfolding g by (simp add: int_max_def)
qed

lemma profile_buckets:
  assumes "Profile_IsValid p" "profile_fits p"
  shows "refillable (PeerRate p) (PeerCap p)" "refillable (GlobalRate p) (GlobalCap p)"
proof -
  have "refillable (PeerRate p) (PeerCap p) \<and> refillable (GlobalRate p) (GlobalCap p)"
  proof (cases "IsPooled p")
    case True
    then show ?thesis
      using pooled_parameters [OF assms(1)]
      by (simp add: PeerRate_def GlobalRate_def PeerCap_def GlobalCap_def refillable_def u64_max_def)
  next
    case False
    then have r: "resources_funded p" using reservation_funded [OF assms] by blast
    then have "PeerBurst p \<le> 2 ^ 32" "GlobalBurst p \<le> 2 ^ 32"
      by (simp_all add: resources_funded_def NativeMaximumQueuedReliableBytes_def NativeMaximumSchedulerQueuedReliableBytes_def)
    then show ?thesis
      using False reservation_rates [OF r]
      by (simp add: PeerRate_def GlobalRate_def PeerCap_def GlobalCap_def refillable_def u64_max_def)
  qed
  then show "refillable (PeerRate p) (PeerCap p)" "refillable (GlobalRate p) (GlobalCap p)" by blast+
qed

section \<open>The invariant\<close>

text \<open>
  An observed exposure is at most its share of what fits 64 bits; a queue is far below it
  (\<open>NativeMaximumSchedulerQueuedReliableBytes\<close>).
\<close>

definition exposure_ceiling :: nat where
  "exposure_ceiling = u64_max div 4096"

definition peer_ok :: "ReliableServiceProfile \<Rightarrow> nat \<Rightarrow> nat \<Rightarrow> Peer \<Rightarrow> bool" where
  "peer_ok p now token v \<longleftrightarrow>
     bucket_ok (PeerCap p) now (Credit v) \<and>
     MinimumFrameBytes \<le> Required v \<and> Required v \<le> MaximumReliableServiceGroupBytes \<and>
     (\<forall>t. WaitSince v = Some t \<longrightarrow> t \<le> now) \<and>
     (\<forall>e. Exposure v = Some e \<longrightarrow> e \<le> exposure_ceiling) \<and> (\<not> Seen v \<longrightarrow> Exposure v = None) \<and>
     DebtToken v \<le> token \<and> (Debt v = 0 \<longrightarrow> DebtToken v = 0) \<and>
     (OwnsNativeCapacity v \<longrightarrow> OwnsGrant v) \<and> (OwnsGrant v \<longrightarrow> IsPooled p) \<and>
     (Debt v \<noteq> 0 \<longrightarrow> DebtToken v \<noteq> 0 \<and> OwnsGrant v \<and> PeerGrantBytes v = Debt v) \<and>
     PeerGrantBytes v \<le> MaximumReliableServiceGroupBytes"

definition total :: "(Peer \<Rightarrow> nat) \<Rightarrow> (ConnectionId \<times> Peer) list \<Rightarrow> nat" where
  "total f ps = (\<Sum>(i, v) \<leftarrow> ps. f v)"

definition native_grant :: "Peer \<Rightarrow> nat" where
  "native_grant v = (if OwnsNativeCapacity v then 1 else 0)"

definition native_bytes :: "Peer \<Rightarrow> nat" where
  "native_bytes v = (if OwnsNativeCapacity v then PeerGrantBytes v else 0)"

definition unseen_peer :: "Peer \<Rightarrow> nat" where
  "unseen_peer v = (if Seen v then 0 else 1)"

definition exposed :: "Peer \<Rightarrow> nat" where
  "exposed v = (case Exposure v of None \<Rightarrow> 0 | Some e \<Rightarrow> e)"

text \<open>What a reservation under way will add to the debts and the grants.\<close>

definition pending_bytes :: "ReliableByteAdmission \<Rightarrow> nat" where
  "pending_bytes s = (case Active s of None \<Rightarrow> 0 | Some r \<Rightarrow> ReservationBytes r)"

definition pending_grants :: "ReliableByteAdmission \<Rightarrow> nat" where
  "pending_grants s = (case Active s of None \<Rightarrow> 0 | Some r \<Rightarrow> 1)"

definition keys_ok :: "ReliableByteAdmission \<Rightarrow> bool" where
  "keys_ok s \<longleftrightarrow>
     sorted (map fst (Peers s)) \<and> distinct (map (ConnectionSlot \<circ> fst) (Peers s)) \<and> (\<forall>i \<in> fst ` set (Peers s). ConnectionId_IsValid i) \<and>
     length (Peers s) \<le> MaximumConnections (Profile s) \<and> (\<forall>i. GlobalWait s = Some i \<longrightarrow> i \<in> fst ` set (Peers s))"

definition clock_ok :: "ReliableByteAdmission \<Rightarrow> bool" where
  "clock_ok s \<longleftrightarrow> Profile_IsValid (Profile s) \<and> profile_fits (Profile s) \<and> Now s \<le> u64_max \<and> NextToken s \<le> u64_max \<and>
     (\<not> Initialized s \<longrightarrow> Now s = 0) \<and> bucket_ok (GlobalCap (Profile s)) (Now s) (Global s) \<and> Updated (Global s) = Now s"

definition peers_ok :: "ReliableByteAdmission \<Rightarrow> bool" where
  "peers_ok s \<longleftrightarrow> (\<forall>v \<in> snd ` set (Peers s). peer_ok (Profile s) (Now s) (NextToken s) v) \<and>
     (\<forall>(i, v) \<in> set (Peers s). \<forall>(j, w) \<in> set (Peers s). DebtToken v = DebtToken w \<longrightarrow> DebtToken v \<noteq> 0 \<longrightarrow> i = j)"

definition exposure_ok :: "ReliableByteAdmission \<Rightarrow> bool" where
  "exposure_ok s \<longleftrightarrow> Unobserved s = total unseen_peer (Peers s) \<and> AggregateExposure s = total exposed (Peers s)"

definition ledger_ok :: "ReliableByteAdmission \<Rightarrow> bool" where
  "ledger_ok s \<longleftrightarrow>
     OutstandingBytes (Totals s) = total Debt (Peers s) \<and> ActiveDrainGrants (Totals s) = total native_grant (Peers s) \<and>
     NativeCapacityBytes (Totals s) = total native_bytes (Peers s) \<and>
     (IsPooled (Profile s) \<longrightarrow>
        OutstandingBytes (Totals s) + pending_bytes s \<le> GlobalPendingCap (Pooled (Profile s)) \<and>
        ActiveDrainGrants (Totals s) + pending_grants s \<le> MaximumDrainGrants (Pooled (Profile s)))"

definition active_ok :: "ReliableByteAdmission \<Rightarrow> bool" where
  "active_ok s \<longleftrightarrow> (\<forall>r. Active s = Some r \<longrightarrow>
     MinimumFrameBytes \<le> ReservationBytes r \<and> ReservationBytes r \<le> MaximumReliableServiceGroupBytes \<and>
     Token r = NextToken s \<and> (\<forall>v \<in> snd ` set (Peers s). DebtToken v < Token r) \<and>
     (\<exists>v e. find_peer (ReservedConnection r) s = Some v \<and> \<not> OwnsGrant v \<and> Seen v \<and> Exposure v = Some e \<and>
        (IsPooled (Profile s) \<or> ReservationBytes r \<le> e)))"

definition admission_inv :: "ReliableByteAdmission \<Rightarrow> bool" where
  "admission_inv s \<longleftrightarrow> keys_ok s \<and> clock_ok s \<and> peers_ok s \<and> exposure_ok s \<and> ledger_ok s \<and> active_ok s"

text \<open>What the caller keeps to: arguments that fit their types, and exposures below the ceiling.\<close>

primrec op_fits :: "AdmissionOp \<Rightarrow> bool" where
  "op_fits (DoBeginStep t) = (t \<le> u64_max)"
| "op_fits (DoObserve i e) = (\<forall>b. e = Some b \<longrightarrow> b \<le> exposure_ceiling)"
| "op_fits (DoObserveService i obs) = True"
| "op_fits (DoRefreshService i obs) = True"
| "op_fits (DoCompleteNativeSend i token bytes t u w) = (u \<le> u64_max)"
| "op_fits (DoSetOrdinaryFunding b) = True"
| "op_fits (DoSetOrdinaryUnsent i b) = (b \<le> exposure_ceiling)"
| "op_fits (DoRetire i token bytes) = True"
| "op_fits (DoTerminalRelease i) = True"
| "op_fits (DoAllowance i t) = (t \<le> u64_max)"
| "op_fits (DoDeferSize i b f) = True"
| "op_fits (DoObserveExactDemand i b t f) = True"
| "op_fits (DoReserve i b) = True"
| "op_fits (DoCommit r t) = True"
| "op_fits (DoRollback r) = True"
| "op_fits (DoNoWork i e t) = (t \<le> u64_max)"
| "op_fits (DoDeferSource i) = True"
| "op_fits (DoRemove i) = True"
| "op_fits DoEndStep = True"
| "op_fits (DoInstallSink sink) = True"

definition admission_reachable :: "ReliableByteAdmission \<Rightarrow> bool" where
  "admission_reachable s \<longleftrightarrow> (\<exists>sink p s0 as.
     profile_fits p \<and> new_ReliableByteAdmission sink p = Inr s0 \<and> list_all op_fits as \<and> s = snd (performs as s0))"

section \<open>Entries of the map\<close>

lemma distinct_keys: "distinct (map (f \<circ> fst) ps) \<Longrightarrow> distinct (map fst ps)"
  by (metis distinct_map map_map)

lemma total_Nil [simp]: "total f [] = 0"
  by (simp add: total_def)

lemma total_Cons [simp]: "total f (e # ps) = f (snd e) + total f ps"
  by (cases e) (simp add: total_def)

lemma peers_total_update: "distinct (map fst ps) \<Longrightarrow> map_of ps i = Some v \<Longrightarrow> total f (AList.update i w ps) + f v = total f ps + f w"
  by (induction ps) auto

lemma peers_total_delete:
  "distinct (map fst ps) \<Longrightarrow> map_of ps i = Some v \<Longrightarrow> total f (AList.delete i ps) + f v = total f ps"
proof (induction ps)
  case (Cons e ps)
  show ?case
  proof (cases "fst e = i")
    case True
    then have "i \<notin> fst ` set ps" using Cons.prems(1) by auto
    then have "AList.delete i ps = ps" by (rule delete_id)
    then show ?thesis using True Cons.prems by (cases e) (simp add: AList.delete_eq)
  next
    case False
    then show ?thesis using Cons by (cases e) (simp add: AList.delete_eq)
  qed
qed simp

lemma total_insort: "total f (insort_key fst e ps) = f (snd e) + total f ps"
  by (induction ps) auto

lemma peers_total_member: "map_of ps i = Some v \<Longrightarrow> f v \<le> total f ps"
  by (induction ps) (auto split: if_splits)

lemma total_map: "total f (map (\<lambda>(i, v). (i, g v)) ps) = total (f \<circ> g) ps"
  by (induction ps) auto

lemma total_bound: "\<forall>v \<in> snd ` set ps. f v \<le> b \<Longrightarrow> total f ps \<le> length ps * b"
  by (induction ps) auto

lemma total_zero: "\<forall>v \<in> snd ` set ps. f v = 0 \<Longrightarrow> total f ps = 0"
  by (induction ps) auto

lemma keys_update: "map_of ps i = Some v \<Longrightarrow> map fst (AList.update i w ps) = map fst ps"
  by (induction ps) (auto split: if_splits)

lemma update_member:
  "distinct (map fst ps) \<Longrightarrow> map_of ps i = Some v \<Longrightarrow>
     (j, x) \<in> set (AList.update i w ps) \<longleftrightarrow> (if j = i then x = w else (j, x) \<in> set ps)"
  by (induction ps) (auto split: if_splits simp: rev_image_eqI)

lemma map_of_member: "distinct (map fst ps) \<Longrightarrow> map_of ps i = Some v \<longleftrightarrow> (i, v) \<in> set ps"
  by (rule map_of_eq_Some_iff)

section \<open>One peer changes\<close>

lemma keys_distinct: "keys_ok s \<Longrightarrow> distinct (map fst (Peers s))"
  unfolding keys_ok_def by (blast intro: distinct_keys)

lemma find_member: "keys_ok s \<Longrightarrow> find_peer i s = Some v \<longleftrightarrow> (i, v) \<in> set (Peers s)"
  unfolding find_peer_def by (rule map_of_eq_Some_iff) (rule keys_distinct)

lemma slots_keys: "map (f \<circ> fst) xs = map f (map fst xs)"
  by simp

text \<open>
  An operation that rewrites the entry of one peer keeps the invariant when the entry stays well
  formed, its token stays unique, and each total moves as the entry does.
\<close>

lemma inv_put:
  assumes inv: "admission_inv s" and v: "find_peer i s = Some v"
    and peers: "Peers s' = AList.update i w (Peers s)" and prof: "Profile s' = Profile s"
    and clock: "clock_ok s'" "Now s \<le> Now s'" "NextToken s \<le> NextToken s'"
    and w: "peer_ok (Profile s) (Now s') (NextToken s') w"
    and token: "DebtToken w = DebtToken v \<or> DebtToken w = 0 \<or> (\<forall>x \<in> snd ` set (Peers s). DebtToken x < DebtToken w)"
    and wait: "GlobalWait s' = GlobalWait s \<or> GlobalWait s' = None \<or> GlobalWait s' = Some i"
    and unseen: "Unobserved s' + unseen_peer v = Unobserved s + unseen_peer w"
    and exposed: "AggregateExposure s' + exposed v = AggregateExposure s + exposed w"
    and debt: "OutstandingBytes (Totals s') + Debt v = OutstandingBytes (Totals s) + Debt w"
    and grants: "ActiveDrainGrants (Totals s') + native_grant v = ActiveDrainGrants (Totals s) + native_grant w"
    and bytes: "NativeCapacityBytes (Totals s') + native_bytes v = NativeCapacityBytes (Totals s) + native_bytes w"
    and caps: "IsPooled (Profile s) \<Longrightarrow>
        OutstandingBytes (Totals s') + pending_bytes s' \<le> GlobalPendingCap (Pooled (Profile s)) \<and>
        ActiveDrainGrants (Totals s') + pending_grants s' \<le> MaximumDrainGrants (Pooled (Profile s))"
    and active: "active_ok s'"
  shows "admission_inv s'"
proof -
  have k: "keys_ok s" and p: "peers_ok s" and e: "exposure_ok s" and l: "ledger_ok s"
    using inv by (simp_all add: admission_inv_def)
  have dist: "distinct (map fst (Peers s))" using k by (rule keys_distinct)
  have at: "map_of (Peers s) i = Some v" using v by (simp add: find_peer_def)
  note member = update_member [OF dist at, of _ _ w]
  have keys: "map fst (Peers s') = map fst (Peers s)" unfolding peers by (rule keys_update [OF at])
  then have keys': "fst ` set (Peers s') = fst ` set (Peers s)" "length (Peers s') = length (Peers s)"
    by (metis set_map) (metis keys length_map)
  have i: "i \<in> fst ` set (Peers s)" using map_of_SomeD [OF at] by force
  have "keys_ok s'"
    using k i wait unfolding keys_ok_def prof slots_keys keys keys' by (metis option.distinct(1) option.inject)
  moreover have "peers_ok s'"
  proof -
    have "peer_ok (Profile s) (Now s') (NextToken s') x" if "(j, x) \<in> set (Peers s')" for j x
    proof (cases "j = i")
      case True
      then show ?thesis using that w by (simp add: peers member)
    next
      case False
      then have "(j, x) \<in> set (Peers s)" using that by (simp add: peers member)
      then have "peer_ok (Profile s) (Now s) (NextToken s) x" using p by (force simp: peers_ok_def)
      then show ?thesis using clock(2,3) by (auto simp: peer_ok_def bucket_ok_def)
    qed
    moreover have "j = k" if "(j, x) \<in> set (Peers s')" "(k, y) \<in> set (Peers s')" "DebtToken x = DebtToken y" "DebtToken x \<noteq> 0"
      for j x k y
    proof -
      have old: "j = k" if "(j, x) \<in> set (Peers s)" "(k, y) \<in> set (Peers s)" "DebtToken x = DebtToken y" "DebtToken x \<noteq> 0" for j x k y
        using p that unfolding peers_ok_def by blast
      have fresh: "z = i" if "(z, u) \<in> set (Peers s)" "DebtToken u = DebtToken w" "DebtToken w \<noteq> 0" for z u
        using token that old [OF that(1) map_of_SomeD [OF at]] by force
      from that show ?thesis
        by (cases "j = i"; cases "k = i") (auto simp: peers member dest: old fresh)
    qed
    ultimately show ?thesis unfolding peers_ok_def prof by fastforce
  qed
  moreover have "exposure_ok s'"
    using e unseen exposed peers_total_update [OF dist at, of unseen_peer w] peers_total_update [OF dist at, of exposed w]
    by (simp add: exposure_ok_def peers)
  moreover have "ledger_ok s'"
    using l debt grants bytes caps peers_total_update [OF dist at, of Debt w] peers_total_update [OF dist at, of native_grant w]
      peers_total_update [OF dist at, of native_bytes w]
    by (simp add: ledger_ok_def peers prof)
  ultimately show ?thesis using clock(1) active by (simp add: admission_inv_def)
qed

text \<open>
  Two states with the same accounts: the entries, the totals of the ledger, the exposures and
  the reservation. Everything else an operation counts or notes leaves the invariant alone.
\<close>

definition same_accounts :: "ReliableByteAdmission \<Rightarrow> ReliableByteAdmission \<Rightarrow> bool" where
  "same_accounts s s' \<longleftrightarrow> Profile s' = Profile s \<and> Active s' = Active s \<and> NextToken s' = NextToken s \<and>
     Unobserved s' = Unobserved s \<and> AggregateExposure s' = AggregateExposure s \<and>
     OutstandingBytes (Totals s') = OutstandingBytes (Totals s) \<and>
     ActiveDrainGrants (Totals s') = ActiveDrainGrants (Totals s) \<and>
     NativeCapacityBytes (Totals s') = NativeCapacityBytes (Totals s)"

lemma same_accounts_refl [simp]: "same_accounts s s"
  by (simp add: same_accounts_def)

lemma same_accounts_trans: "same_accounts s s' \<Longrightarrow> same_accounts s' s'' \<Longrightarrow> same_accounts s s''"
  by (simp add: same_accounts_def)

lemma find_peer_cong: "Peers s' = Peers s \<Longrightarrow> find_peer i s' = find_peer i s"
  by (simp add: find_peer_def)

lemma inv_same:
  assumes inv: "admission_inv s" and same: "same_accounts s s'" "Peers s' = Peers s"
    and clock: "clock_ok s'" "Now s \<le> Now s'"
    and wait: "GlobalWait s' = GlobalWait s \<or> GlobalWait s' = None \<or> (\<exists>i v. GlobalWait s' = Some i \<and> find_peer i s = Some v)"
  shows "admission_inv s'"
proof -
  have "keys_ok s'"
  proof -
    have "i \<in> fst ` set (Peers s)" if "find_peer i s = Some v" for i v
      using that by (force simp: find_peer_def dest: map_of_SomeD)
    then show ?thesis
      using inv wait same unfolding admission_inv_def keys_ok_def same_accounts_def
      by (metis option.distinct(1) option.inject)
  qed
  moreover have "peers_ok s'"
    using inv same clock(2) unfolding admission_inv_def peers_ok_def same_accounts_def
    by (auto simp: peer_ok_def bucket_ok_def)
  moreover have "exposure_ok s' \<and> ledger_ok s' \<and> active_ok s'"
  proof -
    have eqs: "Active s' = Active s" "NextToken s' = NextToken s" "Profile s' = Profile s" "find_peer j s' = find_peer j s"
        "Unobserved s' = Unobserved s" "AggregateExposure s' = AggregateExposure s"
        "OutstandingBytes (Totals s') = OutstandingBytes (Totals s)" "ActiveDrainGrants (Totals s') = ActiveDrainGrants (Totals s)"
        "NativeCapacityBytes (Totals s') = NativeCapacityBytes (Totals s)"
        "pending_bytes s' = pending_bytes s" "pending_grants s' = pending_grants s" for j
      using same find_peer_cong [OF same(2)] by (simp_all add: same_accounts_def pending_bytes_def pending_grants_def)
    have "exposure_ok s \<and> ledger_ok s \<and> active_ok s" using inv by (simp add: admission_inv_def)
    then show ?thesis unfolding exposure_ok_def ledger_ok_def active_ok_def eqs same(2) .
  qed
  ultimately show ?thesis using clock(1) by (simp add: admission_inv_def)
qed

lemma clock_same:
  "clock_ok s \<Longrightarrow> Profile s' = Profile s \<Longrightarrow> Now s' = Now s \<Longrightarrow> NextToken s' = NextToken s \<Longrightarrow> Initialized s' = Initialized s \<Longrightarrow>
   Global s' = Global s \<Longrightarrow> clock_ok s'"
  by (simp add: clock_ok_def)

text \<open>Counters, latches and the turn.\<close>

definition same_clock :: "ReliableByteAdmission \<Rightarrow> ReliableByteAdmission \<Rightarrow> bool" where
  "same_clock s s' \<longleftrightarrow> Now s' = Now s \<and> Initialized s' = Initialized s \<and> Global s' = Global s"

lemma inv_notes:
  assumes "admission_inv s" "same_accounts s s'" "Peers s' = Peers s" "same_clock s s'"
    and "GlobalWait s' = GlobalWait s \<or> GlobalWait s' = None \<or> (\<exists>i v. GlobalWait s' = Some i \<and> find_peer i s = Some v)"
  shows "admission_inv s'"
proof (rule inv_same [OF assms(1-3) _ _ assms(5)])
  show "clock_ok s'"
    by (rule clock_same [of s]) (use assms in \<open>simp_all add: admission_inv_def same_accounts_def same_clock_def\<close>)
qed (use assms(4) in \<open>simp add: same_clock_def\<close>)

lemma inv_ReleaseWait: "admission_inv s \<Longrightarrow> admission_inv (ReleaseWait i s)"
  by (erule inv_notes) (auto simp: ReleaseWait_def same_accounts_def same_clock_def)

lemma inv_counts:
  "admission_inv s \<Longrightarrow> admission_inv (count_feedback s)" "admission_inv s \<Longrightarrow> admission_inv (count_grant s)"
  "admission_inv s \<Longrightarrow> admission_inv (count_funded s)" "admission_inv s \<Longrightarrow> admission_inv (count_backlog s)"
  "admission_inv s \<Longrightarrow> admission_inv (count_credit s)" "admission_inv s \<Longrightarrow> admission_inv (count_fairness s)"
  by (erule inv_notes;
      simp add: count_feedback_def count_grant_def count_funded_def count_backlog_def count_credit_def count_fairness_def
        same_accounts_def same_clock_def)+

lemma inv_Advance:
  assumes "admission_inv s" "t \<le> u64_max"
  shows "admission_inv (snd (Advance t s))"
proof (cases "Initialized s \<and> t < Now s")
  case True
  then show ?thesis using assms(1) by (simp add: Advance_def)
next
  case False
  have clock: "clock_ok s" using assms(1) by (simp add: admission_inv_def)
  then have later: "Now s \<le> t" using False by (auto simp: clock_ok_def)
  define g where "g = (if Initialized s then Global s else (Global s)\<lparr>Updated := t\<rparr>)"
  define s' where "s' = snd (Advance t s)"
  have s': "s' = s\<lparr>Now := t, Initialized := True, Global := Refill t (GlobalRate (Profile s)) (GlobalCap (Profile s)) g,
      Totals := (Totals s)\<lparr>GlobalCreditHighWater := max (GlobalCreditHighWater (Totals s))
        (CreditBytes (Refill t (GlobalRate (Profile s)) (GlobalCap (Profile s)) g))\<rparr>\<rparr>"
    using False by (simp add: s'_def Advance_def g_def Let_def)
  have "bucket_ok (GlobalCap (Profile s)) t g"
    using clock later by (auto simp: clock_ok_def bucket_ok_def g_def)
  moreover have "refillable (GlobalRate (Profile s)) (GlobalCap (Profile s))"
    using clock profile_buckets by (simp add: clock_ok_def)
  ultimately have "bucket_ok (GlobalCap (Profile s)) t (Refill t (GlobalRate (Profile s)) (GlobalCap (Profile s)) g)"
    using assms(2) by (rule bucket_ok_Refill)
  then have "clock_ok s'" using clock assms(2) by (simp add: s' clock_ok_def Updated_Refill)
  moreover have "same_accounts s s'" "Peers s' = Peers s" "GlobalWait s' = GlobalWait s" "Now s \<le> Now s'"
    using later by (simp_all add: s' same_accounts_def)
  ultimately show ?thesis using inv_same [OF assms(1)] unfolding s'_def [symmetric] by blast
qed

lemma Advance_select:
  "Advance t s = (b, s') \<Longrightarrow> Peers s' = Peers s \<and> same_accounts s s' \<and> GlobalWait s' = GlobalWait s \<and> Evidence s' = Evidence s \<and>
     Step s' = Step s \<and> OrdinaryFunding s' = OrdinaryFunding s \<and> (b \<longrightarrow> Now s' = t \<and> Initialized s')"
  by (auto simp: Advance_def Let_def same_accounts_def split: if_splits)

text \<open>A peer whose accounts stay as they are.\<close>

definition same_peer :: "Peer \<Rightarrow> Peer \<Rightarrow> bool" where
  "same_peer v w \<longleftrightarrow> Seen w = Seen v \<and> Exposure w = Exposure v \<and> Debt w = Debt v \<and> DebtToken w = DebtToken v \<and>
     OwnsGrant w = OwnsGrant v \<and> OwnsNativeCapacity w = OwnsNativeCapacity v \<and> PeerGrantBytes w = PeerGrantBytes v"

lemma find_put_peer: "find_peer j (put_peer i w s) = (if j = i then Some w else find_peer j s)"
  by (simp add: find_peer_def put_peer_def AList.update_conv')

lemma inv_put_same:
  assumes inv: "admission_inv s" and v: "find_peer i s = Some v" and same: "same_peer v w"
    and w: "peer_ok (Profile s) (Now s) (NextToken s) w"
  shows "admission_inv (put_peer i w s)"
proof (rule inv_put [OF inv v, where w = w])
  let ?s = "put_peer i w s"
  show "clock_ok ?s" using inv by (simp add: admission_inv_def clock_ok_def blind_simps)
  have tokens: "DebtToken x < t" if "\<forall>x \<in> snd ` set (Peers s). DebtToken x < t" "x \<in> snd ` set (Peers ?s)" for x t
  proof -
    have dist: "distinct (map fst (Peers s))" using inv keys_distinct by (simp add: admission_inv_def)
    have at: "map_of (Peers s) i = Some v" using v by (simp add: find_peer_def)
    have "x = w \<or> x \<in> snd ` set (Peers s)"
      using that(2) update_member [OF dist at] by (force simp: put_peer_def split: if_splits)
    moreover have "DebtToken w = DebtToken v" using same by (simp add: same_peer_def)
    moreover have "DebtToken v < t" using that(1) map_of_SomeD [OF at] by force
    ultimately show ?thesis using that(1) by auto
  qed
  show "active_ok ?s"
    unfolding active_ok_def
  proof (intro allI impI)
    fix r
    assume "Active ?s = Some r"
    then have r: "Active s = Some r" by (simp add: blind_simps)
    with inv have a: "MinimumFrameBytes \<le> ReservationBytes r" "ReservationBytes r \<le> MaximumReliableServiceGroupBytes"
        "Token r = NextToken s" "\<forall>x \<in> snd ` set (Peers s). DebtToken x < Token r"
        "\<exists>v e. find_peer (ReservedConnection r) s = Some v \<and> \<not> OwnsGrant v \<and> Seen v \<and> Exposure v = Some e \<and>
          (IsPooled (Profile s) \<or> ReservationBytes r \<le> e)"
      unfolding admission_inv_def active_ok_def by blast+
    have "\<exists>v e. find_peer (ReservedConnection r) ?s = Some v \<and> \<not> OwnsGrant v \<and> Seen v \<and> Exposure v = Some e \<and>
        (IsPooled (Profile s) \<or> ReservationBytes r \<le> e)"
      using a(5) v same by (auto simp: find_put_peer same_peer_def)
    then show "MinimumFrameBytes \<le> ReservationBytes r \<and> ReservationBytes r \<le> MaximumReliableServiceGroupBytes \<and>
        Token r = NextToken ?s \<and> (\<forall>x \<in> snd ` set (Peers ?s). DebtToken x < Token r) \<and>
        (\<exists>v e. find_peer (ReservedConnection r) ?s = Some v \<and> \<not> OwnsGrant v \<and> Seen v \<and> Exposure v = Some e \<and>
           (IsPooled (Profile ?s) \<or> ReservationBytes r \<le> e))"
      using a tokens [OF a(4)] by (simp add: blind_simps)
  qed
qed (use inv w same in \<open>auto simp: blind_simps put_peer_def same_peer_def native_grant_def native_bytes_def unseen_peer_def
       exposed_def admission_inv_def ledger_ok_def pending_bytes_def pending_grants_def\<close>)

section \<open>Without a sink\<close>

lemma total_blind: "(\<And>v. f (blind_peer v) = f v) \<Longrightarrow> total f (map blind_entry ps) = total f ps"
  by (induction ps) (auto simp: blind_entry_def)

lemma peer_blind [blind_simps]:
  "peer_ok p now token (blind_peer v) = peer_ok p now token v" "native_grant (blind_peer v) = native_grant v"
  "native_bytes (blind_peer v) = native_bytes v" "unseen_peer (blind_peer v) = unseen_peer v" "exposed (blind_peer v) = exposed v"
  by (simp_all add: peer_ok_def native_grant_def native_bytes_def unseen_peer_def exposed_def blind_simps)

lemma set_blind: "snd ` set (map blind_entry ps) = blind_peer ` snd ` set ps" "fst ` set (map blind_entry ps) = fst ` set ps"
  by (force simp: blind_entry_def)+

lemma inv_blind: "admission_inv (blind s) = admission_inv s"
proof -
  have "keys_ok (blind s) = keys_ok s"
    unfolding keys_ok_def blind_select set_blind slots_keys keys_blind by simp
  moreover have "clock_ok (blind s) = clock_ok s" by (simp only: clock_ok_def blind_select)
  moreover have "peers_ok (blind s) = peers_ok s"
  proof -
    have "(\<forall>(i, v) \<in> set (map blind_entry ps). \<forall>(j, w) \<in> set (map blind_entry ps). DebtToken v = DebtToken w \<longrightarrow> DebtToken v \<noteq> 0 \<longrightarrow> i = j) =
        (\<forall>(i, v) \<in> set ps. \<forall>(j, w) \<in> set ps. DebtToken v = DebtToken w \<longrightarrow> DebtToken v \<noteq> 0 \<longrightarrow> i = j)" for ps
      by (simp add: blind_entry_def blind_simps case_prod_unfold)
    then show ?thesis
      unfolding peers_ok_def blind_select set_blind ball_simps by (simp only: peer_blind blind_peer_select)
  qed
  moreover have "exposure_ok (blind s) = exposure_ok s" "ledger_ok (blind s) = ledger_ok s"
    by (simp_all only: exposure_ok_def ledger_ok_def pending_bytes_def pending_grants_def blind_select total_blind peer_blind blind_peer_select)
  moreover have "active_ok (blind s) = active_ok s"
    unfolding active_ok_def blind_select set_blind find_peer_blind by (auto simp: blind_simps)
  ultimately show ?thesis by (simp add: admission_inv_def)
qed

lemma quiet:
  assumes "Evidence s = None"
  shows "ObserveEligibility i c v s = (v, s)" "ObserveExactDemand i n t f s = s" "Emit i v k r at token s = s"
    "EmitGrantLifecycle i v k at r' t s = s" "DisposeDemand i v r s = (ClearDiagnosticDemand v, s)"
  using assms by (simp_all add: ObserveEligibility_def ObserveExactDemand_def DisposeDemand_def blind_simps)

text \<open>The notes an operation makes in a peer.\<close>

lemma peer_ok_update:
  assumes "peer_ok p now token v"
  shows "peer_ok p now token (v\<lparr>DemandStep := n\<rparr>)" "t \<le> now \<Longrightarrow> peer_ok p now token (v\<lparr>WaitSince := Some t\<rparr>)"
    "peer_ok p now token (v\<lparr>WaitSince := None\<rparr>)" "peer_ok p now token (v\<lparr>Backlogged := b\<rparr>)"
    "peer_ok p now token (v\<lparr>Service := q\<rparr>)" "peer_ok p now token (v\<lparr>Seen := True\<rparr>)"
    "bucket_ok (PeerCap p) now c \<Longrightarrow> peer_ok p now token (v\<lparr>Credit := c\<rparr>)"
    "MinimumFrameBytes \<le> n \<Longrightarrow> n \<le> MaximumReliableServiceGroupBytes \<Longrightarrow> peer_ok p now token (v\<lparr>Required := n\<rparr>)"
    "peer_ok p now token (v\<lparr>Required := MinimumFrameBytes\<rparr>)"
    "peer_ok p now token (ClearDiagnosticDemand v)"
    "Seen v \<Longrightarrow> \<forall>e. x = Some e \<longrightarrow> e \<le> exposure_ceiling \<Longrightarrow> peer_ok p now token (v\<lparr>Exposure := x\<rparr>)"
  using assms by (simp_all add: peer_ok_def ClearDiagnosticDemand_def MinimumFrameBytes_def profile_constants)

lemma same_peer_update:
  "same_peer v (v\<lparr>DemandStep := n\<rparr>)" "same_peer v (v\<lparr>WaitSince := t\<rparr>)" "same_peer v (v\<lparr>Backlogged := b\<rparr>)"
  "same_peer v (v\<lparr>Service := q\<rparr>)" "same_peer v (v\<lparr>Credit := c\<rparr>)" "same_peer v (v\<lparr>Required := n\<rparr>)"
  "same_peer v (ClearDiagnosticDemand v)"
  by (simp_all add: same_peer_def ClearDiagnosticDemand_def)

lemma same_peer_trans: "same_peer u v \<Longrightarrow> same_peer v w \<Longrightarrow> same_peer u w"
  by (simp add: same_peer_def)

lemma inv_peer: "admission_inv s \<Longrightarrow> find_peer i s = Some v \<Longrightarrow> peer_ok (Profile s) (Now s) (NextToken s) v"
  unfolding admission_inv_def peers_ok_def using find_member [of s i v] by force

lemma inv_profile: "admission_inv s \<Longrightarrow> Profile_IsValid (Profile s)" "admission_inv s \<Longrightarrow> profile_fits (Profile s)"
  "admission_inv s \<Longrightarrow> Now s \<le> u64_max"
  by (simp_all add: admission_inv_def clock_ok_def)
end
