(* ===== verification/AdmissionSteps.thy ===== *)
theory AdmissionSteps imports AdmissionInvariant begin

text \<open>
  Every operation of the byte admission keeps its invariant, and the statements about whole
  histories that follow.
\<close>

section \<open>Asking for an allowance\<close>

lemma bucket_ok_peer:
  assumes "admission_inv s" "find_peer i s = Some v"
  shows "bucket_ok (PeerCap (Profile s)) (Now s) (Refill (Now s) (PeerRate (Profile s)) (PeerCap (Profile s)) (Credit v))"
  using inv_peer [OF assms] inv_profile [OF assms(1)] profile_buckets(1)
  by (intro bucket_ok_Refill) (simp_all add: peer_ok_def)

lemma quiet_ExamineDemand:
  assumes "Evidence s = None"
  shows "\<exists>t w. ExamineDemand i v s = (w, put_peer i w (s\<lparr>Totals := (Totals s)\<lparr>PeerCreditHighWater := t\<rparr>\<rparr>)) \<and>
     w = v\<lparr>DemandStep := Step s, WaitSince := Some (case WaitSince v of None \<Rightarrow> Now s | Some u \<Rightarrow> u),
           Credit := Refill (Now s) (PeerRate (Profile s)) (PeerCap (Profile s)) (Credit v)\<rparr>"
  using assms by (cases "WaitSince v") (auto simp: ExamineDemand_def Let_def quiet)

lemma inv_ExamineDemand:
  assumes "admission_inv s" "Evidence s = None" "find_peer i s = Some v" "ExamineDemand i v s = (w, s')"
  shows "admission_inv s'" "same_peer v w" "find_peer i s' = Some w" "same_accounts s s'" "same_clock s s'" "Evidence s' = None"
    "GlobalWait s' = GlobalWait s" "OrdinaryFunding s' = OrdinaryFunding s" "FeedbackComplete s' = FeedbackComplete s"
    "Required w = Required v" "Service w = Service v"
proof -
  from quiet_ExamineDemand [OF assms(2), of i v] obtain t u where
    w: "w = v\<lparr>DemandStep := Step s, WaitSince := Some u,
           Credit := Refill (Now s) (PeerRate (Profile s)) (PeerCap (Profile s)) (Credit v)\<rparr>"
    and u: "u = (case WaitSince v of None \<Rightarrow> Now s | Some u \<Rightarrow> u)"
    and s': "s' = put_peer i w (s\<lparr>Totals := (Totals s)\<lparr>PeerCreditHighWater := t\<rparr>\<rparr>)"
    unfolding assms(4) by blast
  let ?s = "s\<lparr>Totals := (Totals s)\<lparr>PeerCreditHighWater := t\<rparr>\<rparr>"
  have s1: "admission_inv ?s"
    by (rule inv_notes [OF assms(1)]) (simp_all add: same_accounts_def same_clock_def)
  have p: "peer_ok (Profile s) (Now s) (NextToken s) v" using assms(1,3) by (rule inv_peer)
  have "u \<le> Now s" using p unfolding u peer_ok_def by (auto split: option.splits)
  then have "peer_ok (Profile s) (Now s) (NextToken s) w"
    unfolding w by (intro peer_ok_update bucket_ok_peer [OF assms(1,3)] p)
  moreover have same: "same_peer v w" by (simp add: w same_peer_def)
  ultimately show "admission_inv s'"
    unfolding s' using assms(3) by (intro inv_put_same [OF s1]) (simp_all add: find_peer_def)
  show "same_peer v w" by (rule same)
  show "find_peer i s' = Some w" by (simp add: s' find_put_peer)
  show "Required w = Required v" "Service w = Service v" by (simp_all add: w)
qed (use quiet_ExamineDemand [OF assms(2), of i v] assms(2,4) in
  \<open>auto simp: same_accounts_def same_clock_def blind_simps\<close>)

lemma inv_latches:
  assumes "admission_inv s" "find_peer i s = Some v"
  shows "admission_inv ((put_peer i (v\<lparr>Backlogged := b\<rparr>) s)\<lparr>GlobalBacklogged := c\<rparr>)"
proof -
  have "admission_inv (put_peer i (v\<lparr>Backlogged := b\<rparr>) s)"
    using assms by (intro inv_put_same [OF assms] peer_ok_update inv_peer) (simp_all add: same_peer_def)
  then show ?thesis by (rule inv_notes) (simp_all add: same_accounts_def same_clock_def)
qed

lemma inv_turn: "admission_inv s \<Longrightarrow> find_peer i s = Some v \<Longrightarrow> admission_inv (s\<lparr>GlobalWait := Some i\<rparr>)"
  by (erule inv_notes) (simp_all add: same_accounts_def same_clock_def)

lemma inv_Admit:
  assumes "admission_inv s" "find_peer i s = Some v"
  shows "admission_inv (snd (Admit i v s))"
proof -
  obtain pr pl where pr: "PeerRoomOf s v (the (Exposure v)) = (pr, pl)" by (cases "PeerRoomOf s v (the (Exposure v))")
  obtain gr gl where gr: "GlobalRoomOf s = (gr, gl)" by (cases "GlobalRoomOf s")
  define s2 where "s2 = (put_peer i (v\<lparr>Backlogged := pl\<rparr>) s)\<lparr>GlobalBacklogged := gl\<rparr>"
  have s2: "admission_inv s2" unfolding s2_def using assms by (rule inv_latches)
  have "find_peer i s2 = Some (v\<lparr>Backlogged := pl\<rparr>)"
    by (simp add: s2_def find_peer_def put_peer_def AList.update_conv')
  then have turn: "admission_inv (s2\<lparr>GlobalWait := Some i\<rparr>)" using s2 by (intro inv_turn)
  show ?thesis
    unfolding Admit_def pr gr prod.case Let_def s2_def [symmetric]
    using assms(1) s2 turn by (simp add: inv_ReleaseWait inv_counts)
qed

lemma inv_Allowance:
  assumes "admission_inv s" "Evidence s = None" "t \<le> u64_max"
  shows "admission_inv (snd (Allowance i t s))"
proof (cases "Active s = None \<and> fst (Advance t s)")
  case False
  then show ?thesis using inv_Advance [OF assms(1,3)] assms(1) by (cases "Advance t s") (auto simp: Allowance_def)
next
  case True
  then obtain s1 where adv: "Advance t s = (True, s1)" by (cases "Advance t s") auto
  then have s1: "admission_inv s1" "Evidence s1 = None"
    using inv_Advance [OF assms(1,3)] Advance_select [OF adv] assms(2) by simp_all
  show ?thesis
  proof (cases "find_peer i s1")
    case None
    then show ?thesis using True adv s1 by (simp add: Allowance_def)
  next
    case (Some v)
    obtain w s2 where ex: "ExamineDemand i v s1 = (w, s2)" by (cases "ExamineDemand i v s1")
    show ?thesis
      using True adv Some ex inv_Admit [OF inv_ExamineDemand(1,3) [OF s1 Some ex]] by (simp add: Allowance_def)
  qed
qed

section \<open>Observing\<close>

lemma inv_BeginStep:
  assumes "admission_inv s" "t \<le> u64_max"
  shows "admission_inv (snd (BeginStep t s))"
proof (cases "Active s = None \<and> Step s \<noteq> u64_max \<and> fst (Advance t s)")
  case False
  then show ?thesis using inv_Advance [OF assms] assms(1) by (cases "Advance t s") (auto simp: BeginStep_def)
next
  case True
  then obtain s1 where adv: "Advance t s = (True, s1)" by (cases "Advance t s") auto
  then have s1: "admission_inv s1" "Active s1 = None"
    using inv_Advance [OF assms] Advance_select [OF adv] True by (simp_all add: same_accounts_def)
  define g where "g v = v\<lparr>Seen := False, Exposure := None, Service := None\<rparr>" for v :: Peer
  define s2 where "s2 = snd (BeginStep t s)"
  have s2: "s2 = s1\<lparr>Step := add64 (Step s1) 1, AggregateExposure := 0, FeedbackComplete := True,
      Unobserved := length (Peers s1), OrdinaryFunding := None, Peers := map (\<lambda>(i, v). (i, g v)) (Peers s1)\<rparr>"
    using True adv by (simp add: s2_def BeginStep_def g_def)
  have keys: "map fst (Peers s2) = map fst (Peers s1)" by (simp add: s2 case_prod_unfold)
  have keys': "fst ` set (Peers s2) = fst ` set (Peers s1)" "length (Peers s2) = length (Peers s1)"
    "Profile s2 = Profile s1" "GlobalWait s2 = GlobalWait s1"
    by (metis set_map keys) (simp_all add: s2)
  have "keys_ok s2"
    using s1(1) unfolding admission_inv_def keys_ok_def slots_keys keys keys' by blast
  moreover have "clock_ok s2" using s1(1) by (simp add: s2 admission_inv_def clock_ok_def)
  moreover have "peers_ok s2"
  proof -
    have g: "peer_ok p now token v \<Longrightarrow> peer_ok p now token (g v)" "DebtToken (g v) = DebtToken v" for p now token v
      by (simp_all add: peer_ok_def g_def)
    have entries: "set (Peers s2) = (\<lambda>(i, v). (i, g v)) ` set (Peers s1)" by (simp add: s2)
    have same: "Profile s2 = Profile s1" "Now s2 = Now s1" "NextToken s2 = NextToken s1" by (simp_all add: s2)
    have p: "peers_ok s1" using s1(1) by (simp add: admission_inv_def)
    have "peer_ok (Profile s1) (Now s1) (NextToken s1) v" if "(i, v) \<in> set (Peers s1)" for i v
      using p that by (force simp: peers_ok_def)
    moreover have "i = j" if "(i, v) \<in> set (Peers s1)" "(j, w) \<in> set (Peers s1)" "DebtToken v = DebtToken w" "DebtToken v \<noteq> 0" for i v j w
      using p that unfolding peers_ok_def by blast
    ultimately show ?thesis
      unfolding peers_ok_def same entries by (auto simp: g)
  qed
  moreover have "exposure_ok s2"
  proof -
    have "total unseen_peer (map (\<lambda>(i, v). (i, g v)) ps) = length ps" "total exposed (map (\<lambda>(i, v). (i, g v)) ps) = 0" for ps
      by (induction ps) (auto simp: unseen_peer_def exposed_def g_def)
    then show ?thesis by (simp add: exposure_ok_def s2)
  qed
  moreover have "ledger_ok s2"
  proof -
    have "Debt \<circ> g = Debt" "native_grant \<circ> g = native_grant" "native_bytes \<circ> g = native_bytes"
      by (simp_all add: fun_eq_iff g_def native_grant_def native_bytes_def)
    then show ?thesis
      using s1(1) unfolding admission_inv_def ledger_ok_def s2
      by (auto simp: total_map pending_bytes_def pending_grants_def)
  qed
  moreover have "active_ok s2" using s1(2) by (simp add: active_ok_def s2)
  ultimately show ?thesis unfolding s2_def [symmetric] by (simp add: admission_inv_def)
qed

lemma find_peer_insort:
  "i \<notin> fst ` set ps \<Longrightarrow> map_of (insort_key fst (i, w) ps) j = (if j = i then Some w else map_of ps j)"
  by (induction ps) auto

lemma keys_insort: "map fst (insort_key fst (i, w) ps) = insort i (map fst ps)"
  by (induction ps) auto

text \<open>A connection not known yet gets an entry; none of its slot may be there.\<close>

lemma inv_new_peer:
  assumes inv: "admission_inv s" and new: "find_peer i s = None" "ConnectionId_IsValid i" "length (Peers s) < MaximumConnections (Profile s)"
    "\<not> list_ex (\<lambda>(j, v). ConnectionSlot j = ConnectionSlot i) (Peers s)"
  shows "admission_inv (s\<lparr>Peers := insort_key fst (i, new_Peer\<lparr>Credit := (Credit new_Peer)\<lparr>Updated := Now s\<rparr>\<rparr>) (Peers s),
    Unobserved := add64 (Unobserved s) 1\<rparr>)" (is "admission_inv ?s")
proof -
  let ?v = "new_Peer\<lparr>Credit := (Credit new_Peer)\<lparr>Updated := Now s\<rparr>\<rparr>"
  have k: "keys_ok s" "clock_ok s" "peers_ok s" "exposure_ok s" "ledger_ok s" "active_ok s"
    using inv by (simp_all add: admission_inv_def)
  have out: "i \<notin> fst ` set (Peers s)" using new(1) by (simp add: find_peer_def map_of_eq_None_iff)
  have keys: "fst ` set (Peers ?s) = insert i (fst ` set (Peers s))" by (simp add: set_insort_key)
  have vals: "snd ` set (Peers ?s) = insert ?v (snd ` set (Peers s))" by (simp add: set_insort_key)
  have slot: "ConnectionSlot i \<notin> ConnectionSlot ` fst ` set (Peers s)"
    using new(4) by (auto simp: list_ex_iff)
  have "keys_ok ?s"
  proof -
    have "distinct (map ConnectionSlot (insort i ks))" if "distinct (map ConnectionSlot ks)" "ConnectionSlot i \<notin> ConnectionSlot ` set ks" for ks
      using that by (induction ks) (auto simp: set_insort_key)
    then show ?thesis
      using k(1) slot new(2,3) unfolding keys_ok_def slots_keys keys
      by (simp add: keys_insort sorted_insort)
  qed
  moreover have "clock_ok ?s" using k(2) by (simp add: clock_ok_def)
  moreover have "peers_ok ?s"
  proof -
    have "peer_ok (Profile s) (Now s) (NextToken s) ?v"
      by (simp add: peer_ok_def new_Peer_def new_Bucket_def bucket_ok_def MinimumFrameBytes_def profile_constants)
    moreover have "DebtToken ?v = 0" by (simp add: new_Peer_def)
    ultimately show ?thesis using k(3) unfolding peers_ok_def vals by (auto simp: set_insort_key)
  qed
  moreover have "exposure_ok ?s"
  proof -
    have "total unseen_peer (Peers s) \<le> length (Peers s) * 1"
      by (rule total_bound) (simp add: unseen_peer_def)
    moreover have "MaximumConnections (Profile s) < 2 ^ 32" using k(2) by (simp add: clock_ok_def profile_fits_def)
    ultimately have "add64 (Unobserved s) 1 = Unobserved s + 1"
      using k(4) new(3) by (intro add64_exact) (simp add: exposure_ok_def u64_max_def)
    then show ?thesis
      using k(4) by (simp add: exposure_ok_def total_insort unseen_peer_def exposed_def new_Peer_def)
  qed
  moreover have "ledger_ok ?s"
    using k(5) unfolding ledger_ok_def
    by (auto simp: total_insort native_grant_def native_bytes_def new_Peer_def pending_bytes_def pending_grants_def)
  moreover have "active_ok ?s"
    unfolding active_ok_def
  proof (intro allI impI)
    fix r
    assume "Active ?s = Some r"
    then have r: "Active s = Some r" by simp
    then obtain v e where a: "MinimumFrameBytes \<le> ReservationBytes r" "ReservationBytes r \<le> MaximumReliableServiceGroupBytes"
        "Token r = NextToken s" "\<forall>x \<in> snd ` set (Peers s). DebtToken x < Token r"
        "find_peer (ReservedConnection r) s = Some v" "\<not> OwnsGrant v" "Seen v" "Exposure v = Some e"
        "IsPooled (Profile s) \<or> ReservationBytes r \<le> e"
      using k(6) unfolding active_ok_def by blast
    have "0 < Token r" using a(4,5) map_of_SomeD [of "Peers s" "ReservedConnection r" v] by (force simp: find_peer_def)
    moreover have "find_peer (ReservedConnection r) ?s = Some v"
      using a(5) new(1) by (auto simp: find_peer_def find_peer_insort [OF out])
    ultimately show "MinimumFrameBytes \<le> ReservationBytes r \<and> ReservationBytes r \<le> MaximumReliableServiceGroupBytes \<and>
        Token r = NextToken ?s \<and> (\<forall>x \<in> snd ` set (Peers ?s). DebtToken x < Token r) \<and>
        (\<exists>v e. find_peer (ReservedConnection r) ?s = Some v \<and> \<not> OwnsGrant v \<and> Seen v \<and> Exposure v = Some e \<and>
           (IsPooled (Profile ?s) \<or> ReservationBytes r \<le> e))"
      using a unfolding vals by (auto simp: new_Peer_def)
  qed
  ultimately show ?thesis by (simp add: admission_inv_def)
qed

lemma exposures_fit:
  assumes "admission_inv s"
  shows "length (Peers s) \<le> 4096" "total exposed (Peers s) \<le> length (Peers s) * exposure_ceiling"
proof -
  have "MaximumConnections (Profile s) \<le> 4096"
    using inv_profile [OF assms] pooled_parameters(10) [of "Profile s"] reservation_funded [of "Profile s"]
    by (cases "IsPooled (Profile s)") (simp_all add: resources_funded_def)
  then show "length (Peers s) \<le> 4096" using assms by (simp add: admission_inv_def keys_ok_def)
  have "\<forall>v \<in> snd ` set (Peers s). exposed v \<le> exposure_ceiling"
    using assms unfolding admission_inv_def peers_ok_def peer_ok_def by (auto simp: exposed_def split: option.splits)
  then show "total exposed (Peers s) \<le> length (Peers s) * exposure_ceiling" by (rule total_bound)
qed

lemma Add_exact: "a + b \<le> u64_max \<Longrightarrow> Add a b = a + b"
  by (simp add: Add_def sub64_exact add64_exact)

text \<open>An exposure that changes, of a peer that was just seen or whose exposure is corrected.\<close>

lemma exposure_room:
  assumes "admission_inv s" "find_peer i s = Some v" "exposed v = 0" "e \<le> exposure_ceiling"
  shows "AggregateExposure s + e \<le> u64_max"
proof -
  let ?ps = "Peers s"
  define h where "h w = (if w = v then 0 else exposed w)" for w
  have dist: "distinct (map fst ?ps)" using assms(1) keys_distinct by (simp add: admission_inv_def)
  have at: "map_of ?ps i = Some v" using assms(2) by (simp add: find_peer_def)
  have mem: "(i, v) \<in> set ?ps" using at by (rule map_of_SomeD)
  define w where "w = v\<lparr>Exposure := Some exposure_ceiling\<rparr>"
  have "total exposed (AList.update i w ?ps) = total exposed ?ps + exposure_ceiling"
    using peers_total_update [OF dist at, of exposed w] assms(3) by (simp add: w_def exposed_def)
  moreover have "total exposed (AList.update i w ?ps) \<le> length (AList.update i w ?ps) * exposure_ceiling"
  proof (rule total_bound)
    have "exposed x \<le> exposure_ceiling" if "(j, x) \<in> set ?ps" for j x
      using assms(1) that unfolding admission_inv_def peers_ok_def peer_ok_def
      by (force simp: exposed_def split: option.splits)
    then show "\<forall>x \<in> snd ` set (AList.update i w ?ps). exposed x \<le> exposure_ceiling"
      using update_member [OF dist at, of _ _ w] by (auto simp: w_def exposed_def split: if_splits)
  qed
  moreover have "length (AList.update i w ?ps) = length ?ps" using keys_update [OF at, of w] by (metis length_map)
  ultimately have "total exposed ?ps + exposure_ceiling \<le> length ?ps * exposure_ceiling" by simp
  also have "\<dots> \<le> 4096 * exposure_ceiling" using exposures_fit(1) [OF assms(1)] by (rule mult_le_mono1)
  also have "\<dots> \<le> u64_max" by (simp add: exposure_ceiling_def u64_max_def)
  finally show ?thesis using assms by (simp add: admission_inv_def exposure_ok_def)
qed

text \<open>Only the entry of one peer and the exposures change.\<close>

lemma inv_put_exposure:
  assumes inv: "admission_inv s" and v: "find_peer i s = Some v" and w: "peer_ok (Profile s) (Now s) (NextToken s) w"
    and ledger: "Debt w = Debt v" "DebtToken w = DebtToken v" "OwnsGrant w = OwnsGrant v"
      "OwnsNativeCapacity w = OwnsNativeCapacity v" "PeerGrantBytes w = PeerGrantBytes v"
    and keeps: "Seen v \<Longrightarrow> Seen w \<and> Exposure w \<noteq> None \<and> IsPooled (Profile s)"
    and s': "Peers s' = AList.update i w (Peers s)" "Profile s' = Profile s" "Active s' = Active s" "NextToken s' = NextToken s"
      "GlobalWait s' = GlobalWait s" "same_clock s s'"
      "OutstandingBytes (Totals s') = OutstandingBytes (Totals s)" "ActiveDrainGrants (Totals s') = ActiveDrainGrants (Totals s)"
      "NativeCapacityBytes (Totals s') = NativeCapacityBytes (Totals s)"
    and unseen: "Unobserved s' + unseen_peer v = Unobserved s + unseen_peer w"
    and exposed: "AggregateExposure s' + exposed v = AggregateExposure s + exposed w"
  shows "admission_inv s'"
proof (rule inv_put [OF inv v s'(1,2)])
  have "clock_ok s" using inv by (simp add: admission_inv_def)
  then show "clock_ok s'" by (rule clock_same) (use s' in \<open>simp_all add: same_clock_def\<close>)
  show "Now s \<le> Now s'" "NextToken s \<le> NextToken s'" "peer_ok (Profile s) (Now s') (NextToken s') w"
    using s' w by (simp_all add: same_clock_def)
  have pend: "pending_bytes s' = pending_bytes s" "pending_grants s' = pending_grants s"
    using s'(3) by (simp_all add: pending_bytes_def pending_grants_def)
  show "OutstandingBytes (Totals s') + pending_bytes s' \<le> GlobalPendingCap (Pooled (Profile s)) \<and>
      ActiveDrainGrants (Totals s') + pending_grants s' \<le> MaximumDrainGrants (Pooled (Profile s))" if "IsPooled (Profile s)"
    using inv that s'(7,8) unfolding admission_inv_def ledger_ok_def pend by simp
  have find: "find_peer j s' = (if j = i then Some w else find_peer j s)" for j
    using s'(1) by (simp add: find_peer_def AList.update_conv')
  have dist: "distinct (map fst (Peers s))" using inv keys_distinct by (simp add: admission_inv_def)
  have at: "map_of (Peers s) i = Some v" using v by (simp add: find_peer_def)
  show "active_ok s'"
    unfolding active_ok_def
  proof (intro allI impI)
    fix r
    assume "Active s' = Some r"
    then have "Active s = Some r" using s'(3) by simp
    then obtain u e where a: "MinimumFrameBytes \<le> ReservationBytes r" "ReservationBytes r \<le> MaximumReliableServiceGroupBytes"
        "Token r = NextToken s" "\<forall>x \<in> snd ` set (Peers s). DebtToken x < Token r"
        "find_peer (ReservedConnection r) s = Some u" "\<not> OwnsGrant u" "Seen u" "Exposure u = Some e"
        "IsPooled (Profile s) \<or> ReservationBytes r \<le> e"
      using inv unfolding admission_inv_def active_ok_def by blast
    have "\<forall>x \<in> snd ` set (Peers s'). DebtToken x < Token r"
    proof (intro ballI)
      fix x
      assume "x \<in> snd ` set (Peers s')"
      then have "x = w \<or> x \<in> snd ` set (Peers s)"
        using update_member [OF dist at] by (force simp: s'(1) split: if_splits)
      then show "DebtToken x < Token r" using a(4) ledger(2) map_of_SomeD [OF at] by force
    qed
    moreover have "\<exists>u e. find_peer (ReservedConnection r) s' = Some u \<and> \<not> OwnsGrant u \<and> Seen u \<and> Exposure u = Some e \<and>
        (IsPooled (Profile s) \<or> ReservationBytes r \<le> e)"
      using a(5-9) v keeps ledger(3) by (auto simp: find)
    ultimately show "MinimumFrameBytes \<le> ReservationBytes r \<and> ReservationBytes r \<le> MaximumReliableServiceGroupBytes \<and>
        Token r = NextToken s' \<and> (\<forall>x \<in> snd ` set (Peers s'). DebtToken x < Token r) \<and>
        (\<exists>v e. find_peer (ReservedConnection r) s' = Some v \<and> \<not> OwnsGrant v \<and> Seen v \<and> Exposure v = Some e \<and>
           (IsPooled (Profile s') \<or> ReservationBytes r \<le> e))"
      using a(1-3) by (simp add: s')
  qed
qed (use ledger s' unseen exposed in \<open>simp_all add: native_grant_def native_bytes_def\<close>)

text \<open>The entry \<open>Observe\<close> works on, and the state it is in.\<close>

definition observed_entry :: "ConnectionId \<Rightarrow> ReliableByteAdmission \<Rightarrow> (Peer \<times> ReliableByteAdmission) option" where
  "observed_entry i s =
     (case find_peer i s of
        Some v \<Rightarrow> Some (v, s)
      | None \<Rightarrow>
          if length (Peers s) \<ge> MaximumConnections (Profile s) then None
          else if list_ex (\<lambda>(other, v). ConnectionSlot other = ConnectionSlot i) (Peers s) then None
          else (let v = new_Peer\<lparr>Credit := (Credit new_Peer)\<lparr>Updated := Now s\<rparr>\<rparr>
                in Some (v, s\<lparr>Peers := insort_key fst (i, v) (Peers s), Unobserved := add64 (Unobserved s) 1\<rparr>)))"

lemma Observe_entry:
  "Observe i exposure s =
     (if Step s = 0 \<or> \<not> ConnectionId_IsValid i then (False, s)
      else case observed_entry i s of
        None \<Rightarrow> (False, s)
      | Some (v, s1) \<Rightarrow>
          if Seen v then (False, s1)
          else
            (let v1 = v\<lparr>Seen := True, Exposure := exposure\<rparr>;
                 s2 = (put_peer i v1 s1)\<lparr>Unobserved := sub64 (Unobserved s1) 1\<rparr>
             in (True,
                 case exposure of
                   None \<Rightarrow> s2\<lparr>FeedbackComplete := False\<rparr>
                 | Some e \<Rightarrow>
                     (let aggregate = Add (AggregateExposure s2) e
                      in s2\<lparr>AggregateExposure := aggregate,
                            Totals := (Totals s2)\<lparr>PeerBacklogHighWater := max (PeerBacklogHighWater (Totals s2)) e,
                              GlobalBacklogHighWater := max (GlobalBacklogHighWater (Totals s2)) aggregate\<rparr>\<rparr>))))"
  unfolding Observe_def observed_entry_def by (simp only: Let_def)

lemma observed_entry_inv:
  assumes "admission_inv s" "ConnectionId_IsValid i" "observed_entry i s = Some (v, s1)"
  shows "admission_inv s1" "find_peer i s1 = Some v" "Evidence s1 = Evidence s"
proof -
  show "find_peer i s1 = Some v"
    using assms(3) find_peer_insort [of i "Peers s"]
    by (auto simp: observed_entry_def Let_def find_peer_def map_of_eq_None_iff split: option.splits if_splits)
  show "admission_inv s1"
    using assms inv_new_peer [OF assms(1) _ assms(2)]
    by (auto simp: observed_entry_def Let_def not_le split: option.splits if_splits)
  show "Evidence s1 = Evidence s"
    using assms(3) by (auto simp: observed_entry_def Let_def split: option.splits if_splits)
qed

lemma inv_Observe:
  assumes "admission_inv s" "\<forall>b. exposure = Some b \<longrightarrow> b \<le> exposure_ceiling"
  shows "admission_inv (snd (Observe i exposure s))"
proof (cases "Step s = 0 \<or> \<not> ConnectionId_IsValid i \<or> observed_entry i s = None")
  case True
  then show ?thesis using assms(1) by (auto simp: Observe_entry)
next
  case False
  then obtain v s1 where e: "observed_entry i s = Some (v, s1)" by auto
  have s1: "admission_inv s1" and v: "find_peer i s1 = Some v"
    using observed_entry_inv [OF assms(1) _ e] False by blast+
  show ?thesis
  proof (cases "Seen v")
    case True
    then show ?thesis using False e s1 by (simp add: Observe_entry)
  next
    case unseen: False
    have ok: "peer_ok (Profile s1) (Now s1) (NextToken s1) v" using s1 v by (rule inv_peer)
    then have none: "exposed v = 0" using unseen by (simp add: peer_ok_def exposed_def)
    have at: "map_of (Peers s1) i = Some v" using v by (simp add: find_peer_def)
    have "unseen_peer v \<le> total unseen_peer (Peers s1)" using at by (rule peers_total_member)
    then have count: "1 \<le> Unobserved s1" using unseen s1 by (simp add: unseen_peer_def admission_inv_def exposure_ok_def)
    have "total unseen_peer (Peers s1) \<le> length (Peers s1) * 1" by (rule total_bound) (simp add: unseen_peer_def)
    then have "Unobserved s1 \<le> u64_max"
      using s1 exposures_fit(1) [OF s1] by (simp add: admission_inv_def exposure_ok_def u64_max_def)
    with count have sub: "sub64 (Unobserved s1) 1 + 1 = Unobserved s1" by (simp add: sub64_exact)
    let ?w = "v\<lparr>Seen := True, Exposure := exposure\<rparr>"
    have w: "peer_ok (Profile s1) (Now s1) (NextToken s1) ?w"
      using ok assms(2) by (simp add: peer_ok_def)
    have agg: "Add (AggregateExposure s1) e = AggregateExposure s1 + e" if "exposure = Some e" for e
      using exposure_room [OF s1 v none] assms(2) that by (intro Add_exact) simp
    define s2 where "s2 = snd (Observe i exposure s)"
    have s2: "Peers s2 = AList.update i ?w (Peers s1)" "Profile s2 = Profile s1" "Active s2 = Active s1"
        "NextToken s2 = NextToken s1" "GlobalWait s2 = GlobalWait s1" "same_clock s1 s2"
        "OutstandingBytes (Totals s2) = OutstandingBytes (Totals s1)" "ActiveDrainGrants (Totals s2) = ActiveDrainGrants (Totals s1)"
        "NativeCapacityBytes (Totals s2) = NativeCapacityBytes (Totals s1)" "Unobserved s2 = sub64 (Unobserved s1) 1"
        "AggregateExposure s2 = (case exposure of None \<Rightarrow> AggregateExposure s1 | Some e \<Rightarrow> Add (AggregateExposure s1) e)"
      using False e unseen
      by (cases exposure; simp add: s2_def Observe_entry Let_def put_peer_def same_clock_def)+
    have "Unobserved s2 + unseen_peer v = Unobserved s1 + unseen_peer ?w"
      using unseen sub by (simp add: s2 unseen_peer_def)
    moreover have "AggregateExposure s2 + exposed v = AggregateExposure s1 + exposed ?w"
      using none agg by (simp add: s2(11) exposed_def split: option.splits)
    ultimately show ?thesis
      unfolding s2_def [symmetric]
      by (intro inv_put_exposure [OF s1 v w _ _ _ _ _ _ s2(1-9)]) (use unseen in simp_all)
  qed
qed

section \<open>Grants and debts given back\<close>

text \<open>Only the ledger of one peer changes, downwards, and that peer has no reservation under way.\<close>

lemma inv_put_release:
  assumes inv: "admission_inv s" and v: "find_peer i s = Some v" and w: "peer_ok (Profile s) (Now s) (NextToken s) w"
    and view: "Seen w = Seen v" "Exposure w = Exposure v" "DebtToken w = DebtToken v \<or> DebtToken w = 0"
    and other: "\<And>r. Active s = Some r \<Longrightarrow> ReservedConnection r \<noteq> i"
    and s': "Peers s' = AList.update i w (Peers s)" "Profile s' = Profile s" "Active s' = Active s" "NextToken s' = NextToken s"
      "GlobalWait s' = GlobalWait s" "same_clock s s'" "Unobserved s' = Unobserved s" "AggregateExposure s' = AggregateExposure s"
    and debt: "OutstandingBytes (Totals s') + Debt v = OutstandingBytes (Totals s) + Debt w" "Debt w \<le> Debt v"
    and grants: "ActiveDrainGrants (Totals s') + native_grant v = ActiveDrainGrants (Totals s) + native_grant w"
      "native_grant w \<le> native_grant v"
    and bytes: "NativeCapacityBytes (Totals s') + native_bytes v = NativeCapacityBytes (Totals s) + native_bytes w"
  shows "admission_inv s'"
proof (rule inv_put [OF inv v s'(1,2) _ _ _ _ _ _ _ _ debt(1) grants(1) bytes])
  have "clock_ok s" using inv by (simp add: admission_inv_def)
  then show "clock_ok s'" by (rule clock_same) (use s' in \<open>simp_all add: same_clock_def\<close>)
  show "Now s \<le> Now s'" "NextToken s \<le> NextToken s'" "peer_ok (Profile s) (Now s') (NextToken s') w"
    using s' w by (simp_all add: same_clock_def)
  have pend: "pending_bytes s' = pending_bytes s" "pending_grants s' = pending_grants s"
    using s'(3) by (simp_all add: pending_bytes_def pending_grants_def)
  show "OutstandingBytes (Totals s') + pending_bytes s' \<le> GlobalPendingCap (Pooled (Profile s)) \<and>
      ActiveDrainGrants (Totals s') + pending_grants s' \<le> MaximumDrainGrants (Pooled (Profile s))" if "IsPooled (Profile s)"
  proof -
    have "OutstandingBytes (Totals s) + pending_bytes s \<le> GlobalPendingCap (Pooled (Profile s))"
        "ActiveDrainGrants (Totals s) + pending_grants s \<le> MaximumDrainGrants (Pooled (Profile s))"
      using inv that unfolding admission_inv_def ledger_ok_def by blast+
    then show ?thesis using debt grants unfolding pend by linarith
  qed
  have find: "find_peer j s' = (if j = i then Some w else find_peer j s)" for j
    using s'(1) by (simp add: find_peer_def AList.update_conv')
  have dist: "distinct (map fst (Peers s))" using inv keys_distinct by (simp add: admission_inv_def)
  have at: "map_of (Peers s) i = Some v" using v by (simp add: find_peer_def)
  show "active_ok s'"
    unfolding active_ok_def
  proof (intro allI impI)
    fix r
    assume "Active s' = Some r"
    then have r: "Active s = Some r" using s'(3) by simp
    then obtain u e where a: "MinimumFrameBytes \<le> ReservationBytes r" "ReservationBytes r \<le> MaximumReliableServiceGroupBytes"
        "Token r = NextToken s" "\<forall>x \<in> snd ` set (Peers s). DebtToken x < Token r"
        "find_peer (ReservedConnection r) s = Some u" "\<not> OwnsGrant u" "Seen u" "Exposure u = Some e"
        "IsPooled (Profile s) \<or> ReservationBytes r \<le> e"
      using inv unfolding admission_inv_def active_ok_def by blast
    have "\<forall>x \<in> snd ` set (Peers s'). DebtToken x < Token r"
    proof (intro ballI)
      fix x
      assume "x \<in> snd ` set (Peers s')"
      then have "x = w \<or> x \<in> snd ` set (Peers s)"
        using update_member [OF dist at] by (force simp: s'(1) split: if_splits)
      moreover have "DebtToken v < Token r" using a(4) map_of_SomeD [OF at] by force
      ultimately show "DebtToken x < Token r" using a(4) view(3) by auto
    qed
    then show "MinimumFrameBytes \<le> ReservationBytes r \<and> ReservationBytes r \<le> MaximumReliableServiceGroupBytes \<and>
        Token r = NextToken s' \<and> (\<forall>x \<in> snd ` set (Peers s'). DebtToken x < Token r) \<and>
        (\<exists>v e. find_peer (ReservedConnection r) s' = Some v \<and> \<not> OwnsGrant v \<and> Seen v \<and> Exposure v = Some e \<and>
           (IsPooled (Profile s') \<or> ReservationBytes r \<le> e))"
      using a other [OF r] by (simp add: s' find)
  qed
  show "DebtToken w = DebtToken v \<or> DebtToken w = 0 \<or> (\<forall>x \<in> snd ` set (Peers s). DebtToken x < DebtToken w)"
    using view(3) by blast
qed (use s' view in \<open>simp_all add: unseen_peer_def exposed_def\<close>)

text \<open>What the ledger holds of one peer.\<close>

lemma ledger_covers:
  assumes "admission_inv s" "find_peer i s = Some v"
  shows "Debt v \<le> OutstandingBytes (Totals s)" "native_grant v \<le> ActiveDrainGrants (Totals s)"
    "native_bytes v \<le> NativeCapacityBytes (Totals s)"
  using assms peers_total_member [of "Peers s" i v] by (simp_all add: admission_inv_def ledger_ok_def find_peer_def)

lemma ledger_fits:
  assumes "admission_inv s"
  shows "OutstandingBytes (Totals s) \<le> 4096 * MaximumReliableServiceGroupBytes" "ActiveDrainGrants (Totals s) \<le> 4096"
    "NativeCapacityBytes (Totals s) \<le> 4096 * MaximumReliableServiceGroupBytes"
proof -
  have each: "Debt v \<le> MaximumReliableServiceGroupBytes" "native_grant v \<le> 1" "native_bytes v \<le> MaximumReliableServiceGroupBytes"
    if "(i, v) \<in> set (Peers s)" for i v
  proof -
    have "peer_ok (Profile s) (Now s) (NextToken s) v"
      using assms that unfolding admission_inv_def peers_ok_def by force
    then show "Debt v \<le> MaximumReliableServiceGroupBytes" "native_grant v \<le> 1" "native_bytes v \<le> MaximumReliableServiceGroupBytes"
      by (auto simp: peer_ok_def native_grant_def native_bytes_def)
  qed
  have "total Debt (Peers s) \<le> length (Peers s) * MaximumReliableServiceGroupBytes"
      "total native_grant (Peers s) \<le> length (Peers s) * 1"
      "total native_bytes (Peers s) \<le> length (Peers s) * MaximumReliableServiceGroupBytes"
    by (rule total_bound; force dest: each)+
  moreover have "length (Peers s) * MaximumReliableServiceGroupBytes \<le> 4096 * MaximumReliableServiceGroupBytes"
    using exposures_fit(1) [OF assms] by (rule mult_le_mono1)
  moreover have "OutstandingBytes (Totals s) = total Debt (Peers s)" "ActiveDrainGrants (Totals s) = total native_grant (Peers s)"
      "NativeCapacityBytes (Totals s) = total native_bytes (Peers s)"
    using assms by (simp_all add: admission_inv_def ledger_ok_def)
  ultimately show "OutstandingBytes (Totals s) \<le> 4096 * MaximumReliableServiceGroupBytes" "ActiveDrainGrants (Totals s) \<le> 4096"
      "NativeCapacityBytes (Totals s) \<le> 4096 * MaximumReliableServiceGroupBytes"
    using exposures_fit(1) [OF assms] by linarith+
qed

lemma ledger_sub:
  assumes "admission_inv s" "find_peer i s = Some v"
  shows "sub64 (OutstandingBytes (Totals s)) (Debt v) + Debt v = OutstandingBytes (Totals s)"
    "OwnsNativeCapacity v \<Longrightarrow> sub64 (ActiveDrainGrants (Totals s)) 1 + 1 = ActiveDrainGrants (Totals s)"
    "OwnsNativeCapacity v \<Longrightarrow> sub64 (NativeCapacityBytes (Totals s)) (PeerGrantBytes v) + PeerGrantBytes v = NativeCapacityBytes (Totals s)"
proof -
  have max: "OutstandingBytes (Totals s) \<le> u64_max" "ActiveDrainGrants (Totals s) \<le> u64_max" "NativeCapacityBytes (Totals s) \<le> u64_max"
    using ledger_fits [OF assms(1)] by (simp_all add: u64_max_def MaximumReliableServiceGroupBytes_def)
  note cover = ledger_covers [OF assms]
  show "sub64 (OutstandingBytes (Totals s)) (Debt v) + Debt v = OutstandingBytes (Totals s)"
    using max cover by (simp add: sub64_exact)
  assume "OwnsNativeCapacity v"
  then show "sub64 (ActiveDrainGrants (Totals s)) 1 + 1 = ActiveDrainGrants (Totals s)"
      "sub64 (NativeCapacityBytes (Totals s)) (PeerGrantBytes v) + PeerGrantBytes v = NativeCapacityBytes (Totals s)"
    using max cover by (simp_all add: sub64_exact native_grant_def native_bytes_def)
qed

lemma inv_RefreshService:
  assumes "admission_inv s" "Evidence s = None"
  shows "admission_inv (snd (RefreshService i q s))"
proof (cases "find_peer i s")
  case None
  then show ?thesis using assms by (simp add: RefreshService_def)
next
  case (Some v)
  show ?thesis
  proof (cases "IsPooled (Profile s) \<and> Seen v \<and> Active s = None")
    case False
    then show ?thesis using assms(1) Some by (auto simp: RefreshService_def)
  next
    case True
    define v1 where "v1 = v\<lparr>Service := q\<rparr>"
    define s1 where "s1 = put_peer i v1 s"
    have ok: "peer_ok (Profile s) (Now s) (NextToken s) v1"
      unfolding v1_def using assms(1) Some by (intro peer_ok_update inv_peer)
    have s1: "admission_inv s1"
      unfolding s1_def using assms(1) Some _ ok by (rule inv_put_same) (simp add: v1_def same_peer_update)
    have find: "find_peer i s1 = Some v1" by (simp add: s1_def find_put_peer)
    have acc: "Profile s1 = Profile s" "Now s1 = Now s" "NextToken s1 = NextToken s" "Active s1 = None" "Evidence s1 = None"
      using True assms(2) by (simp_all add: s1_def blind_simps)
    let ?release = "OwnsGrant v1 \<and> Debt v1 = 0 \<and> (case q of None \<Rightarrow> False | Some obs \<Rightarrow> Available obs)"
    show ?thesis
    proof (cases "?release \<and> \<not> (SeparateNativeCapacity (Pooled (Profile s)) \<and> OwnsNativeCapacity v1)")
      case False
      then have "snd (RefreshService i q s) = s1"
        using True Some by (auto simp: RefreshService_def v1_def s1_def Let_def)
      then show ?thesis using s1 by simp
    next
      case release: True
      define v4 where "v4 = (ClearDiagnosticGrant (v1\<lparr>OwnsGrant := False, OwnsNativeCapacity := False\<rparr>))\<lparr>PeerGrantBytes := 0\<rparr>"
      define t4 where "t4 = (if OwnsNativeCapacity v1 then (Totals s1)\<lparr>ActiveDrainGrants := sub64 (ActiveDrainGrants (Totals s1)) 1,
          NativeCapacityBytes := sub64 (NativeCapacityBytes (Totals s1)) (PeerGrantBytes v1)\<rparr> else Totals s1)"
      have v4: "(ClearDiagnosticGrant (v1\<lparr>OwnsGrant := False\<rparr>))\<lparr>PeerGrantBytes := 0\<rparr> = v4" if "\<not> OwnsNativeCapacity v1"
        using that by (simp add: v4_def ClearDiagnosticGrant_def)
      have "snd (RefreshService i q s) = put_peer i v4 (s1\<lparr>Totals := t4\<rparr>)"
      proof (cases "OwnsNativeCapacity v1")
        case owns: True
        then show ?thesis
          using True Some release acc(5)
          by (simp add: RefreshService_def v1_def [symmetric] s1_def [symmetric] Let_def v4_def t4_def quiet)
      next
        case False
        then show ?thesis
          using True Some release acc(5)
          by (simp add: RefreshService_def v1_def [symmetric] s1_def [symmetric] Let_def v4 t4_def quiet)
      qed
      moreover have "admission_inv (put_peer i v4 (s1\<lparr>Totals := t4\<rparr>))"
      proof (rule inv_put_release [OF s1 find, where w = v4])
        show "peer_ok (Profile s1) (Now s1) (NextToken s1) v4"
          using ok release unfolding acc v4_def peer_ok_def by (simp add: ClearDiagnosticGrant_def)
      qed (use release acc ledger_sub [OF s1 find] in \<open>simp_all add: v4_def t4_def ClearDiagnosticGrant_def put_peer_def
           same_clock_def native_grant_def native_bytes_def\<close>)
      ultimately show ?thesis by simp
    qed
  qed
qed

text \<open>What was shown without a sink holds with one.\<close>

lemma unquiet:
  assumes "\<And>s. admission_inv s \<Longrightarrow> Evidence s = None \<Longrightarrow> admission_inv (snd (F s))"
    and "\<And>s. F (blind s) = map_prod id blind (F s)" and "admission_inv s"
  shows "admission_inv (snd (F s))"
proof -
  have "admission_inv (snd (F (blind s)))" using assms(1,3) by (simp add: inv_blind blind_simps)
  then show ?thesis by (simp add: assms(2) inv_blind)
qed

lemma inv_ObserveService:
  assumes "admission_inv s"
  shows "admission_inv (snd (ObserveService i q s))"
proof -
  have "admission_inv (snd (Observe i (map_option (\<lambda>_. 0) q) s))"
    using assms(1) by (rule inv_Observe) simp
  moreover have "admission_inv (snd (RefreshService i q s))" if "admission_inv s" for s
    using inv_RefreshService RefreshService_blind that by (rule unquiet)
  ultimately show ?thesis
    using assms by (cases "Observe i (map_option (\<lambda>_. 0) q) s") (auto simp: ObserveService_def split: bool.splits)
qed

lemma inv_SetOrdinaryUnsent:
  assumes "admission_inv s" "b \<le> exposure_ceiling"
  shows "admission_inv (snd (SetOrdinaryUnsent i b s))"
proof (cases "find_peer i s")
  case None
  then show ?thesis using assms by (simp add: SetOrdinaryUnsent_def)
next
  case (Some v)
  show ?thesis
  proof (cases "Exposure v = None \<or> \<not> IsPooled (Profile s)")
    case True
    then show ?thesis using assms Some by (auto simp: SetOrdinaryUnsent_def split: option.splits)
  next
    case False
    then obtain e where e: "Exposure v = Some e" and pooled: "IsPooled (Profile s)" by auto
    have ok: "peer_ok (Profile s) (Now s) (NextToken s) v" using assms(1) Some by (rule inv_peer)
    then have seen: "Seen v" using e by (auto simp: peer_ok_def)
    have le: "e \<le> AggregateExposure s"
      using assms(1) Some peers_total_member [of "Peers s" i v exposed] e
      by (simp add: admission_inv_def exposure_ok_def find_peer_def exposed_def)
    have "total exposed (Peers s) \<le> length (Peers s) * exposure_ceiling" using assms(1) by (rule exposures_fit)
    also have "\<dots> \<le> 4096 * exposure_ceiling" using exposures_fit(1) [OF assms(1)] by (rule mult_le_mono1)
    also have "\<dots> \<le> u64_max" by (simp add: exposure_ceiling_def u64_max_def)
    finally have agg: "AggregateExposure s \<le> u64_max" using assms(1) by (simp add: admission_inv_def exposure_ok_def)
    have rem: "sub64 (AggregateExposure s) e = AggregateExposure s - e" using le agg by (rule sub64_exact)
    show ?thesis
    proof (cases "b > sub64 u64_max (AggregateExposure s - e)")
      case True
      then show ?thesis using assms Some e pooled by (simp add: SetOrdinaryUnsent_def Let_def rem)
    next
      case False
      then have "b \<le> u64_max - (AggregateExposure s - e)" using agg by (simp add: sub64_exact)
      then have add: "add64 (AggregateExposure s - e) b = AggregateExposure s - e + b" using agg by (intro add64_exact) linarith
      have s': "snd (SetOrdinaryUnsent i b s) = (put_peer i (v\<lparr>Exposure := Some b\<rparr>) s)\<lparr>AggregateExposure := AggregateExposure s - e + b\<rparr>"
        using False Some e pooled by (simp add: SetOrdinaryUnsent_def Let_def rem add)
      have "peer_ok (Profile s) (Now s) (NextToken s) (v\<lparr>Exposure := Some b\<rparr>)"
        using ok seen assms(2) by (intro peer_ok_update) simp_all
      then show ?thesis
        unfolding s' by (rule inv_put_exposure [OF assms(1) Some])
          (use seen pooled e le in \<open>simp_all add: put_peer_def same_clock_def unseen_peer_def exposed_def\<close>)
    qed
  qed
qed

lemma inv_Retire:
  assumes "admission_inv s" "Evidence s = None"
  shows "admission_inv (snd (Retire i token bytes s))"
proof (cases "find_peer i s")
  case None
  then show ?thesis using assms by (simp add: Retire_def)
next
  case (Some v)
  show ?thesis
  proof (cases "\<not> IsPooled (Profile s) \<or> token = 0 \<or> bytes = 0 \<or> DebtToken v \<noteq> token \<or> Debt v \<noteq> bytes \<or>
      bytes > sub64 u64_max (VerifiedAttributedRetirement (Totals s))")
    case True
    then show ?thesis using assms Some by (simp add: Retire_def)
  next
    case False
    have ok: "peer_ok (Profile s) (Now s) (NextToken s) v" using assms(1) Some by (rule inv_peer)
    have owns: "OwnsGrant v" using ok False by (auto simp: peer_ok_def)
    let ?w = "v\<lparr>Debt := 0, DebtToken := 0\<rparr>"
    have "peer_ok (Profile s) (Now s) (NextToken s) ?w" using ok by (simp add: peer_ok_def)
    moreover have "ReservedConnection r \<noteq> i" if "Active s = Some r" for r
      using assms(1) that owns Some by (auto simp: admission_inv_def active_ok_def)
    ultimately show ?thesis
      using False Some assms(2) ledger_sub(1) [OF assms(1) Some]
      by (simp add: Retire_def Let_def quiet, intro inv_put_release [OF assms(1) Some, where w = ?w])
         (simp_all add: put_peer_def same_clock_def native_grant_def native_bytes_def)
  qed
qed

lemma inv_CompleteNativeSend:
  assumes "admission_inv s" "Evidence s = None" "u \<le> u64_max"
  shows "admission_inv (snd (CompleteNativeSend i token bytes t u w s))"
proof (cases "find_peer i s")
  case None
  then show ?thesis using assms by (simp add: CompleteNativeSend_def)
next
  case (Some v)
  obtain b s1 where adv: "Advance u s = (b, s1)" by (cases "Advance u s")
  have s1: "admission_inv s1" "find_peer i s1 = Some v" "Active s1 = Active s" "Evidence s1 = None"
    using inv_Advance [OF assms(1,3)] Advance_select [OF adv] adv Some assms(2)
    by (simp_all add: same_accounts_def find_peer_def)
  let ?refused = "\<not> IsPooled (Profile s) \<or> \<not> SeparateNativeCapacity (Pooled (Profile s)) \<or> Active s \<noteq> None \<or>
         token = 0 \<or> bytes = 0 \<or> w > t \<or> t > u \<or> sub64 u t > FeedbackFreshnessMicroseconds (Pooled (Profile s))"
  let ?kept = "\<not> OwnsGrant v \<or> DebtToken v \<noteq> token \<or> Debt v \<noteq> bytes \<or> PeerGrantBytes v \<noteq> bytes \<or> \<not> OwnsNativeCapacity v \<or>
      ActiveDrainGrants (Totals s1) = 0 \<or> NativeCapacityBytes (Totals s1) < bytes \<or> NativeCapacityReturns (Totals s1) = u64_max"
  show ?thesis
  proof (cases "?refused \<or> \<not> b \<or> ?kept")
    case True
    then have "snd (CompleteNativeSend i token bytes t u w s) = s \<or> snd (CompleteNativeSend i token bytes t u w s) = s1"
      using Some adv unfolding CompleteNativeSend_def by (cases b; cases ?refused) simp_all
    then show ?thesis using assms(1) s1(1) by metis
  next
    case False
    define s2 where "s2 = s1\<lparr>Totals := (Totals s1)\<lparr>ActiveDrainGrants := sub64 (ActiveDrainGrants (Totals s1)) 1,
       NativeCapacityBytes := sub64 (NativeCapacityBytes (Totals s1)) bytes,
       NativeCapacityReturns := add64 (NativeCapacityReturns (Totals s1)) 1\<rparr>\<rparr>"
    have "snd (CompleteNativeSend i token bytes t u w s) = put_peer i (v\<lparr>OwnsNativeCapacity := False\<rparr>) s2"
      using False Some adv s1(4) by (simp add: CompleteNativeSend_def Let_def s2_def quiet)
    moreover have "admission_inv (put_peer i (v\<lparr>OwnsNativeCapacity := False\<rparr>) s2)"
    proof (rule inv_put_release [OF s1(1,2), where w = "v\<lparr>OwnsNativeCapacity := False\<rparr>"])
      show "peer_ok (Profile s1) (Now s1) (NextToken s1) (v\<lparr>OwnsNativeCapacity := False\<rparr>)"
        using inv_peer [OF s1(1,2)] by (simp add: peer_ok_def)
      show "ActiveDrainGrants (Totals (put_peer i (v\<lparr>OwnsNativeCapacity := False\<rparr>) s2)) + native_grant v =
          ActiveDrainGrants (Totals s1) + native_grant (v\<lparr>OwnsNativeCapacity := False\<rparr>)"
        using False ledger_sub(2) [OF s1(1,2)] by (simp add: s2_def put_peer_def native_grant_def)
      show "NativeCapacityBytes (Totals (put_peer i (v\<lparr>OwnsNativeCapacity := False\<rparr>) s2)) + native_bytes v =
          NativeCapacityBytes (Totals s1) + native_bytes (v\<lparr>OwnsNativeCapacity := False\<rparr>)"
        using False ledger_sub(3) [OF s1(1,2)] by (simp add: s2_def put_peer_def native_bytes_def)
      show "ReservedConnection r \<noteq> i" if "Active s1 = Some r" for r using False that s1(3) by simp
    qed (simp_all add: s2_def put_peer_def same_clock_def native_grant_def)
    ultimately show ?thesis by simp
  qed
qed

text \<open>A size deferral notes the size and then asks for an allowance.\<close>

definition deferred_state :: "ConnectionId \<Rightarrow> nat \<Rightarrow> Peer \<Rightarrow> ReliableByteAdmission \<Rightarrow> ReliableByteAdmission" where
  "deferred_state i n v s = (put_peer i (v\<lparr>Required := n\<rparr>) s)\<lparr>Totals := (Totals s)\<lparr>
     SizeDeferrals := Add (SizeDeferrals (Totals s)) 1, DeferredBytes := Add (DeferredBytes (Totals s)) n\<rparr>\<rparr>"

lemma DeferSize_cases:
  assumes "admission_inv s" "Evidence s = None"
  obtains "DeferSize i n f s = s"
  | v where "find_peer i s = Some v" "admission_inv (deferred_state i n v s)"
      "DeferSize i n f s = snd (Allowance i (Now s) (deferred_state i n v s))"
proof (cases "\<exists>v. find_peer i s = Some v \<and> MinimumFrameBytes \<le> n \<and> n \<le> MaximumReliableServiceGroupBytes")
  case False
  then have "DeferSize i n f s = s" by (cases "find_peer i s") (auto simp: DeferSize_def)
  then show thesis by (rule that(1))
next
  case True
  then obtain v where v: "find_peer i s = Some v" "MinimumFrameBytes \<le> n" "n \<le> MaximumReliableServiceGroupBytes" by blast
  let ?s1 = "put_peer i (v\<lparr>Required := n\<rparr>) s"
  have "admission_inv ?s1"
    using v by (intro inv_put_same [OF assms(1) v(1)] peer_ok_update inv_peer [OF assms(1)]) (simp_all add: same_peer_update)
  then have "admission_inv (deferred_state i n v s)"
    unfolding deferred_state_def by (rule inv_notes) (simp_all add: same_accounts_def same_clock_def blind_simps)
  moreover have "DeferSize i n f s = snd (Allowance i (Now s) (deferred_state i n v s))"
    using v assms(2) by (simp add: DeferSize_def quiet Let_def put_peer_def deferred_state_def)
  ultimately show thesis using v(1) that(2) by blast
qed

lemma deferred_quiet: "Evidence (deferred_state i n v s) = Evidence s" "Now (deferred_state i n v s) = Now s"
  by (simp_all add: deferred_state_def put_peer_def)

lemma inv_DeferSize:
  assumes "admission_inv s" "Evidence s = None"
  shows "admission_inv (DeferSize i n f s)"
proof (rule DeferSize_cases [OF assms, of i n f])
  assume "DeferSize i n f s = s"
  then show ?thesis using assms(1) by simp
next
  fix v
  assume "admission_inv (deferred_state i n v s)" "DeferSize i n f s = snd (Allowance i (Now s) (deferred_state i n v s))"
  then show ?thesis using assms by (simp add: inv_Allowance deferred_quiet inv_profile(3))
qed

section \<open>Reserving\<close>

text \<open>What a positive allowance says of the peer and the server.\<close>

definition granted :: "ConnectionId \<Rightarrow> nat \<Rightarrow> ReliableByteAdmission \<Rightarrow> bool" where
  "granted i k s \<longleftrightarrow> (\<exists>v e. find_peer i s = Some v \<and> Seen v \<and> Exposure v = Some e \<and>
     FeedbackComplete s \<and> Unobserved s = 0 \<and> Active s = None \<and> (GlobalWait s = None \<or> GlobalWait s = Some i) \<and>
     Required v \<le> k \<and> k \<le> CreditBytes (Credit v) \<and> k \<le> CreditBytes (Global s) \<and> k \<le> MaximumReliableServiceGroupBytes \<and>
     (if IsPooled (Profile s)
      then ServiceUsable s v \<and> \<not> GrantRefused s v \<and> e \<le> PeerOrdinaryUnsentLimit \<and> k \<le> FundedRoom s \<and>
        OutstandingBytes (Totals s) + k \<le> GlobalPendingCap (Pooled (Profile s))
      else e + k \<le> PeerBacklog (Profile s) - GameplayBurst (Profile s) \<and>
        AggregateExposure s + k \<le> GlobalBacklog (Profile s) - GameplayBurst (Profile s) * MaximumConnections (Profile s)))"

lemma Room_bound: "h \<le> u64_max \<Longrightarrow> 0 < k \<Longrightarrow> k \<le> fst (Room e h l) \<Longrightarrow> e + k \<le> h"
  by (auto simp: Room_def Let_def sub64_exact split: if_splits)

lemma backlog_room:
  assumes "Profile_IsValid p" "profile_fits p" "\<not> IsPooled p"
  shows "sub64 (PeerBacklog p) (GameplayBurst p) = PeerBacklog p - GameplayBurst p"
    "sub64 (GlobalBacklog p) (mul64 (GameplayBurst p) (MaximumConnections p)) =
      GlobalBacklog p - GameplayBurst p * MaximumConnections p"
    "PeerBacklog p \<le> 2 ^ 32" "GlobalBacklog p \<le> 2 ^ 32"
proof -
  have r: "resources_funded p" using assms by (rule reservation_funded)
  then have caps: "PeerBacklog p \<le> NativeMaximumQueuedReliableBytes" "GlobalBacklog p \<le> NativeMaximumSchedulerQueuedReliableBytes"
      "PeerBurst p + 2 * GameplayBurst p \<le> PeerBacklog p" "GlobalBurst p + 2 * GameplayBurst p * MaximumConnections p \<le> GlobalBacklog p"
    unfolding resources_funded_def by blast+
  show "PeerBacklog p \<le> 2 ^ 32" "GlobalBacklog p \<le> 2 ^ 32"
    using caps(1,2) by (simp_all add: NativeMaximumQueuedReliableBytes_def NativeMaximumSchedulerQueuedReliableBytes_def)
  then have big: "PeerBacklog p \<le> u64_max" "GlobalBacklog p \<le> u64_max" by (simp_all add: u64_max_def)
  show "sub64 (PeerBacklog p) (GameplayBurst p) = PeerBacklog p - GameplayBurst p" using caps(3) big by (intro sub64_exact) linarith+
  have "GameplayBurst p * MaximumConnections p \<le> 2 * GameplayBurst p * MaximumConnections p" by simp
  then have le: "GameplayBurst p * MaximumConnections p \<le> GlobalBacklog p" using caps(4) by linarith
  then have "mul64 (GameplayBurst p) (MaximumConnections p) = GameplayBurst p * MaximumConnections p"
    using big by (intro mul64_exact) linarith
  then show "sub64 (GlobalBacklog p) (mul64 (GameplayBurst p) (MaximumConnections p)) =
      GlobalBacklog p - GameplayBurst p * MaximumConnections p"
    using le big by (simp add: sub64_exact)
qed

lemma Admit_grants:
  assumes inv: "admission_inv s" and v: "find_peer i s = Some v" and act: "Active s = None"
    and k: "Admit i v s = (k, s')" "0 < k"
  shows "granted i k s'"
proof -
  obtain pr pl where pr: "PeerRoomOf s v (the (Exposure v)) = (pr, pl)" by (cases "PeerRoomOf s v (the (Exposure v))")
  obtain gr gl where gr: "GlobalRoomOf s = (gr, gl)" by (cases "GlobalRoomOf s")
  define s2 where "s2 = (put_peer i (v\<lparr>Backlogged := pl\<rparr>) s)\<lparr>GlobalBacklogged := gl\<rparr>"
  have k2: "FeedbackComplete s \<and> Unobserved s = 0 \<and> Seen v \<and> Exposure v \<noteq> None \<and>
      (IsPooled (Profile s) \<longrightarrow> ServiceUsable s v \<and> \<not> GrantRefused s v) \<and>
      Required v \<le> pr \<and> Required v \<le> gr \<and> Required v \<le> RetainedRoomOf s \<and> Required v \<le> CreditBytes (Credit v) \<and>
      (GlobalWait s2 = None \<or> GlobalWait s2 = Some i) \<and> Required v \<le> CreditBytes (Global s2) \<and> s' = s2 \<and>
      k = min (CreditBytes (Credit v)) (min (CreditBytes (Global s2)) (min pr (min gr (min (RetainedRoomOf s) MaximumReliableServiceGroupBytes))))"
    using k unfolding Admit_def pr gr prod.case Let_def s2_def [symmetric]
    by (simp only: split: if_split_asm) (simp_all add: not_less, blast+)
  then obtain e where e: "Exposure v = Some e" by auto
  let ?w = "v\<lparr>Backlogged := pl\<rparr>"
  have find: "find_peer i s' = Some ?w" using k2 by (simp add: s2_def find_peer_def put_peer_def AList.update_conv')
  have same: "Profile s' = Profile s" "Totals s' = Totals s" "AggregateExposure s' = AggregateExposure s" "Active s' = Active s"
      "Now s' = Now s" "OrdinaryFunding s' = OrdinaryFunding s" "FeedbackComplete s' = FeedbackComplete s" "Unobserved s' = Unobserved s"
    using k2 by (simp_all add: s2_def put_peer_def)
  have small: "k \<le> pr" "k \<le> gr" "k \<le> RetainedRoomOf s" using k2 by simp_all
  have room: "if IsPooled (Profile s)
      then ServiceUsable s' ?w \<and> \<not> GrantRefused s' ?w \<and> e \<le> PeerOrdinaryUnsentLimit \<and> k \<le> FundedRoom s' \<and>
        OutstandingBytes (Totals s') + k \<le> GlobalPendingCap (Pooled (Profile s'))
      else e + k \<le> PeerBacklog (Profile s) - GameplayBurst (Profile s) \<and>
        AggregateExposure s' + k \<le> GlobalBacklog (Profile s) - GameplayBurst (Profile s) * MaximumConnections (Profile s)"
  proof (cases "IsPooled (Profile s)")
    case True
    have "e \<le> PeerOrdinaryUnsentLimit" using pr True small(1) k(2) e by (auto simp: PeerRoomOf_def split: if_splits)
    moreover have "k \<le> FundedRoom s" using gr True small(2) by (simp add: GlobalRoomOf_def)
    moreover have "OutstandingBytes (Totals s) + k \<le> GlobalPendingCap (Pooled (Profile s))"
    proof -
      have cap: "GlobalPendingCap (Pooled (Profile s)) \<le> u64_max"
        using pooled_parameters(7) [OF inv_profile(1) [OF inv] True] by (simp add: u64_max_def)
      have "k \<le> GlobalPendingCap (Pooled (Profile s)) - min (OutstandingBytes (Totals s)) (GlobalPendingCap (Pooled (Profile s)))"
        using small(3) True cap by (simp add: RetainedRoomOf_def sub64_exact)
      then show ?thesis using k(2) by (simp add: min_def split: if_splits)
    qed
    moreover have "FundedRoom s' = FundedRoom s" by (simp only: FundedRoom_def same)
    moreover have "ServiceUsable s' ?w = ServiceUsable s v" "GrantRefused s' ?w = GrantRefused s v"
      by (cases "Service v"; simp add: ServiceUsable_def GrantRefused_def ServiceFresh_def same)+
    then have "ServiceUsable s' ?w" "\<not> GrantRefused s' ?w" using k2 True by blast+
    ultimately show ?thesis using True by (simp add: same)
  next
    case False
    note b = backlog_room [OF inv_profile(1,2) [OF inv] False]
    have "e + k \<le> PeerBacklog (Profile s) - GameplayBurst (Profile s)"
      using pr small(1) False k(2) e b(1,3) Room_bound [of "PeerBacklog (Profile s) - GameplayBurst (Profile s)" k e "Backlogged v"]
      by (simp add: PeerRoomOf_def u64_max_def)
    moreover have "AggregateExposure s + k \<le> GlobalBacklog (Profile s) - GameplayBurst (Profile s) * MaximumConnections (Profile s)"
      using gr small(2) False k(2) b(2,4)
        Room_bound [of "GlobalBacklog (Profile s) - GameplayBurst (Profile s) * MaximumConnections (Profile s)" k "AggregateExposure s" "GlobalBacklogged s"]
      by (simp add: GlobalRoomOf_def u64_max_def)
    ultimately show ?thesis using False by (simp add: same)
  qed
  have req: "Required v \<le> MaximumReliableServiceGroupBytes" using inv_peer [OF inv v] by (simp add: peer_ok_def)
  have parts: "Seen v" "FeedbackComplete s" "Unobserved s = 0" "GlobalWait s' = None \<or> GlobalWait s' = Some i" "Required v \<le> k"
      "k \<le> CreditBytes (Credit v)" "k \<le> CreditBytes (Global s')" "k \<le> MaximumReliableServiceGroupBytes"
    using k2 req by simp_all
  show ?thesis
    unfolding granted_def
  proof (rule exI [of _ ?w], rule exI [of _ e], intro conjI)
    show "find_peer i s' = Some ?w" by (rule find)
    show "if IsPooled (Profile s')
      then ServiceUsable s' ?w \<and> \<not> GrantRefused s' ?w \<and> e \<le> PeerOrdinaryUnsentLimit \<and> k \<le> FundedRoom s' \<and>
        OutstandingBytes (Totals s') + k \<le> GlobalPendingCap (Pooled (Profile s'))
      else e + k \<le> PeerBacklog (Profile s') - GameplayBurst (Profile s') \<and>
        AggregateExposure s' + k \<le> GlobalBacklog (Profile s') - GameplayBurst (Profile s') * MaximumConnections (Profile s')"
      using room by (simp only: same(1))
  qed (use parts e act in \<open>simp_all add: same\<close>)
qed

lemma Allowance_grants:
  assumes "admission_inv s" "Evidence s = None" "t \<le> u64_max" "Allowance i t s = (k, s')" "0 < k"
  shows "granted i k s'"
proof -
  have act: "Active s = None" and adv: "fst (Advance t s)"
    using assms(4,5) by (auto simp: Allowance_def split: if_splits prod.splits bool.splits)
  then obtain s1 where s1: "Advance t s = (True, s1)" by (cases "Advance t s") auto
  then have i1: "admission_inv s1" "Evidence s1 = None" "Active s1 = None"
    using inv_Advance [OF assms(1,3)] Advance_select [OF s1] assms(2) act by (simp_all add: same_accounts_def)
  obtain v where v: "find_peer i s1 = Some v"
    using assms(4,5) act s1 by (auto simp: Allowance_def split: option.splits)
  obtain w s2 where ex: "ExamineDemand i v s1 = (w, s2)" by (cases "ExamineDemand i v s1")
  note e = inv_ExamineDemand [OF i1(1,2) v ex]
  have "Admit i w s2 = (k, s')" using assms(4) act s1 v ex by (simp add: Allowance_def)
  moreover have "Active s2 = None" using e(4) i1(3) by (simp add: same_accounts_def)
  ultimately show ?thesis using e(1,3) assms(5) by (intro Admit_grants)
qed

lemma count_evidence:
  "Evidence (count_feedback s) = Evidence s" "Evidence (count_grant s) = Evidence s" "Evidence (count_funded s) = Evidence s"
  "Evidence (count_backlog s) = Evidence s" "Evidence (count_credit s) = Evidence s" "Evidence (count_fairness s) = Evidence s"
  "Evidence (ReleaseWait i s) = Evidence s"
  by (simp_all add: count_feedback_def count_grant_def count_funded_def count_backlog_def count_credit_def count_fairness_def
      ReleaseWait_def)

lemma Admit_evidence: "Evidence (snd (Admit i v s)) = Evidence s"
proof -
  obtain pr pl where pr: "PeerRoomOf s v (the (Exposure v)) = (pr, pl)" by (cases "PeerRoomOf s v (the (Exposure v))")
  obtain gr gl where gr: "GlobalRoomOf s = (gr, gl)" by (cases "GlobalRoomOf s")
  show ?thesis unfolding Admit_def pr gr prod.case Let_def by (simp add: count_evidence put_peer_def)
qed

lemma Allowance_evidence:
  assumes "admission_inv s" "Evidence s = None" "t \<le> u64_max" "Allowance i t s = (k, s')"
  shows "Evidence s' = None"
proof (cases "Active s = None \<and> fst (Advance t s)")
  case True
  then obtain s1 where adv: "Advance t s = (True, s1)" by (cases "Advance t s") auto
  then have i1: "admission_inv s1" "Evidence s1 = None"
    using inv_Advance [OF assms(1,3)] Advance_select [OF adv] assms(2) by simp_all
  show ?thesis
  proof (cases "find_peer i s1")
    case (Some v)
    obtain w s2 where ex: "ExamineDemand i v s1 = (w, s2)" by (cases "ExamineDemand i v s1")
    have "Admit i w s2 = (k, s')" using assms(4) True adv Some ex by (simp add: Allowance_def)
    then show ?thesis using Admit_evidence [of i w s2] inv_ExamineDemand(6) [OF i1 Some ex] by simp
  qed (use assms(4) True adv i1 in \<open>simp add: Allowance_def\<close>)
next
  case False
  then have "s' = s \<or> s' = snd (Advance t s)"
    using assms(4) by (cases "Advance t s") (auto simp: Allowance_def split: if_splits)
  then show ?thesis using assms(2) Advance_select by (metis prod.collapse)
qed

text \<open>The state after a successful reservation, and the only way to one.\<close>

definition reserved_state :: "ConnectionId \<Rightarrow> nat \<Rightarrow> Peer \<Rightarrow> nat \<Rightarrow> ReliableByteAdmission \<Rightarrow> ReliableByteAdmission" where
  "reserved_state i bytes v e s =
     (let v1 = v\<lparr>Credit := (Credit v)\<lparr>CreditBytes := CreditBytes (Credit v) - bytes\<rparr>\<rparr>;
          exposure = (if IsPooled (Profile s) then e else e + bytes);
          aggregate = (if IsPooled (Profile s) then AggregateExposure s else AggregateExposure s + bytes)
      in (put_peer i (v1\<lparr>Exposure := Some exposure\<rparr>) s)
           \<lparr>Global := (Global s)\<lparr>CreditBytes := CreditBytes (Global s) - bytes\<rparr>,
            AggregateExposure := aggregate, NextToken := NextToken s + 1,
            Active := Some \<lparr>Token = NextToken s + 1, ReservedConnection = i, ReservationBytes = bytes\<rparr>,
            Totals := (Totals s)\<lparr>PeerBacklogHighWater := max (PeerBacklogHighWater (Totals s)) exposure,
              GlobalBacklogHighWater := max (GlobalBacklogHighWater (Totals s)) aggregate,
              ReservedBytes := Add (ReservedBytes (Totals s)) bytes\<rparr>\<rparr>)"

lemma granted_small:
  assumes "admission_inv s" "granted i k s" "find_peer i s = Some v" "Exposure v = Some e"
  shows "CreditBytes (Credit v) \<le> u64_max" "CreditBytes (Global s) \<le> u64_max"
    "\<not> IsPooled (Profile s) \<Longrightarrow> e + k \<le> 2 ^ 32" "\<not> IsPooled (Profile s) \<Longrightarrow> AggregateExposure s + k \<le> 2 ^ 32"
proof -
  have caps: "PeerCap (Profile s) \<le> 2 ^ 32" "GlobalCap (Profile s) \<le> 2 ^ 32"
    using profile_buckets [OF inv_profile(1,2) [OF assms(1)]] by (simp_all add: refillable_def)
  have "CreditBytes (Credit v) \<le> PeerCap (Profile s)" "CreditBytes (Global s) \<le> GlobalCap (Profile s)"
    using inv_peer [OF assms(1,3)] assms(1) by (simp_all add: peer_ok_def bucket_ok_def admission_inv_def clock_ok_def)
  then show "CreditBytes (Credit v) \<le> u64_max" "CreditBytes (Global s) \<le> u64_max" using caps by (simp_all add: u64_max_def)
  assume np: "\<not> IsPooled (Profile s)"
  note b = backlog_room(3,4) [OF inv_profile(1,2) [OF assms(1)] np]
  show "e + k \<le> 2 ^ 32" "AggregateExposure s + k \<le> 2 ^ 32"
    using assms(2-4) np b by (auto simp: granted_def)
qed

lemma Reserve_cases:
  assumes "admission_inv s" "Evidence s = None" "Reserve i bytes s = (x, s')"
  obtains "x = None" "admission_inv s'"
  | k s1 v e where "x = Active s'" "admission_inv s1" "Evidence s1 = None" "granted i k s1" "find_peer i s1 = Some v" "Exposure v = Some e"
      "MinimumFrameBytes \<le> bytes" "bytes \<le> k" "NextToken s1 < u64_max" "s' = reserved_state i bytes v e s1"
      "x = Some \<lparr>Token = NextToken s1 + 1, ReservedConnection = i, ReservationBytes = bytes\<rparr>"
      "Allowance i (Now s) s = (k, s1)"
proof -
  obtain k s1 where all: "Allowance i (Now s) s = (k, s1)" by (cases "Allowance i (Now s) s")
  have s1: "admission_inv s1" using inv_Allowance [OF assms(1,2) inv_profile(3) [OF assms(1)], of i] all by simp
  have q1: "Evidence s1 = None"
    using assms(1,2) inv_profile(3) [OF assms(1)] all by (rule Allowance_evidence)
  show thesis
  proof (cases "x = None")
    case True
    then have "s' = s \<or> s' = s1"
      using assms(3) all by (auto simp: Reserve_def Let_def split: if_splits option.splits)
    then show thesis using True assms(1) s1 that(1) by blast
  next
    case False
    then have c: "MinimumFrameBytes \<le> bytes" "bytes \<le> k" "NextToken s1 \<noteq> u64_max"
      using assms(3) all by (auto simp: Reserve_def Let_def split: if_splits option.splits)
    have "0 < k" using c by (simp add: MinimumFrameBytes_def profile_constants)
    then have g: "granted i k s1" using Allowance_grants [OF assms(1,2) inv_profile(3) [OF assms(1)] all] by blast
    then obtain v e where v: "find_peer i s1 = Some v" "Exposure v = Some e" "k \<le> CreditBytes (Credit v)" "k \<le> CreditBytes (Global s1)"
      unfolding granted_def by blast
    note small = granted_small [OF s1 g v(1,2)]
    have tok: "NextToken s1 < u64_max" using c(3) s1 by (simp add: admission_inv_def clock_ok_def)
    have "sub64 (CreditBytes (Credit v)) bytes = CreditBytes (Credit v) - bytes"
        "sub64 (CreditBytes (Global s1)) bytes = CreditBytes (Global s1) - bytes"
        "add64 (NextToken s1) 1 = NextToken s1 + 1"
      using small(1,2) v(3,4) c(2) tok by (simp_all add: sub64_exact add64_exact)
    moreover have "Add e bytes = e + bytes" "Add (AggregateExposure s1) bytes = AggregateExposure s1 + bytes" if "\<not> IsPooled (Profile s1)"
      using small(3,4) [OF that] c(2) by (simp_all add: Add_exact u64_max_def)
    ultimately have "s' = reserved_state i bytes v e s1 \<and> x = Some \<lparr>Token = NextToken s1 + 1, ReservedConnection = i, ReservationBytes = bytes\<rparr>"
      using assms(3) False all c v(1,2)
      by (cases "IsPooled (Profile s1)") (auto simp: Reserve_def reserved_state_def Let_def put_peer_def split: if_splits)
    then show thesis using that(2) s1 q1 g v(1,2) c(1,2) tok all by (auto simp: reserved_state_def Let_def)
  qed
qed
end
