(* ===== verification/AdmissionHistories.thy ===== *)
theory AdmissionHistories imports AdmissionSteps begin

text \<open>
  The operations on a reservation, the end of a demand and of a step keep the invariant too, so
  every operation does, and every state of a history satisfies it.
\<close>

section \<open>A reservation, committed or rolled back\<close>

lemma inv_reserved:
  assumes inv: "admission_inv s" and g: "granted i k s" and v: "find_peer i s = Some v" "Exposure v = Some e"
    and b: "MinimumFrameBytes \<le> bytes" "bytes \<le> k" "NextToken s < u64_max"
  shows "admission_inv (reserved_state i bytes v e s)"
proof -
  let ?exposure = "if IsPooled (Profile s) then e else e + bytes"
  let ?w = "v\<lparr>Credit := (Credit v)\<lparr>CreditBytes := CreditBytes (Credit v) - bytes\<rparr>, Exposure := Some ?exposure\<rparr>"
  let ?s = "reserved_state i bytes v e s"
  from g v have gr: "Seen v" "Active s = None" "k \<le> CreditBytes (Credit v)" "k \<le> CreditBytes (Global s)"
      "k \<le> MaximumReliableServiceGroupBytes"
    and pooled: "IsPooled (Profile s) \<Longrightarrow> \<not> GrantRefused s v \<and> OutstandingBytes (Totals s) + k \<le> GlobalPendingCap (Pooled (Profile s))"
    unfolding granted_def by (auto split: if_splits)
  have ok: "peer_ok (Profile s) (Now s) (NextToken s) v" using inv v(1) by (rule inv_peer)
  have owns: "\<not> OwnsGrant v"
    using pooled ok by (cases "IsPooled (Profile s)") (auto simp: GrantRefused_def peer_ok_def)
  have small: "?exposure \<le> exposure_ceiling"
  proof (cases "IsPooled (Profile s)")
    case True
    then show ?thesis using ok v(2) by (simp add: peer_ok_def)
  next
    case False
    then show ?thesis using granted_small(3) [OF inv g v False] b(2) by (simp add: exposure_ceiling_def u64_max_def)
  qed
  have sel: "Peers ?s = AList.update i ?w (Peers s)" "Profile ?s = Profile s" "Now ?s = Now s" "NextToken ?s = NextToken s + 1"
      "Initialized ?s = Initialized s" "Global ?s = (Global s)\<lparr>CreditBytes := CreditBytes (Global s) - bytes\<rparr>"
      "Active ?s = Some \<lparr>Token = NextToken s + 1, ReservedConnection = i, ReservationBytes = bytes\<rparr>"
      "GlobalWait ?s = GlobalWait s" "Unobserved ?s = Unobserved s"
      "AggregateExposure ?s = (if IsPooled (Profile s) then AggregateExposure s else AggregateExposure s + bytes)"
      "OutstandingBytes (Totals ?s) = OutstandingBytes (Totals s)" "ActiveDrainGrants (Totals ?s) = ActiveDrainGrants (Totals s)"
      "NativeCapacityBytes (Totals ?s) = NativeCapacityBytes (Totals s)"
    by (simp_all add: reserved_state_def Let_def put_peer_def)
  show ?thesis
  proof (rule inv_put [OF inv v(1) sel(1,2)])
    have "clock_ok s" using inv by (simp add: admission_inv_def)
    then show "clock_ok ?s" using b(3) by (auto simp: clock_ok_def sel bucket_ok_def intro: le_trans [OF diff_le_self])
    show "peer_ok (Profile s) (Now ?s) (NextToken ?s) ?w"
      using ok gr(1) small by (auto simp: peer_ok_def sel bucket_ok_def intro: le_trans [OF diff_le_self])
    show "OutstandingBytes (Totals ?s) + pending_bytes ?s \<le> GlobalPendingCap (Pooled (Profile s)) \<and>
        ActiveDrainGrants (Totals ?s) + pending_grants ?s \<le> MaximumDrainGrants (Pooled (Profile s))" if "IsPooled (Profile s)"
      using pooled [OF that] b(2) by (auto simp: sel pending_bytes_def pending_grants_def GrantRefused_def)
    show "active_ok ?s"
    proof -
      have at: "map_of (Peers s) i = Some v" using v by (simp add: find_peer_def)
      have dist: "distinct (map fst (Peers s))" using inv keys_distinct by (simp add: admission_inv_def)
      have "DebtToken x \<le> NextToken s" if "x \<in> snd ` set (Peers ?s)" for x
      proof -
        have "x = ?w \<or> x \<in> snd ` set (Peers s)"
          using that update_member [OF dist at] by (force simp: sel(1) split: if_splits)
        then show ?thesis
        proof
          assume "x = ?w"
          then show ?thesis using ok by (simp add: peer_ok_def)
        next
          assume "x \<in> snd ` set (Peers s)"
          then have "peer_ok (Profile s) (Now s) (NextToken s) x" using inv unfolding admission_inv_def peers_ok_def by blast
          then show ?thesis by (simp add: peer_ok_def)
        qed
      qed
      moreover have "find_peer i ?s = Some ?w" by (simp add: find_peer_def sel(1) AList.update_conv')
      ultimately show ?thesis
        using b gr owns unfolding active_ok_def sel by (auto simp: le_imp_less_Suc)
    qed
  qed (use v(2) in \<open>simp_all add: sel unseen_peer_def exposed_def native_grant_def native_bytes_def\<close>)
qed

lemma inv_Reserve:
  assumes "admission_inv s" "Evidence s = None"
  shows "admission_inv (snd (Reserve i bytes s))"
proof (cases "Reserve i bytes s")
  case (Pair x s')
  show ?thesis
  proof (rule Reserve_cases [OF assms Pair])
    assume "admission_inv s'"
    then show ?thesis by (simp add: Pair)
  next
    fix k s1 v e
    assume "admission_inv s1" "granted i k s1" "find_peer i s1 = Some v" "Exposure v = Some e"
      "MinimumFrameBytes \<le> bytes" "bytes \<le> k" "NextToken s1 < u64_max" and s': "s' = reserved_state i bytes v e s1"
    then have "admission_inv (reserved_state i bytes v e s1)" by (intro inv_reserved)
    then show ?thesis by (simp add: Pair s')
  qed
qed

lemma active_peer:
  assumes "admission_inv s" "Active s = Some r"
  obtains v e where "find_peer (ReservedConnection r) s = Some v" "\<not> OwnsGrant v" "Seen v" "Exposure v = Some e"
    "IsPooled (Profile s) \<or> ReservationBytes r \<le> e"
  using assms unfolding admission_inv_def active_ok_def by blast

text \<open>The totals a commit leaves, in either mode.\<close>

lemma active_bounds:
  assumes "admission_inv s" "Active s = Some r"
  shows "0 < Token r" "Token r \<le> NextToken s" "0 < ReservationBytes r" "ReservationBytes r \<le> MaximumReliableServiceGroupBytes"
    "\<And>x. x \<in> snd ` set (Peers s) \<Longrightarrow> DebtToken x < Token r"
    "IsPooled (Profile s) \<Longrightarrow> OutstandingBytes (Totals s) + ReservationBytes r \<le> GlobalPendingCap (Pooled (Profile s))"
    "IsPooled (Profile s) \<Longrightarrow> ActiveDrainGrants (Totals s) + 1 \<le> MaximumDrainGrants (Pooled (Profile s))"
proof -
  have a: "MinimumFrameBytes \<le> ReservationBytes r" "ReservationBytes r \<le> MaximumReliableServiceGroupBytes"
      "Token r = NextToken s" "\<forall>x \<in> snd ` set (Peers s). DebtToken x < Token r"
    using assms unfolding admission_inv_def active_ok_def by blast+
  obtain v e where "find_peer (ReservedConnection r) s = Some v" using active_peer [OF assms] by blast
  then have "v \<in> snd ` set (Peers s)" by (force simp: find_peer_def dest: map_of_SomeD)
  with a(4) show "0 < Token r" by force
  show "0 < ReservationBytes r" using a(1) by (simp add: MinimumFrameBytes_def profile_constants)
  show "IsPooled (Profile s) \<Longrightarrow> OutstandingBytes (Totals s) + ReservationBytes r \<le> GlobalPendingCap (Pooled (Profile s))"
    "IsPooled (Profile s) \<Longrightarrow> ActiveDrainGrants (Totals s) + 1 \<le> MaximumDrainGrants (Pooled (Profile s))"
    using assms by (simp_all add: admission_inv_def ledger_ok_def pending_bytes_def pending_grants_def)
  show "Token r \<le> NextToken s" "ReservationBytes r \<le> MaximumReliableServiceGroupBytes" using a by simp_all
  show "DebtToken x < Token r" if "x \<in> snd ` set (Peers s)" for x using a(4) that by blast
qed

definition committed_peer :: "ReliableByteAdmission \<Rightarrow> Reservation \<Rightarrow> Peer \<Rightarrow> Peer" where
  "committed_peer s r v =
     (ClearDiagnosticDemand ((if IsPooled (Profile s) then fst (OwnDebt r v s) else v)
        \<lparr>DiagnosticGrantDemandId := DiagnosticDemandId v, DiagnosticGrantBytes := ReservationBytes r, DiagnosticGrantToken := Token r\<rparr>))
      \<lparr>WaitSince := None, Required := MinimumFrameBytes\<rparr>"

lemma Commit_effect:
  assumes "Evidence s = None" "Active s = Some r" "find_peer (ReservedConnection r) s = Some v"
  shows "fst (Commit r t s) = True" "Peers (snd (Commit r t s)) = AList.update (ReservedConnection r) (committed_peer s r v) (Peers s)"
    "Profile (snd (Commit r t s)) = Profile s" "Active (snd (Commit r t s)) = None" "NextToken (snd (Commit r t s)) = NextToken s"
    "GlobalWait (snd (Commit r t s)) = GlobalWait s \<or> GlobalWait (snd (Commit r t s)) = None"
    "same_clock s (snd (Commit r t s))" "Unobserved (snd (Commit r t s)) = Unobserved s"
    "AggregateExposure (snd (Commit r t s)) = AggregateExposure s" "Evidence (snd (Commit r t s)) = None"
    "AcceptedBytes (Totals (snd (Commit r t s))) = Add (AcceptedBytes (Totals s)) (ReservationBytes r)"
    "OutstandingBytes (Totals (snd (Commit r t s))) =
      (if IsPooled (Profile s) then add64 (OutstandingBytes (Totals s)) (ReservationBytes r) else OutstandingBytes (Totals s))"
    "ActiveDrainGrants (Totals (snd (Commit r t s))) =
      (if IsPooled (Profile s) then add64 (ActiveDrainGrants (Totals s)) 1 else ActiveDrainGrants (Totals s))"
    "NativeCapacityBytes (Totals (snd (Commit r t s))) =
      (if IsPooled (Profile s) then add64 (NativeCapacityBytes (Totals s)) (ReservationBytes r) else NativeCapacityBytes (Totals s))"
proof -
  obtain v1 s1 where own: "(if IsPooled (Profile s) then OwnDebt r v s else (v, s)) = (v1, s1)"
    by (cases "if IsPooled (Profile s) then OwnDebt r v s else (v, s)")
  define s2 where "s2 = (case WaitSince v1 of None \<Rightarrow> s1
     | Some since \<Rightarrow> s1\<lparr>Totals := (Totals s1)\<lparr>MaximumAdmissionWaitMicroseconds :=
         max (MaximumAdmissionWaitMicroseconds (Totals s1)) (sub64 (Now s1) since)\<rparr>\<rparr>)"
  obtain t1 where s1: "s1 = s\<lparr>Totals := t1\<rparr>"
  proof (cases "IsPooled (Profile s)")
    case True
    then show ?thesis using own that by (auto simp: OwnDebt_def Let_def)
  next
    case False
    then show ?thesis using own that [of "Totals s"] by simp
  qed
  obtain t2 where s2: "s2 = s\<lparr>Totals := t2\<rparr>"
    using that by (cases "WaitSince v1") (auto simp: s2_def s1)
  have keep: "OutstandingBytes (Totals s2) = OutstandingBytes (Totals s1)" "ActiveDrainGrants (Totals s2) = ActiveDrainGrants (Totals s1)"
      "NativeCapacityBytes (Totals s2) = NativeCapacityBytes (Totals s1)" "AcceptedBytes (Totals s2) = AcceptedBytes (Totals s1)"
    by (simp_all add: s2_def split: option.splits)
  have t1: "OutstandingBytes (Totals s1) =
        (if IsPooled (Profile s) then add64 (OutstandingBytes (Totals s)) (ReservationBytes r) else OutstandingBytes (Totals s))"
      "ActiveDrainGrants (Totals s1) = (if IsPooled (Profile s) then add64 (ActiveDrainGrants (Totals s)) 1 else ActiveDrainGrants (Totals s))"
      "NativeCapacityBytes (Totals s1) =
        (if IsPooled (Profile s) then add64 (NativeCapacityBytes (Totals s)) (ReservationBytes r) else NativeCapacityBytes (Totals s))"
      "AcceptedBytes (Totals s1) = AcceptedBytes (Totals s)"
    using own by (auto simp: OwnDebt_def Let_def split: if_splits)
  define w where "w = committed_peer s r v"
  have v1: "v1 = (if IsPooled (Profile s) then fst (OwnDebt r v s) else v)" using own by (auto split: if_splits)
  have d1: "DiagnosticDemandId v1 = DiagnosticDemandId v" by (simp add: v1 OwnDebt_def Let_def)
  have q2: "Evidence s2 = None" using assms(1) by (simp add: s2)
  define s3 where "s3 = (put_peer (ReservedConnection r) w s2)\<lparr>Totals := (Totals s2)\<lparr>AcceptedBytes := Add (AcceptedBytes (Totals s2)) (ReservationBytes r)\<rparr>,
     Active := None\<rparr>"
  have c: "Commit r t s = (True, ReleaseWait (ReservedConnection r) s3)"
    using assms(2,3) own q2
    by (simp add: Commit_def Let_def s2_def [symmetric] quiet s3_def w_def committed_peer_def v1 [symmetric] d1 put_peer_def)
  have sel: "Peers s3 = AList.update (ReservedConnection r) w (Peers s)" "Profile s3 = Profile s" "Active s3 = None"
      "NextToken s3 = NextToken s" "GlobalWait s3 = GlobalWait s" "Unobserved s3 = Unobserved s" "AggregateExposure s3 = AggregateExposure s"
      "Evidence s3 = None" "same_clock s s3"
    using assms(1) by (simp_all add: s3_def s2 put_peer_def same_clock_def)
  have totals: "OutstandingBytes (Totals s3) = OutstandingBytes (Totals s2)" "ActiveDrainGrants (Totals s3) = ActiveDrainGrants (Totals s2)"
      "NativeCapacityBytes (Totals s3) = NativeCapacityBytes (Totals s2)"
      "AcceptedBytes (Totals s3) = Add (AcceptedBytes (Totals s2)) (ReservationBytes r)"
    by (simp_all add: s3_def)
  have rw: "Peers (ReleaseWait i s3) = Peers s3" "Profile (ReleaseWait i s3) = Profile s3" "Active (ReleaseWait i s3) = Active s3"
      "NextToken (ReleaseWait i s3) = NextToken s3" "GlobalWait (ReleaseWait i s3) = GlobalWait s3 \<or> GlobalWait (ReleaseWait i s3) = None"
      "Unobserved (ReleaseWait i s3) = Unobserved s3" "AggregateExposure (ReleaseWait i s3) = AggregateExposure s3"
      "Evidence (ReleaseWait i s3) = Evidence s3" "same_clock s (ReleaseWait i s3) = same_clock s s3"
      "Totals (ReleaseWait i s3) = Totals s3" for i
    by (simp_all add: ReleaseWait_def same_clock_def)
  show "fst (Commit r t s) = True" "Peers (snd (Commit r t s)) = AList.update (ReservedConnection r) (committed_peer s r v) (Peers s)"
    "Profile (snd (Commit r t s)) = Profile s" "Active (snd (Commit r t s)) = None" "NextToken (snd (Commit r t s)) = NextToken s"
    "same_clock s (snd (Commit r t s))" "Unobserved (snd (Commit r t s)) = Unobserved s"
    "AggregateExposure (snd (Commit r t s)) = AggregateExposure s" "Evidence (snd (Commit r t s)) = None"
    by (simp_all add: c rw sel w_def)
  show "GlobalWait (snd (Commit r t s)) = GlobalWait s \<or> GlobalWait (snd (Commit r t s)) = None"
    using rw(5) by (simp add: c sel)
  show "AcceptedBytes (Totals (snd (Commit r t s))) = Add (AcceptedBytes (Totals s)) (ReservationBytes r)"
    by (simp only: c snd_conv rw totals keep t1)
  show "OutstandingBytes (Totals (snd (Commit r t s))) =
      (if IsPooled (Profile s) then add64 (OutstandingBytes (Totals s)) (ReservationBytes r) else OutstandingBytes (Totals s))"
    by (simp only: c snd_conv rw totals keep t1)
  show "ActiveDrainGrants (Totals (snd (Commit r t s))) =
      (if IsPooled (Profile s) then add64 (ActiveDrainGrants (Totals s)) 1 else ActiveDrainGrants (Totals s))"
    by (simp only: c snd_conv rw totals keep t1)
  show "NativeCapacityBytes (Totals (snd (Commit r t s))) =
      (if IsPooled (Profile s) then add64 (NativeCapacityBytes (Totals s)) (ReservationBytes r) else NativeCapacityBytes (Totals s))"
    by (simp only: c snd_conv rw totals keep t1)
qed

lemma inv_Commit:
  assumes "admission_inv s" "Evidence s = None"
  shows "admission_inv (snd (Commit r t s))"
proof (cases "Active s = Some r")
  case False
  then show ?thesis using assms by (simp add: Commit_def)
next
  case True
  let ?i = "ReservedConnection r"
  obtain v e where v: "find_peer ?i s = Some v" "\<not> OwnsGrant v" "Seen v" "Exposure v = Some e"
    using active_peer [OF assms(1) True] by blast
  note c = Commit_effect [OF assms(2) True v(1), of t] and a = active_bounds [OF assms(1) True]
  have ok: "peer_ok (Profile s) (Now s) (NextToken s) v" using assms(1) v(1) by (rule inv_peer)
  have nodebt: "Debt v = 0" "\<not> OwnsNativeCapacity v" using ok v(2) by (auto simp: peer_ok_def)
  let ?w = "committed_peer s r v" and ?s = "snd (Commit r t s)"
  have w: "Seen ?w = Seen v" "Exposure ?w = Exposure v" "Credit ?w = Credit v" "WaitSince ?w = None" "Required ?w = MinimumFrameBytes"
    "Debt ?w = (if IsPooled (Profile s) then ReservationBytes r else Debt v)"
    "DebtToken ?w = (if IsPooled (Profile s) then Token r else DebtToken v)"
    "OwnsGrant ?w = (IsPooled (Profile s) \<or> OwnsGrant v)" "OwnsNativeCapacity ?w = (IsPooled (Profile s) \<or> OwnsNativeCapacity v)"
    "PeerGrantBytes ?w = (if IsPooled (Profile s) then ReservationBytes r else PeerGrantBytes v)"
    by (simp_all add: committed_peer_def OwnDebt_def ClearDiagnosticDemand_def Let_def)
  have sum: "add64 (OutstandingBytes (Totals s)) (ReservationBytes r) = OutstandingBytes (Totals s) + ReservationBytes r"
      "add64 (ActiveDrainGrants (Totals s)) 1 = ActiveDrainGrants (Totals s) + 1"
      "add64 (NativeCapacityBytes (Totals s)) (ReservationBytes r) = NativeCapacityBytes (Totals s) + ReservationBytes r"
    using ledger_fits [OF assms(1)] a(4) by (intro add64_exact, simp add: u64_max_def MaximumReliableServiceGroupBytes_def)+
  show ?thesis
  proof (rule inv_put [OF assms(1) v(1) c(2,3)])
    have "clock_ok s" using assms(1) by (simp add: admission_inv_def)
    then show "clock_ok ?s" by (rule clock_same) (use c(3,5,7) in \<open>simp_all add: same_clock_def\<close>)
    show "peer_ok (Profile s) (Now ?s) (NextToken ?s) ?w"
      using ok a c(5,7) by (auto simp: peer_ok_def w same_clock_def MinimumFrameBytes_def profile_constants)
    show "DebtToken ?w = DebtToken v \<or> DebtToken ?w = 0 \<or> (\<forall>x \<in> snd ` set (Peers s). DebtToken x < DebtToken ?w)"
      using a(5) by (simp add: w)
    show "OutstandingBytes (Totals ?s) + pending_bytes ?s \<le> GlobalPendingCap (Pooled (Profile s)) \<and>
        ActiveDrainGrants (Totals ?s) + pending_grants ?s \<le> MaximumDrainGrants (Pooled (Profile s))" if "IsPooled (Profile s)"
      using that a(6,7) by (simp add: c pending_bytes_def pending_grants_def sum del: One_nat_def)
    show "active_ok ?s" using c(4) by (simp add: active_ok_def)
    show "GlobalWait ?s = GlobalWait s \<or> GlobalWait ?s = None \<or> GlobalWait ?s = Some ?i" using c(6) by blast
  qed (use nodebt c(5,7) in \<open>simp_all add: c w sum same_clock_def unseen_peer_def exposed_def native_grant_def native_bytes_def del: One_nat_def\<close>)
qed

definition rolled_back_peer :: "ReliableByteAdmission \<Rightarrow> Reservation \<Rightarrow> Peer \<Rightarrow> Peer" where
  "rolled_back_peer s r v =
     (let v1 = v\<lparr>Credit := (Credit v)\<lparr>CreditBytes := CreditBytes (Credit v) +
            min (ReservationBytes r) (PeerCap (Profile s) - CreditBytes (Credit v))\<rparr>\<rparr>
      in if IsPooled (Profile s) then v1 else v1\<lparr>Exposure := map_option (\<lambda>e. e - ReservationBytes r) (Exposure v)\<rparr>)"

lemma credit_back:
  assumes "c \<le> cap" "cap \<le> 2 ^ 32"
  shows "add64 c (min b (sub64 cap c)) = c + min b (cap - c)"
proof -
  have "sub64 cap c = cap - c" using assms by (intro sub64_exact) (simp_all add: u64_max_def)
  then show ?thesis using assms by (simp add: add64_exact u64_max_def)
qed

lemma Rollback_effect:
  assumes inv: "admission_inv s" and q: "Evidence s = None" and r: "Active s = Some r" and v: "find_peer (ReservedConnection r) s = Some v"
  shows "Rollback r s = (True, (put_peer (ReservedConnection r) (rolled_back_peer s r v) s)
    \<lparr>Global := (Global s)\<lparr>CreditBytes := CreditBytes (Global s) + min (ReservationBytes r) (GlobalCap (Profile s) - CreditBytes (Global s))\<rparr>,
     AggregateExposure := (if IsPooled (Profile s) then AggregateExposure s else AggregateExposure s - ReservationBytes r),
     Totals := (Totals s)\<lparr>RolledBackBytes := Add (RolledBackBytes (Totals s)) (ReservationBytes r)\<rparr>, Active := None\<rparr>)"
proof -
  have caps: "PeerCap (Profile s) \<le> 2 ^ 32" "GlobalCap (Profile s) \<le> 2 ^ 32"
    using profile_buckets [OF inv_profile(1,2) [OF inv]] by (simp_all add: refillable_def)
  have ok: "peer_ok (Profile s) (Now s) (NextToken s) v" using inv v by (rule inv_peer)
  have p: "add64 (CreditBytes (Credit v)) (min (ReservationBytes r) (sub64 (PeerCap (Profile s)) (CreditBytes (Credit v)))) =
      CreditBytes (Credit v) + min (ReservationBytes r) (PeerCap (Profile s) - CreditBytes (Credit v))"
    by (rule credit_back) (use ok caps in \<open>simp_all add: peer_ok_def bucket_ok_def\<close>)
  have g: "add64 (CreditBytes (Global s)) (min (ReservationBytes r) (sub64 (GlobalCap (Profile s)) (CreditBytes (Global s)))) =
      CreditBytes (Global s) + min (ReservationBytes r) (GlobalCap (Profile s) - CreditBytes (Global s))"
    by (rule credit_back) (use inv caps in \<open>simp_all add: admission_inv_def clock_ok_def bucket_ok_def\<close>)
  obtain e where e: "Exposure v = Some e" "IsPooled (Profile s) \<or> ReservationBytes r \<le> e"
    using active_peer [OF inv r] v by auto
  have le: "e \<le> AggregateExposure s"
    using inv v peers_total_member [of "Peers s" "ReservedConnection r" v exposed] e
    by (simp add: admission_inv_def exposure_ok_def find_peer_def exposed_def)
  have "total exposed (Peers s) \<le> length (Peers s) * exposure_ceiling" using inv by (rule exposures_fit)
  also have "\<dots> \<le> 4096 * exposure_ceiling" using exposures_fit(1) [OF inv] by (rule mult_le_mono1)
  also have "\<dots> \<le> u64_max" by (simp add: exposure_ceiling_def u64_max_def)
  finally have agg: "AggregateExposure s \<le> u64_max" using inv by (simp add: admission_inv_def exposure_ok_def)
  have x: "sub64 e (ReservationBytes r) = e - ReservationBytes r"
      "sub64 (AggregateExposure s) (ReservationBytes r) = AggregateExposure s - ReservationBytes r" if "\<not> IsPooled (Profile s)"
    using that e(2) le agg by (simp_all add: sub64_exact)
  show ?thesis
    using r v q e(1) x
    by (cases "IsPooled (Profile s)") (simp_all add: Rollback_def Let_def quiet p g rolled_back_peer_def put_peer_def)
qed

lemma inv_Rollback:
  assumes "admission_inv s" "Evidence s = None"
  shows "admission_inv (snd (Rollback r s))"
proof (cases "Active s = Some r")
  case False
  then show ?thesis using assms by (simp add: Rollback_def)
next
  case True
  let ?i = "ReservedConnection r"
  obtain v e where v: "find_peer ?i s = Some v" "\<not> OwnsGrant v" "Seen v" "Exposure v = Some e"
      "IsPooled (Profile s) \<or> ReservationBytes r \<le> e"
    using active_peer [OF assms(1) True] by blast
  have ok: "peer_ok (Profile s) (Now s) (NextToken s) v" using assms(1) v(1) by (rule inv_peer)
  have le: "e \<le> AggregateExposure s"
    using assms(1) v peers_total_member [of "Peers s" ?i v exposed]
    by (simp add: admission_inv_def exposure_ok_def find_peer_def exposed_def)
  let ?w = "rolled_back_peer s r v" and ?s = "snd (Rollback r s)"
  have w: "Seen ?w = Seen v" "Debt ?w = Debt v" "DebtToken ?w = DebtToken v" "OwnsNativeCapacity ?w = OwnsNativeCapacity v"
      "PeerGrantBytes ?w = PeerGrantBytes v"
    by (simp_all add: rolled_back_peer_def Let_def)
  note b = Rollback_effect [OF assms True v(1)]
  show ?thesis
  proof (rule inv_put [OF assms(1) v(1), where w = ?w])
    show "clock_ok ?s"
      using assms(1) by (auto simp: b admission_inv_def clock_ok_def put_peer_def bucket_ok_def min_def)
    show "peer_ok (Profile s) (Now ?s) (NextToken ?s) ?w"
      using ok v(3,4) by (auto simp: b rolled_back_peer_def Let_def peer_ok_def put_peer_def bucket_ok_def min_def)
    show "AggregateExposure ?s + exposed v = AggregateExposure s + exposed ?w"
      using v(4,5) le by (auto simp: b rolled_back_peer_def exposed_def put_peer_def Let_def)
    show "OutstandingBytes (Totals ?s) + pending_bytes ?s \<le> GlobalPendingCap (Pooled (Profile s)) \<and>
        ActiveDrainGrants (Totals ?s) + pending_grants ?s \<le> MaximumDrainGrants (Pooled (Profile s))" if "IsPooled (Profile s)"
      using active_bounds(6,7) [OF assms(1) True that] by (simp add: b pending_bytes_def pending_grants_def put_peer_def)
    show "active_ok ?s" by (simp add: b active_ok_def)
  qed (simp_all add: b w put_peer_def unseen_peer_def native_grant_def native_bytes_def)
qed

section \<open>Peers that leave\<close>

lemma delete_member:
  "distinct (map fst ps) \<Longrightarrow> (j, x) \<in> set (AList.delete i ps) \<longleftrightarrow> j \<noteq> i \<and> (j, x) \<in> set ps"
  by (auto simp: AList.delete_eq)

lemma keys_delete: "map fst (AList.delete i ps) = filter (\<lambda>j. j \<noteq> i) (map fst ps)"
  by (induction ps) (auto simp: AList.delete_eq)

lemma distinct_map_filter': "distinct (map f xs) \<Longrightarrow> distinct (map f (filter P xs))"
  by (induction xs) auto

text \<open>An entry without debt or grant disappears, and with it the turn and its part of the exposures.\<close>

lemma inv_delete:
  assumes inv: "admission_inv s" and v: "find_peer i s = Some v" "Debt v = 0" "\<not> OwnsNativeCapacity v"
    and other: "\<And>r. Active s = Some r \<Longrightarrow> ReservedConnection r \<noteq> i"
    and s': "Peers s' = AList.delete i (Peers s)" "Profile s' = Profile s" "Active s' = Active s" "NextToken s' = NextToken s"
      "GlobalWait s' = (if GlobalWait s = Some i then None else GlobalWait s)" "same_clock s s'" "Totals s' = Totals s"
      "Unobserved s' + unseen_peer v = Unobserved s" "AggregateExposure s' + exposed v = AggregateExposure s"
  shows "admission_inv s'"
proof -
  have k: "keys_ok s" "clock_ok s" "peers_ok s" "exposure_ok s" "ledger_ok s" "active_ok s"
    using inv by (simp_all add: admission_inv_def)
  have dist: "distinct (map fst (Peers s))" using k(1) by (rule keys_distinct)
  have at: "map_of (Peers s) i = Some v" using v by (simp add: find_peer_def)
  note mem = delete_member [OF dist, of _ _ i] and sum = peers_total_delete [OF dist at]
  have keys: "map fst (Peers s') = filter (\<lambda>j. j \<noteq> i) (map fst (Peers s))" unfolding s' by (rule keys_delete)
  have kset: "fst ` set (Peers s') = fst ` set (Peers s) - {i}"
  proof -
    have "set (map fst (Peers s')) = set (map fst (Peers s)) - {i}" unfolding keys by auto
    then show ?thesis by simp
  qed
  have len: "length (Peers s') \<le> length (Peers s)"
    using length_filter_le [of "\<lambda>j. j \<noteq> i" "map fst (Peers s)"] keys by (metis length_map)
  have vals: "snd ` set (Peers s') \<subseteq> snd ` set (Peers s)" unfolding s' by (auto simp: AList.delete_eq)
  have "keys_ok s'"
    unfolding keys_ok_def slots_keys keys kset s'(2,5)
  proof (intro conjI)
    show "sorted (filter (\<lambda>j. j \<noteq> i) (map fst (Peers s)))" using k(1) by (simp add: keys_ok_def sorted_wrt_filter)
    show "distinct (map ConnectionSlot (filter (\<lambda>j. j \<noteq> i) (map fst (Peers s))))"
      using k(1) unfolding keys_ok_def slots_keys by (intro distinct_map_filter') blast
    show "\<forall>j \<in> fst ` set (Peers s) - {i}. ConnectionId_IsValid j" "length (Peers s') \<le> MaximumConnections (Profile s)"
      using k(1) len by (auto simp: keys_ok_def)
    show "\<forall>j. (if GlobalWait s = Some i then None else GlobalWait s) = Some j \<longrightarrow> j \<in> fst ` set (Peers s) - {i}"
      using k(1) unfolding keys_ok_def by auto
  qed
  moreover have "clock_ok s'" using k(2) by (rule clock_same) (use s' in \<open>simp_all add: same_clock_def\<close>)
  moreover have "peers_ok s'"
  proof -
    have now: "Now s' = Now s" using s'(6) by (simp add: same_clock_def)
    have "j = l" if "(j, x) \<in> set (Peers s')" "(l, y) \<in> set (Peers s')" "DebtToken x = DebtToken y" "DebtToken x \<noteq> 0" for j x l y
    proof -
      have "(j, x) \<in> set (Peers s)" "(l, y) \<in> set (Peers s)" using that(1,2) by (simp_all add: s'(1) mem)
      then show ?thesis using k(3) that(3,4) unfolding peers_ok_def by blast
    qed
    moreover have "peer_ok (Profile s) (Now s) (NextToken s) x" if "x \<in> snd ` set (Peers s')" for x
    proof -
      have "x \<in> snd ` set (Peers s)" using vals that by blast
      then show ?thesis using k(3) unfolding peers_ok_def by blast
    qed
    ultimately show ?thesis unfolding peers_ok_def now s'(2,4) by auto
  qed
  moreover have "exposure_ok s'"
    using k(4) s'(8,9) sum [of unseen_peer] sum [of exposed] by (simp add: exposure_ok_def s'(1))
  moreover have "ledger_ok s'"
    using k(5) v(2,3) sum [of Debt] sum [of native_grant] sum [of native_bytes] s'(3)
    unfolding ledger_ok_def s'(1,2,7) by (auto simp: native_grant_def native_bytes_def pending_bytes_def pending_grants_def)
  moreover have "active_ok s'"
  proof -
    have "find_peer j s' = (if j = i then None else find_peer j s)" for j
      by (simp add: find_peer_def s'(1) delete_conv')
    then show ?thesis
      using k(6) vals other unfolding active_ok_def s'(2-4) by (fastforce simp: s'(2))
  qed
  ultimately show ?thesis by (simp add: admission_inv_def)
qed

lemma inv_ErasePeer:
  assumes "admission_inv s" "Evidence s = None" "\<And>r. Active s = Some r \<Longrightarrow> ReservedConnection r \<noteq> i"
  shows "admission_inv (ErasePeer i s)"
proof (cases "find_peer i s")
  case None
  then show ?thesis using assms by (simp add: ErasePeer_def inv_ReleaseWait)
next
  case (Some v)
  show ?thesis
  proof (cases "IsPooled (Profile s) \<and> OwnsGrant v")
    case True
    then show ?thesis using assms Some by (simp add: ErasePeer_def)
  next
    case False
    have ok: "peer_ok (Profile s) (Now s) (NextToken s) v" using assms(1) Some by (rule inv_peer)
    have free: "\<not> OwnsGrant v" using False ok by (auto simp: peer_ok_def)
    then have free': "Debt v = 0" "\<not> OwnsNativeCapacity v" using ok by (auto simp: peer_ok_def)
    have at: "map_of (Peers s) i = Some v" using Some by (simp add: find_peer_def)
    have cover: "exposed v \<le> AggregateExposure s" "unseen_peer v \<le> Unobserved s"
      using assms(1) peers_total_member [OF at] by (simp_all add: admission_inv_def exposure_ok_def)
    have "total exposed (Peers s) \<le> length (Peers s) * exposure_ceiling" using assms(1) by (rule exposures_fit)
    also have "\<dots> \<le> 4096 * exposure_ceiling" using exposures_fit(1) [OF assms(1)] by (rule mult_le_mono1)
    also have "\<dots> \<le> u64_max" by (simp add: exposure_ceiling_def u64_max_def)
    finally have agg: "AggregateExposure s \<le> u64_max" using assms(1) by (simp add: admission_inv_def exposure_ok_def)
    have "total unseen_peer (Peers s) \<le> length (Peers s) * 1" by (rule total_bound) (simp add: unseen_peer_def)
    then have uno: "Unobserved s \<le> u64_max"
      using assms(1) exposures_fit(1) [OF assms(1)] by (simp add: admission_inv_def exposure_ok_def u64_max_def)
    define a where "a = (case Exposure v of None \<Rightarrow> AggregateExposure s | Some e \<Rightarrow> sub64 (AggregateExposure s) (min (AggregateExposure s) e))"
    define u where "u = (if \<not> Seen v \<and> Unobserved s \<noteq> 0 then sub64 (Unobserved s) 1 else Unobserved s)"
    have "ErasePeer i s = ReleaseWait i (s\<lparr>AggregateExposure := a, Unobserved := u, Peers := AList.delete i (Peers s)\<rparr>)"
      using free Some assms(2) cover(2)
      by (cases "Exposure v"; cases "Seen v")
         (simp_all add: ErasePeer_def quiet Let_def a_def u_def ClearDiagnosticDemand_select unseen_peer_def)
    moreover have "admission_inv (ReleaseWait i (s\<lparr>AggregateExposure := a, Unobserved := u, Peers := AList.delete i (Peers s)\<rparr>))"
    proof (rule inv_delete [OF assms(1) Some free' assms(3)])
      let ?s = "ReleaseWait i (s\<lparr>AggregateExposure := a, Unobserved := u, Peers := AList.delete i (Peers s)\<rparr>)"
      have "u + unseen_peer v = Unobserved s"
        using cover(2) uno by (cases "Seen v") (simp_all add: u_def unseen_peer_def sub64_exact)
      then show "Unobserved ?s + unseen_peer v = Unobserved s" by (simp add: ReleaseWait_def)
      have "a + exposed v = AggregateExposure s"
        using cover(1) agg by (auto simp: a_def exposed_def sub64_exact min_def split: option.splits)
      then show "AggregateExposure ?s + exposed v = AggregateExposure s" by (simp add: ReleaseWait_def)
    qed (simp_all add: ReleaseWait_def same_clock_def)
    ultimately show ?thesis by simp
  qed
qed

lemma inv_Remove:
  assumes "admission_inv s" "Evidence s = None"
  shows "admission_inv (Remove i s)"
proof (cases "\<exists>r. Active s = Some r \<and> ReservedConnection r = i")
  case False
  then show ?thesis
    using assms by (cases "Active s") (auto simp: Remove_def intro!: inv_ErasePeer)
next
  case True
  then obtain r where r: "Active s = Some r" "ReservedConnection r = i" by blast
  obtain v e where v: "find_peer i s = Some v" using active_peer [OF assms(1) r(1)] r(2) by blast
  let ?s = "snd (Rollback r s)"
  have "admission_inv ?s" using assms by (rule inv_Rollback)
  moreover have "Evidence ?s = None" "Active ?s = None"
    using Rollback_effect [OF assms r(1)] v r(2) assms(2) by (simp_all add: put_peer_def)
  ultimately have "admission_inv (ErasePeer i ?s)" by (intro inv_ErasePeer) simp_all
  then show ?thesis using r by (simp add: Remove_def)
qed

text \<open>A terminal release that is not refused closes the account of the peer, then removes it.\<close>

definition release_refused :: "ConnectionId \<Rightarrow> Peer \<Rightarrow> ReliableByteAdmission \<Rightarrow> bool" where
  "release_refused i v s \<longleftrightarrow> \<not> IsPooled (Profile s) \<or> (\<exists>r. Active s = Some r \<and> ReservedConnection r = i) \<or>
     Debt v > sub64 u64_max (TerminalReleasedBytes (Totals s))"

lemma TerminalRelease_refused: "find_peer i s = Some v \<Longrightarrow> release_refused i v s \<Longrightarrow> snd (TerminalRelease i s) = s"
  by (auto simp: TerminalRelease_def release_refused_def split: option.splits)

lemma released:
  assumes "admission_inv s" "Evidence s = None" "find_peer i s = Some v" "\<not> release_refused i v s"
  shows "\<exists>w t. snd (TerminalRelease i s) = Remove i (put_peer i w (s\<lparr>Totals := t\<rparr>)) \<and>
    admission_inv (put_peer i w (s\<lparr>Totals := t\<rparr>)) \<and> AcceptedBytes t = AcceptedBytes (Totals s)"
proof -
  define w where "w = ClearDiagnosticDemand (ClearDiagnosticGrant (v\<lparr>OwnsGrant := False, OwnsNativeCapacity := False,
      PeerGrantBytes := 0, Debt := 0, DebtToken := 0\<rparr>))"
  define t1 where "t1 = (Totals s)\<lparr>TerminalReleasedBytes := add64 (TerminalReleasedBytes (Totals s)) (Debt v),
      OutstandingBytes := sub64 (OutstandingBytes (Totals s)) (Debt v)\<rparr>"
  define t2 where "t2 = (if OwnsNativeCapacity v then t1\<lparr>ActiveDrainGrants := sub64 (ActiveDrainGrants t1) 1,
      NativeCapacityBytes := sub64 (NativeCapacityBytes t1) (PeerGrantBytes v)\<rparr> else t1)"
  have step: "snd (TerminalRelease i s) = Remove i (put_peer i w (s\<lparr>Totals := t2\<rparr>))"
    using assms(2,3) assms(4) [unfolded release_refused_def]
    by (cases "OwnsNativeCapacity v"; cases "Active s")
       (auto simp: TerminalRelease_def Let_def quiet w_def t1_def t2_def)
  have w: "Seen w = Seen v" "Exposure w = Exposure v" "DebtToken w = 0" "Debt w = 0" "\<not> OwnsNativeCapacity w"
    by (simp_all add: w_def ClearDiagnosticDemand_def ClearDiagnosticGrant_def)
  have "admission_inv (put_peer i w (s\<lparr>Totals := t2\<rparr>))"
  proof (rule inv_put_release [OF assms(1,3), where w = w])
    show "peer_ok (Profile s) (Now s) (NextToken s) w"
      using inv_peer [OF assms(1,3)] by (simp add: w_def peer_ok_def ClearDiagnosticDemand_def ClearDiagnosticGrant_def)
    show "ReservedConnection r \<noteq> i" if "Active s = Some r" for r using assms(4) that unfolding release_refused_def by blast
    show "OutstandingBytes (Totals (put_peer i w (s\<lparr>Totals := t2\<rparr>))) + Debt v = OutstandingBytes (Totals s) + Debt w"
      using ledger_sub(1) [OF assms(1,3)] by (simp add: t2_def t1_def put_peer_def w)
    show "ActiveDrainGrants (Totals (put_peer i w (s\<lparr>Totals := t2\<rparr>))) + native_grant v = ActiveDrainGrants (Totals s) + native_grant w"
      using ledger_sub(2) [OF assms(1,3)] by (simp add: t2_def t1_def put_peer_def w native_grant_def)
    show "NativeCapacityBytes (Totals (put_peer i w (s\<lparr>Totals := t2\<rparr>))) + native_bytes v = NativeCapacityBytes (Totals s) + native_bytes w"
      using ledger_sub(3) [OF assms(1,3)] by (simp add: t2_def t1_def put_peer_def w native_bytes_def)
  qed (simp_all add: w put_peer_def same_clock_def native_grant_def)
  moreover have "AcceptedBytes t2 = AcceptedBytes (Totals s)" by (simp add: t2_def t1_def)
  ultimately show ?thesis using step by blast
qed

lemma inv_TerminalRelease:
  assumes "admission_inv s" "Evidence s = None"
  shows "admission_inv (snd (TerminalRelease i s))"
proof (cases "\<exists>v. find_peer i s = Some v \<and> \<not> release_refused i v s")
  case False
  then have "snd (TerminalRelease i s) = s"
    by (cases "find_peer i s") (simp_all add: TerminalRelease_refused, simp add: TerminalRelease_def)
  then show ?thesis using assms(1) by simp
next
  case True
  then obtain v where "find_peer i s = Some v" "\<not> release_refused i v s" by blast
  from released [OF assms this] obtain w t where
    step: "snd (TerminalRelease i s) = Remove i (put_peer i w (s\<lparr>Totals := t\<rparr>))"
    and inv: "admission_inv (put_peer i w (s\<lparr>Totals := t\<rparr>))" by blast
  show ?thesis unfolding step using inv assms(2) by (intro inv_Remove) (simp_all add: put_peer_def)
qed

section \<open>The end of a step\<close>

lemma inv_ForgetDemand:
  assumes "admission_inv s" "Evidence s = None"
  shows "admission_inv (ForgetDemand i q s)"
proof (cases "find_peer i s")
  case None
  then show ?thesis using assms by (simp add: ForgetDemand_def)
next
  case (Some v)
  let ?w = "(ClearDiagnosticDemand v)\<lparr>Required := MinimumFrameBytes, WaitSince := None, DemandStep := 0\<rparr>"
  have "admission_inv (put_peer i ?w s)"
  proof (rule inv_put_same [OF assms(1) Some])
    show "same_peer v ?w" by (simp add: same_peer_def ClearDiagnosticDemand_def)
    show "peer_ok (Profile s) (Now s) (NextToken s) ?w" using inv_peer [OF assms(1) Some] by (intro peer_ok_update)
  qed
  then show ?thesis using Some assms(2) by (simp add: ForgetDemand_def quiet)
qed

lemma inv_NoWork:
  assumes "admission_inv s" "Evidence s = None" "t \<le> u64_max"
  shows "admission_inv (snd (NoWork i e t s))"
proof (cases "e \<and> t \<noteq> u64_max \<and> find_peer i s \<noteq> None")
  case False
  then show ?thesis using assms by (auto simp: NoWork_def intro: inv_ReleaseWait inv_ForgetDemand)
next
  case True
  obtain b s1 where adv: "Advance t s = (b, s1)" by (cases "Advance t s")
  have "admission_inv s1" "Evidence s1 = None"
    using inv_Advance [OF assms(1,3)] Advance_select [OF adv] adv assms(2) by simp_all
  then show ?thesis
    using True adv by (cases b) (auto simp: NoWork_def intro: inv_ReleaseWait inv_ForgetDemand)
qed

lemma inv_MeasureWait: "admission_inv s \<Longrightarrow> admission_inv (MeasureWait i s)"
  by (erule inv_notes) (auto simp: MeasureWait_def same_accounts_def same_clock_def split: option.splits)

lemma NoWork_evidence: "Evidence s = None \<Longrightarrow> Evidence (snd (NoWork i False t s)) = None"
  by (cases "find_peer i s") (simp_all add: NoWork_def ForgetDemand_def quiet count_evidence put_peer_def)

lemma EndPeer_step:
  assumes "admission_inv s" "Evidence s = None"
  shows "admission_inv (EndPeer i s) \<and> Evidence (EndPeer i s) = None"
proof (cases "find_peer i s")
  case None
  then show ?thesis using assms by (simp add: EndPeer_def)
next
  case (Some v)
  define s1 where "s1 = (if DemandStep v \<noteq> Step s then snd (NoWork i False u64_max (put_peer i (ClearDiagnosticDemand v) s)) else s)"
  have "admission_inv (put_peer i (ClearDiagnosticDemand v) s)"
    by (rule inv_put_same [OF assms(1) Some]) (auto intro: peer_ok_update inv_peer [OF assms(1) Some] simp: same_peer_update)
  moreover have "Evidence (put_peer i (ClearDiagnosticDemand v) s) = None" using assms(2) by (simp add: put_peer_def)
  ultimately have "admission_inv s1 \<and> Evidence s1 = None"
    using assms inv_NoWork [of "put_peer i (ClearDiagnosticDemand v) s" u64_max i False] NoWork_evidence by (simp add: s1_def)
  moreover have "EndPeer i s = MeasureWait i s1" using Some assms(2) by (simp add: EndPeer_def quiet s1_def)
  moreover have "Evidence (MeasureWait i s1) = Evidence s1" by (simp add: MeasureWait_def split: option.splits)
  ultimately show ?thesis using inv_MeasureWait by simp
qed

lemma inv_EndStep:
  assumes "admission_inv s" "Evidence s = None"
  shows "admission_inv (EndStep s)"
proof -
  have folds: "admission_inv (fold EndPeer is s)" if "admission_inv s" "Evidence s = None" for "is" s
    using that by (induction "is" arbitrary: s) (simp_all add: EndPeer_step)
  have wait: "admission_inv (s\<lparr>Totals := (Totals s)\<lparr>OldestWaitMicroseconds := n\<rparr>\<rparr>)" if "admission_inv s" for s n
    using that by (rule inv_notes) (simp_all add: same_accounts_def same_clock_def)
  have "admission_inv (fold EndPeer (map fst (Peers s)) (s\<lparr>Totals := (Totals s)\<lparr>OldestWaitMicroseconds := 0\<rparr>\<rparr>))"
    using wait [OF assms(1)] assms(2) by (intro folds) simp_all
  then show ?thesis using wait by (simp add: EndStep_def Let_def)
qed

section \<open>Every history\<close>

lemma quiet_perform:
  assumes "admission_inv s" "Evidence s = None" "op_fits a"
  shows "admission_inv (snd (perform a s))"
proof (cases a)
  case (DoSetOrdinaryFunding b)
  have "admission_inv (s\<lparr>OrdinaryFunding := Some b\<rparr>)"
    using assms(1) by (rule inv_notes) (simp_all add: same_accounts_def same_clock_def)
  then show ?thesis by (simp add: DoSetOrdinaryFunding SetOrdinaryFunding_def)
next
  case (DoInstallSink x)
  have "admission_inv (s\<lparr>Evidence := x\<rparr>)"
    using assms(1) by (rule inv_notes) (simp_all add: same_accounts_def same_clock_def)
  then show ?thesis by (simp add: DoInstallSink)
qed (use assms in \<open>simp_all add: inv_BeginStep inv_Observe inv_ObserveService inv_RefreshService inv_CompleteNativeSend
       inv_SetOrdinaryUnsent inv_Retire inv_TerminalRelease inv_Allowance inv_DeferSize quiet inv_Reserve inv_Commit
       inv_Rollback inv_NoWork inv_ReleaseWait DeferSource_def inv_Remove inv_EndStep\<close>)

lemma inv_perform:
  assumes "admission_inv s" "op_fits a"
  shows "admission_inv (snd (perform a s))"
proof -
  have "op_fits (unobserved a)" using assms(2) by (cases a) simp_all
  then have "admission_inv (snd (perform (unobserved a) (blind s)))"
    using assms(1) by (intro quiet_perform) (simp_all add: inv_blind blind_simps)
  then show ?thesis by (simp add: perform_blind inv_blind)
qed

lemma inv_new: "new_ReliableByteAdmission sink p = Inr s \<Longrightarrow> profile_fits p \<Longrightarrow> admission_inv s"
  by (auto simp: new_ReliableByteAdmission_def admission_inv_def keys_ok_def clock_ok_def peers_ok_def exposure_ok_def ledger_ok_def
      active_ok_def bucket_ok_def new_Bucket_def zero_metrics_def pending_bytes_def pending_grants_def split: if_splits)

text \<open>A history: what the constructor accepts, then any operations with arguments that fit.\<close>

definition admission_start :: "ReliableByteAdmission \<Rightarrow> bool" where
  "admission_start s \<longleftrightarrow> (\<exists>sink p. profile_fits p \<and> new_ReliableByteAdmission sink p = Inr s)"

definition admission_step :: "ReliableByteAdmission \<Rightarrow> ReliableByteAdmission \<Rightarrow> bool" where
  "admission_step s s' \<longleftrightarrow> (\<exists>a. op_fits a \<and> s' = snd (perform a s))"

interpretation admission: invariant_system admission_start admission_step admission_inv
  by unfold_locales (auto simp: admission_start_def admission_step_def inv_new inv_perform)

lemma performs_steps: "list_all op_fits as \<Longrightarrow> reachable_from admission_step s (snd (performs as s))"
proof (induction as arbitrary: s)
  case (Cons a as)
  then have "reachable_from admission_step (snd (perform a s)) (snd (performs as (snd (perform a s))))" by simp
  moreover have "reachable_from admission_step s (snd (perform a s))"
    using Cons.prems by (intro reach_step [OF reach_refl]) (auto simp: admission_step_def)
  ultimately have "reachable_from admission_step s (snd (performs as (snd (perform a s))))" by (rule reachable_from_trans)
  then show ?case by (simp add: case_prod_unfold Let_def)
qed (simp add: reach_refl)

lemma inv_performs: "admission_inv s \<Longrightarrow> list_all op_fits as \<Longrightarrow> admission_inv (snd (performs as s))"
  using performs_steps by (rule admission.inv_reachable_from)

lemma inv_history: "admission_reachable s \<Longrightarrow> admission_inv s"
  unfolding admission_reachable_def using admission.inv_reachable performs_steps by (auto simp: admission_start_def)
end
