(* ===== verification/AdmissionFunds.thy ===== *)
theory AdmissionFunds imports AdmissionHistories begin

text \<open>
  The credit of the server over a history: what was accepted is paid for by the level of the
  bucket and the rate, and while a peer waits for its turn nobody else can spend from it.
\<close>

section \<open>What an operation does to the funds\<close>

definition funds :: "ReliableByteAdmission \<Rightarrow> nat" where
  "funds s = level (Global s) + 1000000 * pending_bytes s"

text \<open>
  Three ways an operation moves the state: it touches nothing of the funds (\<open>idle\<close>); time passes
  and the level becomes that of the ideal bucket (\<open>gains\<close>); or a reservation is settled, which
  gives no more than it holds (\<open>settles\<close>).
\<close>

definition idle :: "ReliableByteAdmission \<Rightarrow> ReliableByteAdmission \<Rightarrow> bool" where
  "idle s s' \<longleftrightarrow> Global s' = Global s \<and> Now s' = Now s \<and> Profile s' = Profile s \<and> Active s' = Active s \<and>
     Initialized s' = Initialized s"

definition ideal_level :: "ReliableByteAdmission \<Rightarrow> nat \<Rightarrow> nat" where
  "ideal_level s t = min (GlobalCap (Profile s) * 1000000) (level (Global s) + (t - Now s) * GlobalRate (Profile s))"

definition gains :: "ReliableByteAdmission \<Rightarrow> ReliableByteAdmission \<Rightarrow> bool" where
  "gains s s' \<longleftrightarrow> Profile s' = Profile s \<and> Active s' = Active s \<and>
     Now s \<le> Now s' \<and> (Initialized s \<longrightarrow> Initialized s' \<and> ideal_level s (Now s') \<le> level (Global s')) \<and>
     level (Global s') \<le> level (Global s) + (Now s' - Now s) * GlobalRate (Profile s)"

definition settles :: "ReliableByteAdmission \<Rightarrow> ReliableByteAdmission \<Rightarrow> bool" where
  "settles s s' \<longleftrightarrow> Profile s' = Profile s \<and> Now s' = Now s \<and> Initialized s' = Initialized s \<and>
     funds s' \<le> funds s \<and> level (Global s) \<le> level (Global s')"

lemma gains_idle: "idle s s' \<Longrightarrow> gains s s'"
  by (simp add: idle_def gains_def ideal_level_def)

lemma settles_idle: "idle s s' \<Longrightarrow> settles s s'"
  by (simp add: idle_def settles_def funds_def pending_bytes_def)

lemma time_split:
  assumes "a \<le> b" "b \<le> (c :: nat)"
  shows "(c - a) * r = (b - a) * r + (c - b) * r"
  using assms by (simp add: add_mult_distrib [symmetric])

lemma gains_trans:
  assumes "gains s s'" "gains s' s''"
  shows "gains s s''"
proof -
  have "(Now s'' - Now s) * GlobalRate (Profile s) =
      (Now s' - Now s) * GlobalRate (Profile s) + (Now s'' - Now s') * GlobalRate (Profile s)"
    using assms by (intro time_split) (simp_all add: gains_def)
  moreover have "ideal_level s (Now s'') \<le> level (Global s'')" if "Initialized s"
  proof -
    have le: "ideal_level s (Now s') \<le> level (Global s')" "ideal_level s' (Now s'') \<le> level (Global s'')" and p: "Profile s' = Profile s"
      using assms that by (auto simp: gains_def)
    then show ?thesis using calculation unfolding ideal_level_def by (simp add: min_def split: if_splits)
  qed
  ultimately show ?thesis using assms unfolding gains_def by auto
qed

text \<open>
  Whatever happens, the funds grow by no more than the rate allows for the time that passed, less
  the bytes \<open>c\<close> that are accepted.
\<close>

definition pays :: "nat \<Rightarrow> ReliableByteAdmission \<Rightarrow> ReliableByteAdmission \<Rightarrow> bool" where
  "pays c s s' \<longleftrightarrow> Profile s' = Profile s \<and> Now s \<le> Now s' \<and>
     funds s' + 1000000 * c \<le> funds s + (Now s' - Now s) * GlobalRate (Profile s)"

lemma pays_gains: "gains s s' \<Longrightarrow> pays 0 s s'"
  by (simp add: gains_def pays_def funds_def pending_bytes_def)

lemma pays_settles: "settles s s' \<Longrightarrow> pays 0 s s'"
  by (simp add: settles_def pays_def)

lemma pays_settled: "gains s s1 \<Longrightarrow> Profile s' = Profile s1 \<Longrightarrow> Now s' = Now s1 \<Longrightarrow> funds s' = funds s1 \<Longrightarrow> pays 0 s s'"
  using pays_gains [of s s1] by (simp add: pays_def)

lemma settles_trans: "settles s s' \<Longrightarrow> settles s' s'' \<Longrightarrow> settles s s''"
  by (simp add: settles_def)

lemma idle_trans: "idle s s' \<Longrightarrow> idle s' s'' \<Longrightarrow> idle s s''"
  by (simp add: idle_def)

lemma idle_refl [simp]: "idle s s"
  by (simp add: idle_def)

lemma idle_blind: "idle (blind s) (blind s') = idle s s'" "gains (blind s) (blind s') = gains s s'"
    "settles (blind s) (blind s') = settles s s'"
  by (simp_all add: idle_def gains_def settles_def ideal_level_def funds_def pending_bytes_def blind_simps)

text \<open>Time moves: the bucket of the server gains the rate times the time, up to its cap.\<close>

lemma Advance_level:
  assumes "admission_inv s" "t \<le> u64_max" "Advance t s = (True, s')"
  shows "Now s \<le> t" "Now s' = t" "Profile s' = Profile s" "pending_bytes s' = pending_bytes s"
    "level (Global s') = min (GlobalCap (Profile s) * 1000000)
       (level (Global s) + (if Initialized s then t - Now s else 0) * GlobalRate (Profile s))"
proof -
  have nf: "\<not> (Initialized s \<and> t < Now s)" using assms(3) by (auto simp: Advance_def)
  have clock: "clock_ok s" using assms(1) by (simp add: admission_inv_def)
  then show later: "Now s \<le> t" using nf by (auto simp: clock_ok_def)
  define g where "g = (if Initialized s then Global s else (Global s)\<lparr>Updated := t\<rparr>)"
  have s': "s' = s\<lparr>Now := t, Initialized := True, Global := Refill t (GlobalRate (Profile s)) (GlobalCap (Profile s)) g,
      Totals := (Totals s)\<lparr>GlobalCreditHighWater := max (GlobalCreditHighWater (Totals s))
        (CreditBytes (Refill t (GlobalRate (Profile s)) (GlobalCap (Profile s)) g))\<rparr>\<rparr>"
    using nf assms(3) by (auto simp: Advance_def g_def Let_def)
  have ok: "bucket_ok (GlobalCap (Profile s)) t g"
    using clock later by (auto simp: clock_ok_def bucket_ok_def g_def)
  have "Refill t (GlobalRate (Profile s)) (GlobalCap (Profile s)) g =
      bucket_at t (min (GlobalCap (Profile s) * 1000000) (level g + (t - Updated g) * GlobalRate (Profile s)))"
    using Refill_exact [OF ok profile_buckets(2) [OF inv_profile(1,2) [OF assms(1)]] assms(2)] .
  moreover have "level g = level (Global s)" "Updated g = (if Initialized s then Now s else t)"
    using clock by (simp_all add: g_def level_def clock_ok_def)
  ultimately show "level (Global s') = min (GlobalCap (Profile s) * 1000000)
       (level (Global s) + (if Initialized s then t - Now s else 0) * GlobalRate (Profile s))"
    by (simp add: s')
  show "Now s' = t" "Profile s' = Profile s" "pending_bytes s' = pending_bytes s"
    by (simp_all add: s' pending_bytes_def)
qed

lemma Advance_refused: "Advance t s = (False, s') \<Longrightarrow> s' = s"
  by (auto simp: Advance_def Let_def split: if_splits)

lemma gains_Advance:
  assumes "admission_inv s" "t \<le> u64_max"
  shows "gains s (snd (Advance t s))"
proof (cases "Advance t s")
  case (Pair b s')
  show ?thesis
  proof (cases b)
    case True
    then have adv: "Advance t s = (True, s')" using Pair by simp
    note a = Advance_level [OF assms adv]
    have "(if Initialized s then t - Now s else 0) * GlobalRate (Profile s) \<le> (t - Now s) * GlobalRate (Profile s)"
      by simp
    then have "level (Global s') \<le> level (Global s) + (t - Now s) * GlobalRate (Profile s)"
      unfolding a(5) by linarith
    moreover have "Active s' = Active s \<and> Initialized s'"
      using Advance_select [OF adv] by (simp add: same_accounts_def)
    ultimately show ?thesis using a Pair by (simp add: gains_def ideal_level_def)
  next
    case False
    then have "s' = s" using Pair Advance_refused by simp
    then show ?thesis using Pair by (simp add: gains_idle)
  qed
qed

section \<open>Every operation\<close>

lemma idle_put: "idle s (put_peer i w s)"
  by (simp add: idle_def put_peer_def)

lemma idle_ReleaseWait: "idle s (ReleaseWait i s)"
  by (simp add: idle_def ReleaseWait_def)

lemma idle_counts:
  "idle s (count_feedback s)" "idle s (count_grant s)" "idle s (count_funded s)"
  "idle s (count_backlog s)" "idle s (count_credit s)" "idle s (count_fairness s)"
  by (simp_all add: idle_def count_feedback_def count_grant_def count_funded_def count_backlog_def count_credit_def count_fairness_def)

lemma idle_Admit: "idle s (snd (Admit i v s))"
proof -
  obtain pr pl where pr: "PeerRoomOf s v (the (Exposure v)) = (pr, pl)" by (cases "PeerRoomOf s v (the (Exposure v))")
  obtain gr gl where gr: "GlobalRoomOf s = (gr, gl)" by (cases "GlobalRoomOf s")
  define s2 where "s2 = (put_peer i (v\<lparr>Backlogged := pl\<rparr>) s)\<lparr>GlobalBacklogged := gl\<rparr>"
  have s2: "idle s s2" by (simp add: s2_def idle_def put_peer_def)
  have turn: "idle s2 (s2\<lparr>GlobalWait := Some i\<rparr>)" by (simp add: idle_def)
  show ?thesis
    unfolding Admit_def pr gr prod.case Let_def s2_def [symmetric]
    using s2 idle_trans [OF s2 idle_trans [OF turn idle_counts(5)]]
    by (simp add: idle_trans [OF idle_counts(1) idle_ReleaseWait] idle_trans [OF idle_counts(2) idle_ReleaseWait]
        idle_trans [OF s2 idle_trans [OF idle_counts(4) idle_ReleaseWait]] idle_trans [OF s2 idle_counts(6)]
        idle_trans [OF s2 idle_trans [OF idle_counts(5) idle_ReleaseWait]]
        idle_trans [OF s2 idle_trans [OF idle_counts(3) idle_trans [OF idle_counts(4) idle_ReleaseWait]]])
qed

lemma Allowance_idle:
  assumes "admission_inv s" "Evidence s = None"
  shows "idle (if Active s = None then snd (Advance t s) else s) (snd (Allowance i t s))"
proof (cases "Active s = None \<and> fst (Advance t s)")
  case False
  then show ?thesis by (cases "Advance t s") (auto simp: Allowance_def)
next
  case True
  then obtain s1 where adv: "Advance t s = (True, s1)" by (cases "Advance t s") auto
  have q: "Evidence s1 = None" using Advance_select [OF adv] assms(2) by simp
  show ?thesis
  proof (cases "find_peer i s1")
    case None
    then show ?thesis using True adv by (simp add: Allowance_def)
  next
    case (Some v)
    obtain w s2 where ex: "ExamineDemand i v s1 = (w, s2)" by (cases "ExamineDemand i v s1")
    have "idle s1 s2"
      using quiet_ExamineDemand [OF q, of i v] ex by (auto simp: idle_def put_peer_def)
    then show ?thesis using True adv Some ex idle_trans idle_Admit by (fastforce simp: Allowance_def)
  qed
qed

lemma gains_Allowance:
  assumes "admission_inv s" "Evidence s = None" "t \<le> u64_max"
  shows "gains s (snd (Allowance i t s))"
proof -
  have "gains s (if Active s = None then snd (Advance t s) else s)"
    using gains_Advance [OF assms(1,3)] gains_idle [OF idle_refl] by simp
  then show ?thesis using gains_idle [OF Allowance_idle [OF assms(1,2)]] by (rule gains_trans)
qed

lemma idle_snd_Advance: "Advance t s = (b, s1) \<Longrightarrow> gains s (snd (Advance t s)) \<Longrightarrow> gains s s1"
  by simp

lemma gains_BeginStep:
  assumes "admission_inv s" "t \<le> u64_max"
  shows "gains s (snd (BeginStep t s))"
proof (cases "Active s = None \<and> Step s \<noteq> u64_max")
  case False
  then show ?thesis by (auto simp: BeginStep_def gains_idle)
next
  case True
  obtain b s1 where adv: "Advance t s = (b, s1)" by (cases "Advance t s")
  have p: "gains s s1" using gains_Advance [OF assms] adv by simp
  have "idle s1 (snd (BeginStep t s))" using True adv by (cases b) (simp_all add: BeginStep_def idle_def)
  then show ?thesis using p gains_idle gains_trans by blast
qed

lemma idle_Observe: "idle s (snd (Observe i e s))"
proof -
  have entry: "idle s s1" if "observed_entry i s = Some (v, s1)" for v s1
    using that by (auto simp: observed_entry_def Let_def idle_def split: option.splits if_splits)
  show ?thesis
  proof (cases "observed_entry i s")
    case None
    then show ?thesis by (simp add: Observe_entry)
  next
    case (Some p)
    obtain v s1 where p: "p = (v, s1)" by (cases p)
    have "idle s1 (snd (Observe i e s)) \<or> snd (Observe i e s) = s"
      by (cases e) (simp_all add: Observe_entry Some p Let_def idle_def put_peer_def)
    then show ?thesis using entry [of v s1] Some p idle_trans by fastforce
  qed
qed

lemma idle_RefreshService: "Evidence s = None \<Longrightarrow> idle s (snd (RefreshService i q s))"
  by (cases "find_peer i s"; cases q) (simp_all add: RefreshService_def Let_def idle_def put_peer_def quiet blind_simps)

lemma idle_unquiet:
  assumes "\<And>s. Evidence s = None \<Longrightarrow> idle s (snd (F s))" "\<And>s. F (blind s) = map_prod id blind (F s)"
  shows "idle s (snd (F s))"
proof -
  have "idle (blind s) (snd (F (blind s)))" by (rule assms(1)) (simp add: blind_simps)
  then show ?thesis by (simp add: assms(2) idle_blind)
qed

lemma idle_ObserveService: "idle s (snd (ObserveService i q s))"
proof -
  have "idle s' (snd (RefreshService i q s'))" for s'
    using idle_RefreshService RefreshService_blind by (rule idle_unquiet)
  then show ?thesis
    using idle_Observe [of s i "map_option (\<lambda>_. 0) q"] idle_trans
    by (cases "Observe i (map_option (\<lambda>_. 0) q) s") (fastforce simp: ObserveService_def split: bool.splits)
qed

lemma idle_SetOrdinaryUnsent: "idle s (snd (SetOrdinaryUnsent i b s))"
  by (cases "find_peer i s") (simp_all add: SetOrdinaryUnsent_def Let_def idle_def put_peer_def split: option.splits)

lemma idle_Retire: "Evidence s = None \<Longrightarrow> idle s (snd (Retire i token bytes s))"
  by (cases "find_peer i s") (simp_all add: Retire_def Let_def idle_def put_peer_def quiet)

lemma gains_CompleteNativeSend:
  assumes "admission_inv s" "Evidence s = None" "u \<le> u64_max"
  shows "gains s (snd (CompleteNativeSend i token bytes t u w s))"
proof (cases "find_peer i s")
  case None
  then show ?thesis by (simp add: CompleteNativeSend_def gains_idle)
next
  case (Some v)
  obtain b s1 where adv: "Advance u s = (b, s1)" by (cases "Advance u s")
  have p: "gains s s1" using gains_Advance [OF assms(1,3)] adv by simp
  have q: "Evidence s1 = None" using Advance_select [OF adv] assms(2) by simp
  have "snd (CompleteNativeSend i token bytes t u w s) = s \<or> idle s1 (snd (CompleteNativeSend i token bytes t u w s))"
    using Some adv q unfolding CompleteNativeSend_def
    by (cases b) (simp_all add: Let_def idle_def put_peer_def quiet)
  then show ?thesis using p gains_idle [OF idle_refl] gains_idle gains_trans by metis
qed

lemma gains_DeferSize:
  assumes "admission_inv s" "Evidence s = None"
  shows "gains s (DeferSize i n f s)"
proof (rule DeferSize_cases [OF assms, of i n f])
  assume "DeferSize i n f s = s"
  then show ?thesis by (simp add: gains_idle)
next
  fix v
  assume d: "admission_inv (deferred_state i n v s)" "DeferSize i n f s = snd (Allowance i (Now s) (deferred_state i n v s))"
  have "idle s (deferred_state i n v s)" by (simp add: deferred_state_def idle_def put_peer_def)
  moreover have "gains (deferred_state i n v s) (DeferSize i n f s)"
    using d assms by (simp add: gains_Allowance deferred_quiet inv_profile(3))
  ultimately show ?thesis using gains_idle gains_trans by blast
qed

lemma Reserve_none: "Reserve i n s = (None, s') \<Longrightarrow> s' = s \<or> s' = snd (Allowance i (Now s) s)"
  by (cases "Allowance i (Now s) s") (auto simp: Reserve_def Let_def split: if_splits option.splits)

lemma funds_reserved:
  assumes "granted i k s" "bytes \<le> k"
  shows "funds (reserved_state i bytes v e s) = funds s" "level (Global (reserved_state i bytes v e s)) + 1000000 * bytes = level (Global s)"
proof -
  have g: "bytes \<le> CreditBytes (Global s)" "Active s = None" using assms by (auto simp: granted_def)
  then show lev: "level (Global (reserved_state i bytes v e s)) + 1000000 * bytes = level (Global s)"
    by (simp add: reserved_state_def Let_def level_def diff_mult_distrib)
  show "funds (reserved_state i bytes v e s) = funds s"
    using lev g(2) by (simp add: funds_def pending_bytes_def reserved_state_def Let_def)
qed

lemma pays_Reserve:
  assumes "admission_inv s" "Evidence s = None"
  shows "pays 0 s (snd (Reserve i n s))"
proof (cases "Reserve i n s")
  case (Pair x s')
  have all: "gains s (snd (Allowance i (Now s) s))"
    using assms inv_profile(3) [OF assms(1)] by (rule gains_Allowance)
  show ?thesis
  proof (rule Reserve_cases [OF assms Pair])
    assume "x = None"
    then have "gains s s'" using Reserve_none all gains_idle [OF idle_refl] Pair by metis
    then show ?thesis using pays_gains Pair by simp
  next
    fix k s1 v e
    assume r: "granted i k s1" "n \<le> k" "Allowance i (Now s) s = (k, s1)" and s': "s' = reserved_state i n v e s1"
    have "gains s s1" using all r(3) by simp
    moreover have "Profile s' = Profile s1" "Now s' = Now s1" by (simp_all add: s' reserved_state_def Let_def put_peer_def)
    moreover have "funds s' = funds s1" unfolding s' by (rule funds_reserved(1) [OF r(1,2)])
    ultimately have "pays 0 s s'" by (rule pays_settled)
    then show ?thesis using Pair by simp
  qed
qed

text \<open>What an operation accepts: the bytes of the reservation that it commits.\<close>

definition accepted_by :: "AdmissionOp \<Rightarrow> ReliableByteAdmission \<Rightarrow> nat" where
  "accepted_by a s = (case a of DoCommit r t \<Rightarrow> if fst (Commit r t s) then ReservationBytes r else 0 | _ \<Rightarrow> 0)"

lemma pays_Commit:
  assumes "admission_inv s" "Evidence s = None"
  shows "pays (accepted_by (DoCommit r t) s) s (snd (Commit r t s))"
proof (cases "Active s = Some r")
  case False
  then show ?thesis by (simp add: Commit_def accepted_by_def pays_gains gains_idle)
next
  case True
  obtain v e where v: "find_peer (ReservedConnection r) s = Some v" using active_peer [OF assms(1) True] by blast
  note c = Commit_effect [OF assms(2) True v, of t]
  show ?thesis using c(1,3,4,7) True by (simp add: pays_def accepted_by_def funds_def pending_bytes_def same_clock_def)
qed

lemma settles_Commit:
  assumes "admission_inv s" "Evidence s = None"
  shows "settles s (snd (Commit r t s))"
proof (cases "Active s = Some r")
  case False
  then show ?thesis by (simp add: Commit_def settles_idle)
next
  case True
  obtain v e where v: "find_peer (ReservedConnection r) s = Some v" using active_peer [OF assms(1) True] by blast
  note c = Commit_effect [OF assms(2) True v, of t]
  show ?thesis using c(3,4,7) by (simp add: settles_def funds_def pending_bytes_def same_clock_def)
qed

lemma settles_Rollback:
  assumes "admission_inv s" "Evidence s = None"
  shows "settles s (snd (Rollback r s))"
proof (cases "Active s = Some r")
  case False
  then show ?thesis by (simp add: Rollback_def settles_idle)
next
  case True
  obtain v e where v: "find_peer (ReservedConnection r) s = Some v" using active_peer [OF assms(1) True] by blast
  have "(CreditBytes (Global s) + min (ReservationBytes r) x) * 1000000 \<le> (CreditBytes (Global s) + ReservationBytes r) * 1000000" for x
    by (intro mult_le_mono1) simp
  then have "funds (snd (Rollback r s)) \<le> funds s"
    using True by (simp add: Rollback_effect [OF assms True v] funds_def pending_bytes_def level_def add_mult_distrib)
  then show ?thesis by (simp add: Rollback_effect [OF assms True v] settles_def put_peer_def level_def)
qed

lemma idle_ErasePeer:
  assumes "Evidence s = None"
  shows "idle s (ErasePeer i s)"
proof (cases "find_peer i s")
  case None
  then show ?thesis by (simp add: ErasePeer_def idle_ReleaseWait)
next
  case (Some v)
  have rw: "idle s (ReleaseWait i s') = idle s s'" for s' by (simp add: idle_def ReleaseWait_def)
  have upd: "idle s (s\<lparr>Peers := p\<rparr>)" "idle s (s\<lparr>AggregateExposure := a, Peers := p\<rparr>)"
      "idle s (s\<lparr>Unobserved := u, Peers := p\<rparr>)" "idle s (s\<lparr>AggregateExposure := a, Unobserved := u, Peers := p\<rparr>)" for p a u
    by (simp_all add: idle_def)
  show ?thesis
    using assms Some by (cases "Exposure v"; cases "Seen v \<or> Unobserved s = 0")
      (auto simp: ErasePeer_def quiet Let_def ClearDiagnosticDemand_select rw upd)
qed

lemma settles_Remove:
  assumes "admission_inv s" "Evidence s = None"
  shows "settles s (Remove i s)"
proof (cases "\<exists>r. Active s = Some r \<and> ReservedConnection r = i")
  case False
  then have "Remove i s = ErasePeer i s" by (cases "Active s") (auto simp: Remove_def)
  then show ?thesis using idle_ErasePeer [OF assms(2)] by (simp add: settles_idle)
next
  case True
  then obtain r where r: "Active s = Some r" "ReservedConnection r = i" by blast
  obtain v e where v: "find_peer (ReservedConnection r) s = Some v" using active_peer [OF assms(1) r(1)] by blast
  have "Evidence (snd (Rollback r s)) = None"
    using assms(2) by (simp add: Rollback_effect [OF assms r(1) v] put_peer_def)
  then have "settles (snd (Rollback r s)) (ErasePeer i (snd (Rollback r s)))" using idle_ErasePeer settles_idle by blast
  moreover have "Remove i s = ErasePeer i (snd (Rollback r s))" using r by (simp add: Remove_def)
  ultimately show ?thesis using settles_Rollback [OF assms, of r] settles_trans by simp
qed

lemma settles_TerminalRelease:
  assumes "admission_inv s" "Evidence s = None"
  shows "settles s (snd (TerminalRelease i s))"
proof (cases "\<exists>v. find_peer i s = Some v \<and> \<not> release_refused i v s")
  case False
  then have "snd (TerminalRelease i s) = s"
    by (cases "find_peer i s") (simp_all add: TerminalRelease_refused, simp add: TerminalRelease_def)
  then show ?thesis by (simp add: settles_idle)
next
  case True
  then obtain v where "find_peer i s = Some v" "\<not> release_refused i v s" by blast
  from released [OF assms this] obtain w t where
    step: "snd (TerminalRelease i s) = Remove i (put_peer i w (s\<lparr>Totals := t\<rparr>))"
    and inv: "admission_inv (put_peer i w (s\<lparr>Totals := t\<rparr>))" by blast
  have "idle s (put_peer i w (s\<lparr>Totals := t\<rparr>))" by (simp add: idle_def put_peer_def)
  moreover have "settles (put_peer i w (s\<lparr>Totals := t\<rparr>)) (Remove i (put_peer i w (s\<lparr>Totals := t\<rparr>)))"
    using assms(2) by (intro settles_Remove inv) (simp add: put_peer_def)
  ultimately show ?thesis unfolding step using settles_idle settles_trans by blast
qed

lemma idle_ForgetDemand: "Evidence s = None \<Longrightarrow> idle s (ForgetDemand i q s)"
  by (cases "find_peer i s") (simp_all add: ForgetDemand_def quiet idle_put)

lemma gains_NoWork:
  assumes "admission_inv s" "Evidence s = None" "t \<le> u64_max"
  shows "gains s (snd (NoWork i e t s))"
proof -
  have forget: "idle s (ReleaseWait i (ForgetDemand i q s))" if "Evidence s = None" for s q
    using idle_ForgetDemand [OF that] idle_ReleaseWait idle_trans by blast
  show ?thesis
  proof (cases "e \<and> t \<noteq> u64_max \<and> find_peer i s \<noteq> None")
    case False
    then show ?thesis using forget [OF assms(2)] by (auto simp: NoWork_def gains_idle)
  next
    case True
    obtain b s1 where adv: "Advance t s = (b, s1)" by (cases "Advance t s")
    have p: "gains s s1" "Evidence s1 = None"
      using gains_Advance [OF assms(1,3)] Advance_select [OF adv] adv assms(2) by simp_all
    then show ?thesis using True adv forget [OF p(2)] gains_trans [OF p(1) gains_idle] by (cases b) (auto simp: NoWork_def)
  qed
qed

lemma idle_EndPeer:
  assumes "admission_inv s" "Evidence s = None"
  shows "idle s (EndPeer i s)"
proof (cases "find_peer i s")
  case None
  then show ?thesis by (simp add: EndPeer_def)
next
  case (Some v)
  have q: "Evidence (put_peer i (ClearDiagnosticDemand v) s) = None" using assms(2) by (simp add: put_peer_def)
  have "idle s (snd (NoWork i False u64_max (put_peer i (ClearDiagnosticDemand v) s)))"
    using idle_trans [OF idle_put idle_trans [OF idle_ForgetDemand [OF q] idle_ReleaseWait]] by (simp add: NoWork_def)
  moreover have "idle s1 (MeasureWait i s1)" for s1 by (simp add: MeasureWait_def idle_def split: option.splits)
  ultimately show ?thesis
    using Some assms(2) by (auto simp: EndPeer_def quiet intro: idle_trans)
qed

lemma idle_EndStep:
  assumes "admission_inv s" "Evidence s = None"
  shows "idle s (EndStep s)"
proof -
  have folds: "idle s (fold EndPeer is s)" if "admission_inv s" "Evidence s = None" for "is" s
    using that
  proof (induction "is" arbitrary: s)
    case (Cons i "is")
    then show ?case using idle_EndPeer EndPeer_step idle_trans by simp blast
  qed simp
  have wait: "admission_inv (s\<lparr>Totals := (Totals s)\<lparr>OldestWaitMicroseconds := 0\<rparr>\<rparr>)"
    using assms(1) by (rule inv_notes) (simp_all add: same_accounts_def same_clock_def)
  have note0: "idle s (s\<lparr>Totals := (Totals s)\<lparr>OldestWaitMicroseconds := n\<rparr>\<rparr>)" for s n by (simp add: idle_def)
  have "idle s (fold EndPeer (map fst (Peers s)) (s\<lparr>Totals := (Totals s)\<lparr>OldestWaitMicroseconds := 0\<rparr>\<rparr>))"
    by (rule idle_trans [OF note0 folds [OF wait]]) (simp add: assms(2))
  then show ?thesis using note0 by (auto simp: EndStep_def Let_def intro: idle_trans)
qed

lemma idle_ReleaseWait_op: "idle s (DeferSource i s)"
  by (simp add: DeferSource_def idle_ReleaseWait)

lemma quiet_moves:
  assumes "admission_inv s" "Evidence s = None" "op_fits a" "\<forall>i n. a \<noteq> DoReserve i n"
  shows "gains s (snd (perform a s)) \<or> settles s (snd (perform a s))"
proof (cases a)
  case (DoSetOrdinaryFunding b)
  have "idle s (SetOrdinaryFunding b s)" by (simp add: SetOrdinaryFunding_def idle_def)
  then show ?thesis by (simp add: DoSetOrdinaryFunding gains_idle)
next
  case (DoInstallSink x)
  have "idle s (s\<lparr>Evidence := x\<rparr>)" by (simp add: idle_def)
  then show ?thesis by (simp add: DoInstallSink gains_idle)
qed (use assms in \<open>simp_all add: gains_BeginStep gains_Allowance gains_CompleteNativeSend gains_DeferSize gains_NoWork
       settles_Commit settles_Rollback settles_Remove settles_TerminalRelease quiet
       gains_idle idle_Observe idle_ObserveService idle_RefreshService idle_SetOrdinaryUnsent idle_Retire
       idle_ReleaseWait_op idle_EndStep\<close>)

lemma moves:
  assumes "admission_inv s" "op_fits a" "\<forall>i n. a \<noteq> DoReserve i n"
  shows "gains s (snd (perform a s)) \<or> settles s (snd (perform a s))"
proof -
  have "op_fits (unobserved a) \<and> (\<forall>i n. unobserved a \<noteq> DoReserve i n)" using assms(2,3) by (cases a) simp_all
  then have "gains (blind s) (snd (perform (unobserved a) (blind s))) \<or> settles (blind s) (snd (perform (unobserved a) (blind s)))"
    using assms(1) by (intro quiet_moves) (simp_all add: inv_blind blind_simps)
  then show ?thesis by (simp add: perform_blind idle_blind)
qed

lemma pays_blind: "pays c (blind s) (blind s') = pays c s s'"
  by (simp add: pays_def funds_def pending_bytes_def blind_simps)

lemma pays_perform:
  assumes "admission_inv s" "op_fits a"
  shows "pays (accepted_by a s) s (snd (perform a s))"
proof (cases a)
  case (DoReserve i n)
  have "pays 0 (blind s) (snd (Reserve i n (blind s)))"
    using assms(1) by (intro pays_Reserve) (simp_all add: inv_blind blind_simps)
  then show ?thesis by (simp add: DoReserve accepted_by_def Reserve_blind pays_blind)
next
  case (DoCommit r t)
  have "pays (accepted_by (DoCommit r t) (blind s)) (blind s) (snd (Commit r t (blind s)))"
    using assms(1) by (intro pays_Commit) (simp_all add: inv_blind blind_simps)
  then show ?thesis by (simp add: DoCommit accepted_by_def Commit_blind pays_blind)
qed (use moves [OF assms] pays_gains pays_settles in \<open>force simp: accepted_by_def\<close>)+

text \<open>
  So the bucket of the server keeps the contract of a token bucket, under whatever operations with
  arguments that fit; those that do not are not called.
\<close>

definition perform_fitting :: "AdmissionOp \<Rightarrow> ReliableByteAdmission \<Rightarrow> ReliableByteAdmission" where
  "perform_fitting a s = (if op_fits a then snd (perform a s) else s)"

definition accepted_fitting :: "AdmissionOp \<Rightarrow> ReliableByteAdmission \<Rightarrow> nat" where
  "accepted_fitting a s = (if op_fits a then 1000000 * accepted_by a s else 0)"

interpretation server_bucket: token_bucket funds Now rate "\<lambda>s. admission_inv s \<and> GlobalRate (Profile s) = rate"
  perform_fitting accepted_fitting for rate
proof unfold_locales
  fix s a
  assume s: "admission_inv s \<and> GlobalRate (Profile s) = rate"
  then have p: "op_fits a \<Longrightarrow> pays (accepted_by a s) s (snd (perform a s))" by (simp add: pays_perform)
  then show "admission_inv (perform_fitting a s) \<and> GlobalRate (Profile (perform_fitting a s)) = rate"
    using s by (simp add: perform_fitting_def inv_perform pays_def)
  show "Now s \<le> Now (perform_fitting a s)" using p by (simp add: perform_fitting_def pays_def)
  show "funds (perform_fitting a s) + accepted_fitting a s \<le> funds s + rate * (Now (perform_fitting a s) - Now s)"
    using p s by (simp add: perform_fitting_def accepted_fitting_def pays_def mult.commute)
qed

primrec accepted_during :: "AdmissionOp list \<Rightarrow> ReliableByteAdmission \<Rightarrow> nat" where
  "accepted_during [] s = 0"
| "accepted_during (a # as) s = accepted_by a s + accepted_during as (snd (perform a s))"

lemma accepted_total:
  "list_all op_fits as \<Longrightarrow> fold perform_fitting as s = snd (performs as s) \<and>
   total_charge accepted_fitting perform_fitting as s = 1000000 * accepted_during as s"
  by (induction as arbitrary: s) (simp_all add: perform_fitting_def accepted_fitting_def case_prod_unfold Let_def)

lemma accepted_paid:
  assumes "admission_inv s" "list_all op_fits as"
  shows "funds (snd (performs as s)) + 1000000 * accepted_during as s \<le>
    funds s + GlobalRate (Profile s) * (Now (snd (performs as s)) - Now s)"
  using server_bucket.charge_bound [of s "GlobalRate (Profile s)" as] assms by (simp add: accepted_total)

section \<open>A turn is kept\<close>

text \<open>The level does not fall behind that of a bucket from which nothing is taken.\<close>

definition accrues :: "ReliableByteAdmission \<Rightarrow> ReliableByteAdmission \<Rightarrow> bool" where
  "accrues s s' \<longleftrightarrow> Profile s' = Profile s \<and> Now s \<le> Now s' \<and>
     (Initialized s \<longrightarrow> Initialized s' \<and> ideal_level s (Now s') \<le> level (Global s'))"

lemma accrues_gains: "gains s s' \<Longrightarrow> accrues s s'"
  by (simp add: gains_def accrues_def)

lemma accrues_settles: "settles s s' \<Longrightarrow> accrues s s'"
  by (auto simp: settles_def accrues_def ideal_level_def)

lemma accrues_blind: "accrues (blind s) (blind s') = accrues s s'"
  by (simp add: accrues_def ideal_level_def blind_simps)

lemma accrues_trans:
  assumes "accrues s s'" "accrues s' s''"
  shows "accrues s s''"
proof -
  have t: "(Now s'' - Now s) * GlobalRate (Profile s) =
      (Now s' - Now s) * GlobalRate (Profile s) + (Now s'' - Now s') * GlobalRate (Profile s)"
    using assms by (intro time_split) (simp_all add: accrues_def)
  have "ideal_level s (Now s'') \<le> level (Global s'')" if "Initialized s"
  proof -
    have "ideal_level s (Now s') \<le> level (Global s')" "ideal_level s' (Now s'') \<le> level (Global s'')" "Profile s' = Profile s"
      using assms that by (auto simp: accrues_def)
    then show ?thesis using t unfolding ideal_level_def by (simp add: min_def split: if_splits)
  qed
  then show ?thesis using assms unfolding accrues_def by auto
qed

lemma turn_ReleaseWait: "GlobalWait s = Some i \<Longrightarrow> j \<noteq> i \<Longrightarrow> GlobalWait (ReleaseWait j s) = Some i"
  by (simp add: ReleaseWait_def)

lemma turn_counts:
  "GlobalWait (count_feedback s) = GlobalWait s" "GlobalWait (count_grant s) = GlobalWait s"
  "GlobalWait (count_funded s) = GlobalWait s" "GlobalWait (count_backlog s) = GlobalWait s"
  "GlobalWait (count_credit s) = GlobalWait s" "GlobalWait (count_fairness s) = GlobalWait s"
  by (simp_all add: count_feedback_def count_grant_def count_funded_def count_backlog_def count_credit_def count_fairness_def)

lemma turn_Admit: "GlobalWait s = Some i \<Longrightarrow> j \<noteq> i \<Longrightarrow> GlobalWait (snd (Admit j v s)) = Some i"
  by (simp add: Admit_def Let_def case_prod_unfold turn_ReleaseWait turn_counts put_peer_def)

lemma turn_Allowance:
  assumes "GlobalWait s = Some i" "j \<noteq> i" "Evidence s = None" "Allowance j t s = (k, s1)"
  shows "GlobalWait s1 = Some i"
proof (cases "Active s = None \<and> fst (Advance t s)")
  case False
  then show ?thesis using assms(1,4) Advance_refused [of t s] by (cases "Advance t s") (auto simp: Allowance_def split: if_splits)
next
  case True
  then obtain s' where adv: "Advance t s = (True, s')" by (cases "Advance t s") auto
  have q: "Evidence s' = None" "GlobalWait s' = Some i"
    using Advance_select [OF adv] assms(1,3) by (simp_all add: same_accounts_def)
  have ex: "GlobalWait (snd (ExamineDemand j v s')) = Some i" for v
    using quiet_ExamineDemand [OF q(1), of j v] q(2) by (auto simp: put_peer_def)
  have "GlobalWait (snd (Allowance j t s)) = Some i"
    using True adv q(2) ex turn_Admit [OF ex assms(2)]
    by (simp add: Allowance_def case_prod_unfold Let_def split: option.split)
  then show ?thesis using assms(4) by simp
qed

lemma turn_Reserve:
  assumes "admission_inv s" "GlobalWait s = Some i" "j \<noteq> i"
  shows "fst (Reserve j n s) = None \<and> accrues s (snd (Reserve j n s))"
proof -
  have quiet: "fst (Reserve j n s) = None \<and> accrues s (snd (Reserve j n s))"
    if inv: "admission_inv s" and e: "Evidence s = None" and w: "GlobalWait s = Some i" for s
  proof (cases "Reserve j n s")
    case (Pair x s')
    have all: "accrues s (snd (Allowance j (Now s) s))"
      using inv e inv_profile(3) [OF inv] by (intro accrues_gains gains_Allowance)
    have "x = None"
    proof (rule Reserve_cases [OF inv e Pair])
      fix k s1 v e'
      assume "granted j k s1" "Allowance j (Now s) s = (k, s1)"
      then show "x = None" using turn_Allowance [OF w assms(3) e] assms(3) unfolding granted_def by force
    qed
    then show ?thesis
      using Pair Reserve_none all accrues_gains [OF gains_idle [OF idle_refl]] by (metis fst_conv snd_conv)
  qed
  have "fst (Reserve j n (blind s)) = None \<and> accrues (blind s) (snd (Reserve j n (blind s)))"
    using assms by (intro quiet) (simp_all add: inv_blind blind_simps)
  then show ?thesis by (simp add: Reserve_blind accrues_blind)
qed

text \<open>During the operations the turn is that of \<open>i\<close>, and \<open>i\<close> does not reserve.\<close>

definition leaves_turn :: "ConnectionId \<Rightarrow> AdmissionOp \<Rightarrow> bool" where
  "leaves_turn i a \<longleftrightarrow> (case a of DoReserve j n \<Rightarrow> j \<noteq> i | _ \<Rightarrow> True)"

lemma leaves_turn: "leaves_turn i a \<longleftrightarrow> (\<forall>n. a \<noteq> DoReserve i n)"
  by (cases a) (auto simp: leaves_turn_def)

primrec turn_kept :: "ConnectionId \<Rightarrow> AdmissionOp list \<Rightarrow> ReliableByteAdmission \<Rightarrow> bool" where
  "turn_kept i [] s = (GlobalWait s = Some i)"
| "turn_kept i (a # as) s =
    (GlobalWait s = Some i \<and> leaves_turn i a \<and> turn_kept i as (snd (perform a s)))"

definition refused :: "AdmissionAnswer \<Rightarrow> bool" where
  "refused x \<longleftrightarrow> (\<forall>r. x \<noteq> Receipt (Some r))"

lemma turn_perform:
  assumes "admission_inv s" "op_fits a" "GlobalWait s = Some i" "\<forall>n. a \<noteq> DoReserve i n"
  shows "refused (fst (perform a s)) \<and> accrues s (snd (perform a s))"
proof (cases "\<exists>j n. a = DoReserve j n")
  case True
  then obtain j n where a: "a = DoReserve j n" "j \<noteq> i" using assms(4) by blast
  then show ?thesis using turn_Reserve [OF assms(1,3) a(2), of n] by (simp add: refused_def)
next
  case False
  then have "accrues s (snd (perform a s))" using moves [OF assms(1,2)] accrues_gains accrues_settles by blast
  moreover have "refused (fst (perform a s))" using False by (cases a) (simp_all add: refused_def)
  ultimately show ?thesis by blast
qed

lemma turn_performs:
  "admission_inv s \<Longrightarrow> list_all op_fits as \<Longrightarrow> turn_kept i as s \<Longrightarrow>
   list_all refused (fst (performs as s)) \<and> accrues s (snd (performs as s))"
proof (induction as arbitrary: s)
  case Nil
  then show ?case by (auto simp: accrues_def ideal_level_def)
next
  case (Cons a as)
  have one: "refused (fst (perform a s)) \<and> accrues s (snd (perform a s))"
    using Cons.prems by (intro turn_perform [where i = i]) (simp_all add: leaves_turn)
  have rest: "list_all refused (fst (performs as (snd (perform a s)))) \<and>
      accrues (snd (perform a s)) (snd (performs as (snd (perform a s))))"
    using Cons.prems by (intro Cons.IH inv_perform) simp_all
  then have "accrues s (snd (performs as (snd (perform a s))))" using one accrues_trans by blast
  then show ?case using one rest by (simp add: case_prod_unfold Let_def)
qed
end
