(* ===== verification/Spec2Isabelle.thy ===== *)
theory Spec2Isabelle imports ObjectRegistry WireValue ProtocolInput BinaryCodec NetworkCore Serialization
  GameSessionProtocol RemoteProtocol ServicePolicy SchedulerFlush ChangeJournal ReplicationProtocol Transport GrantCurve
  CharacterProtocol SimulatedOrder AdmissionGuarantees
begin

text \<open>
  A verification library for the core of the Gargantuan engine (C++): the identity of objects, the journal of
  changes from which replication reads, the wire protocols, and the network service that carries them.

  The program and the theories, bottom up. Paths are below src/; a class is a record of the same name, an operation a
  function that returns the updated state, an exception or error result a value of a sum type.

  \<^item> Prelude: 64-bit arithmetic on natural numbers with the wrap-around written out, byte images of words, and the
    locale \<open>invariant_system\<close>, which every stateful component interprets.
  \<^item> ObjectRegistry (runtime/ObjectId.cpp): identities with generations. Fresh identities are new, invalidated ones
    never resolve again.
  \<^item> WireValue, ProtocolInput (runtime/WireValue.hpp, runtime/ProtocolInput.cpp): the values that cross the wire and
    the validation of untrusted input. The UTF-8 loop accepts exactly well-formed UTF-8, the JSON limits are exact.
  \<^item> BinaryCodec, ReadCalculus (network/BinaryCodec.cpp): the bounded writer and reader. The locale \<open>codec\<close> is the
    contract of a write and a read function that fit, interpreted on every pair in the file; ReadCalculus generalises
    it to readers that return an image of what was written.
  \<^item> NetworkCore, Serialization (network/Connection, Limits, Delivery, Sequence, MessageIntent, Outcome;
    serialization/SerializationError.hpp): the vocabulary. Connections follow a one-way life cycle, negotiation is a meet.
  \<^item> GameSessionProtocol, RemoteProtocol, Replication, ReplicationProtocol, CompactFloat, CharacterProtocol
    (network/GameSessionProtocol.cpp, Remote.cpp, RemoteProtocol.cpp, Replication.cpp, ReplicationProtocol.cpp,
    CharacterProtocol.cpp): the frames. For each protocol the decoder inverts the encoder, and what it accepts is valid;
    where the code loses information (quantised states, prepared publications, negative deadlines) the theorem says
    exactly what arrives.
  \<^item> ServicePolicy (network/OrdinaryServicePolicy.hpp): token buckets. The traffic in any window stays within burst and
    rate, over all connections and interleavings; the locale \<open>token_bucket\<close> is interpreted on the four buckets.
  \<^item> Scheduler, SchedulerFlush (network/Scheduler.cpp): queues, limits, supersession and the flush loop. Statistics are
    exact in every reachable state, a flush keeps its budget, preserves order and is fair.
  \<^item> ChangeJournal (runtime/ChangeJournal.cpp): streams with retention, cursors, batches. A consumer that polls misses
    nothing: the locale \<open>gapless_source\<close> refines the journal to a list of all records.
  \<^item> ServiceProfile, ByteAdmission (network/ReliableServiceProfile.cpp, network/ReliableByteAdmission.hpp): the deployment
    profile and the admission of reliable bytes, by reservation or from a pool, with credits, backlogs, grants, debts
    and a turn for the server's credit. AdmissionEvidence: what is recorded for qualification decides nothing.
    AdmissionInvariant, AdmissionSteps, AdmissionHistories: a refill is an ideal bucket, and every operation keeps the
    accounts. AdmissionFunds, AdmissionGuarantees: the bucket of the server is an interpretation of \<open>token_bucket\<close>, so
    what is accepted is paid for, and a peer that has the turn is not starved.
  \<^item> GrantCurve (network/FiniteGrantServiceCurve.hpp): the service certificates of a grant, against a reference
    definition over the trace of observations.
  \<^item> Transport (network/Transport.cpp), SimulatedTransport, SimulatedInvariant and SimulatedOrder
    (network/SimulatedTransport.cpp): endpoints and events, and the network in one process with its clock, schedule,
    links and transports. In every reachable state the assertions hold, no lifecycle event lacks its place, and the
    accounting cannot underflow; over every history, what is polled from a connection is the beginning of what was
    sent towards it.

  How the parts interact: a session or replication message is encoded by a protocol theory, becomes a message intent of
  NetworkCore, is accepted by the service policy, queued by the scheduler and handed to a transport, whose events carry
  it to a decoder at the other side. Replication reads its operations from the change journal and names objects with the
  identities of the registry. The byte admission decides which structural frames may be encoded at all.

  Bounds. Loops are structural or have a measure (the length of the schedule for \<open>Pump\<close>, the bytes left for readers), so
  no definition needs fuel. Sizes that the code adds or subtracts as 64-bit numbers use the operations of Prelude; limits
  are compared before they are added, as in the code. Floats are bit patterns; the doubles of the simulated network are
  only compared, so a rational number stands for them.

  Parameters stand for code outside the repository: the glm functions on rotations (CharacterProtocol), the size of a value
  as JSON and the set of registered schemas (ReplicationProtocol), the transport that a flush calls (Scheduler).

  Not modelled. The session state machine, replication coordination and relevance, the remote manager and the native
  transport live on the instance tree, the script engine or a library outside the repository. The editor, the user
  interface, rendering, physics, audio, packaging, files and hosts are input and output or floating-point
  simulation. Threads: each modelled operation is one step, as its mutex makes it; memory exhaustion, logging and traces
  for diagnostics are left out. Of the simulated network the loss ratio, derived from two counters, is left out.
  The caller of the byte admission keeps to times and exposures that fit (\<open>op_fits\<close>); a sink for evidence is the list of
  what it records, because the code never reads it back.
\<close>

end
